(* ===== verification/Vault_Prelude.thy ===== *)
theory Vault_Prelude
  imports Main "HOL-Library.Word" "HOL-Library.Char_ord" "HOL-Library.List_Lexorder"
    "HOL-Library.Sublist"
begin

text \<open>
  The vocabulary every other theory shares: byte strings, error values in the shape Go's
  error values have (a message, a wrapped error, a gRPC status, a permanent error), the
  sequencing of fallible steps, and the parts of Go's \<open>strings\<close>, \<open>strconv\<close> and
  \<open>encoding/hex\<close> packages that the program calls, with the facts about them that the
  component theories need.

  A Go \<open>string\<close> and a Go \<open>[]byte\<close> are both a HOL \<^typ>\<open>string\<close>: one \<^typ>\<open>char\<close> is one byte.
\<close>

type_synonym bytes = string

named_theorems vault_defs \<open>definitions unfolded to evaluate a concrete input\<close>
named_theorems result_simps \<open>rewriting of sequenced fallible steps\<close>

section \<open>Error values\<close>

datatype code =
    OK | Canceled | Unknown | InvalidArgument | DeadlineExceeded | NotFound | AlreadyExists
  | PermissionDenied | ResourceExhausted | FailedPrecondition | Aborted | OutOfRange
  | Unimplemented | Internal | Unavailable | DataLoss | Unauthenticated

text \<open>
  \<open>Errorf s\<close> is \<open>fmt.Errorf(s, ...)\<close> without a wrapped error, \<open>Wrap s e\<close> is
  \<open>fmt.Errorf(s, ..., e)\<close> with \<open>%w\<close>, \<open>Status c s\<close> is \<open>status.Error(c, s)\<close> or
  \<open>status.Errorf(c, s, ...)\<close>, \<open>Permanent e\<close> is \<open>retry.Permanent(e)\<close>, and
  \<open>NetErr timeout temporary\<close> is a \<open>net.Error\<close> with these two answers. The string is the
  format the source writes; its operands are not kept.
\<close>

datatype error =
    Errorf string
  | Wrap string error
  | Status code string
  | Permanent error
  | NetErr bool bool

type_synonym 'a result = "error + 'a"

definition bindE :: "'e + 'a \<Rightarrow> ('a \<Rightarrow> 'e + 'b) \<Rightarrow> 'e + 'b" where
  "bindE m f = (case m of Inl e \<Rightarrow> Inl e | Inr x \<Rightarrow> f x)"

definition guardE :: "bool \<Rightarrow> 'e \<Rightarrow> 'e + unit" where
  "guardE b e = (if b then Inr () else Inl e)"

definition mapErr :: "('e \<Rightarrow> 'f) \<Rightarrow> 'e + 'a \<Rightarrow> 'f + 'a" where
  "mapErr g m = (case m of Inl e \<Rightarrow> Inl (g e) | Inr x \<Rightarrow> Inr x)"

definition is_ok :: "'e + 'a \<Rightarrow> bool" where
  "is_ok m = (case m of Inl _ \<Rightarrow> False | Inr _ \<Rightarrow> True)"

lemma bindE_simps [simp]:
  "bindE (Inl e) f = Inl e"
  "bindE (Inr x) f = f x"
  by (simp_all add: bindE_def)

lemma bindE_eq_Inr [result_simps]: "bindE m f = Inr y \<longleftrightarrow> (\<exists>x. m = Inr x \<and> f x = Inr y)"
  by (cases m) auto

lemma bindE_eq_Inl: "bindE m f = Inl e \<longleftrightarrow> m = Inl e \<or> (\<exists>x. m = Inr x \<and> f x = Inl e)"
  by (cases m) auto

lemma guardE_simps [simp]:
  "guardE True e = Inr ()"
  "guardE False e = Inl e"
  by (simp_all add: guardE_def)

lemma guardE_eq_Inr [result_simps]: "guardE b e = Inr u \<longleftrightarrow> b"
  by (cases b) auto

lemma guardE_eq_Inl: "guardE b e = Inl d \<longleftrightarrow> \<not> b \<and> d = e"
  by (cases b) auto

lemma mapErr_eq_Inr [result_simps]: "mapErr g m = Inr y \<longleftrightarrow> m = Inr y"
  by (cases m) (auto simp: mapErr_def)

lemma mapErr_simps [simp]:
  "mapErr g (Inl e) = Inl (g e)"
  "mapErr g (Inr x) = Inr x"
  by (simp_all add: mapErr_def)

lemma is_ok_simps [simp]:
  "is_ok (Inl e) \<longleftrightarrow> False"
  "is_ok (Inr x) \<longleftrightarrow> True"
  by (simp_all add: is_ok_def)

lemma is_ok_iff: "is_ok m \<longleftrightarrow> (\<exists>x. m = Inr x)"
  by (cases m) auto

text \<open>A loop over a list that stops at the first error.\<close>

fun foldE :: "('a \<Rightarrow> 's \<Rightarrow> 'e + 's) \<Rightarrow> 'a list \<Rightarrow> 's \<Rightarrow> 'e + 's" where
  "foldE f [] s = Inr s"
| "foldE f (x # xs) s = bindE (f x s) (foldE f xs)"

lemma foldE_append: "foldE f (xs @ ys) s = bindE (foldE f xs s) (foldE f ys)"
  by (induction xs arbitrary: s) (auto simp: bindE_def split: sum.splits)

lemma foldE_invariant:
  assumes "\<And>x s t. x \<in> set xs \<Longrightarrow> P s \<Longrightarrow> f x s = Inr t \<Longrightarrow> P t"
    and "foldE f xs s = Inr t" and "P s"
  shows "P t"
  using assms
proof (induction xs arbitrary: s)
  case Nil
  then show ?case by simp
next
  case (Cons x xs)
  from Cons.prems(2) obtain u where u: "f x s = Inr u" "foldE f xs u = Inr t"
    by (auto simp: result_simps)
  have "P u" using Cons.prems(1) [OF _ Cons.prems(3) u(1)] by simp
  then show ?case using Cons.IH [OF _ u(2)] Cons.prems(1) by (meson list.set_intros(2))
qed

text \<open>The same over a state that keeps what was done before the error.\<close>

fun foldS :: "('a \<Rightarrow> 's \<Rightarrow> 's \<times> ('e + unit)) \<Rightarrow> 'a list \<Rightarrow> 's \<Rightarrow> 's \<times> ('e + unit)" where
  "foldS f [] s = (s, Inr ())"
| "foldS f (x # xs) s = (case f x s of (s', Inl e) \<Rightarrow> (s', Inl e) | (s', Inr _) \<Rightarrow> foldS f xs s')"

lemma foldS_append:
  "foldS f (xs @ ys) s = (case foldS f xs s of (s', Inl e) \<Rightarrow> (s', Inl e) | (s', Inr _) \<Rightarrow> foldS f ys s')"
  by (induction xs arbitrary: s) (auto split: prod.splits sum.splits)

lemma foldS_invariant:
  assumes "\<And>x s s' r. x \<in> set xs \<Longrightarrow> P s \<Longrightarrow> f x s = (s', r) \<Longrightarrow> P s'"
    and "foldS f xs s = (s', r)" and "P s"
  shows "P s'"
  using assms
proof (induction xs arbitrary: s)
  case Nil
  then show ?case by simp
next
  case (Cons x xs)
  obtain s1 r1 where f: "f x s = (s1, r1)" by force
  have "P s1" using Cons.prems(1) [OF _ Cons.prems(3) f] by simp
  then show ?case
    using Cons.prems f Cons.IH [of s1] by (cases r1) (auto simp: list.set_intros(2))
qed

text \<open>The first element a check rejects, as the early return of a validation loop.\<close>

fun firstErr :: "('a \<Rightarrow> 'e option) \<Rightarrow> 'a list \<Rightarrow> 'e option" where
  "firstErr f [] = None"
| "firstErr f (x # xs) = (case f x of Some e \<Rightarrow> Some e | None \<Rightarrow> firstErr f xs)"

lemma firstErr_None: "firstErr f xs = None \<longleftrightarrow> (\<forall>x \<in> set xs. f x = None)"
  by (induction xs) (auto split: option.splits)

definition orElse :: "'e option \<Rightarrow> 'e option \<Rightarrow> 'e option" where
  "orElse a b = (case a of Some e \<Rightarrow> Some e | None \<Rightarrow> b)"

lemma orElse_None [simp]: "orElse a b = None \<longleftrightarrow> a = None \<and> b = None"
  by (auto simp: orElse_def split: option.splits)

lemma orElse_simps [simp]: "orElse None b = b" "orElse (Some e) b = Some e"
  by (simp_all add: orElse_def)

definition failIf :: "bool \<Rightarrow> 'e \<Rightarrow> 'e option" where
  "failIf b e = (if b then Some e else None)"

lemma failIf_None [simp]: "failIf b e = None \<longleftrightarrow> \<not> b"
  by (simp add: failIf_def)

lemma failIf_simps [simp]: "failIf True e = Some e" "failIf False e = None"
  by (simp_all add: failIf_def)

section \<open>Fallible steps over a state\<close>

text \<open>
  A step that reads and changes a state and then returns or fails: the state is there after
  an error too, as the effects of a Go function stay when it returns an error.
\<close>

type_synonym ('s, 'a) step = "'s \<Rightarrow> 's \<times> 'a result"

definition returnS :: "'a \<Rightarrow> ('s, 'a) step" where
  "returnS x s = (s, Inr x)"

definition failS :: "error \<Rightarrow> ('s, 'a) step" where
  "failS e s = (s, Inl e)"

definition bindS :: "('s, 'a) step \<Rightarrow> ('a \<Rightarrow> ('s, 'b) step) \<Rightarrow> ('s, 'b) step" where
  "bindS m f s = (case m s of (s', Inl e) \<Rightarrow> (s', Inl e) | (s', Inr x) \<Rightarrow> f x s')"

definition mapErrS :: "(error \<Rightarrow> error) \<Rightarrow> ('s, 'a) step \<Rightarrow> ('s, 'a) step" where
  "mapErrS g m s = (case m s of (s', r) \<Rightarrow> (s', mapErr g r))"

definition checkS :: "error option \<Rightarrow> ('s, unit) step" where
  "checkS e s = (case e of Some e' \<Rightarrow> (s, Inl e') | None \<Rightarrow> (s, Inr ()))"

lemmas step_defs = returnS_def failS_def bindS_def mapErrS_def checkS_def

lemma bindS_simps [simp]:
  "bindS (returnS x) f = f x"
  "bindS (failS e) f = failS e"
  "bindS (checkS None) f = f ()"
  "bindS (checkS (Some e)) f = failS e"
  by (simp_all add: step_defs fun_eq_iff)

lemma bindS_run:
  "m s = (s', Inr x) \<Longrightarrow> bindS m f s = f x s'"
  "m s = (s', Inl e) \<Longrightarrow> bindS m f s = (s', Inl e)"
  by (simp_all add: bindS_def)

lemma bindS_eq_Inr:
  "bindS m f s = (t, Inr y) \<longleftrightarrow> (\<exists>s' x. m s = (s', Inr x) \<and> f x s' = (t, Inr y))"
  by (auto simp: bindS_def split: prod.splits sum.splits)

lemma bindS_eq_Inl:
  "bindS m f s = (t, Inl e) \<longleftrightarrow>
     m s = (t, Inl e) \<or> (\<exists>s' x. m s = (s', Inr x) \<and> f x s' = (t, Inl e))"
  by (auto simp: bindS_def split: prod.splits sum.splits)

lemma mapErrS_eq_Inr [result_simps]: "mapErrS g m s = (t, Inr y) \<longleftrightarrow> m s = (t, Inr y)"
  by (auto simp: mapErrS_def mapErr_def split: prod.splits sum.splits)

lemma checkS_eq_Inr [result_simps]: "checkS e s = (t, Inr y) \<longleftrightarrow> e = None \<and> t = s"
  by (auto simp: checkS_def split: option.splits)

lemma returnS_eq_Inr [result_simps]: "returnS x s = (t, Inr y) \<longleftrightarrow> t = s \<and> y = x"
  by (auto simp: returnS_def)

lemma failS_eq_Inr [result_simps]: "failS e s = (t, Inr y) \<longleftrightarrow> False"
  by (auto simp: failS_def)

text \<open>\<open>keeps P m\<close>: whatever \<open>m\<close> returns, \<open>P\<close> holds of the state after it when it held before.\<close>

definition keeps :: "('s \<Rightarrow> bool) \<Rightarrow> ('s, 'a) step \<Rightarrow> bool" where
  "keeps P m \<longleftrightarrow> (\<forall>s. P s \<longrightarrow> P (fst (m s)))"

named_theorems keeps_intros \<open>rules for \<open>keeps\<close>\<close>

lemma keepsI: "(\<And>s. P s \<Longrightarrow> P (fst (m s))) \<Longrightarrow> keeps P m"
  by (simp add: keeps_def)

lemma keepsD: "keeps P m \<Longrightarrow> m s = (s', r) \<Longrightarrow> P s \<Longrightarrow> P s'"
  unfolding keeps_def by (metis fst_conv)

lemma keeps_return [keeps_intros]: "keeps P (returnS x)"
  by (simp add: keeps_def returnS_def)

lemma keeps_fail [keeps_intros]: "keeps P (failS e)"
  by (simp add: keeps_def failS_def)

lemma keeps_check [keeps_intros]: "keeps P (checkS e)"
  by (cases e) (simp_all add: keeps_def checkS_def)

lemma keeps_bind [keeps_intros]: "keeps P m \<Longrightarrow> (\<And>x. keeps P (f x)) \<Longrightarrow> keeps P (bindS m f)"
  by (simp add: keeps_def bindS_def case_prod_unfold split: sum.split)

lemma keeps_mapErr [keeps_intros]: "keeps P m \<Longrightarrow> keeps P (mapErrS g m)"
  by (simp add: keeps_def mapErrS_def case_prod_unfold)

lemma keeps_foldS [keeps_intros]: "(\<And>x. x \<in> set xs \<Longrightarrow> keeps P (f x)) \<Longrightarrow> keeps P (foldS f xs)"
proof (induction xs)
  case (Cons x xs)
  have "P (fst (foldS f (x # xs) s))" if "P s" for s
  proof (cases "f x s")
    case (Pair s1 r)
    then have "P s1" using keepsD [OF Cons.prems [of x] Pair \<open>P s\<close>] by simp
    moreover have "keeps P (foldS f xs)" using Cons by simp
    ultimately show ?thesis using Pair by (cases r) (simp_all add: keeps_def)
  qed
  then show ?case by (rule keepsI)
qed (simp add: keeps_def)

lemma keeps_if [keeps_intros]: "keeps P m \<Longrightarrow> keeps P n \<Longrightarrow> keeps P (if b then m else n)"
  by simp

end
