(* ===== verification/Vault_Strings.thy ===== *)
theory Vault_Strings
  imports Vault_Prelude
begin

text \<open>
  The parts of Go's \<open>strings\<close>, \<open>strconv\<close> and \<open>encoding/hex\<close> packages that the program
  calls, on byte strings: splitting and joining on one separator, trimming and field
  splitting (ASCII white space), decimal formatting and parsing with a bit size, and
  lower-case hexadecimal. The lemmas are the round trips the components rely on.
\<close>

section \<open>Splitting and joining on one separator\<close>

fun split_on :: "char \<Rightarrow> string \<Rightarrow> string list" where
  "split_on c [] = [[]]"
| "split_on c (x # xs) =
     (if x = c then [] # split_on c xs
      else (case split_on c xs of [] \<Rightarrow> [[x]] | w # ws \<Rightarrow> (x # w) # ws))"

fun join_on :: "char \<Rightarrow> string list \<Rightarrow> string" where
  "join_on c [] = []"
| "join_on c [w] = w"
| "join_on c (w # v # ws) = w @ c # join_on c (v # ws)"

lemma split_on_not_Nil [simp]: "split_on c s \<noteq> []"
  by (induction s) (auto split: list.splits)

lemma join_split [simp]: "join_on c (split_on c s) = s"
proof (induction s)
  case Nil
  then show ?case by simp
next
  case (Cons x s)
  obtain w ws where w: "split_on c s = w # ws"
    by (cases "split_on c s") auto
  with Cons show ?case by (cases ws) auto
qed

lemma split_on_no_sep [simp]: "c \<notin> set s \<Longrightarrow> split_on c s = [s]"
  by (induction s) auto

lemma split_on_append_sep:
  "c \<notin> set w \<Longrightarrow> split_on c (w @ c # s) = w # split_on c s"
  by (induction w) auto

lemma split_join [simp]:
  "ws \<noteq> [] \<Longrightarrow> \<forall>w \<in> set ws. c \<notin> set w \<Longrightarrow> split_on c (join_on c ws) = ws"
  by (induction c ws rule: join_on.induct) (auto simp: split_on_append_sep)

lemma in_split_no_sep: "w \<in> set (split_on c s) \<Longrightarrow> c \<notin> set w"
proof (induction s arbitrary: w)
  case Nil
  then show ?case by simp
next
  case (Cons x s)
  then show ?case
    by (cases "split_on c s") (auto split: if_splits)
qed

lemma join_on_inj:
  assumes "ws \<noteq> []" "vs \<noteq> []"
    and "\<forall>w \<in> set ws. c \<notin> set w" "\<forall>v \<in> set vs. c \<notin> set v"
    and "join_on c ws = join_on c vs"
  shows "ws = vs"
  using assms split_join by metis

lemma join_on_Cons: "ws \<noteq> [] \<Longrightarrow> join_on c (w # ws) = w @ c # join_on c ws"
  by (cases ws) auto

lemma join_on_append:
  "ws \<noteq> [] \<Longrightarrow> vs \<noteq> [] \<Longrightarrow> join_on c (ws @ vs) = join_on c ws @ c # join_on c vs"
proof (induction ws)
  case Nil
  then show ?case by simp
next
  case (Cons w ws)
  then show ?case by (cases ws) (auto simp: join_on_Cons)
qed

lemma join_on_eq_Nil: "join_on c ws = [] \<longleftrightarrow> ws = [] \<or> ws = [[]]"
  by (induction c ws rule: join_on.induct) auto

lemma set_join_on: "x \<in> set (join_on c ws) \<Longrightarrow> x = c \<or> (\<exists>w \<in> set ws. x \<in> set w)"
  by (induction c ws rule: join_on.induct) auto

text \<open>\<open>strings.CutPrefix\<close> and \<open>strings.TrimPrefix\<close>.\<close>

fun cut_prefix :: "string \<Rightarrow> string \<Rightarrow> string option" where
  "cut_prefix [] s = Some s"
| "cut_prefix (p # ps) [] = None"
| "cut_prefix (p # ps) (x # xs) = (if p = x then cut_prefix ps xs else None)"

definition trim_prefix :: "string \<Rightarrow> string \<Rightarrow> string" where
  "trim_prefix p s = (case cut_prefix p s of Some r \<Rightarrow> r | None \<Rightarrow> s)"

lemma cut_prefix_iff: "cut_prefix p s = Some r \<longleftrightarrow> s = p @ r"
  by (induction p s rule: cut_prefix.induct) auto

lemma cut_prefix_append [simp]: "cut_prefix p (p @ r) = Some r"
  by (simp add: cut_prefix_iff)

lemma trim_prefix_append [simp]: "trim_prefix p (p @ r) = r"
  by (simp add: trim_prefix_def)

section \<open>White space\<close>

definition is_space :: "char \<Rightarrow> bool" where
  "is_space c \<longleftrightarrow> c \<in> {CHR 0x09, CHR 0x0A, CHR 0x0B, CHR 0x0C, CHR 0x0D, CHR '' ''}"

definition trim_space :: "string \<Rightarrow> string" where
  "trim_space s = rev (dropWhile is_space (rev (dropWhile is_space s)))"

definition blank :: "string \<Rightarrow> bool" where
  "blank s \<longleftrightarrow> trim_space s = []"

lemma blank_iff: "blank s \<longleftrightarrow> (\<forall>c \<in> set s. is_space c)"
proof -
  have "trim_space s = [] \<longleftrightarrow> (\<forall>c \<in> set (dropWhile is_space s). is_space c)"
    by (simp add: trim_space_def dropWhile_eq_Nil_conv)
  also have "\<dots> \<longleftrightarrow> (\<forall>c \<in> set s. is_space c)"
    by (induction s) auto
  finally show ?thesis by (simp add: blank_def)
qed

lemma blank_Nil [simp]: "blank []"
  by (simp add: blank_iff)

text \<open>\<open>strings.Fields\<close>: the maximal runs of non-space bytes.\<close>

fun fields_aux :: "string \<Rightarrow> string \<Rightarrow> string list" where
  "fields_aux acc [] = (if acc = [] then [] else [rev acc])"
| "fields_aux acc (c # s) =
     (if is_space c then (if acc = [] then fields_aux [] s else rev acc # fields_aux [] s)
      else fields_aux (c # acc) s)"

definition fields :: "string \<Rightarrow> string list" where
  "fields s = fields_aux [] s"

section \<open>Decimal numbers\<close>

definition digit :: "nat \<Rightarrow> char" where
  "digit d = char_of (48 + d)"

definition is_digit :: "char \<Rightarrow> bool" where
  "is_digit c \<longleftrightarrow> CHR ''0'' \<le> c \<and> c \<le> CHR ''9''"

definition digit_val :: "char \<Rightarrow> nat" where
  "digit_val c = of_char c - 48"

lemma digit_facts:
  assumes "d < 10"
  shows "is_digit (digit d)" "digit_val (digit d) = d"
proof -
  from assms have "d \<in> {0,1,2,3,4,5,6,7,8,9}" by auto
  then show "is_digit (digit d)" "digit_val (digit d) = d"
    by (auto simp: is_digit_def digit_def digit_val_def less_eq_char_def)
qed

text \<open>\<open>strconv.FormatUint(n, 10)\<close>, and \<open>strconv.FormatInt\<close> with the sign in front.\<close>

fun format_uint :: "nat \<Rightarrow> string" where
  "format_uint n = (if n < 10 then [digit n] else format_uint (n div 10) @ [digit (n mod 10)])"

declare format_uint.simps [simp del]

definition format_int :: "int \<Rightarrow> string" where
  "format_int i = (if i < 0 then CHR ''-'' # format_uint (nat (- i)) else format_uint (nat i))"

definition digits_val :: "nat \<Rightarrow> string \<Rightarrow> nat" where
  "digits_val = foldl (\<lambda>n c. n * 10 + digit_val c)"

text \<open>
  \<open>strconv.ParseUint(s, 10, bits)\<close>: at least one digit, digits only, and a value that fits
  in \<open>bits\<close> bits. \<open>strconv.ParseInt(s, 10, bits)\<close>: an optional sign, then the same digits,
  and a value in the signed range.
\<close>

definition parse_uint :: "nat \<Rightarrow> string \<Rightarrow> nat result" where
  "parse_uint bits s =
     (if s = [] \<or> \<not> list_all is_digit s then Inl (Errorf ''invalid syntax'')
      else let n = digits_val 0 s
           in if n < 2 ^ bits then Inr n else Inl (Errorf ''value out of range''))"

definition parse_int :: "nat \<Rightarrow> string \<Rightarrow> int result" where
  "parse_int bits s =
     (let neg = (case s of c # _ \<Rightarrow> c = CHR ''-'' | [] \<Rightarrow> False);
          ds = (case s of c # r \<Rightarrow> if c = CHR ''-'' \<or> c = CHR ''+'' then r else s | [] \<Rightarrow> s)
      in if ds = [] \<or> \<not> list_all is_digit ds then Inl (Errorf ''invalid syntax'')
         else let n = digits_val 0 ds
              in if \<not> neg \<and> n < 2 ^ (bits - 1) then Inr (int n)
                 else if neg \<and> n \<le> 2 ^ (bits - 1) then Inr (- int n)
                 else Inl (Errorf ''value out of range''))"

lemma format_uint_digits: "list_all is_digit (format_uint n)"
proof (induction n rule: format_uint.induct)
  case (1 n)
  then show ?case by (subst format_uint.simps) (auto simp: digit_facts)
qed

lemma format_uint_not_Nil [simp]: "format_uint n \<noteq> []"
  by (subst format_uint.simps) auto

lemma digits_val_format [simp]: "digits_val 0 (format_uint n) = n"
proof (induction n rule: format_uint.induct)
  case (1 n)
  then show ?case
    by (subst format_uint.simps) (auto simp: digit_facts digits_val_def)
qed

lemma format_uint_inj: "format_uint m = format_uint n \<Longrightarrow> m = n"
  by (metis digits_val_format)

lemma format_uint_no_sign: "format_uint n = c # r \<Longrightarrow> c \<noteq> CHR ''-'' \<and> c \<noteq> CHR ''+''"
  using format_uint_digits [of n]
  by (auto simp: is_digit_def less_eq_char_def)

lemma format_int_inj: "format_int i = format_int j \<Longrightarrow> i = j"
proof -
  assume eq: "format_int i = format_int j"
  have "format_uint (nat (- i)) = format_uint (nat (- j)) \<Longrightarrow> i < 0 \<Longrightarrow> j < 0 \<Longrightarrow> i = j" for i j
    using format_uint_inj [of "nat (- i)" "nat (- j)"] by simp
  with eq show ?thesis
    using format_uint_no_sign [of "nat i" "CHR ''-''" "format_uint (nat (- j))"]
      format_uint_no_sign [of "nat j" "CHR ''-''" "format_uint (nat (- i))"]
      format_uint_inj [of "nat i" "nat j"]
    by (auto simp: format_int_def split: if_splits)
qed

lemma parse_uint_format: "n < 2 ^ bits \<Longrightarrow> parse_uint bits (format_uint n) = Inr n"
  by (simp add: parse_uint_def format_uint_digits)

lemma parse_uint_bound: "parse_uint bits s = Inr n \<Longrightarrow> n < 2 ^ bits"
  by (auto simp: parse_uint_def Let_def split: if_splits)

lemma parse_int_format:
  "parse_int bits (format_uint n) =
     (if n < 2 ^ (bits - 1) then Inr (int n) else Inl (Errorf ''value out of range''))"
proof -
  obtain c r where cr: "format_uint n = c # r"
    by (cases "format_uint n") auto
  with format_uint_no_sign [OF cr] show ?thesis
    using format_uint_digits [of n] digits_val_format [of n]
    by (simp add: parse_int_def Let_def)
qed

lemma neg_int_less_power: "- int n < 2 ^ k"
proof -
  have "- int n \<le> 0" by simp
  also have "(0::int) < 2 ^ k" by simp
  finally show ?thesis .
qed

lemma neg_power_le_int: "- (2 ^ k) \<le> int n"
proof -
  have "- (2 ^ k) \<le> (0::int)" by simp
  also have "0 \<le> int n" by simp
  finally show ?thesis .
qed

lemma parse_int_bounds:
  "parse_int bits s = Inr i \<Longrightarrow> - (2 ^ (bits - 1)) \<le> i \<and> i < 2 ^ (bits - 1)"
  by (auto simp: parse_int_def Let_def neg_int_less_power neg_power_le_int split: if_splits)

section \<open>Hexadecimal\<close>

definition hex_digit :: "nat \<Rightarrow> char" where
  "hex_digit d = (if d < 10 then char_of (48 + d) else char_of (87 + d))"

definition hex_byte :: "char \<Rightarrow> string" where
  "hex_byte c = [hex_digit (of_char c div 16), hex_digit (of_char c mod 16)]"

definition hex_encode :: "bytes \<Rightarrow> string" where
  "hex_encode b = concat (map hex_byte b)"

lemma of_char_less_256: "(of_char (c::char) :: nat) < 256"
  by (metis nat_of_char_less_256)

lemma hex_digit_inj: "a < 16 \<Longrightarrow> b < 16 \<Longrightarrow> hex_digit a = hex_digit b \<Longrightarrow> a = b"
  by (auto simp: hex_digit_def char_of_eq_iff take_bit_eq_mod split: if_splits)

lemma hex_byte_inj: "hex_byte a = hex_byte b \<Longrightarrow> a = b"
proof -
  assume "hex_byte a = hex_byte b"
  then have "hex_digit (of_char a div 16) = hex_digit (of_char b div 16)"
    and "hex_digit (of_char a mod 16) = hex_digit (of_char b mod 16)"
    by (auto simp: hex_byte_def)
  moreover have "(of_char a :: nat) div 16 < 16" "(of_char b :: nat) div 16 < 16"
    using of_char_less_256 [of a] of_char_less_256 [of b]
    by (auto intro!: less_mult_imp_div_less)
  ultimately have "(of_char a :: nat) div 16 = of_char b div 16"
    and "(of_char a :: nat) mod 16 = of_char b mod 16"
    by (auto intro: hex_digit_inj)
  then have "(of_char a :: nat) = of_char b"
    by (metis div_mult_mod_eq)
  then show "a = b" by simp
qed

lemma hex_encode_inj: "hex_encode a = hex_encode b \<Longrightarrow> a = b"
proof (induction a arbitrary: b)
  case Nil
  then show ?case by (cases b) (auto simp: hex_encode_def hex_byte_def)
next
  case (Cons x a)
  then obtain y b' where b: "b = y # b'"
    by (cases b) (auto simp: hex_encode_def hex_byte_def)
  with Cons.prems have "hex_byte x @ hex_encode a = hex_byte y @ hex_encode b'"
    by (simp add: hex_encode_def)
  then have "hex_byte x = hex_byte y" "hex_encode a = hex_encode b'"
    by (auto simp: hex_byte_def)
  with b show ?case using Cons.IH hex_byte_inj by blast
qed

end
