(* ===== verification/Vault_Paths.thy ===== *)
theory Vault_Paths
  imports Vault_Strings
begin

text \<open>
  Go's \<open>path/filepath\<close> on Unix, as far as the program uses it: \<open>Clean\<close>, \<open>IsAbs\<close>,
  \<open>Join\<close>, \<open>Dir\<close>, \<open>Rel\<close>, and the prefix tests the program writes on their results.
  All functions work on the strings the program handles. The lemmas translate the string
  tests into facts about lists of path components: an absolute cleaned path is
  \<open>abs_path ws\<close> for a list \<open>ws\<close> of normal components, and \<open>abs_path\<close> is injective on them.
\<close>

section \<open>Cleaning\<close>

fun clean_step :: "bool \<Rightarrow> string list \<Rightarrow> string \<Rightarrow> string list" where
  "clean_step rooted acc w =
     (if w = '''' \<or> w = ''.'' then acc
      else if w = ''..'' then
        (case acc of
           t # acc' \<Rightarrow> if t \<noteq> ''..'' then acc' else ''..'' # acc
         | [] \<Rightarrow> if rooted then [] else [''..''])
      else w # acc)"

declare clean_step.simps [simp del]

definition clean_comps :: "bool \<Rightarrow> string list \<Rightarrow> string list" where
  "clean_comps rooted ws = rev (foldl (clean_step rooted) [] ws)"

definition is_abs :: "string \<Rightarrow> bool" where
  "is_abs p = (case p of c # _ \<Rightarrow> c = CHR ''/'' | [] \<Rightarrow> False)"

definition path_join :: "string list \<Rightarrow> string" where
  "path_join ws = join_on CHR ''/'' ws"

definition abs_path :: "string list \<Rightarrow> string" where
  "abs_path ws = CHR ''/'' # path_join ws"

definition abs_comps :: "string \<Rightarrow> string list" where
  "abs_comps p = clean_comps True (split_on CHR ''/'' p)"

definition rel_comps :: "string \<Rightarrow> string list" where
  "rel_comps p = clean_comps False (split_on CHR ''/'' p)"

definition Clean :: "string \<Rightarrow> string" where
  "Clean p =
     (if is_abs p then abs_path (abs_comps p)
      else if rel_comps p = [] then ''.'' else path_join (rel_comps p))"

definition normal :: "string \<Rightarrow> bool" where
  "normal w \<longleftrightarrow> w \<noteq> '''' \<and> w \<noteq> ''.'' \<and> w \<noteq> ''..'' \<and> CHR ''/'' \<notin> set w"

definition normals :: "string list \<Rightarrow> bool" where
  "normals ws \<longleftrightarrow> list_all normal ws"

lemma normals_simps [simp]:
  "normals []"
  "normals (w # ws) \<longleftrightarrow> normal w \<and> normals ws"
  "normals (ws @ vs) \<longleftrightarrow> normals ws \<and> normals vs"
  "normals (rev ws) \<longleftrightarrow> normals ws"
  by (auto simp: normals_def list_all_iff)

lemma normals_no_sep: "normals ws \<Longrightarrow> \<forall>w \<in> set ws. CHR ''/'' \<notin> set w"
  by (auto simp: normals_def normal_def list_all_iff)

lemma is_abs_simps [simp]:
  "\<not> is_abs []"
  "is_abs (c # s) \<longleftrightarrow> c = CHR ''/''"
  by (simp_all add: is_abs_def)

lemma is_abs_append [simp]: "is_abs p \<Longrightarrow> is_abs (p @ q)"
  by (cases p) auto

lemma is_abs_abs_path [simp]: "is_abs (abs_path ws)"
  by (simp add: abs_path_def)

lemma clean_step_normal: "normal w \<Longrightarrow> clean_step r acc w = w # acc"
  by (simp add: clean_step.simps normal_def)

lemma foldl_clean_normal: "normals ws \<Longrightarrow> foldl (clean_step r) acc ws = rev ws @ acc"
  by (induction ws arbitrary: acc) (auto simp: clean_step_normal)

lemma clean_step_rooted_normals:
  "CHR ''/'' \<notin> set w \<Longrightarrow> normals acc \<Longrightarrow> normals (clean_step True acc w)"
  by (auto simp: clean_step.simps normal_def split: list.splits)

lemma foldl_clean_rooted_normals:
  "\<forall>w \<in> set ws. CHR ''/'' \<notin> set w \<Longrightarrow> normals acc \<Longrightarrow>
   normals (foldl (clean_step True) acc ws)"
  by (induction ws arbitrary: acc) (auto simp: clean_step_rooted_normals)

lemma abs_comps_normals [simp]: "normals (abs_comps p)"
  using foldl_clean_rooted_normals [of "split_on CHR ''/'' p" "[]"]
  by (auto simp: abs_comps_def clean_comps_def dest: in_split_no_sep)

lemma clean_step_empty [simp]: "clean_step r acc [] = acc"
  by (simp add: clean_step.simps)

lemma split_abs_path:
  "normals ws \<Longrightarrow> split_on CHR ''/'' (abs_path ws) = [] # (if ws = [] then [[]] else ws)"
  using normals_no_sep by (auto simp: abs_path_def path_join_def)

lemma abs_comps_abs_path [simp]: "normals ws \<Longrightarrow> abs_comps (abs_path ws) = ws"
  by (simp add: abs_comps_def clean_comps_def split_abs_path foldl_clean_normal)

lemma abs_path_inj: "normals ws \<Longrightarrow> normals vs \<Longrightarrow> abs_path ws = abs_path vs \<Longrightarrow> ws = vs"
  by (metis abs_comps_abs_path)

lemma Clean_abs: "is_abs p \<Longrightarrow> Clean p = abs_path (abs_comps p)"
  by (simp add: Clean_def)

lemma Clean_abs_path [simp]: "normals ws \<Longrightarrow> Clean (abs_path ws) = abs_path ws"
  by (simp add: Clean_abs)

lemma is_abs_Clean [simp]: "is_abs p \<Longrightarrow> is_abs (Clean p)"
  by (simp add: Clean_abs)

lemma abs_comps_Clean [simp]: "is_abs p \<Longrightarrow> abs_comps (Clean p) = abs_comps p"
  by (simp add: Clean_abs)

lemma split_on_append:
  "split_on c (a @ c # b) = split_on c a @ split_on c b"
proof (induction a)
  case Nil
  then show ?case by simp
next
  case (Cons x a)
  then show ?case by (cases "split_on c a") auto
qed

lemma abs_comps_append:
  "abs_comps (b @ CHR ''/'' # r) =
     rev (foldl (clean_step True) (rev (abs_comps b)) (split_on CHR ''/'' r))"
  by (simp add: abs_comps_def clean_comps_def split_on_append)

lemma abs_comps_append_normals:
  "normals ns \<Longrightarrow> abs_comps (b @ CHR ''/'' # path_join ns) = abs_comps b @ ns"
  using normals_no_sep [of ns]
  by (cases "ns = []") (auto simp: abs_comps_append path_join_def foldl_clean_normal)

subsection \<open>Relative paths\<close>

definition dotdots :: "string list \<Rightarrow> bool" where
  "dotdots ws \<longleftrightarrow> (\<exists>n ns. ws = replicate n ''..'' @ ns \<and> normals ns)"

lemma normal_not_dotdot [simp]: "\<not> normal ''..''"
  by (simp add: normal_def)

lemma clean_step_unrooted_dotdots:
  assumes "CHR ''/'' \<notin> set w" and "dotdots (rev acc)"
  shows "dotdots (rev (clean_step False acc w))"
proof -
  obtain n ns where acc: "rev acc = replicate n ''..'' @ ns" and ns: "normals ns"
    using assms(2) by (auto simp: dotdots_def)
  consider "w = '''' \<or> w = ''.''" | "w = ''..''" | "normal w"
    using assms(1) by (auto simp: normal_def)
  then show ?thesis
  proof cases
    case 1
    with assms(2) show ?thesis by (auto simp: clean_step.simps)
  next
    case 2
    show ?thesis
    proof (cases ns rule: rev_cases)
      case Nil
      then have acc': "acc = replicate n ''..''"
        using acc by (metis append.right_neutral rev_replicate rev_rev_ident)
      then have "clean_step False acc w = replicate (Suc n) ''..''"
        using 2 by (cases n) (auto simp: clean_step.simps)
      then have "rev (clean_step False acc w) = replicate (Suc n) ''..'' @ []"
        by (metis append.right_neutral rev_replicate)
      then show ?thesis unfolding dotdots_def by (metis normals_simps(1))
    next
      case (snoc ms m)
      then have "rev acc = (replicate n ''..'' @ ms) @ [m]" using acc by simp
      then have "acc = m # rev (replicate n ''..'' @ ms)"
        by (metis rev_eq_Cons_iff rev_rev_ident)
      moreover have "m \<noteq> ''..''" using snoc ns by auto
      ultimately have "rev (clean_step False acc w) = replicate n ''..'' @ ms"
        using 2 by (simp add: clean_step.simps)
      with snoc ns show ?thesis unfolding dotdots_def by auto
    qed
  next
    case 3
    then have "rev (clean_step False acc w) = replicate n ''..'' @ (ns @ [w])"
      using acc by (simp add: clean_step_normal)
    moreover have "normals (ns @ [w])" using ns 3 by simp
    ultimately show ?thesis unfolding dotdots_def by blast
  qed
qed

lemma rel_comps_dotdots: "dotdots (rel_comps p)"
proof -
  have "\<forall>w \<in> set ws. CHR ''/'' \<notin> set w \<Longrightarrow> dotdots (rev acc) \<Longrightarrow>
      dotdots (rev (foldl (clean_step False) acc ws))" for ws acc
    by (induction ws arbitrary: acc) (auto simp: clean_step_unrooted_dotdots)
  moreover have "dotdots (rev [])" unfolding dotdots_def by (intro exI [of _ 0]) auto
  moreover have "\<forall>w \<in> set (split_on CHR ''/'' p). CHR ''/'' \<notin> set w"
    using in_split_no_sep by blast
  ultimately show ?thesis unfolding rel_comps_def clean_comps_def by blast
qed

text \<open>What a relative path that passes the program's four tests looks like.\<close>

definition inside :: "string \<Rightarrow> bool" where
  "inside c \<longleftrightarrow> c \<noteq> ''.'' \<and> c \<noteq> ''..'' \<and> \<not> prefix ''../'' c"

lemma inside_normals:
  assumes "\<not> is_abs p" and "inside (Clean p)"
  obtains ns where "ns \<noteq> []" "normals ns" "Clean p = path_join ns" "rel_comps p = ns"
proof -
  obtain n ns where r: "rel_comps p = replicate n ''..'' @ ns" and ns: "normals ns"
    using rel_comps_dotdots [of p] by (auto simp: dotdots_def)
  have ne: "rel_comps p \<noteq> []" using assms by (auto simp: Clean_def inside_def)
  then have c: "Clean p = path_join (rel_comps p)" using assms(1) by (simp add: Clean_def)
  have "n = 0"
  proof (rule ccontr)
    assume "n \<noteq> 0"
    then obtain rest where rest: "rel_comps p = ''..'' # rest" using r by (cases n) auto
    show False
    proof (cases rest)
      case Nil
      then show False using c rest assms(2) by (simp add: inside_def path_join_def)
    next
      case (Cons a list)
      then have "Clean p = ''../'' @ path_join rest"
        using c rest by (simp add: path_join_def)
      then show False using assms(2) by (simp add: inside_def)
    qed
  qed
  with r ne c ns that show thesis by simp
qed

lemma Clean_path_join:
  assumes "normals ns" "ns \<noteq> []"
  shows "Clean (path_join ns) = path_join ns" "\<not> is_abs (path_join ns)"
    "inside (path_join ns)"
proof -
  obtain n ms where ns: "ns = n # ms" using assms by (cases ns) auto
  have nn: "normal n" using ns assms by simp
  have j: "path_join ns = n @ (if ms = [] then [] else CHR ''/'' # path_join ms)"
    using ns by (cases ms) (auto simp: path_join_def)
  show na: "\<not> is_abs (path_join ns)"
    using nn j by (cases n) (auto simp: normal_def)
  have "rel_comps (path_join ns) = ns"
    using assms normals_no_sep [of ns]
    by (simp add: rel_comps_def clean_comps_def path_join_def foldl_clean_normal)
  with na assms show "Clean (path_join ns) = path_join ns" by (simp add: Clean_def)
  have head: "takeWhile (\<lambda>c. c \<noteq> CHR ''/'') (path_join ns) = n"
  proof -
    have "\<forall>x \<in> set n. x \<noteq> CHR ''/''" using nn by (auto simp: normal_def)
    then show ?thesis using j by (simp add: takeWhile_append2)
  qed
  have "takeWhile (\<lambda>c. c \<noteq> CHR ''/'') ''.'' = ''.''"
    "takeWhile (\<lambda>c. c \<noteq> CHR ''/'') ''..'' = ''..''"
    "\<And>z. takeWhile (\<lambda>c. c \<noteq> CHR ''/'') (''../'' @ z) = ''..''" by simp_all
  with head nn show "inside (path_join ns)"
    by (auto simp: inside_def normal_def prefix_def)
qed

section \<open>Join, Dir and Rel\<close>

text \<open>
  \<open>filepath.Join\<close> drops leading empty elements, joins the rest with the separator and
  cleans the result; with no non-empty element it is the empty string.
\<close>

definition Join :: "string list \<Rightarrow> string" where
  "Join es =
     (case dropWhile (\<lambda>e. e = []) es of
        [] \<Rightarrow> []
      | d # ds \<Rightarrow> Clean (path_join (d # ds)))"

definition Dir :: "string \<Rightarrow> string" where
  "Dir p = Clean (rev (dropWhile (\<lambda>c. c \<noteq> CHR ''/'') (rev p)))"

fun strip_common :: "string list \<Rightarrow> string list \<Rightarrow> string list \<times> string list" where
  "strip_common (b # bs) (t # ts) = (if b = t then strip_common bs ts else (b # bs, t # ts))"
| "strip_common bs ts = (bs, ts)"

text \<open>
  \<open>filepath.Rel\<close>: the components of both cleaned paths without their common prefix, and one
  \<open>..\<close> for every component of the base that is left. \<open>None\<close> is the error.
\<close>

definition path_parts :: "string \<Rightarrow> string list" where
  "path_parts c = (if is_abs c then abs_comps c else if c = [] then [] else split_on CHR ''/'' c)"

definition Rel :: "string \<Rightarrow> string \<Rightarrow> string option" where
  "Rel base targ =
     (let b = Clean base; t = Clean targ; b' = (if b = ''.'' then [] else b) in
      if t = b then Some ''.''
      else if is_abs b' \<noteq> is_abs t then None
      else case strip_common (path_parts b') (path_parts t) of (bs, ts) \<Rightarrow>
        if (case bs of w # _ \<Rightarrow> w = ''..'' | [] \<Rightarrow> False) then None
        else Some (path_join (replicate (length bs) ''..'' @ ts)))"

lemma Join_abs:
  assumes "is_abs b"
  shows "Join [b, r] = abs_path (abs_comps (b @ CHR ''/'' # r))"
    "is_abs (Join [b, r])"
    "abs_comps (Join [b, r]) = abs_comps (b @ CHR ''/'' # r)"
proof -
  have "b \<noteq> []" using assms by auto
  then show *: "Join [b, r] = abs_path (abs_comps (b @ CHR ''/'' # r))"
    using assms by (simp add: Join_def path_join_def Clean_def)
  show "is_abs (Join [b, r])" by (simp add: *)
  show "abs_comps (Join [b, r]) = abs_comps (b @ CHR ''/'' # r)" by (simp add: *)
qed

lemma Join_abs_normals:
  assumes "is_abs b" "normals ns"
  shows "Join [b, path_join ns] = abs_path (abs_comps b @ ns)"
    "abs_comps (Join [b, path_join ns]) = abs_comps b @ ns"
  using assms by (simp_all add: Join_abs abs_comps_append_normals)

lemma Join3_abs_normal:
  assumes "is_abs m" "normal h" "normal u"
  shows "Join [m, h, u] = abs_path (abs_comps m @ [h, u])"
proof -
  have "m \<noteq> []" using assms by auto
  then have "Join [m, h, u] = Clean (m @ CHR ''/'' # path_join [h, u])"
    by (simp add: Join_def path_join_def)
  also have "\<dots> = abs_path (abs_comps m @ [h, u])"
    using assms abs_comps_append_normals [of "[h, u]" m] by (simp add: Clean_abs)
  finally show ?thesis .
qed

lemma Dir_abs_path:
  assumes "normals ws" "normal w"
  shows "Dir (abs_path (ws @ [w])) = abs_path ws"
proof -
  have nw: "CHR ''/'' \<notin> set w" using assms by (simp add: normal_def)
  have ws: "abs_path (ws @ [w]) = abs_path ws @ (if ws = [] then w else CHR ''/'' # w)"
    by (cases "ws = []") (auto simp: abs_path_def path_join_def join_on_append)
  have drop: "dropWhile (\<lambda>c. c \<noteq> CHR ''/'') (rev w @ CHR ''/'' # z) = CHR ''/'' # z" for z
  proof -
    have "CHR ''/'' \<notin> set v \<Longrightarrow> dropWhile (\<lambda>c. c \<noteq> CHR ''/'') (v @ CHR ''/'' # z) = CHR ''/'' # z" for v
      by (induction v) auto
    then show ?thesis using nw by simp
  qed
  show ?thesis
  proof (cases "ws = []")
    case True
    have "rev (abs_path (ws @ [w])) = rev w @ CHR ''/'' # []"
      using True by (simp add: abs_path_def path_join_def)
    then have "Dir (abs_path (ws @ [w])) = Clean ''/''"
      by (simp only: Dir_def drop) simp
    also have "\<dots> = abs_path []"
      using Clean_abs_path [of "[]"] by (simp add: abs_path_def path_join_def)
    finally show ?thesis using True by simp
  next
    case False
    then have "rev (abs_path (ws @ [w])) = rev w @ CHR ''/'' # rev (abs_path ws)"
      using ws by simp
    then have "Dir (abs_path (ws @ [w])) = Clean (abs_path ws @ CHR ''/'' # path_join [])"
      by (simp only: Dir_def drop) (simp add: path_join_def)
    also have "\<dots> = abs_path (abs_comps (abs_path ws) @ [])"
      using assms by (simp add: Clean_abs abs_comps_append_normals)
    finally show ?thesis using assms by simp
  qed
qed

section \<open>Prefix tests\<close>

lemma path_join_prefix_sep:
  assumes "normals bs" "normals ts" "bs \<noteq> []"
  shows "prefix (path_join bs @ ''/'') (path_join ts) \<longleftrightarrow> (\<exists>r. r \<noteq> [] \<and> ts = bs @ r)"
proof
  assume "prefix (path_join bs @ ''/'') (path_join ts)"
  then obtain z where z: "path_join ts = path_join bs @ CHR ''/'' # z"
    by (auto simp: prefix_def)
  have tne: "ts \<noteq> []" using z by (cases ts) (auto simp: path_join_def)
  have "split_on CHR ''/'' (path_join ts) = ts"
    using assms tne normals_no_sep by (simp add: path_join_def)
  moreover have "split_on CHR ''/'' (path_join bs) = bs"
    using assms normals_no_sep by (simp add: path_join_def)
  ultimately have "ts = bs @ split_on CHR ''/'' z"
    using z split_on_append by metis
  then show "\<exists>r. r \<noteq> [] \<and> ts = bs @ r" using split_on_not_Nil by blast
next
  assume "\<exists>r. r \<noteq> [] \<and> ts = bs @ r"
  then obtain r where "r \<noteq> []" "ts = bs @ r" by blast
  then show "prefix (path_join bs @ ''/'') (path_join ts)"
    using assms by (simp add: path_join_def join_on_append)
qed

lemma abs_path_prefix_sep:
  assumes "normals bs" "normals ts" "bs \<noteq> []"
  shows "prefix (abs_path bs @ ''/'') (abs_path ts) \<longleftrightarrow> (\<exists>r. r \<noteq> [] \<and> ts = bs @ r)"
  using path_join_prefix_sep [OF assms] by (simp add: abs_path_def)

lemma root_prefix_sep:
  assumes "normals ts"
  shows "\<not> prefix (abs_path [] @ ''/'') (abs_path ts)"
proof
  assume "prefix (abs_path [] @ ''/'') (abs_path ts)"
  then have "prefix ''/'' (path_join ts)" by (simp add: abs_path_def path_join_def)
  then have "is_abs (path_join ts)" by (auto simp: prefix_def)
  moreover have "ts \<noteq> []" using \<open>prefix ''/'' (path_join ts)\<close> by (auto simp: path_join_def)
  ultimately show False using Clean_path_join [OF assms] by simp
qed

lemma strip_common_append: "strip_common bs (bs @ r) = ([], r)"
  by (induction bs) (cases r; auto)+

lemma strip_common_Nil: "strip_common bs ts = ([], r) \<longleftrightarrow> ts = bs @ r"
  by (induction bs ts rule: strip_common.induct) auto

lemma strip_common_eq: "strip_common bs ts = (cs, ds) \<Longrightarrow> \<exists>p. bs = p @ cs \<and> ts = p @ ds"
proof (induction bs ts rule: strip_common.induct)
  case (1 b bs t ts)
  show ?case
  proof (cases "b = t")
    case True
    with 1 obtain p where "bs = p @ cs" "ts = p @ ds" by auto
    then have "b # bs = (b # p) @ cs \<and> t # ts = (b # p) @ ds" using True by simp
    then show ?thesis by blast
  qed (use 1 in auto)
qed auto

text \<open>The orchestrator's \<open>hasPathPrefix\<close> on \<open>Rel\<close>'s result.\<close>

definition rel_below :: "string option \<Rightarrow> bool" where
  "rel_below r = (case r of None \<Rightarrow> False
     | Some rel \<Rightarrow> rel \<noteq> ''.'' \<and> \<not> is_abs rel \<and> rel \<noteq> ''..'' \<and> \<not> prefix ''../'' rel)"

lemma rel_below_abs:
  assumes "is_abs b" "is_abs p"
  shows "rel_below (Rel b p) \<longleftrightarrow> (\<exists>r. r \<noteq> [] \<and> abs_comps p = abs_comps b @ r)"
proof -
  let ?bs = "abs_comps b" and ?ts = "abs_comps p"
  have nb: "Clean b \<noteq> ''.''" using assms by (auto simp: Clean_abs abs_path_def)
  have eq: "Clean p = Clean b \<longleftrightarrow> ?ts = ?bs"
    using assms abs_path_inj by (metis Clean_abs abs_comps_normals)
  obtain cs ds where st: "strip_common ?bs ?ts = (cs, ds)" by fastforce
  have R: "Rel b p = (if ?ts = ?bs then Some ''.''
      else if (case cs of w # _ \<Rightarrow> w = ''..'' | [] \<Rightarrow> False) then None
      else Some (path_join (replicate (length cs) ''..'' @ ds)))"
    using assms nb eq st by (simp add: Rel_def Let_def path_parts_def)
  obtain q where q: "?bs = q @ cs" "?ts = q @ ds" using strip_common_eq [OF st] by blast
  have nd: "normals ds" "normals cs"
    using q abs_comps_normals [of p] abs_comps_normals [of b] by auto
  show ?thesis
  proof (cases "cs = []")
    case True
    then have ts: "?ts = ?bs @ ds" using q by simp
    show ?thesis
    proof (cases "ds = []")
      case True
      then show ?thesis using R ts by (simp add: rel_below_def)
    next
      case False
      then have "Rel b p = Some (path_join ds)" using R ts \<open>cs = []\<close> by simp
      moreover have "path_join ds \<noteq> ''.''" "\<not> is_abs (path_join ds)" "path_join ds \<noteq> ''..''"
        "\<not> prefix ''../'' (path_join ds)"
        using Clean_path_join [OF nd(1) False] by (auto simp: inside_def)
      ultimately show ?thesis using ts False by (auto simp: rel_below_def)
    qed
  next
    case False
    have "\<not> (\<exists>r. r \<noteq> [] \<and> ?ts = ?bs @ r)"
      using st False by (metis fst_conv strip_common_append)
    moreover have "\<not> rel_below (Rel b p)"
    proof -
      obtain c cs' where "cs = c # cs'" using False by (cases cs) auto
      let ?j = "path_join (replicate (length cs) ''..'' @ ds)"
      have "?j = ''..'' \<or> prefix ''../'' ?j"
        using \<open>cs = c # cs'\<close> by (cases "replicate (length cs') ''..'' @ ds") (auto simp: path_join_def)
      then show ?thesis using R by (auto simp: rel_below_def split: if_splits)
    qed
    ultimately show ?thesis by blast
  qed
qed

end
