(* ===== verification/Vault_Names.thy ===== *)
theory Vault_Names
  imports Vault_Paths
begin

text \<open>
  \<open>pkg/zfs/dataset.go\<close>: the three name checks, written as what their regular expressions
  accept, and the dataset path of a host and user. The lemmas say what the rest of the
  server relies on: an accepted host or user name is one normal path component, and the
  dataset path determines the host and the user.
\<close>

definition is_lower :: "char \<Rightarrow> bool" where
  "is_lower c \<longleftrightarrow> CHR ''a'' \<le> c \<and> c \<le> CHR ''z''"

definition is_upper :: "char \<Rightarrow> bool" where
  "is_upper c \<longleftrightarrow> CHR ''A'' \<le> c \<and> c \<le> CHR ''Z''"

definition is_alnum :: "char \<Rightarrow> bool" where
  "is_alnum c \<longleftrightarrow> is_lower c \<or> is_upper c \<or> is_digit c"

definition hostnameRe :: "string \<Rightarrow> bool" where
  "hostnameRe s \<longleftrightarrow>
     (case s of
        [] \<Rightarrow> False
      | c # r \<Rightarrow> is_alnum c \<and>
          (r = [] \<or>
           length (butlast r) \<le> 61 \<and>
           list_all (\<lambda>x. is_alnum x \<or> x = CHR ''-'' \<or> x = CHR ''.'') (butlast r) \<and>
           is_alnum (last r)))"

definition usernameRe :: "string \<Rightarrow> bool" where
  "usernameRe s \<longleftrightarrow>
     (case s of
        [] \<Rightarrow> False
      | c # r \<Rightarrow> (is_lower c \<or> c = CHR ''_'') \<and> length r \<le> 30 \<and>
          list_all (\<lambda>x. is_lower x \<or> is_digit x \<or> x = CHR ''_'' \<or> x = CHR ''-'') r)"

definition datasetRe :: "string \<Rightarrow> bool" where
  "datasetRe s \<longleftrightarrow>
     (case s of
        [] \<Rightarrow> False
      | c # r \<Rightarrow> is_alnum c \<and>
          list_all (\<lambda>x. is_alnum x \<or> x \<in> {CHR ''_'', CHR ''.'', CHR '':'', CHR ''/'', CHR ''-''}) r)"

definition ValidateHostname :: "string \<Rightarrow> error option" where
  "ValidateHostname name = failIf (\<not> hostnameRe name) (Errorf ''invalid hostname: %q'')"

definition ValidateUsername :: "string \<Rightarrow> error option" where
  "ValidateUsername name = failIf (\<not> usernameRe name) (Errorf ''invalid username: %q'')"

definition ValidateDatasetName :: "string \<Rightarrow> error option" where
  "ValidateDatasetName name = failIf (\<not> datasetRe name) (Errorf ''invalid dataset name: %q'')"

definition DatasetPath :: "string \<Rightarrow> string \<Rightarrow> string \<Rightarrow> string" where
  "DatasetPath pool hostname username = pool @ ''/'' @ hostname @ ''/'' @ username"

lemmas [vault_defs] = ValidateHostname_def ValidateUsername_def ValidateDatasetName_def
  hostnameRe_def usernameRe_def datasetRe_def is_alnum_def is_lower_def is_upper_def is_digit_def
  less_eq_char_def

lemma alnum_ne:
  "\<not> is_alnum CHR ''/''" "\<not> is_alnum CHR ''.''" "\<not> is_lower CHR ''/''" "\<not> is_digit CHR ''/''"
  "\<not> is_lower CHR ''.''" "\<not> is_digit CHR ''.''" "\<not> is_alnum CHR ''_''" "\<not> is_alnum CHR ''@''"
  "\<not> is_lower CHR 0x00" "\<not> is_digit CHR 0x00" "\<not> is_alnum CHR 0x00"
  by (simp_all add: is_alnum_def is_lower_def is_upper_def is_digit_def less_eq_char_def)

lemma set_via_butlast: "r \<noteq> [] \<Longrightarrow> x \<in> set r \<Longrightarrow> x \<in> set (butlast r) \<or> x = last r"
  by (metis append_butlast_last_id insert_iff list.set(2) rotate1.simps(2) set_rotate1)

lemma hostname_chars:
  assumes "hostnameRe h" and "x \<in> set h"
  shows "is_alnum x \<or> x = CHR ''-'' \<or> x = CHR ''.''"
proof -
  obtain c r where h: "h = c # r" "is_alnum c"
    using assms(1) by (auto simp: hostnameRe_def split: list.splits)
  show ?thesis
  proof (cases "x = c")
    case False
    then have x: "x \<in> set r" using assms(2) h by simp
    then have "r \<noteq> []" by auto
    with assms(1) h have "list_all (\<lambda>x. is_alnum x \<or> x = CHR ''-'' \<or> x = CHR ''.'') (butlast r)"
      "is_alnum (last r)" by (auto simp: hostnameRe_def)
    with set_via_butlast [OF \<open>r \<noteq> []\<close> x] show ?thesis by (auto simp: list_all_iff)
  qed (use h in simp)
qed

lemma hostname_normal: "hostnameRe h \<Longrightarrow> normal h"
proof -
  assume h: "hostnameRe h"
  then obtain c r where c: "h = c # r" "is_alnum c"
    by (auto simp: hostnameRe_def split: list.splits)
  have "CHR ''/'' \<notin> set h" using hostname_chars [OF h, of "CHR ''/''"] alnum_ne by auto
  moreover have "c \<noteq> CHR ''.''" using c alnum_ne by auto
  ultimately show "normal h" using c by (auto simp: normal_def)
qed

lemma username_chars:
  "usernameRe u \<Longrightarrow> x \<in> set u \<Longrightarrow> is_lower x \<or> is_digit x \<or> x = CHR ''_'' \<or> x = CHR ''-''"
  by (auto simp: usernameRe_def list_all_iff split: list.splits)

lemma username_no_slash: "usernameRe u \<Longrightarrow> CHR ''/'' \<notin> set u"
  using username_chars [of u "CHR ''/''"] alnum_ne by auto

lemma username_no_nul: "usernameRe u \<Longrightarrow> CHR 0x00 \<notin> set u"
  using username_chars [of u "CHR 0x00"] alnum_ne by auto

lemma username_normal: "usernameRe u \<Longrightarrow> normal u"
  using username_chars [of u "CHR ''.''"] alnum_ne username_no_slash [of u]
  by (cases u) (auto simp: normal_def usernameRe_def)

lemma ValidateHostname_None [simp]: "ValidateHostname h = None \<longleftrightarrow> hostnameRe h"
  by (simp add: ValidateHostname_def)

lemma ValidateUsername_None [simp]: "ValidateUsername u = None \<longleftrightarrow> usernameRe u"
  by (simp add: ValidateUsername_def)

lemma ValidateDatasetName_None [simp]: "ValidateDatasetName d = None \<longleftrightarrow> datasetRe d"
  by (simp add: ValidateDatasetName_def)

lemma valid_lengths: "usernameRe u \<Longrightarrow> length u \<le> 31" "hostnameRe h \<Longrightarrow> length h \<le> 63"
  by (auto simp: usernameRe_def hostnameRe_def split: list.splits)

lemma DatasetPath_inj:
  assumes "hostnameRe h" "hostnameRe h'" "usernameRe u" "usernameRe u'"
    and "DatasetPath pool h u = DatasetPath pool h' u'"
  shows "h = h' \<and> u = u'"
proof -
  have "join_on CHR ''/'' [h, u] = join_on CHR ''/'' [h', u']"
    using assms(5) by (simp add: DatasetPath_def)
  moreover have "CHR ''/'' \<notin> set h" "CHR ''/'' \<notin> set h'"
    using hostname_normal assms(1,2) by (auto simp: normal_def)
  ultimately have "[h, u] = [h', u']"
    using username_no_slash assms(3,4) by (intro join_on_inj [of _ _ "CHR ''/''"]) auto
  then show ?thesis by simp
qed

text \<open>The dataset name the server builds is one the \<open>zfs\<close> wrapper accepts.\<close>

lemma DatasetPath_valid:
  assumes "datasetRe pool" "hostnameRe h" "usernameRe u"
  shows "datasetRe (DatasetPath pool h u)"
proof -
  obtain c r where pool: "pool = c # r" using assms(1) by (auto simp: datasetRe_def split: list.splits)
  have "list_all (\<lambda>x. is_alnum x \<or> x \<in> {CHR ''_'', CHR ''.'', CHR '':'', CHR ''/'', CHR ''-''}) h"
    using hostname_chars [OF assms(2)] by (auto simp: list_all_iff)
  moreover have "list_all (\<lambda>x. is_alnum x \<or> x \<in> {CHR ''_'', CHR ''.'', CHR '':'', CHR ''/'', CHR ''-''}) u"
    using username_chars [OF assms(3)] by (fastforce simp: list_all_iff is_alnum_def)
  ultimately show ?thesis using assms(1) pool by (simp add: datasetRe_def DatasetPath_def)
qed

text \<open>Names that no accepted host or user name can be.\<close>

lemma reserved_names:
  "\<not> hostnameRe ''_restore''" "usernameRe ''_machine''" "\<not> hostnameRe ''..''" "\<not> usernameRe ''..''"
  "\<not> usernameRe ''''"
  by (simp_all add: vault_defs)

lemma hostname_not_underscore: "\<not> hostnameRe (CHR ''_'' # s)"
  by (simp add: hostnameRe_def alnum_ne)

text \<open>
  The dataset of a host and a user: for names the validators accept, the path is accepted by
  ValidateDatasetName, and two owners share a dataset only when host and user are the same.
\<close>

lemma DatasetPath_identity:
  assumes "datasetRe pool" "hostnameRe h" "hostnameRe h'" "usernameRe u" "usernameRe u'"
  shows "datasetRe (DatasetPath pool h u) \<and>
    (DatasetPath pool h u = DatasetPath pool h' u' \<longleftrightarrow> h = h' \<and> u = u')"
  using DatasetPath_valid [of pool h u] DatasetPath_inj [of h h' u u' pool] assms by auto

lemma DatasetPath_identity_witness:
  "datasetRe (DatasetPath ''tank/backup'' ''web01'' ''alice'')"
proof -
  have "datasetRe ''tank/backup''" "hostnameRe ''web01''" "usernameRe ''alice''" by code_simp+
  then show ?thesis
    using DatasetPath_identity [of "''tank/backup''" "''web01''" "''web01''" "''alice''" "''alice''"] by simp
qed

end
