(* ===== verification/Vault_Payload.thy ===== *)
theory Vault_Payload
  imports Vault_Names
begin

text \<open>
  \<open>pkg/auth\<close>: the canonical bytes that are signed, the peer's supplementary groups, and the
  caller's identity; with \<open>CallerMeta\<close> of the agent's orchestrator and
  \<open>extractCallerMetadata\<close> of the server's middleware, the two ends of the caller headers.
  The hash is the argument \<open>sha\<close>; the lemmas that need it assume that it has no collision on
  the two inputs at hand, or only use its length.
\<close>

section \<open>Signed payloads\<close>

definition NUL :: char where "NUL = CHR 0x00"

text \<open>\<open>marshalled\<close> is the protobuf encoding of the request with nonce and signature cleared.\<close>

definition ServerRequestPayload ::
  "(bytes \<Rightarrow> bytes) \<Rightarrow> string \<Rightarrow> bytes \<Rightarrow> bytes result \<Rightarrow> bytes result" where
  "ServerRequestPayload sha method nonce marshalled =
     (case marshalled of Inl e \<Rightarrow> Inl e | Inr data \<Rightarrow> Inr (nonce @ method @ sha data))"

definition statementPayload :: "(bytes \<Rightarrow> bytes) \<Rightarrow> bytes \<Rightarrow> string \<Rightarrow> string list \<Rightarrow> bytes" where
  "statementPayload sha nonce method fs = nonce @ method @ sha (join_on NUL fs)"

definition DelegationConsentPayload ::
  "(bytes \<Rightarrow> bytes) \<Rightarrow> bytes \<Rightarrow> string \<Rightarrow> string \<Rightarrow> string \<Rightarrow> int \<Rightarrow> bytes" where
  "DelegationConsentPayload sha nonce username gatewayCN delegationPubKey expiresAt =
     statementPayload sha nonce ''RegisterDelegationKey''
       [username, gatewayCN, delegationPubKey, format_int expiresAt]"

definition DelegationRemovalPayload ::
  "(bytes \<Rightarrow> bytes) \<Rightarrow> bytes \<Rightarrow> string \<Rightarrow> string \<Rightarrow> string \<Rightarrow> bytes" where
  "DelegationRemovalPayload sha nonce username gatewayCN delegationPubKey =
     statementPayload sha nonce ''RemoveDelegationKey'' [username, gatewayCN, delegationPubKey]"

definition TaskGrantPayload ::
  "(bytes \<Rightarrow> bytes) \<Rightarrow> bytes \<Rightarrow> string \<Rightarrow> string \<Rightarrow> string \<Rightarrow> int \<Rightarrow> bytes" where
  "TaskGrantPayload sha nonce username method ephemeralPubKey expiresAt =
     statementPayload sha nonce ''RegisterTaskGrant''
       [username, method, ephemeralPubKey, format_int expiresAt]"

lemma format_uint_no_nul: "NUL \<notin> set (format_uint n)"
  using format_uint_digits [of n] by (auto simp: list_all_iff is_digit_def NUL_def less_eq_char_def)

lemma format_int_no_nul [simp]: "NUL \<notin> set (format_int i)"
  using format_uint_no_nul by (auto simp: format_int_def NUL_def)

text \<open>
  Equal payloads under nonces of equal length sign the same nonce and the same fields, when no
  field contains a NUL and the hash does not collide on the two joined strings.
\<close>

lemma statementPayload_inj:
  assumes "statementPayload sha n m fs = statementPayload sha n' m gs" "length n = length n'"
    and "sha (join_on NUL fs) = sha (join_on NUL gs) \<Longrightarrow> join_on NUL fs = join_on NUL gs"
    and "fs \<noteq> []" "gs \<noteq> []" "\<forall>f \<in> set fs. NUL \<notin> set f" "\<forall>g \<in> set gs. NUL \<notin> set g"
  shows "n = n' \<and> fs = gs"
proof -
  have "n = n'" "sha (join_on NUL fs) = sha (join_on NUL gs)"
    using assms(1,2) by (auto simp: statementPayload_def)
  then show ?thesis using assms(3-7) join_on_inj [of fs gs NUL] by blast
qed

text \<open>
  Payloads of different methods are never equal: with nonces and digests of fixed lengths the
  total length determines the method among those the server verifies.
\<close>

definition signed_methods :: "string list" where
  "signed_methods = [''PushBackup'', ''PullRestore'', ''GetQuotaUsage'', ''RegisterTaskGrant'',
     ''RemoveDelegationKey'', ''RegisterDelegationKey'']"

lemma signed_methods_lengths: "distinct (map length signed_methods)"
  by code_simp

lemma payload_methods_disjoint:
  assumes "m \<in> set signed_methods" "m' \<in> set signed_methods" "m \<noteq> m'"
    and "length n = length n'" "length h = length h'"
  shows "n @ m @ h \<noteq> n' @ m' @ h'"
proof
  assume "n @ m @ h = n' @ m' @ h'"
  then have "length (n @ m @ h) = length (n' @ m' @ h')" by simp
  then have "length m = length m'" using assms(4,5) by simp
  then show False
    using assms(1-3) signed_methods_lengths unfolding distinct_map inj_on_def by blast
qed

section \<open>Supplementary groups from \<open>/proc\<close>\<close>

fun parse_all :: "('a \<Rightarrow> 'b result) \<Rightarrow> 'a list \<Rightarrow> 'b list result" where
  "parse_all f [] = Inr []"
| "parse_all f (x # xs) = bindE (f x) (\<lambda>y. bindE (parse_all f xs) (\<lambda>ys. Inr (y # ys)))"

fun first_groups :: "string list \<Rightarrow> nat list result" where
  "first_groups [] = Inl (Errorf ''Groups: line not found'')"
| "first_groups (line # ls) =
     (if \<not> prefix ''Groups:'' line then first_groups ls
      else let rest = trim_space (trim_prefix ''Groups:'' line) in
        if rest = '''' then Inr []
        else parse_all (\<lambda>f. mapErr (Wrap ''parse group id %q: %w'') (parse_uint 32 f)) (fields rest))"

definition ParseProcStatusGroups :: "bytes \<Rightarrow> nat list result" where
  "ParseProcStatusGroups procStatus = first_groups (split_on CHR 0x0A procStatus)"

lemma parse_all_bound:
  assumes "\<And>x y. f x = Inr y \<Longrightarrow> P y"
  shows "parse_all f xs = Inr ys \<Longrightarrow> list_all P ys"
  by (induction xs arbitrary: ys) (auto simp: result_simps assms)

lemma parse_all_gids:
  "parse_all (\<lambda>f. mapErr g (parse_uint 32 f)) fs = Inr gids \<Longrightarrow> list_all (\<lambda>n. n < 2 ^ 32) gids"
  by (rule parse_all_bound [of "\<lambda>f. mapErr g (parse_uint 32 f)" "\<lambda>n. n < 2 ^ 32"])
     (simp_all only: mapErr_eq_Inr parse_uint_bound)

lemma first_groups_range: "first_groups ls = Inr gids \<Longrightarrow> list_all (\<lambda>g. g < 2 ^ 32) gids"
proof (induction ls)
  case Nil
  then show ?case by simp
next
  case (Cons l ls)
  show ?case
  proof (cases "prefix ''Groups:'' l \<and> trim_space (trim_prefix ''Groups:'' l) \<noteq> ''''")
    case True
    then show ?thesis using Cons.prems parse_all_gids by (simp add: Let_def)
  next
    case False
    then show ?thesis using Cons by (auto simp: Let_def split: if_splits)
  qed
qed

text \<open>What the peer credentials become: the groups are empty when \<open>/proc\<close> cannot be read.\<close>

definition accepted_groups :: "bytes result \<Rightarrow> nat list" where
  "accepted_groups procStatus =
     (case procStatus of Inl _ \<Rightarrow> []
      | Inr content \<Rightarrow> (case ParseProcStatusGroups content of Inl _ \<Rightarrow> [] | Inr gids \<Rightarrow> gids))"

record caller_identity =
  ci_UID :: nat
  ci_Username :: string
  ci_Groups :: "string list"

text \<open>\<open>user_of\<close> and \<open>group_of\<close> are the system's user and group databases.\<close>

definition LookupCallerIdentity ::
  "(nat \<Rightarrow> string option) \<Rightarrow> (nat \<Rightarrow> string option) \<Rightarrow> nat \<Rightarrow> nat list \<Rightarrow> caller_identity result" where
  "LookupCallerIdentity user_of group_of uid groups =
     (case user_of uid of
        None \<Rightarrow> Inl (Wrap ''lookup uid %d: %w'' (Errorf ''user: unknown userid''))
      | Some name \<Rightarrow>
          Inr \<lparr>ci_UID = uid, ci_Username = name, ci_Groups = List.map_filter group_of groups\<rparr>)"

definition LookupUsername :: "(nat \<Rightarrow> string option) \<Rightarrow> nat \<Rightarrow> string result" where
  "LookupUsername user_of uid =
     (case user_of uid of None \<Rightarrow> Inl (Wrap ''lookup uid %d: %w'' (Errorf ''user: unknown userid''))
      | Some name \<Rightarrow> Inr name)"

section \<open>The caller headers\<close>

type_synonym metadata = "(string \<times> string) list"

definition getMeta :: "metadata \<Rightarrow> string \<Rightarrow> string" where
  "getMeta md key = (case map_of md key of None \<Rightarrow> '''' | Some v \<Rightarrow> v)"

definition CallerMeta :: "nat \<Rightarrow> string list \<Rightarrow> metadata" where
  "CallerMeta uid groups =
     (''x-caller-uid'', format_uint uid) #
     (if groups \<noteq> [] then [(''x-caller-groups'', join_on CHR '','' groups)] else [])"

definition extractCallerMetadata :: "metadata option \<Rightarrow> (int \<times> string list) result" where
  "extractCallerMetadata incoming =
     (case incoming of None \<Rightarrow> Inr (0, [])
      | Some md \<Rightarrow>
          (let uidStr = getMeta md ''x-caller-uid'' in
           if uidStr = '''' then Inr (0, [])
           else case parse_int 32 uidStr of
             Inl e \<Rightarrow> Inl (Wrap ''invalid x-caller-uid %q: %w'' e)
           | Inr uid \<Rightarrow>
               (let gstr = getMeta md ''x-caller-groups'' in
                Inr (uid, if gstr = '''' then []
                          else filter (\<lambda>g. g \<noteq> '''') (map trim_space (split_on CHR '','' gstr))))))"

text \<open>A group name that survives the trip: not empty, no comma, no space around it.\<close>

definition plain_group :: "string \<Rightarrow> bool" where
  "plain_group g \<longleftrightarrow> g \<noteq> '''' \<and> CHR '','' \<notin> set g \<and> trim_space g = g"

text \<open>
  The caller headers the agent writes are read back by the server's interceptor as the same user
  id and groups, for ids below 2^31 and group names without comma or surrounding space.
\<close>

lemma CallerMeta_roundtrip:
  assumes "uid < 2 ^ 31" "list_all plain_group groups"
  shows "extractCallerMetadata (Some (CallerMeta uid groups)) = Inr (int uid, groups)"
proof (cases "groups = []")
  case True
  then show ?thesis
    using assms(1) parse_int_format [of 32 uid]
    by (simp add: extractCallerMetadata_def CallerMeta_def getMeta_def Let_def)
next
  case False
  have j: "join_on CHR '','' groups \<noteq> []"
    using False assms(2) by (auto simp: join_on_eq_Nil plain_group_def)
  have s: "split_on CHR '','' (join_on CHR '','' groups) = groups"
    using False assms(2) by (intro split_join) (auto simp: list_all_iff plain_group_def)
  have "map trim_space groups = groups" "filter (\<lambda>g. g \<noteq> '''') groups = groups"
    using assms(2) by (induction groups) (auto simp: plain_group_def)
  then show ?thesis
    using False assms(1) parse_int_format [of 32 uid] j
    by (simp add: extractCallerMetadata_def CallerMeta_def getMeta_def Let_def s)
qed

lemma CallerMeta_roundtrip_witness:
  "extractCallerMetadata (Some (CallerMeta 1000 [''staff'', ''wheel''])) = Inr (1000, [''staff'', ''wheel''])"
proof -
  have "list_all plain_group [''staff'', ''wheel'']" by code_simp
  then show ?thesis using CallerMeta_roundtrip [of 1000 "[''staff'', ''wheel'']"] by simp
qed

text \<open>
  A user id of 2^31 or more, which the agent formats as an unsigned number, is refused by the
  server's parser: such a user gets an error on every call.
\<close>

lemma CallerMeta_large_uid:
  assumes "2 ^ 31 \<le> uid"
  shows "\<exists>e. extractCallerMetadata (Some (CallerMeta uid groups)) = Inl e"
  using assms parse_int_format [of 32 uid]
  by (simp add: extractCallerMetadata_def CallerMeta_def getMeta_def Let_def)

lemma CallerMeta_large_uid_witness:
  "\<exists>e. extractCallerMetadata (Some (CallerMeta 2147483648 [])) = Inl e"
  using CallerMeta_large_uid [of 2147483648 "[]"] by simp

lemma extractCallerMetadata_range:
  "extractCallerMetadata md = Inr (uid, gs) \<Longrightarrow> - (2 ^ 31) \<le> uid \<and> uid < 2 ^ 31 \<and> '''' \<notin> set gs"
  by (auto simp: extractCallerMetadata_def Let_def dest: parse_int_bounds split: option.splits if_splits sum.splits)

text \<open>
  C19: A signed statement cannot be replayed as another: two statements with the same payload, made with
  nonces of one length for methods the server verifies, have the same nonce, method and fields, when
  the hash does not collide on the two texts and no field contains a NUL byte.
\<close>

theorem signed_payload_binds:
  assumes "statementPayload sha n m fs = statementPayload sha n' m' gs" "length n = length n'"
    and "m \<in> set signed_methods" "m' \<in> set signed_methods"
    and "length (sha (join_on NUL fs)) = length (sha (join_on NUL gs))"
    and "sha (join_on NUL fs) = sha (join_on NUL gs) \<Longrightarrow> join_on NUL fs = join_on NUL gs"
    and "fs \<noteq> []" "gs \<noteq> []" "\<forall>f \<in> set (fs @ gs). NUL \<notin> set f"
  shows "n = n' \<and> m = m' \<and> fs = gs"
proof -
  have "m = m'"
    using payload_methods_disjoint [OF assms(3,4) _ assms(2,5)] assms(1) by (auto simp: statementPayload_def)
  then show ?thesis using statementPayload_inj [of sha n m fs n' gs] assms by simp
qed

lemma signed_payload_binds_witness:
  "DelegationConsentPayload (\<lambda>x. x) ''n1'' ''u'' ''g'' ''k'' 5 \<noteq> DelegationConsentPayload (\<lambda>x. x) ''n1'' ''u'' ''h'' ''k'' 5"
proof
  have r: "''RegisterDelegationKey'' \<in> set signed_methods" by code_simp
  have n: "NUL \<notin> set ''u''" "NUL \<notin> set ''g''" "NUL \<notin> set ''h''" "NUL \<notin> set ''k''" by code_simp+
  assume "DelegationConsentPayload (\<lambda>x. x) ''n1'' ''u'' ''g'' ''k'' 5 = DelegationConsentPayload (\<lambda>x. x) ''n1'' ''u'' ''h'' ''k'' 5"
  then have "statementPayload (\<lambda>x. x) ''n1'' ''RegisterDelegationKey'' [''u'', ''g'', ''k'', format_int 5] =
      statementPayload (\<lambda>x. x) ''n1'' ''RegisterDelegationKey'' [''u'', ''h'', ''k'', format_int 5]"
    by (simp add: DelegationConsentPayload_def)
  moreover have "length (join_on NUL [''u'', ''g'', ''k'', format_int 5]) =
      length (join_on NUL [''u'', ''h'', ''k'', format_int 5])" by code_simp
  ultimately have "''g'' = ''h''"
    using signed_payload_binds [of "\<lambda>x. x" "''n1''" "''RegisterDelegationKey''" "[''u'', ''g'', ''k'', format_int 5]"
        "''n1''" "''RegisterDelegationKey''" "[''u'', ''h'', ''k'', format_int 5]"] r n by simp
  then show False by simp
qed

end
