(* ===== verification/Vault_Config.thy ===== *)
theory Vault_Config
  imports Vault_Names
begin

text \<open>
  \<open>pkg/config/server.go\<close>: the server's configuration, its defaults and its validation, as a
  function from the decoded YAML (the decoder is outside the repository) to an error or the
  configuration the server runs with. A Go map that is only iterated is the list of its
  entries in the order of the iteration; the checks over the required fields give the same
  message for every field, so their order cannot be observed.
\<close>

record server_block =
  sb_CertFile :: string
  sb_KeyFile :: string
  sb_CAFile :: string
  sb_Listen :: string
  sb_BackupPool :: string

record global_rule =
  gr_Name :: string
  gr_Paths :: "string list"
  gr_Exclude :: "string list"

record user_override =
  uo_QuotaGB :: int
  uo_Schedule :: string

record user_policy =
  up_DefaultSchedule :: string
  up_DefaultQuotaGB :: int
  up_PerUserOverrides :: "(string \<times> user_override) list"

record snapshot_policy =
  sp_MinSnapshots :: int
  sp_MaxSnapshots :: int
  sp_MinFreeGB :: int

record os_login_policy =
  ol_AllowedAgents :: "string list"
  ol_MinUID :: int
  ol_AllowedUsers :: "string list"

record key_enrollment =
  ke_Mode :: string
  ke_ServerOSLogin :: os_login_policy

record trust_policy =
  tp_MinUID :: int
  tp_Groups :: "string list"
  tp_Include :: "string list"
  tp_Exclude :: "string list"

record user_auth_entry =
  ue_Agent :: string
  ue_Mode :: string
  ue_Trust :: trust_policy
  ue_Capabilities :: "string list"

record user_auth =
  ua_DefaultMode :: string
  ua_Agents :: "user_auth_entry list"

record server_config =
  sc_Server :: server_block
  sc_AllowedHosts :: "string list"
  sc_GlobalRules :: "global_rule list"
  sc_UserPolicy :: user_policy
  sc_SnapshotPolicy :: snapshot_policy
  sc_KeyEnrollment :: key_enrollment
  sc_UserAuth :: user_auth

definition containsAllowedHost :: "string list \<Rightarrow> string \<Rightarrow> bool" where
  "containsAllowedHost hosts hostname = list_ex (\<lambda>h. h = hostname) hosts"

definition wrapErr :: "string \<Rightarrow> error option \<Rightarrow> error option" where
  "wrapErr fmt e = map_option (Wrap fmt) e"

lemma wrapErr_None [simp]: "wrapErr fmt e = None \<longleftrightarrow> e = None"
  by (simp add: wrapErr_def)

definition validateKeyEnrollmentPolicy :: "server_config \<Rightarrow> error option" where
  "validateKeyEnrollmentPolicy cfg =
     (let policy = sc_KeyEnrollment cfg; login = ke_ServerOSLogin policy in
      if ke_Mode policy = ''admin_only'' then None
      else if ke_Mode policy = ''server_os_login'' then
        orElse (failIf (ol_AllowedAgents login = [])
          (Errorf ''key_enrollment.server_os_login.allowed_agents is required when mode is server_os_login''))
        (orElse (failIf (ol_MinUID login < 0)
          (Errorf ''key_enrollment.server_os_login.min_uid must not be negative''))
        (orElse (firstErr (\<lambda>agent. orElse
            (wrapErr ''key_enrollment.server_os_login.allowed_agents[%d]: %w'' (ValidateHostname agent))
            (failIf (\<not> containsAllowedHost (sc_AllowedHosts cfg) agent)
              (Errorf ''key_enrollment.server_os_login.allowed_agents[%d] %q is not in allowed_hosts'')))
          (ol_AllowedAgents login))
        (firstErr (\<lambda>username.
            wrapErr ''key_enrollment.server_os_login.allowed_users[%d]: %w'' (ValidateUsername username))
          (ol_AllowedUsers login))))
      else Some (Errorf ''key_enrollment.mode must be admin_only or server_os_login''))"

definition validCapabilities :: "string list" where
  "validCapabilities = [''backup'', ''quota'', ''restore'', ''delegation'']"

fun ModeForAgent :: "user_auth \<Rightarrow> string \<Rightarrow> string" where
  "ModeForAgent ua cn =
     (case List.find (\<lambda>e. ue_Agent e = cn) (ua_Agents ua) of
        Some e \<Rightarrow> ue_Mode e | None \<Rightarrow> ua_DefaultMode ua)"

definition EntryForAgent :: "user_auth \<Rightarrow> string \<Rightarrow> user_auth_entry option" where
  "EntryForAgent ua cn = List.find (\<lambda>e. ue_Agent e = cn) (ua_Agents ua)"

text \<open>One iteration of the loop over the agents of \<open>user_auth\<close>.\<close>

definition validateAgentEntry :: "string list \<Rightarrow> user_auth_entry \<Rightarrow> error option" where
  "validateAgentEntry hosts e =
     orElse (failIf (ue_Agent e = '''') (Errorf ''user_auth.agents[%d].agent is required''))
     (orElse (failIf (ue_Mode e \<noteq> ''host_vouched'' \<and> ue_Mode e \<noteq> ''per_user_key'')
       (Errorf ''user_auth.agents[%d].mode must be host_vouched or per_user_key''))
     (orElse (failIf (\<not> containsAllowedHost hosts (ue_Agent e))
       (Errorf ''user_auth.agents[%d].agent %q is not in allowed_hosts''))
     (orElse (if ue_Mode e = ''host_vouched'' then
         orElse (failIf (tp_MinUID (ue_Trust e) = 0 \<and> tp_Groups (ue_Trust e) = [] \<and> tp_Include (ue_Trust e) = [])
           (Errorf ''user_auth.agents[%d].trust: host_vouched requires at least one of min_uid, groups, include''))
         (orElse (failIf (ue_Capabilities e = [])
           (Errorf ''user_auth.agents[%d].capabilities is required for host_vouched''))
         (firstErr (\<lambda>c. failIf (c \<notin> set validCapabilities)
           (Errorf ''user_auth.agents[%d].capabilities[%d]: unknown %q'')) (ue_Capabilities e)))
       else None)
     (orElse (firstErr (\<lambda>g. failIf (blank g)
         (Errorf ''user_auth.agents[%d].trust.groups[%d] must not be blank'')) (tp_Groups (ue_Trust e)))
     (orElse (firstErr (\<lambda>name. wrapErr ''user_auth.agents[%d].trust.include[%d]: %w''
         (ValidateUsername name)) (tp_Include (ue_Trust e)))
     (firstErr (\<lambda>name. wrapErr ''user_auth.agents[%d].trust.exclude[%d]: %w''
         (ValidateUsername name)) (tp_Exclude (ue_Trust e))))))))"

definition defaultAgentEntry :: "user_auth_entry \<Rightarrow> user_auth_entry" where
  "defaultAgentEntry e =
     (if ue_Mode e = ''host_vouched'' \<and> tp_MinUID (ue_Trust e) = 0
      then e\<lparr>ue_Trust := (ue_Trust e)\<lparr>tp_MinUID := 1000\<rparr>\<rparr> else e)"

definition validateUserAuth :: "server_config \<Rightarrow> server_config result" where
  "validateUserAuth cfg =
     (let ua = sc_UserAuth cfg;
          mode = (if ua_DefaultMode ua = '''' then ''per_user_key'' else ua_DefaultMode ua)
      in if mode \<noteq> ''per_user_key'' \<and> mode \<noteq> ''host_vouched''
         then Inl (Errorf ''user_auth.default_mode must be per_user_key or host_vouched'')
         else case firstErr (validateAgentEntry (sc_AllowedHosts cfg)) (ua_Agents ua) of
           Some e \<Rightarrow> Inl e
         | None \<Rightarrow> Inr (cfg\<lparr>sc_UserAuth :=
             \<lparr>ua_DefaultMode = mode, ua_Agents = map defaultAgentEntry (ua_Agents ua)\<rparr>\<rparr>))"

section \<open>Loading\<close>

definition serverDefaults :: "server_config \<Rightarrow> server_config" where
  "serverDefaults cfg =
     (let sv = sc_Server cfg; sp = sc_SnapshotPolicy cfg; up = sc_UserPolicy cfg;
          ke = sc_KeyEnrollment cfg; login = ke_ServerOSLogin ke
      in cfg\<lparr>
        sc_Server := sv\<lparr>sb_Listen := (if sb_Listen sv = '''' then ''0.0.0.0:8443'' else sb_Listen sv)\<rparr>,
        sc_SnapshotPolicy := sp\<lparr>
          sp_MinSnapshots := (if sp_MinSnapshots sp < 2 then 2 else sp_MinSnapshots sp),
          sp_MaxSnapshots := (if sp_MaxSnapshots sp = 0 then 7 else sp_MaxSnapshots sp)\<rparr>,
        sc_UserPolicy := up\<lparr>
          up_DefaultQuotaGB := (if up_DefaultQuotaGB up = 0 then 20 else up_DefaultQuotaGB up),
          up_DefaultSchedule := (if up_DefaultSchedule up = '''' then ''30 3 * * *'' else up_DefaultSchedule up)\<rparr>,
        sc_KeyEnrollment := ke\<lparr>
          ke_Mode := (if ke_Mode ke = '''' then ''admin_only'' else ke_Mode ke),
          ke_ServerOSLogin := login\<lparr>ol_MinUID := (if ol_MinUID login = 0 then 1000 else ol_MinUID login)\<rparr>\<rparr>\<rparr>)"

definition validateServer :: "server_config \<Rightarrow> error option" where
  "validateServer cfg =
     orElse (firstErr (\<lambda>value. failIf (blank value) (Errorf ''%s is required''))
       [sb_CertFile (sc_Server cfg), sb_KeyFile (sc_Server cfg), sb_CAFile (sc_Server cfg),
        sb_BackupPool (sc_Server cfg)])
     (orElse (wrapErr ''server.backup_pool: %w'' (ValidateDatasetName (sb_BackupPool (sc_Server cfg))))
     (orElse (failIf (sc_AllowedHosts cfg = []) (Errorf ''at least one allowed_hosts entry is required''))
     (orElse (firstErr (\<lambda>cn. wrapErr ''allowed_hosts[%d].cn: %w'' (ValidateHostname cn)) (sc_AllowedHosts cfg))
     (orElse (failIf (up_DefaultQuotaGB (sc_UserPolicy cfg) \<le> 0)
       (Errorf ''user_policy.default_quota_gb must be positive''))
     (orElse (firstErr (\<lambda>(username, override). orElse
         (wrapErr ''user_policy.per_user_overrides[%q]: %w'' (ValidateUsername username))
         (failIf (uo_QuotaGB override \<le> 0)
           (Errorf ''user_policy.per_user_overrides[%q].quota_gb must be positive'')))
       (up_PerUserOverrides (sc_UserPolicy cfg)))
     (orElse (failIf (sp_MaxSnapshots (sc_SnapshotPolicy cfg) < sp_MinSnapshots (sc_SnapshotPolicy cfg))
       (Errorf ''snapshot_policy.max_snapshots must be at least min_snapshots''))
     (orElse (failIf (sp_MinFreeGB (sc_SnapshotPolicy cfg) < 0)
       (Errorf ''snapshot_policy.min_free_gb must not be negative''))
     (validateKeyEnrollmentPolicy cfg))))))))"

text \<open>\<open>read\<close> is the outcome of reading the file and \<open>parse\<close> the YAML decoder.\<close>

definition LoadServerConfig ::
  "(string \<Rightarrow> server_config result) \<Rightarrow> string result \<Rightarrow> server_config result" where
  "LoadServerConfig parse read =
     (case read of Inl e \<Rightarrow> Inl (Wrap ''read server config: %w'' e)
      | Inr data \<Rightarrow> (case parse data of Inl e \<Rightarrow> Inl (Wrap ''parse server config: %w'' e)
        | Inr raw \<Rightarrow>
            (let cfg = serverDefaults raw
             in case validateServer cfg of Some e \<Rightarrow> Inl e | None \<Rightarrow> validateUserAuth cfg)))"

section \<open>What a loaded configuration satisfies\<close>

definition trust_ok :: "string list \<Rightarrow> user_auth_entry \<Rightarrow> bool" where
  "trust_ok hosts e \<longleftrightarrow> ue_Agent e \<in> set hosts \<and> ue_Agent e \<noteq> '''' \<and>
     ue_Mode e \<in> {''host_vouched'', ''per_user_key''} \<and>
     list_all usernameRe (tp_Include (ue_Trust e)) \<and> list_all usernameRe (tp_Exclude (ue_Trust e)) \<and>
     list_all (\<lambda>g. \<not> blank g) (tp_Groups (ue_Trust e)) \<and>
     (ue_Mode e = ''host_vouched'' \<longrightarrow> tp_MinUID (ue_Trust e) \<noteq> 0 \<and>
        ue_Capabilities e \<noteq> [] \<and> set (ue_Capabilities e) \<subseteq> set validCapabilities)"

definition enrollment_ok :: "string list \<Rightarrow> key_enrollment \<Rightarrow> bool" where
  "enrollment_ok hosts ke \<longleftrightarrow> ke_Mode ke = ''admin_only'' \<or>
     ke_Mode ke = ''server_os_login'' \<and>
     ol_AllowedAgents (ke_ServerOSLogin ke) \<noteq> [] \<and>
     set (ol_AllowedAgents (ke_ServerOSLogin ke)) \<subseteq> set hosts \<and>
     ol_MinUID (ke_ServerOSLogin ke) \<ge> 0 \<and>
     list_all usernameRe (ol_AllowedUsers (ke_ServerOSLogin ke))"

definition server_config_ok :: "server_config \<Rightarrow> bool" where
  "server_config_ok cfg \<longleftrightarrow>
     datasetRe (sb_BackupPool (sc_Server cfg)) \<and>
     sc_AllowedHosts cfg \<noteq> [] \<and> list_all hostnameRe (sc_AllowedHosts cfg) \<and>
     0 < up_DefaultQuotaGB (sc_UserPolicy cfg) \<and>
     list_all (\<lambda>(u, ov). usernameRe u \<and> 0 < uo_QuotaGB ov) (up_PerUserOverrides (sc_UserPolicy cfg)) \<and>
     2 \<le> sp_MinSnapshots (sc_SnapshotPolicy cfg) \<and>
     sp_MinSnapshots (sc_SnapshotPolicy cfg) \<le> sp_MaxSnapshots (sc_SnapshotPolicy cfg) \<and>
     0 \<le> sp_MinFreeGB (sc_SnapshotPolicy cfg) \<and>
     enrollment_ok (sc_AllowedHosts cfg) (sc_KeyEnrollment cfg) \<and>
     ua_DefaultMode (sc_UserAuth cfg) \<in> {''per_user_key'', ''host_vouched''} \<and>
     list_all (trust_ok (sc_AllowedHosts cfg)) (ua_Agents (sc_UserAuth cfg))"

lemma containsAllowedHost_iff [simp]: "containsAllowedHost hs h \<longleftrightarrow> h \<in> set hs"
  by (auto simp: containsAllowedHost_def list_ex_iff)

lemma validateKeyEnrollment_ok:
  "validateKeyEnrollmentPolicy cfg = None \<Longrightarrow> enrollment_ok (sc_AllowedHosts cfg) (sc_KeyEnrollment cfg)"
  by (auto simp: validateKeyEnrollmentPolicy_def enrollment_ok_def Let_def firstErr_None list_all_iff
           split: if_splits)

lemma validateAgentEntry_ok:
  "validateAgentEntry hosts e = None \<Longrightarrow> trust_ok hosts (defaultAgentEntry e)"
  by (auto simp: validateAgentEntry_def trust_ok_def defaultAgentEntry_def firstErr_None list_all_iff
           split: if_splits)

lemma validateUserAuth_fields:
  assumes "validateUserAuth cfg = Inr cfg'"
  shows "sc_Server cfg' = sc_Server cfg" "sc_AllowedHosts cfg' = sc_AllowedHosts cfg"
    "sc_UserPolicy cfg' = sc_UserPolicy cfg" "sc_SnapshotPolicy cfg' = sc_SnapshotPolicy cfg"
    "sc_KeyEnrollment cfg' = sc_KeyEnrollment cfg" "sc_GlobalRules cfg' = sc_GlobalRules cfg"
    "ua_DefaultMode (sc_UserAuth cfg') \<in> {''per_user_key'', ''host_vouched''}"
    "list_all (trust_ok (sc_AllowedHosts cfg)) (ua_Agents (sc_UserAuth cfg'))"
  using assms
  by (auto simp: validateUserAuth_def Let_def firstErr_None list_all_iff validateAgentEntry_ok
           split: if_splits option.splits)

lemma serverDefaults_min: "2 \<le> sp_MinSnapshots (sc_SnapshotPolicy (serverDefaults cfg))"
  by (simp add: serverDefaults_def Let_def)

lemma LoadServerConfig_ok:
  assumes "LoadServerConfig parse read = Inr cfg"
  shows "server_config_ok cfg"
proof -
  from assms obtain raw where v: "validateServer (serverDefaults raw) = None"
    and u: "validateUserAuth (serverDefaults raw) = Inr cfg"
    by (auto simp: LoadServerConfig_def Let_def split: sum.splits option.splits)
  note f = validateUserAuth_fields [OF u]
  have ke: "validateKeyEnrollmentPolicy (serverDefaults raw) = None"
    using v by (simp add: validateServer_def)
  show ?thesis
    using v validateKeyEnrollment_ok [OF ke] serverDefaults_min [of raw] f(7,8)
    unfolding server_config_ok_def f(1-6)
    by (auto simp: validateServer_def firstErr_None list_all_iff)
qed

text \<open>Loading a configuration that was loaded changes nothing: the defaults are complete.\<close>

lemma defaultAgentEntry_idem [simp]: "defaultAgentEntry (defaultAgentEntry e) = defaultAgentEntry e"
  by (simp add: defaultAgentEntry_def)

lemma serverDefaults_idem [simp]: "serverDefaults (serverDefaults cfg) = serverDefaults cfg"
  by (simp add: serverDefaults_def Let_def)

lemma serverDefaults_UserAuth:
  "serverDefaults (cfg\<lparr>sc_UserAuth := ua\<rparr>) = (serverDefaults cfg)\<lparr>sc_UserAuth := ua\<rparr>"
  by (simp add: serverDefaults_def Let_def)

lemma validateServer_UserAuth: "validateServer (cfg\<lparr>sc_UserAuth := ua\<rparr>) = validateServer cfg"
  by (simp add: validateServer_def validateKeyEnrollmentPolicy_def Let_def)

lemma validateAgentEntry_default:
  "validateAgentEntry hosts e = None \<Longrightarrow> validateAgentEntry hosts (defaultAgentEntry e) = None"
  by (auto simp: validateAgentEntry_def defaultAgentEntry_def)

lemma validateUserAuth_idem:
  assumes "validateUserAuth cfg = Inr cfg'"
  shows "validateUserAuth cfg' = Inr cfg'"
proof -
  from assms have none: "firstErr (validateAgentEntry (sc_AllowedHosts cfg)) (ua_Agents (sc_UserAuth cfg)) = None"
    by (auto simp: validateUserAuth_def Let_def split: if_splits option.splits)
  then have "firstErr (validateAgentEntry (sc_AllowedHosts cfg))
      (map defaultAgentEntry (ua_Agents (sc_UserAuth cfg))) = None"
    by (simp add: firstErr_None validateAgentEntry_default)
  then show ?thesis
    using assms none by (auto simp: validateUserAuth_def Let_def comp_def split: if_splits)
qed

lemma LoadServerConfig_idem:
  assumes "LoadServerConfig parse read = Inr cfg"
  shows "LoadServerConfig (\<lambda>_. Inr cfg) (Inr data) = Inr cfg"
proof -
  from assms obtain raw where v: "validateServer (serverDefaults raw) = None"
    and u: "validateUserAuth (serverDefaults raw) = Inr cfg"
    by (auto simp: LoadServerConfig_def Let_def split: sum.splits option.splits)
  obtain ua where cfg: "cfg = (serverDefaults raw)\<lparr>sc_UserAuth := ua\<rparr>"
    using u by (auto simp: validateUserAuth_def Let_def split: if_splits option.splits)
  show ?thesis
    using v validateUserAuth_idem [OF u]
    by (simp add: LoadServerConfig_def Let_def cfg serverDefaults_UserAuth validateServer_UserAuth)
qed

text \<open>
  C37: Every server configuration that loads is well-formed: valid pool, host and user names, positive
  quotas, at least two snapshots kept, every trust entry for an allowed host with a non-zero minimum
  user id; and loading a loaded configuration again changes nothing.
\<close>

theorem LoadServerConfig_sound:
  assumes "LoadServerConfig parse read = Inr cfg"
  shows "server_config_ok cfg \<and> LoadServerConfig (\<lambda>_. Inr cfg) (Inr data) = Inr cfg"
  using LoadServerConfig_ok [OF assms] LoadServerConfig_idem [OF assms] by blast

lemma LoadServerConfig_sound_witness:
  "\<exists>cfg. LoadServerConfig (\<lambda>_. Inr \<lparr>
     sc_Server = \<lparr>sb_CertFile = ''c'', sb_KeyFile = ''k'', sb_CAFile = ''a'', sb_Listen = '''', sb_BackupPool = ''tank''\<rparr>,
     sc_AllowedHosts = [''web01''], sc_GlobalRules = [],
     sc_UserPolicy = \<lparr>up_DefaultSchedule = '''', up_DefaultQuotaGB = 0, up_PerUserOverrides = []\<rparr>,
     sc_SnapshotPolicy = \<lparr>sp_MinSnapshots = 0, sp_MaxSnapshots = 0, sp_MinFreeGB = 0\<rparr>,
     sc_KeyEnrollment = \<lparr>ke_Mode = '''', ke_ServerOSLogin = \<lparr>ol_AllowedAgents = [], ol_MinUID = 0, ol_AllowedUsers = []\<rparr>\<rparr>,
     sc_UserAuth = \<lparr>ua_DefaultMode = '''', ua_Agents = []\<rparr>\<rparr>) (Inr '''') = Inr cfg \<and> server_config_ok cfg"
  (is "\<exists>cfg. ?load = Inr cfg \<and> _")
proof -
  have "is_ok ?load" by code_simp
  then obtain cfg where c: "?load = Inr cfg" by (cases ?load) (auto simp: is_ok_def)
  then show ?thesis using LoadServerConfig_sound [OF c] by blast
qed

end
