(* ===== verification/Vault_Interfaces.thy ===== *)
theory Vault_Interfaces
  imports Vault_Names
begin

text \<open>
  The contracts that several components share, each a locale: a table with a primary key
  (the four SQLite tables), single-use tokens (challenge nonces and ephemeral task keys) and
  name resolution that stays below a base directory (the server's receiver and the agent's
  restore). The chunk protocol has its own theory. Clients prove their lemmas here once; the
  theories of the components interpret the locales on the code's operations.
\<close>

section \<open>A table with a primary key\<close>

locale keyed_table =
  fixes find :: "'k \<Rightarrow> 't \<Rightarrow> 'r option"
    and put :: "'r \<Rightarrow> 't \<Rightarrow> 't"
    and del :: "'k \<Rightarrow> 't \<Rightarrow> 't"
    and key :: "'r \<Rightarrow> 'k"
  assumes find_put: "find k (put r t) = (if k = key r then Some r else find k t)"
    and find_del: "find k (del k' t) = (if k = k' then None else find k t)"
begin

lemma find_put_same: "find (key r) (put r t) = Some r"
  by (simp add: find_put)

lemma find_put_other: "k \<noteq> key r \<Longrightarrow> find k (put r t) = find k t"
  by (simp add: find_put)

lemma find_puts_other:
  "k \<notin> key ` set rs \<Longrightarrow> find k (fold put rs t) = find k t"
  by (induction rs arbitrary: t) (auto simp: find_put)

lemma find_puts:
  "distinct (map key rs) \<Longrightarrow> r \<in> set rs \<Longrightarrow> find (key r) (fold put rs t) = Some r"
proof (induction rs arbitrary: t)
  case Nil
  then show ?case by simp
next
  case (Cons x rs)
  show ?case
  proof (cases "r = x")
    case True
    with Cons.prems have "key r \<notin> key ` set rs" by auto
    then show ?thesis using True by (simp add: find_puts_other find_put)
  next
    case False
    with Cons show ?thesis by auto
  qed
qed

lemma find_dels: "find k (fold del ks t) = (if k \<in> set ks then None else find k t)"
  by (induction ks arbitrary: t) (auto simp: find_del)

end

section \<open>Tokens that can be used once\<close>

locale single_use =
  fixes step :: "'ev \<Rightarrow> 's \<Rightarrow> 's"
    and accepted :: "'ev \<Rightarrow> 's \<Rightarrow> 'tok option"
    and issued :: "'ev \<Rightarrow> 'tok option"
    and spent :: "'tok \<Rightarrow> 's \<Rightarrow> bool"
  assumes accepted_spends: "accepted e s = Some k \<Longrightarrow> spent k (step e s)"
    and spent_rejected: "spent k s \<Longrightarrow> accepted e s \<noteq> Some k"
    and spent_stays: "spent k s \<Longrightarrow> issued e \<noteq> Some k \<Longrightarrow> spent k (step e s)"
begin

fun uses :: "'tok \<Rightarrow> 'ev list \<Rightarrow> 's \<Rightarrow> nat" where
  "uses k [] s = 0"
| "uses k (e # es) s = (if accepted e s = Some k then 1 else 0) + uses k es (step e s)"

lemma spent_uses: "spent k s \<Longrightarrow> \<forall>e \<in> set es. issued e \<noteq> Some k \<Longrightarrow> uses k es s = 0"
  by (induction es arbitrary: s) (auto simp: spent_rejected spent_stays)

theorem uses_at_most_once: "\<forall>e \<in> set es. issued e \<noteq> Some k \<Longrightarrow> uses k es s \<le> 1"
proof (induction es arbitrary: s)
  case Nil
  then show ?case by simp
next
  case (Cons e es)
  then show ?case
    using spent_uses [OF accepted_spends, of e s k es] by (cases "accepted e s = Some k") auto
qed

end

section \<open>Resolution of untrusted names below a base directory\<close>

text \<open>
  \<open>resolve base name\<close> is the absolute path the component will touch, or an error.
  \<open>allowed base\<close> are the component lists it may resolve to.
\<close>

locale confined_resolver =
  fixes resolve :: "string \<Rightarrow> string \<Rightarrow> string result"
    and base_ok :: "string \<Rightarrow> bool"
    and strict :: bool
  assumes resolved_below:
    "base_ok base \<Longrightarrow> resolve base name = Inr p \<Longrightarrow>
       \<exists>ws. p = abs_path (abs_comps base @ ws) \<and> normals ws \<and> (strict \<longrightarrow> ws \<noteq> [])"
begin

lemma resolved_abs: "base_ok base \<Longrightarrow> resolve base name = Inr p \<Longrightarrow> is_abs p"
  using resolved_below by fastforce

lemma resolved_prefix:
  "base_ok base \<Longrightarrow> resolve base name = Inr p \<Longrightarrow> prefix (abs_comps base) (abs_comps p)"
  using resolved_below by fastforce

lemma resolved_disjoint:
  assumes "base_ok b1" "base_ok b2"
    and "resolve b1 n1 = Inr p" "resolve b2 n2 = Inr q"
    and "\<not> prefix (abs_comps b1) (abs_comps b2)" "\<not> prefix (abs_comps b2) (abs_comps b1)"
  shows "p \<noteq> q"
proof
  assume "p = q"
  then have "prefix (abs_comps b1) (abs_comps p)" "prefix (abs_comps b2) (abs_comps p)"
    using assms resolved_prefix by blast+
  then show False using assms(5,6) prefix_same_cases by blast
qed

end

end
