(* ===== verification/Vault_Store.thy ===== *)
theory Vault_Store
  imports Vault_Interfaces
begin

text \<open>
  \<open>pkg/store\<close>, the server's side: rows selected by key, the nonces and the task grants (the
  agent's tables are in \<open>Vault_AgentStore\<close>). A SQLite table is the list of its rows; the
  primary key is a function of the row. Every statement may fail instead (\<open>fails\<close> says which ones
  do); a failing statement changes nothing. Times are Unix seconds, passed in where the code
  reads the clock.
\<close>

datatype db_op =
    BeginTx | QueryNonce | MarkUsed | CommitTx | ExecInsertNonce | ExecGCNonces
  | ExecInsertGrant | QueryGrant | ExecGCGrants
  | ExecUpsertSnapshot | QuerySnapshot | ExecDeleteSnapshot | QuerySnapshots
  | ExecInsertTask | ExecTaskPhase | ExecTaskFailure | ExecFailIncomplete | QueryTask
  | QueryLatestTask
  | ExecUpsertDelegation | QueryDelegation | ExecRevokeDelegation | QueryDelegations

type_synonym faults = "db_op \<Rightarrow> bool"

definition no_faults :: faults where
  "no_faults _ = False"

section \<open>Rows selected by key\<close>

definition row_find :: "('r \<Rightarrow> 'k) \<Rightarrow> 'k \<Rightarrow> 'r list \<Rightarrow> 'r option" where
  "row_find key k rows = List.find (\<lambda>r. key r = k) rows"

definition row_replace :: "('r \<Rightarrow> 'k) \<Rightarrow> 'r \<Rightarrow> 'r list \<Rightarrow> 'r list" where
  "row_replace key r rows = filter (\<lambda>x. key x \<noteq> key r) rows @ [r]"

definition row_delete :: "('r \<Rightarrow> 'k) \<Rightarrow> 'k \<Rightarrow> 'r list \<Rightarrow> 'r list" where
  "row_delete key k rows = filter (\<lambda>x. key x \<noteq> k) rows"

lemma row_find_Nil [simp]: "row_find key k [] = None"
  by (simp add: row_find_def)

lemma row_find_Cons [simp]:
  "row_find key k (r # rs) = (if key r = k then Some r else row_find key k rs)"
  by (simp add: row_find_def)

lemma row_find_key: "row_find key k rows = Some r \<Longrightarrow> key r = k \<and> r \<in> set rows"
  by (induction rows) (auto split: if_splits)

lemma row_find_None: "row_find key k rows = None \<longleftrightarrow> k \<notin> key ` set rows"
  by (induction rows) auto

lemma row_find_append:
  "row_find key k (xs @ ys) = (case row_find key k xs of None \<Rightarrow> row_find key k ys | Some r \<Rightarrow> Some r)"
  by (induction xs) auto

lemma row_find_replace:
  "row_find key k (row_replace key r rows) = (if k = key r then Some r else row_find key k rows)"
  unfolding row_replace_def by (induction rows) auto

lemma row_find_delete:
  "row_find key k (row_delete key k' rows) = (if k = k' then None else row_find key k rows)"
  unfolding row_delete_def by (induction rows) auto

lemma row_find_map:
  assumes "\<And>r. key (f r) = key r"
  shows "row_find key k (map f rows) = map_option f (row_find key k rows)"
  using assms by (induction rows) auto

lemma row_find_distinct:
  "distinct (map key rows) \<Longrightarrow> r \<in> set rows \<Longrightarrow> row_find key (key r) rows = Some r"
  by (induction rows) force+

lemma distinct_row_replace:
  "distinct (map key rows) \<Longrightarrow> distinct (map key (row_replace key r rows))"
  unfolding row_replace_def by (induction rows) auto

lemma distinct_row_delete:
  "distinct (map key rows) \<Longrightarrow> distinct (map key (row_delete key k rows))"
  unfolding row_delete_def by (induction rows) auto

section \<open>Nonces\<close>

record nonce_row =
  nr_nonce :: string
  nr_expires_at :: int
  nr_used :: int

type_synonym nonces = "nonce_row list"

definition InsertNonce :: "faults \<Rightarrow> string \<Rightarrow> int \<Rightarrow> nonces \<Rightarrow> nonces result" where
  "InsertNonce fl nonce expiresAt t =
     (if fl ExecInsertNonce \<or> row_find nr_nonce nonce t \<noteq> None
      then Inl (Errorf ''insert nonce: %w'')
      else Inr (t @ [\<lparr>nr_nonce = nonce, nr_expires_at = expiresAt, nr_used = 0\<rparr>]))"

text \<open>
  The transaction reads the row, refuses it when it is missing, expired or used, and marks it
  used. The connection pool has one connection, so the steps of one call are not interleaved
  with another call's.
\<close>

definition ConsumeNonce :: "faults \<Rightarrow> int \<Rightarrow> string \<Rightarrow> nonces \<Rightarrow> nonces \<times> bool result" where
  "ConsumeNonce fl now nonce t =
     (if fl BeginTx then (t, Inl (Errorf ''begin tx: %w''))
      else if fl QueryNonce then (t, Inl (Errorf ''query nonce: %w''))
      else case List.find (\<lambda>r. nr_nonce r = nonce \<and> nr_expires_at r > now) t of
        None \<Rightarrow> (t, Inr False)
      | Some r \<Rightarrow>
          if nr_used r \<noteq> 0 then (t, Inr False)
          else if fl MarkUsed then (t, Inl (Errorf ''mark used: %w''))
          else if fl CommitTx then (t, Inl (Errorf ''commit: %w''))
          else (map (\<lambda>x. if nr_nonce x = nonce then x\<lparr>nr_used := 1\<rparr> else x) t, Inr True))"

definition GCExpiredNonces :: "faults \<Rightarrow> int \<Rightarrow> nonces \<Rightarrow> nonces result" where
  "GCExpiredNonces fl now t =
     (if fl ExecGCNonces then Inl (Errorf ''gc nonces: %w'')
      else Inr (filter (\<lambda>r. \<not> nr_expires_at r < now) t))"

definition nonces_wf :: "nonces \<Rightarrow> bool" where
  "nonces_wf t \<longleftrightarrow> distinct (map nr_nonce t)"

lemma InsertNonce_wf: "InsertNonce fl n e t = Inr t' \<Longrightarrow> nonces_wf t \<Longrightarrow> nonces_wf t'"
  by (auto simp: InsertNonce_def nonces_wf_def row_find_None split: if_splits)

lemma mark_used_keys:
  "map nr_nonce (map (\<lambda>x. if nr_nonce x = n then x\<lparr>nr_used := 1\<rparr> else x) t) = map nr_nonce t"
  by (induction t) auto

lemma ConsumeNonce_wf: "nonces_wf t \<Longrightarrow> nonces_wf (fst (ConsumeNonce fl now n t))"
  by (auto simp: ConsumeNonce_def nonces_wf_def mark_used_keys simp del: map_map split: option.splits)

lemma GC_wf: "GCExpiredNonces fl now t = Inr t' \<Longrightarrow> nonces_wf t \<Longrightarrow> nonces_wf t'"
  by (auto simp: GCExpiredNonces_def nonces_wf_def distinct_map_filter split: if_splits)

lemma find_Some_iff': "List.find P xs = Some x \<Longrightarrow> P x \<and> x \<in> set xs"
  by (induction xs) (auto split: if_splits)

text \<open>What a successful consumption requires.\<close>

lemma ConsumeNonce_True:
  assumes "ConsumeNonce fl now n t = (t', Inr True)"
  obtains r where "r \<in> set t" "nr_nonce r = n" "now < nr_expires_at r" "nr_used r = 0"
    "t' = map (\<lambda>x. if nr_nonce x = n then x\<lparr>nr_used := 1\<rparr> else x) t"
  using assms
  by (auto simp: ConsumeNonce_def dest!: find_Some_iff' split: if_splits option.splits)

text \<open>A nonce with no unused row cannot be consumed.\<close>

definition nonce_spent :: "string \<Rightarrow> nonces \<Rightarrow> bool" where
  "nonce_spent n t \<longleftrightarrow> (\<forall>r \<in> set t. nr_nonce r = n \<longrightarrow> nr_used r \<noteq> 0)"

datatype nonce_event =
    EvInsert string int
  | EvConsume string
  | EvGC

text \<open>One call at a clock reading with some statements failing.\<close>

type_synonym nonce_call = "nonce_event \<times> int \<times> faults"

fun nonce_step :: "nonce_call \<Rightarrow> nonces \<Rightarrow> nonces" where
  "nonce_step (EvInsert n e, now, fl) t = (case InsertNonce fl n e t of Inl _ \<Rightarrow> t | Inr t' \<Rightarrow> t')"
| "nonce_step (EvConsume n, now, fl) t = fst (ConsumeNonce fl now n t)"
| "nonce_step (EvGC, now, fl) t = (case GCExpiredNonces fl now t of Inl _ \<Rightarrow> t | Inr t' \<Rightarrow> t')"

fun nonce_accepted :: "nonce_call \<Rightarrow> nonces \<Rightarrow> string option" where
  "nonce_accepted (EvConsume n, now, fl) t =
     (if snd (ConsumeNonce fl now n t) = Inr True then Some n else None)"
| "nonce_accepted _ t = None"

fun nonce_issued :: "nonce_call \<Rightarrow> string option" where
  "nonce_issued (EvInsert n e, now, fl) = Some n"
| "nonce_issued _ = None"

lemma ConsumeNonce_state:
  "fst (ConsumeNonce fl now n t) = t \<or>
   fst (ConsumeNonce fl now n t) = map (\<lambda>x. if nr_nonce x = n then x\<lparr>nr_used := 1\<rparr> else x) t"
  by (auto simp: ConsumeNonce_def split: option.splits)

lemma nonce_spent_mark:
  "nonce_spent n (map (\<lambda>x. if nr_nonce x = m then x\<lparr>nr_used := 1\<rparr> else x) t) \<longleftrightarrow>
   n = m \<or> nonce_spent n t"
  by (auto simp: nonce_spent_def)

interpretation nonce_tokens: single_use nonce_step nonce_accepted nonce_issued nonce_spent
proof unfold_locales
  fix e s k
  assume acc: "nonce_accepted e s = Some k"
  then show "nonce_spent k (nonce_step e s)"
  proof (cases "(e, s)" rule: nonce_accepted.cases)
    case (1 n now fl t)
    with acc have "n = k" "snd (ConsumeNonce fl now n t) = Inr True" by (auto split: if_splits)
    then have "ConsumeNonce fl now k t = (fst (ConsumeNonce fl now k t), Inr True)"
      by (simp add: prod_eq_iff)
    then show ?thesis
      by (rule ConsumeNonce_True) (use 1 \<open>n = k\<close> in \<open>simp add: nonce_spent_mark\<close>)
  qed auto
next
  fix k s e
  assume sp: "nonce_spent k s"
  show "nonce_accepted e s \<noteq> Some k"
  proof
    assume acc: "nonce_accepted e s = Some k"
    then obtain now fl where "e = (EvConsume k, now, fl)" "snd (ConsumeNonce fl now k s) = Inr True"
      by (cases "(e, s)" rule: nonce_accepted.cases) (auto split: if_splits)
    then have "ConsumeNonce fl now k s = (fst (ConsumeNonce fl now k s), Inr True)"
      by (simp add: prod_eq_iff)
    then show False
      by (rule ConsumeNonce_True) (use sp in \<open>auto simp: nonce_spent_def\<close>)
  qed
next
  fix k s e
  assume "nonce_spent k s" "nonce_issued e \<noteq> Some k"
  then show "nonce_spent k (nonce_step e s)"
  proof (cases "(e, s)" rule: nonce_step.cases)
    case (2 n now fl t)
    then show ?thesis
      using ConsumeNonce_state [of fl now n t] \<open>nonce_spent k s\<close> by (auto simp: nonce_spent_mark)
  qed (auto simp: InsertNonce_def GCExpiredNonces_def nonce_spent_def split: sum.splits if_splits)
qed


text \<open>A nonce is accepted only while its clock reading is before its expiry.\<close>

lemma ConsumeNonce_expired:
  assumes "\<forall>r \<in> set t. nr_nonce r = n \<longrightarrow> nr_expires_at r \<le> now"
  shows "snd (ConsumeNonce fl now n t) \<noteq> Inr True"
proof
  assume "snd (ConsumeNonce fl now n t) = Inr True"
  then have "ConsumeNonce fl now n t = (fst (ConsumeNonce fl now n t), Inr True)"
    by (simp add: prod_eq_iff)
  then show False
    by (rule ConsumeNonce_True) (use assms in force)
qed

text \<open>With no statement failing, a fresh unexpired nonce is consumed.\<close>

lemma ConsumeNonce_fresh:
  assumes "nonces_wf t" "r \<in> set t" "nr_used r = 0" "now < nr_expires_at r"
  shows "snd (ConsumeNonce no_faults now (nr_nonce r) t) = Inr True"
proof -
  have "List.find (\<lambda>x. nr_nonce x = nr_nonce r \<and> nr_expires_at x > now) t = Some r"
    using assms by (induction t) (auto simp: nonces_wf_def image_iff split: if_splits)
  then show ?thesis using assms by (simp add: ConsumeNonce_def no_faults_def)
qed

section \<open>Task grants\<close>

record task_grant =
  tg_Hostname :: string
  tg_Username :: string
  tg_Method :: string
  tg_EphemeralFingerprint :: string
  tg_EphemeralPubKey :: string
  tg_ExpiresAt :: int

type_synonym grants = "task_grant list"

definition grant_key :: "task_grant \<Rightarrow> string \<times> string \<times> string" where
  "grant_key g = (tg_Hostname g, tg_Username g, tg_EphemeralFingerprint g)"

lemma grant_key_iff:
  "grant_key g = (h, u, f) \<longleftrightarrow>
     tg_Hostname g = h \<and> tg_Username g = u \<and> tg_EphemeralFingerprint g = f"
  by (simp add: grant_key_def)

definition InsertTaskGrant :: "faults \<Rightarrow> task_grant \<Rightarrow> grants \<Rightarrow> grants result" where
  "InsertTaskGrant fl g t =
     (if fl ExecInsertGrant then Inl (Errorf ''insert task grant: %w'')
      else Inr (row_replace grant_key g t))"

definition GetTaskGrant ::
  "faults \<Rightarrow> string \<Rightarrow> string \<Rightarrow> string \<Rightarrow> int \<Rightarrow> grants \<Rightarrow> task_grant option result" where
  "GetTaskGrant fl hostname username fingerprint now t =
     (if fl QueryGrant then Inl (Errorf ''get task grant: %w'')
      else Inr (List.find (\<lambda>g. tg_Hostname g = hostname \<and> tg_Username g = username \<and>
                              tg_EphemeralFingerprint g = fingerprint \<and> tg_ExpiresAt g > now) t))"

definition GCExpiredTaskGrants :: "faults \<Rightarrow> int \<Rightarrow> grants \<Rightarrow> grants result" where
  "GCExpiredTaskGrants fl now t =
     (if fl ExecGCGrants then Inl (Errorf ''gc task_grants: %w'')
      else Inr (filter (\<lambda>g. \<not> tg_ExpiresAt g < now) t))"

interpretation grant_table: keyed_table "row_find grant_key" "row_replace grant_key"
    "row_delete grant_key" grant_key
  by unfold_locales (simp_all add: row_find_replace row_find_delete)

definition grants_wf :: "grants \<Rightarrow> bool" where
  "grants_wf t \<longleftrightarrow> distinct (map grant_key t)"

lemma InsertTaskGrant_wf: "InsertTaskGrant fl g t = Inr t' \<Longrightarrow> grants_wf t \<Longrightarrow> grants_wf t'"
  by (auto simp: InsertTaskGrant_def grants_wf_def distinct_row_replace split: if_splits)

lemma GCExpiredTaskGrants_wf: "GCExpiredTaskGrants fl now t = Inr t' \<Longrightarrow> grants_wf t \<Longrightarrow> grants_wf t'"
  by (auto simp: GCExpiredTaskGrants_def grants_wf_def distinct_map_filter split: if_splits)

text \<open>The query with its expiry test agrees with the lookup by primary key.\<close>

lemma find_grant:
  assumes "grants_wf t"
  shows "List.find (\<lambda>g. tg_Hostname g = h \<and> tg_Username g = u \<and>
                       tg_EphemeralFingerprint g = f \<and> tg_ExpiresAt g > now) t =
         (case row_find grant_key (h, u, f) t of
            None \<Rightarrow> None | Some g \<Rightarrow> if tg_ExpiresAt g > now then Some g else None)"
  using assms
proof (induction t)
  case Nil
  then show ?case by simp
next
  case (Cons g t)
  show ?case
  proof (cases "grant_key g = (h, u, f)")
    case True
    with Cons.prems have "row_find grant_key (h, u, f) t = None"
      by (auto simp: grants_wf_def row_find_None)
    with Cons show ?thesis by (auto simp: grants_wf_def grant_key_iff)
  next
    case False
    with Cons show ?thesis by (auto simp: grants_wf_def grant_key_iff)
  qed
qed

lemma GetTaskGrant_key:
  "grants_wf t \<Longrightarrow> GetTaskGrant fl h u f now t =
     (if fl QueryGrant then Inl (Errorf ''get task grant: %w'')
      else Inr (case row_find grant_key (h, u, f) t of
            None \<Rightarrow> None | Some g \<Rightarrow> if tg_ExpiresAt g > now then Some g else None))"
  by (simp add: GetTaskGrant_def find_grant)

lemma GetTaskGrant_sound:
  "GetTaskGrant fl h u f now t = Inr (Some g) \<Longrightarrow>
     g \<in> set t \<and> tg_Hostname g = h \<and> tg_Username g = u \<and>
     tg_EphemeralFingerprint g = f \<and> tg_ExpiresAt g > now"
  by (auto simp: GetTaskGrant_def dest!: find_Some_iff' split: if_splits)

text \<open>What one registration makes visible, to the same and to every other key.\<close>

lemma GetTaskGrant_insert:
  assumes "grants_wf t" "InsertTaskGrant no_faults g t = Inr t'"
  shows "GetTaskGrant no_faults h u f now t' =
    (if (h, u, f) = grant_key g then Inr (if tg_ExpiresAt g > now then Some g else None)
     else GetTaskGrant no_faults h u f now t)"
proof -
  have t': "t' = row_replace grant_key g t"
    using assms(2) by (simp add: InsertTaskGrant_def no_faults_def)
  have "grants_wf t'" by (rule InsertTaskGrant_wf [OF assms(2,1)])
  then show ?thesis
    using assms(1) grant_table.find_put [of "(h, u, f)" g t]
    by (simp add: GetTaskGrant_key no_faults_def t')
qed

text \<open>Garbage collection removes nothing a later query would have returned.\<close>

lemma GetTaskGrant_gc:
  assumes "GCExpiredTaskGrants fl' now t = Inr t'" "now \<le> later"
  shows "GetTaskGrant fl h u f later t' = GetTaskGrant fl h u f later t"
proof -
  have t': "t' = filter (\<lambda>g. \<not> tg_ExpiresAt g < now) t"
    using assms(1) by (simp add: GCExpiredTaskGrants_def split: if_splits)
  have "List.find (\<lambda>g. P g \<and> later < tg_ExpiresAt g) (filter (\<lambda>g. \<not> tg_ExpiresAt g < now) t) =
        List.find (\<lambda>g. P g \<and> later < tg_ExpiresAt g) t" for P
    using assms(2) by (induction t) auto
  from this [of "\<lambda>g. tg_Hostname g = h \<and> tg_Username g = u \<and> tg_EphemeralFingerprint g = f"]
  show ?thesis by (simp add: GetTaskGrant_def t')
qed

text \<open>
  C10: A challenge is accepted at most once: in every sequence of inserts, consumptions and garbage
  collections, at any clock readings and with any statements failing, a nonce that is not issued
  again is accepted at most one time.
\<close>

theorem nonce_single_use:
  assumes "\<forall>e \<in> set calls. nonce_issued e \<noteq> Some n"
  shows "nonce_tokens.uses n calls t \<le> 1"
  using assms by (rule nonce_tokens.uses_at_most_once)

lemma nonce_single_use_witness:
  "nonce_tokens.uses ''n'' [(EvConsume ''n'', 5, no_faults), (EvConsume ''n'', 6, no_faults)]
     [\<lparr>nr_nonce = ''n'', nr_expires_at = 10, nr_used = 0\<rparr>] \<le> 1"
  by (rule nonce_single_use) simp

end
