(* ===== verification/Vault_AuthZ.thy ===== *)
theory Vault_AuthZ
  imports Vault_Payload Vault_Config Vault_Store
begin

text \<open>
  \<open>internal/server/middleware\<close>: the interceptor in front of every RPC (\<open>auth.go\<close>) and the
  host-vouched trust decision (\<open>userauthz.go\<close>).
\<close>

section \<open>The trust decision\<close>

datatype auth_decision = DecisionRequireSig | DecisionAllow | DecisionDeny

definition service_prefix :: string where
  "service_prefix = ''/backup.v1.BackupService/''"

definition MethodToCapability :: "string \<Rightarrow> string" where
  "MethodToCapability fullMethod =
     (let m = trim_prefix service_prefix fullMethod in
      if m = ''PushBackup'' then ''backup''
      else if m = ''GetQuotaUsage'' then ''quota''
      else if m = ''PullRestore'' then ''restore''
      else if m = ''RegisterDelegationKey'' \<or> m = ''RemoveDelegationKey'' \<or> m = ''RegisterTaskGrant''
        then ''delegation''
      else '''')"

definition containsString :: "string list \<Rightarrow> string \<Rightarrow> bool" where
  "containsString xs want = list_ex (\<lambda>x. x = want) xs"

definition trustEvaluate :: "trust_policy \<Rightarrow> int \<Rightarrow> string \<Rightarrow> string list \<Rightarrow> bool" where
  "trustEvaluate p uid username groups =
     (if containsString (tp_Exclude p) username then False
      else if containsString (tp_Include p) username then True
      else if uid < tp_MinUID p then False
      else if tp_Groups p = [] then True
      else list_ex (\<lambda>want. containsString groups want) (tp_Groups p))"

definition DecideAuth ::
  "server_config \<Rightarrow> string \<Rightarrow> int \<Rightarrow> string \<Rightarrow> string list \<Rightarrow> string \<Rightarrow> auth_decision \<times> error option" where
  "DecideAuth cfg agentCN uid username groups fullMethod =
     (case EntryForAgent (sc_UserAuth cfg) agentCN of
        None \<Rightarrow> (DecisionRequireSig, None)
      | Some entry \<Rightarrow>
          if ue_Mode entry \<noteq> ''host_vouched'' then (DecisionRequireSig, None)
          else let cap = MethodToCapability fullMethod in
            if cap = '''' then (DecisionRequireSig, None)
            else if \<not> containsString (ue_Capabilities entry) cap then (DecisionRequireSig, None)
            else if \<not> trustEvaluate (ue_Trust entry) uid username groups
              then (DecisionDeny, Some (Errorf ''host_vouched: %q on %q fails trust policy''))
            else (DecisionAllow, None))"

lemma containsString_iff [simp]: "containsString xs x \<longleftrightarrow> x \<in> set xs"
  by (auto simp: containsString_def list_ex_iff)

text \<open>The policy in one formula: exclude wins over include, include over uid and groups.\<close>

lemma trustEvaluate_iff:
  "trustEvaluate p uid u gs \<longleftrightarrow>
     u \<notin> set (tp_Exclude p) \<and>
     (u \<in> set (tp_Include p) \<or>
      tp_MinUID p \<le> uid \<and> (tp_Groups p = [] \<or> set (tp_Groups p) \<inter> set gs \<noteq> {}))"
  by (auto simp: trustEvaluate_def list_ex_iff)

lemma DecideAuth_Allow:
  "fst (DecideAuth cfg cn uid u gs m) = DecisionAllow \<longleftrightarrow>
     (\<exists>e. EntryForAgent (sc_UserAuth cfg) cn = Some e \<and> ue_Mode e = ''host_vouched'' \<and>
        MethodToCapability m \<noteq> '''' \<and> MethodToCapability m \<in> set (ue_Capabilities e) \<and>
        trustEvaluate (ue_Trust e) uid u gs)"
  by (auto simp: DecideAuth_def Let_def split: option.splits)

lemma DecideAuth_Deny:
  "fst (DecideAuth cfg cn uid u gs m) = DecisionDeny \<longleftrightarrow>
     (\<exists>e. EntryForAgent (sc_UserAuth cfg) cn = Some e \<and> ue_Mode e = ''host_vouched'' \<and>
        MethodToCapability m \<noteq> '''' \<and> MethodToCapability m \<in> set (ue_Capabilities e) \<and>
        \<not> trustEvaluate (ue_Trust e) uid u gs)"
  by (auto simp: DecideAuth_def Let_def split: option.splits)

lemma EntryForAgent_mem: "EntryForAgent ua cn = Some e \<Longrightarrow> e \<in> set (ua_Agents ua) \<and> ue_Agent e = cn"
  by (auto simp: EntryForAgent_def dest: find_Some_iff')

text \<open>
  Under a loaded configuration a vouched user is one the administrator named, or one whose
  identifier reaches the configured minimum; the minimum is never zero.
\<close>

lemma DecideAuth_loaded:
  assumes "server_config_ok cfg" "fst (DecideAuth cfg cn uid u gs m) = DecisionAllow"
  shows "cn \<in> set (sc_AllowedHosts cfg)"
    and "\<exists>e \<in> set (ua_Agents (sc_UserAuth cfg)). ue_Agent e = cn \<and> u \<notin> set (tp_Exclude (ue_Trust e)) \<and>
           tp_MinUID (ue_Trust e) \<noteq> 0 \<and>
           (u \<in> set (tp_Include (ue_Trust e)) \<and> usernameRe u \<or> tp_MinUID (ue_Trust e) \<le> uid)"
proof -
  from assms(2) obtain e where e: "EntryForAgent (sc_UserAuth cfg) cn = Some e"
      "ue_Mode e = ''host_vouched''" "trustEvaluate (ue_Trust e) uid u gs"
    by (auto simp: DecideAuth_Allow)
  from EntryForAgent_mem [OF e(1)] have m: "e \<in> set (ua_Agents (sc_UserAuth cfg))" "ue_Agent e = cn"
    by auto
  with assms(1) have ok: "trust_ok (sc_AllowedHosts cfg) e"
    by (auto simp: server_config_ok_def list_all_iff)
  then show "cn \<in> set (sc_AllowedHosts cfg)" using m by (auto simp: trust_ok_def)
  show "\<exists>e \<in> set (ua_Agents (sc_UserAuth cfg)). ue_Agent e = cn \<and> u \<notin> set (tp_Exclude (ue_Trust e)) \<and>
           tp_MinUID (ue_Trust e) \<noteq> 0 \<and>
           (u \<in> set (tp_Include (ue_Trust e)) \<and> usernameRe u \<or> tp_MinUID (ue_Trust e) \<le> uid)"
    using m ok e by (intro bexI [of _ e]) (auto simp: trust_ok_def trustEvaluate_iff list_all_iff)
qed

text \<open>Decisions by what they let the caller do: nothing, act with a signature, act without one.\<close>

instantiation auth_decision :: linorder
begin

fun decision_rank :: "auth_decision \<Rightarrow> nat" where
  "decision_rank DecisionDeny = 0"
| "decision_rank DecisionRequireSig = 1"
| "decision_rank DecisionAllow = 2"

definition less_eq_auth_decision :: "auth_decision \<Rightarrow> auth_decision \<Rightarrow> bool" where
  "less_eq_auth_decision a b \<longleftrightarrow> decision_rank a \<le> decision_rank b"

definition less_auth_decision :: "auth_decision \<Rightarrow> auth_decision \<Rightarrow> bool" where
  "less_auth_decision a b \<longleftrightarrow> decision_rank a < decision_rank b"

lemma decision_rank_inj: "decision_rank a = decision_rank b \<Longrightarrow> a = b"
  by (cases a; cases b) simp_all

instance
  by standard (auto simp: less_eq_auth_decision_def less_auth_decision_def intro: decision_rank_inj)

end

text \<open>
  \<open>stricter p q\<close>: what an administrator does to a policy to tighten it. Dropping the last group is not
  among it, since a policy without groups asks for none. Tightening never gives a caller more, and
  neither does a lower user id or fewer groups.
\<close>

definition stricter :: "trust_policy \<Rightarrow> trust_policy \<Rightarrow> bool" where
  "stricter p q \<longleftrightarrow> set (tp_Exclude q) \<subseteq> set (tp_Exclude p) \<and> set (tp_Include p) \<subseteq> set (tp_Include q) \<and>
     tp_MinUID q \<le> tp_MinUID p \<and>
     (tp_Groups q = [] \<or> tp_Groups p \<noteq> [] \<and> set (tp_Groups p) \<subseteq> set (tp_Groups q))"

lemma trustEvaluate_mono:
  assumes "stricter p q" "uid \<le> uid'" "set gs \<subseteq> set gs'" "trustEvaluate p uid u gs"
  shows "trustEvaluate q uid' u gs'"
  using assms unfolding stricter_def trustEvaluate_iff by fastforce

lemma DecideAuth_mono:
  assumes "EntryForAgent (sc_UserAuth cfg) cn = Some e" "stricter p (ue_Trust e)"
    and "EntryForAgent (sc_UserAuth cfg') cn = Some (e\<lparr>ue_Trust := p\<rparr>)" "uid \<le> uid'" "set gs \<subseteq> set gs'"
  shows "fst (DecideAuth cfg' cn uid u gs m) \<le> fst (DecideAuth cfg cn uid' u gs' m)"
  using trustEvaluate_mono [OF assms(2,4,5), of u] assms(1,3)
  by (auto simp: DecideAuth_def Let_def less_eq_auth_decision_def)

lemma last_group_loosens:
  "trustEvaluate (q\<lparr>tp_Groups := []\<rparr>) uid u gs \<longleftrightarrow>
     u \<notin> set (tp_Exclude q) \<and> (u \<in> set (tp_Include q) \<or> tp_MinUID q \<le> uid)"
  by (simp add: trustEvaluate_iff)

text \<open>A capability that is granted takes the signature away as a way in from a user the policy refuses.\<close>

lemma capability_can_lower:
  assumes "EntryForAgent (sc_UserAuth cfg) cn = Some e" "ue_Mode e = ''host_vouched''" "MethodToCapability m \<noteq> ''''"
    and "MethodToCapability m \<notin> set (ue_Capabilities e)" "\<not> trustEvaluate (ue_Trust e) uid u gs"
    and "EntryForAgent (sc_UserAuth cfg') cn = Some (e\<lparr>ue_Capabilities := MethodToCapability m # ue_Capabilities e\<rparr>)"
  shows "fst (DecideAuth cfg' cn uid u gs m) < fst (DecideAuth cfg cn uid u gs m)"
  using assms by (simp add: DecideAuth_def less_auth_decision_def)

section \<open>The interceptor\<close>

definition MethodWhitelist :: "string list" where
  "MethodWhitelist = ''/grpc.health.v1.Health/Check'' #
     map (\<lambda>m. service_prefix @ m) [''GetChallenge'', ''GetGlobalConfig'', ''PushBackup'', ''GetQuotaUsage'',
       ''PullRestore'', ''RegisterDelegationKey'', ''RemoveDelegationKey'', ''RegisterTaskGrant'']"

text \<open>
  What gRPC knows of the peer: nothing, a connection without TLS, or the common names of the
  certificates it presented.
\<close>

datatype peer = NoPeer | NoTLS | TLS "string list"

definition extractHostname :: "peer \<Rightarrow> string result" where
  "extractHostname p =
     (case p of NoPeer \<Rightarrow> Inl (Errorf ''no peer info'')
      | NoTLS \<Rightarrow> Inl (Errorf ''no TLS info'')
      | TLS [] \<Rightarrow> Inl (Errorf ''no peer certificate'')
      | TLS (cn # _) \<Rightarrow> if cn = '''' then Inl (Errorf ''certificate has no CN'') else Inr cn)"

definition isHostnameAllowed :: "string list \<Rightarrow> string \<Rightarrow> bool" where
  "isHostnameAllowed hosts hostname = list_ex (\<lambda>h. h = hostname) hosts"

text \<open>The request context the handler sees.\<close>

record request_ctx =
  cx_hostname :: string
  cx_username :: string
  cx_uid :: int
  cx_groups :: "string list"

definition verifyMethodAuth ::
  "faults \<Rightarrow> int \<Rightarrow> metadata option \<Rightarrow> nonces \<Rightarrow> nonces \<times> string result" where
  "verifyMethodAuth fl now incoming db =
     (case incoming of None \<Rightarrow> (db, Inl (Status Unauthenticated ''missing metadata''))
      | Some md \<Rightarrow>
          (let username = getMeta md ''x-username''; nonceStr = getMeta md ''x-nonce'';
               sigStr = getMeta md ''x-signature'' in
           if username = '''' \<or> nonceStr = '''' \<or> sigStr = ''''
           then (db, Inl (Status Unauthenticated ''missing auth metadata''))
           else if ValidateUsername username \<noteq> None
           then (db, Inl (Status InvalidArgument ''invalid username: %v''))
           else case ConsumeNonce fl now nonceStr db of
             (db', Inr True) \<Rightarrow> (db', Inr username)
           | (db', _) \<Rightarrow> (db', Inl (Status Unauthenticated ''invalid or expired nonce''))))"

text \<open>
  The unary and the stream interceptor run the same checks; the result is the context the
  handler is called with, or the status the caller gets.
\<close>

definition AuthInterceptor ::
  "server_config \<Rightarrow> faults \<Rightarrow> int \<Rightarrow> peer \<Rightarrow> metadata option \<Rightarrow> string \<Rightarrow> nonces \<Rightarrow>
   nonces \<times> request_ctx result" where
  "AuthInterceptor cfg fl now p md fullMethod db =
     (case extractHostname p of
        Inl e \<Rightarrow> (db, Inl (Status Unauthenticated ''%s''))
      | Inr hostname \<Rightarrow>
          if \<not> isHostnameAllowed (sc_AllowedHosts cfg) hostname
          then (db, Inl (Status PermissionDenied ''hostname %q not allowed''))
          else case extractCallerMetadata md of
            Inl e \<Rightarrow> (db, Inl (Status InvalidArgument ''invalid caller metadata''))
          | Inr (uid, groups) \<Rightarrow>
              (let ctx = \<lparr>cx_hostname = hostname, cx_username = '''', cx_uid = uid, cx_groups = groups\<rparr> in
               if fullMethod \<in> set MethodWhitelist then (db, Inr ctx)
               else case verifyMethodAuth fl now md db of
                 (db', Inl e) \<Rightarrow> (db', Inl e)
               | (db', Inr username) \<Rightarrow> (db', Inr (ctx\<lparr>cx_username := username\<rparr>))))"

text \<open>
  The interceptor of the streaming methods takes the metadata of the user from the stream's own
  context, which is the one the wrapped stream was made from, and hands the context on in the stream.
\<close>

definition AuthStreamInterceptor ::
  "server_config \<Rightarrow> faults \<Rightarrow> int \<Rightarrow> peer \<Rightarrow> metadata option \<Rightarrow> string \<Rightarrow> (nonces, request_ctx) step" where
  "AuthStreamInterceptor cfg fl now p md fullMethod =
     bindS (mapErrS (\<lambda>_. Status Unauthenticated ''%s'') (\<lambda>db. (db, extractHostname p))) (\<lambda>hostname.
     bindS (checkS (failIf (\<not> isHostnameAllowed (sc_AllowedHosts cfg) hostname)
       (Status PermissionDenied ''hostname %q not allowed''))) (\<lambda>_.
     bindS (mapErrS (\<lambda>_. Status InvalidArgument ''invalid caller metadata'') (\<lambda>db. (db, extractCallerMetadata md))) (\<lambda>(uid, groups).
     let ctx = \<lparr>cx_hostname = hostname, cx_username = '''', cx_uid = uid, cx_groups = groups\<rparr> in
     if fullMethod \<in> set MethodWhitelist then returnS ctx
     else bindS (verifyMethodAuth fl now md) (\<lambda>username. returnS (ctx\<lparr>cx_username := username\<rparr>)))))"

text \<open>Both interceptors let the same calls through, with the same context.\<close>

lemma AuthStreamInterceptor_eq:
  "AuthStreamInterceptor cfg fl now p md fullMethod db = AuthInterceptor cfg fl now p md fullMethod db"
  by (auto simp: AuthStreamInterceptor_def AuthInterceptor_def bindS_def mapErrS_def mapErr_def checkS_def failIf_def
      failS_def returnS_def Let_def split: sum.splits prod.splits option.splits)

lemma isHostnameAllowed_iff [simp]: "isHostnameAllowed hosts h \<longleftrightarrow> h \<in> set hosts"
  by (auto simp: isHostnameAllowed_def list_ex_iff)

lemma extractHostname_iff: "extractHostname p = Inr h \<longleftrightarrow> h \<noteq> '''' \<and> (\<exists>cs. p = TLS (h # cs))"
  by (auto simp: extractHostname_def split: peer.splits list.splits)

text \<open>
  Every handler runs for the common name of the leaf certificate of the connection, and only
  when the configuration lists it; on a method that is not white-listed a nonce was consumed.
\<close>

lemma AuthInterceptor_ctx:
  assumes "AuthInterceptor cfg fl now p md m db = (db', Inr ctx)"
  shows "cx_hostname ctx \<in> set (sc_AllowedHosts cfg)"
    and "\<exists>cs. p = TLS (cx_hostname ctx # cs)"
    and "extractCallerMetadata md = Inr (cx_uid ctx, cx_groups ctx)"
    and "m \<in> set MethodWhitelist \<Longrightarrow> db' = db \<and> cx_username ctx = ''''"
    and "m \<notin> set MethodWhitelist \<Longrightarrow> \<exists>n. ConsumeNonce fl now n db = (db', Inr True) \<and>
           usernameRe (cx_username ctx)"
  using assms
  by (auto simp: AuthInterceptor_def extractHostname_iff verifyMethodAuth_def Let_def
      split: sum.splits if_splits prod.splits option.splits bool.splits)

lemma whitelist_capabilities:
  "list_all (\<lambda>m. MethodToCapability m = '''' \<longleftrightarrow>
     m \<in> set [''/grpc.health.v1.Health/Check'', service_prefix @ ''GetChallenge'', service_prefix @ ''GetGlobalConfig''])
   MethodWhitelist"
  by code_simp

text \<open>
  C23: Under a loaded configuration a request without a user signature is allowed only for an allowed
  host with a trust entry whose exclude list does not name the user, and only for a user the entry
  names or whose user id reaches its minimum, which is never zero.
\<close>

theorem DecideAuth_vouched:
  assumes "server_config_ok cfg" "fst (DecideAuth cfg cn uid u gs m) = DecisionAllow"
  shows "cn \<in> set (sc_AllowedHosts cfg) \<and>
    (\<exists>e \<in> set (ua_Agents (sc_UserAuth cfg)). ue_Agent e = cn \<and> u \<notin> set (tp_Exclude (ue_Trust e)) \<and>
       tp_MinUID (ue_Trust e) \<noteq> 0 \<and>
       (u \<in> set (tp_Include (ue_Trust e)) \<and> usernameRe u \<or> tp_MinUID (ue_Trust e) \<le> uid))"
  using DecideAuth_loaded [OF assms] by blast

definition demo_auth_cfg :: server_config where
  "demo_auth_cfg = \<lparr>
     sc_Server = \<lparr>sb_CertFile = ''c'', sb_KeyFile = ''k'', sb_CAFile = ''a'', sb_Listen = '''', sb_BackupPool = ''tank''\<rparr>,
     sc_AllowedHosts = [''web01''], sc_GlobalRules = [],
     sc_UserPolicy = \<lparr>up_DefaultSchedule = '''', up_DefaultQuotaGB = 1, up_PerUserOverrides = []\<rparr>,
     sc_SnapshotPolicy = \<lparr>sp_MinSnapshots = 2, sp_MaxSnapshots = 3, sp_MinFreeGB = 0\<rparr>,
     sc_KeyEnrollment = \<lparr>ke_Mode = ''admin_only'', ke_ServerOSLogin = \<lparr>ol_AllowedAgents = [], ol_MinUID = 0, ol_AllowedUsers = []\<rparr>\<rparr>,
     sc_UserAuth = \<lparr>ua_DefaultMode = ''per_user_key'', ua_Agents = [
       \<lparr>ue_Agent = ''web01'', ue_Mode = ''host_vouched'',
        ue_Trust = \<lparr>tp_MinUID = 1000, tp_Groups = [], tp_Include = [], tp_Exclude = [''mallory'']\<rparr>,
        ue_Capabilities = [''backup'']\<rparr>]\<rparr>\<rparr>"

lemma DecideAuth_vouched_witness:
  "''web01'' \<in> set (sc_AllowedHosts demo_auth_cfg)"
proof -
  have "server_config_ok demo_auth_cfg"
    "fst (DecideAuth demo_auth_cfg ''web01'' 1000 ''alice'' [] (service_prefix @ ''PushBackup'')) = DecisionAllow"
    by code_simp+
  from DecideAuth_vouched [OF this] show ?thesis by blast
qed

text \<open>
  C24: A handler runs only for a host the configuration allows, named by the leaf certificate of the
  connection, with the caller's own metadata; on a method outside the white list a nonce has been
  consumed for a valid user name, on the others the nonce table is unchanged.
\<close>

theorem AuthInterceptor_sound:
  assumes "AuthInterceptor cfg fl now p md m db = (db', Inr ctx)"
  shows "cx_hostname ctx \<in> set (sc_AllowedHosts cfg) \<and> (\<exists>cs. p = TLS (cx_hostname ctx # cs)) \<and>
    extractCallerMetadata md = Inr (cx_uid ctx, cx_groups ctx) \<and>
    (if m \<in> set MethodWhitelist then db' = db \<and> cx_username ctx = ''''
     else usernameRe (cx_username ctx) \<and> (\<exists>n. ConsumeNonce fl now n db = (db', Inr True)))"
  using AuthInterceptor_ctx [OF assms] by auto

lemma AuthInterceptor_sound_witness:
  "snd (AuthInterceptor demo_auth_cfg no_faults 0 (TLS [''web01'', ''ca'']) None (service_prefix @ ''PushBackup'') []) =
     Inr \<lparr>cx_hostname = ''web01'', cx_username = '''', cx_uid = 0, cx_groups = []\<rparr> \<and>
   ''web01'' \<in> set (sc_AllowedHosts demo_auth_cfg)"
proof -
  have r: "AuthInterceptor demo_auth_cfg no_faults 0 (TLS [''web01'', ''ca'']) None (service_prefix @ ''PushBackup'') [] =
     ([], Inr \<lparr>cx_hostname = ''web01'', cx_username = '''', cx_uid = 0, cx_groups = []\<rparr>)"
    by code_simp
  from AuthInterceptor_sound [OF r] r show ?thesis by simp
qed

end
