(* ===== verification/Vault_Files.thy ===== *)
theory Vault_Files
  imports Vault_Interfaces
begin

text \<open>
  Files by the components of their absolute path, as a list of entries. The first half is the
  table (shared by the key directory, the backup datasets and the restore target); the second
  half are the operating-system calls the receiver and the restore use: creating directories,
  writing, renaming over a file, removing. A call fails when the tree does not allow it, or
  when \<open>fl\<close> says so.
\<close>

section \<open>The table\<close>

type_synonym 'a files = "(string list \<times> 'a) list"

definition f_get :: "string list \<Rightarrow> 'a files \<Rightarrow> 'a option" where
  "f_get p fs = map_of fs p"

definition f_put :: "string list \<times> 'a \<Rightarrow> 'a files \<Rightarrow> 'a files" where
  "f_put e fs = e # filter (\<lambda>x. fst x \<noteq> fst e) fs"

definition f_del :: "string list \<Rightarrow> 'a files \<Rightarrow> 'a files" where
  "f_del p fs = filter (\<lambda>x. fst x \<noteq> p) fs"

lemma f_get_filter: "f_get p (filter (\<lambda>x. P (fst x)) fs) = (if P p then f_get p fs else None)"
  unfolding f_get_def by (induction fs) auto

lemma f_get_put: "f_get p (f_put e fs) = (if p = fst e then Some (snd e) else f_get p fs)"
  using f_get_filter [of p "\<lambda>q. q \<noteq> fst e" fs] by (cases e) (auto simp: f_get_def f_put_def)

lemma f_get_del: "f_get p (f_del q fs) = (if p = q then None else f_get p fs)"
  using f_get_filter [of p "\<lambda>x. x \<noteq> q" fs] by (auto simp: f_del_def)

interpretation file_table: keyed_table "\<lambda>p fs. map_option (Pair p) (f_get p fs)" f_put f_del fst
  by unfold_locales (auto simp: f_get_put f_get_del)

text \<open>\<open>os.ReadDir\<close>: the names directly below a directory, sorted.\<close>

definition f_list :: "string list \<Rightarrow> 'a files \<Rightarrow> string list" where
  "f_list dir fs =
     sort (remdups (map (\<lambda>e. last (fst e)) (filter (\<lambda>e. fst e \<noteq> [] \<and> butlast (fst e) = dir) fs)))"

lemma snoc_iff: "xs \<noteq> [] \<and> butlast xs = ys \<and> last xs = y \<longleftrightarrow> xs = ys @ [y]"
  by (cases xs rule: rev_cases) auto

lemma f_list_mem: "n \<in> set (f_list dir fs) \<longleftrightarrow> f_get (dir @ [n]) fs \<noteq> None"
proof -
  have "n \<in> set (f_list dir fs) \<longleftrightarrow> (\<exists>e \<in> set fs. fst e \<noteq> [] \<and> butlast (fst e) = dir \<and> last (fst e) = n)"
    by (auto simp: f_list_def)
  also have "\<dots> \<longleftrightarrow> dir @ [n] \<in> fst ` set fs"
    unfolding snoc_iff by force
  also have "\<dots> \<longleftrightarrow> f_get (dir @ [n]) fs \<noteq> None"
    unfolding f_get_def by (simp add: map_of_eq_None_iff)
  finally show ?thesis .
qed

definition f_wf :: "'a files \<Rightarrow> bool" where
  "f_wf fs \<longleftrightarrow> (\<forall>e \<in> set fs. normals (fst e))"

lemma f_wf_get: "f_wf fs \<Longrightarrow> f_get p fs \<noteq> None \<Longrightarrow> normals p"
  by (auto simp: f_wf_def f_get_def dest!: map_of_SomeD)

lemma f_wf_put: "f_wf fs \<Longrightarrow> normals (fst e) \<Longrightarrow> f_wf (f_put e fs)"
  by (auto simp: f_wf_def f_put_def)

lemma f_wf_del: "f_wf fs \<Longrightarrow> f_wf (f_del p fs)"
  by (auto simp: f_wf_def f_del_def)

section \<open>Nodes and calls\<close>

text \<open>A directory or a regular file with its owner, or a symbolic link with its text.\<close>

datatype node = NDir nat | NFile bytes "32 word" nat | NLink string

type_synonym tree = "node files"

datatype fs_op = MkdirAllOp | CreateOp | WriteOp | CloseOp | ChmodOp | RenameOp | RemoveOp
  | LstatOp | ReadOp | ChownOp

type_synonym fs_faults = "fs_op \<Rightarrow> string list \<Rightarrow> bool"

definition is_dir :: "node option \<Rightarrow> bool" where
  "is_dir n = (case n of Some (NDir _) \<Rightarrow> True | _ \<Rightarrow> False)"

definition is_link :: "node option \<Rightarrow> bool" where
  "is_link n = (case n of Some (NLink _) \<Rightarrow> True | _ \<Rightarrow> False)"

lemma is_link_simps [simp]:
  "\<not> is_link None" "\<not> is_link (Some (NDir u))" "\<not> is_link (Some (NFile c m u))" "is_link (Some (NLink x))"
  by (simp_all add: is_link_def)

definition prefixes_of :: "string list \<Rightarrow> string list list" where
  "prefixes_of p = map (\<lambda>i. take i p) [1..<length p + 1]"

definition mkdir_all :: "fs_faults \<Rightarrow> string list \<Rightarrow> tree \<Rightarrow> tree result" where
  "mkdir_all fl p fs =
     (if fl MkdirAllOp p then Inl (Errorf ''mkdir'')
      else if list_ex (\<lambda>q. f_get q fs \<noteq> None \<and> \<not> is_dir (f_get q fs)) (prefixes_of p)
        then Inl (Errorf ''not a directory'')
      else Inr (fold (\<lambda>q t. if f_get q t = None then f_put (q, NDir 0) t else t) (prefixes_of p) fs))"

text \<open>\<open>os.CreateTemp\<close>: a new empty file; \<open>name\<close> is the fresh name the call picks.\<close>

definition create_temp :: "fs_faults \<Rightarrow> string list \<Rightarrow> string \<Rightarrow> tree \<Rightarrow> tree result" where
  "create_temp fl dir name fs =
     (if fl CreateOp (dir @ [name]) \<or> \<not> (dir = [] \<or> is_dir (f_get dir fs)) \<or> f_get (dir @ [name]) fs \<noteq> None
      then Inl (Errorf ''create'') else Inr (f_put (dir @ [name], NFile '''' 0x180 0) fs))"

definition append_file :: "string list \<Rightarrow> bytes \<Rightarrow> tree \<Rightarrow> tree" where
  "append_file p data fs =
     (case f_get p fs of Some (NFile c m u) \<Rightarrow> f_put (p, NFile (c @ data) m u) fs | _ \<Rightarrow> fs)"

definition chmod_file :: "string list \<Rightarrow> 32 word \<Rightarrow> tree \<Rightarrow> tree" where
  "chmod_file p mode fs =
     (case f_get p fs of Some (NFile c m u) \<Rightarrow> f_put (p, NFile c mode u) fs | _ \<Rightarrow> fs)"

text \<open>Renaming a file over another: refused when the target is a directory.\<close>

definition rename_file :: "fs_faults \<Rightarrow> string list \<Rightarrow> string list \<Rightarrow> tree \<Rightarrow> tree result" where
  "rename_file fl p q fs =
     (if fl RenameOp q \<or> is_dir (f_get q fs) then Inl (Errorf ''rename'')
      else case f_get p fs of None \<Rightarrow> Inl (Errorf ''rename'')
        | Some n \<Rightarrow> Inr (f_put (q, n) (f_del p fs)))"

text \<open>\<open>os.Remove\<close> of a file or of an empty directory.\<close>

definition remove_node :: "fs_faults \<Rightarrow> string list \<Rightarrow> tree \<Rightarrow> tree result" where
  "remove_node fl p fs =
     (if f_get p fs = None then Inr fs
      else if fl RemoveOp p \<or> is_dir (f_get p fs) \<and> f_list p fs \<noteq> [] then Inl (Errorf ''remove'')
      else Inr (f_del p fs))"

definition perm :: "32 word \<Rightarrow> 32 word" where
  "perm mode = and mode 0x1FF"

section \<open>What the calls change\<close>

definition file_at :: "string list \<Rightarrow> tree \<Rightarrow> (bytes \<times> 32 word) option" where
  "file_at p fs = (case f_get p fs of Some (NFile c m _) \<Rightarrow> Some (c, m) | _ \<Rightarrow> None)"

lemma fold_mkdir_get:
  "f_get p (fold (\<lambda>q t. if f_get q t = None then f_put (q, NDir 0) t else t) qs fs) =
     (if p \<in> set qs \<and> f_get p fs = None then Some (NDir 0) else f_get p fs)"
  by (induction qs arbitrary: fs) (auto simp: f_get_put)

lemma mkdir_all_get:
  "mkdir_all fl p fs = Inr fs' \<Longrightarrow>
     f_get q fs' = (if q \<in> set (prefixes_of p) \<and> f_get q fs = None then Some (NDir 0) else f_get q fs)"
  by (auto simp: mkdir_all_def fold_mkdir_get split: if_splits)

lemma mkdir_all_files: "mkdir_all fl p fs = Inr fs' \<Longrightarrow> file_at q fs' = file_at q fs"
  by (simp add: file_at_def mkdir_all_get)

lemma in_prefixes: "q \<in> set (prefixes_of p) \<longleftrightarrow> q \<noteq> [] \<and> prefix q p"
proof
  assume "q \<in> set (prefixes_of p)"
  then obtain i where "1 \<le> i" "i \<le> length p" "q = take i p" by (auto simp: prefixes_of_def)
  then show "q \<noteq> [] \<and> prefix q p" by (auto simp: take_is_prefix)
next
  assume q: "q \<noteq> [] \<and> prefix q p"
  then obtain r where p: "p = q @ r" by (auto simp: prefix_def)
  then have "take (length q) p = q" "length q \<in> set [1..<length p + 1]"
    using q by (auto simp: Suc_le_eq)
  then show "q \<in> set (prefixes_of p)" unfolding prefixes_of_def by (metis image_eqI list.set_map)
qed

lemma mkdir_all_dir: "mkdir_all fl p fs = Inr fs' \<Longrightarrow> p \<noteq> [] \<Longrightarrow> is_dir (f_get p fs')"
proof -
  assume m: "mkdir_all fl p fs = Inr fs'" and ne: "p \<noteq> []"
  have p: "p \<in> set (prefixes_of p)" using ne by (subst in_prefixes) simp
  then have "f_get p fs = None \<or> is_dir (f_get p fs)"
    using m by (auto simp: mkdir_all_def list_ex_iff split: if_splits)
  then show ?thesis using p by (subst mkdir_all_get [OF m]) (auto simp: is_dir_def)
qed

end
