(* ===== verification/Vault_Keys.thy ===== *)
theory Vault_Keys
  imports Vault_Payload Vault_Files
begin

text \<open>
  The keys a signature may be checked against: the primary authorized key of a user on a host
  and the unexpired delegation keys next to it (\<open>internal/server/middleware/delegations.go\<close>,
  \<open>LoadAuthorizedKey\<close> in \<open>auth.go\<close>), with \<open>VerifySSHSignature\<close> of \<open>pkg/auth\<close>. The files are a list of entries by the
  components of their absolute path; a file's content is its text, or the delegation record it
  decodes to when it is the JSON that was written for one. The SSH library is a record of
  functions: parsing an authorized-keys line to the key it holds (in wire form), verifying a
  signature under a key, parsing a key in wire form and unmarshalling a signature.
\<close>

record ssh_lib =
  parseAuthorizedKey :: "bytes \<Rightarrow> bytes option"
  parsePublicKey :: "bytes \<Rightarrow> bytes option"
  verifyKey :: "bytes \<Rightarrow> bytes \<Rightarrow> bytes \<Rightarrow> bool"
  unmarshalSig :: "bytes \<Rightarrow> bytes option"

record delegation_meta =
  dm_GatewayCN :: string
  dm_ExpiresAt :: int

datatype key_content = KeyText bytes | MetaJSON delegation_meta

type_synonym key_files = "key_content files"

datatype key_op = OpMkdirAll | OpOpenTmp | OpWriteTmp | OpRename | OpRemove | OpReadDir | OpReadFile

type_synonym key_faults = "key_op \<Rightarrow> string \<Rightarrow> bool"

definition Ext :: "string \<Rightarrow> string" where
  "Ext name = (let r = takeWhile (\<lambda>c. c \<noteq> CHR ''.'' \<and> c \<noteq> CHR ''/'') (rev name);
                   rest = drop (length r) (rev name)
     in case rest of c # _ \<Rightarrow> if c = CHR ''.'' then c # rev r else '''' | [] \<Rightarrow> '''')"

lemma Ext_meta: "Ext (w @ ''.meta'') = ''.meta''"
  by (simp add: Ext_def)

section \<open>Fingerprints\<close>

text \<open>\<open>base64.RawURLEncoding\<close>.\<close>

definition b64_char :: "nat \<Rightarrow> char" where
  "b64_char n = (if n < 26 then char_of (65 + n) else if n < 52 then char_of (71 + n)
     else if n < 62 then char_of (n - 4) else if n = 62 then CHR ''-'' else CHR ''_'')"

fun b64url :: "bytes \<Rightarrow> string" where
  "b64url [] = []"
| "b64url [a] = (let x = of_char a :: nat in [b64_char (x div 4), b64_char (x mod 4 * 16)])"
| "b64url [a, b] = (let x = of_char a :: nat; y = of_char b :: nat in
     [b64_char (x div 4), b64_char (x mod 4 * 16 + y div 16), b64_char (y mod 16 * 4)])"
| "b64url (a # b # c # cs) =
     (let x = of_char a :: nat; y = of_char b :: nat; z = of_char c :: nat in
      [b64_char (x div 4), b64_char (x mod 4 * 16 + y div 16),
       b64_char (y mod 16 * 4 + z div 64), b64_char (z mod 64)]) @ b64url cs"

definition DelegationFingerprint :: "(bytes \<Rightarrow> bytes) \<Rightarrow> bytes \<Rightarrow> string" where
  "DelegationFingerprint sha key = b64url (sha key)"

lemma b64_char_no_sep: "b64_char n \<noteq> CHR ''/''" "b64_char n \<noteq> CHR ''.''"
proof -
  have small: "\<forall>n \<in> set [0..<64]. b64_char n \<noteq> CHR ''/'' \<and> b64_char n \<noteq> CHR ''.''"
    by code_simp
  have big: "b64_char n = CHR ''_''" if "64 \<le> n" using that by (simp add: b64_char_def)
  show "b64_char n \<noteq> CHR ''/''" "b64_char n \<noteq> CHR ''.''"
    using small big by (cases "n < 64"; force)+
qed

lemma b64url_no_sep: "c \<in> set (b64url bs) \<Longrightarrow> c \<noteq> CHR ''/'' \<and> c \<noteq> CHR ''.''"
  by (induction bs rule: b64url.induct) (auto simp: Let_def b64_char_no_sep)

lemma fingerprint_normal:
  assumes "ext \<in> set [''.pub'', ''.meta'', ''.pub.tmp'', ''.meta.tmp'']"
  shows "normal (DelegationFingerprint sha k @ ext)"
proof -
  have "CHR ''/'' \<notin> set (DelegationFingerprint sha k)"
    using b64url_no_sep by (auto simp: DelegationFingerprint_def)
  then show ?thesis using assms
    by (cases "DelegationFingerprint sha k") (auto simp: normal_def append_eq_Cons_conv)
qed

section \<open>Writing and removing delegation keys\<close>

definition delegationDir :: "string \<Rightarrow> string \<Rightarrow> string \<Rightarrow> string" where
  "delegationDir keysDir hostname username = Join [keysDir, hostname, username @ ''.delegations'']"

definition writeFileAtomic ::
  "key_faults \<Rightarrow> string \<Rightarrow> key_content \<Rightarrow> key_files \<Rightarrow> key_files \<times> unit result" where
  "writeFileAtomic fl path data fs =
     (let tmp = path @ ''.tmp'' in
      if fl OpOpenTmp tmp then (fs, Inl (Wrap ''write %s: %w'' (Errorf ''open'')))
      else if fl OpWriteTmp tmp
        then (f_put (abs_comps tmp, KeyText '''') fs, Inl (Wrap ''write %s: %w'' (Errorf ''write'')))
      else if fl OpRename path
        then (f_put (abs_comps tmp, data) fs, Inl (Wrap ''rename %s: %w'' (Errorf ''rename'')))
      else (f_put (abs_comps path, data) (f_del (abs_comps tmp) fs), Inr ()))"

definition SaveDelegationKey ::
  "ssh_lib \<Rightarrow> (bytes \<Rightarrow> bytes) \<Rightarrow> key_faults \<Rightarrow> string \<Rightarrow> string \<Rightarrow> string \<Rightarrow> bytes \<Rightarrow> delegation_meta \<Rightarrow>
   key_files \<Rightarrow> key_files \<times> unit result" where
  "SaveDelegationKey lib sha fl keysDir hostname username pubKeyLine meta fs =
     (case parseAuthorizedKey lib pubKeyLine of
        None \<Rightarrow> (fs, Inl (Wrap ''parse delegation key: %w'' (Errorf ''ssh: no key found'')))
      | Some pubKey \<Rightarrow>
          (let dir = delegationDir keysDir hostname username; fp = DelegationFingerprint sha pubKey in
           if fl OpMkdirAll dir then (fs, Inl (Wrap ''create delegation dir: %w'' (Errorf ''mkdir'')))
           else case writeFileAtomic fl (Join [dir, fp @ ''.pub'']) (KeyText pubKeyLine) fs of
             (fs1, Inl e) \<Rightarrow> (fs1, Inl e)
           | (fs1, Inr _) \<Rightarrow> writeFileAtomic fl (Join [dir, fp @ ''.meta'']) (MetaJSON meta) fs1))"

definition remove_file :: "key_faults \<Rightarrow> string \<Rightarrow> key_files \<Rightarrow> key_files \<times> unit result" where
  "remove_file fl path fs =
     (if f_get (abs_comps path) fs = None then (fs, Inr ())
      else if fl OpRemove path then (fs, Inl (Wrap ''remove delegation %s: %w'' (Errorf ''remove'')))
      else (f_del (abs_comps path) fs, Inr ()))"

definition RemoveDelegationKeyFile ::
  "key_faults \<Rightarrow> string \<Rightarrow> string \<Rightarrow> string \<Rightarrow> string \<Rightarrow> key_files \<Rightarrow> key_files \<times> unit result" where
  "RemoveDelegationKeyFile fl keysDir hostname username fp fs =
     (let dir = delegationDir keysDir hostname username in
      case remove_file fl (Join [dir, fp @ ''.pub'']) fs of
        (fs1, Inl e) \<Rightarrow> (fs1, Inl e)
      | (fs1, Inr _) \<Rightarrow> remove_file fl (Join [dir, fp @ ''.meta'']) fs1)"

section \<open>Reading keys\<close>

definition LoadAuthorizedKey ::
  "ssh_lib \<Rightarrow> key_faults \<Rightarrow> string \<Rightarrow> string \<Rightarrow> string \<Rightarrow> key_files \<Rightarrow> bytes result" where
  "LoadAuthorizedKey lib fl keysDir hostname username fs =
     (let path = Join [keysDir, hostname, username @ ''.pub''] in
      case (if fl OpReadFile path then None else f_get (abs_comps path) fs) of
        Some (KeyText data) \<Rightarrow>
          (case parseAuthorizedKey lib data of
             None \<Rightarrow> Inl (Wrap ''parse key: %w'' (Errorf ''ssh: no key found''))
           | Some k \<Rightarrow> Inr k)
      | Some (MetaJSON _) \<Rightarrow> Inl (Wrap ''parse key: %w'' (Errorf ''ssh: no key found''))
      | None \<Rightarrow> Inl (Wrap ''read authorized key for %s/%s: %w'' (Errorf ''open'')))"

text \<open>One entry of the delegation directory; unreadable, expired and unparsable ones are skipped.\<close>

definition delegation_entry ::
  "ssh_lib \<Rightarrow> key_faults \<Rightarrow> int \<Rightarrow> string \<Rightarrow> key_files \<Rightarrow> string \<Rightarrow> bytes option" where
  "delegation_entry lib fl now dir fs name =
     (if Ext name \<noteq> ''.meta'' then None
      else let metaPath = Join [dir, name];
               pubPath = Join [dir, take (length name - length ''.meta'') name @ ''.pub'']
        in case (if fl OpReadFile metaPath then None else f_get (abs_comps metaPath) fs) of
             Some (MetaJSON meta) \<Rightarrow>
               if dm_ExpiresAt meta \<le> now then None
               else (case (if fl OpReadFile pubPath then None else f_get (abs_comps pubPath) fs) of
                 Some (KeyText pubData) \<Rightarrow> parseAuthorizedKey lib pubData
               | _ \<Rightarrow> None)
           | _ \<Rightarrow> None)"

definition LoadDelegationKeys ::
  "ssh_lib \<Rightarrow> key_faults \<Rightarrow> string \<Rightarrow> string \<Rightarrow> string \<Rightarrow> int \<Rightarrow> key_files \<Rightarrow> bytes list result" where
  "LoadDelegationKeys lib fl keysDir hostname username now fs =
     (let dir = delegationDir keysDir hostname username; entries = f_list (abs_comps dir) fs in
      if fl OpReadDir dir then Inl (Wrap ''read delegation dir: %w'' (Errorf ''readdir''))
      else Inr (List.map_filter (delegation_entry lib fl now dir fs) entries))"

definition LoadSigningKeys ::
  "ssh_lib \<Rightarrow> key_faults \<Rightarrow> string \<Rightarrow> string \<Rightarrow> string \<Rightarrow> int \<Rightarrow> key_files \<Rightarrow> bytes list result" where
  "LoadSigningKeys lib fl keysDir hostname username now fs =
     (case LoadAuthorizedKey lib fl keysDir hostname username fs of
        Inl e \<Rightarrow> Inl e
      | Inr primary \<Rightarrow>
          (case LoadDelegationKeys lib fl keysDir hostname username now fs of
             Inl e \<Rightarrow> Inl e
           | Inr delegations \<Rightarrow> Inr (primary # delegations)))"

definition VerifyAnyKey :: "ssh_lib \<Rightarrow> bytes list \<Rightarrow> bytes \<Rightarrow> bytes \<Rightarrow> bool" where
  "VerifyAnyKey lib keys payload sig = list_ex (\<lambda>k. verifyKey lib k payload sig) keys"

definition VerifySSHSignature :: "ssh_lib \<Rightarrow> bytes \<Rightarrow> bytes \<Rightarrow> bytes \<Rightarrow> unit result" where
  "VerifySSHSignature lib pubKeyBytes payload sig =
     (case parsePublicKey lib pubKeyBytes of
        None \<Rightarrow> Inl (Wrap ''parse public key: %w'' (Errorf ''ssh: short read''))
      | Some k \<Rightarrow> if verifyKey lib k payload sig then Inr ()
                  else Inl (Wrap ''signature verification failed: %w'' (Errorf ''verify'')))"

section \<open>Which keys are loaded\<close>

lemma Ext_suffix: "suffix (Ext name) name"
proof -
  define r where "r = takeWhile (\<lambda>c. c \<noteq> CHR ''.'' \<and> c \<noteq> CHR ''/'') (rev name)"
  define d where "d = dropWhile (\<lambda>c. c \<noteq> CHR ''.'' \<and> c \<noteq> CHR ''/'') (rev name)"
  have split: "r @ d = rev name" by (simp add: r_def d_def)
  have drop: "drop (length r) (rev name) = d" by (simp add: split [symmetric])
  have ext: "Ext name = (case d of c # _ \<Rightarrow> if c = CHR ''.'' then c # rev r else '''' | [] \<Rightarrow> '''')"
    by (simp only: Ext_def Let_def r_def [symmetric] drop)
  have name: "name = rev d @ rev r"
    using arg_cong [OF split, of rev] by simp
  show ?thesis
    unfolding ext by (subst name) (auto simp: suffix_def split: list.splits)
qed

lemma Ext_meta_iff: "Ext name = ''.meta'' \<longleftrightarrow> (\<exists>w. name = w @ ''.meta'')"
  using Ext_suffix [of name] Ext_meta by (auto simp: suffix_def)

lemma normal_append: "CHR ''/'' \<notin> set w \<Longrightarrow> CHR ''/'' \<notin> set x \<Longrightarrow> 3 \<le> length x \<Longrightarrow> normal (w @ x)"
proof -
  assume a: "CHR ''/'' \<notin> set w" "CHR ''/'' \<notin> set x" "3 \<le> length x"
  have "length (w @ x) \<ge> 3" using a(3) by simp
  then have "w @ x \<noteq> ''''" "w @ x \<noteq> ''.''" "w @ x \<noteq> ''..''" by (auto simp del: length_append)
  then show ?thesis using a by (simp add: normal_def)
qed

definition deleg_comps :: "string \<Rightarrow> string \<Rightarrow> string \<Rightarrow> string list" where
  "deleg_comps keysDir h u = abs_comps keysDir @ [h, u @ ''.delegations'']"

definition valid_owner :: "string \<Rightarrow> string \<Rightarrow> string \<Rightarrow> bool" where
  "valid_owner keysDir h u \<longleftrightarrow> is_abs keysDir \<and> hostnameRe h \<and> usernameRe u"

lemma owner_normals:
  assumes "valid_owner keysDir h u"
  shows "normal h" "normal (u @ ''.delegations'')" "normal (u @ ''.pub'')"
    "normals (deleg_comps keysDir h u)"
  using assms hostname_normal username_no_slash [of u]
  by (auto simp: valid_owner_def deleg_comps_def intro!: normal_append)

lemma delegationDir_abs:
  "valid_owner keysDir h u \<Longrightarrow> delegationDir keysDir h u = abs_path (deleg_comps keysDir h u)"
  using owner_normals [of keysDir h u] Join3_abs_normal [of keysDir h "u @ ''.delegations''"]
  by (simp add: delegationDir_def deleg_comps_def valid_owner_def)

lemma Join_dir_name:
  assumes "normals D" "normal name"
  shows "Join [abs_path D, name] = abs_path (D @ [name])"
  using Join_abs_normals [of "abs_path D" "[name]"] assms by (simp add: path_join_def)

lemma comps_dir_name:
  assumes "normals D" "normal name"
  shows "abs_comps (Join [abs_path D, name]) = D @ [name]"
  using assms by (simp add: Join_dir_name)

text \<open>The unexpired keys of a delegation directory.\<close>

definition live_key :: "ssh_lib \<Rightarrow> int \<Rightarrow> string list \<Rightarrow> key_files \<Rightarrow> bytes \<Rightarrow> bool" where
  "live_key lib now D fs k \<longleftrightarrow>
     (\<exists>w meta line. CHR ''/'' \<notin> set w \<and> f_get (D @ [w @ ''.meta'']) fs = Some (MetaJSON meta) \<and>
        now < dm_ExpiresAt meta \<and> f_get (D @ [w @ ''.pub'']) fs = Some (KeyText line) \<and>
        parseAuthorizedKey lib line = Some k)"

lemma delegation_entry_meta:
  assumes "normals D" "CHR ''/'' \<notin> set w"
  shows "delegation_entry lib fl now (abs_path D) fs (w @ ''.meta'') =
    (case (if fl OpReadFile (Join [abs_path D, w @ ''.meta'']) then None
           else f_get (D @ [w @ ''.meta'']) fs) of
       Some (MetaJSON meta) \<Rightarrow>
         if dm_ExpiresAt meta \<le> now then None
         else (case (if fl OpReadFile (Join [abs_path D, w @ ''.pub'']) then None
                     else f_get (D @ [w @ ''.pub'']) fs) of
           Some (KeyText pubData) \<Rightarrow> parseAuthorizedKey lib pubData | _ \<Rightarrow> None)
     | _ \<Rightarrow> None)"
proof -
  have n: "normal (w @ ''.meta'')" "normal (w @ ''.pub'')"
    using assms(2) by (auto intro!: normal_append)
  have t: "take (length (w @ ''.meta'') - length ''.meta'') (w @ ''.meta'') @ ''.pub'' = w @ ''.pub''"
    by simp
  show ?thesis
    unfolding delegation_entry_def Let_def t
    by (simp only: Ext_meta comps_dir_name [OF assms(1) n(1)] comps_dir_name [OF assms(1) n(2)]) simp
qed

lemma LoadDelegationKeys_sound:
  assumes "valid_owner keysDir h u" "f_wf fs"
    and "LoadDelegationKeys lib fl keysDir h u now fs = Inr ks" "k \<in> set ks"
  shows "live_key lib now (deleg_comps keysDir h u) fs k"
proof -
  let ?D = "deleg_comps keysDir h u"
  have D: "normals ?D" using owner_normals [OF assms(1)] by simp
  from assms(3,4) obtain name where name: "name \<in> set (f_list ?D fs)"
      "delegation_entry lib fl now (abs_path ?D) fs name = Some k"
    using D by (auto simp: LoadDelegationKeys_def Let_def delegationDir_abs [OF assms(1)]
      map_filter_def split: if_splits)
  then have "Ext name = ''.meta''" by (auto simp: delegation_entry_def split: if_splits)
  then obtain w where w: "name = w @ ''.meta''" by (auto simp: Ext_meta_iff)
  have "normals (?D @ [name])" by (rule f_wf_get [OF assms(2) name(1) [unfolded f_list_mem]])
  then have sep: "CHR ''/'' \<notin> set w" by (simp add: w normal_def)
  show ?thesis
    using name(2) sep unfolding w delegation_entry_meta [OF D sep] live_key_def
    by (auto split: option.splits key_content.splits if_splits)
qed

lemma LoadDelegationKeys_complete:
  assumes "valid_owner keysDir h u" "live_key lib now (deleg_comps keysDir h u) fs k"
    and "\<And>p. \<not> fl OpReadFile p" "\<And>p. \<not> fl OpReadDir p"
  shows "\<exists>ks. LoadDelegationKeys lib fl keysDir h u now fs = Inr ks \<and> k \<in> set ks"
proof -
  let ?D = "deleg_comps keysDir h u"
  have D: "normals ?D" using owner_normals [OF assms(1)] by simp
  from assms(2) obtain w meta line where w: "CHR ''/'' \<notin> set w"
      "f_get (?D @ [w @ ''.meta'']) fs = Some (MetaJSON meta)" "now < dm_ExpiresAt meta"
      "f_get (?D @ [w @ ''.pub'']) fs = Some (KeyText line)" "parseAuthorizedKey lib line = Some k"
    by (auto simp: live_key_def)
  have "w @ ''.meta'' \<in> set (f_list ?D fs)" using w(2) by (simp add: f_list_mem)
  moreover have "delegation_entry lib fl now (abs_path ?D) fs (w @ ''.meta'') = Some k"
    using w assms(3) by (simp add: delegation_entry_meta [OF D])
  ultimately show ?thesis
    using D assms(4) by (force simp: LoadDelegationKeys_def Let_def delegationDir_abs [OF assms(1)] map_filter_def)
qed

text \<open>
  A signature the server accepts verifies under the primary key file of this user on this host
  or under an unexpired delegation key of the same user on the same host.
\<close>

lemma LoadSigningKeys_sound:
  assumes "valid_owner keysDir h u" "f_wf fs"
    and "LoadSigningKeys lib fl keysDir h u now fs = Inr ks" "VerifyAnyKey lib ks payload sig"
  shows "\<exists>k. verifyKey lib k payload sig \<and>
    ((\<exists>line. f_get (abs_comps keysDir @ [h, u @ ''.pub'']) fs = Some (KeyText line) \<and>
             parseAuthorizedKey lib line = Some k) \<or>
     live_key lib now (deleg_comps keysDir h u) fs k)"
proof -
  from assms(3) obtain p ds where p: "LoadAuthorizedKey lib fl keysDir h u fs = Inr p"
      "LoadDelegationKeys lib fl keysDir h u now fs = Inr ds" "ks = p # ds"
    by (auto simp: LoadSigningKeys_def split: sum.splits)
  from assms(4) obtain k where k: "k \<in> set ks" "verifyKey lib k payload sig"
    by (auto simp: VerifyAnyKey_def list_ex_iff)
  have path: "abs_comps (Join [keysDir, h, u @ ''.pub'']) = abs_comps keysDir @ [h, u @ ''.pub'']"
    using Join3_abs_normal [of keysDir h "u @ ''.pub''"] owner_normals [OF assms(1)] assms(1)
    by (simp add: valid_owner_def)
  show ?thesis
  proof (cases "k = p")
    case True
    then have "\<exists>line. f_get (abs_comps keysDir @ [h, u @ ''.pub'']) fs = Some (KeyText line) \<and>
             parseAuthorizedKey lib line = Some k"
      using p(1) unfolding LoadAuthorizedKey_def Let_def path
      by (auto split: if_splits option.splits key_content.splits)
    then show ?thesis using k(2) by blast
  next
    case False
    then have "k \<in> set ds" using k(1) p(3) by simp
    then show ?thesis using LoadDelegationKeys_sound [OF assms(1,2) p(2)] k(2) by blast
  qed
qed

section \<open>What saving and removing a delegation key changes\<close>

lemma abs_path_snoc: "abs_path (D @ [x]) @ y = abs_path (D @ [x @ y])"
proof -
  have "join_on c (D @ [x]) @ y = join_on c (D @ [x @ y])" for c
    by (induction c D rule: join_on.induct) (auto simp: join_on_Cons)
  then show ?thesis by (simp add: abs_path_def path_join_def)
qed

lemma comps_tmp:
  assumes "normals D" "normal name" "normal (name @ ''.tmp'')"
  shows "abs_comps (Join [abs_path D, name] @ ''.tmp'') = D @ [name @ ''.tmp'']"
  using assms by (simp add: Join_dir_name abs_path_snoc)

lemma writeFileAtomic_get:
  assumes "normals D" "normal name" "normal (name @ ''.tmp'')"
    and "writeFileAtomic fl (Join [abs_path D, name]) data fs = (fs', r)"
  shows "r = Inr () \<Longrightarrow> f_get (D @ [name]) fs' = Some data"
    and "p \<noteq> D @ [name] \<Longrightarrow> p \<noteq> D @ [name @ ''.tmp''] \<Longrightarrow> f_get p fs' = f_get p fs"
  using assms(4) comps_tmp [OF assms(1-3)] comps_dir_name [OF assms(1,2)]
  by (auto simp: writeFileAtomic_def Let_def f_get_put f_get_del split: if_splits)

lemma writeFileAtomic_wf:
  assumes "normals D" "normal name" "normal (name @ ''.tmp'')" "f_wf fs"
  shows "f_wf (fst (writeFileAtomic fl (Join [abs_path D, name]) data fs))"
  using assms comps_tmp [OF assms(1-3)] comps_dir_name [OF assms(1,2)]
  by (auto simp: writeFileAtomic_def Let_def intro!: f_wf_put f_wf_del)

lemma fp_names:
  "normal (DelegationFingerprint sha k @ ''.pub'')" "normal (DelegationFingerprint sha k @ ''.meta'')"
  "normal ((DelegationFingerprint sha k @ ''.pub'') @ ''.tmp'')"
  "normal ((DelegationFingerprint sha k @ ''.meta'') @ ''.tmp'')"
  using fingerprint_normal [of _ sha k] by simp_all

lemma SaveDelegationKey_ok:
  assumes o: "valid_owner keysDir h u" and p: "parseAuthorizedKey lib line = Some k"
    and s: "SaveDelegationKey lib sha fl keysDir h u line meta fs = (fs', Inr ())"
  shows "f_get (deleg_comps keysDir h u @ [DelegationFingerprint sha k @ ''.pub'']) fs' = Some (KeyText line)"
    and "f_get (deleg_comps keysDir h u @ [DelegationFingerprint sha k @ ''.meta'']) fs' = Some (MetaJSON meta)"
    and "now < dm_ExpiresAt meta \<Longrightarrow> live_key lib now (deleg_comps keysDir h u) fs' k"
proof -
  let ?D = "deleg_comps keysDir h u" and ?fp = "DelegationFingerprint sha k"
  have D: "normals ?D" using owner_normals [OF o] by simp
  from s p obtain fs1 where w:
      "writeFileAtomic fl (Join [abs_path ?D, ?fp @ ''.pub'']) (KeyText line) fs = (fs1, Inr ())"
      "writeFileAtomic fl (Join [abs_path ?D, ?fp @ ''.meta'']) (MetaJSON meta) fs1 = (fs', Inr ())"
    by (auto simp: SaveDelegationKey_def Let_def delegationDir_abs [OF o] split: prod.splits if_splits sum.splits)
  note g1 = writeFileAtomic_get [OF D fp_names(1,3) w(1)]
  note g2 = writeFileAtomic_get [OF D fp_names(2,4) w(2)]
  show pub: "f_get (?D @ [?fp @ ''.pub'']) fs' = Some (KeyText line)"
    using g1(1) g2(2) [of "?D @ [?fp @ ''.pub'']"] by simp
  show met: "f_get (?D @ [?fp @ ''.meta'']) fs' = Some (MetaJSON meta)"
    using g2(1) by simp
  show "now < dm_ExpiresAt meta \<Longrightarrow> live_key lib now ?D fs' k"
    unfolding live_key_def
    using pub met p b64url_no_sep by (intro exI [of _ ?fp]) (auto simp: DelegationFingerprint_def)
qed

lemma SaveDelegationKey_frame:
  assumes "valid_owner keysDir h u" "butlast q \<noteq> deleg_comps keysDir h u"
  shows "f_get q (fst (SaveDelegationKey lib sha fl keysDir h u line meta fs)) = f_get q fs"
proof -
  let ?D = "deleg_comps keysDir h u"
  have D: "normals ?D" using owner_normals [OF assms(1)] by simp
  have ne: "q \<noteq> ?D @ [n]" for n using assms(2) by auto
  have f: "f_get q gs' = f_get q gs"
    if "normal n" "normal (n @ ''.tmp'')" "writeFileAtomic fl (Join [abs_path ?D, n]) data gs = (gs', r)"
    for n data gs gs' r
    using writeFileAtomic_get(2) [OF D that] ne by simp
  have f2: "f_get q (fst (writeFileAtomic fl
      (Join [abs_path ?D, DelegationFingerprint sha k @ ''.meta'']) data gs)) = f_get q gs" for k data gs
    using f [OF fp_names(2,4) surjective_pairing] .
  show ?thesis
    by (auto simp: SaveDelegationKey_def Let_def delegationDir_abs [OF assms(1)] f2
        dest!: f [OF fp_names(1,3)]
        split: option.splits prod.splits sum.splits)
qed

lemma remove_file_get:
  assumes "normals D" "normal name" "remove_file fl (Join [abs_path D, name]) fs = (fs', r)"
  shows "r = Inr () \<Longrightarrow> f_get (D @ [name]) fs' = None"
    and "p \<noteq> D @ [name] \<Longrightarrow> f_get p fs' = f_get p fs"
    and "f_get p fs = None \<Longrightarrow> f_get p fs' = None"
  using assms(3) comps_dir_name [OF assms(1,2)]
  by (auto simp: remove_file_def f_get_del split: if_splits)

text \<open>After a removal no key of that fingerprint signs for the user, whatever the files named.\<close>

lemma RemoveDelegationKeyFile_ok:
  assumes o: "valid_owner keysDir h u" and fp: "CHR ''/'' \<notin> set fp"
    and r: "RemoveDelegationKeyFile fl keysDir h u fp fs = (fs', Inr ())"
  shows "f_get (deleg_comps keysDir h u @ [fp @ ''.pub'']) fs' = None"
    and "f_get (deleg_comps keysDir h u @ [fp @ ''.meta'']) fs' = None"
    and "q \<noteq> deleg_comps keysDir h u @ [fp @ ''.pub''] \<Longrightarrow>
         q \<noteq> deleg_comps keysDir h u @ [fp @ ''.meta''] \<Longrightarrow> f_get q fs' = f_get q fs"
proof -
  let ?D = "deleg_comps keysDir h u"
  have D: "normals ?D" using owner_normals [OF o] by simp
  have n: "normal (fp @ ''.pub'')" "normal (fp @ ''.meta'')" using fp by (auto intro!: normal_append)
  from r obtain fs1 where w: "remove_file fl (Join [abs_path ?D, fp @ ''.pub'']) fs = (fs1, Inr ())"
      "remove_file fl (Join [abs_path ?D, fp @ ''.meta'']) fs1 = (fs', Inr ())"
    by (auto simp: RemoveDelegationKeyFile_def Let_def delegationDir_abs [OF o] split: prod.splits sum.splits)
  note g1 = remove_file_get [OF D n(1) w(1)] and g2 = remove_file_get [OF D n(2) w(2)]
  show "f_get (?D @ [fp @ ''.pub'']) fs' = None" using g1(1) g2(3) by simp
  show "f_get (?D @ [fp @ ''.meta'']) fs' = None" using g2(1) by simp
  show "q \<noteq> ?D @ [fp @ ''.pub''] \<Longrightarrow> q \<noteq> ?D @ [fp @ ''.meta''] \<Longrightarrow> f_get q fs' = f_get q fs"
    using g1(2) g2(2) by simp
qed

text \<open>Every public-key file of a delegation directory is named by its key's fingerprint.\<close>

definition keys_named :: "ssh_lib \<Rightarrow> (bytes \<Rightarrow> bytes) \<Rightarrow> string list \<Rightarrow> key_files \<Rightarrow> bool" where
  "keys_named lib sha D fs \<longleftrightarrow>
     (\<forall>w line k. f_get (D @ [w @ ''.pub'']) fs = Some (KeyText line) \<and>
        parseAuthorizedKey lib line = Some k \<longrightarrow> w = DelegationFingerprint sha k)"

lemma RemoveDelegationKeyFile_revokes:
  assumes "valid_owner keysDir h u" "keys_named lib sha (deleg_comps keysDir h u) fs"
    and "RemoveDelegationKeyFile fl keysDir h u (DelegationFingerprint sha k) fs = (fs', Inr ())"
  shows "\<not> live_key lib now (deleg_comps keysDir h u) fs' k"
proof
  let ?D = "deleg_comps keysDir h u" and ?fp = "DelegationFingerprint sha k"
  assume "live_key lib now ?D fs' k"
  then obtain w meta line where w: "f_get (?D @ [w @ ''.meta'']) fs' = Some (MetaJSON meta)"
      "f_get (?D @ [w @ ''.pub'']) fs' = Some (KeyText line)" "parseAuthorizedKey lib line = Some k"
    by (auto simp: live_key_def)
  have sep: "CHR ''/'' \<notin> set ?fp" using b64url_no_sep by (auto simp: DelegationFingerprint_def)
  note r = RemoveDelegationKeyFile_ok [OF assms(1) sep assms(3)]
  have "w \<noteq> ?fp" using w(1) r(2) by auto
  then have "f_get (?D @ [w @ ''.pub'']) fs = Some (KeyText line)" using r(3) w(2) by simp
  then show False using assms(2) w(3) \<open>w \<noteq> ?fp\<close> by (auto simp: keys_named_def)
qed

lemma live_key_frame:
  assumes "\<And>q. butlast q = D \<Longrightarrow> f_get q fs' = f_get q fs"
  shows "live_key lib now D fs' k = live_key lib now D fs k"
  using assms by (simp add: live_key_def)

lemma deleg_comps_inj:
  assumes "deleg_comps keysDir h u = deleg_comps keysDir h' u'"
  shows "h = h' \<and> u = u'"
  using assms by (simp add: deleg_comps_def)

lemma SaveDelegationKey_others:
  assumes "valid_owner keysDir h u" "(h', u') \<noteq> (h, u)"
  shows "live_key lib now (deleg_comps keysDir h' u')
           (fst (SaveDelegationKey lib' sha fl keysDir h u line meta fs)) k =
         live_key lib now (deleg_comps keysDir h' u') fs k"
proof (rule live_key_frame)
  fix q assume "butlast q = deleg_comps keysDir h' u'"
  then show "f_get q (fst (SaveDelegationKey lib' sha fl keysDir h u line meta fs)) = f_get q fs"
    using assms(2) deleg_comps_inj [of keysDir h' u' h u]
    by (intro SaveDelegationKey_frame [OF assms(1)]) auto
qed

text \<open>
  The delegation keys the server accepts for a user on a host are exactly the unexpired ones stored in
  that user's directory: a metadata file with a later expiry and a key file that parses.
\<close>

theorem LoadDelegationKeys_exact:
  assumes "valid_owner keysDir h u" "f_wf fs" "\<forall>p. \<not> fl OpReadFile p \<and> \<not> fl OpReadDir p"
  shows "\<exists>ks. LoadDelegationKeys lib fl keysDir h u now fs = Inr ks \<and>
    set ks = {k. live_key lib now (deleg_comps keysDir h u) fs k}"
proof -
  obtain ks where ks: "LoadDelegationKeys lib fl keysDir h u now fs = Inr ks"
    using assms(3) by (auto simp: LoadDelegationKeys_def Let_def)
  have "k \<in> set ks \<longleftrightarrow> live_key lib now (deleg_comps keysDir h u) fs k" for k
    using LoadDelegationKeys_sound [OF assms(1,2) ks] LoadDelegationKeys_complete [OF assms(1), of lib now fs k fl]
      ks assms(3) by auto
  then show ?thesis using ks by auto
qed

lemma LoadDelegationKeys_exact_witness:
  "LoadDelegationKeys \<lparr>parseAuthorizedKey = Some, parsePublicKey = Some, verifyKey = (\<lambda>_ _ _. True), unmarshalSig = Some\<rparr>
     (\<lambda>_ _. False) ''/keys'' ''web01'' ''alice'' 5 [] = Inr []"
  (is "LoadDelegationKeys ?lib ?fl _ _ _ _ _ = _")
proof -
  have "valid_owner ''/keys'' ''web01'' ''alice''" by code_simp
  from LoadDelegationKeys_exact [OF this, of "[]" ?fl ?lib 5]
  show ?thesis by (auto simp: f_wf_def live_key_def f_get_def)
qed

end
