(* ===== verification/Vault_Chunks.thy ===== *)
theory Vault_Chunks
  imports Vault_Files
begin

text \<open>
  The chunk protocol both directions share: a file larger than the limit travels as a sequence
  of entries with increasing offsets, the last one marked final
  (\<open>sendChunkedFile\<close> in the agent's transport, \<open>ReadAllChunksFrom\<close> in the server's receiver);
  the other side appends them to a staging file and publishes it at the end (\<open>writeChunk\<close> in
  the server, \<open>writeRestoredChunk\<close> in the agent). The locale states what an assembler owes its
  sender; both assemblers interpret it.
\<close>

record file_entry =
  fe_Path :: string
  fe_Content :: bytes
  fe_Mode :: "32 word"
  fe_Deleted :: bool
  fe_Chunked :: bool
  fe_ChunkOffset :: "64 word"
  fe_FinalChunk :: bool

section \<open>Cutting\<close>

text \<open>
  The reading loop over the remaining data: pieces of at most \<open>limit\<close> bytes, the offset of each
  and whether it is the last.
\<close>

function cut_chunks :: "nat \<Rightarrow> nat \<Rightarrow> bytes \<Rightarrow> (bytes \<times> nat \<times> bool) list" where
  "cut_chunks limit offset data =
     (if data = [] \<or> limit = 0 then []
      else let want = min limit (length data) in
        (take want data, offset, length data = want) # cut_chunks limit (offset + want) (drop want data))"
  by pat_completeness auto
termination by (relation "measure (\<lambda>(limit, offset, data). length data)") auto

declare cut_chunks.simps [simp del]

lemma cut_chunks_Nil [simp]: "cut_chunks limit offset [] = []"
  by (simp add: cut_chunks.simps)

lemma cut_chunks_concat: "0 < limit \<Longrightarrow> concat (map fst (cut_chunks limit offset data)) = data"
proof (induction limit offset data rule: cut_chunks.induct)
  case (1 limit offset data)
  then show ?case by (subst cut_chunks.simps) (auto simp: Let_def)
qed

definition chunk_entry :: "string \<Rightarrow> 32 word \<Rightarrow> bytes \<times> nat \<times> bool \<Rightarrow> file_entry" where
  "chunk_entry path mode c = \<lparr>fe_Path = path, fe_Content = fst c, fe_Mode = mode, fe_Deleted = False,
     fe_Chunked = True, fe_ChunkOffset = of_nat (fst (snd c)), fe_FinalChunk = snd (snd c)\<rparr>"

definition chunk_entries :: "nat \<Rightarrow> string \<Rightarrow> 32 word \<Rightarrow> bytes \<Rightarrow> file_entry list" where
  "chunk_entries limit path mode data = map (chunk_entry path mode) (cut_chunks limit 0 data)"

text \<open>The shape of such a sequence, from offset \<open>n\<close> on.\<close>

fun well_cut :: "string \<Rightarrow> 32 word \<Rightarrow> nat \<Rightarrow> file_entry list \<Rightarrow> bool" where
  "well_cut path mode n [] = False"
| "well_cut path mode n (e # es) =
     (fe_Path e = path \<and> fe_Mode e = mode \<and> \<not> fe_Deleted e \<and> fe_Chunked e \<and>
      fe_ChunkOffset e = of_nat n \<and>
      (if fe_FinalChunk e then es = [] else well_cut path mode (n + length (fe_Content e)) es))"

lemma chunk_entries_well_cut_aux:
  "0 < limit \<Longrightarrow> data \<noteq> [] \<Longrightarrow> well_cut path mode n (map (chunk_entry path mode) (cut_chunks limit n data))"
proof (induction limit n data rule: cut_chunks.induct)
  case (1 limit n data)
  let ?w = "min limit (length data)"
  have c: "cut_chunks limit n data =
      (take ?w data, n, length data = ?w) # cut_chunks limit (n + ?w) (drop ?w data)"
    using "1.prems" by (subst cut_chunks.simps) (simp add: Let_def)
  show ?case
  proof (cases "length data = ?w")
    case True
    then have "drop ?w data = []" by simp
    then show ?thesis unfolding c using True by (simp add: chunk_entry_def)
  next
    case False
    then have ne: "drop ?w data \<noteq> []" by simp
    have ih: "well_cut path mode (n + ?w) (map (chunk_entry path mode) (cut_chunks limit (n + ?w) (drop ?w data)))"
      using "1.prems" ne by (intro "1.IH") auto
    have len: "length (take ?w data) = ?w" by simp
    show ?thesis
      unfolding c list.map(2) well_cut.simps
      using False ih len by (simp add: chunk_entry_def)
  qed
qed

lemma chunk_entries_well_cut:
  "0 < limit \<Longrightarrow> data \<noteq> [] \<Longrightarrow> well_cut path mode 0 (chunk_entries limit path mode data)"
  unfolding chunk_entries_def by (rule chunk_entries_well_cut_aux)

lemma chunk_entries_concat:
  "0 < limit \<Longrightarrow> concat (map fe_Content (chunk_entries limit path mode data)) = data"
  using cut_chunks_concat [of limit 0 data] by (simp add: chunk_entries_def comp_def chunk_entry_def)

lemma cut_chunks_sizes:
  "0 < limit \<Longrightarrow> c \<in> set (cut_chunks limit n data) \<Longrightarrow> fst c \<noteq> [] \<and> length (fst c) \<le> limit"
proof (induction limit n data rule: cut_chunks.induct)
  case (1 limit n data)
  from "1.prems"(2) show ?case
  proof (subst (asm) cut_chunks.simps, cases "data = [] \<or> limit = 0", goal_cases)
    case 1
    then show ?case by simp
  next
    case 2
    then show ?case using "1.IH" "1.prems"(1) by (auto simp: Let_def min_def split: if_splits)
  qed
qed

section \<open>Assembling\<close>

text \<open>
  \<open>step\<close> handles one chunk; \<open>pending p s\<close> is what is staged for path \<open>p\<close> with the mode its
  first chunk announced, \<open>published p s\<close> the content and mode at its final place.
\<close>

locale chunk_assembler =
  fixes step :: "file_entry \<Rightarrow> 's \<Rightarrow> 's \<times> unit result"
    and pending :: "string \<Rightarrow> 's \<Rightarrow> (bytes \<times> 32 word) option"
    and published :: "string \<Rightarrow> 's \<Rightarrow> (bytes \<times> 32 word) option"
    and ready :: "string \<Rightarrow> 's \<Rightarrow> bool"
  assumes offset_checked:
    "ready (fe_Path e) s \<Longrightarrow> step e s = (s', Inr ()) \<Longrightarrow>
       fe_ChunkOffset e = of_nat (case pending (fe_Path e) s of None \<Rightarrow> 0 | Some (c, m) \<Rightarrow> length c)"
    and mode_checked:
    "ready (fe_Path e) s \<Longrightarrow> step e s = (s', Inr ()) \<Longrightarrow> pending (fe_Path e) s = Some (c, m) \<Longrightarrow>
       fe_Mode e = m"
    and stays_ready: "ready (fe_Path e) s \<Longrightarrow> step e s = (s', Inr ()) \<Longrightarrow> ready (fe_Path e) s'"
    and appended:
    "ready (fe_Path e) s \<Longrightarrow> step e s = (s', Inr ()) \<Longrightarrow>
       (if fe_FinalChunk e then
          pending (fe_Path e) s' = None \<and>
          published (fe_Path e) s' =
            Some ((case pending (fe_Path e) s of None \<Rightarrow> '''' | Some (c, m) \<Rightarrow> c) @ fe_Content e,
                  perm (fe_Mode e))
        else
          pending (fe_Path e) s' =
            Some ((case pending (fe_Path e) s of None \<Rightarrow> '''' | Some (c, m) \<Rightarrow> c) @ fe_Content e, fe_Mode e) \<and>
          published (fe_Path e) s' = published (fe_Path e) s)"
begin

fun steps :: "file_entry list \<Rightarrow> 's \<Rightarrow> 's \<times> unit result" where
  "steps [] s = (s, Inr ())"
| "steps (e # es) s = (case step e s of (s', Inr _) \<Rightarrow> steps es s' | (s', Inl err) \<Rightarrow> (s', Inl err))"

definition staged :: "string \<Rightarrow> 's \<Rightarrow> bytes" where
  "staged p s = (case pending p s of None \<Rightarrow> '''' | Some (c, m) \<Rightarrow> c)"

text \<open>A well-cut sequence that is accepted publishes the concatenation, and nothing before.\<close>

lemma steps_publish:
  assumes "well_cut p mode n es" "ready p s" "steps es s = (s', Inr ())"
  shows "published p s' = Some (staged p s @ concat (map fe_Content es), perm mode) \<and>
    pending p s' = None \<and> ready p s'"
  using assms
proof (induction es arbitrary: n s)
  case Nil
  then show ?case by simp
next
  case (Cons e es)
  from Cons.prems(3) obtain s1 where s1: "step e s = (s1, Inr ())" "steps es s1 = (s', Inr ())"
    by (auto split: prod.splits sum.splits)
  have e: "fe_Path e = p" "fe_Mode e = mode" using Cons.prems(1) by auto
  note app = appended [of e s s1, unfolded e, OF Cons.prems(2) s1(1)]
  have r: "ready p s1" using stays_ready [of e s s1] Cons.prems(2) s1(1) e by simp
  show ?case
  proof (cases "fe_FinalChunk e")
    case True
    then show ?thesis using Cons.prems(1) app s1(2) r by (simp add: staged_def)
  next
    case False
    have w: "well_cut p mode (n + length (fe_Content e)) es" using Cons.prems(1) False by simp
    have "staged p s1 = staged p s @ fe_Content e" using app False by (simp add: staged_def)
    then show ?thesis using Cons.IH [OF w r s1(2)] by simp
  qed
qed

text \<open>An upload that never reaches its final chunk leaves the published file as it was.\<close>

lemma steps_unfinished:
  assumes "\<forall>e \<in> set es. fe_Path e = p \<and> \<not> fe_FinalChunk e" "ready p s" "steps es s = (s', Inr ())"
  shows "published p s' = published p s \<and> ready p s'"
  using assms
proof (induction es arbitrary: s)
  case Nil
  then show ?case by simp
next
  case (Cons e es)
  from Cons.prems(3) obtain s1 where s1: "step e s = (s1, Inr ())" "steps es s1 = (s', Inr ())"
    by (auto split: prod.splits sum.splits)
  have e: "fe_Path e = p" "\<not> fe_FinalChunk e" using Cons.prems(1) by auto
  have "published p s1 = published p s" "ready p s1"
    using appended [of e s s1] stays_ready [of e s s1] Cons.prems(2) s1(1) e by auto
  then show ?case using Cons.IH [of s1] Cons.prems(1) s1(2) by simp
qed

text \<open>
  Chunks out of order, with a gap or repeated are refused: after \<open>n\<close> staged bytes only a chunk
  of offset \<open>n\<close> is accepted.
\<close>

lemma step_wrong_offset:
  assumes "ready (fe_Path e) s" "fe_ChunkOffset e \<noteq> of_nat (length (staged (fe_Path e) s))"
  shows "snd (step e s) \<noteq> Inr ()"
proof
  assume "snd (step e s) = Inr ()"
  then have "step e s = (fst (step e s), Inr ())" by (simp add: prod_eq_iff)
  from offset_checked [OF assms(1) this] assms(2) show False
    by (auto simp: staged_def split: option.splits)
qed

lemma step_changed_mode:
  assumes "ready (fe_Path e) s" "pending (fe_Path e) s = Some (c, m)" "fe_Mode e \<noteq> m"
  shows "snd (step e s) \<noteq> Inr ()"
proof
  assume "snd (step e s) = Inr ()"
  then have "step e s = (fst (step e s), Inr ())" by (simp add: prod_eq_iff)
  from mode_checked [OF assms(1) this assms(2)] assms(3) show False by simp
qed

end

end
