(* ===== verification/Vault_Receiver.thy ===== *)
theory Vault_Receiver
  imports Vault_Chunks
begin

text \<open>
  \<open>internal/server/receiver\<close>: writing and deleting files in the dataset of a host and user,
  staging chunked uploads, and reading a dataset back for a restore. The name that
  \<open>os.CreateTemp\<close> picks is an argument.
\<close>

section \<open>Target paths\<close>

definition targetPathIn :: "string \<Rightarrow> string \<Rightarrow> string result" where
  "targetPathIn baseDir relPath =
     (let cleanPath = Clean relPath in
      if relPath = '''' \<or> cleanPath = ''.'' \<or> is_abs relPath \<or> cleanPath = ''..'' \<or> prefix ''../'' cleanPath
      then Inl (Errorf ''invalid dataset-relative path: %q'')
      else let target = Join [baseDir, cleanPath] in
        if \<not> prefix (baseDir @ ''/'') target
        then Inl (Errorf ''path traversal detected: %q escapes %q'') else Inr target)"

definition targetPath :: "string \<Rightarrow> string \<Rightarrow> string \<Rightarrow> string \<Rightarrow> string result" where
  "targetPath mountPoint hostname username relPath =
     targetPathIn (Clean (Join [mountPoint, hostname, username])) relPath"

lemma targetPathIn_below:
  assumes "is_abs base" "targetPathIn base rel = Inr p"
  shows "\<not> is_abs rel \<and> rel_comps rel \<noteq> [] \<and> normals (rel_comps rel) \<and> p = abs_path (abs_comps base @ rel_comps rel)"
proof -
  have c: "\<not> is_abs rel" "inside (Clean rel)" "p = Join [base, Clean rel]"
    using assms(2) by (auto simp: targetPathIn_def Let_def inside_def split: if_splits)
  obtain ns where ns: "ns \<noteq> []" "normals ns" "Clean rel = path_join ns" "rel_comps rel = ns"
    by (rule inside_normals [OF c(1,2)])
  show ?thesis
    using c ns Join_abs_normals [OF assms(1) ns(2)] by simp
qed

interpretation dataset_paths: confined_resolver targetPathIn is_abs True
  using targetPathIn_below by unfold_locales blast

definition dataset_comps :: "string \<Rightarrow> string \<Rightarrow> string \<Rightarrow> string list" where
  "dataset_comps mountPoint h u = abs_comps mountPoint @ [h, u]"

definition dataset_owner :: "string \<Rightarrow> string \<Rightarrow> string \<Rightarrow> bool" where
  "dataset_owner mountPoint h u \<longleftrightarrow> is_abs mountPoint \<and> hostnameRe h \<and> usernameRe u"

lemma dataset_base:
  assumes "dataset_owner m h u"
  shows "Clean (Join [m, h, u]) = abs_path (dataset_comps m h u)" "normals (dataset_comps m h u)"
  using assms hostname_normal [of h] username_normal [of u] Join3_abs_normal [of m h u]
  by (auto simp: dataset_owner_def dataset_comps_def)

lemma targetPath_below:
  assumes "dataset_owner m h u" "targetPath m h u rel = Inr p"
  shows "\<not> is_abs rel \<and> rel_comps rel \<noteq> [] \<and> normals (rel_comps rel) \<and>
    p = abs_path (dataset_comps m h u @ rel_comps rel)"
  using targetPathIn_below [of "abs_path (dataset_comps m h u)" rel p] assms dataset_base [OF assms(1)]
  by (simp add: targetPath_def)

lemma targetPath_ok:
  assumes "dataset_owner m h u" "normals ns" "ns \<noteq> []"
  shows "targetPath m h u (path_join ns) = Inr (abs_path (dataset_comps m h u @ ns))"
proof -
  let ?b = "dataset_comps m h u"
  note b = dataset_base [OF assms(1)]
  have c: "Clean (path_join ns) = path_join ns" "\<not> is_abs (path_join ns)" "inside (path_join ns)"
    using Clean_path_join [OF assms(2,3)] by auto
  have ne: "path_join ns \<noteq> []" using assms(2,3) by (auto simp: path_join_def join_on_eq_Nil normal_def)
  have j: "Join [abs_path ?b, path_join ns] = abs_path (?b @ ns)"
    using Join_abs_normals [of "abs_path ?b" ns] assms(2) b(2) by simp
  have p: "prefix (abs_path ?b @ ''/'') (abs_path (?b @ ns))"
    using abs_path_prefix_sep [of ?b "?b @ ns"] assms b(2) by (auto simp: dataset_comps_def)
  show ?thesis
    using c ne j p b by (simp add: targetPath_def targetPathIn_def Let_def inside_def)
qed

text \<open>
  C26: Two owners never touch the same file: paths that the receiver resolves for different hosts or users
  are different, whatever relative paths the clients send.
\<close>

lemma targetPath_isolated:
  assumes "dataset_owner m h u" "dataset_owner m h' u'" "(h, u) \<noteq> (h', u')"
    and "targetPath m h u r = Inr p" "targetPath m h' u' r' = Inr p'"
  shows "p \<noteq> p'"
proof (rule dataset_paths.resolved_disjoint)
  show "is_abs (Clean (Join [m, h, u]))" "is_abs (Clean (Join [m, h', u']))"
    using dataset_base assms(1,2) by simp_all
  show "targetPathIn (Clean (Join [m, h, u])) r = Inr p"
    "targetPathIn (Clean (Join [m, h', u'])) r' = Inr p'"
    using assms(4,5) by (simp_all add: targetPath_def)
  show "\<not> prefix (abs_comps (Clean (Join [m, h, u]))) (abs_comps (Clean (Join [m, h', u'])))"
    "\<not> prefix (abs_comps (Clean (Join [m, h', u']))) (abs_comps (Clean (Join [m, h, u])))"
    using assms(3) dataset_base [OF assms(1)] dataset_base [OF assms(2)]
    by (auto simp: dataset_comps_def)
qed

lemma targetPath_isolated_witness:
  "targetPath ''/srv'' ''web01'' ''alice'' ''docs/../a'' = Inr ''/srv/web01/alice/a'' \<and>
   targetPath ''/srv'' ''web01'' ''bob'' ''a'' = Inr ''/srv/web01/bob/a'' \<and>
   ''/srv/web01/alice/a'' \<noteq> ''/srv/web01/bob/a''"
proof -
  have t: "targetPath ''/srv'' ''web01'' ''alice'' ''docs/../a'' = Inr ''/srv/web01/alice/a''"
    "targetPath ''/srv'' ''web01'' ''bob'' ''a'' = Inr ''/srv/web01/bob/a''"
    and o: "dataset_owner ''/srv'' ''web01'' ''alice''" "dataset_owner ''/srv'' ''web01'' ''bob''"
    by code_simp+
  from targetPath_isolated [OF o _ t] t show ?thesis by simp
qed

section \<open>Atomic writes\<close>

definition cleanup_tmp :: "fs_faults \<Rightarrow> string list \<Rightarrow> tree \<Rightarrow> tree" where
  "cleanup_tmp fl tp fs = (case remove_node fl tp fs of Inl _ \<Rightarrow> fs | Inr fs' \<Rightarrow> fs')"

definition WriteFile ::
  "fs_faults \<Rightarrow> string \<Rightarrow> string \<Rightarrow> string \<Rightarrow> string \<Rightarrow> string \<Rightarrow> bytes \<Rightarrow> 32 word \<Rightarrow> tree \<Rightarrow>
   tree \<times> unit result" where
  "WriteFile fl tmp mountPoint hostname username relPath content mode fs =
     (case targetPath mountPoint hostname username relPath of
        Inl e \<Rightarrow> (fs, Inl e)
      | Inr target \<Rightarrow>
        (let p = abs_comps target; dir = abs_comps (Dir target); tp = dir @ [tmp] in
         case mkdir_all fl dir fs of
           Inl e \<Rightarrow> (fs, Inl (Wrap ''mkdir: %w'' e))
         | Inr fs1 \<Rightarrow>
           (case create_temp fl dir tmp fs1 of
              Inl e \<Rightarrow> (fs1, Inl (Wrap ''create temp: %w'' e))
            | Inr fs2 \<Rightarrow>
              if fl WriteOp tp then (cleanup_tmp fl tp fs2, Inl (Wrap ''write: %w'' (Errorf ''write'')))
              else let fs3 = append_file tp content fs2 in
                if fl CloseOp tp then (cleanup_tmp fl tp fs3, Inl (Wrap ''close: %w'' (Errorf ''close'')))
                else if fl ChmodOp tp then (cleanup_tmp fl tp fs3, Inl (Wrap ''chmod: %w'' (Errorf ''chmod'')))
                else let fs4 = chmod_file tp (perm mode) fs3 in
                  case rename_file fl tp p fs4 of
                    Inl e \<Rightarrow> (cleanup_tmp fl tp fs4, Inl (Wrap ''rename: %w'' e))
                  | Inr fs5 \<Rightarrow> (cleanup_tmp fl tp fs5, Inr ()))))"

definition DeleteFile ::
  "fs_faults \<Rightarrow> string \<Rightarrow> string \<Rightarrow> string \<Rightarrow> string \<Rightarrow> tree \<Rightarrow> tree \<times> unit result" where
  "DeleteFile fl mountPoint hostname username relPath fs =
     (case targetPath mountPoint hostname username relPath of
        Inl e \<Rightarrow> (fs, Inl e)
      | Inr target \<Rightarrow>
        (case remove_node fl (abs_comps target) fs of Inl e \<Rightarrow> (fs, Inl e) | Inr fs' \<Rightarrow> (fs', Inr ())))"

section \<open>Chunked uploads\<close>

record chunk_writer =
  cw_target :: "string list"
  cw_tmp :: "string list"
  cw_open :: bool
  cw_committed :: bool

definition NewChunkWriter ::
  "fs_faults \<Rightarrow> string \<Rightarrow> string \<Rightarrow> string \<Rightarrow> string \<Rightarrow> string \<Rightarrow> tree \<Rightarrow> tree \<times> chunk_writer result" where
  "NewChunkWriter fl tmp mountPoint hostname username relPath fs =
     (case targetPath mountPoint hostname username relPath of
        Inl e \<Rightarrow> (fs, Inl e)
      | Inr target \<Rightarrow>
        (let dir = abs_comps (Dir target) in
         case mkdir_all fl dir fs of
           Inl e \<Rightarrow> (fs, Inl (Wrap ''mkdir: %w'' e))
         | Inr fs1 \<Rightarrow>
           (case create_temp fl dir tmp fs1 of
              Inl e \<Rightarrow> (fs1, Inl (Wrap ''create chunk staging file: %w'' e))
            | Inr fs2 \<Rightarrow> (fs2, Inr \<lparr>cw_target = abs_comps target, cw_tmp = dir @ [tmp],
                cw_open = True, cw_committed = False\<rparr>))))"

definition ChunkWriter_Write ::
  "fs_faults \<Rightarrow> bytes \<Rightarrow> chunk_writer \<Rightarrow> tree \<Rightarrow> tree \<times> unit result" where
  "ChunkWriter_Write fl content w fs =
     (if \<not> cw_open w then (fs, Inl (Errorf ''chunk writer is closed''))
      else if fl WriteOp (cw_tmp w) then (fs, Inl (Wrap ''write chunk: %w'' (Errorf ''write'')))
      else (append_file (cw_tmp w) content fs, Inr ()))"

definition ChunkWriter_Commit ::
  "fs_faults \<Rightarrow> 32 word \<Rightarrow> chunk_writer \<Rightarrow> tree \<Rightarrow> tree \<times> chunk_writer \<times> unit result" where
  "ChunkWriter_Commit fl mode w fs =
     (if \<not> cw_open w then (fs, w, Inl (Errorf ''chunk writer is closed''))
      else if fl CloseOp (cw_tmp w)
        then (fs, w, Inl (Wrap ''close chunk staging file: %w'' (Errorf ''close'')))
      else if fl ChmodOp (cw_tmp w)
        then (fs, w, Inl (Wrap ''chmod chunk staging file: %w'' (Errorf ''chmod'')))
      else let fs1 = chmod_file (cw_tmp w) (perm mode) fs in
        case rename_file fl (cw_tmp w) (cw_target w) fs1 of
          Inl e \<Rightarrow> (fs1, w, Inl (Wrap ''rename chunk staging file: %w'' e))
        | Inr fs2 \<Rightarrow> (fs2, w\<lparr>cw_open := False, cw_committed := True\<rparr>, Inr ()))"

definition ChunkWriter_Abort :: "fs_faults \<Rightarrow> chunk_writer \<Rightarrow> tree \<Rightarrow> tree" where
  "ChunkWriter_Abort fl w fs =
     (if \<not> cw_open w \<or> cw_committed w then fs else cleanup_tmp fl (cw_tmp w) fs)"

section \<open>What a write changes\<close>

lemma file_at_put: "file_at p (f_put (q, n) fs) =
    (if p = q then (case n of NFile c m _ \<Rightarrow> Some (c, m) | _ \<Rightarrow> None) else file_at p fs)"
  by (auto simp: file_at_def f_get_put split: node.splits)

lemma file_at_del: "file_at p (f_del q fs) = (if p = q then None else file_at p fs)"
  by (simp add: file_at_def f_get_del)

lemma create_temp_files:
  "create_temp fl dir n fs = Inr fs' \<Longrightarrow> file_at q fs' = (if q = dir @ [n] then Some ('''', 0x180) else file_at q fs)"
  "create_temp fl dir n fs = Inr fs' \<Longrightarrow> f_get (dir @ [n]) fs' = Some (NFile '''' 0x180 0)"
  by (auto simp: create_temp_def file_at_put f_get_put split: if_splits)

lemma append_file_get:
  "f_get p (append_file q d fs) = (if p = q then (case f_get q fs of Some (NFile c m u) \<Rightarrow> Some (NFile (c @ d) m u) | n \<Rightarrow> n)
     else f_get p fs)"
  by (auto simp: append_file_def f_get_put split: option.splits node.splits)

lemma chmod_file_get:
  "f_get p (chmod_file q d fs) = (if p = q then (case f_get q fs of Some (NFile c m u) \<Rightarrow> Some (NFile c d u) | n \<Rightarrow> n)
     else f_get p fs)"
  by (auto simp: chmod_file_def f_get_put split: option.splits node.splits)

lemma cleanup_tmp_get: "p \<noteq> tp \<Longrightarrow> f_get p (cleanup_tmp fl tp fs) = f_get p fs"
  by (auto simp: cleanup_tmp_def remove_node_def f_get_del)

lemma cleanup_tmp_gone: "f_get tp fs = None \<Longrightarrow> cleanup_tmp fl tp fs = fs"
  by (simp add: cleanup_tmp_def remove_node_def)

lemma rename_file_get:
  "rename_file fl p q fs = Inr fs' \<Longrightarrow> p \<noteq> q \<Longrightarrow>
     f_get x fs' = (if x = q then f_get p fs else if x = p then None else f_get x fs)"
  by (auto simp: rename_file_def f_get_put f_get_del split: if_splits option.splits)

text \<open>
  A successful write leaves the new content and mode at the target, no staging file, and every
  other file as it was.
\<close>

lemma WriteFile_ok:
  assumes "WriteFile fl tmp m h u rel content mode fs = (fs', Inr ())"
    and "targetPath m h u rel = Inr target" "abs_comps target \<noteq> abs_comps (Dir target) @ [tmp]"
  shows "file_at q fs' = (if q = abs_comps target then Some (content, perm mode) else
      if q = abs_comps (Dir target) @ [tmp] then None else file_at q fs)"
proof -
  let ?p = "abs_comps target" and ?dir = "abs_comps (Dir target)"
  let ?tp = "?dir @ [tmp]"
  from assms(1) obtain fs1 fs2 fs5 where s: "mkdir_all fl ?dir fs = Inr fs1" "create_temp fl ?dir tmp fs1 = Inr fs2"
      "rename_file fl ?tp ?p (chmod_file ?tp (perm mode) (append_file ?tp content fs2)) = Inr fs5"
      "fs' = cleanup_tmp fl ?tp fs5"
    by (auto simp: WriteFile_def assms(2) Let_def split: sum.splits if_splits)
  have n: "f_get ?tp (chmod_file ?tp (perm mode) (append_file ?tp content fs2)) = Some (NFile content (perm mode) 0)"
    using create_temp_files(2) [OF s(2)] by (simp add: chmod_file_get append_file_get)
  note g = rename_file_get [OF s(3) assms(3) [symmetric]]
  have "f_get ?tp fs5 = None" using g [of ?tp] assms(3) by simp
  then have fs': "fs' = fs5" using s(4) by (simp add: cleanup_tmp_gone)
  have o: "q \<noteq> ?tp \<Longrightarrow> file_at q fs2 = file_at q fs"
    using create_temp_files(1) [OF s(2)] mkdir_all_files [OF s(1)] by simp
  show ?thesis
    using n o assms(3) unfolding fs' file_at_def g
    by (auto simp: chmod_file_get append_file_get)
qed

text \<open>A failed write changes no file; at most the staging file it could not remove is left.\<close>

lemma WriteFile_failed:
  assumes "WriteFile fl tmp m h u rel content mode fs = (fs', Inl e)"
    and "\<forall>target. targetPath m h u rel = Inr target \<longrightarrow> q \<noteq> abs_comps (Dir target) @ [tmp]"
  shows "file_at q fs' = file_at q fs"
proof (cases "targetPath m h u rel")
  case (Inl e)
  then show ?thesis using assms(1) by (simp add: WriteFile_def)
next
  case (Inr target)
  then have q: "q \<noteq> abs_comps (Dir target) @ [tmp]" using assms(2) by simp
  show ?thesis
    using assms(1) q
    by (auto simp: WriteFile_def Inr Let_def file_at_def cleanup_tmp_get chmod_file_get append_file_get
        dest!: mkdir_all_files [where q = q] create_temp_files(1) [where q = q]
        split: sum.splits if_splits)
qed

lemma DeleteFile_files:
  assumes "DeleteFile fl m h u rel fs = (fs', r)"
  shows "r = Inr () \<Longrightarrow> targetPath m h u rel = Inr target \<Longrightarrow> f_get (abs_comps target) fs' = None"
    and "\<forall>target. targetPath m h u rel = Inr target \<longrightarrow> q \<noteq> abs_comps target \<Longrightarrow> f_get q fs' = f_get q fs"
  using assms
  by (auto simp: DeleteFile_def remove_node_def f_get_del split: sum.splits if_splits)

section \<open>Reading a dataset back\<close>

definition small_entry :: "string \<Rightarrow> 32 word \<Rightarrow> bytes \<Rightarrow> file_entry" where
  "small_entry path mode data = \<lparr>fe_Path = path, fe_Content = data, fe_Mode = mode, fe_Deleted = False,
     fe_Chunked = False, fe_ChunkOffset = 0, fe_FinalChunk = True\<rparr>"

definition entries_of :: "nat \<Rightarrow> string \<Rightarrow> 32 word \<Rightarrow> bytes \<Rightarrow> file_entry list" where
  "entries_of limit path mode data =
     (if length data \<le> limit then [small_entry path mode data] else chunk_entries limit path mode data)"

text \<open>\<open>filepath.WalkDir\<close> visits the entries below the base sorted component by component.\<close>

definition walk_paths :: "string list \<Rightarrow> tree \<Rightarrow> string list list" where
  "walk_paths base fs = sort (remdups (filter (prefix base) (map fst fs)))"

definition read_visit ::
  "fs_faults \<Rightarrow> string \<Rightarrow> (string \<Rightarrow> 32 word \<Rightarrow> bytes \<Rightarrow> file_entry list) \<Rightarrow>
   (file_entry \<Rightarrow> 's \<Rightarrow> 's \<times> unit result) \<Rightarrow> tree \<Rightarrow> string list \<Rightarrow> 's \<Rightarrow> 's \<times> unit result" where
  "read_visit fl baseDir entries yield fs p s =
     (if fl LstatOp p then (s, Inl (Wrap ''walk dataset: %w'' (Errorf ''lstat'')))
      else case f_get p fs of
        Some (NFile data mode _) \<Rightarrow>
          (case Rel baseDir (abs_path p) of
             None \<Rightarrow> (s, Inl (Wrap ''make dataset-relative path for %q: %w'' (Errorf ''rel'')))
           | Some relPath \<Rightarrow>
               if fl ReadOp p then (s, Inl (Wrap ''open backup file %q: %w'' (Errorf ''open'')))
               else foldS yield (entries relPath mode data) s)
      | _ \<Rightarrow> (s, Inr ()))"

definition read_tree where
  "read_tree fl baseDir entries yield fs s =
     (if \<not> is_abs baseDir then (s, Inl (Errorf ''dataset mount point must be absolute: %q''))
      else let base = Clean baseDir; comps = abs_comps base in
        if comps \<noteq> [] \<and> f_get comps fs = None
        then (s, Inl (Wrap ''walk dataset: %w'' (Errorf ''lstat'')))
        else foldS (read_visit fl base entries yield fs) (walk_paths comps fs) s)"

definition ReadAllFrom ::
  "fs_faults \<Rightarrow> string \<Rightarrow> (file_entry \<Rightarrow> 's \<Rightarrow> 's \<times> unit result) \<Rightarrow> tree \<Rightarrow> 's \<Rightarrow> 's \<times> unit result" where
  "ReadAllFrom fl baseDir yield fs s =
     read_tree fl baseDir (\<lambda>path mode data. [small_entry path mode data]) yield fs s"

definition ReadAll ::
  "fs_faults \<Rightarrow> string \<Rightarrow> string \<Rightarrow> string \<Rightarrow> (file_entry \<Rightarrow> 's \<Rightarrow> 's \<times> unit result) \<Rightarrow> tree \<Rightarrow> 's \<Rightarrow>
   's \<times> unit result" where
  "ReadAll fl mountPoint hostname username yield fs s =
     ReadAllFrom fl (Join [mountPoint, hostname, username]) yield fs s"

definition ReadAllChunksFrom ::
  "fs_faults \<Rightarrow> string \<Rightarrow> nat \<Rightarrow> (file_entry \<Rightarrow> 's \<Rightarrow> 's \<times> unit result) \<Rightarrow> tree \<Rightarrow> 's \<Rightarrow> 's \<times> unit result" where
  "ReadAllChunksFrom fl baseDir maxChunkBytes yield fs s =
     (if is_abs baseDir \<and> maxChunkBytes = 0 then (s, Inl (Errorf ''chunk size must be positive''))
      else read_tree fl baseDir (entries_of maxChunkBytes) yield fs s)"

text \<open>The regular files of a dataset, in the order of the walk.\<close>

definition tree_file :: "tree \<Rightarrow> string list \<Rightarrow> string list \<Rightarrow> (string list \<times> bytes \<times> 32 word) option" where
  "tree_file fs base p = (case file_at p fs of None \<Rightarrow> None
     | Some (c, m) \<Rightarrow> Some (drop (length base) p, c, m))"

definition tree_files :: "string list \<Rightarrow> tree \<Rightarrow> (string list \<times> bytes \<times> 32 word) list" where
  "tree_files base fs = List.map_filter (tree_file fs base) (walk_paths base fs)"

definition is_below_dir :: "string list \<Rightarrow> tree \<Rightarrow> bool" where
  "is_below_dir base fs \<longleftrightarrow> base \<noteq> [] \<and> is_dir (f_get base fs)"

lemma tree_files_mem:
  "(r, c, m) \<in> set (tree_files base fs) \<longleftrightarrow> file_at (base @ r) fs = Some (c, m)"
proof
  assume "(r, c, m) \<in> set (tree_files base fs)"
  then obtain p where "p \<in> set (walk_paths base fs)" "tree_file fs base p = Some (r, c, m)"
    by (auto simp: tree_files_def map_filter_def split: option.splits)
  then show "file_at (base @ r) fs = Some (c, m)"
    by (auto simp: walk_paths_def tree_file_def prefix_def split: option.splits)
next
  assume f: "file_at (base @ r) fs = Some (c, m)"
  then have "f_get (base @ r) fs \<noteq> None" by (auto simp: file_at_def split: option.splits)
  then have "base @ r \<in> fst ` set fs"
    unfolding f_get_def by (simp add: map_of_eq_None_iff)
  then have w: "base @ r \<in> set (walk_paths base fs)" by (auto simp: walk_paths_def)
  have t: "tree_file fs base (base @ r) = Some (r, c, m)" using f by (simp add: tree_file_def)
  show "(r, c, m) \<in> set (tree_files base fs)"
    unfolding tree_files_def map_filter_def using w t by (auto intro!: image_eqI [of _ _ "base @ r"])
qed

lemma Rel_below:
  assumes "normals b" "normals r" "r \<noteq> []"
  shows "Rel (abs_path b) (abs_path (b @ r)) = Some (path_join r)"
proof -
  have ne: "abs_path b \<noteq> abs_path (b @ r)"
    using abs_path_inj [of b "b @ r"] assms by auto
  have nd: "abs_path x \<noteq> ''.''" for x by (simp add: abs_path_def)
  have p: "path_parts (abs_path x) = x" if "normals x" for x
    using that by (simp add: path_parts_def)
  show ?thesis
    using assms ne nd by (simp add: Rel_def Let_def p strip_common_append)
qed

lemma foldS_concat:
  "foldS f (concat xss) s = foldS (\<lambda>xs. foldS f xs) xss s"
  by (induction xss arbitrary: s) (auto simp: foldS_append split: prod.splits sum.splits)

lemma foldS_map: "foldS f (map g xs) s = foldS (\<lambda>x. f (g x)) xs s"
  by (induction xs arbitrary: s) (auto split: prod.splits sum.splits)

lemma foldS_filter:
  assumes "\<And>x s. x \<in> set xs \<Longrightarrow> g x = None \<Longrightarrow> f x s = (s, Inr ())"
    and "\<And>x y s. x \<in> set xs \<Longrightarrow> g x = Some y \<Longrightarrow> f x s = h y s"
  shows "foldS f xs s = foldS h (List.map_filter g xs) s"
  using assms
proof (induction xs arbitrary: s)
  case Nil
  then show ?case by (simp add: map_filter_def)
next
  case (Cons x xs)
  show ?case
  proof (cases "g x")
    case None
    have "foldS f (x # xs) s = foldS f xs s" using Cons.prems(1) [of x s] None by simp
    then show ?thesis using Cons None by (simp add: map_filter_def)
  next
    case (Some y)
    have "f x s = h y s" using Cons.prems(2) Some by simp
    moreover have "foldS f xs s' = foldS h (List.map_filter g xs) s'" for s'
      using Cons by simp
    ultimately show ?thesis using Some by (simp add: map_filter_def split: prod.splits sum.splits)
  qed
qed

text \<open>
  Without faults the callback gets, for every regular file of the dataset and nothing else, the
  entries of that file under its path relative to the dataset.
\<close>

lemma read_tree_files:
  assumes "normals base" "is_below_dir base fs" "f_wf fs"
    and "\<And>p. \<not> fl LstatOp p" "\<And>p. \<not> fl ReadOp p"
  shows "read_tree fl (abs_path base) entries yield fs s =
    foldS yield (concat (map (\<lambda>(r, c, m). entries (path_join r) m c) (tree_files base fs))) s"
proof -
  have dir: "f_get base fs \<noteq> None" "file_at base fs = None" "base \<noteq> []"
    using assms(2) by (auto simp: is_below_dir_def is_dir_def file_at_def split: option.splits node.splits)
  let ?h = "\<lambda>(r, c, m) s. foldS yield (entries (path_join r) m c) s"
  have "foldS (read_visit fl (abs_path base) entries yield fs) (walk_paths base fs) s =
        foldS ?h (List.map_filter (tree_file fs base) (walk_paths base fs)) s"
  proof (rule foldS_filter)
    fix p s' assume "p \<in> set (walk_paths base fs)" "tree_file fs base p = None"
    then show "read_visit fl (abs_path base) entries yield fs p s' = (s', Inr ())"
      using assms(4) by (auto simp: read_visit_def tree_file_def file_at_def split: option.splits node.splits)
  next
    fix p y s' assume p: "p \<in> set (walk_paths base fs)" "tree_file fs base p = Some y"
    then obtain c m where cm: "file_at p fs = Some (c, m)" "y = (drop (length base) p, c, m)"
      by (auto simp: tree_file_def split: option.splits)
    obtain r where r: "p = base @ r" using p(1) by (auto simp: walk_paths_def prefix_def)
    have "r \<noteq> []" using cm(1) dir(2) r by auto
    moreover have "normals p"
      using f_wf_get [OF assms(3), of p] cm(1) by (auto simp: file_at_def split: option.splits)
    ultimately have "Rel (abs_path base) (abs_path p) = Some (path_join r)"
      using Rel_below [of base r] assms(1) r by simp
    then show "read_visit fl (abs_path base) entries yield fs p s' = ?h y s'"
      using cm r assms(4,5)
      by (auto simp: read_visit_def file_at_def split: option.splits node.splits)
  qed
  moreover obtain y where "f_get base fs = Some y" using dir(1) by blast
  ultimately show ?thesis
    using assms(1)
    by (simp add: read_tree_def Let_def foldS_concat tree_files_def foldS_map case_prod_unfold)
qed

text \<open>
  C18: Writing a file is atomic: the call that succeeds leaves the full content with the sent permission
  bits at the target, a call that fails at any step leaves the old file, and in both cases no other
  file than the temporary one differs.
\<close>

theorem WriteFile_atomic:
  assumes "WriteFile fl tmp m h u rel content mode fs = (fs', r)" "targetPath m h u rel = Inr target"
    and "abs_comps target \<noteq> abs_comps (Dir target) @ [tmp]" "q \<noteq> abs_comps (Dir target) @ [tmp]"
  shows "file_at q fs' =
    (if r = Inr () \<and> q = abs_comps target then Some (content, perm mode) else file_at q fs)"
proof (cases r)
  case (Inl e)
  then show ?thesis using WriteFile_failed [of fl tmp m h u rel content mode fs fs' e q] assms by simp
next
  case (Inr x)
  then have r: "r = Inr ()" by simp
  from WriteFile_ok [OF assms(1) [unfolded r] assms(2,3), of q] assms(4) r show ?thesis by simp
qed

lemma WriteFile_atomic_witness:
  "file_at [''srv'', ''web01'', ''alice'', ''a'']
     (fst (WriteFile (\<lambda>_ _. False) ''.t'' ''/srv'' ''web01'' ''alice'' ''a'' ''data'' 0x1A4 [])) =
   Some (''data'', 0x1A4)"
proof -
  obtain fs' r where w: "WriteFile (\<lambda>_ _. False) ''.t'' ''/srv'' ''web01'' ''alice'' ''a'' ''data'' 0x1A4 [] = (fs', r)"
    by (rule prod.exhaust)
  have "snd (WriteFile (\<lambda>_ _. False) ''.t'' ''/srv'' ''web01'' ''alice'' ''a'' ''data'' 0x1A4 []) = Inr ()"
    and t: "targetPath ''/srv'' ''web01'' ''alice'' ''a'' = Inr ''/srv/web01/alice/a''"
    and c: "abs_comps ''/srv/web01/alice/a'' = [''srv'', ''web01'', ''alice'', ''a'']"
      "abs_comps (Dir ''/srv/web01/alice/a'') = [''srv'', ''web01'', ''alice'']" "perm 0x1A4 = 0x1A4"
    by code_simp+
  with w have "r = Inr ()" by simp
  with WriteFile_atomic [OF w t, of "[''srv'', ''web01'', ''alice'', ''a'']"] c w show ?thesis by simp
qed

end
