(* ===== verification/Vault_Zfs.thy ===== *)
theory Vault_Zfs
  imports Vault_Names "HOL-Library.Signed_Division"
begin

text \<open>
  \<open>pkg/zfs/zfs.go\<close> and \<open>pkg/zfs/snapshot.go\<close>: the wrapper around the \<open>zfs\<close> program. Running
  \<open>zfs\<close> is a parameter, a step \<open>exec\<close> on an opaque ZFS state that takes the argument vector
  and returns what \<open>exec.Cmd\<close> reports; the time stamps of snapshot and clone names are
  arguments too. The lemmas are about the commands the wrapper issues, which is what it
  decides: they run it on \<open>logged exec\<close>, that writes down every argument vector.
\<close>

section \<open>Running a command\<close>

text \<open>
  The outcome of \<open>cmd.CombinedOutput()\<close>: the output of a run that exited with 0, the output
  and the text of the \<open>*exec.ExitError\<close> of one that did not, or the error text of a program
  that could not be started.
\<close>

datatype exec_out = Exited bytes | ExitError bytes string | StartError string

type_synonym 'z exec = "string list \<Rightarrow> 'z \<Rightarrow> 'z \<times> exec_out"

definition contains :: "string \<Rightarrow> string \<Rightarrow> bool" where
  "contains s t = list_ex (\<lambda>r. prefix t r) (suffixes s)"

definition zfs_text :: "string list \<Rightarrow> bytes \<Rightarrow> string \<Rightarrow> string" where
  "zfs_text args out err =
     ''zfs ['' @ join_on CHR '' '' args @ '']: '' @ trim_space out @ '' ('' @ err @ '')''"

definition zfs :: "'z exec \<Rightarrow> string list \<Rightarrow> ('z, bytes) step" where
  "zfs exec args z =
     (case exec args z of
        (z', Exited out) \<Rightarrow> (z', Inr (trim_space out))
      | (z', ExitError out err) \<Rightarrow> (z', Inl (Errorf (zfs_text args out err)))
      | (z', StartError err) \<Rightarrow> (z', Inl (Errorf (zfs_text args [] err))))"

fun Error_text :: "error \<Rightarrow> string" where
  "Error_text (Errorf s) = s"
| "Error_text (Wrap s e) = s @ '': '' @ Error_text e"
| "Error_text (Status c s) = s"
| "Error_text (Permanent e) = Error_text e"
| "Error_text (NetErr _ _) = []"

record ZFS =
  poolPath :: string

definition New :: "string \<Rightarrow> ZFS result" where
  "New pool =
     (case ValidateDatasetName pool of
        Some e \<Rightarrow> Inl (Wrap ''invalid pool path'' e)
      | None \<Rightarrow> Inr \<lparr> poolPath = pool \<rparr>)"

definition getArgs :: "string \<Rightarrow> string \<Rightarrow> string list" where
  "getArgs prop dataset = [''get'', ''-Hp'', ''-o'', ''value'', prop, dataset]"

section \<open>Datasets\<close>

definition ensureMounted :: "'z exec \<Rightarrow> string \<Rightarrow> ('z, unit) step" where
  "ensureMounted exec dataset =
     bindS (mapErrS (Wrap ''get mounted state for %q'') (zfs exec (getArgs ''mounted'' dataset)))
       (\<lambda>mounted.
          if mounted = ''yes'' then returnS ()
          else if mounted = ''no'' then
            bindS (mapErrS (Wrap ''mount %q'') (zfs exec [''mount'', dataset])) (\<lambda>_.
            bindS (mapErrS (Wrap ''verify mounted state for %q'') (zfs exec (getArgs ''mounted'' dataset)))
              (\<lambda>mounted'.
                 if mounted' = ''yes'' then returnS ()
                 else failS (Errorf ''dataset %q remained unmounted after zfs mount (state %q)'')))
          else failS (Errorf ''unexpected mounted state %q for dataset %q''))"

text \<open>The datasets between the pool and \<open>name\<close>, in the order they are visited.\<close>

fun mount_chain :: "string \<Rightarrow> string list \<Rightarrow> string list" where
  "mount_chain dataset [] = []"
| "mount_chain dataset (part # parts) =
     (if part = [] then mount_chain dataset parts
      else (dataset @ ''/'' @ part) # mount_chain (dataset @ ''/'' @ part) parts)"

definition EnsureDatasetMounted :: "ZFS \<Rightarrow> 'z exec \<Rightarrow> string \<Rightarrow> ('z, unit) step" where
  "EnsureDatasetMounted z exec name =
     (case ValidateDatasetName name of
        Some e \<Rightarrow> failS e
      | None \<Rightarrow>
          if name \<noteq> poolPath z \<and> \<not> prefix (poolPath z @ ''/'') name
          then failS (Errorf ''dataset %q is outside backup pool %q'')
          else bindS (ensureMounted exec (poolPath z)) (\<lambda>_.
            if name = poolPath z then returnS ()
            else foldS (ensureMounted exec)
                   (mount_chain (poolPath z)
                      (split_on CHR ''/'' (trim_prefix (poolPath z @ ''/'') name)))))"

definition CreateDataset :: "'z exec \<Rightarrow> string \<Rightarrow> ('z, unit) step" where
  "CreateDataset exec name =
     (case ValidateDatasetName name of
        Some e \<Rightarrow> failS e
      | None \<Rightarrow> (\<lambda>z.
          case zfs exec [''create'', ''-p'', name] z of
            (z', Inl e) \<Rightarrow> if contains (Error_text e) ''already exists'' then (z', Inr ()) else (z', Inl e)
          | (z', Inr _) \<Rightarrow> (z', Inr ())))"

definition SetQuota :: "'z exec \<Rightarrow> string \<Rightarrow> int \<Rightarrow> ('z, unit) step" where
  "SetQuota exec dataset quotaGB =
     (case ValidateDatasetName dataset of
        Some e \<Rightarrow> failS e
      | None \<Rightarrow>
          bindS (zfs exec [''set'', ''quota='' @ format_int quotaGB @ ''G'', dataset]) (\<lambda>_. returnS ()))"

definition GetUsed :: "'z exec \<Rightarrow> string \<Rightarrow> ('z, int) step" where
  "GetUsed exec dataset =
     (case ValidateDatasetName dataset of
        Some e \<Rightarrow> failS e
      | None \<Rightarrow> bindS (zfs exec (getArgs ''used'' dataset)) (\<lambda>out z. (z, parse_int 64 out)))"

definition Mountpoint :: "ZFS \<Rightarrow> 'z exec \<Rightarrow> ('z, string) step" where
  "Mountpoint z exec =
     bindS (mapErrS (Wrap ''get mountpoint for %q'') (zfs exec (getArgs ''mountpoint'' (poolPath z))))
       (\<lambda>out. let mountpoint = Clean (trim_space out)
               in if \<not> is_abs mountpoint \<or> mountpoint = ''/'' \<or> mountpoint = ''.''
                  then failS (Errorf ''backup pool %q has unusable mountpoint %q'')
                  else returnS mountpoint)"

definition DatasetExists :: "'z exec \<Rightarrow> string \<Rightarrow> ('z, bool) step" where
  "DatasetExists exec name =
     (case ValidateDatasetName name of
        Some e \<Rightarrow> failS e
      | None \<Rightarrow> (\<lambda>z.
          case exec [''list'', ''-H'', name] z of
            (z', Exited _) \<Rightarrow> (z', Inr True)
          | (z', ExitError _ _) \<Rightarrow> (z', Inr False)
          | (z', StartError err) \<Rightarrow> (z', Inl (Errorf err))))"

section \<open>Snapshots\<close>

definition SnapshotName :: "string \<Rightarrow> string \<Rightarrow> string" where
  "SnapshotName stamp dataset = dataset @ ''@sync-'' @ stamp"

definition CreateSnapshot :: "'z exec \<Rightarrow> string \<Rightarrow> string \<Rightarrow> ('z, string) step" where
  "CreateSnapshot exec stamp dataset =
     bindS (zfs exec [''snapshot'', SnapshotName stamp dataset])
       (\<lambda>_. returnS (SnapshotName stamp dataset))"

definition listArgs :: "string \<Rightarrow> string list" where
  "listArgs dataset =
     [''list'', ''-H'', ''-o'', ''name'', ''-t'', ''snapshot'', ''-s'', ''creation'', ''-r'', dataset]"

definition ListSnapshots :: "'z exec \<Rightarrow> string \<Rightarrow> ('z, string list) step" where
  "ListSnapshots exec dataset z =
     (case zfs exec (listArgs dataset) z of
        (z', Inl e) \<Rightarrow> if contains (Error_text e) ''does not exist'' then (z', Inr []) else (z', Inl e)
      | (z', Inr out) \<Rightarrow> (z', Inr (if out = [] then [] else split_on (CHR 0x0A) out)))"

definition LatestSnapshot :: "'z exec \<Rightarrow> string \<Rightarrow> ('z, string) step" where
  "LatestSnapshot exec dataset =
     bindS (ListSnapshots exec dataset) (\<lambda>snaps.
       if snaps = [] then failS (Errorf ''no snapshots available for %q'') else returnS (last snaps))"

definition DestroyRestoreClone :: "'z exec \<Rightarrow> string \<Rightarrow> ('z, unit) step" where
  "DestroyRestoreClone exec clone z =
     (case zfs exec [''destroy'', ''-f'', clone] z of
        (z1, Inr _) \<Rightarrow> (z1, Inr ())
      | (z1, Inl _) \<Rightarrow>
          (case zfs exec [''unmount'', clone] z1 of
             (z2, _) \<Rightarrow>
               (case zfs exec [''destroy'', ''-f'', clone] z2 of
                  (z3, Inr _) \<Rightarrow> (z3, Inr ())
                | (z3, Inl e) \<Rightarrow> (z3, Inl (Wrap ''destroy restore clone %q after unmount'' e)))))"

definition cloneName :: "ZFS \<Rightarrow> int \<Rightarrow> string" where
  "cloneName z nanos = poolPath z @ ''/_restore-'' @ format_int nanos"

definition CreateRestoreClone ::
  "ZFS \<Rightarrow> 'z exec \<Rightarrow> int \<Rightarrow> string \<Rightarrow> ('z, string \<times> string) step" where
  "CreateRestoreClone z exec nanos snapshot =
     (if CHR ''@'' \<notin> set snapshot then failS (Errorf ''invalid snapshot name %q'')
      else let clone = cloneName z nanos in
        bindS (mapErrS (Wrap ''clone snapshot %q'') (zfs exec [''clone'', snapshot, clone])) (\<lambda>_ s.
          case zfs exec (getArgs ''mountpoint'' clone) s of
            (s1, Inl e) \<Rightarrow>
              (fst (DestroyRestoreClone exec clone s1), Inl (Wrap ''get clone mountpoint %q'' e))
          | (s1, Inr mountpoint) \<Rightarrow>
              if mountpoint = [] \<or> mountpoint = ''none'' \<or> mountpoint = ''legacy''
              then (fst (DestroyRestoreClone exec clone s1),
                    Inl (Errorf ''clone %q has unusable mountpoint %q''))
              else (s1, Inr (clone, mountpoint))))"

definition DestroySnapshot :: "'z exec \<Rightarrow> string \<Rightarrow> ('z, unit) step" where
  "DestroySnapshot exec snapshot = bindS (zfs exec [''destroy'', snapshot]) (\<lambda>_. returnS ())"

text \<open>
  The two loops of \<open>CleanupSnapshots\<close>. Each turn that goes on drops the head of \<open>remaining\<close>,
  so they recurse on it. Both index \<open>remaining[0]\<close> under \<open>len(remaining) > minKeep\<close>: with a
  negative \<open>minKeep\<close> an empty list passes that test and the index panics.
\<close>

definition index_panic :: error where
  "index_panic = Errorf ''runtime error: index out of range [0] with length 0''"

fun pruneExcess :: "'z exec \<Rightarrow> int \<Rightarrow> int \<Rightarrow> string list \<Rightarrow> ('z, string list) step" where
  "pruneExcess exec minKeep maxKeep [] =
     (if 0 > minKeep \<and> 0 > maxKeep then failS index_panic else returnS [])"
| "pruneExcess exec minKeep maxKeep (s # remaining) =
     (if int (length (s # remaining)) > minKeep \<and> int (length (s # remaining)) > maxKeep
      then bindS (mapErrS (Wrap ''destroy snapshot %q'') (DestroySnapshot exec s))
             (\<lambda>_. pruneExcess exec minKeep maxKeep remaining)
      else returnS (s # remaining))"

definition readFreeGB :: "'z exec \<Rightarrow> string \<Rightarrow> ('z, int) step" where
  "readFreeGB exec dataset =
     bindS (mapErrS (Wrap ''get available space for %q'') (zfs exec (getArgs ''available'' dataset)))
       (\<lambda>out z. (z, mapErr (Wrap ''parse available space for %q'')
          (bindE (parse_int 64 (trim_space out)) (\<lambda>freeBytes. Inr (freeBytes sdiv (1024 * 1024 * 1024))))))"

fun pruneForSpace :: "'z exec \<Rightarrow> string \<Rightarrow> int \<Rightarrow> int \<Rightarrow> string list \<Rightarrow> ('z, unit) step" where
  "pruneForSpace exec dataset minKeep minFreeGB [] =
     bindS (readFreeGB exec dataset) (\<lambda>freeGB.
       if freeGB \<ge> minFreeGB then returnS ()
       else if 0 \<le> minKeep then
         failS (Errorf ''available space is %d GiB, below required %d GiB while preserving %d snapshots'')
       else failS index_panic)"
| "pruneForSpace exec dataset minKeep minFreeGB (s # remaining) =
     bindS (readFreeGB exec dataset) (\<lambda>freeGB.
       if freeGB \<ge> minFreeGB then returnS ()
       else if int (length (s # remaining)) \<le> minKeep then
         failS (Errorf ''available space is %d GiB, below required %d GiB while preserving %d snapshots'')
       else bindS (mapErrS (Wrap ''cleanup destroy'') (DestroySnapshot exec s))
              (\<lambda>_. pruneForSpace exec dataset minKeep minFreeGB remaining))"

definition CleanupSnapshots ::
  "'z exec \<Rightarrow> string \<Rightarrow> int \<Rightarrow> int \<Rightarrow> int \<Rightarrow> ('z, unit) step" where
  "CleanupSnapshots exec dataset minKeep maxKeep minFreeGB =
     bindS (ListSnapshots exec dataset) (\<lambda>snaps.
       if int (length snaps) \<le> minKeep then returnS ()
       else bindS (pruneExcess exec minKeep maxKeep snaps)
              (pruneForSpace exec dataset minKeep minFreeGB))"

section \<open>The commands a step issues\<close>

definition logged :: "'z exec \<Rightarrow> ('z \<times> string list list) exec" where
  "logged exec args zl = (case exec args (fst zl) of (z', out) \<Rightarrow> ((z', snd zl @ [args]), out))"

definition is_destroy :: "string list \<Rightarrow> bool" where
  "is_destroy args \<longleftrightarrow> args \<noteq> [] \<and> hd args = ''destroy''"

definition destroys :: "string list list \<Rightarrow> string list list" where
  "destroys log = List.filter is_destroy log"

definition destroyArgs :: "string \<Rightarrow> string list" where
  "destroyArgs s = [''destroy'', s]"

lemma destroys_simps [simp]:
  "destroys [] = []"
  "destroys (c # cs) = (if is_destroy c then c # destroys cs else destroys cs)"
  "destroys (xs @ ys) = destroys xs @ destroys ys"
  by (simp_all add: destroys_def)

lemma is_destroy_simps [simp]:
  "is_destroy (''destroy'' # r)"
  "is_destroy (destroyArgs s)"
  "\<not> is_destroy (getArgs p d)"
  "\<not> is_destroy (listArgs d)"
  "\<not> is_destroy (''clone'' # r)"
  by (simp_all add: is_destroy_def getArgs_def listArgs_def destroyArgs_def)

lemma zfs_logged:
  "zfs (logged exec) args (z, log) = (case zfs exec args z of (z', r) \<Rightarrow> ((z', log @ [args]), r))"
  by (simp add: zfs_def logged_def split: prod.split exec_out.split)

lemma ListSnapshots_logged:
  "ListSnapshots (logged exec) d (z, log) =
     (case ListSnapshots exec d z of (z', r) \<Rightarrow> ((z', log @ [listArgs d]), r))"
  by (simp add: ListSnapshots_def zfs_logged split: prod.split sum.split)

lemma readFreeGB_logged:
  "readFreeGB (logged exec) d (z, log) =
     (case readFreeGB exec d z of (z', r) \<Rightarrow> ((z', log @ [getArgs ''available'' d]), r))"
  by (simp add: readFreeGB_def bindS_def mapErrS_def zfs_logged mapErr_def split: prod.split sum.split)

lemma DestroySnapshot_logged:
  "DestroySnapshot (logged exec) s (z, log) =
     (case DestroySnapshot exec s z of (z', r) \<Rightarrow> ((z', log @ [destroyArgs s]), r))"
  by (simp add: DestroySnapshot_def bindS_def zfs_logged returnS_def destroyArgs_def split: prod.split sum.split)

lemma pruneExcess_issues:
  assumes "0 \<le> minKeep"
    and "pruneExcess (logged exec) minKeep maxKeep ss (z, log) = ((z', log'), r)"
  shows "\<exists>n. destroys log' = destroys log @ map destroyArgs (take n ss) \<and>
    n \<le> length ss - nat minKeep \<and>
    (\<forall>rest. r = Inr rest \<longrightarrow> rest = drop n ss \<and>
       (int (length rest) \<le> minKeep \<or> int (length rest) \<le> maxKeep))"
  using assms(2)
proof (induction ss arbitrary: z log)
  case Nil
  then show ?case using assms(1) by (intro exI [of _ 0]) (auto simp: returnS_def split: if_splits)
next
  case (Cons s ss)
  show ?case
  proof (cases "int (length (s # ss)) > minKeep \<and> int (length (s # ss)) > maxKeep")
    case False
    then show ?thesis using Cons.prems by (intro exI [of _ 0]) (auto simp: returnS_def)
  next
    case True
    obtain z1 r1 where d: "DestroySnapshot exec s z = (z1, r1)" by force
    show ?thesis
    proof (cases r1)
      case (Inl e)
      then show ?thesis using Cons.prems True assms(1) d
        by (intro exI [of _ 1]) (auto simp: bindS_def mapErrS_def DestroySnapshot_logged)
    next
      case (Inr u)
      then have "pruneExcess (logged exec) minKeep maxKeep ss (z1, log @ [destroyArgs s]) = ((z', log'), r)"
        using Cons.prems True d by (simp add: bindS_def mapErrS_def DestroySnapshot_logged)
      from Cons.IH [OF this] obtain n where n:
        "destroys log' = destroys (log @ [destroyArgs s]) @ map destroyArgs (take n ss)"
        "n \<le> length ss - nat minKeep"
        "\<forall>rest. r = Inr rest \<longrightarrow> rest = drop n ss \<and>
           (int (length rest) \<le> minKeep \<or> int (length rest) \<le> maxKeep)" by blast
      show ?thesis using n True assms(1) by (intro exI [of _ "Suc n"]) auto
    qed
  qed
qed

lemma pruneForSpace_issues:
  assumes "0 \<le> minKeep"
    and "pruneForSpace (logged exec) d minKeep minFreeGB ss (z, log) = ((z', log'), r)"
  shows "\<exists>n. destroys log' = destroys log @ map destroyArgs (take n ss) \<and> n \<le> length ss - nat minKeep"
  using assms(2)
proof (induction ss arbitrary: z log)
  case Nil
  then show ?case using assms(1)
    by (intro exI [of _ 0])
      (auto simp: step_defs readFreeGB_logged split: prod.splits sum.splits if_splits)
next
  case (Cons s ss)
  obtain z0 r0 where g: "readFreeGB exec d z = (z0, r0)" by force
  show ?case
  proof (cases "\<exists>gb. r0 = Inr gb \<and> gb < minFreeGB \<and> minKeep < int (length (s # ss))")
    case False
    then show ?thesis using Cons.prems g
      by (intro exI [of _ 0])
        (auto simp: step_defs readFreeGB_logged split: prod.splits sum.splits if_splits)
  next
    case True
    obtain z1 r1 where ds: "DestroySnapshot exec s z0 = (z1, r1)" by force
    show ?thesis
    proof (cases r1)
      case (Inl e)
      then show ?thesis using Cons.prems True assms(1) ds g
        by (intro exI [of _ 1]) (auto simp: bindS_def mapErrS_def DestroySnapshot_logged readFreeGB_logged)
    next
      case (Inr u)
      then have "pruneForSpace (logged exec) d minKeep minFreeGB ss
          (z1, log @ [getArgs ''available'' d] @ [destroyArgs s]) = ((z', log'), r)"
        using Cons.prems True ds g
        by (auto simp: bindS_def mapErrS_def DestroySnapshot_logged readFreeGB_logged)
      from Cons.IH [OF this] obtain n where n:
        "destroys log' = destroys log @ [destroyArgs s] @ map destroyArgs (take n ss)"
        "n \<le> length ss - nat minKeep" by auto
      show ?thesis using n True assms(1) by (intro exI [of _ "Suc n"]) auto
    qed
  qed
qed

lemma pruneForSpace_measured:
  assumes "pruneForSpace exec d minKeep minFreeGB ss z = (z', Inr u)"
  shows "\<exists>z0 gb. readFreeGB exec d z0 = (z', Inr gb) \<and> minFreeGB \<le> gb"
  using assms
proof (induction ss arbitrary: z)
  case Nil
  then show ?case by (auto simp: bindS_eq_Inr result_simps split: if_splits)
next
  case (Cons s ss)
  then show ?case by (auto simp: bindS_eq_Inr result_simps split: if_splits)
qed

text \<open>
  C27: Retention destroys only the oldest snapshots, in order, and never goes below the configured minimum;
  when it succeeds no more than the configured maximum is left.
\<close>

lemma CleanupSnapshots_issues:
  assumes "0 \<le> minKeep"
    and "ListSnapshots exec d z = (z1, Inr snaps)"
    and "CleanupSnapshots (logged exec) d minKeep maxKeep minFreeGB (z, log) = ((z', log'), r)"
  shows "\<exists>n. destroys log' = destroys log @ map destroyArgs (take n snaps) \<and>
    n \<le> length snaps - nat minKeep \<and>
    (r = Inr () \<longrightarrow> int (length snaps - n) \<le> max minKeep maxKeep)"
proof (cases "int (length snaps) \<le> minKeep")
  case True
  then show ?thesis using assms(2,3)
    by (intro exI [of _ 0]) (auto simp: CleanupSnapshots_def step_defs ListSnapshots_logged)
next
  case False
  let ?l1 = "log @ [listArgs d]"
  obtain z2 l2 r2 where p: "pruneExcess (logged exec) minKeep maxKeep snaps (z1, ?l1) = ((z2, l2), r2)"
    by (metis surj_pair)
  from pruneExcess_issues [OF assms(1) p] obtain n where n:
    "destroys l2 = destroys log @ map destroyArgs (take n snaps)" "n \<le> length snaps - nat minKeep"
    "\<forall>rest. r2 = Inr rest \<longrightarrow> rest = drop n snaps \<and>
       (int (length rest) \<le> minKeep \<or> int (length rest) \<le> maxKeep)"
    by auto
  show ?thesis
  proof (cases r2)
    case (Inl e)
    then show ?thesis using assms(2,3) False p n
      by (intro exI [of _ n]) (auto simp: CleanupSnapshots_def bindS_def ListSnapshots_logged)
  next
    case (Inr rest)
    with n have rest: "rest = drop n snaps" "int (length rest) \<le> max minKeep maxKeep" by auto
    from assms(2,3) False p Inr
    have "pruneForSpace (logged exec) d minKeep minFreeGB rest (z2, l2) = ((z', log'), r)"
      by (simp add: CleanupSnapshots_def bindS_def ListSnapshots_logged)
    from pruneForSpace_issues [OF assms(1) this] obtain m where m:
      "destroys log' = destroys l2 @ map destroyArgs (take m rest)" "m \<le> length rest - nat minKeep" by blast
    have "take n snaps @ take m rest = take (n + m) snaps" using rest by (simp add: take_add)
    then show ?thesis using n m rest
      by (intro exI [of _ "n + m"]) (auto simp flip: map_append)
  qed
qed

definition demo_exec :: "unit exec" where
  "demo_exec args z = (z, Exited
     (if args ! 0 = ''list'' then join_on (CHR 0x0A) [''p@1'', ''p@2'', ''p@3''] else ''9000000000''))"

lemma CleanupSnapshots_issues_witness:
  "\<exists>n \<le> 1. destroys (snd (fst (CleanupSnapshots (logged demo_exec) ''p'' 2 2 1 ((), [])))) =
     map destroyArgs (take n [''p@1'', ''p@2'', ''p@3''])"
proof -
  obtain z' log' r where c: "CleanupSnapshots (logged demo_exec) ''p'' 2 2 1 ((), []) = ((z', log'), r)"
    by (metis prod.exhaust)
  have l: "ListSnapshots demo_exec ''p'' () = ((), Inr [''p@1'', ''p@2'', ''p@3''])" by code_simp
  from CleanupSnapshots_issues [OF _ l c] c show ?thesis by auto
qed

lemma CleanupSnapshots_space:
  assumes "ListSnapshots exec d z = (z1, Inr snaps)" and "minKeep < int (length snaps)"
    and "CleanupSnapshots exec d minKeep maxKeep minFreeGB z = (z', Inr u)"
  shows "\<exists>z0 gb. readFreeGB exec d z0 = (z', Inr gb) \<and> minFreeGB \<le> gb"
  using assms by (auto simp: CleanupSnapshots_def bindS_eq_Inr intro: pruneForSpace_measured)

lemma CleanupSnapshots_few:
  assumes "ListSnapshots exec d z = (z1, Inr snaps)" and "int (length snaps) \<le> minKeep"
  shows "CleanupSnapshots exec d minKeep maxKeep minFreeGB z = (z1, Inr ())"
  using assms by (simp add: CleanupSnapshots_def bindS_def returnS_def)

section \<open>Restore clones\<close>

lemma DestroyRestoreClone_issues:
  "\<exists>z' r cs. DestroyRestoreClone (logged exec) clone (z, log) = ((z', log @ [''destroy'', ''-f'', clone] # cs), r)"
  by (auto simp: DestroyRestoreClone_def zfs_logged split: prod.split sum.split)

text \<open>A clone that was made is either returned with a usable mount point or destroyed again.\<close>

lemma CreateRestoreClone_issues:
  assumes "CreateRestoreClone z (logged exec) nanos snap (s, log) = ((s', log'), r)"
  shows "(\<exists>m. r = Inr (cloneName z nanos, m) \<and> m \<noteq> [] \<and> m \<noteq> ''none'' \<and> m \<noteq> ''legacy'' \<and>
           destroys log' = destroys log) \<or>
         (\<exists>e. r = Inl e \<and>
           ((\<exists>s1 u. zfs exec [''clone'', snap, cloneName z nanos] s = (s1, Inr u)) \<and> CHR ''@'' \<in> set snap \<longrightarrow>
              [''destroy'', ''-f'', cloneName z nanos] \<in> set log'))"
proof (cases "CHR ''@'' \<in> set snap")
  case False
  then show ?thesis using assms by (auto simp: CreateRestoreClone_def failS_def)
next
  case True
  obtain s1 r1 where c: "zfs exec [''clone'', snap, cloneName z nanos] s = (s1, r1)" by force
  obtain s2 r2 where g: "zfs exec (getArgs ''mountpoint'' (cloneName z nanos)) s1 = (s2, r2)" by force
  let ?l1 = "log @ [[''clone'', snap, cloneName z nanos]]"
  let ?l2 = "?l1 @ [getArgs ''mountpoint'' (cloneName z nanos)]"
  obtain s3 r3 cs where d: "DestroyRestoreClone (logged exec) (cloneName z nanos) (s2, ?l2) =
      ((s3, ?l2 @ [''destroy'', ''-f'', cloneName z nanos] # cs), r3)"
    using DestroyRestoreClone_issues by metis
  show ?thesis
    using assms True c g d
    by (cases r1; cases r2)
      (auto simp: CreateRestoreClone_def bindS_def mapErrS_def zfs_logged Let_def split: if_splits)
qed

text \<open>No clone name is the dataset of a host and a user.\<close>

lemma cloneName_not_dataset:
  assumes "hostnameRe h"
  shows "cloneName z nanos \<noteq> DatasetPath (poolPath z) h u"
proof
  assume "cloneName z nanos = DatasetPath (poolPath z) h u"
  then have "''_restore-'' @ format_int nanos = h @ ''/'' @ u"
    by (simp add: cloneName_def DatasetPath_def)
  then have "h \<noteq> [] \<longrightarrow> hd h = CHR ''_''" by (cases h) auto
  then show False using assms hostname_not_underscore by (cases h) (auto simp: hostnameRe_def)
qed

section \<open>Mounting\<close>

lemma mount_chain_dataset:
  "hostnameRe h \<Longrightarrow> usernameRe u \<Longrightarrow>
   mount_chain pool (split_on CHR ''/'' (trim_prefix (pool @ ''/'') (DatasetPath pool h u))) =
     [pool @ ''/'' @ h, DatasetPath pool h u]"
proof -
  assume h: "hostnameRe h" and u: "usernameRe u"
  have ns: "CHR ''/'' \<notin> set h" "CHR ''/'' \<notin> set u"
    using hostname_normal [OF h] username_no_slash [OF u] by (auto simp: normal_def)
  have "trim_prefix (pool @ ''/'') (DatasetPath pool h u) = join_on CHR ''/'' [h, u]"
    using trim_prefix_append [of "pool @ ''/''" "h @ ''/'' @ u"] by (simp add: DatasetPath_def)
  moreover have "split_on CHR ''/'' (join_on CHR ''/'' [h, u]) = [h, u]"
    using ns by (intro split_join) auto
  moreover have "h \<noteq> []" "u \<noteq> []" using h u by (auto simp: hostnameRe_def usernameRe_def)
  ultimately show ?thesis by (simp add: DatasetPath_def)
qed

lemma ensureMounted_yes:
  "ensureMounted exec d z = (z', Inr ()) \<Longrightarrow>
   \<exists>z0. zfs exec (getArgs ''mounted'' d) z0 = (z', Inr ''yes'')"
  by (auto simp: ensureMounted_def bindS_eq_Inr result_simps split: if_splits)

lemma EnsureDatasetMounted_yes:
  assumes "hostnameRe h" "usernameRe u"
    and "EnsureDatasetMounted z exec (DatasetPath (poolPath z) h u) s = (s', Inr ())"
  shows "\<exists>s0. zfs exec (getArgs ''mounted'' (DatasetPath (poolPath z) h u)) s0 = (s', Inr ''yes'')"
proof -
  let ?d = "DatasetPath (poolPath z) h u"
  have ne: "?d \<noteq> poolPath z" by (simp add: DatasetPath_def)
  have pre: "prefix (poolPath z @ ''/'') ?d" by (simp add: DatasetPath_def prefix_def)
  from assms(3) ne pre obtain s1 where
    "foldS (ensureMounted exec) (mount_chain (poolPath z)
        (split_on CHR ''/'' (trim_prefix (poolPath z @ ''/'') ?d))) s1 = (s', Inr ())"
    by (auto simp: EnsureDatasetMounted_def bindS_eq_Inr failS_eq_Inr split: option.splits)
  then have "foldS (ensureMounted exec) [poolPath z @ ''/'' @ h, ?d] s1 = (s', Inr ())"
    using mount_chain_dataset [OF assms(1,2)] by simp
  then obtain s2 where "ensureMounted exec ?d s2 = (s', Inr ())"
    by (auto split: prod.splits sum.splits)
  then show ?thesis by (rule ensureMounted_yes)
qed

end
