(* ===== verification/Vault_Server.thy ===== *)
theory Vault_Server
  imports Vault_AuthZ Vault_Keys Vault_Receiver Vault_Zfs
begin

text \<open>
  \<open>internal/server/svc\<close>: the state the RPC handlers share and the handlers that do not stream
  files: \<open>GetChallenge\<close>, \<open>GetGlobalConfig\<close>, \<open>GetQuotaUsage\<close>, \<open>RegisterDelegationKey\<close>,
  \<open>RemoveDelegationKey\<close> and \<open>RegisterTaskGrant\<close>. A handler is a step on the server's state. What
  it reads but does not change (configuration, clock, SSH library, which system calls fail) is
  in the environment \<open>server_env\<close>.
\<close>

section \<open>State and environment\<close>

text \<open>The two log formats the handlers print.\<close>

datatype log_line =
    Audit string string string int string string
  | VouchDeny string string int string

record 'z server_state =
  ss_nonces :: nonces
  ss_grants :: grants
  ss_keys :: key_files
  ss_tree :: tree
  ss_zfs :: 'z
  ss_log :: "log_line list"
  ss_tick :: nat

text \<open>
  \<open>ss_tick\<close> counts the receiver's calls: \<open>sv_tmps\<close> gives each its temporary name and \<open>sv_fs\<close> its
  faults. \<open>sv_view z\<close> are the files that are visible when the ZFS state is \<open>z\<close>. Marshalling a
  message is the protobuf library's.
\<close>

record quota_request =
  qr_Username :: string
  qr_Nonce :: bytes
  qr_Signature :: bytes

record backup_batch =
  bb_BatchId :: string
  bb_Username :: string
  bb_RuleType :: string
  bb_Files :: "file_entry list"
  bb_Nonce :: bytes
  bb_Signature :: bytes
  bb_SignerPubkey :: bytes

record 'z server_env =
  sv_Cfg :: server_config
  sv_KeysDir :: string
  sv_mountPoint :: string
  sv_Logger :: bool
  sv_lib :: ssh_lib
  sv_sha :: "bytes \<Rightarrow> bytes"
  sv_marshalRequest :: "string \<Rightarrow> string \<Rightarrow> bytes result"
  sv_marshalBatch :: "backup_batch \<Rightarrow> bytes"
  sv_db :: faults
  sv_keyfl :: key_faults
  sv_fs :: "nat \<Rightarrow> fs_faults"
  sv_tmps :: "nat \<Rightarrow> string"
  sv_exec :: "'z exec"
  sv_view :: "'z \<Rightarrow> tree"
  sv_now :: int

type_synonym ('z, 'a) handler = "('z server_state, 'a) step"

text \<open>Steps on a part of the state.\<close>

definition onZfs :: "('z, 'a) step \<Rightarrow> ('z, 'a) handler" where
  "onZfs m s = (case m (ss_zfs s) of (z, r) \<Rightarrow> (s\<lparr>ss_zfs := z\<rparr>, r))"

definition onKeys :: "(key_files \<Rightarrow> key_files \<times> 'a result) \<Rightarrow> ('z, 'a) handler" where
  "onKeys m s = (case m (ss_keys s) of (k, r) \<Rightarrow> (s\<lparr>ss_keys := k\<rparr>, r))"

text \<open>A call of the receiver: the faults and the temporary name of this call.\<close>

definition onTree ::
  "'z server_env \<Rightarrow> (fs_faults \<Rightarrow> string \<Rightarrow> tree \<Rightarrow> tree \<times> 'a result) \<Rightarrow> ('z, 'a) handler" where
  "onTree env m s =
     (case m (sv_fs env (ss_tick s)) (sv_tmps env (ss_tick s)) (ss_tree s) of
        (t, r) \<Rightarrow> (s\<lparr>ss_tree := t, ss_tick := Suc (ss_tick s)\<rparr>, r))"

section \<open>The audit log\<close>

definition logLine :: "'z server_env \<Rightarrow> log_line \<Rightarrow> ('z, unit) handler" where
  "logLine env l s = (if sv_Logger env then s\<lparr>ss_log := ss_log s @ [l]\<rparr> else s, Inr ())"

definition LogAuthDecision ::
  "'z server_env \<Rightarrow> string \<Rightarrow> string \<Rightarrow> string \<Rightarrow> int \<Rightarrow> auth_decision \<Rightarrow> ('z, unit) handler" where
  "LogAuthDecision env fullMethod agentCN username uid decision =
     (let m = trim_prefix service_prefix fullMethod;
          (d, am) = (case decision of
              DecisionAllow \<Rightarrow> (''allow'', ''host_vouched'')
            | DecisionRequireSig \<Rightarrow> (''require_sig'', ''ssh_signature'')
            | DecisionDeny \<Rightarrow> (''deny'', ''denied''))
      in logLine env (Audit m agentCN username uid am d))"

section \<open>Authorising a request\<close>

definition consumeServerNonce :: "'z server_env \<Rightarrow> bytes \<Rightarrow> ('z, unit) handler" where
  "consumeServerNonce env nonce s =
     (case ConsumeNonce (sv_db env) (sv_now env) (hex_encode nonce) (ss_nonces s) of
        (t, r) \<Rightarrow> (s\<lparr>ss_nonces := t\<rparr>,
          if r = Inr True then Inr () else Inl (Status Unauthenticated ''invalid or expired nonce'')))"

definition parseSSHSignature :: "'z server_env \<Rightarrow> bytes \<Rightarrow> bytes result" where
  "parseSSHSignature env sigBytes =
     (case unmarshalSig (sv_lib env) sigBytes of
        None \<Rightarrow> Inl (Status Unauthenticated ''invalid signature format'') | Some sig \<Rightarrow> Inr sig)"

definition denied :: error where
  "denied = Status PermissionDenied ''authorization denied''"

text \<open>
  The block every handler of a signed request has after its checks: decide, log, and when a
  signature is required run the handler's own verification before the decision is logged.
\<close>

definition authorize ::
  "'z server_env \<Rightarrow> request_ctx \<Rightarrow> string \<Rightarrow> string \<Rightarrow> ('z, unit) handler \<Rightarrow> ('z, unit) handler" where
  "authorize env cx fullMethod username verify =
     (let h = cx_hostname cx; uid = cx_uid cx in
      case DecideAuth (sv_Cfg env) h uid username (cx_groups cx) fullMethod of
        (_, Some derr) \<Rightarrow>
          bindS (logLine env (VouchDeny fullMethod username uid h)) (\<lambda>_.
          bindS (LogAuthDecision env fullMethod h username uid DecisionDeny) (\<lambda>_. failS denied))
      | (DecisionDeny, None) \<Rightarrow>
          bindS (LogAuthDecision env fullMethod h username uid DecisionDeny) (\<lambda>_. failS denied)
      | (DecisionRequireSig, None) \<Rightarrow>
          bindS verify (\<lambda>_. LogAuthDecision env fullMethod h username uid DecisionRequireSig)
      | (DecisionAllow, None) \<Rightarrow> LogAuthDecision env fullMethod h username uid DecisionAllow)"

definition validUser :: "string \<Rightarrow> ('z, unit) handler" where
  "validUser username =
     checkS (failIf (ValidateUsername username \<noteq> None) (Status InvalidArgument ''invalid username: %v''))"

definition fromResult :: "'a result \<Rightarrow> ('z, 'a) handler" where
  "fromResult r s = (s, r)"

text \<open>
  \<open>verifyPullRestoreSignature\<close> and \<open>verifyQuotaSignature\<close> are the same code over two methods; the
  two request messages have the same fields.
\<close>

definition verifyRequestSignature ::
  "'z server_env \<Rightarrow> string \<Rightarrow> string \<Rightarrow> string \<Rightarrow> quota_request \<Rightarrow> ('z, unit) handler" where
  "verifyRequestSignature env what method hostname req s =
     (s,
      if qr_Nonce req = [] \<or> qr_Signature req = []
      then Inl (Status Unauthenticated (''missing '' @ what @ '' signature''))
      else case LoadSigningKeys (sv_lib env) (sv_keyfl env) (sv_KeysDir env) hostname (qr_Username req)
                  (sv_now env) (ss_keys s) of
        Inl e \<Rightarrow> Inl (Status Unauthenticated ''no authorized key for %s/%s: %v'')
      | Inr keys \<Rightarrow>
          (case ServerRequestPayload (sv_sha env) method (qr_Nonce req)
                  (sv_marshalRequest env method (qr_Username req)) of
             Inl e \<Rightarrow> Inl (Status Internal (''build '' @ what @ '' payload: %v''))
           | Inr payload \<Rightarrow>
               (case unmarshalSig (sv_lib env) (qr_Signature req) of
                  None \<Rightarrow> Inl (Status Unauthenticated ''invalid signature format'')
                | Some sig \<Rightarrow>
                    if \<not> VerifyAnyKey (sv_lib env) keys payload sig
                    then Inl (Status Unauthenticated ''signature verification failed'')
                    else Inr ())))"

definition verifyQuotaSignature :: "'z server_env \<Rightarrow> string \<Rightarrow> quota_request \<Rightarrow> ('z, unit) handler" where
  "verifyQuotaSignature env = verifyRequestSignature env ''quota'' ''GetQuotaUsage''"

definition verifyPullRestoreSignature ::
  "'z server_env \<Rightarrow> string \<Rightarrow> quota_request \<Rightarrow> ('z, unit) handler" where
  "verifyPullRestoreSignature env = verifyRequestSignature env ''restore'' ''PullRestore''"

section \<open>Challenge and configuration\<close>

record challenge =
  ch_Nonce :: bytes
  ch_ExpiresAt :: int

text \<open>\<open>rnd\<close> is what the system's random source returned.\<close>

definition GetChallenge :: "'z server_env \<Rightarrow> bytes option \<Rightarrow> ('z, challenge) handler" where
  "GetChallenge env rnd s =
     (case rnd of
        None \<Rightarrow> (s, Inl (Status Internal ''failed to generate nonce''))
      | Some nonce \<Rightarrow>
          (let expiresAt = sv_now env + 5 * 60 in
           case InsertNonce (sv_db env) (hex_encode nonce) expiresAt (ss_nonces s) of
             Inl e \<Rightarrow> (s, Inl (Status Internal ''failed to store nonce''))
           | Inr t \<Rightarrow> (s\<lparr>ss_nonces := t\<rparr>, Inr \<lparr>ch_Nonce = nonce, ch_ExpiresAt = expiresAt\<rparr>)))"

record pb_policy =
  pp_DefaultSchedule :: string
  pp_DefaultQuotaGb :: int
  pp_PerUserOverrides :: "(string \<times> user_override) list"

record global_config =
  gc_GlobalRules :: "global_rule list"
  gc_UserPolicy :: "pb_policy option"

definition GetGlobalConfig :: "'z server_env \<Rightarrow> ('z, global_config) handler" where
  "GetGlobalConfig env =
     (let p = sc_UserPolicy (sv_Cfg env) in
      returnS \<lparr>gc_GlobalRules = map (\<lambda>gr. \<lparr>gr_Name = gr_Name gr, gr_Paths = gr_Paths gr, gr_Exclude = gr_Exclude gr\<rparr>)
                                    (sc_GlobalRules (sv_Cfg env)),
               gc_UserPolicy = Some \<lparr>pp_DefaultSchedule = up_DefaultSchedule p,
                  pp_DefaultQuotaGb = up_DefaultQuotaGB p,
                  pp_PerUserOverrides = map (\<lambda>(name, ov). (name, \<lparr>uo_QuotaGB = uo_QuotaGB ov, uo_Schedule = uo_Schedule ov\<rparr>))
                                            (up_PerUserOverrides p)\<rparr>\<rparr>)"

section \<open>Quota\<close>

record quota_usage =
  qu_UsedBytes :: int
  qu_QuotaBytes :: "64 word"
  qu_Dataset :: string

definition quotaGB :: "server_config \<Rightarrow> string \<Rightarrow> int" where
  "quotaGB cfg username =
     (case map_of (up_PerUserOverrides (sc_UserPolicy cfg)) username of
        Some override \<Rightarrow> uo_QuotaGB override | None \<Rightarrow> up_DefaultQuotaGB (sc_UserPolicy cfg))"

definition dataset_of :: "'z server_env \<Rightarrow> string \<Rightarrow> string \<Rightarrow> string" where
  "dataset_of env hostname username = DatasetPath (sb_BackupPool (sc_Server (sv_Cfg env))) hostname username"

definition GetQuotaUsage ::
  "'z server_env \<Rightarrow> request_ctx \<Rightarrow> quota_request \<Rightarrow> ('z, quota_usage) handler" where
  "GetQuotaUsage env cx req =
     bindS (validUser (qr_Username req)) (\<lambda>_.
     bindS (authorize env cx (service_prefix @ ''GetQuotaUsage'') (qr_Username req)
              (bindS (verifyQuotaSignature env (cx_hostname cx) req) (\<lambda>_.
               consumeServerNonce env (qr_Nonce req)))) (\<lambda>_.
     let dsName = dataset_of env (cx_hostname cx) (qr_Username req) in
     bindS (mapErrS (\<lambda>_. Status Internal ''get usage: %v'') (onZfs (GetUsed (sv_exec env) dsName))) (\<lambda>used.
     returnS \<lparr>qu_UsedBytes = used,
              qu_QuotaBytes = word_of_int (quotaGB (sv_Cfg env) (qr_Username req)) * 1024 * 1024 * 1024,
              qu_Dataset = dsName\<rparr>)))"

section \<open>Delegation keys and task grants\<close>

definition maxDelegationLifetime :: int where
  "maxDelegationLifetime = 90 * 24 * 60 * 60"

definition maxTaskGrantLifetime :: int where
  "maxTaskGrantLifetime = 24 * 60 * 60"

record delegation_request =
  dr_Username :: string
  dr_GatewayCn :: string
  dr_DelegationPubkey :: string
  dr_ExpiresAt :: int
  dr_Nonce :: bytes
  dr_Signature :: bytes

definition registerDelegation_verify ::
  "'z server_env \<Rightarrow> string \<Rightarrow> delegation_request \<Rightarrow> ('z, unit) handler" where
  "registerDelegation_verify env hostname req s =
     (let payload = DelegationConsentPayload (sv_sha env) (dr_Nonce req) (dr_Username req)
                      (dr_GatewayCn req) (dr_DelegationPubkey req) (dr_ExpiresAt req) in
      bindS (fromResult (parseSSHSignature env (dr_Signature req))) (\<lambda>sig.
      bindS (fromResult (mapErr (\<lambda>_. Status Unauthenticated ''no authorized key for %s/%s'')
               (LoadAuthorizedKey (sv_lib env) (sv_keyfl env) (sv_KeysDir env) hostname
                 (dr_Username req) (ss_keys s)))) (\<lambda>primary.
      bindS (checkS (failIf (\<not> verifyKey (sv_lib env) primary payload sig)
               (Status Unauthenticated ''consent signature verification failed: %v''))) (\<lambda>_.
      consumeServerNonce env (dr_Nonce req)))) s)"

definition RegisterDelegationKey ::
  "'z server_env \<Rightarrow> request_ctx \<Rightarrow> delegation_request \<Rightarrow> ('z, unit) handler" where
  "RegisterDelegationKey env cx req =
     bindS (validUser (dr_Username req)) (\<lambda>_.
     bindS (checkS (failIf (dr_ExpiresAt req \<le> sv_now env \<or>
                            dr_ExpiresAt req > sv_now env + maxDelegationLifetime)
              (Status InvalidArgument ''delegation expiry out of range''))) (\<lambda>_.
     bindS (checkS (failIf (parseAuthorizedKey (sv_lib env) (dr_DelegationPubkey req) = None)
              (Status InvalidArgument ''invalid delegation public key''))) (\<lambda>_.
     bindS (authorize env cx (service_prefix @ ''RegisterDelegationKey'') (dr_Username req)
              (registerDelegation_verify env (cx_hostname cx) req)) (\<lambda>_.
     mapErrS (\<lambda>_. Status Internal ''save delegation key: %v'')
       (onKeys (SaveDelegationKey (sv_lib env) (sv_sha env) (sv_keyfl env) (sv_KeysDir env)
          (cx_hostname cx) (dr_Username req) (dr_DelegationPubkey req)
          \<lparr>dm_GatewayCN = dr_GatewayCn req, dm_ExpiresAt = dr_ExpiresAt req\<rparr>))))))"

text \<open>The removal may be signed by the primary key or by the key that is removed.\<close>

definition removeDelegation_verify ::
  "'z server_env \<Rightarrow> string \<Rightarrow> delegation_request \<Rightarrow> bytes \<Rightarrow> ('z, unit) handler" where
  "removeDelegation_verify env hostname req delegationPub s =
     (let payload = DelegationRemovalPayload (sv_sha env) (dr_Nonce req) (dr_Username req)
                      (dr_GatewayCn req) (dr_DelegationPubkey req) in
      bindS (fromResult (parseSSHSignature env (dr_Signature req))) (\<lambda>sig.
      let verified = (case LoadAuthorizedKey (sv_lib env) (sv_keyfl env) (sv_KeysDir env) hostname
                             (dr_Username req) (ss_keys s) of
                        Inl _ \<Rightarrow> False | Inr primary \<Rightarrow> verifyKey (sv_lib env) primary payload sig) in
      bindS (checkS (failIf (\<not> verified \<and> \<not> verifyKey (sv_lib env) delegationPub payload sig)
               (Status Unauthenticated ''removal signature verification failed''))) (\<lambda>_.
      consumeServerNonce env (dr_Nonce req))) s)"

definition RemoveDelegationKey ::
  "'z server_env \<Rightarrow> request_ctx \<Rightarrow> delegation_request \<Rightarrow> ('z, unit) handler" where
  "RemoveDelegationKey env cx req =
     bindS (validUser (dr_Username req)) (\<lambda>_.
     case parseAuthorizedKey (sv_lib env) (dr_DelegationPubkey req) of
       None \<Rightarrow> failS (Status InvalidArgument ''invalid delegation public key'')
     | Some delegationPub \<Rightarrow>
         bindS (authorize env cx (service_prefix @ ''RemoveDelegationKey'') (dr_Username req)
                  (removeDelegation_verify env (cx_hostname cx) req delegationPub)) (\<lambda>_.
         mapErrS (\<lambda>_. Status Internal ''remove delegation key: %v'')
           (onKeys (RemoveDelegationKeyFile (sv_keyfl env) (sv_KeysDir env) (cx_hostname cx)
              (dr_Username req) (DelegationFingerprint (sv_sha env) delegationPub)))))"

record grant_request =
  rg_Username :: string
  rg_Method :: string
  rg_EphemeralPubkey :: string
  rg_ExpiresAt :: int
  rg_Nonce :: bytes
  rg_Signature :: bytes

definition taskGrant_verify ::
  "'z server_env \<Rightarrow> string \<Rightarrow> grant_request \<Rightarrow> ('z, unit) handler" where
  "taskGrant_verify env hostname req s =
     (let payload = TaskGrantPayload (sv_sha env) (rg_Nonce req) (rg_Username req) (rg_Method req)
                      (rg_EphemeralPubkey req) (rg_ExpiresAt req) in
      bindS (fromResult (parseSSHSignature env (rg_Signature req))) (\<lambda>sig.
      bindS (fromResult (mapErr (\<lambda>_. Status Internal ''load delegation keys: %v'')
               (LoadDelegationKeys (sv_lib env) (sv_keyfl env) (sv_KeysDir env) hostname
                 (rg_Username req) (sv_now env) (ss_keys s)))) (\<lambda>delegationKeys.
      bindS (checkS (failIf (delegationKeys = []) (Status Unauthenticated ''no delegation keys found''))) (\<lambda>_.
      bindS (checkS (failIf (\<not> VerifyAnyKey (sv_lib env) delegationKeys payload sig)
               (Status Unauthenticated ''task grant signature verification failed''))) (\<lambda>_.
      consumeServerNonce env (rg_Nonce req))))) s)"

definition storeGrant :: "'z server_env \<Rightarrow> task_grant \<Rightarrow> ('z, unit) handler" where
  "storeGrant env g s =
     (case InsertTaskGrant (sv_db env) g (ss_grants s) of
        Inl e \<Rightarrow> (s, Inl (Status Internal ''insert task grant: %v''))
      | Inr t \<Rightarrow> (s\<lparr>ss_grants := t\<rparr>, Inr ()))"

definition RegisterTaskGrant ::
  "'z server_env \<Rightarrow> request_ctx \<Rightarrow> grant_request \<Rightarrow> ('z, unit) handler" where
  "RegisterTaskGrant env cx req =
     bindS (validUser (rg_Username req)) (\<lambda>_.
     bindS (checkS (failIf (rg_Method req \<noteq> ''PushBackup'')
              (Status InvalidArgument ''method must be PushBackup''))) (\<lambda>_.
     bindS (checkS (failIf (rg_ExpiresAt req \<le> sv_now env \<or>
                            rg_ExpiresAt req > sv_now env + maxTaskGrantLifetime)
              (Status InvalidArgument ''task grant expiry out of range''))) (\<lambda>_.
     case parseAuthorizedKey (sv_lib env) (rg_EphemeralPubkey req) of
       None \<Rightarrow> failS (Status InvalidArgument ''invalid ephemeral public key'')
     | Some ephemeralPub \<Rightarrow>
         bindS (authorize env cx (service_prefix @ ''RegisterTaskGrant'') (rg_Username req)
                  (taskGrant_verify env (cx_hostname cx) req)) (\<lambda>_.
         storeGrant env \<lparr>tg_Hostname = cx_hostname cx, tg_Username = rg_Username req,
           tg_Method = rg_Method req,
           tg_EphemeralFingerprint = DelegationFingerprint (sv_sha env) ephemeralPub,
           tg_EphemeralPubKey = rg_EphemeralPubkey req, tg_ExpiresAt = rg_ExpiresAt req\<rparr>))))"

section \<open>What an authorised request has shown\<close>

lemma logLine_eq: "logLine env l s = (if sv_Logger env then s\<lparr>ss_log := ss_log s @ [l]\<rparr> else s, Inr ())"
  by (simp add: logLine_def)

lemma LogAuthDecision_ok:
  "\<exists>l. LogAuthDecision env m h u uid d s = (s\<lparr>ss_log := l\<rparr>, Inr ())"
  by (cases d) (auto simp: LogAuthDecision_def logLine_def Let_def intro: exI [of _ "ss_log s"])

lemma logLine_ok: "\<exists>l. logLine env x s = (s\<lparr>ss_log := l\<rparr>, Inr ())"
  by (auto simp: logLine_def intro: exI [of _ "ss_log s"])

lemma LogAuthDecision_keeps:
  assumes "\<And>s l. P s \<Longrightarrow> P (s\<lparr>ss_log := l\<rparr>)"
  shows "keeps P (LogAuthDecision env m h u uid d)"
proof (rule keepsI)
  fix s assume "P s"
  moreover obtain l where "LogAuthDecision env m h u uid d s = (s\<lparr>ss_log := l\<rparr>, Inr ())"
    using LogAuthDecision_ok by blast
  ultimately show "P (fst (LogAuthDecision env m h u uid d s))" using assms by simp
qed

lemma logLine_keeps:
  assumes "\<And>s l. P s \<Longrightarrow> P (s\<lparr>ss_log := l\<rparr>)"
  shows "keeps P (logLine env x)"
  using assms by (auto simp: keeps_def logLine_def)

lemma authorize_keeps:
  assumes "\<And>s l. P s \<Longrightarrow> P (s\<lparr>ss_log := l\<rparr>)" "keeps P verify"
  shows "keeps P (authorize env cx m u verify)"
  unfolding authorize_def Let_def
  by (auto split: prod.split auth_decision.split option.split
      intro!: keeps_intros LogAuthDecision_keeps logLine_keeps assms)

text \<open>
  Either the configuration vouches for the host's user, or the handler's own verification
  succeeded; the request is refused in every other case.
\<close>

lemma authorize_ok:
  assumes "authorize env cx m u verify s = (s', Inr ())"
  obtains (vouched) l where
      "fst (DecideAuth (sv_Cfg env) (cx_hostname cx) (cx_uid cx) u (cx_groups cx) m) = DecisionAllow"
      "s' = s\<lparr>ss_log := l\<rparr>"
  | (signed) s1 l where
      "fst (DecideAuth (sv_Cfg env) (cx_hostname cx) (cx_uid cx) u (cx_groups cx) m) = DecisionRequireSig"
      "verify s = (s1, Inr ())" "s' = s1\<lparr>ss_log := l\<rparr>"
proof -
  obtain d e where d: "DecideAuth (sv_Cfg env) (cx_hostname cx) (cx_uid cx) u (cx_groups cx) m = (d, e)"
    by force
  have e: "e = None" "d \<noteq> DecisionDeny"
    using assms d by (auto simp: authorize_def Let_def bindS_eq_Inr result_simps
        split: option.splits auth_decision.splits)
  show ?thesis
  proof (cases d)
    case DecisionAllow
    obtain l where "LogAuthDecision env m (cx_hostname cx) u (cx_uid cx) DecisionAllow s = (s\<lparr>ss_log := l\<rparr>, Inr ())"
      using LogAuthDecision_ok by blast
    then show ?thesis using assms d e DecisionAllow vouched [of l] by (simp add: authorize_def Let_def)
  next
    case DecisionRequireSig
    then obtain s1 where v: "verify s = (s1, Inr ())"
        "LogAuthDecision env m (cx_hostname cx) u (cx_uid cx) DecisionRequireSig s1 = (s', Inr ())"
      using assms d e by (auto simp: authorize_def Let_def bindS_eq_Inr)
    obtain l where "LogAuthDecision env m (cx_hostname cx) u (cx_uid cx) DecisionRequireSig s1 = (s1\<lparr>ss_log := l\<rparr>, Inr ())"
      using LogAuthDecision_ok by blast
    then show ?thesis using v d DecisionRequireSig signed [of s1 l] by simp
  qed (use e in simp)
qed

lemma consumeServerNonce_ok:
  assumes "consumeServerNonce env nonce s = (s', Inr ())"
  obtains t where "ConsumeNonce (sv_db env) (sv_now env) (hex_encode nonce) (ss_nonces s) = (t, Inr True)"
    "s' = s\<lparr>ss_nonces := t\<rparr>"
  using assms by (auto simp: consumeServerNonce_def split: prod.splits if_splits)

lemma consumeServerNonce_keeps:
  "(\<And>s t. P s \<Longrightarrow> P (s\<lparr>ss_nonces := t\<rparr>)) \<Longrightarrow> keeps P (consumeServerNonce env nonce)"
  by (simp add: keeps_def consumeServerNonce_def case_prod_unfold)

lemma validUser_ok [result_simps]: "validUser u s = (s', Inr x) \<longleftrightarrow> s' = s \<and> usernameRe u"
  by (auto simp: validUser_def result_simps)

lemma fromResult_eq [result_simps]: "fromResult r s = (s', x) \<longleftrightarrow> s' = s \<and> r = x"
  by (auto simp: fromResult_def)

section \<open>Nonces of the challenge\<close>

text \<open>What a returned challenge is good for: one use before its expiry.\<close>

lemma GetChallenge_consumable:
  assumes "nonces_wf (ss_nonces s)" "GetChallenge env rnd s = (s', Inr ch)"
  shows "ch_ExpiresAt ch = sv_now env + 300"
    and "now < ch_ExpiresAt ch \<Longrightarrow>
      \<exists>t. ConsumeNonce no_faults now (hex_encode (ch_Nonce ch)) (ss_nonces s') = (t, Inr True) \<and>
          (\<forall>fl later. snd (ConsumeNonce fl later (hex_encode (ch_Nonce ch)) t) \<noteq> Inr True)"
    and "ch_ExpiresAt ch \<le> now \<Longrightarrow>
      snd (ConsumeNonce fl now (hex_encode (ch_Nonce ch)) (ss_nonces s')) \<noteq> Inr True"
proof -
  obtain n where rnd: "rnd = Some n" using assms(2) by (auto simp: GetChallenge_def split: option.splits)
  let ?r = "\<lparr>nr_nonce = hex_encode n, nr_expires_at = sv_now env + 300, nr_used = 0\<rparr>"
  have ins: "InsertNonce (sv_db env) (hex_encode n) (sv_now env + 300) (ss_nonces s) = Inr (ss_nonces s')"
      and ch: "ch = \<lparr>ch_Nonce = n, ch_ExpiresAt = sv_now env + 300\<rparr>"
    using assms(2) rnd by (auto simp: GetChallenge_def Let_def split: sum.splits)
  show "ch_ExpiresAt ch = sv_now env + 300" by (simp add: ch)
  have t: "ss_nonces s' = ss_nonces s @ [?r]" "row_find nr_nonce (hex_encode n) (ss_nonces s) = None"
    using ins by (auto simp: InsertNonce_def split: if_splits)
  have wf: "nonces_wf (ss_nonces s')" by (rule InsertNonce_wf [OF ins assms(1)])
  show "\<exists>t. ConsumeNonce no_faults now (hex_encode (ch_Nonce ch)) (ss_nonces s') = (t, Inr True) \<and>
          (\<forall>fl later. snd (ConsumeNonce fl later (hex_encode (ch_Nonce ch)) t) \<noteq> Inr True)"
    if "now < ch_ExpiresAt ch"
  proof -
    have "snd (ConsumeNonce no_faults now (hex_encode n) (ss_nonces s')) = Inr True"
      using ConsumeNonce_fresh [OF wf, of ?r now] that t ch by simp
    then obtain t1 where c: "ConsumeNonce no_faults now (hex_encode n) (ss_nonces s') = (t1, Inr True)"
      by (metis prod.collapse)
    have "nonce_spent (hex_encode n) t1"
      using c by (rule ConsumeNonce_True) (simp add: nonce_spent_mark)
    then have "snd (ConsumeNonce fl later (hex_encode n) t1) \<noteq> Inr True" for fl later
      using nonce_tokens.spent_rejected [of "hex_encode n" t1 "(EvConsume (hex_encode n), later, fl)"]
      by (simp split: if_splits)
    then show ?thesis using c ch by simp
  qed
  show "snd (ConsumeNonce fl now (hex_encode (ch_Nonce ch)) (ss_nonces s')) \<noteq> Inr True"
    if "ch_ExpiresAt ch \<le> now"
    using that t ch by (intro ConsumeNonce_expired) (auto simp: row_find_None image_iff)
qed

section \<open>Quota\<close>

lemma onZfs_eq: "onZfs m s = (s', r) \<longleftrightarrow> (\<exists>z. m (ss_zfs s) = (z, r) \<and> s' = s\<lparr>ss_zfs := z\<rparr>)"
  by (auto simp: onZfs_def split: prod.splits)

lemma quota_bytes:
  assumes "0 \<le> q" "q < 2 ^ 33"
  shows "sint (word_of_int q * 1024 * 1024 * 1024 :: 64 word) = q * 2 ^ 30"
proof -
  have w: "(word_of_int q * 1024 * 1024 * 1024 :: 64 word) = word_of_int (q * 2 ^ 30)"
    by (simp add: wi_hom_mult [symmetric])
  have b: "- (2 ^ 63) \<le> q * 2 ^ 30" "q * 2 ^ 30 < 2 ^ 63" using assms by auto
  show ?thesis
    unfolding w sint_sbintrunc' using signed_take_bit_int_eq_self [of 63 "q * 2 ^ 30"] b by simp
qed

lemma GetQuotaUsage_parts:
  assumes "GetQuotaUsage env cx req s = (s', Inr qu)"
  obtains s1 where "usernameRe (qr_Username req)"
    "authorize env cx (service_prefix @ ''GetQuotaUsage'') (qr_Username req)
       (bindS (verifyQuotaSignature env (cx_hostname cx) req) (\<lambda>_. consumeServerNonce env (qr_Nonce req))) s =
     (s1, Inr ())"
    "qu_Dataset qu = dataset_of env (cx_hostname cx) (qr_Username req)"
    "qu_QuotaBytes qu = word_of_int (quotaGB (sv_Cfg env) (qr_Username req)) * 1024 * 1024 * 1024"
    "GetUsed (sv_exec env) (qu_Dataset qu) (ss_zfs s1) = (ss_zfs s', Inr (qu_UsedBytes qu))"
  using assms
  by (force simp: GetQuotaUsage_def bindS_eq_Inr result_simps Let_def onZfs_eq)

section \<open>Verified signatures\<close>

lemma verifyRequestSignature_state:
  "verifyRequestSignature env w m h req s = (s', r) \<Longrightarrow> s' = s"
  by (simp add: verifyRequestSignature_def)

text \<open>
  A signed request was signed, over its own method, nonce and marshalled fields, with a key
  that is on file for this user on this host.
\<close>

definition signing_key :: "'z server_env \<Rightarrow> string \<Rightarrow> string \<Rightarrow> key_files \<Rightarrow> bytes \<Rightarrow> bool" where
  "signing_key env h u fs k \<longleftrightarrow>
     (\<exists>line. f_get (abs_comps (sv_KeysDir env) @ [h, u @ ''.pub'']) fs = Some (KeyText line) \<and>
             parseAuthorizedKey (sv_lib env) line = Some k) \<or>
     live_key (sv_lib env) (sv_now env) (deleg_comps (sv_KeysDir env) h u) fs k"

lemma verifyRequestSignature_ok:
  assumes "valid_owner (sv_KeysDir env) h (qr_Username req)" "f_wf (ss_keys s)"
    and "verifyRequestSignature env w m h req s = (s', Inr ())"
  shows "\<exists>k data sig. signing_key env h (qr_Username req) (ss_keys s) k \<and>
    sv_marshalRequest env m (qr_Username req) = Inr data \<and>
    unmarshalSig (sv_lib env) (qr_Signature req) = Some sig \<and>
    verifyKey (sv_lib env) k (qr_Nonce req @ m @ sv_sha env data) sig"
proof -
  from assms(3) obtain keys data sig where k:
    "LoadSigningKeys (sv_lib env) (sv_keyfl env) (sv_KeysDir env) h (qr_Username req) (sv_now env) (ss_keys s) = Inr keys"
    "sv_marshalRequest env m (qr_Username req) = Inr data"
    "unmarshalSig (sv_lib env) (qr_Signature req) = Some sig"
    "VerifyAnyKey (sv_lib env) keys (qr_Nonce req @ m @ sv_sha env data) sig"
    by (auto simp: verifyRequestSignature_def ServerRequestPayload_def
        split: if_splits sum.splits option.splits)
  from LoadSigningKeys_sound [OF assms(1,2) k(1,4)] k(2,3) show ?thesis
    by (auto simp: signing_key_def)
qed

section \<open>Delegation keys and grants\<close>

lemma onKeys_ok:
  "onKeys m s = (s', r) \<longleftrightarrow> (\<exists>k. m (ss_keys s) = (k, r) \<and> s' = s\<lparr>ss_keys := k\<rparr>)"
  by (auto simp: onKeys_def split: prod.splits)

lemma registerDelegation_verify_ok:
  assumes "registerDelegation_verify env h req s = (s1, Inr ())"
  shows "\<exists>sig primary t.
    unmarshalSig (sv_lib env) (dr_Signature req) = Some sig \<and>
    LoadAuthorizedKey (sv_lib env) (sv_keyfl env) (sv_KeysDir env) h (dr_Username req) (ss_keys s) = Inr primary \<and>
    verifyKey (sv_lib env) primary (DelegationConsentPayload (sv_sha env) (dr_Nonce req) (dr_Username req)
       (dr_GatewayCn req) (dr_DelegationPubkey req) (dr_ExpiresAt req)) sig \<and>
    ConsumeNonce (sv_db env) (sv_now env) (hex_encode (dr_Nonce req)) (ss_nonces s) = (t, Inr True) \<and>
    s1 = s\<lparr>ss_nonces := t\<rparr>"
  using assms
  by (auto simp: registerDelegation_verify_def Let_def bindS_eq_Inr result_simps parseSSHSignature_def
      split: option.splits elim!: consumeServerNonce_ok)

lemma taskGrant_verify_ok:
  assumes "taskGrant_verify env h req s = (s1, Inr ())"
  shows "\<exists>sig ks t.
    unmarshalSig (sv_lib env) (rg_Signature req) = Some sig \<and>
    LoadDelegationKeys (sv_lib env) (sv_keyfl env) (sv_KeysDir env) h (rg_Username req) (sv_now env) (ss_keys s) = Inr ks \<and>
    VerifyAnyKey (sv_lib env) ks (TaskGrantPayload (sv_sha env) (rg_Nonce req) (rg_Username req) (rg_Method req)
       (rg_EphemeralPubkey req) (rg_ExpiresAt req)) sig \<and>
    ConsumeNonce (sv_db env) (sv_now env) (hex_encode (rg_Nonce req)) (ss_nonces s) = (t, Inr True) \<and>
    s1 = s\<lparr>ss_nonces := t\<rparr>"
  using assms
  by (auto simp: taskGrant_verify_def Let_def bindS_eq_Inr result_simps parseSSHSignature_def
      split: option.splits elim!: consumeServerNonce_ok)

lemma storeGrant_ok:
  "storeGrant env g s = (s', Inr x) \<longleftrightarrow>
     (\<exists>t. InsertTaskGrant (sv_db env) g (ss_grants s) = Inr t \<and> s' = s\<lparr>ss_grants := t\<rparr>)"
  by (auto simp: storeGrant_def split: sum.splits)

text \<open>A registered delegation key signs for this user on this host until it expires.\<close>

lemma RegisterDelegationKey_ok:
  assumes "valid_owner (sv_KeysDir env) (cx_hostname cx) (dr_Username req)"
    and "RegisterDelegationKey env cx req s = (s', Inr ())"
  shows "dr_ExpiresAt req \<le> sv_now env + 90 * 86400"
    and "\<exists>k. parseAuthorizedKey (sv_lib env) (dr_DelegationPubkey req) = Some k \<and>
           (\<forall>now < dr_ExpiresAt req.
              live_key (sv_lib env) now (deleg_comps (sv_KeysDir env) (cx_hostname cx) (dr_Username req)) (ss_keys s') k)"
    and "(cx_hostname cx, dr_Username req) \<noteq> (h', u') \<Longrightarrow>
           live_key (sv_lib env) now (deleg_comps (sv_KeysDir env) h' u') (ss_keys s') k' =
           live_key (sv_lib env) now (deleg_comps (sv_KeysDir env) h' u') (ss_keys s) k'"
proof -
  let ?h = "cx_hostname cx" and ?u = "dr_Username req"
  let ?save = "SaveDelegationKey (sv_lib env) (sv_sha env) (sv_keyfl env) (sv_KeysDir env)
          ?h ?u (dr_DelegationPubkey req) \<lparr>dm_GatewayCN = dr_GatewayCn req, dm_ExpiresAt = dr_ExpiresAt req\<rparr>"
  from assms(2) obtain s1 k fs' where s1:
      "authorize env cx (service_prefix @ ''RegisterDelegationKey'') ?u (registerDelegation_verify env ?h req) s = (s1, Inr ())"
      "dr_ExpiresAt req \<le> sv_now env + maxDelegationLifetime"
      "parseAuthorizedKey (sv_lib env) (dr_DelegationPubkey req) = Some k"
      "?save (ss_keys s1) = (fs', Inr ())" "s' = s1\<lparr>ss_keys := fs'\<rparr>"
    by (auto simp: RegisterDelegationKey_def bindS_eq_Inr result_simps onKeys_ok)
  have keys: "ss_keys s1 = ss_keys s"
    using s1(1) by (rule authorize_ok) (auto dest: registerDelegation_verify_ok)
  show "dr_ExpiresAt req \<le> sv_now env + 90 * 86400" using s1(2) by (simp add: maxDelegationLifetime_def)
  show "\<exists>k. parseAuthorizedKey (sv_lib env) (dr_DelegationPubkey req) = Some k \<and>
           (\<forall>now < dr_ExpiresAt req. live_key (sv_lib env) now (deleg_comps (sv_KeysDir env) ?h ?u) (ss_keys s') k)"
    using s1(3,5) SaveDelegationKey_ok(3) [OF assms(1) s1(3,4)] by auto
  show "(?h, ?u) \<noteq> (h', u') \<Longrightarrow>
           live_key (sv_lib env) now (deleg_comps (sv_KeysDir env) h' u') (ss_keys s') k' =
           live_key (sv_lib env) now (deleg_comps (sv_KeysDir env) h' u') (ss_keys s) k'"
    using SaveDelegationKey_others [OF assms(1), of h' u'] s1(4,5) keys
    by (metis fst_conv server_state.select_convs(3) server_state.surjective server_state.update_convs(3))
qed

text \<open>
  C17: A registered task grant is found for its host, user and ephemeral key until its expiry, at most a
  day ahead, allows only PushBackup, and changes what is found for no other host, user or key.
\<close>

lemma RegisterTaskGrant_ok:
  assumes "grants_wf (ss_grants s)" "RegisterTaskGrant env cx req s = (s', Inr ())"
  shows "\<exists>k g. parseAuthorizedKey (sv_lib env) (rg_EphemeralPubkey req) = Some k \<and>
      tg_Method g = ''PushBackup'' \<and> tg_ExpiresAt g = rg_ExpiresAt req \<and>
      tg_ExpiresAt g \<le> sv_now env + 86400 \<and>
      (\<forall>h u f now. GetTaskGrant no_faults h u f now (ss_grants s') =
        (if (h, u, f) = (cx_hostname cx, rg_Username req, DelegationFingerprint (sv_sha env) k)
         then Inr (if now < tg_ExpiresAt g then Some g else None)
         else GetTaskGrant no_faults h u f now (ss_grants s)))"
proof -
  from assms(2) obtain s1 k t where s1:
      "authorize env cx (service_prefix @ ''RegisterTaskGrant'') (rg_Username req) (taskGrant_verify env (cx_hostname cx) req) s = (s1, Inr ())"
      "rg_ExpiresAt req \<le> sv_now env + maxTaskGrantLifetime" "rg_Method req = ''PushBackup''"
      "parseAuthorizedKey (sv_lib env) (rg_EphemeralPubkey req) = Some k"
      "InsertTaskGrant (sv_db env) \<lparr>tg_Hostname = cx_hostname cx, tg_Username = rg_Username req,
           tg_Method = rg_Method req, tg_EphemeralFingerprint = DelegationFingerprint (sv_sha env) k,
           tg_EphemeralPubKey = rg_EphemeralPubkey req, tg_ExpiresAt = rg_ExpiresAt req\<rparr> (ss_grants s1) = Inr t"
      "s' = s1\<lparr>ss_grants := t\<rparr>"
    by (auto simp: RegisterTaskGrant_def bindS_eq_Inr result_simps storeGrant_ok split: option.splits)
  let ?g = "\<lparr>tg_Hostname = cx_hostname cx, tg_Username = rg_Username req,
           tg_Method = rg_Method req, tg_EphemeralFingerprint = DelegationFingerprint (sv_sha env) k,
           tg_EphemeralPubKey = rg_EphemeralPubkey req, tg_ExpiresAt = rg_ExpiresAt req\<rparr>"
  have g: "ss_grants s1 = ss_grants s"
    using s1(1) by (rule authorize_ok) (auto dest: taskGrant_verify_ok)
  have "InsertTaskGrant no_faults ?g (ss_grants s) = Inr t"
    using s1(5) g by (auto simp: InsertTaskGrant_def no_faults_def split: if_splits)
  from GetTaskGrant_insert [OF assms(1) this] s1 show ?thesis
    by (intro exI [of _ k] exI [of _ ?g]) (auto simp: grant_key_def maxTaskGrantLifetime_def)
qed

text \<open>
  After a successful RemoveDelegationKey the removed key is no longer accepted for that user on that
  host, at any clock reading.
\<close>

lemma RemoveDelegationKey_ok:
  assumes "valid_owner (sv_KeysDir env) (cx_hostname cx) (dr_Username req)"
    and "keys_named (sv_lib env) (sv_sha env) (deleg_comps (sv_KeysDir env) (cx_hostname cx) (dr_Username req)) (ss_keys s)"
    and "RemoveDelegationKey env cx req s = (s', Inr ())"
    and "parseAuthorizedKey (sv_lib env) (dr_DelegationPubkey req) = Some k"
  shows "\<not> live_key (sv_lib env) now (deleg_comps (sv_KeysDir env) (cx_hostname cx) (dr_Username req)) (ss_keys s') k"
proof -
  let ?h = "cx_hostname cx" and ?u = "dr_Username req"
  from assms(3,4) obtain s1 fs' where s1:
      "authorize env cx (service_prefix @ ''RemoveDelegationKey'') ?u (removeDelegation_verify env ?h req k) s = (s1, Inr ())"
      "RemoveDelegationKeyFile (sv_keyfl env) (sv_KeysDir env) ?h ?u (DelegationFingerprint (sv_sha env) k) (ss_keys s1) = (fs', Inr ())"
      "s' = s1\<lparr>ss_keys := fs'\<rparr>"
    by (auto simp: RemoveDelegationKey_def bindS_eq_Inr result_simps onKeys_ok)
  have keys: "ss_keys s1 = ss_keys s"
    using s1(1) by (rule authorize_ok)
      (auto simp: removeDelegation_verify_def Let_def bindS_eq_Inr result_simps elim!: consumeServerNonce_ok)
  show ?thesis
    using RemoveDelegationKeyFile_revokes [OF assms(1,2) s1(2) [unfolded keys]] s1(3) by simp
qed

text \<open>
  A challenge that GetChallenge returns expires five minutes later, and the server accepts it exactly
  while the clock is before that expiry.
\<close>

theorem challenge_lifetime:
  assumes "nonces_wf (ss_nonces s)" "GetChallenge env rnd s = (s', Inr ch)"
  shows "ch_ExpiresAt ch = sv_now env + 300 \<and>
    (snd (ConsumeNonce no_faults now (hex_encode (ch_Nonce ch)) (ss_nonces s')) = Inr True \<longleftrightarrow> now < ch_ExpiresAt ch)"
proof -
  note g = GetChallenge_consumable [OF assms]
  show ?thesis
    using g(1) g(2) [of now] g(3) [of now no_faults] by (cases "now < ch_ExpiresAt ch") auto
qed

text \<open>
  A delegation key that RegisterDelegationKey accepts is live until the requested expiry, at most 90
  days ahead, for that user on that host; the live keys of every other user or host are unchanged.
\<close>

theorem delegation_registered:
  assumes "valid_owner (sv_KeysDir env) (cx_hostname cx) (dr_Username req)"
    and "RegisterDelegationKey env cx req s = (s', Inr ())"
  shows "dr_ExpiresAt req \<le> sv_now env + 90 * 86400 \<and>
    (\<exists>k. parseAuthorizedKey (sv_lib env) (dr_DelegationPubkey req) = Some k \<and>
      (\<forall>now. now < dr_ExpiresAt req \<longrightarrow>
        live_key (sv_lib env) now (deleg_comps (sv_KeysDir env) (cx_hostname cx) (dr_Username req)) (ss_keys s') k)) \<and>
    (\<forall>h' u' k' now. (h', u') \<noteq> (cx_hostname cx, dr_Username req) \<longrightarrow>
      live_key (sv_lib env) now (deleg_comps (sv_KeysDir env) h' u') (ss_keys s') k' =
      live_key (sv_lib env) now (deleg_comps (sv_KeysDir env) h' u') (ss_keys s) k')"
  using RegisterDelegationKey_ok [OF assms] by metis

end
