(* ===== verification/Vault_Backup.thy ===== *)
theory Vault_Backup
  imports Vault_Server "HOL-Library.AList"
begin

text \<open>
  \<open>internal/server/svc/backup.go\<close>: \<open>PushBackup\<close> over the turns of its stream. The variables the
  handler keeps across turns are the fields of \<open>push_state\<close> on top of the server's state. The
  batches a client sends are the list \<open>turns\<close>; its end is \<open>io.EOF\<close>.
\<close>

section \<open>Turns\<close>

datatype ctx_err = CtxCanceled | CtxDeadlineExceeded

definition FromContextError :: "ctx_err \<Rightarrow> error" where
  "FromContextError e =
     (case e of CtxCanceled \<Rightarrow> Status Canceled ''context canceled''
      | CtxDeadlineExceeded \<Rightarrow> Status DeadlineExceeded ''context deadline exceeded'')"

text \<open>
  One turn of the loop: what the context says before the receive, what the receive returns,
  and what sending the acknowledgement returns.
\<close>

record push_turn =
  pt_ctx :: "ctx_err option"
  pt_recv :: "backup_batch result"
  pt_send :: "error option"

record batch_ack =
  ba_BatchId :: string
  ba_Status :: string
  ba_WrittenBytes :: "64 word"

record partial_upload =
  pu_writer :: chunk_writer
  pu_nextOffset :: "64 word"
  pu_mode :: "32 word"

record 'z push_state =
  ps_server :: "'z server_state"
  ps_username :: string
  ps_ruleType :: string
  ps_firstBatch :: bool
  ps_nonceConsumed :: bool
  ps_authDecisionChecked :: bool
  ps_authDecision :: auth_decision
  ps_partialUploads :: "(string \<times> partial_upload) list"
  ps_acks :: "batch_ack list"

type_synonym ('z, 'a) push = "('z push_state, 'a) step"

definition push_start :: "'z server_state \<Rightarrow> 'z push_state" where
  "push_start s = \<lparr>ps_server = s, ps_username = '''', ps_ruleType = '''', ps_firstBatch = True,
     ps_nonceConsumed = False, ps_authDecisionChecked = False, ps_authDecision = DecisionRequireSig,
     ps_partialUploads = [], ps_acks = []\<rparr>"

definition onServer :: "('z, 'a) handler \<Rightarrow> ('z, 'a) push" where
  "onServer m p = (case m (ps_server p) of (s, r) \<Rightarrow> (p\<lparr>ps_server := s\<rparr>, r))"

definition updateS :: "('s \<Rightarrow> 's) \<Rightarrow> ('s, unit) step" where
  "updateS f s = (f s, Inr ())"

section \<open>Who may write what\<close>

definition validateBackupIdentity :: "backup_batch \<Rightarrow> error option" where
  "validateBackupIdentity batch =
     (if bb_RuleType batch = ''user'' then
        failIf (bb_Username batch = ''_machine'')
          (Status PermissionDenied ''_machine dataset accepts machine rules only'')
      else if bb_RuleType batch = ''machine'' then
        orElse (failIf (bb_Username batch \<noteq> ''_machine'')
            (Status PermissionDenied ''machine rules may write only to _machine''))
          (failIf (bb_Nonce batch \<noteq> [] \<or> bb_Signature batch \<noteq> [])
            (Status InvalidArgument ''machine rules must not include SSH credentials''))
      else Some (Status InvalidArgument ''invalid rule type %q''))"

definition verifyTaskKeySignature ::
  "'z server_env \<Rightarrow> string \<Rightarrow> backup_batch \<Rightarrow> bytes \<Rightarrow> bytes \<Rightarrow> ('z, unit) handler" where
  "verifyTaskKeySignature env hostname batch sig payload s =
     (s,
      case parsePublicKey (sv_lib env) (bb_SignerPubkey batch) of
        None \<Rightarrow> Inl (Status Unauthenticated ''invalid signer public key'')
      | Some pubKey \<Rightarrow>
          (let fp = DelegationFingerprint (sv_sha env) pubKey in
           case GetTaskGrant (sv_db env) hostname (bb_Username batch) fp (sv_now env) (ss_grants s) of
             Inl e \<Rightarrow> Inl (Status Internal ''lookup task grant: %v'')
           | Inr None \<Rightarrow> Inl (Status Unauthenticated ''no task grant for signer key'')
           | Inr (Some grant) \<Rightarrow>
               if tg_Method grant \<noteq> ''PushBackup''
               then Inl (Status Unauthenticated ''no task grant for signer key'')
               else if \<not> verifyKey (sv_lib env) pubKey payload sig
               then Inl (Status Unauthenticated ''signature verification failed: %v'')
               else Inr ()))"

definition batchPayload :: "'z server_env \<Rightarrow> backup_batch \<Rightarrow> bytes" where
  "batchPayload env batch =
     (let batchForHash = batch\<lparr>bb_Signature := [], bb_Nonce := [], bb_SignerPubkey := []\<rparr> in
      bb_Nonce batch @ ''PushBackup'' @ sv_sha env (sv_marshalBatch env batchForHash))"

definition verifyBatchSignature ::
  "'z server_env \<Rightarrow> string \<Rightarrow> backup_batch \<Rightarrow> ('z, unit) handler" where
  "verifyBatchSignature env hostname batch s =
     (if bb_Nonce batch = [] \<or> bb_Signature batch = []
      then (s, Inl (Status Unauthenticated ''missing batch signature''))
      else let payload = batchPayload env batch in
        case unmarshalSig (sv_lib env) (bb_Signature batch) of
          None \<Rightarrow> (s, Inl (Status Unauthenticated ''invalid signature format''))
        | Some sig \<Rightarrow>
            if bb_SignerPubkey batch \<noteq> [] then verifyTaskKeySignature env hostname batch sig payload s
            else case LoadSigningKeys (sv_lib env) (sv_keyfl env) (sv_KeysDir env) hostname
                        (bb_Username batch) (sv_now env) (ss_keys s) of
              Inl e \<Rightarrow> (s, Inl (Status Unauthenticated ''no authorized key for %s/%s: %v''))
            | Inr keys \<Rightarrow>
                (s, if \<not> VerifyAnyKey (sv_lib env) keys payload sig
                    then Inl (Status Unauthenticated ''signature verification failed'')
                    else Inr ()))"

text \<open>The trust decision of the stream, taken on its first user batch.\<close>

definition push_method :: string where
  "push_method = service_prefix @ ''PushBackup''"

definition decideOnce :: "'z server_env \<Rightarrow> request_ctx \<Rightarrow> backup_batch \<Rightarrow> ('z, unit) push" where
  "decideOnce env cx batch p =
     (if ps_authDecisionChecked p then (p, Inr ())
      else let h = cx_hostname cx; uid = cx_uid cx; u = bb_Username batch;
               (d, derr) = DecideAuth (sv_Cfg env) h uid u (cx_groups cx) push_method;
               p1 = p\<lparr>ps_authDecisionChecked := True, ps_authDecision := d\<rparr>
        in case derr of
             Some e \<Rightarrow>
               onServer (bindS (logLine env (VouchDeny push_method u uid h)) (\<lambda>_.
                         bindS (LogAuthDecision env push_method h u uid DecisionDeny) (\<lambda>_. failS denied))) p1
           | None \<Rightarrow>
               onServer (bindS (LogAuthDecision env push_method h u uid d) (\<lambda>_.
                         if d = DecisionDeny then failS denied else returnS ())) p1)"

definition authBatch :: "'z server_env \<Rightarrow> request_ctx \<Rightarrow> backup_batch \<Rightarrow> ('z, unit) push" where
  "authBatch env cx batch =
     (if bb_RuleType batch \<noteq> ''user'' then returnS ()
      else bindS (decideOnce env cx batch) (\<lambda>_ p.
        if ps_authDecision p \<noteq> DecisionRequireSig then (p, Inr ())
        else bindS (onServer (verifyBatchSignature env (cx_hostname cx) batch)) (\<lambda>_ p1.
          if ps_nonceConsumed p1 then (p1, Inr ())
          else bindS (onServer (consumeServerNonce env (bb_Nonce batch))) (\<lambda>_.
                 updateS (\<lambda>q. q\<lparr>ps_nonceConsumed := True\<rparr>)) p1) p))"

definition checkBatch :: "backup_batch \<Rightarrow> ('z, unit) push" where
  "checkBatch batch p =
     (p, if ValidateUsername (bb_Username batch) \<noteq> None
         then Inl (Status InvalidArgument ''invalid username: %v'')
         else case validateBackupIdentity batch of
           Some e \<Rightarrow> Inl e
         | None \<Rightarrow>
             if ps_username p \<noteq> [] \<and> bb_Username batch \<noteq> ps_username p
             then Inl (Status InvalidArgument ''username changed within stream'')
             else if ps_ruleType p \<noteq> [] \<and> bb_RuleType batch \<noteq> ps_ruleType p
             then Inl (Status InvalidArgument ''rule type changed within stream'')
             else Inr ())"

section \<open>Dataset and quota\<close>

definition zfs_of :: "'z server_env \<Rightarrow> ZFS" where
  "zfs_of env = \<lparr>poolPath = sb_BackupPool (sc_Server (sv_Cfg env))\<rparr>"

definition initDataset :: "'z server_env \<Rightarrow> string \<Rightarrow> string \<Rightarrow> ('z, unit) handler" where
  "initDataset env hostname username =
     (let dsName = dataset_of env hostname username in
      bindS (mapErrS (\<lambda>_. Status Internal ''create dataset: %v'') (onZfs (CreateDataset (sv_exec env) dsName))) (\<lambda>_.
      bindS (mapErrS (\<lambda>_. Status Internal ''mount dataset: %v'')
               (onZfs (EnsureDatasetMounted (zfs_of env) (sv_exec env) dsName))) (\<lambda>_.
      mapErrS (\<lambda>_. Status Internal ''set quota: %v'')
        (onZfs (SetQuota (sv_exec env) dsName (quotaGB (sv_Cfg env) username))))))"

definition firstBatchInit :: "'z server_env \<Rightarrow> request_ctx \<Rightarrow> backup_batch \<Rightarrow> ('z, unit) push" where
  "firstBatchInit env cx batch p =
     (if \<not> ps_firstBatch p then (p, Inr ())
      else onServer (initDataset env (cx_hostname cx) (bb_Username batch))
             (p\<lparr>ps_firstBatch := False, ps_username := bb_Username batch, ps_ruleType := bb_RuleType batch\<rparr>))"

section \<open>Files\<close>

definition upload_put :: "string \<Rightarrow> partial_upload \<Rightarrow> 'z push_state \<Rightarrow> 'z push_state" where
  "upload_put path u p = p\<lparr>ps_partialUploads := AList.update path u (ps_partialUploads p)\<rparr>"

definition openUpload ::
  "'z server_env \<Rightarrow> string \<Rightarrow> file_entry \<Rightarrow> ('z, partial_upload) push" where
  "openUpload env hostname f p =
     (case map_of (ps_partialUploads p) (fe_Path f) of
        Some upload \<Rightarrow> (p, Inr upload)
      | None \<Rightarrow>
          if fe_ChunkOffset f \<noteq> 0 then (p, Inl (Errorf ''first chunk offset is %d, want 0''))
          else bindS (onServer (onTree env (\<lambda>fl tmp. NewChunkWriter fl tmp (sv_mountPoint env) hostname
                         (ps_username p) (fe_Path f)))) (\<lambda>writer.
                 let upload = \<lparr>pu_writer = writer, pu_nextOffset = 0, pu_mode = fe_Mode f\<rparr> in
                 bindS (updateS (upload_put (fe_Path f) upload)) (\<lambda>_. returnS upload)) p)"

definition writeChunk ::
  "'z server_env \<Rightarrow> string \<Rightarrow> file_entry \<Rightarrow> ('z, partial_upload) push" where
  "writeChunk env hostname f =
     bindS (openUpload env hostname f) (\<lambda>upload.
     if fe_ChunkOffset f \<noteq> pu_nextOffset upload then failS (Errorf ''chunk offset is %d, want %d'')
     else if fe_Mode f \<noteq> pu_mode upload then failS (Errorf ''chunk mode changed from %#o to %#o'')
     else bindS (onServer (onTree env (\<lambda>fl tmp. ChunkWriter_Write fl (fe_Content f) (pu_writer upload)))) (\<lambda>_.
       let upload' = upload\<lparr>pu_nextOffset := pu_nextOffset upload + of_nat (length (fe_Content f))\<rparr> in
       bindS (updateS (upload_put (fe_Path f) upload')) (\<lambda>_. returnS upload')))"

text \<open>\<open>Commit\<close> keeps the writer in the map when it fails, so the deferred abort sees it.\<close>

definition commitUpload ::
  "'z server_env \<Rightarrow> file_entry \<Rightarrow> partial_upload \<Rightarrow> ('z, unit) push" where
  "commitUpload env f upload =
     bindS (onServer (onTree env (\<lambda>fl tmp fs.
         case ChunkWriter_Commit fl (fe_Mode f) (pu_writer upload) fs of (fs', w, r) \<Rightarrow> (fs', r)))) (\<lambda>_.
       updateS (\<lambda>p. p\<lparr>ps_partialUploads := AList.delete (fe_Path f) (ps_partialUploads p)\<rparr>))"

definition pushChunk :: "'z server_env \<Rightarrow> string \<Rightarrow> file_entry \<Rightarrow> ('z, unit) push" where
  "pushChunk env hostname f =
     (if fe_Deleted f then failS (Status InvalidArgument ''chunked file may not be a delete marker'')
      else bindS (mapErrS (\<lambda>_. Status Internal ''write chunk %q: %v'') (writeChunk env hostname f)) (\<lambda>upload.
        if fe_FinalChunk f
        then mapErrS (\<lambda>_. Status Internal ''commit chunked file %q: %v'') (commitUpload env f upload)
        else returnS ()))"

text \<open>One file of a batch, with the bytes it adds to the acknowledgement.\<close>

definition pushFile :: "'z server_env \<Rightarrow> string \<Rightarrow> file_entry \<Rightarrow> ('z, nat) push" where
  "pushFile env hostname f p =
     (if fe_Chunked f
      then bindS (pushChunk env hostname f) (\<lambda>_. returnS (length (fe_Content f))) p
      else if map_of (ps_partialUploads p) (fe_Path f) \<noteq> None
      then (p, Inl (Status InvalidArgument ''file %q has an unfinished chunked upload''))
      else if fe_Deleted f
      then bindS (mapErrS (\<lambda>_. Status Internal ''delete %q: %v'')
             (onServer (onTree env (\<lambda>fl tmp. DeleteFile fl (sv_mountPoint env) hostname (ps_username p) (fe_Path f)))))
             (\<lambda>_. returnS 0) p
      else bindS (mapErrS (\<lambda>_. Status Internal ''write %q: %v'')
             (onServer (onTree env (\<lambda>fl tmp. WriteFile fl tmp (sv_mountPoint env) hostname (ps_username p)
                (fe_Path f) (fe_Content f) (fe_Mode f)))))
             (\<lambda>_. returnS (length (fe_Content f))) p)"

fun pushFiles :: "'z server_env \<Rightarrow> string \<Rightarrow> file_entry list \<Rightarrow> 64 word \<Rightarrow> ('z, 64 word) push" where
  "pushFiles env hostname [] written = returnS written"
| "pushFiles env hostname (f # fs) written =
     bindS (pushFile env hostname f) (\<lambda>n. pushFiles env hostname fs (written + of_nat n))"

section \<open>The stream\<close>

definition pushBatch ::
  "'z server_env \<Rightarrow> request_ctx \<Rightarrow> backup_batch \<Rightarrow> error option \<Rightarrow> ('z, unit) push" where
  "pushBatch env cx batch sendErr =
     bindS (checkBatch batch) (\<lambda>_.
     bindS (authBatch env cx batch) (\<lambda>_.
     bindS (firstBatchInit env cx batch) (\<lambda>_.
     bindS (pushFiles env (cx_hostname cx) (bb_Files batch) 0) (\<lambda>written.
     bindS (checkS sendErr) (\<lambda>_.
       updateS (\<lambda>p. p\<lparr>ps_acks := ps_acks p @
         [\<lparr>ba_BatchId = bb_BatchId batch, ba_Status = ''OK'', ba_WrittenBytes = written\<rparr>]\<rparr>))))))"

definition pushTurn :: "'z server_env \<Rightarrow> request_ctx \<Rightarrow> push_turn \<Rightarrow> ('z, unit) push" where
  "pushTurn env cx t =
     (case pt_ctx t of
        Some e \<Rightarrow> failS (FromContextError e)
      | None \<Rightarrow>
          (case pt_recv t of
             Inl e \<Rightarrow> failS e
           | Inr batch \<Rightarrow> pushBatch env cx batch (pt_send t)))"

text \<open>After \<open>io.EOF\<close>: the recovery snapshot, then the retention.\<close>

definition completeBackup ::
  "'z server_env \<Rightarrow> request_ctx \<Rightarrow> string \<Rightarrow> ctx_err option \<Rightarrow> ('z, unit) push" where
  "completeBackup env cx stamp ctx p =
     (if ps_partialUploads p \<noteq> []
      then (p, Inl (Status InvalidArgument ''backup stream ended with incomplete chunked upload''))
      else if ps_username p = [] then (p, Inr ())
      else case ctx of
        Some e \<Rightarrow> (p, Inl (FromContextError e))
      | None \<Rightarrow>
          (let dsName = dataset_of env (cx_hostname cx) (ps_username p);
               pol = sc_SnapshotPolicy (sv_Cfg env) in
           onServer (onZfs (
             bindS (mapErrS (\<lambda>_. Status Internal ''create recovery snapshot %q: %v'')
                      (CreateSnapshot (sv_exec env) stamp dsName)) (\<lambda>snapName.
             mapErrS (\<lambda>_. Status Internal ''clean up recovery snapshots %q: %v'')
               (CleanupSnapshots (sv_exec env) dsName (sp_MinSnapshots pol) (sp_MaxSnapshots pol)
                  (sp_MinFreeGB pol))))) p))"

text \<open>The deferred function: whatever is still staged is aborted, on every return.\<close>

definition abortUploads :: "'z server_env \<Rightarrow> 'z push_state \<Rightarrow> 'z server_state" where
  "abortUploads env p =
     fold (\<lambda>(path, u) s. s\<lparr>ss_tree := ChunkWriter_Abort (sv_fs env (ss_tick s)) (pu_writer u) (ss_tree s),
                            ss_tick := Suc (ss_tick s)\<rparr>)
       (ps_partialUploads p) (ps_server p)"

definition PushBackup ::
  "'z server_env \<Rightarrow> request_ctx \<Rightarrow> string \<Rightarrow> ctx_err option \<Rightarrow> push_turn list \<Rightarrow> 'z server_state \<Rightarrow>
   'z server_state \<times> batch_ack list \<times> unit result" where
  "PushBackup env cx stamp ctx turns s =
     (case bindS (foldS (pushTurn env cx) turns) (\<lambda>_. completeBackup env cx stamp ctx) (push_start s) of
        (p, r) \<Rightarrow> (abortUploads env p, ps_acks p, r))"

section \<open>What the receiver's calls leave alone\<close>

text \<open>
  \<open>outside P t0 t\<close>: no regular file at a place outside \<open>P\<close> differs between the two trees.
  \<open>places P m h u tmp rel\<close>: what the receiver touches for the path \<open>rel\<close> is in \<open>P\<close>.
\<close>

definition outside :: "(string list \<Rightarrow> bool) \<Rightarrow> tree \<Rightarrow> tree \<Rightarrow> bool" where
  "outside P t0 t \<longleftrightarrow> (\<forall>q. \<not> P q \<longrightarrow> file_at q t = file_at q t0)"

definition places :: "(string list \<Rightarrow> bool) \<Rightarrow> string \<Rightarrow> string \<Rightarrow> string \<Rightarrow> string \<Rightarrow> string \<Rightarrow> bool" where
  "places P m h u tmp rel \<longleftrightarrow>
     (\<forall>target. targetPath m h u rel = Inr target \<longrightarrow>
        P (abs_comps target) \<and> P (abs_comps (Dir target) @ [tmp]))"

lemma outside_refl [simp]: "outside P t t"
  by (simp add: outside_def)

lemma outside_step:
  "outside P t0 t \<Longrightarrow> (\<And>q. \<not> P q \<Longrightarrow> file_at q t' = file_at q t) \<Longrightarrow> outside P t0 t'"
  by (simp add: outside_def)

lemma append_file_other: "q \<noteq> p \<Longrightarrow> file_at q (append_file p d t) = file_at q t"
  by (simp add: file_at_def append_file_get)

lemma chmod_file_other: "q \<noteq> p \<Longrightarrow> file_at q (chmod_file p m t) = file_at q t"
  by (simp add: file_at_def chmod_file_get)

lemma cleanup_tmp_other: "q \<noteq> p \<Longrightarrow> file_at q (cleanup_tmp fl p t) = file_at q t"
  by (simp add: file_at_def cleanup_tmp_get)

lemma rename_file_other:
  "rename_file fl p p' t = Inr t' \<Longrightarrow> q \<noteq> p \<Longrightarrow> q \<noteq> p' \<Longrightarrow> file_at q t' = file_at q t"
  by (auto simp: rename_file_def file_at_put file_at_del split: if_splits option.splits)

lemma create_temp_other:
  "create_temp fl dir n t = Inr t' \<Longrightarrow> q \<noteq> dir @ [n] \<Longrightarrow> file_at q t' = file_at q t"
  by (simp add: create_temp_files(1))

lemmas file_other = append_file_other chmod_file_other cleanup_tmp_other rename_file_other
  create_temp_other mkdir_all_files

text \<open>The target and the staging file of an accepted path are below the dataset.\<close>

lemma target_places:
  assumes "dataset_owner m h u" "targetPath m h u rel = Inr target"
  shows "prefix (dataset_comps m h u) (abs_comps target)"
    and "prefix (dataset_comps m h u) (abs_comps (Dir target) @ [tmp])"
proof -
  let ?D = "dataset_comps m h u"
  note t = targetPath_below [OF assms]
  have n: "normals (?D @ rel_comps rel)" using t dataset_base(2) [OF assms(1)] by simp
  then show "prefix ?D (abs_comps target)" using t by simp
  obtain ns w where r: "rel_comps rel = ns @ [w]" using t by (cases "rel_comps rel" rule: rev_cases) auto
  then have nn: "normals (?D @ ns)" "normal w" using n by auto
  have "Dir target = abs_path (?D @ ns)" using t r Dir_abs_path [of "?D @ ns" w] nn by simp
  then show "prefix ?D (abs_comps (Dir target) @ [tmp])" using nn by simp
qed

lemma places_dataset: "dataset_owner m h u \<Longrightarrow> places (prefix (dataset_comps m h u)) m h u tmp rel"
  using target_places by (simp add: places_def)

lemma WriteFile_outside:
  assumes "places P m h u tmp rel" "WriteFile fl tmp m h u rel content mode t = (t', r)"
    and "\<not> P q"
  shows "file_at q t' = file_at q t"
proof (cases "targetPath m h u rel")
  case (Inl e)
  then show ?thesis using assms(2) by (simp add: WriteFile_def)
next
  case (Inr target)
  have q: "q \<noteq> abs_comps target" "q \<noteq> abs_comps (Dir target) @ [tmp]"
    using assms(1,3) Inr by (auto simp: places_def)
  show ?thesis
    using assms(2) q by (auto simp: WriteFile_def Inr Let_def file_other split: sum.splits if_splits)
qed

lemma DeleteFile_outside:
  assumes "places P m h u tmp rel" "DeleteFile fl m h u rel t = (t', r)"
    and "\<not> P q"
  shows "file_at q t' = file_at q t"
proof -
  have "\<forall>target. targetPath m h u rel = Inr target \<longrightarrow> q \<noteq> abs_comps target"
    using assms(1,3) by (auto simp: places_def)
  from DeleteFile_files(2) [OF assms(2) this] show ?thesis by (simp add: file_at_def)
qed

definition writer_in :: "(string list \<Rightarrow> bool) \<Rightarrow> chunk_writer \<Rightarrow> bool" where
  "writer_in P w \<longleftrightarrow> P (cw_target w) \<and> P (cw_tmp w)"

lemma NewChunkWriter_outside:
  assumes "places P m h u tmp rel" "NewChunkWriter fl tmp m h u rel t = (t', r)"
  shows "\<not> P q \<Longrightarrow> file_at q t' = file_at q t"
    and "r = Inr w \<Longrightarrow> writer_in P w"
proof -
  assume q: "\<not> P q"
  then have "q \<noteq> abs_comps (Dir target) @ [tmp]" if "targetPath m h u rel = Inr target" for target
    using assms(1) that by (auto simp: places_def)
  then show "file_at q t' = file_at q t"
    using assms(2) by (auto simp: NewChunkWriter_def Let_def file_other split: sum.splits)
next
  show "r = Inr w \<Longrightarrow> writer_in P w"
    using assms by (auto simp: NewChunkWriter_def Let_def writer_in_def places_def split: sum.splits)
qed

lemma ChunkWriter_outside:
  assumes "writer_in P w" "\<not> P q"
  shows "file_at q (fst (ChunkWriter_Write fl c w t)) = file_at q t"
    and "file_at q (fst (ChunkWriter_Commit fl m w t)) = file_at q t"
    and "file_at q (ChunkWriter_Abort fl w t) = file_at q t"
proof -
  have "q \<noteq> cw_tmp w" "q \<noteq> cw_target w" using assms by (auto simp: writer_in_def)
  then show "file_at q (fst (ChunkWriter_Write fl c w t)) = file_at q t"
    and "file_at q (fst (ChunkWriter_Commit fl m w t)) = file_at q t"
    and "file_at q (ChunkWriter_Abort fl w t) = file_at q t"
    by (auto simp: ChunkWriter_Write_def ChunkWriter_Commit_def ChunkWriter_Abort_def Let_def
        file_other split: sum.splits)
qed

section \<open>The dataset of the stream\<close>

text \<open>
  After the first batch the stream is bound to one user: everything staged is in \<open>P\<close>, and
  nothing outside it has changed. With \<open>P\<close> the places below the user's dataset this confines
  the stream; with \<open>P\<close> all places but one it says that this one keeps its content.
\<close>

definition push_inv :: "(string list \<Rightarrow> bool) \<Rightarrow> string \<Rightarrow> tree \<Rightarrow> 'z push_state \<Rightarrow> bool" where
  "push_inv P u t0 p \<longleftrightarrow>
     \<not> ps_firstBatch p \<and> ps_username p = u \<and>
     (\<forall>x \<in> set (ps_partialUploads p). writer_in P (pu_writer (snd x))) \<and>
     outside P t0 (ss_tree (ps_server p))"

definition allowed :: "(string list \<Rightarrow> bool) \<Rightarrow> 'z server_env \<Rightarrow> string \<Rightarrow> string \<Rightarrow> string \<Rightarrow> bool" where
  "allowed P env h u rel \<longleftrightarrow> (\<forall>n. places P (sv_mountPoint env) h u (sv_tmps env n) rel)"

lemma allowed_dataset:
  "dataset_owner (sv_mountPoint env) h u \<Longrightarrow> allowed (prefix (dataset_comps (sv_mountPoint env) h u)) env h u rel"
  by (simp add: allowed_def places_dataset)

lemma allowedD: "allowed P env h u rel \<Longrightarrow> places P (sv_mountPoint env) h u (sv_tmps env n) rel"
  by (simp add: allowed_def)

abbreviation tree_kept :: "(string list \<Rightarrow> bool) \<Rightarrow> tree \<Rightarrow> 'z server_state \<Rightarrow> bool" where
  "tree_kept P t0 s \<equiv> outside P t0 (ss_tree s)"

lemma onServer_keeps:
  assumes "keeps (tree_kept P t0) m"
  shows "keeps (push_inv P u t0) (onServer m)"
  using assms by (auto simp: keeps_def onServer_def push_inv_def split: prod.splits)

lemma onTree_keeps:
  fixes env :: "'z server_env"
  assumes "\<And>fl n t t' r q. m fl (sv_tmps env n) t = (t', r) \<Longrightarrow> \<not> P q \<Longrightarrow> file_at q t' = file_at q t"
  shows "keeps (tree_kept P t0) (onTree env m)"
proof (rule keepsI)
  fix s :: "'z server_state" assume o: "tree_kept P t0 s"
  obtain t' r where m: "m (sv_fs env (ss_tick s)) (sv_tmps env (ss_tick s)) (ss_tree s) = (t', r)"
    by force
  show "tree_kept P t0 (fst (onTree env m s))"
    using outside_step [OF o assms [OF m]] m by (simp add: onTree_def)
qed

lemma onZfs_keeps [keeps_intros]: "keeps (tree_kept P t0) (onZfs m)"
  by (simp add: keeps_def onZfs_def case_prod_unfold)

lemma log_keeps [keeps_intros]:
  "keeps (tree_kept P t0) (logLine env l)"
  "keeps (tree_kept P t0) (LogAuthDecision env m h u uid d)"
  "keeps (tree_kept P t0) (consumeServerNonce env n)"
  by (auto intro: logLine_keeps LogAuthDecision_keeps consumeServerNonce_keeps)

lemma verifyBatchSignature_state: "fst (verifyBatchSignature env h b s) = s"
  by (auto simp: verifyBatchSignature_def verifyTaskKeySignature_def Let_def split: option.split sum.split)

lemma verifyBatchSignature_keeps [keeps_intros]: "keeps P (verifyBatchSignature env h b)"
  by (simp add: keeps_def verifyBatchSignature_state)

lemma updateS_keeps: "(\<And>s. P s \<Longrightarrow> P (f s)) \<Longrightarrow> keeps P (updateS f)"
  by (simp add: keeps_def updateS_def)

text \<open>
  Authorising a batch touches the log, the nonces and the variables of the decision, nothing
  else.
\<close>

lemma onServer_bind: "onServer (bindS m f) = bindS (onServer m) (\<lambda>x. onServer (f x))"
  by (auto simp: fun_eq_iff onServer_def bindS_def split: prod.split sum.split)

lemma onServer_simple [simp]: "onServer (failS e) = failS e" "onServer (returnS x) = returnS x"
  by (simp_all add: fun_eq_iff onServer_def step_defs)

definition auth_stable :: "('z push_state \<Rightarrow> bool) \<Rightarrow> bool" where
  "auth_stable P \<longleftrightarrow> (\<forall>p. P p \<longrightarrow>
     (\<forall>l. P (p\<lparr>ps_server := (ps_server p)\<lparr>ss_log := l\<rparr>\<rparr>)) \<and>
     (\<forall>t. P (p\<lparr>ps_server := (ps_server p)\<lparr>ss_nonces := t\<rparr>\<rparr>)) \<and>
     (\<forall>d. P (p\<lparr>ps_authDecisionChecked := True, ps_authDecision := d\<rparr>)) \<and>
     P (p\<lparr>ps_nonceConsumed := True\<rparr>))"

lemma auth_stable_steps:
  assumes "auth_stable P"
  shows "keeps P (onServer (logLine env l))"
    and "keeps P (onServer (LogAuthDecision env m h u uid d))"
    and "keeps P (onServer (consumeServerNonce env n))"
    and "keeps P (onServer (verifyBatchSignature env h b))"
    and "keeps P (updateS (\<lambda>q. q\<lparr>ps_nonceConsumed := True\<rparr>))"
proof -
  have l: "P (fst (onServer m' p))" if "\<exists>l. m' (ps_server p) = ((ps_server p)\<lparr>ss_log := l\<rparr>, Inr ())" "P p"
    for m' :: "('a, unit) handler" and p
    using that assms by (auto simp: onServer_def auth_stable_def)
  show "keeps P (onServer (logLine env l))"
    "keeps P (onServer (LogAuthDecision env m h u uid d))"
    by (auto simp: keeps_def intro!: l logLine_ok LogAuthDecision_ok)
  show "keeps P (onServer (consumeServerNonce env n))" "keeps P (updateS (\<lambda>q. q\<lparr>ps_nonceConsumed := True\<rparr>))"
    using assms by (auto simp: keeps_def onServer_def consumeServerNonce_def auth_stable_def updateS_def
        split: prod.splits)
  have "onServer (verifyBatchSignature env h b) p = (p, snd (verifyBatchSignature env h b (ps_server p)))" for p
    using verifyBatchSignature_state [of env h b "ps_server p"] by (simp add: onServer_def case_prod_unfold)
  then show "keeps P (onServer (verifyBatchSignature env h b))" by (simp add: keeps_def)
qed

lemma decideOnce_keeps:
  fixes env :: "'z server_env"
  assumes "auth_stable P"
  shows "keeps P (decideOnce env cx b)"
proof (rule keepsI)
  fix p :: "'z push_state" assume p: "P p"
  obtain d e where d: "DecideAuth (sv_Cfg env) (cx_hostname cx) (cx_uid cx) (bb_Username b) (cx_groups cx) push_method = (d, e)"
    by force
  define p1 where "p1 = p\<lparr>ps_authDecisionChecked := True, ps_authDecision := d\<rparr>"
  have p1: "P p1" using p assms by (simp add: auth_stable_def p1_def)
  have k: "P (fst (m p1))" if "keeps P m" for m :: "('z, unit) push"
    using that p1 unfolding keeps_def by blast
  show "P (fst (decideOnce env cx b p))"
    using p d
    by (auto simp: decideOnce_def Let_def p1_def [symmetric] onServer_bind split: option.split
        intro!: k keeps_intros auth_stable_steps [OF assms])
qed

lemma authBatch_keeps:
  fixes env :: "'z server_env"
  assumes "auth_stable P"
  shows "keeps P (authBatch env cx b)"
proof -
  note steps = auth_stable_steps [OF assms]
  have c: "keeps P (bindS (onServer (consumeServerNonce env (bb_Nonce b)))
        (\<lambda>_. updateS (\<lambda>q. q\<lparr>ps_nonceConsumed := True\<rparr>)))"
    by (intro keeps_bind steps)
  have n: "keeps P (\<lambda>p1. if ps_nonceConsumed p1 then (p1, Inr ())
        else bindS (onServer (consumeServerNonce env (bb_Nonce b)))
              (\<lambda>_. updateS (\<lambda>q. q\<lparr>ps_nonceConsumed := True\<rparr>)) p1)"
    using c by (simp add: keeps_def)
  have v: "keeps P (bindS (onServer (verifyBatchSignature env (cx_hostname cx) b))
        (\<lambda>_ p1. if ps_nonceConsumed p1 then (p1, Inr ())
           else bindS (onServer (consumeServerNonce env (bb_Nonce b)))
              (\<lambda>_. updateS (\<lambda>q. q\<lparr>ps_nonceConsumed := True\<rparr>)) p1))"
    by (intro keeps_bind steps n)
  have w: "keeps P (\<lambda>p. if ps_authDecision p \<noteq> DecisionRequireSig then (p, Inr ())
        else bindS (onServer (verifyBatchSignature env (cx_hostname cx) b))
        (\<lambda>_ p1. if ps_nonceConsumed p1 then (p1, Inr ())
           else bindS (onServer (consumeServerNonce env (bb_Nonce b)))
              (\<lambda>_. updateS (\<lambda>q. q\<lparr>ps_nonceConsumed := True\<rparr>)) p1) p)"
    using v by (simp add: keeps_def)
  show ?thesis
    unfolding authBatch_def by (intro keeps_if keeps_return keeps_bind decideOnce_keeps w assms)
qed

lemma push_inv_auth_stable: "auth_stable (push_inv P u t0)"
  by (simp add: auth_stable_def push_inv_def)

lemma map_of_upload: "map_of ups path = Some u \<Longrightarrow> \<exists>x \<in> set ups. snd x = u"
  by (force dest: map_of_SomeD)

lemma upload_put_inv:
  assumes "push_inv P u t0 p" "writer_in P (pu_writer up)"
  shows "push_inv P u t0 (upload_put path up p)"
proof -
  have "snd x = up \<or> x \<in> set ups" if "x \<in> set (AList.update path up ups)" for x and ups :: "(string \<times> partial_upload) list"
    using that by (induction ups) (auto split: if_splits)
  then show ?thesis using assms by (fastforce simp: push_inv_def upload_put_def)
qed

lemma onServer_eq: "onServer m p = (p', r) \<longleftrightarrow> (\<exists>s. m (ps_server p) = (s, r) \<and> p' = p\<lparr>ps_server := s\<rparr>)"
  by (auto simp: onServer_def split: prod.splits)

lemma onTree_eq: "onTree env m s = (s', r) \<longleftrightarrow>
    (\<exists>t. m (sv_fs env (ss_tick s)) (sv_tmps env (ss_tick s)) (ss_tree s) = (t, r) \<and>
         s' = s\<lparr>ss_tree := t, ss_tick := Suc (ss_tick s)\<rparr>)"
  by (auto simp: onTree_def split: prod.splits)

lemma openUpload_inv:
  assumes o: "allowed P env h u (fe_Path f)" and p: "push_inv P u t0 p"
    and r: "openUpload env h f p = (p', r)"
  shows "push_inv P u t0 p' \<and>
    (\<forall>up. r = Inr up \<longrightarrow> writer_in P (pu_writer up))"
proof (cases "map_of (ps_partialUploads p) (fe_Path f)")
  case (Some up)
  then show ?thesis using r p map_of_upload [OF Some] by (auto simp: openUpload_def push_inv_def)
next
  case None
  let ?new = "onTree env (\<lambda>fl tmp. NewChunkWriter fl tmp (sv_mountPoint env) h (ps_username p) (fe_Path f))"
  have u: "ps_username p = u" using p by (simp add: push_inv_def)
  show ?thesis
  proof (cases "fe_ChunkOffset f = 0")
    case False
    then show ?thesis using r p None by (auto simp: openUpload_def)
  next
    case True
    obtain p1 r1 where n: "onServer ?new p = (p1, r1)" by force
    have "keeps (tree_kept P t0) ?new"
      unfolding u by (rule onTree_keeps) (rule NewChunkWriter_outside(1) [OF allowedD [OF o]])
    then have p1: "push_inv P u t0 p1" using keepsD [OF onServer_keeps n] p by blast
    have w: "writer_in P w" if "r1 = Inr w" for w
      using n that NewChunkWriter_outside(2) [OF allowedD [OF o]] by (auto simp: onServer_eq onTree_eq u)
    show ?thesis
      using r None True n p1 w upload_put_inv [OF p1]
      by (cases r1) (auto simp: openUpload_def bindS_def updateS_def returnS_def Let_def)
  qed
qed

lemma writeChunk_inv:
  assumes o: "allowed P env h u (fe_Path f)" and p: "push_inv P u t0 p"
    and r: "writeChunk env h f p = (p', r)"
  shows "push_inv P u t0 p' \<and>
    (\<forall>up. r = Inr up \<longrightarrow> writer_in P (pu_writer up))"
proof -
  obtain p1 r1 where op: "openUpload env h f p = (p1, r1)" by force
  note inv1 = openUpload_inv [OF o p op]
  show ?thesis
  proof (cases "\<exists>up. r1 = Inr up \<and> fe_ChunkOffset f = pu_nextOffset up \<and> fe_Mode f = pu_mode up")
    case False
    then show ?thesis using r inv1 op by (auto simp: writeChunk_def step_defs split: sum.splits if_splits)
  next
    case True
    then obtain up where up: "r1 = Inr up" "fe_ChunkOffset f = pu_nextOffset up" "fe_Mode f = pu_mode up"
      by blast
    let ?wr = "onTree env (\<lambda>fl tmp. ChunkWriter_Write fl (fe_Content f) (pu_writer up))"
    obtain p2 r2 where n: "onServer ?wr p1 = (p2, r2)" by force
    have w: "writer_in P (pu_writer up)" using inv1 up by simp
    have "keeps (tree_kept P t0) ?wr"
      by (rule onTree_keeps) (metis ChunkWriter_outside(1) [OF w] fst_conv)
    then have p2: "push_inv P u t0 p2" using keepsD [OF onServer_keeps n] inv1 by blast
    show ?thesis
      using r op up n p2 w upload_put_inv [OF p2]
      by (cases r2) (auto simp: writeChunk_def bindS_def updateS_def returnS_def Let_def)
  qed
qed

lemma keeps_iff: "keeps P m \<longleftrightarrow> (\<forall>s s' r. P s \<longrightarrow> m s = (s', r) \<longrightarrow> P s')"
  by (metis keeps_def fst_conv prod.collapse)

lemma commitUpload_keeps:
  assumes "writer_in P (pu_writer up)"
  shows "keeps (push_inv P u t0) (commitUpload env f up)"
proof -
  let ?c = "\<lambda>fl tmp fs. case ChunkWriter_Commit fl (fe_Mode f) (pu_writer up) fs of (fs', w, r) \<Rightarrow> (fs', r)"
  have "keeps (tree_kept P t0) (onTree env ?c)"
  proof (rule onTree_keeps)
    fix fl n t t' r q
    assume c: "?c fl (sv_tmps env n) t = (t', r)" and q: "\<not> P q"
    have "t' = fst (ChunkWriter_Commit fl (fe_Mode f) (pu_writer up) t)"
      using c by (auto split: prod.splits)
    then show "file_at q t' = file_at q t" using ChunkWriter_outside(2) [OF assms q] by simp
  qed
  moreover have "keeps (push_inv P u t0) (updateS (\<lambda>p. p\<lparr>ps_partialUploads := AList.delete (fe_Path f) (ps_partialUploads p)\<rparr>))"
    by (rule updateS_keeps) (auto simp: push_inv_def AList.delete_eq)
  ultimately show ?thesis
    unfolding commitUpload_def by (intro keeps_bind onServer_keeps)
qed

lemma pushChunk_keeps:
  assumes o: "allowed P env h u (fe_Path f)"
  shows "keeps (push_inv P u t0) (pushChunk env h f)"
  unfolding keeps_iff
proof (intro allI impI)
  fix p p' r assume p: "push_inv P u t0 p" and r: "pushChunk env h f p = (p', r)"
  obtain p1 r1 where w: "writeChunk env h f p = (p1, r1)" by force
  note inv1 = writeChunk_inv [OF o p w]
  show "push_inv P u t0 p'"
  proof (cases "\<exists>up. r1 = Inr up \<and> \<not> fe_Deleted f \<and> fe_FinalChunk f")
    case False
    then show ?thesis using r w inv1 p
      by (cases r1) (auto simp: pushChunk_def step_defs split: if_splits)
  next
    case True
    then obtain up where up: "r1 = Inr up" "\<not> fe_Deleted f" "fe_FinalChunk f" by blast
    have m: "bindS (mapErrS g (writeChunk env h f)) k p = k up p1" for g k
      using w up by (simp add: bindS_def mapErrS_def)
    have k: "keeps (push_inv P u t0) (mapErrS g (commitUpload env f up))" for g
      using inv1 up by (intro keeps_intros commitUpload_keeps) simp
    show ?thesis
      using r up keepsD [OF k _ conjunct1 [OF inv1]]
      by (simp add: pushChunk_def m)
  qed
qed

lemma pushFile_keeps:
  assumes o: "allowed P env h u (fe_Path f)"
  shows "keeps (push_inv P u t0) (pushFile env h f)"
  unfolding keeps_iff
proof (intro allI impI)
  fix p p' r assume p: "push_inv P u t0 p" and r: "pushFile env h f p = (p', r)"
  have u: "ps_username p = u" using p by (simp add: push_inv_def)
  have k: "push_inv P u t0 p'" if "keeps (push_inv P u t0) m" "m p = (p', r)" for m :: "('a, nat) push"
    using keepsD [OF that p] .
  have c: "keeps (push_inv P u t0) (bindS (pushChunk env h f) (\<lambda>_. returnS (length (fe_Content f))))"
    by (intro keeps_intros pushChunk_keeps o)
  have d: "keeps (push_inv P u t0) (bindS (mapErrS g
             (onServer (onTree env (\<lambda>fl tmp. DeleteFile fl (sv_mountPoint env) h u (fe_Path f)))))
             (\<lambda>_. returnS (0::nat)))" for g
    by (intro keeps_intros onServer_keeps onTree_keeps DeleteFile_outside [OF allowedD [OF o]])
  have w: "keeps (push_inv P u t0) (bindS (mapErrS g
             (onServer (onTree env (\<lambda>fl tmp. WriteFile fl tmp (sv_mountPoint env) h u
                (fe_Path f) (fe_Content f) (fe_Mode f)))))
             (\<lambda>_. returnS (length (fe_Content f))))" for g
    by (intro keeps_intros onServer_keeps onTree_keeps WriteFile_outside [OF allowedD [OF o]])
  show "push_inv P u t0 p'"
  proof (cases "fe_Chunked f")
    case True
    then show ?thesis using r k [OF c] by (simp add: pushFile_def)
  next
    case nc: False
    show ?thesis
    proof (cases "map_of (ps_partialUploads p) (fe_Path f) \<noteq> None")
      case True
      then show ?thesis using r nc p by (simp add: pushFile_def)
    next
      case False
      then show ?thesis
        using r nc k [OF d] k [OF w] by (cases "fe_Deleted f") (simp_all add: pushFile_def u)
    qed
  qed
qed

lemma pushFiles_keeps:
  "\<forall>f \<in> set fs. allowed P env h u (fe_Path f) \<Longrightarrow> keeps (push_inv P u t0) (pushFiles env h fs n)"
  by (induction fs arbitrary: n) (auto intro!: keeps_intros pushFile_keeps)

lemma checkBatch_state: "checkBatch b p = (p', r) \<Longrightarrow> p' = p"
  by (simp add: checkBatch_def)

lemma checkBatch_ok:
  "checkBatch b p = (p', Inr ()) \<Longrightarrow>
     usernameRe (bb_Username b) \<and> validateBackupIdentity b = None \<and>
     (ps_username p = [] \<or> bb_Username b = ps_username p) \<and>
     (ps_ruleType p = [] \<or> bb_RuleType b = ps_ruleType p)"
  by (auto simp: checkBatch_def split: if_splits option.splits)

text \<open>Writing the files of a batch and acknowledging it, once the stream has its user.\<close>

definition batchFiles :: "'z server_env \<Rightarrow> request_ctx \<Rightarrow> backup_batch \<Rightarrow> error option \<Rightarrow> ('z, unit) push" where
  "batchFiles env cx batch sendErr =
     bindS (pushFiles env (cx_hostname cx) (bb_Files batch) 0) (\<lambda>written.
     bindS (checkS sendErr) (\<lambda>_.
       updateS (\<lambda>p. p\<lparr>ps_acks := ps_acks p @
         [\<lparr>ba_BatchId = bb_BatchId batch, ba_Status = ''OK'', ba_WrittenBytes = written\<rparr>]\<rparr>)))"

lemma pushBatch_files:
  "pushBatch env cx b e = bindS (checkBatch b) (\<lambda>_. bindS (authBatch env cx b) (\<lambda>_.
     bindS (firstBatchInit env cx b) (\<lambda>_. batchFiles env cx b e)))"
  by (simp add: pushBatch_def batchFiles_def)

lemma batchFiles_keeps:
  assumes "\<forall>f \<in> set (bb_Files b). allowed P env (cx_hostname cx) u (fe_Path f)"
  shows "keeps (push_inv P u t0) (batchFiles env cx b e)"
  unfolding batchFiles_def
  by (intro keeps_intros pushFiles_keeps assms updateS_keeps) (simp add: push_inv_def)

lemma initDataset_keeps: "keeps (tree_kept P t0) (initDataset env h u)"
  unfolding initDataset_def Let_def by (intro keeps_intros)

lemma firstBatchInit_keeps: "keeps (push_inv P u t0) (firstBatchInit env cx b)"
  unfolding keeps_iff by (auto simp: firstBatchInit_def push_inv_def)

text \<open>After the start of a stream the first batch fixes the user.\<close>

lemma firstBatchInit_first:
  assumes "ps_firstBatch p" "ps_partialUploads p = []" "ss_tree (ps_server p) = t0"
    and "firstBatchInit env cx b p = (p', r)"
  shows "push_inv P (bb_Username b) t0 p'"
proof -
  let ?p1 = "p\<lparr>ps_firstBatch := False, ps_username := bb_Username b, ps_ruleType := bb_RuleType b\<rparr>"
  have "push_inv P (bb_Username b) t0 ?p1"
    using assms(2,3) by (simp add: push_inv_def)
  moreover have "onServer (initDataset env (cx_hostname cx) (bb_Username b)) ?p1 = (p', r)"
    using assms(1,4) by (simp add: firstBatchInit_def)
  ultimately show ?thesis using keepsD [OF onServer_keeps [OF initDataset_keeps]] by blast
qed

lemma pushTurn_keeps:
  assumes o: "\<And>b f. pt_recv t = Inr b \<Longrightarrow> f \<in> set (bb_Files b) \<Longrightarrow> allowed P env (cx_hostname cx) u (fe_Path f)"
  shows "keeps (push_inv P u t0) (pushTurn env cx t)"
proof -
  have c: "keeps (push_inv P u t0) (checkBatch b)" for b
    by (auto simp: keeps_iff dest: checkBatch_state)
  have "keeps (push_inv P u t0) (pushBatch env cx b e)" if "pt_recv t = Inr b" for b e
    unfolding pushBatch_files
    using o [OF that] by (intro keeps_bind c authBatch_keeps push_inv_auth_stable firstBatchInit_keeps batchFiles_keeps) blast
  then show ?thesis by (auto simp: pushTurn_def intro!: keeps_intros split: option.split sum.split)
qed

section \<open>Which streams may write\<close>

text \<open>What the first batch of a stream must have shown before anything is written.\<close>

definition batch_authorised :: "'z server_env \<Rightarrow> request_ctx \<Rightarrow> 'z server_state \<Rightarrow> backup_batch \<Rightarrow> bool" where
  "batch_authorised env cx s b \<longleftrightarrow>
     usernameRe (bb_Username b) \<and>
     (bb_RuleType b = ''machine'' \<and> bb_Username b = ''_machine'' \<or>
      bb_RuleType b = ''user'' \<and> bb_Username b \<noteq> ''_machine'' \<and>
      (let d = fst (DecideAuth (sv_Cfg env) (cx_hostname cx) (cx_uid cx) (bb_Username b) (cx_groups cx) push_method)
       in d = DecisionAllow \<or>
          d = DecisionRequireSig \<and> snd (verifyBatchSignature env (cx_hostname cx) b s) = Inr () \<and>
          snd (ConsumeNonce (sv_db env) (sv_now env) (hex_encode (bb_Nonce b)) (ss_nonces s)) = Inr True))"

lemma identity_cases:
  "validateBackupIdentity b = None \<longleftrightarrow>
     bb_RuleType b = ''user'' \<and> bb_Username b \<noteq> ''_machine'' \<or>
     bb_RuleType b = ''machine'' \<and> bb_Username b = ''_machine'' \<and> bb_Nonce b = [] \<and> bb_Signature b = []"
  by (auto simp: validateBackupIdentity_def)

lemma verifyBatchSignature_log:
  "snd (verifyBatchSignature env h b (s\<lparr>ss_log := l\<rparr>)) = snd (verifyBatchSignature env h b s)"
  by (simp add: verifyBatchSignature_def verifyTaskKeySignature_def Let_def split: option.split sum.split)

text \<open>The decision of a stream on its first user batch.\<close>

lemma decideOnce_first:
  assumes "\<not> ps_authDecisionChecked p" "decideOnce env cx b p = (p', Inr ())"
  obtains d l where "fst (DecideAuth (sv_Cfg env) (cx_hostname cx) (cx_uid cx) (bb_Username b) (cx_groups cx) push_method) = d"
    "d \<noteq> DecisionDeny"
    "p' = p\<lparr>ps_authDecisionChecked := True, ps_authDecision := d, ps_server := (ps_server p)\<lparr>ss_log := l\<rparr>\<rparr>"
proof -
  obtain d e where d: "DecideAuth (sv_Cfg env) (cx_hostname cx) (cx_uid cx) (bb_Username b) (cx_groups cx) push_method = (d, e)"
    by force
  obtain l where l: "LogAuthDecision env push_method (cx_hostname cx) (bb_Username b) (cx_uid cx) d (ps_server p) =
      ((ps_server p)\<lparr>ss_log := l\<rparr>, Inr ())" using LogAuthDecision_ok by blast
  have n: "e = None"
  proof (cases e)
    case (Some err)
    then show ?thesis using assms d
      by (auto simp: decideOnce_def Let_def onServer_bind bindS_eq_Inr result_simps)
  qed simp
  have "d \<noteq> DecisionDeny"
    using assms d n by (auto simp: decideOnce_def Let_def onServer_bind bindS_eq_Inr result_simps)
  then show thesis
    using assms d n l that [of d l]
    by (simp add: decideOnce_def Let_def onServer_bind bindS_def onServer_def returnS_def)
qed

lemma authBatch_first:
  assumes c: "checkBatch b (push_start s) = (p0, Inr ())"
    and a: "authBatch env cx b (push_start s) = (p', Inr ())"
  shows "batch_authorised env cx s b"
proof -
  from checkBatch_ok [OF c] have b: "usernameRe (bb_Username b)" "validateBackupIdentity b = None" by auto
  show ?thesis
  proof (cases "bb_RuleType b = ''user''")
    case False
    then show ?thesis using b by (auto simp: batch_authorised_def identity_cases)
  next
    case True
    from a True obtain p1 where p1: "decideOnce env cx b (push_start s) = (p1, Inr ())"
      "(\<lambda>p. if ps_authDecision p \<noteq> DecisionRequireSig then (p, Inr ())
        else bindS (onServer (verifyBatchSignature env (cx_hostname cx) b)) (\<lambda>_ p1.
          if ps_nonceConsumed p1 then (p1, Inr ())
          else bindS (onServer (consumeServerNonce env (bb_Nonce b))) (\<lambda>_.
                 updateS (\<lambda>q. q\<lparr>ps_nonceConsumed := True\<rparr>)) p1) p) p1 = (p', Inr ())"
      by (auto simp: authBatch_def bindS_eq_Inr)
    have start: "\<not> ps_authDecisionChecked (push_start s)" by (simp add: push_start_def)
    obtain d l where d: "fst (DecideAuth (sv_Cfg env) (cx_hostname cx) (cx_uid cx) (bb_Username b) (cx_groups cx) push_method) = d"
      "d \<noteq> DecisionDeny"
      "p1 = (push_start s)\<lparr>ps_authDecisionChecked := True, ps_authDecision := d,
               ps_server := (ps_server (push_start s))\<lparr>ss_log := l\<rparr>\<rparr>"
      by (rule decideOnce_first [OF start p1(1)])
    show ?thesis
    proof (cases "d = DecisionAllow")
      case True
      then show ?thesis using b d \<open>bb_RuleType b = ''user''\<close>
        by (auto simp: batch_authorised_def identity_cases)
    next
      case False
      then have ds: "d = DecisionRequireSig" using d(2) by (cases d) auto
      define s1 where "s1 = s\<lparr>ss_log := l\<rparr>"
      have s1: "ps_server p1 = s1" "\<not> ps_nonceConsumed p1" "ps_authDecision p1 = DecisionRequireSig"
        using d(3) ds by (auto simp: push_start_def s1_def)
      have st: "verifyBatchSignature env (cx_hostname cx) b s1 = (s1, snd (verifyBatchSignature env (cx_hostname cx) b s1))"
        using verifyBatchSignature_state [of env "cx_hostname cx" b s1] by (simp add: prod_eq_iff)
      have v: "snd (verifyBatchSignature env (cx_hostname cx) b s1) = Inr ()"
        and n: "\<exists>s2. consumeServerNonce env (bb_Nonce b) s1 = (s2, Inr ())"
        using p1(2) s1 st by (auto simp: bindS_eq_Inr onServer_eq)
      from n obtain t where
        "ConsumeNonce (sv_db env) (sv_now env) (hex_encode (bb_Nonce b)) (ss_nonces s1) = (t, Inr True)"
        by (auto elim: consumeServerNonce_ok)
      then show ?thesis
        using v d(1) ds b \<open>bb_RuleType b = ''user''\<close> verifyBatchSignature_log [where s = s and l = l and env = env]
        by (auto simp: batch_authorised_def identity_cases s1_def)
    qed
  qed
qed

text \<open>A state in which nothing but the decision has happened.\<close>

definition untouched :: "'z server_state \<Rightarrow> 'z push_state \<Rightarrow> bool" where
  "untouched s p \<longleftrightarrow> ps_firstBatch p \<and> ps_partialUploads p = [] \<and>
     ss_tree (ps_server p) = ss_tree s \<and> ss_zfs (ps_server p) = ss_zfs s \<and>
     ss_grants (ps_server p) = ss_grants s \<and> ss_keys (ps_server p) = ss_keys s"

lemma untouched_stable: "auth_stable (untouched s)"
  by (simp add: auth_stable_def untouched_def)

lemma untouched_start: "untouched s (push_start s)"
  by (simp add: untouched_def push_start_def)

text \<open>The first turn either shows an authorised batch or leaves everything as it was.\<close>

lemma pushTurn_first:
  assumes "dataset_owner (sv_mountPoint env) (cx_hostname cx) ''_machine''"
    and "pushTurn env cx t (push_start s) = (p', r)"
  shows "untouched s p' \<and> r \<noteq> Inr () \<or>
    (\<exists>b. pt_ctx t = None \<and> pt_recv t = Inr b \<and> batch_authorised env cx s b \<and>
         push_inv (prefix (dataset_comps (sv_mountPoint env) (cx_hostname cx) (bb_Username b))) (bb_Username b) (ss_tree s) p')"
proof (cases "pt_ctx t = None \<and> is_ok (pt_recv t)")
  case False
  then show ?thesis using assms(2) untouched_start
    by (auto simp: pushTurn_def failS_def split: option.splits sum.splits)
next
  case True
  then obtain b where b: "pt_recv t = Inr b" "pt_ctx t = None" by (auto simp: is_ok_iff)
  obtain r0 where c: "checkBatch b (push_start s) = (push_start s, r0)" by (simp add: checkBatch_def)
  obtain p1 r1 where a: "authBatch env cx b (push_start s) = (p1, r1)" by force
  have u: "untouched s p1" using keepsD [OF authBatch_keeps [OF untouched_stable] a untouched_start] .
  obtain p2 r2 where f: "firstBatchInit env cx b p1 = (p2, r2)" by force
  have r: "pushBatch env cx b (pt_send t) (push_start s) = (p', r)"
    using assms(2) b by (simp add: pushTurn_def)
  show ?thesis
  proof (cases "r0 = Inr () \<and> r1 = Inr ()")
    case False
    then show ?thesis using r c a u untouched_start [of s]
      by (cases r0; cases r1) (auto simp: pushBatch_files bindS_def)
  next
    case True
    with c a have auth: "batch_authorised env cx s b" using authBatch_first by blast
    then have o: "dataset_owner (sv_mountPoint env) (cx_hostname cx) (bb_Username b)"
      using assms(1) by (simp add: dataset_owner_def batch_authorised_def)
    have i: "push_inv (prefix (dataset_comps (sv_mountPoint env) (cx_hostname cx) (bb_Username b))) (bb_Username b) (ss_tree s) p2"
      using firstBatchInit_first [OF _ _ _ f] u by (simp add: untouched_def)
    have "push_inv (prefix (dataset_comps (sv_mountPoint env) (cx_hostname cx) (bb_Username b))) (bb_Username b) (ss_tree s) p'"
    proof (cases r2)
      case (Inl e)
      then show ?thesis using r c a f True i by (auto simp: pushBatch_files bindS_def)
    next
      case (Inr x)
      then have "batchFiles env cx b (pt_send t) p2 = (p', r)"
        using r c a f True by (auto simp: pushBatch_files bindS_def)
      then show ?thesis using keepsD [OF batchFiles_keeps] allowed_dataset [OF o] i by blast
    qed
    then show ?thesis using auth b by blast
  qed
qed

lemma pushTurns_keeps:
  assumes "\<And>t b f. t \<in> set ts \<Longrightarrow> pt_recv t = Inr b \<Longrightarrow> f \<in> set (bb_Files b) \<Longrightarrow> allowed P env (cx_hostname cx) u (fe_Path f)"
  shows "keeps (push_inv P u t0) (foldS (pushTurn env cx) ts)"
  by (rule keeps_foldS) (rule pushTurn_keeps, rule assms)

lemma completeBackup_state:
  "completeBackup env cx stamp ctx p = (p', r) \<Longrightarrow>
     ps_partialUploads p' = ps_partialUploads p \<and> ss_tree (ps_server p') = ss_tree (ps_server p) \<and>
     ps_acks p' = ps_acks p"
  by (auto simp: completeBackup_def onServer_def onZfs_def Let_def split: if_splits option.splits prod.splits)

lemma abort_outside:
  assumes "\<forall>x \<in> set ups. writer_in P (pu_writer (snd x))" "\<not> P q"
  shows "file_at q (ss_tree (fold (\<lambda>(path, u) s. s\<lparr>ss_tree := ChunkWriter_Abort (sv_fs env (ss_tick s)) (pu_writer u) (ss_tree s),
             ss_tick := Suc (ss_tick s)\<rparr>) ups s)) = file_at q (ss_tree s)"
  using assms(1) by (induction ups arbitrary: s) (auto simp: ChunkWriter_outside(3) [where P = P, OF _ assms(2)])

text \<open>
  C3: A backup stream changes a file only if its first batch was authorised (a machine rule for the
  machine dataset, or a user rule the host may vouch for or the user signed with an unused nonce),
  and only below the dataset of that host and user.
\<close>

lemma PushBackup_writes:
  assumes o: "dataset_owner (sv_mountPoint env) (cx_hostname cx) ''_machine''"
    and r: "PushBackup env cx stamp ctx turns s = (s', acks, r)"
    and ch: "file_at q (ss_tree s') \<noteq> file_at q (ss_tree s)"
  shows "\<exists>t ts b. turns = t # ts \<and> pt_recv t = Inr b \<and> batch_authorised env cx s b \<and>
    prefix (dataset_comps (sv_mountPoint env) (cx_hostname cx) (bb_Username b)) q"
proof (cases turns)
  case Nil
  then have "ss_tree s' = ss_tree s"
    using r by (auto simp: PushBackup_def bindS_def completeBackup_def push_start_def abortUploads_def)
  then show ?thesis using ch by simp
next
  case (Cons t ts)
  obtain p1 r1 where t: "pushTurn env cx t (push_start s) = (p1, r1)" by force
  obtain p2 r2 where f: "bindS (foldS (pushTurn env cx) turns) (\<lambda>_. completeBackup env cx stamp ctx) (push_start s) = (p2, r2)"
    by force
  have s': "s' = abortUploads env p2" using r f by (simp add: PushBackup_def)
  from pushTurn_first [OF o t] show ?thesis
  proof
    assume u: "untouched s p1 \<and> r1 \<noteq> Inr ()"
    then have "p2 = p1" using f t Cons by (cases r1) (auto simp: bindS_def)
    then have "ss_tree s' = ss_tree s" using u s' by (simp add: abortUploads_def untouched_def)
    then show ?thesis using ch by simp
  next
    assume "\<exists>b. pt_ctx t = None \<and> pt_recv t = Inr b \<and> batch_authorised env cx s b \<and>
         push_inv (prefix (dataset_comps (sv_mountPoint env) (cx_hostname cx) (bb_Username b))) (bb_Username b) (ss_tree s) p1"
    then obtain b where b: "pt_recv t = Inr b" "batch_authorised env cx s b"
        "push_inv (prefix (dataset_comps (sv_mountPoint env) (cx_hostname cx) (bb_Username b))) (bb_Username b) (ss_tree s) p1" by blast
    let ?D = "dataset_comps (sv_mountPoint env) (cx_hostname cx) (bb_Username b)"
    have ob: "dataset_owner (sv_mountPoint env) (cx_hostname cx) (bb_Username b)"
      using o b(2) by (simp add: dataset_owner_def batch_authorised_def)
    obtain p3 r3 where f3: "foldS (pushTurn env cx) turns (push_start s) = (p3, r3)" by force
    have i3: "push_inv (prefix (dataset_comps (sv_mountPoint env) (cx_hostname cx) (bb_Username b))) (bb_Username b) (ss_tree s) p3"
    proof (cases r1)
      case (Inl e)
      then show ?thesis using f3 t Cons b(3) by simp
    next
      case (Inr x)
      then have "foldS (pushTurn env cx) ts p1 = (p3, r3)" using f3 t Cons by simp
      then show ?thesis using keepsD [OF pushTurns_keeps [OF allowed_dataset [OF ob]]] b(3) by blast
    qed
    have "ps_partialUploads p2 = ps_partialUploads p3 \<and> ss_tree (ps_server p2) = ss_tree (ps_server p3)"
      using f f3 completeBackup_state [of env cx stamp ctx p3 p2 r2]
      by (cases r3) (auto simp: bindS_def)
    then have out: "\<not> prefix ?D q \<Longrightarrow> file_at q (ss_tree s') = file_at q (ss_tree s)"
      using abort_outside [of "ps_partialUploads p2" "prefix ?D" q env "ps_server p2"] i3
      by (simp add: s' abortUploads_def push_inv_def outside_def)
    then show ?thesis using ch b Cons by blast
  qed
qed

section \<open>Completion\<close>

lemma PushBackup_Ok:
  assumes "PushBackup env cx stamp ctx turns s = (s', acks, Inr ())"
  obtains p p' where "foldS (pushTurn env cx) turns (push_start s) = (p, Inr ())"
    "completeBackup env cx stamp ctx p = (p', Inr ())" "s' = abortUploads env p'" "acks = ps_acks p'"
proof -
  obtain p' where "bindS (foldS (pushTurn env cx) turns) (\<lambda>_. completeBackup env cx stamp ctx) (push_start s) = (p', Inr ())"
    "s' = abortUploads env p'" "acks = ps_acks p'"
    using assms by (auto simp: PushBackup_def split: prod.splits)
  then show thesis using that by (auto simp: bindS_eq_Inr)
qed

text \<open>Writing files changes the tree, the tick and the uploads.\<close>

definition files_stable :: "('z push_state \<Rightarrow> bool) \<Rightarrow> bool" where
  "files_stable P \<longleftrightarrow> (\<forall>p. P p \<longrightarrow>
     (\<forall>t n. P (p\<lparr>ps_server := (ps_server p)\<lparr>ss_tree := t, ss_tick := n\<rparr>\<rparr>)) \<and>
     (\<forall>ups. P (p\<lparr>ps_partialUploads := ups\<rparr>)))"

lemma onTree_files_stable: "files_stable P \<Longrightarrow> keeps P (onServer (onTree env m))"
  by (simp add: keeps_def onServer_def onTree_def files_stable_def case_prod_unfold)

lemma uploads_files_stable:
  "files_stable P \<Longrightarrow> keeps P (updateS (upload_put path u))"
  "files_stable P \<Longrightarrow> keeps P (updateS (\<lambda>p. p\<lparr>ps_partialUploads := g p\<rparr>))"
  by (simp_all add: keeps_def updateS_def upload_put_def files_stable_def)

lemma openUpload_stable:
  fixes env :: "'z server_env"
  assumes P: "files_stable P"
  shows "keeps P (openUpload env h f)"
proof (rule keepsI)
  fix p :: "'z push_state" assume p: "P p"
  have "keeps P (bindS (onServer (onTree env (\<lambda>fl tmp. NewChunkWriter fl tmp (sv_mountPoint env) h (ps_username p) (fe_Path f))))
          (\<lambda>writer. let upload = \<lparr>pu_writer = writer, pu_nextOffset = 0, pu_mode = fe_Mode f\<rparr> in
                 bindS (updateS (upload_put (fe_Path f) upload)) (\<lambda>_. returnS upload)))"
    unfolding Let_def by (intro keeps_bind onTree_files_stable uploads_files_stable keeps_return P)
  then show "P (fst (openUpload env h f p))"
    using p by (auto simp: openUpload_def keeps_def split: option.split)
qed

lemma pushChunk_stable:
  assumes P: "files_stable P"
  shows "keeps P (pushChunk env h f)"
  unfolding pushChunk_def writeChunk_def commitUpload_def Let_def
  by (intro keeps_intros openUpload_stable onTree_files_stable uploads_files_stable P)

lemma pushFile_stable:
  fixes env :: "'z server_env"
  assumes P: "files_stable P"
  shows "keeps P (pushFile env h f)"
proof (rule keepsI)
  fix p :: "'z push_state" assume p: "P p"
  have c: "P (fst (m p))" if "keeps P m" for m :: "('z, nat) push"
    using that p by (simp add: keeps_def)
  have k: "keeps P (bindS (pushChunk env h f) (\<lambda>_. returnS n))"
    "keeps P (bindS (mapErrS g (onServer (onTree env m))) (\<lambda>_. returnS n))"
    for n g and m :: "fs_faults \<Rightarrow> string \<Rightarrow> tree \<Rightarrow> tree \<times> unit result"
    by (intro keeps_intros pushChunk_stable onTree_files_stable P)+
  show "P (fst (pushFile env h f p))"
  proof (cases "fe_Chunked f")
    case True
    then show ?thesis using c [OF k(1)] by (simp add: pushFile_def)
  next
    case nc: False
    show ?thesis
    proof (cases "map_of (ps_partialUploads p) (fe_Path f) \<noteq> None")
      case True
      then show ?thesis using nc p by (simp add: pushFile_def)
    next
      case False
      then show ?thesis using nc c [OF k(2)] by (cases "fe_Deleted f") (simp_all add: pushFile_def)
    qed
  qed
qed

lemma pushFiles_stable: "files_stable P \<Longrightarrow> keeps P (pushFiles env h fs n)"
  by (induction fs arbitrary: n) (auto intro!: keeps_intros pushFile_stable)

text \<open>An acknowledged turn adds one acknowledgement, and keeps the first batch's user.\<close>

lemma batchFiles_acks:
  assumes "batchFiles env cx b e p = (p', Inr ())"
  shows "length (ps_acks p') = Suc (length (ps_acks p)) \<and> ps_username p' = ps_username p \<and>
    ps_firstBatch p' = ps_firstBatch p"
proof -
  define P where "P = (\<lambda>q :: 'a push_state. ps_acks q = ps_acks p \<and> ps_username q = ps_username p \<and> ps_firstBatch q = ps_firstBatch p)"
  have "files_stable P" by (simp add: files_stable_def P_def)
  from pushFiles_stable [OF this] have "P q" if "pushFiles env (cx_hostname cx) (bb_Files b) 0 p = (q, r)" for q r
    using that by (rule keepsD) (simp add: P_def)
  then show ?thesis using assms by (auto simp: batchFiles_def bindS_eq_Inr result_simps updateS_def P_def)
qed

lemma pushTurn_Ok:
  assumes "pushTurn env cx t p = (p', Inr ())"
  obtains b where "pt_recv t = Inr b"
    "length (ps_acks p') = Suc (length (ps_acks p))"
    "ps_username p' = (if ps_firstBatch p then bb_Username b else ps_username p)"
    "usernameRe (bb_Username b)" "\<not> ps_firstBatch p'"
    "ps_username p = [] \<or> bb_Username b = ps_username p"
proof -
  from assms obtain b where b: "pt_recv t = Inr b" "pushBatch env cx b (pt_send t) p = (p', Inr ())"
    by (auto simp: pushTurn_def failS_def split: option.splits sum.splits)
  from b(2) obtain p1 p2 where p1: "checkBatch b p = (p, Inr ())" "authBatch env cx b p = (p1, Inr ())"
      "firstBatchInit env cx b p1 = (p2, Inr ())" "batchFiles env cx b (pt_send t) p2 = (p', Inr ())"
    using checkBatch_state by (fastforce simp: pushBatch_files bindS_eq_Inr)
  define P where "P = (\<lambda>q :: 'a push_state. ps_acks q = ps_acks p \<and> ps_username q = ps_username p \<and> ps_firstBatch q = ps_firstBatch p)"
  have "auth_stable P" by (simp add: auth_stable_def P_def)
  from authBatch_keeps [OF this] p1(2) have "P p1" by (rule keepsD) (simp add: P_def)
  then have p2: "ps_acks p2 = ps_acks p" "ps_username p2 = (if ps_firstBatch p then bb_Username b else ps_username p)"
      "\<not> ps_firstBatch p2"
    using p1(3) by (auto simp: P_def firstBatchInit_def onServer_eq split: if_splits)
  show thesis
    using that [OF b(1)] batchFiles_acks [OF p1(4)] p2 checkBatch_ok [OF p1(1)] by auto
qed

lemma pushTurns_Ok:
  assumes "foldS (pushTurn env cx) ts p = (p', Inr ())" "\<not> ps_firstBatch p" "ps_username p \<noteq> []"
  shows "length (ps_acks p') = length (ps_acks p) + length ts \<and> ps_username p' = ps_username p \<and>
    (\<forall>t \<in> set ts. \<exists>b. pt_recv t = Inr b \<and> bb_Username b = ps_username p)"
  using assms
proof (induction ts arbitrary: p)
  case Nil
  then show ?case by simp
next
  case (Cons t ts)
  from Cons.prems(1) obtain p1 where t: "pushTurn env cx t p = (p1, Inr ())"
      "foldS (pushTurn env cx) ts p1 = (p', Inr ())"
    by (auto split: prod.splits sum.splits)
  show ?case
  proof (rule pushTurn_Ok [OF t(1)])
    fix b assume b: "pt_recv t = Inr b" "length (ps_acks p1) = Suc (length (ps_acks p))"
      "ps_username p1 = (if ps_firstBatch p then bb_Username b else ps_username p)" "\<not> ps_firstBatch p1"
      "ps_username p = [] \<or> bb_Username b = ps_username p"
    have "ps_username p1 = ps_username p" using b(3) Cons.prems(2) by simp
    with Cons.IH [OF t(2) b(4)] b Cons.prems show ?thesis by auto
  qed
qed

text \<open>
  C5: A non-empty backup stream that succeeds acknowledged every batch, all for one user, took a recovery
  snapshot of that user's dataset and then ran the retention with the configured limits.
\<close>

lemma PushBackup_complete:
  assumes r: "PushBackup env cx stamp ctx turns s = (s', acks, Inr ())" and ne: "turns \<noteq> []"
  shows "\<exists>u. usernameRe u \<and> (\<forall>t \<in> set turns. \<exists>b. pt_recv t = Inr b \<and> bb_Username b = u) \<and>
    length acks = length turns \<and>
    (let ds = dataset_of env (cx_hostname cx) u; pol = sc_SnapshotPolicy (sv_Cfg env) in
     \<exists>z1 z2. CreateSnapshot (sv_exec env) stamp ds z1 = (z2, Inr (SnapshotName stamp ds)) \<and>
       CleanupSnapshots (sv_exec env) ds (sp_MinSnapshots pol) (sp_MaxSnapshots pol) (sp_MinFreeGB pol) z2 =
         (ss_zfs s', Inr ()))"
proof -
  from r obtain p p' where p: "foldS (pushTurn env cx) turns (push_start s) = (p, Inr ())"
    "completeBackup env cx stamp ctx p = (p', Inr ())" "s' = abortUploads env p'" "acks = ps_acks p'"
    by (rule PushBackup_Ok)
  obtain t ts where ts: "turns = t # ts" using ne by (cases turns) auto
  from p(1) ts obtain p1 where t: "pushTurn env cx t (push_start s) = (p1, Inr ())"
      "foldS (pushTurn env cx) ts p1 = (p, Inr ())"
    by (auto split: prod.splits sum.splits)
  obtain b where b: "pt_recv t = Inr b" "length (ps_acks p1) = 1" "ps_username p1 = bb_Username b"
      "usernameRe (bb_Username b)" "\<not> ps_firstBatch p1"
    using t(1) by (rule pushTurn_Ok) (auto simp: push_start_def)
  have une: "bb_Username b \<noteq> []" using b(4) by (auto simp: usernameRe_def)
  note rest = pushTurns_Ok [OF t(2) b(5), unfolded b(3), OF une]
  have ups: "ps_partialUploads p = []" and up: "ps_username p = bb_Username b"
    using p(2) rest by (auto simp: completeBackup_def split: if_splits)
  let ?ds = "dataset_of env (cx_hostname cx) (bb_Username b)" and ?pol = "sc_SnapshotPolicy (sv_Cfg env)"
  from p(2) ups up une obtain z1 z2 nm where z:
    "CreateSnapshot (sv_exec env) stamp ?ds z1 = (z2, Inr nm)"
    "CleanupSnapshots (sv_exec env) ?ds (sp_MinSnapshots ?pol) (sp_MaxSnapshots ?pol) (sp_MinFreeGB ?pol) z2 =
       (ss_zfs (ps_server p'), Inr ())"
    by (auto simp: completeBackup_def onServer_eq onZfs_eq bindS_eq_Inr result_simps Let_def split: option.splits)
  have nm: "nm = SnapshotName stamp ?ds" using z(1) by (auto simp: CreateSnapshot_def bindS_eq_Inr result_simps)
  have p': "ps_partialUploads p' = []" "ps_acks p' = ps_acks p"
    using completeBackup_state [OF p(2)] ups by auto
  show ?thesis
    using b rest ts z nm p' p(3,4) by (intro exI [of _ "bb_Username b"]) (auto simp: abortUploads_def Let_def)
qed

section \<open>No snapshot of an interrupted stream\<close>

definition is_retention :: "string list \<Rightarrow> bool" where
  "is_retention args \<longleftrightarrow> args \<noteq> [] \<and> hd args \<in> {''snapshot'', ''destroy''}"

definition retentions :: "string list list \<Rightarrow> string list list" where
  "retentions log = List.filter is_retention log"

abbreviation no_retention :: "string list list \<Rightarrow> 'z \<times> string list list \<Rightarrow> bool" where
  "no_retention l0 zl \<equiv> retentions (snd zl) = l0"

lemma zfs_no_retention:
  fixes ex :: "'z exec"
  assumes "\<not> is_retention args"
  shows "keeps (no_retention l0) (zfs (logged ex) args)"
proof (rule keepsI)
  fix zl :: "'z \<times> string list list" assume "no_retention l0 zl"
  then show "no_retention l0 (fst (zfs (logged ex) args zl))"
    using assms by (cases zl) (simp add: zfs_logged retentions_def case_prod_unfold)
qed

lemma not_retention [simp]:
  "\<not> is_retention (''create'' # r)" "\<not> is_retention (''mount'' # r)" "\<not> is_retention (''set'' # r)"
  "\<not> is_retention (getArgs p d)"
  by (simp_all add: is_retention_def getArgs_def)

lemma ensureMounted_no_retention: "keeps (no_retention l0) (ensureMounted (logged ex) d)"
  unfolding ensureMounted_def by (intro keeps_intros zfs_no_retention) simp_all

lemma CreateDataset_no_retention:
  fixes ex :: "'z exec"
  shows "keeps (no_retention l0) (CreateDataset (logged ex) d)"
proof (rule keepsI)
  fix z :: "'z \<times> string list list" assume z: "no_retention l0 z"
  obtain z' r where c: "zfs (logged ex) [''create'', ''-p'', d] z = (z', r)" by (rule prod.exhaust)
  have "no_retention l0 z'" using zfs_no_retention c z by (rule keepsD) simp
  then show "no_retention l0 (fst (CreateDataset (logged ex) d z))"
    using z c by (cases r) (simp_all add: CreateDataset_def failS_def split: option.split)
qed

lemma initDataset_no_retention:
  assumes "sv_exec env = logged ex"
  shows "keeps (\<lambda>s. no_retention l0 (ss_zfs s)) (initDataset env h u)"
proof -
  have z: "keeps (\<lambda>s. no_retention l0 (ss_zfs s)) (onZfs m)" if "keeps (no_retention l0) m" for m
    using that unfolding keeps_def onZfs_def case_prod_unfold by (simp del: split_paired_All)
  have mo: "keeps (no_retention l0) (EnsureDatasetMounted zz (logged ex) d)" for zz d
    unfolding EnsureDatasetMounted_def
    by (auto split: option.split intro!: keeps_intros ensureMounted_no_retention)
  have q: "keeps (no_retention l0) (SetQuota (logged ex) d n)" for d n
    unfolding SetQuota_def by (auto split: option.split intro!: keeps_intros zfs_no_retention)
  show ?thesis
    unfolding initDataset_def Let_def assms
    by (intro keeps_bind keeps_mapErr z CreateDataset_no_retention mo q)
qed

lemma pushTurns_no_retention:
  fixes env :: "('z \<times> string list list) server_env"
  assumes "sv_exec env = logged ex"
  shows "keeps (\<lambda>p. no_retention l0 (ss_zfs (ps_server p))) (foldS (pushTurn env cx) ts)"
proof (rule keeps_foldS)
  fix t
  let ?P = "\<lambda>p :: ('z \<times> string list list) push_state. no_retention l0 (ss_zfs (ps_server p))"
  have a: "auth_stable ?P" and f: "files_stable ?P" by (simp_all add: auth_stable_def files_stable_def)
  have c: "keeps ?P (checkBatch b)" for b by (simp add: keeps_def checkBatch_def)
  have i: "keeps ?P (firstBatchInit env cx b)" for b
    using initDataset_no_retention [OF assms, of l0 "cx_hostname cx" "bb_Username b"]
    by (auto simp: keeps_def firstBatchInit_def onServer_def case_prod_unfold)
  have w: "keeps ?P (batchFiles env cx b e)" for b e
    unfolding batchFiles_def by (intro keeps_intros pushFiles_stable f updateS_keeps) simp
  have "keeps ?P (pushBatch env cx b e)" for b e
    unfolding pushBatch_files by (intro keeps_bind c authBatch_keeps a i w)
  then show "keeps ?P (pushTurn env cx t)"
    by (auto simp: pushTurn_def intro!: keeps_intros split: option.split sum.split)
qed

lemma abortUploads_zfs: "ss_zfs (abortUploads env p) = ss_zfs (ps_server p)"
proof -
  have "ss_zfs (fold (\<lambda>(path, u) s. s\<lparr>ss_tree := ChunkWriter_Abort (sv_fs env (ss_tick s)) (pu_writer u) (ss_tree s),
                            ss_tick := Suc (ss_tick s)\<rparr>) ups s) = ss_zfs s" for ups and s
    by (induction ups arbitrary: s) auto
  then show ?thesis by (simp add: abortUploads_def)
qed

lemma pushTurns_acks:
  assumes "foldS (pushTurn env cx) ts p = (p', Inr ())"
  shows "length (ps_acks p') = length (ps_acks p) + length ts"
  using assms
proof (induction ts arbitrary: p)
  case Nil
  then show ?case by simp
next
  case (Cons t ts)
  from Cons.prems obtain p1 where t: "pushTurn env cx t p = (p1, Inr ())"
      "foldS (pushTurn env cx) ts p1 = (p', Inr ())"
    by (auto split: prod.splits sum.splits)
  show ?case by (rule pushTurn_Ok [OF t(1)]) (use Cons.IH [OF t(2)] in simp)
qed

text \<open>
  C8: A stream in which some batch is not acknowledged fails and issues no snapshot or destroy command,
  so an interrupted backup neither becomes a recovery point nor pushes out an old one.
\<close>

lemma PushBackup_interrupted:
  assumes e: "sv_exec env = logged ex"
    and r: "PushBackup env cx stamp ctx turns s = (s', acks, r)" and l: "length acks < length turns"
  shows "retentions (snd (ss_zfs s')) = retentions (snd (ss_zfs s)) \<and> r \<noteq> Inr ()"
proof -
  obtain p1 r1 where f: "foldS (pushTurn env cx) turns (push_start s) = (p1, r1)" by force
  have k: "retentions (snd (ss_zfs (ps_server p1))) = retentions (snd (ss_zfs s))"
    using pushTurns_no_retention [OF e] f by (rule keepsD) (simp add: push_start_def)
  show ?thesis
  proof (cases r1)
    case (Inl err)
    then show ?thesis using r f k by (auto simp: PushBackup_def bindS_def abortUploads_zfs)
  next
    case (Inr x)
    obtain p2 r2 where c: "completeBackup env cx stamp ctx p1 = (p2, r2)" by force
    have "length (ps_acks p2) = length turns"
      using pushTurns_acks [of env cx turns "push_start s" p1] f Inr completeBackup_state [OF c]
      by (simp add: push_start_def)
    then have "length acks = length turns" using r f Inr c by (auto simp: PushBackup_def bindS_def)
    then show ?thesis using l by simp
  qed
qed

section \<open>Nonces of later batches\<close>

text \<open>
  Once a stream has consumed a nonce, a later user batch is admitted on its signature alone: neither
  the server state nor the nonce of that batch is looked at again.
\<close>

lemma authBatch_later:
  assumes "bb_RuleType b = ''user''" "ps_authDecisionChecked p" "ps_nonceConsumed p"
    and "ps_authDecision p = DecisionRequireSig"
  shows "authBatch env cx b p = (p, snd (verifyBatchSignature env (cx_hostname cx) b (ps_server p)))"
proof -
  have v: "onServer (verifyBatchSignature env (cx_hostname cx) b) p =
      (p, snd (verifyBatchSignature env (cx_hostname cx) b (ps_server p)))"
    using verifyBatchSignature_state [of env "cx_hostname cx" b "ps_server p"]
    by (simp add: onServer_def case_prod_unfold)
  show ?thesis
    using assms v by (simp add: authBatch_def decideOnce_def bindS_def split: sum.split)
qed

section \<open>Chunked uploads\<close>

definition upload_ok :: "string list \<Rightarrow> tree \<Rightarrow> partial_upload \<Rightarrow> bytes \<Rightarrow> bool" where
  "upload_ok target t up c \<longleftrightarrow>
     cw_target (pu_writer up) = target \<and> cw_tmp (pu_writer up) \<noteq> target \<and> cw_open (pu_writer up) \<and>
     map_option fst (file_at (cw_tmp (pu_writer up)) t) = Some c \<and> pu_nextOffset up = of_nat (length c)"

definition push_pending :: "string \<Rightarrow> 'z push_state \<Rightarrow> (bytes \<times> 32 word) option" where
  "push_pending path p =
     (case map_of (ps_partialUploads p) path of
        None \<Rightarrow> None
      | Some up \<Rightarrow> map_option (\<lambda>x. (fst x, pu_mode up)) (file_at (cw_tmp (pu_writer up)) (ss_tree (ps_server p))))"

definition push_target :: "'z server_env \<Rightarrow> string \<Rightarrow> 'z push_state \<Rightarrow> string \<Rightarrow> string result" where
  "push_target env h p path = targetPath (sv_mountPoint env) h (ps_username p) path"

definition push_published :: "'z server_env \<Rightarrow> string \<Rightarrow> string \<Rightarrow> 'z push_state \<Rightarrow> (bytes \<times> 32 word) option" where
  "push_published env h path p =
     (case push_target env h p path of
        Inl _ \<Rightarrow> None | Inr target \<Rightarrow> file_at (abs_comps target) (ss_tree (ps_server p)))"

text \<open>
  A path is ready when it resolves, no temporary name is its own name, and what is staged for
  it is as long as the next offset says.
\<close>

definition push_ready :: "'z server_env \<Rightarrow> string \<Rightarrow> string \<Rightarrow> 'z push_state \<Rightarrow> bool" where
  "push_ready env h path p \<longleftrightarrow>
     (\<exists>target. push_target env h p path = Inr target \<and>
        (\<forall>n. abs_comps (Dir target) @ [sv_tmps env n] \<noteq> abs_comps target) \<and>
        (\<forall>up. map_of (ps_partialUploads p) path = Some up \<longrightarrow>
           (\<exists>c. upload_ok (abs_comps target) (ss_tree (ps_server p)) up c)))"

definition staged_bytes :: "string \<Rightarrow> 'z push_state \<Rightarrow> bytes" where
  "staged_bytes path p = (case push_pending path p of None \<Rightarrow> '''' | Some (c, m) \<Rightarrow> c)"

definition staged_mode :: "file_entry \<Rightarrow> 'z push_state \<Rightarrow> 32 word" where
  "staged_mode f p = (case push_pending (fe_Path f) p of None \<Rightarrow> fe_Mode f | Some (c, m) \<Rightarrow> m)"

lemma push_target_update [simp]:
  "push_target env h (p\<lparr>ps_server := s\<rparr>) path = push_target env h p path"
  "push_target env h (upload_put q up p) path = push_target env h p path"
  by (simp_all add: push_target_def upload_put_def)

lemma upload_put_get [simp]:
  "map_of (ps_partialUploads (upload_put path up p)) path = Some up"
  "ss_tree (ps_server (upload_put path up p)) = ss_tree (ps_server p)"
  "ps_server (upload_put path up p) = ps_server p"
  by (simp_all add: upload_put_def update_conv')

text \<open>After opening, the upload of the path is in the map with what was staged.\<close>

lemma openUpload_ok:
  assumes r: "push_ready env h (fe_Path f) p" and o: "openUpload env h f p = (p1, Inr up)"
    and t: "push_target env h p (fe_Path f) = Inr target"
  shows "upload_ok (abs_comps target) (ss_tree (ps_server p1)) up (staged_bytes (fe_Path f) p)"
    and "pu_mode up = staged_mode f p"
    and "map_of (ps_partialUploads p1) (fe_Path f) = Some up"
    and "push_target env h p1 = push_target env h p"
    and "file_at (abs_comps target) (ss_tree (ps_server p1)) = file_at (abs_comps target) (ss_tree (ps_server p))"
    and "push_pending (fe_Path f) p = None \<Longrightarrow> fe_ChunkOffset f = 0"
proof -
  have "upload_ok (abs_comps target) (ss_tree (ps_server p1)) up (staged_bytes (fe_Path f) p) \<and>
    pu_mode up = staged_mode f p \<and>
    map_of (ps_partialUploads p1) (fe_Path f) = Some up \<and>
    push_target env h p1 = push_target env h p \<and>
    file_at (abs_comps target) (ss_tree (ps_server p1)) = file_at (abs_comps target) (ss_tree (ps_server p)) \<and>
    (push_pending (fe_Path f) p = None \<longrightarrow> fe_ChunkOffset f = 0)"
  proof (cases "map_of (ps_partialUploads p) (fe_Path f)")
    case (Some u)
    then have p1: "p1 = p" "u = up" using o by (auto simp: openUpload_def)
    obtain c where c: "upload_ok (abs_comps target) (ss_tree (ps_server p)) up c"
      using r t Some p1 by (auto simp: push_ready_def)
    then obtain m where m: "file_at (cw_tmp (pu_writer up)) (ss_tree (ps_server p)) = Some (c, m)"
      by (auto simp: upload_ok_def)
    then have "push_pending (fe_Path f) p = Some (c, pu_mode up)" using Some p1 by (simp add: push_pending_def)
    then show ?thesis using c Some p1 by (simp add: staged_bytes_def staged_mode_def)
  next
    case None
    have off: "fe_ChunkOffset f = 0" using o None by (auto simp: openUpload_def split: if_splits)
    define fl where "fl = sv_fs env (ss_tick (ps_server p))"
    define tmp where "tmp = sv_tmps env (ss_tick (ps_server p))"
    define t0 where "t0 = ss_tree (ps_server p)"
    have tgt: "targetPath (sv_mountPoint env) h (ps_username p) (fe_Path f) = Inr target"
      using t by (simp add: push_target_def)
    from o None off obtain w t' where w:
      "NewChunkWriter fl tmp (sv_mountPoint env) h (ps_username p) (fe_Path f) t0 = (t', Inr w)"
      "up = \<lparr>pu_writer = w, pu_nextOffset = 0, pu_mode = fe_Mode f\<rparr>"
      "p1 = upload_put (fe_Path f) up (p\<lparr>ps_server := (ps_server p)\<lparr>ss_tree := t', ss_tick := Suc (ss_tick (ps_server p))\<rparr>\<rparr>)"
      by (auto simp: openUpload_def bindS_eq_Inr onServer_eq onTree_eq Let_def updateS_def result_simps
          fl_def tmp_def t0_def)
    from w(1) obtain fs1 where fs: "mkdir_all fl (abs_comps (Dir target)) t0 = Inr fs1"
      "create_temp fl (abs_comps (Dir target)) tmp fs1 = Inr t'"
      "w = \<lparr>cw_target = abs_comps target, cw_tmp = abs_comps (Dir target) @ [tmp], cw_open = True, cw_committed = False\<rparr>"
      by (auto simp: NewChunkWriter_def tgt Let_def split: sum.splits)
    have ne: "abs_comps (Dir target) @ [tmp] \<noteq> abs_comps target"
      using r t by (auto simp: push_ready_def tmp_def)
    have tree: "file_at q t' = (if q = abs_comps (Dir target) @ [tmp] then Some ('''', 0x180) else file_at q t0)" for q
      using create_temp_files(1) [OF fs(2)] mkdir_all_files [OF fs(1)] by simp
    have pend: "push_pending (fe_Path f) p = None" using None by (simp add: push_pending_def)
    have tree1: "ss_tree (ps_server p1) = t'" and map1: "map_of (ps_partialUploads p1) (fe_Path f) = Some up"
      and targ1: "push_target env h p1 = push_target env h p"
      unfolding w(3) by (simp_all add: fun_eq_iff)
    show ?thesis
      unfolding tree1 map1 targ1
      using pend off tree ne w(2) fs(3)
      by (simp add: upload_ok_def staged_bytes_def staged_mode_def t0_def)
  qed
  then show "upload_ok (abs_comps target) (ss_tree (ps_server p1)) up (staged_bytes (fe_Path f) p)"
    "pu_mode up = staged_mode f p"
    "map_of (ps_partialUploads p1) (fe_Path f) = Some up"
    "push_target env h p1 = push_target env h p"
    "file_at (abs_comps target) (ss_tree (ps_server p1)) = file_at (abs_comps target) (ss_tree (ps_server p))"
    "push_pending (fe_Path f) p = None \<Longrightarrow> fe_ChunkOffset f = 0"
    by blast+
qed

lemma writeChunk_ok:
  assumes r: "push_ready env h (fe_Path f) p" and o: "writeChunk env h f p = (p2, Inr up)"
    and t: "push_target env h p (fe_Path f) = Inr target"
  shows "upload_ok (abs_comps target) (ss_tree (ps_server p2)) up (staged_bytes (fe_Path f) p @ fe_Content f)"
    and "pu_mode up = staged_mode f p" "fe_Mode f = staged_mode f p"
    and "map_of (ps_partialUploads p2) (fe_Path f) = Some up"
    and "push_target env h p2 = push_target env h p"
    and "file_at (abs_comps target) (ss_tree (ps_server p2)) = file_at (abs_comps target) (ss_tree (ps_server p))"
    and "fe_ChunkOffset f = of_nat (length (staged_bytes (fe_Path f) p))"
proof -
  from o obtain p1 up1 where op: "openUpload env h f p = (p1, Inr up1)"
    "fe_ChunkOffset f = pu_nextOffset up1" "fe_Mode f = pu_mode up1"
    and rest: "bindS (onServer (onTree env (\<lambda>fl tmp. ChunkWriter_Write fl (fe_Content f) (pu_writer up1)))) (\<lambda>_.
       let upload' = up1\<lparr>pu_nextOffset := pu_nextOffset up1 + of_nat (length (fe_Content f))\<rparr> in
       bindS (updateS (upload_put (fe_Path f) upload')) (\<lambda>_. returnS upload')) p1 = (p2, Inr up)"
    by (auto simp: writeChunk_def bindS_eq_Inr result_simps split: if_splits)
  note op1 = openUpload_ok [OF r op(1) t]
  define c0 where "c0 = staged_bytes (fe_Path f) p"
  define t1 where "t1 = ss_tree (ps_server p1)"
  have u1: "upload_ok (abs_comps target) t1 up1 c0" using op1(1) by (simp add: t1_def c0_def)
  then obtain m where m: "file_at (cw_tmp (pu_writer up1)) t1 = Some (c0, m)" by (auto simp: upload_ok_def)
  then obtain usr where n: "f_get (cw_tmp (pu_writer up1)) t1 = Some (NFile c0 m usr)"
    by (auto simp: file_at_def split: option.splits node.splits)
  define t2 where "t2 = append_file (cw_tmp (pu_writer up1)) (fe_Content f) t1"
  have up: "up = up1\<lparr>pu_nextOffset := pu_nextOffset up1 + of_nat (length (fe_Content f))\<rparr>"
    and p2: "p2 = upload_put (fe_Path f) up (p1\<lparr>ps_server := (ps_server p1)\<lparr>ss_tree := t2, ss_tick := Suc (ss_tick (ps_server p1))\<rparr>\<rparr>)"
    using rest
    by (auto simp: bindS_eq_Inr onServer_eq onTree_eq Let_def updateS_def result_simps ChunkWriter_Write_def
        t1_def t2_def split: if_splits)
  have tree2: "ss_tree (ps_server p2) = t2" unfolding p2 by simp
  have f2: "file_at (cw_tmp (pu_writer up1)) t2 = Some (c0 @ fe_Content f, m)"
    using n by (simp add: t2_def file_at_def append_file_get)
  have same: "file_at (abs_comps target) t2 = file_at (abs_comps target) t1"
    unfolding t2_def by (rule append_file_other) (use u1 in \<open>auto simp: upload_ok_def\<close>)
  show "upload_ok (abs_comps target) (ss_tree (ps_server p2)) up (staged_bytes (fe_Path f) p @ fe_Content f)"
    using u1 f2 unfolding tree2 by (simp add: upload_ok_def up c0_def)
  show "pu_mode up = staged_mode f p" "fe_Mode f = staged_mode f p" using op1(2) op(3) up by simp_all
  show "map_of (ps_partialUploads p2) (fe_Path f) = Some up" unfolding p2 by simp
  show "push_target env h p2 = push_target env h p" using op1(4) unfolding p2 by (simp add: fun_eq_iff)
  show "file_at (abs_comps target) (ss_tree (ps_server p2)) = file_at (abs_comps target) (ss_tree (ps_server p))"
    using op1(5) same unfolding tree2 t1_def by simp
  show "fe_ChunkOffset f = of_nat (length (staged_bytes (fe_Path f) p))"
    using u1 op(2) by (simp add: upload_ok_def c0_def)
qed

lemma commitUpload_ok:
  assumes u: "upload_ok target (ss_tree (ps_server p)) up c"
    and r: "commitUpload env f up p = (p', Inr ())"
  shows "file_at target (ss_tree (ps_server p')) = Some (c, perm (fe_Mode f))"
    and "map_of (ps_partialUploads p') (fe_Path f) = None"
    and "push_target env h p' = push_target env h p"
proof -
  define t where "t = ss_tree (ps_server p)"
  define w where "w = pu_writer up"
  define fl where "fl = sv_fs env (ss_tick (ps_server p))"
  from r obtain t' w' where c: "ChunkWriter_Commit fl (fe_Mode f) w t = (t', w', Inr ())"
    and p': "p' = p\<lparr>ps_server := (ps_server p)\<lparr>ss_tree := t', ss_tick := Suc (ss_tick (ps_server p))\<rparr>,
                 ps_partialUploads := AList.delete (fe_Path f) (ps_partialUploads p)\<rparr>"
    by (auto simp: commitUpload_def bindS_eq_Inr onServer_eq onTree_eq updateS_def fl_def w_def t_def
        split: prod.splits)
  have w: "cw_target w = target" "cw_tmp w \<noteq> target" using u by (simp_all add: upload_ok_def w_def)
  obtain m where "file_at (cw_tmp w) t = Some (c, m)" using u by (auto simp: upload_ok_def w_def t_def)
  then obtain usr where n: "f_get (cw_tmp w) t = Some (NFile c m usr)"
    by (auto simp: file_at_def split: option.splits node.splits)
  from c w(1) have ren: "rename_file fl (cw_tmp w) target (chmod_file (cw_tmp w) (perm (fe_Mode f)) t) = Inr t'"
    by (auto simp: ChunkWriter_Commit_def Let_def split: if_splits sum.splits)
  have "f_get target t' = Some (NFile c (perm (fe_Mode f)) usr)"
    using rename_file_get [OF ren w(2)] n by (simp add: chmod_file_get)
  then show "file_at target (ss_tree (ps_server p')) = Some (c, perm (fe_Mode f))"
    unfolding p' by (simp add: file_at_def)
  show "map_of (ps_partialUploads p') (fe_Path f) = None" unfolding p' by (simp add: delete_conv')
  show "push_target env h p' = push_target env h p" unfolding p' by (simp add: push_target_def fun_eq_iff)
qed

text \<open>What a successful chunk does.\<close>

lemma pushChunk_ok:
  assumes r: "push_ready env h (fe_Path f) p" and o: "pushChunk env h f p = (p', Inr ())"
  shows "push_ready env h (fe_Path f) p'"
    and "fe_ChunkOffset f = of_nat (length (staged_bytes (fe_Path f) p))"
    and "fe_Mode f = staged_mode f p"
    and "if fe_FinalChunk f then
          push_pending (fe_Path f) p' = None \<and>
          push_published env h (fe_Path f) p' = Some (staged_bytes (fe_Path f) p @ fe_Content f, perm (fe_Mode f))
        else
          push_pending (fe_Path f) p' = Some (staged_bytes (fe_Path f) p @ fe_Content f, fe_Mode f) \<and>
          push_published env h (fe_Path f) p' = push_published env h (fe_Path f) p"
proof -
  obtain target where t: "push_target env h p (fe_Path f) = Inr target"
    "\<forall>n. abs_comps (Dir target) @ [sv_tmps env n] \<noteq> abs_comps target"
    using r by (auto simp: push_ready_def)
  from o obtain p1 up where w: "writeChunk env h f p = (p1, Inr up)"
    and c: "(if fe_FinalChunk f then commitUpload env f up p1 = (p', Inr ()) else p' = p1)"
    by (auto simp: pushChunk_def bindS_eq_Inr result_simps split: if_splits)
  note w1 = writeChunk_ok [OF r w t(1)]
  show "fe_ChunkOffset f = of_nat (length (staged_bytes (fe_Path f) p))" "fe_Mode f = staged_mode f p"
    by (rule w1)+
  have t1: "push_target env h p1 (fe_Path f) = Inr target" using w1(5) t(1) by simp
  have "push_ready env h (fe_Path f) p' \<and> (if fe_FinalChunk f then
          push_pending (fe_Path f) p' = None \<and>
          push_published env h (fe_Path f) p' = Some (staged_bytes (fe_Path f) p @ fe_Content f, perm (fe_Mode f))
        else
          push_pending (fe_Path f) p' = Some (staged_bytes (fe_Path f) p @ fe_Content f, fe_Mode f) \<and>
          push_published env h (fe_Path f) p' = push_published env h (fe_Path f) p)"
  proof (cases "fe_FinalChunk f")
    case True
    then have cm: "commitUpload env f up p1 = (p', Inr ())" using c by simp
    note cm1 = commitUpload_ok [OF w1(1) cm]
    have t': "push_target env h p' (fe_Path f) = Inr target" using cm1(3) t1 by simp
    then have "push_published env h (fe_Path f) p' = file_at (abs_comps target) (ss_tree (ps_server p'))"
      by (simp add: push_published_def)
    then show ?thesis
      using True cm1(1,2) t' t(2) by (simp add: push_pending_def push_ready_def)
  next
    case False
    then have p': "p' = p1" using c by simp
    obtain m where m: "file_at (cw_tmp (pu_writer up)) (ss_tree (ps_server p1)) =
        Some (staged_bytes (fe_Path f) p @ fe_Content f, m)"
      using w1(1) by (auto simp: upload_ok_def)
    have "push_ready env h (fe_Path f) p1"
      unfolding push_ready_def using t1 t(2) w1(1,4) by auto
    then show ?thesis
      using False w1 t(1) t1 m by (simp add: p' push_pending_def push_published_def)
  qed
  then show "push_ready env h (fe_Path f) p'" and "if fe_FinalChunk f then
          push_pending (fe_Path f) p' = None \<and>
          push_published env h (fe_Path f) p' = Some (staged_bytes (fe_Path f) p @ fe_Content f, perm (fe_Mode f))
        else
          push_pending (fe_Path f) p' = Some (staged_bytes (fe_Path f) p @ fe_Content f, fe_Mode f) \<and>
          push_published env h (fe_Path f) p' = push_published env h (fe_Path f) p" by blast+
qed

interpretation push_chunks: chunk_assembler "pushChunk env h" push_pending "push_published env h" "push_ready env h"
  for env :: "'z server_env" and h :: string
proof unfold_locales
  fix e :: file_entry and s s' :: "'z push_state"
  assume r: "push_ready env h (fe_Path e) s" and o: "pushChunk env h e s = (s', Inr ())"
  note ok = pushChunk_ok [OF r o]
  show "fe_ChunkOffset e = of_nat (case push_pending (fe_Path e) s of None \<Rightarrow> 0 | Some (c, m) \<Rightarrow> length c)"
    using ok(2) by (simp add: staged_bytes_def split: option.splits)
  show "push_ready env h (fe_Path e) s'" by (rule ok(1))
  show "if fe_FinalChunk e then
          push_pending (fe_Path e) s' = None \<and>
          push_published env h (fe_Path e) s' =
            Some ((case push_pending (fe_Path e) s of None \<Rightarrow> '''' | Some (c, m) \<Rightarrow> c) @ fe_Content e,
                  perm (fe_Mode e))
        else
          push_pending (fe_Path e) s' =
            Some ((case push_pending (fe_Path e) s of None \<Rightarrow> '''' | Some (c, m) \<Rightarrow> c) @ fe_Content e, fe_Mode e) \<and>
          push_published env h (fe_Path e) s' = push_published env h (fe_Path e) s"
    using ok(4) by (simp add: staged_bytes_def)
  fix c m assume "push_pending (fe_Path e) s = Some (c, m)"
  then show "fe_Mode e = m" using ok(3) by (simp add: staged_mode_def)
qed

text \<open>
  C12: Receiving a file cut into chunks of any size equals writing it whole: after all chunks succeed the
  target has the complete content and the permission bits of the mode.
\<close>

lemma push_chunks_publish:
  assumes "0 < limit" "data \<noteq> []" "push_ready env h path p" "push_pending path p = None"
    and "push_chunks.steps env h (chunk_entries limit path mode data) p = (p', Inr ())"
  shows "push_published env h path p' = Some (data, perm mode)"
  using push_chunks.steps_publish [OF chunk_entries_well_cut [OF assms(1,2)] assms(3,5)] assms(4)
  by (simp add: push_chunks.staged_def chunk_entries_concat [OF assms(1)])

end
