(* ===== verification/Vault_PullRestore.thy ===== *)
theory Vault_PullRestore
  imports Vault_Backup
begin

text \<open>
  \<open>internal/server/svc/restore.go\<close>: \<open>PullRestore\<close> streams the latest snapshot of a user's dataset
  from a temporary clone. The files of the clone are what the ZFS state shows at its mount
  point. The results of \<open>ctx.Err\<close> and \<open>stream.Send\<close> are given per call.
\<close>

record restore_batch =
  rb_BatchId :: string
  rb_Files :: "file_entry list"
  rb_IsLast :: bool

definition restoreChunkContentBytes :: nat where
  "restoreChunkContentBytes = 4 * 1024 * 1024"

fun status_Code :: "error \<Rightarrow> code" where
  "status_Code (Status c s) = c"
| "status_Code (Wrap s e) = status_Code e"
| "status_Code (Permanent e) = status_Code e"
| "status_Code _ = Unknown"

definition batch_id :: "nat \<Rightarrow> string" where
  "batch_id n = ''restore-'' @ format_uint n"

text \<open>The callback: the batches sent so far are its state.\<close>

definition sendFile ::
  "(nat \<Rightarrow> ctx_err option) \<Rightarrow> (nat \<Rightarrow> error option) \<Rightarrow> file_entry \<Rightarrow> (restore_batch list, unit) step" where
  "sendFile ctxErr sendErr f sent =
     (case ctxErr (length sent) of
        Some e \<Rightarrow> (sent, Inl (FromContextError e))
      | None \<Rightarrow>
          (case sendErr (length sent) of
             Some e \<Rightarrow> (sent, Inl e)
           | None \<Rightarrow> (sent @ [\<lparr>rb_BatchId = batch_id (Suc (length sent)), rb_Files = [f], rb_IsLast = False\<rparr>], Inr ())))"

definition afterReadError :: "error \<Rightarrow> unit result \<Rightarrow> error" where
  "afterReadError err cleanup =
     (if status_Code err = DeadlineExceeded \<or> status_Code err = Canceled
      then (case cleanup of
              Inl _ \<Rightarrow> Status Internal ''restore canceled and destroy recovery clone: %v'' | Inr _ \<Rightarrow> err)
      else (case cleanup of
              Inl _ \<Rightarrow> Status Internal ''read files: %v; destroy recovery clone: %v''
            | Inr _ \<Rightarrow> Status Internal ''read files: %v''))"

text \<open>Everything after the authorisation.\<close>

definition streamSnapshot ::
  "'z server_env \<Rightarrow> string \<Rightarrow> int \<Rightarrow> (nat \<Rightarrow> ctx_err option) \<Rightarrow> (nat \<Rightarrow> error option) \<Rightarrow>
   'z server_state \<Rightarrow> 'z server_state \<times> restore_batch list \<times> unit result" where
  "streamSnapshot env dsName nanos ctxErr sendErr s =
     (case mapErrS (\<lambda>_. Status FailedPrecondition ''find recovery snapshot: %v'')
             (onZfs (LatestSnapshot (sv_exec env) dsName)) s of
        (s1, Inl e) \<Rightarrow> (s1, [], Inl e)
      | (s1, Inr snapshot) \<Rightarrow>
     (case mapErrS (\<lambda>_. Status Internal ''create recovery clone: %v'')
             (onZfs (CreateRestoreClone (zfs_of env) (sv_exec env) nanos snapshot)) s1 of
        (s2, Inl e) \<Rightarrow> (s2, [], Inl e)
      | (s2, Inr (clone, mountpoint)) \<Rightarrow>
     (case ReadAllChunksFrom (sv_fs env (ss_tick s2)) mountpoint restoreChunkContentBytes
             (sendFile ctxErr sendErr) (sv_view env (ss_zfs s2)) [] of
        (sent, Inl err) \<Rightarrow>
          (case onZfs (DestroyRestoreClone (sv_exec env) clone) s2 of
             (s3, cleanup) \<Rightarrow> (s3, sent, Inl (afterReadError err cleanup)))
      | (sent, Inr _) \<Rightarrow>
          (case onZfs (DestroyRestoreClone (sv_exec env) clone) s2 of
             (s3, Inl e) \<Rightarrow> (s3, sent, Inl (Status Internal ''destroy recovery clone: %v''))
           | (s3, Inr _) \<Rightarrow>
               (case ctxErr (length sent) of
                  Some e \<Rightarrow> (s3, sent, Inl (FromContextError e))
                | None \<Rightarrow>
                    (case sendErr (length sent) of
                       Some e \<Rightarrow> (s3, sent, Inl e)
                     | None \<Rightarrow>
                         (s3, sent @ [\<lparr>rb_BatchId = batch_id (length sent + 1), rb_Files = [], rb_IsLast = True\<rparr>],
                          Inr ())))))))"

definition PullRestore ::
  "'z server_env \<Rightarrow> request_ctx \<Rightarrow> int \<Rightarrow> (nat \<Rightarrow> ctx_err option) \<Rightarrow> (nat \<Rightarrow> error option) \<Rightarrow>
   quota_request \<Rightarrow> 'z server_state \<Rightarrow> 'z server_state \<times> restore_batch list \<times> unit result" where
  "PullRestore env cx nanos ctxErr sendErr req s =
     (case bindS (validUser (qr_Username req)) (\<lambda>_.
             authorize env cx (service_prefix @ ''PullRestore'') (qr_Username req)
               (bindS (verifyPullRestoreSignature env (cx_hostname cx) req) (\<lambda>_.
                consumeServerNonce env (qr_Nonce req)))) s of
        (s1, Inl e) \<Rightarrow> (s1, [], Inl e)
      | (s1, Inr _) \<Rightarrow>
          streamSnapshot env (dataset_of env (cx_hostname cx) (qr_Username req)) nanos ctxErr sendErr s1)"

section \<open>What is sent\<close>

definition sent_batches :: "nat \<Rightarrow> file_entry list \<Rightarrow> restore_batch list" where
  "sent_batches n fs = map (\<lambda>(i, f). \<lparr>rb_BatchId = batch_id (Suc i), rb_Files = [f], rb_IsLast = False\<rparr>)
     (zip [n..<n + length fs] fs)"

lemma sent_batches_Cons:
  "sent_batches n (f # fs) = \<lparr>rb_BatchId = batch_id (Suc n), rb_Files = [f], rb_IsLast = False\<rparr> # sent_batches (Suc n) fs"
  by (simp add: sent_batches_def upt_conv_Cons del: upt_Suc)

lemma sendFile_ok:
  "sendFile ctxErr sendErr f sent = (sent', Inr u) \<Longrightarrow>
     sent' = sent @ [\<lparr>rb_BatchId = batch_id (Suc (length sent)), rb_Files = [f], rb_IsLast = False\<rparr>]"
  by (auto simp: sendFile_def split: option.splits)

lemma sendFiles_ok:
  "foldS (sendFile ctxErr sendErr) fs sent = (sent', Inr ()) \<Longrightarrow> sent' = sent @ sent_batches (length sent) fs"
proof (induction fs arbitrary: sent)
  case Nil
  then show ?case by (simp add: sent_batches_def)
next
  case (Cons f fs)
  let ?b = "\<lparr>rb_BatchId = batch_id (Suc (length sent)), rb_Files = [f], rb_IsLast = False\<rparr>"
  from Cons.prems obtain s1 where "sendFile ctxErr sendErr f sent = (s1, Inr ())"
      "foldS (sendFile ctxErr sendErr) fs s1 = (sent', Inr ())"
    by (auto split: prod.splits sum.splits)
  then have "foldS (sendFile ctxErr sendErr) fs (sent @ [?b]) = (sent', Inr ())"
    using sendFile_ok by blast
  from Cons.IH [OF this] show ?case by (simp add: sent_batches_Cons)
qed

lemma CreateRestoreClone_name:
  assumes "CreateRestoreClone zz exec nanos snap z = (z', Inr (clone, mp))"
  shows "clone = cloneName zz nanos"
proof -
  let ?c = "cloneName zz nanos"
  from assms obtain s1 where s1: "(case zfs exec (getArgs ''mountpoint'' ?c) s1 of
            (s2, Inl e) \<Rightarrow> (fst (DestroyRestoreClone exec ?c s2), Inl (Wrap ''get clone mountpoint %q'' e))
          | (s2, Inr mountpoint) \<Rightarrow>
              if mountpoint = [] \<or> mountpoint = ''none'' \<or> mountpoint = ''legacy''
              then (fst (DestroyRestoreClone exec ?c s2), Inl (Errorf ''clone %q has unusable mountpoint %q''))
              else (s2, Inr (?c, mountpoint))) = (z', Inr (clone, mp))"
    by (simp add: CreateRestoreClone_def Let_def failS_def bindS_eq_Inr split: if_splits) blast
  obtain s2 r2 where "zfs exec (getArgs ''mountpoint'' ?c) s1 = (s2, r2)" by (rule prod.exhaust)
  with s1 show ?thesis by (cases r2) (auto split: if_splits)
qed

text \<open>
  A restore that succeeds sent every regular file of the snapshot's clone, whole or cut into
  chunks, under its path in the dataset, and then the closing batch; the clone is gone.
\<close>

lemma streamSnapshot_ok:
  assumes "streamSnapshot env ds nanos ctxErr sendErr s = (s', sent, Inr ())"
    and noflt: "\<And>n p. \<not> sv_fs env n LstatOp p" "\<And>n p. \<not> sv_fs env n ReadOp p"
  obtains snap z1 z2 mp where
    "LatestSnapshot (sv_exec env) ds (ss_zfs s) = (z1, Inr snap)"
    "CreateRestoreClone (zfs_of env) (sv_exec env) nanos snap z1 = (z2, Inr (cloneName (zfs_of env) nanos, mp))"
    "DestroyRestoreClone (sv_exec env) (cloneName (zfs_of env) nanos) z2 = (ss_zfs s', Inr ())"
    "\<And>base. is_abs mp \<Longrightarrow> abs_comps mp = base \<Longrightarrow> is_below_dir base (sv_view env z2) \<Longrightarrow> f_wf (sv_view env z2) \<Longrightarrow>
      (let fs = concat (map (\<lambda>(r, c, m). entries_of restoreChunkContentBytes (path_join r) m c)
                   (tree_files base (sv_view env z2)))
       in sent = sent_batches 0 fs @ [\<lparr>rb_BatchId = batch_id (Suc (length fs)), rb_Files = [], rb_IsLast = True\<rparr>])"
proof -
  from assms(1) obtain z1 snap z2 clone mp sent0 where st:
    "LatestSnapshot (sv_exec env) ds (ss_zfs s) = (z1, Inr snap)"
    "CreateRestoreClone (zfs_of env) (sv_exec env) nanos snap z1 = (z2, Inr (clone, mp))"
    "ReadAllChunksFrom (sv_fs env (ss_tick s)) mp restoreChunkContentBytes (sendFile ctxErr sendErr) (sv_view env z2) [] = (sent0, Inr ())"
    "DestroyRestoreClone (sv_exec env) clone z2 = (ss_zfs s', Inr ())"
    "sent = sent0 @ [\<lparr>rb_BatchId = batch_id (length sent0 + 1), rb_Files = [], rb_IsLast = True\<rparr>]"
    by (auto simp: streamSnapshot_def mapErrS_def onZfs_def mapErr_def split: prod.splits sum.splits option.splits)
  have cl: "clone = cloneName (zfs_of env) nanos" by (rule CreateRestoreClone_name [OF st(2)])
  show thesis
  proof (rule that [OF st(1) st(2) [unfolded cl] st(4) [unfolded cl]])
    fix base assume b: "is_abs mp" "abs_comps mp = base" "is_below_dir base (sv_view env z2)" "f_wf (sv_view env z2)"
    let ?fs = "concat (map (\<lambda>(r, c, m). entries_of restoreChunkContentBytes (path_join r) m c)
                   (tree_files base (sv_view env z2)))"
    have n: "normals base" using b(2) by (metis abs_comps_normals)
    have mp: "Clean mp = abs_path base" using Clean_abs [OF b(1)] b(2) by simp
    have "read_tree (sv_fs env (ss_tick s)) mp (entries_of restoreChunkContentBytes) (sendFile ctxErr sendErr) (sv_view env z2) []
        = read_tree (sv_fs env (ss_tick s)) (abs_path base) (entries_of restoreChunkContentBytes) (sendFile ctxErr sendErr) (sv_view env z2) []"
      using b(1) n by (simp add: read_tree_def mp)
    also have "\<dots> = foldS (sendFile ctxErr sendErr) ?fs []"
      by (rule read_tree_files [OF n b(3,4)]) (rule noflt)+
    finally have "foldS (sendFile ctxErr sendErr) ?fs [] = (sent0, Inr ())"
      using st(3) b(1) by (simp add: ReadAllChunksFrom_def restoreChunkContentBytes_def)
    from sendFiles_ok [OF this] have s0: "sent0 = sent_batches 0 ?fs" by simp
    then have "length sent0 = length ?fs" by (simp add: sent_batches_def)
    then show "let fs = ?fs in sent = sent_batches 0 fs @ [\<lparr>rb_BatchId = batch_id (Suc (length fs)), rb_Files = [], rb_IsLast = True\<rparr>]"
      using st(5) s0 by (simp add: Let_def)
  qed
qed

text \<open>The authorisation touches nothing in ZFS.\<close>

lemma pull_auth_zfs:
  "keeps (\<lambda>s1. ss_zfs s1 = z) (bindS (validUser (qr_Username req)) (\<lambda>_.
     authorize env cx (service_prefix @ ''PullRestore'') (qr_Username req)
       (bindS (verifyPullRestoreSignature env (cx_hostname cx) req) (\<lambda>_. consumeServerNonce env (qr_Nonce req)))))"
proof (intro keeps_bind authorize_keeps)
  show "keeps (\<lambda>s1. ss_zfs s1 = z) (validUser (qr_Username req))"
    unfolding validUser_def by (rule keeps_check)
  show "keeps (\<lambda>s1. ss_zfs s1 = z) (verifyPullRestoreSignature env (cx_hostname cx) req)"
    by (simp add: keeps_def verifyPullRestoreSignature_def verifyRequestSignature_def)
  show "keeps (\<lambda>s1. ss_zfs s1 = z) (consumeServerNonce env (qr_Nonce req))"
    by (rule consumeServerNonce_keeps) simp
qed simp

lemma PullRestore_ok:
  assumes "PullRestore env cx nanos ctxErr sendErr req s = (s', sent, Inr ())"
  obtains s1 where "ss_zfs s1 = ss_zfs s"
    "streamSnapshot env (dataset_of env (cx_hostname cx) (qr_Username req)) nanos ctxErr sendErr s1 = (s', sent, Inr ())"
proof -
  obtain s1 r1 where a: "bindS (validUser (qr_Username req)) (\<lambda>_.
     authorize env cx (service_prefix @ ''PullRestore'') (qr_Username req)
       (bindS (verifyPullRestoreSignature env (cx_hostname cx) req) (\<lambda>_. consumeServerNonce env (qr_Nonce req)))) s = (s1, r1)"
    by (rule prod.exhaust)
  have "ss_zfs s1 = ss_zfs s" using keepsD [OF pull_auth_zfs a] by simp
  then show thesis using that assms a by (cases r1) (auto simp: PullRestore_def)
qed

text \<open>
  C16: A restore sends a batch or touches the ZFS state only for a valid user name that the host may vouch
  for, or with a signature that verifies under a signing key of that user on that host and an unused,
  unexpired nonce.
\<close>

lemma PullRestore_authorised:
  assumes r: "PullRestore env cx nanos ctxErr sendErr req s = (s', sent, r)"
    and o: "is_abs (sv_KeysDir env)" "hostnameRe (cx_hostname cx)" and wf: "f_wf (ss_keys s)"
    and ne: "sent \<noteq> [] \<or> ss_zfs s' \<noteq> ss_zfs s"
  shows "usernameRe (qr_Username req) \<and>
    (let d = fst (DecideAuth (sv_Cfg env) (cx_hostname cx) (cx_uid cx) (qr_Username req) (cx_groups cx)
                   (service_prefix @ ''PullRestore''))
     in d = DecisionAllow \<or>
        d = DecisionRequireSig \<and>
        (\<exists>k data sig. signing_key env (cx_hostname cx) (qr_Username req) (ss_keys s) k \<and>
           sv_marshalRequest env ''PullRestore'' (qr_Username req) = Inr data \<and>
           unmarshalSig (sv_lib env) (qr_Signature req) = Some sig \<and>
           verifyKey (sv_lib env) k (qr_Nonce req @ ''PullRestore'' @ sv_sha env data) sig) \<and>
        snd (ConsumeNonce (sv_db env) (sv_now env) (hex_encode (qr_Nonce req)) (ss_nonces s)) = Inr True)"
proof -
  let ?verify = "bindS (verifyPullRestoreSignature env (cx_hostname cx) req) (\<lambda>_. consumeServerNonce env (qr_Nonce req))"
  let ?auth = "authorize env cx (service_prefix @ ''PullRestore'') (qr_Username req) ?verify"
  obtain s1 r1 where a: "bindS (validUser (qr_Username req)) (\<lambda>_. ?auth) s = (s1, r1)" by force
  have "ss_zfs s1 = ss_zfs s" using keepsD [OF pull_auth_zfs a] by simp
  then have "r1 = Inr ()" using r a ne by (cases r1) (auto simp: PullRestore_def)
  then have u: "usernameRe (qr_Username req)" and au: "?auth s = (s1, Inr ())"
    using a by (auto simp: bindS_eq_Inr result_simps)
  have o': "valid_owner (sv_KeysDir env) (cx_hostname cx) (qr_Username req)"
    using o u by (simp add: valid_owner_def)
  from au show ?thesis
  proof (rule authorize_ok)
    fix l assume "fst (DecideAuth (sv_Cfg env) (cx_hostname cx) (cx_uid cx) (qr_Username req) (cx_groups cx)
                   (service_prefix @ ''PullRestore'')) = DecisionAllow"
    then show ?thesis using u by simp
  next
    fix s2 l assume d: "fst (DecideAuth (sv_Cfg env) (cx_hostname cx) (cx_uid cx) (qr_Username req) (cx_groups cx)
                   (service_prefix @ ''PullRestore'')) = DecisionRequireSig"
      and v: "?verify s = (s2, Inr ())"
    from v obtain s3 where v3: "verifyPullRestoreSignature env (cx_hostname cx) req s = (s3, Inr ())"
      "consumeServerNonce env (qr_Nonce req) s3 = (s2, Inr ())" by (auto simp: bindS_eq_Inr)
    have "s3 = s" using v3(1) verifyRequestSignature_state by (simp add: verifyPullRestoreSignature_def)
    then have n: "snd (ConsumeNonce (sv_db env) (sv_now env) (hex_encode (qr_Nonce req)) (ss_nonces s)) = Inr True"
      using v3(2) by (auto elim: consumeServerNonce_ok)
    from verifyRequestSignature_ok [OF o' wf v3(1) [unfolded verifyPullRestoreSignature_def]] n d u
    show ?thesis by simp
  qed
qed

end
