(* ===== verification/Vault_AgentStore.thy ===== *)
theory Vault_AgentStore
  imports Vault_Store
begin

text \<open>
  \<open>pkg/store\<close>, the agent's side: the file snapshots the differ compares against, the task
  history behind the status API and the web delegations. Nullable columns are options; the
  queries' \<open>COALESCE\<close> is \<open>getOpt\<close>.
\<close>

definition getOpt :: "'a \<Rightarrow> 'a option \<Rightarrow> 'a" where
  "getOpt d v = (case v of None \<Rightarrow> d | Some x \<Rightarrow> x)"

lemma getOpt_simps [simp]: "getOpt d None = d" "getOpt d (Some x) = x"
  by (simp_all add: getOpt_def)

section \<open>File snapshots\<close>

record file_snapshot =
  fs_ServerID :: string
  fs_Username :: string
  fs_FilePath :: string
  fs_Mtime :: int
  fs_Size :: int
  fs_Mode :: "32 word"
  fs_SHA256 :: string
  fs_SyncedAt :: int

type_synonym snapshots = "file_snapshot list"

definition snap_key :: "file_snapshot \<Rightarrow> string \<times> string \<times> string" where
  "snap_key s = (fs_ServerID s, fs_Username s, fs_FilePath s)"

definition UpsertSnapshot :: "faults \<Rightarrow> int \<Rightarrow> file_snapshot \<Rightarrow> snapshots \<Rightarrow> snapshots result" where
  "UpsertSnapshot fl now s t =
     (if fl ExecUpsertSnapshot then Inl (Errorf ''db'')
      else Inr (row_replace snap_key (s\<lparr>fs_SyncedAt := now\<rparr>) t))"

definition GetSnapshot ::
  "faults \<Rightarrow> string \<Rightarrow> string \<Rightarrow> string \<Rightarrow> snapshots \<Rightarrow> file_snapshot option result" where
  "GetSnapshot fl serverID username filePath t =
     (if fl QuerySnapshot then Inl (Errorf ''db'')
      else Inr (row_find snap_key (serverID, username, filePath) t))"

definition DeleteSnapshot ::
  "faults \<Rightarrow> string \<Rightarrow> string \<Rightarrow> string \<Rightarrow> snapshots \<Rightarrow> snapshots result" where
  "DeleteSnapshot fl serverID username filePath t =
     (if fl ExecDeleteSnapshot then Inl (Errorf ''db'')
      else Inr (row_delete snap_key (serverID, username, filePath) t))"

definition ListUserSnapshots ::
  "faults \<Rightarrow> string \<Rightarrow> string \<Rightarrow> snapshots \<Rightarrow> snapshots result" where
  "ListUserSnapshots fl serverID username t =
     (if fl QuerySnapshots then Inl (Errorf ''db'')
      else Inr (filter (\<lambda>s. fs_ServerID s = serverID \<and> fs_Username s = username) t))"

interpretation snap_table: keyed_table "row_find snap_key" "row_replace snap_key"
    "row_delete snap_key" snap_key
  by unfold_locales (simp_all add: row_find_replace row_find_delete)

definition snaps_wf :: "snapshots \<Rightarrow> bool" where
  "snaps_wf t \<longleftrightarrow> distinct (map snap_key t)"

lemma snaps_wf_replace: "snaps_wf t \<Longrightarrow> snaps_wf (row_replace snap_key s t)"
  by (simp add: snaps_wf_def distinct_row_replace)

lemma snaps_wf_delete: "snaps_wf t \<Longrightarrow> snaps_wf (row_delete snap_key k t)"
  by (simp add: snaps_wf_def distinct_row_delete)

lemma UpsertSnapshot_wf: "UpsertSnapshot fl now s t = Inr t' \<Longrightarrow> snaps_wf t \<Longrightarrow> snaps_wf t'"
  by (auto simp: UpsertSnapshot_def snaps_wf_replace split: if_splits)

lemma snap_key_synced [simp]: "snap_key (s\<lparr>fs_SyncedAt := n\<rparr>) = snap_key s"
  by (simp add: snap_key_def)

text \<open>The listing of one user on one server is exactly that user's rows, by key.\<close>

lemma ListUserSnapshots_find:
  assumes "ListUserSnapshots fl sid u t = Inr rows"
  shows "row_find snap_key (sid, u, p) rows = row_find snap_key (sid, u, p) t"
proof -
  have rows: "rows = filter (\<lambda>s. fs_ServerID s = sid \<and> fs_Username s = u) t"
    using assms by (simp add: ListUserSnapshots_def split: if_splits)
  show ?thesis
    unfolding rows by (induction t) (auto simp: snap_key_def)
qed

section \<open>Task history\<close>

text \<open>A row as stored, and the record a query returns.\<close>

record task_row =
  tr_task_id :: string
  tr_server_id :: string
  tr_username :: string
  tr_phase :: string
  tr_stats_json :: "string option"
  tr_error :: "string option"
  tr_started_at :: int
  tr_ended_at :: "int option"

record task_record =
  TaskID :: string
  ServerID :: string
  Username :: string
  Phase :: string
  StatsJSON :: string
  Error :: string
  StartedAt :: int
  EndedAt :: int

type_synonym tasks = "task_row list"

definition scanTask :: "task_row \<Rightarrow> task_record" where
  "scanTask r = \<lparr>TaskID = tr_task_id r, ServerID = tr_server_id r, Username = tr_username r,
     Phase = tr_phase r, StatsJSON = getOpt '''' (tr_stats_json r),
     Error = getOpt '''' (tr_error r), StartedAt = tr_started_at r,
     EndedAt = getOpt 0 (tr_ended_at r)\<rparr>"

definition InsertTask :: "faults \<Rightarrow> int \<Rightarrow> string \<Rightarrow> string \<Rightarrow> string \<Rightarrow> tasks \<Rightarrow> tasks result" where
  "InsertTask fl now taskID serverID username t =
     (if fl ExecInsertTask \<or> row_find tr_task_id taskID t \<noteq> None
      then Inl (Errorf ''insert task: %w'')
      else Inr (t @ [\<lparr>tr_task_id = taskID, tr_server_id = serverID, tr_username = username,
        tr_phase = ''PENDING'', tr_stats_json = None, tr_error = None,
        tr_started_at = now, tr_ended_at = None\<rparr>]))"

definition UpdateTaskPhase :: "faults \<Rightarrow> int \<Rightarrow> string \<Rightarrow> string \<Rightarrow> string \<Rightarrow> tasks \<Rightarrow> tasks result" where
  "UpdateTaskPhase fl now taskID phase statsJSON t =
     (let ended = (if phase = ''COMPLETED'' \<or> phase = ''FAILED'' then Some now else None)
      in if fl ExecTaskPhase then Inl (Errorf ''update task phase: %w'')
         else Inr (map (\<lambda>r. if tr_task_id r = taskID
           then r\<lparr>tr_phase := phase, tr_stats_json := Some statsJSON, tr_ended_at := ended\<rparr>
           else r) t))"

definition UpdateTaskFailure :: "faults \<Rightarrow> int \<Rightarrow> string \<Rightarrow> string \<Rightarrow> tasks \<Rightarrow> tasks result" where
  "UpdateTaskFailure fl now taskID reason t =
     (let reason = (if reason = '''' then ''task failed'' else reason)
      in if fl ExecTaskFailure then Inl (Errorf ''update task failure: %w'')
         else Inr (map (\<lambda>r. if tr_task_id r = taskID
           then r\<lparr>tr_phase := ''FAILED'', tr_error := Some reason, tr_ended_at := Some now\<rparr>
           else r) t))"

definition FailIncompleteTasks :: "faults \<Rightarrow> int \<Rightarrow> string \<Rightarrow> tasks \<Rightarrow> tasks result" where
  "FailIncompleteTasks fl now reason t =
     (let reason = (if reason = '''' then ''agent stopped before task completed'' else reason)
      in if fl ExecFailIncomplete then Inl (Errorf ''fail incomplete tasks: %w'')
         else Inr (map (\<lambda>r. if tr_phase r \<noteq> ''COMPLETED'' \<and> tr_phase r \<noteq> ''FAILED''
           then r\<lparr>tr_phase := ''FAILED'', tr_error := Some reason, tr_ended_at := Some now\<rparr>
           else r) t))"

definition GetTask :: "faults \<Rightarrow> string \<Rightarrow> tasks \<Rightarrow> task_record option result" where
  "GetTask fl taskID t =
     (if fl QueryTask then Inl (Errorf ''get task: %w'')
      else Inr (map_option scanTask (row_find tr_task_id taskID t)))"

text \<open>The first row in the order \<open>started_at DESC, task_id DESC\<close> (ids compared bytewise).\<close>

definition later_task :: "task_row \<Rightarrow> task_row \<Rightarrow> bool" where
  "later_task r s \<longleftrightarrow> tr_started_at r > tr_started_at s \<or>
     tr_started_at r = tr_started_at s \<and> tr_task_id r > tr_task_id s"

fun latest_row :: "task_row list \<Rightarrow> task_row option" where
  "latest_row [] = None"
| "latest_row (r # rs) = (case latest_row rs of None \<Rightarrow> Some r
     | Some s \<Rightarrow> Some (if later_task s r then s else r))"

definition GetLatestTaskForUser :: "faults \<Rightarrow> string \<Rightarrow> tasks \<Rightarrow> task_record option result" where
  "GetLatestTaskForUser fl username t =
     (if fl QueryLatestTask then Inl (Errorf ''get task: %w'')
      else Inr (map_option scanTask (latest_row (filter (\<lambda>r. tr_username r = username) t))))"

definition terminal_phase :: "string \<Rightarrow> bool" where
  "terminal_phase p \<longleftrightarrow> p = ''COMPLETED'' \<or> p = ''FAILED''"

definition tasks_wf :: "tasks \<Rightarrow> bool" where
  "tasks_wf t \<longleftrightarrow> distinct (map tr_task_id t) \<and>
     (\<forall>r \<in> set t. terminal_phase (tr_phase r) = (tr_ended_at r \<noteq> None))"

lemma tasks_wfI:
  "distinct (map tr_task_id t) \<Longrightarrow>
   (\<And>r. r \<in> set t \<Longrightarrow> terminal_phase (tr_phase r) = (tr_ended_at r \<noteq> None)) \<Longrightarrow> tasks_wf t"
  by (simp add: tasks_wf_def)

lemma map_ids: "(\<And>r. tr_task_id (f r) = tr_task_id r) \<Longrightarrow> map tr_task_id (map f t) = map tr_task_id t"
  by (induction t) auto

lemma InsertTask_wf: "InsertTask fl now i sv u t = Inr t' \<Longrightarrow> tasks_wf t \<Longrightarrow> tasks_wf t'"
  by (auto simp: InsertTask_def tasks_wf_def row_find_None terminal_phase_def split: if_splits)

lemma tasks_wf_map:
  assumes "tasks_wf t" "\<And>r. tr_task_id (f r) = tr_task_id r"
    and "\<And>r. terminal_phase (tr_phase r) = (tr_ended_at r \<noteq> None) \<Longrightarrow>
           terminal_phase (tr_phase (f r)) = (tr_ended_at (f r) \<noteq> None)"
  shows "tasks_wf (map f t)"
  using assms map_ids [of f t] by (simp add: tasks_wf_def del: map_map)

lemma UpdateTaskPhase_wf: "UpdateTaskPhase fl now i ph js t = Inr t' \<Longrightarrow> tasks_wf t \<Longrightarrow> tasks_wf t'"
  unfolding UpdateTaskPhase_def Let_def
  by (auto simp: terminal_phase_def intro!: tasks_wf_map split: if_splits)

lemma UpdateTaskFailure_wf: "UpdateTaskFailure fl now i rs t = Inr t' \<Longrightarrow> tasks_wf t \<Longrightarrow> tasks_wf t'"
  unfolding UpdateTaskFailure_def Let_def
  by (auto simp: terminal_phase_def intro!: tasks_wf_map split: if_splits)

lemma FailIncompleteTasks_wf: "FailIncompleteTasks fl now rs t = Inr t' \<Longrightarrow> tasks_wf t \<Longrightarrow> tasks_wf t'"
  unfolding FailIncompleteTasks_def Let_def
  by (auto simp: terminal_phase_def intro!: tasks_wf_map split: if_splits)

lemmas tasks_wf_ops = InsertTask_wf UpdateTaskPhase_wf UpdateTaskFailure_wf FailIncompleteTasks_wf

text \<open>The calls on the task history as steps.\<close>

inductive task_step :: "tasks \<Rightarrow> tasks \<Rightarrow> bool" where
  ts_insert: "InsertTask fl now i sv u t = Inr t' \<Longrightarrow> task_step t t'"
| ts_phase: "UpdateTaskPhase fl now i ph js t = Inr t' \<Longrightarrow> task_step t t'"
| ts_failure: "UpdateTaskFailure fl now i reason t = Inr t' \<Longrightarrow> task_step t t'"
| ts_sweep: "FailIncompleteTasks fl now reason t = Inr t' \<Longrightarrow> task_step t t'"

inductive_cases task_stepE: "task_step t t'"

text \<open>After the start-up sweep no task is left in progress, and finished ones are untouched.\<close>

lemma FailIncompleteTasks_terminal:
  "FailIncompleteTasks fl now rs t = Inr t' \<Longrightarrow> r \<in> set t' \<Longrightarrow> terminal_phase (tr_phase r)"
  by (auto simp: FailIncompleteTasks_def terminal_phase_def Let_def split: if_splits)

lemma FailIncompleteTasks_finished:
  assumes "FailIncompleteTasks fl now rs t = Inr t'" "row_find tr_task_id i t = Some r"
    and "terminal_phase (tr_phase r)"
  shows "row_find tr_task_id i t' = Some r"
  using assms by (auto simp: FailIncompleteTasks_def terminal_phase_def Let_def row_find_map split: if_splits)

lemma not_later_task:
  "\<not> later_task r s \<longleftrightarrow> tr_started_at r < tr_started_at s \<or>
     tr_started_at r = tr_started_at s \<and> tr_task_id r \<le> tr_task_id s"
  by (auto simp: later_task_def)

lemma lex_trans:
  fixes a b c :: "'a::linorder" and i j k :: "'b::linorder"
  shows "a < b \<or> a = b \<and> i \<le> j \<Longrightarrow> b < c \<or> b = c \<and> j \<le> k \<Longrightarrow> a < c \<or> a = c \<and> i \<le> k"
  by (metis less_trans order_trans)

lemma not_later_trans: "\<not> later_task x s \<Longrightarrow> \<not> later_task s r \<Longrightarrow> \<not> later_task x r"
  unfolding not_later_task by (rule lex_trans)

lemma lex_less_le:
  fixes a b :: "'a::linorder" and i j :: "'b::linorder"
  shows "a > b \<or> a = b \<and> i > j \<Longrightarrow> b < a \<or> b = a \<and> j \<le> i"
  by auto

lemma later_asym: "later_task s r \<Longrightarrow> \<not> later_task r s"
  unfolding not_later_task unfolding later_task_def by (rule lex_less_le)

lemma latest_row_max:
  "latest_row rs = Some m \<Longrightarrow> m \<in> set rs \<and> (\<forall>r \<in> set rs. \<not> later_task r m)"
proof (induction rs arbitrary: m)
  case Nil
  then show ?case by simp
next
  case (Cons r rs)
  show ?case
  proof (cases "latest_row rs")
    case None
    then have "rs = []" by (cases rs) (auto split: option.splits)
    then show ?thesis using Cons.prems None by (auto simp: later_task_def)
  next
    case (Some s)
    then have s: "s \<in> set rs" "\<forall>x \<in> set rs. \<not> later_task x s" using Cons.IH by auto
    have m: "m = (if later_task s r then s else r)" using Cons.prems Some by simp
    show ?thesis
    proof (cases "later_task s r")
      case True
      from m True have "m = s" by simp
      then show ?thesis using s later_asym [OF True] by simp
    next
      case False
      then have "m = r" using m by simp
      moreover have "\<not> later_task r r" by (simp add: later_task_def)
      ultimately show ?thesis using s(2) not_later_trans [OF _ False] by simp
    qed
  qed
qed

section \<open>Web delegations\<close>

record web_delegation =
  wd_Username :: string
  wd_GatewayCN :: string
  wd_DelegationPubKey :: string
  wd_ExpiresAt :: int
  wd_CreatedAt :: int
  wd_RevokedAt :: "int option"

type_synonym web_delegations = "web_delegation list"

definition wd_key :: "web_delegation \<Rightarrow> string \<times> string" where
  "wd_key d = (wd_Username d, wd_GatewayCN d)"

text \<open>The upsert updates the conflicting row in place, or appends a new one.\<close>

definition UpsertWebDelegation ::
  "faults \<Rightarrow> web_delegation \<Rightarrow> web_delegations \<Rightarrow> web_delegations result" where
  "UpsertWebDelegation fl d t =
     (let row = d\<lparr>wd_RevokedAt := None\<rparr>
      in if fl ExecUpsertDelegation then Inl (Errorf ''upsert web delegation: %w'')
         else if row_find wd_key (wd_key d) t = None then Inr (t @ [row])
         else Inr (map (\<lambda>x. if wd_key x = wd_key d then row else x) t))"

definition GetWebDelegation ::
  "faults \<Rightarrow> string \<Rightarrow> string \<Rightarrow> web_delegations \<Rightarrow> web_delegation option result" where
  "GetWebDelegation fl username gatewayCN t =
     (if fl QueryDelegation then Inl (Errorf ''db'')
      else Inr (row_find wd_key (username, gatewayCN) t))"

definition RevokeWebDelegation ::
  "faults \<Rightarrow> int \<Rightarrow> string \<Rightarrow> string \<Rightarrow> web_delegations \<Rightarrow> web_delegations result" where
  "RevokeWebDelegation fl now username gatewayCN t =
     (if fl ExecRevokeDelegation then Inl (Errorf ''revoke web delegation: %w'')
      else Inr (map (\<lambda>d. if wd_Username d = username \<and> wd_GatewayCN d = gatewayCN \<and>
                            wd_RevokedAt d = None
                         then d\<lparr>wd_RevokedAt := Some now\<rparr> else d) t))"

definition ListWebDelegations ::
  "faults \<Rightarrow> string \<Rightarrow> web_delegations \<Rightarrow> web_delegations result" where
  "ListWebDelegations fl username t =
     (if fl QueryDelegations then Inl (Errorf ''list web delegations: %w'')
      else Inr (sort_key wd_GatewayCN (filter (\<lambda>d. wd_Username d = username) t)))"

text \<open>A delegation authorizes its gateway while it is neither revoked nor expired.\<close>

definition delegation_live :: "int \<Rightarrow> web_delegation \<Rightarrow> bool" where
  "delegation_live now d \<longleftrightarrow> wd_RevokedAt d = None \<and> now \<le> wd_ExpiresAt d"

lemma UpsertWebDelegation_find:
  assumes "UpsertWebDelegation fl d t = Inr t'"
  shows "row_find wd_key k t' =
    (if k = wd_key d then Some (d\<lparr>wd_RevokedAt := None\<rparr>) else row_find wd_key k t)"
proof (cases "row_find wd_key (wd_key d) t")
  case None
  then show ?thesis
    using assms
    by (auto simp: UpsertWebDelegation_def Let_def row_find_append wd_key_def
             split: if_splits option.splits)
next
  case (Some r)
  have "row_find wd_key k (map (\<lambda>x. if wd_key x = wd_key d then d\<lparr>wd_RevokedAt := None\<rparr> else x) t) =
    map_option (\<lambda>x. if wd_key x = wd_key d then d\<lparr>wd_RevokedAt := None\<rparr> else x) (row_find wd_key k t)"
    by (rule row_find_map) (simp add: wd_key_def)
  then show ?thesis
    using assms Some row_find_key [of wd_key k t]
    by (auto simp: UpsertWebDelegation_def Let_def split: if_splits)
       (cases "row_find wd_key k t"; auto)
qed

lemma RevokeWebDelegation_find:
  assumes "RevokeWebDelegation fl now u g t = Inr t'"
  shows "row_find wd_key k t' =
    (if k = (u, g) then map_option (\<lambda>d. if wd_RevokedAt d = None then d\<lparr>wd_RevokedAt := Some now\<rparr> else d)
                          (row_find wd_key k t)
     else row_find wd_key k t)"
proof -
  let ?f = "\<lambda>d. if wd_Username d = u \<and> wd_GatewayCN d = g \<and> wd_RevokedAt d = None
                 then d\<lparr>wd_RevokedAt := Some now\<rparr> else d"
  have "t' = map ?f t" using assms by (simp add: RevokeWebDelegation_def split: if_splits)
  moreover have "row_find wd_key k (map ?f t) = map_option ?f (row_find wd_key k t)"
    by (rule row_find_map) (simp add: wd_key_def)
  ultimately show ?thesis
    using row_find_key [of wd_key k t] by (cases "row_find wd_key k t") (auto simp: wd_key_def)
qed

text \<open>
  C40: In every reachable task history the task ids are unique and a task has an end time exactly when
  its phase is COMPLETED or FAILED.
\<close>

theorem task_history_invariant:
  assumes "task_step\<^sup>*\<^sup>* [] t"
  shows "tasks_wf t"
  using assms by (induction) (auto simp: tasks_wf_def [of "[]"] elim!: task_stepE intro: tasks_wf_ops)

lemma task_history_invariant_witness:
  "tasks_wf [\<lparr>tr_task_id = ''t'', tr_server_id = ''s'', tr_username = ''u'', tr_phase = ''PENDING'',
     tr_stats_json = None, tr_error = None, tr_started_at = 3, tr_ended_at = None\<rparr>]"
proof -
  have "InsertTask no_faults 3 ''t'' ''s'' ''u'' [] = Inr [\<lparr>tr_task_id = ''t'', tr_server_id = ''s'',
      tr_username = ''u'', tr_phase = ''PENDING'', tr_stats_json = None, tr_error = None,
      tr_started_at = 3, tr_ended_at = None\<rparr>]"
    by (simp add: InsertTask_def no_faults_def)
  then show ?thesis by (intro task_history_invariant r_into_rtranclp) (rule ts_insert)
qed

text \<open>
  After the start-up sweep no task is left in progress, and a task that had finished before keeps its
  row unchanged.
\<close>

theorem startup_sweep:
  assumes "FailIncompleteTasks fl now reason t = Inr t'"
    and "row_find tr_task_id i t = Some r" "terminal_phase (tr_phase r)"
  shows "list_all (\<lambda>x. terminal_phase (tr_phase x)) t' \<and> row_find tr_task_id i t' = Some r"
  using FailIncompleteTasks_terminal [OF assms(1)] FailIncompleteTasks_finished [OF assms]
  by (auto simp: list_all_iff)

lemma startup_sweep_witness:
  "\<exists>t'. FailIncompleteTasks no_faults 9 '''' [\<lparr>tr_task_id = ''t'', tr_server_id = ''s'', tr_username = ''u'',
      tr_phase = ''FAILED'', tr_stats_json = None, tr_error = None, tr_started_at = 3, tr_ended_at = Some 4\<rparr>] = Inr t' \<and>
     list_all (\<lambda>x. terminal_phase (tr_phase x)) t'"
  (is "\<exists>t'. FailIncompleteTasks _ _ _ [?r] = Inr t' \<and> _")
proof -
  obtain t' where t: "FailIncompleteTasks no_faults 9 '''' [?r] = Inr t'"
    by (simp add: FailIncompleteTasks_def no_faults_def Let_def)
  have "row_find tr_task_id ''t'' [?r] = Some ?r" "terminal_phase (tr_phase ?r)"
    by (simp_all add: terminal_phase_def)
  from startup_sweep [OF t this] t show ?thesis by blast
qed

end
