(* ===== verification/Vault_Glob.thy ===== *)
theory Vault_Glob
  imports Vault_Names
begin

text \<open>
  \<open>pkg/glob\<close>: the exclude patterns of the backup rules, on top of Go's \<open>filepath.Match\<close>
  (Unix), modelled on byte strings with UTF-8 decoding where Go decodes a rune: a pattern is
  cut into chunks at the stars outside brackets, each chunk is matched at the leftmost place,
  and a malformed chunk is an error whether or not the name matches. The lemmas say when a
  pattern is an error, and what literal, suffix and \<open>**/\<close> patterns match.
\<close>

definition ErrBadPattern :: error where
  "ErrBadPattern = Errorf ''syntax error in pattern''"

section \<open>Decoding one rune\<close>

definition RuneError :: nat where
  "RuneError = 0xFFFD"

definition cont :: "nat \<Rightarrow> nat \<Rightarrow> char \<Rightarrow> bool" where
  "cont lo hi c \<longleftrightarrow> lo \<le> (of_char c :: nat) \<and> (of_char c :: nat) \<le> hi"

definition cbits :: "char \<Rightarrow> nat" where
  "cbits c = of_char c - 0x80"

definition DecodeRune :: "string \<Rightarrow> nat \<times> nat" where
  "DecodeRune s =
     (case s of
        [] \<Rightarrow> (RuneError, 0)
      | c0 # cs \<Rightarrow>
        (let b0 = of_char c0 :: nat; bad = (RuneError, 1) in
         if b0 < 0x80 then (b0, 1)
         else if b0 < 0xC2 \<or> b0 > 0xF4 then bad
         else if b0 < 0xE0 then
           (case cs of c1 # _ \<Rightarrow>
              if cont 0x80 0xBF c1 then ((b0 - 0xC0) * 64 + cbits c1, 2) else bad | _ \<Rightarrow> bad)
         else if b0 < 0xF0 then
           (case cs of c1 # c2 # _ \<Rightarrow>
              if cont (if b0 = 0xE0 then 0xA0 else 0x80) (if b0 = 0xED then 0x9F else 0xBF) c1 \<and>
                 cont 0x80 0xBF c2
              then ((b0 - 0xE0) * 4096 + cbits c1 * 64 + cbits c2, 3) else bad | _ \<Rightarrow> bad)
         else
           (case cs of c1 # c2 # c3 # _ \<Rightarrow>
              if cont (if b0 = 0xF0 then 0x90 else 0x80) (if b0 = 0xF4 then 0x8F else 0xBF) c1 \<and>
                 cont 0x80 0xBF c2 \<and> cont 0x80 0xBF c3
              then ((b0 - 0xF0) * 262144 + cbits c1 * 4096 + cbits c2 * 64 + cbits c3, 4)
              else bad | _ \<Rightarrow> bad)))"

lemma DecodeRune_pos: "s \<noteq> [] \<Longrightarrow> 0 < snd (DecodeRune s)"
  by (cases s) (auto simp: DecodeRune_def Let_def split: list.splits)

section \<open>One chunk\<close>

definition getEsc :: "string \<Rightarrow> (nat \<times> string) option" where
  "getEsc chunk =
     (case chunk of
        [] \<Rightarrow> None
      | c # cs \<Rightarrow>
        if c = CHR ''-'' \<or> c = CHR '']'' then None
        else let body = (if c = CHR 0x5C then cs else chunk) in
          if body = [] then None
          else let (r, n) = DecodeRune body; nchunk = drop n body in
            if r = RuneError \<and> n = 1 \<or> nchunk = [] then None else Some (r, nchunk))"

lemma getEsc_shorter: "getEsc chunk = Some (r, rest) \<Longrightarrow> length rest < length chunk \<and> rest \<noteq> []"
  using DecodeRune_pos [of chunk] DecodeRune_pos [of "tl chunk"]
  by (auto simp: getEsc_def Let_def split: list.splits if_splits prod.splits)

text \<open>The ranges of a character class, up to its closing bracket.\<close>

function class_loop :: "nat \<Rightarrow> bool \<Rightarrow> bool \<Rightarrow> string \<Rightarrow> (bool \<times> string) option" where
  "class_loop r hit seen chunk =
     (if seen \<and> chunk \<noteq> [] \<and> hd chunk = CHR '']'' then Some (hit, tl chunk)
      else case getEsc chunk of None \<Rightarrow> None
        | Some (lo, chunk1) \<Rightarrow>
            (case (if hd chunk1 = CHR ''-'' then getEsc (tl chunk1) else Some (lo, chunk1)) of
               None \<Rightarrow> None
             | Some (hi, chunk2) \<Rightarrow> class_loop r (hit \<or> lo \<le> r \<and> r \<le> hi) True chunk2))"
  by pat_completeness auto
termination
proof (relation "measure (\<lambda>(r, hit, seen, chunk). length chunk)", goal_cases)
  case 1
  then show ?case by simp
next
  case (2 r hit seen chunk x lo chunk1 y hi chunk2)
  then have "length chunk1 < length chunk" using getEsc_shorter [of chunk] by auto
  moreover have "length chunk2 \<le> length chunk1"
    using 2 getEsc_shorter [of "tl chunk1"] by (fastforce split: if_splits)
  ultimately show ?case by simp
qed

declare class_loop.simps [simp del]

lemma class_loop_shorter: "class_loop r hit seen chunk = Some (m, rest) \<Longrightarrow> length rest < length chunk"
proof (induction r hit seen chunk rule: class_loop.induct)
  case (1 r hit seen chunk)
  show ?case
  proof (cases "seen \<and> chunk \<noteq> [] \<and> hd chunk = CHR '']''")
    case True
    then show ?thesis using "1.prems" by (subst (asm) class_loop.simps) auto
  next
    case False
    with "1.prems" obtain lo chunk1 hi chunk2 where
      e: "getEsc chunk = Some (lo, chunk1)"
        "(if hd chunk1 = CHR ''-'' then getEsc (tl chunk1) else Some (lo, chunk1)) = Some (hi, chunk2)"
        "class_loop r (hit \<or> lo \<le> r \<and> r \<le> hi) True chunk2 = Some (m, rest)"
      by (subst (asm) class_loop.simps) (auto split: option.splits)
    have "length rest < length chunk2" using "1.IH" [OF False e(1) refl e(2) refl e(3)] .
    moreover have "length chunk2 \<le> length chunk1"
      using e(2) getEsc_shorter [of "tl chunk1"] by (fastforce split: if_splits)
    ultimately show ?thesis using getEsc_shorter [OF e(1)] by simp
  qed
qed

definition cut_caret :: "string \<Rightarrow> bool \<times> string" where
  "cut_caret cs = (case cs of c # ds \<Rightarrow> if c = CHR ''^'' then (True, ds) else (False, cs)
                             | [] \<Rightarrow> (False, []))"

lemma cut_caret_length: "length (snd (cut_caret cs)) \<le> length cs"
  by (auto simp: cut_caret_def split: list.splits)

text \<open>
  \<open>matchChunk\<close>: the rest of the name after a match, \<open>None\<close> when the chunk does not match here.
  Once \<open>failed\<close>, the loop only checks the syntax of the rest of the chunk.
\<close>

function matchChunk :: "bool \<Rightarrow> string \<Rightarrow> string \<Rightarrow> string option result" where
  "matchChunk failed [] s = Inr (if failed then None else Some s)"
| "matchChunk failed0 (c # cs) s =
     (let failed = (failed0 \<or> s = []) in
      if c = CHR ''['' then
        (let (r, n) = (if failed then (0, 0) else DecodeRune s)
         in case class_loop r False False (snd (cut_caret cs)) of
              None \<Rightarrow> Inl ErrBadPattern
            | Some (hit, rest) \<Rightarrow>
                matchChunk (failed \<or> hit = fst (cut_caret cs)) rest (drop n s))
      else if c = CHR ''?'' then
        (if failed then matchChunk True cs s
         else matchChunk (hd s = CHR ''/'') cs (drop (snd (DecodeRune s)) s))
      else if c = CHR 0x5C then
        (case cs of [] \<Rightarrow> Inl ErrBadPattern
         | d # ds \<Rightarrow> if failed then matchChunk True ds s else matchChunk (d \<noteq> hd s) ds (tl s))
      else if failed then matchChunk True cs s
      else matchChunk (c \<noteq> hd s) cs (tl s))"
  by pat_completeness auto
termination
proof (relation "measure (\<lambda>(failed, chunk, s). length chunk)", goal_cases)
  case (2 failed0 c cs s failed x r n y hit rest)
  then show ?case
    using class_loop_shorter [of r False False "snd (cut_caret cs)" hit rest] cut_caret_length [of cs]
    by auto
qed auto

declare matchChunk.simps(2) [simp del]

section \<open>Cutting a pattern into chunks\<close>

fun scan_len :: "bool \<Rightarrow> string \<Rightarrow> nat" where
  "scan_len inrange [] = 0"
| "scan_len inrange (c # cs) =
     (if c = CHR 0x5C then (case cs of [] \<Rightarrow> 1 | _ # ds \<Rightarrow> 2 + scan_len inrange ds)
      else if c = CHR ''['' then 1 + scan_len True cs
      else if c = CHR '']'' then 1 + scan_len False cs
      else if c = CHR ''*'' \<and> \<not> inrange then 0
      else 1 + scan_len inrange cs)"

definition scanChunk :: "string \<Rightarrow> bool \<times> string \<times> string" where
  "scanChunk pattern =
     (let p = dropWhile (\<lambda>c. c = CHR ''*'') pattern; i = scan_len False p
      in (pattern \<noteq> [] \<and> hd pattern = CHR ''*'', take i p, drop i p))"

lemma scan_len_pos: "p \<noteq> [] \<Longrightarrow> hd p \<noteq> CHR ''*'' \<Longrightarrow> 0 < scan_len False p"
  by (cases p) (auto split: list.splits)

lemma scanChunk_shorter:
  assumes "pattern \<noteq> []" "scanChunk pattern = (star, chunk, rest)"
  shows "length rest < length pattern"
proof -
  let ?p = "dropWhile (\<lambda>c. c = CHR ''*'') pattern"
  have rest: "rest = drop (scan_len False ?p) ?p" using assms(2) by (simp add: scanChunk_def Let_def)
  have le: "length ?p \<le> length pattern" by (rule length_dropWhile_le)
  show ?thesis
  proof (cases "?p = []")
    case True
    then show ?thesis using rest assms(1) by (simp only: drop_Nil) simp
  next
    case False
    then have "0 < scan_len False ?p"
      using hd_dropWhile [of "\<lambda>c. c = CHR ''*''" pattern] by (intro scan_len_pos) auto
    then show ?thesis using rest le False by (simp add: dual_order.strict_trans1 diff_less)
  qed
qed

lemma scanChunk_shorter':
  "(star, chunk, rest) = scanChunk pattern \<Longrightarrow> pattern \<noteq> [] \<Longrightarrow> length rest < length pattern"
  by (metis scanChunk_shorter)

section \<open>\<open>filepath.Match\<close>\<close>

text \<open>After a star: skip one more byte, never a separator, until the chunk matches.\<close>

fun skip_match :: "bool \<Rightarrow> string \<Rightarrow> string \<Rightarrow> string option result" where
  "skip_match lastChunk chunk [] = Inr None"
| "skip_match lastChunk chunk (c # cs) =
     (if c = CHR ''/'' then Inr None
      else case matchChunk False chunk cs of
        Inl e \<Rightarrow> Inl e
      | Inr None \<Rightarrow> skip_match lastChunk chunk cs
      | Inr (Some t) \<Rightarrow> if lastChunk \<and> t \<noteq> [] then skip_match lastChunk chunk cs else Inr (Some t))"

text \<open>Before failing: the rest of the pattern must be well formed.\<close>

function check_rest :: "string \<Rightarrow> bool result" where
  "check_rest pattern =
     (if pattern = [] then Inr False
      else let (star, chunk, rest) = scanChunk pattern
        in case matchChunk False chunk '''' of Inl e \<Rightarrow> Inl e | Inr _ \<Rightarrow> check_rest rest)"
  by pat_completeness auto
termination by (relation "measure length") (auto intro: scanChunk_shorter')

declare check_rest.simps [simp del]

function Match :: "string \<Rightarrow> string \<Rightarrow> bool result" where
  "Match pattern name =
     (if pattern = [] then Inr (name = [])
      else let (star, chunk, rest) = scanChunk pattern in
        if star \<and> chunk = [] then Inr (CHR ''/'' \<notin> set name)
        else case matchChunk False chunk name of
          Inl e \<Rightarrow> Inl e
        | Inr m \<Rightarrow>
            if m \<noteq> None \<and> (the m = [] \<or> rest \<noteq> []) then Match rest (the m)
            else case (if star then skip_match (rest = []) chunk name else Inr None) of
              Inl e \<Rightarrow> Inl e
            | Inr (Some t) \<Rightarrow> Match rest t
            | Inr None \<Rightarrow> check_rest rest)"
  by pat_completeness auto
termination
  by (relation "measure (\<lambda>(p, n). length p)") (auto intro: scanChunk_shorter')

declare Match.simps [simp del]

section \<open>\<open>pkg/glob/matcher.go\<close>\<close>

definition matched :: "string \<Rightarrow> string \<Rightarrow> bool" where
  "matched pattern name \<longleftrightarrow> Match pattern name = Inr True"

definition matchPattern :: "string \<Rightarrow> string \<Rightarrow> bool" where
  "matchPattern pattern relativePath =
     (if matched pattern relativePath then True
      else case cut_prefix ''**/'' pattern of
        Some rest \<Rightarrow>
          (let parts = split_on CHR ''/'' relativePath in
           if list_ex (\<lambda>i. matched rest (join_on CHR ''/'' (drop i parts))) [0..<length parts] then True
           else if CHR ''/'' \<notin> set rest \<and> list_ex (matched rest) parts then True
           else False)
      | None \<Rightarrow>
          CHR ''/'' \<notin> set pattern \<and> list_ex (matched pattern) (split_on CHR ''/'' relativePath))"

definition Compile :: "string list \<Rightarrow> string list result" where
  "Compile patterns =
     (case firstErr (\<lambda>p. if p = '''' then Some ErrBadPattern
                        else case Match p '''' of Inl e \<Rightarrow> Some e | Inr _ \<Rightarrow> None) patterns of
        Some e \<Rightarrow> Inl e
      | None \<Rightarrow> Inr patterns)"

definition Matcher_Match :: "string list \<Rightarrow> string \<Rightarrow> bool" where
  "Matcher_Match patterns relativePath = list_ex (\<lambda>p. matchPattern p relativePath) patterns"

section \<open>Which patterns are errors\<close>

lemma class_loop_snd:
  "map_option snd (class_loop r hit seen chunk) = map_option snd (class_loop r' hit' seen chunk)"
proof (induction r hit seen chunk arbitrary: r' hit' rule: class_loop.induct)
  case (1 r hit seen chunk)
  show ?case
  proof (cases "seen \<and> chunk \<noteq> [] \<and> hd chunk = CHR '']''")
    case True
    then show ?thesis by (subst (1 2) class_loop.simps) simp
  next
    case False
    show ?thesis
      by (subst (1 2) class_loop.simps)
         (auto simp: False split: option.splits intro!: "1.IH" [OF False])
  qed
qed

lemma class_loop_None: "(class_loop r hit seen chunk = None) = (class_loop r' hit' seen chunk = None)"
  using class_loop_snd [of r hit seen chunk r' hit'] by (metis option.map_disc_iff)

definition chunk_ok :: "string \<Rightarrow> bool" where
  "chunk_ok chunk \<longleftrightarrow> is_ok (matchChunk True chunk '''')"

text \<open>The name never decides whether a chunk is an error.\<close>

lemma matchChunk_is_ok: "is_ok (matchChunk failed chunk s) = is_ok (matchChunk True chunk s')"
proof (induction failed chunk s arbitrary: s' rule: matchChunk.induct)
  case (1 failed s)
  then show ?case by simp
next
  case (2 failed0 c cs s)
  show ?case
  proof (cases "c = CHR ''[''")
    case True
    obtain r n where rn: "(if failed0 \<or> s = [] then (0, 0) else DecodeRune s) = (r, n)" by force
    show ?thesis
    proof (cases "class_loop r False False (snd (cut_caret cs))")
      case None
      with class_loop_None have "class_loop 0 False False (snd (cut_caret cs)) = None" by blast
      then show ?thesis using True None rn by (simp add: matchChunk.simps(2) Let_def)
    next
      case (Some p)
      obtain hit rest where p: "p = (hit, rest)" by force
      have "map_option snd (class_loop 0 False False (snd (cut_caret cs))) = Some rest"
        using class_loop_snd [of 0 False False "snd (cut_caret cs)" r False] Some p by simp
      then obtain hit' where "class_loop 0 False False (snd (cut_caret cs)) = Some (hit', rest)"
        by (metis (no_types, lifting) map_option_eq_Some prod.collapse)
      then show ?thesis
        using True Some rn p
          "2.IH"(1) [OF refl True rn [symmetric] refl Some p [symmetric], of s']
        by (simp add: matchChunk.simps(2) Let_def)
    qed
  next
    case False
    note nb = False
    show ?thesis
    proof (cases "c = CHR ''?''")
      case True
      show ?thesis
      proof (cases "failed0 \<or> s = []")
        case f: True
        show ?thesis using "2.IH"(2) [OF refl nb True f, of s'] nb True f by (simp add: matchChunk.simps(2))
      next
        case f: False
        show ?thesis using "2.IH"(3) [OF refl nb True f, of s'] nb True f by (simp add: matchChunk.simps(2))
      qed
    next
      case nq: False
      show ?thesis
      proof (cases "c = CHR 0x5C")
        case True
        show ?thesis
        proof (cases cs)
          case Nil
          then show ?thesis using True by (simp add: matchChunk.simps(2))
        next
          case (Cons d ds)
          show ?thesis
          proof (cases "failed0 \<or> s = []")
            case f: True
            show ?thesis using "2.IH"(4) [OF refl nb nq True Cons f, of s'] nb nq True f Cons
              by (simp add: matchChunk.simps(2))
          next
            case f: False
            show ?thesis using "2.IH"(5) [OF refl nb nq True Cons f, of s'] nb nq True f Cons
              by (simp add: matchChunk.simps(2))
          qed
        qed
      next
        case nbs: False
        show ?thesis
        proof (cases "failed0 \<or> s = []")
          case f: True
          show ?thesis using "2.IH"(6) [OF refl nb nq nbs f, of s'] nb nq nbs f by (simp add: matchChunk.simps(2))
        next
          case f: False
          show ?thesis using "2.IH"(7) [OF refl nb nq nbs f, of s'] nb nq nbs f by (simp add: matchChunk.simps(2))
        qed
      qed
    qed
  qed
qed

lemma matchChunk_failed: "is_ok (matchChunk failed chunk s) = chunk_ok chunk"
  using matchChunk_is_ok by (simp add: chunk_ok_def)

lemma matchChunk_Inl: "(\<exists>e. matchChunk failed chunk s = Inl e) \<longleftrightarrow> \<not> chunk_ok chunk"
  using matchChunk_failed [of failed chunk s] by (cases "matchChunk failed chunk s") auto

text \<open>A pattern is valid when every chunk is.\<close>

function glob_valid :: "string \<Rightarrow> bool" where
  "glob_valid pattern =
     (if pattern = [] then True
      else let (star, chunk, rest) = scanChunk pattern in chunk_ok chunk \<and> glob_valid rest)"
  by pat_completeness auto
termination by (relation "measure length") (auto intro: scanChunk_shorter')

declare glob_valid.simps [simp del]

lemma glob_valid_Nil [simp]: "glob_valid []"
  by (simp add: glob_valid.simps)

lemma chunk_ok_Nil [simp]: "chunk_ok []"
  by (simp add: chunk_ok_def)

lemma scanChunk_empty:
  assumes "scanChunk pattern = (star, [], rest)"
  shows "rest = []"
proof -
  define p where "p = dropWhile (\<lambda>c. c = CHR ''*'') pattern"
  have s: "take (scan_len False p) p = []" "rest = drop (scan_len False p) p"
    using assms by (simp_all add: scanChunk_def Let_def p_def)
  have "p = []"
  proof (rule ccontr)
    assume ne: "p \<noteq> []"
    then have "0 < scan_len False p"
      using hd_dropWhile [of "\<lambda>c. c = CHR ''*''" pattern] by (intro scan_len_pos) (auto simp: p_def)
    then show False using s(1) ne by simp
  qed
  then show "rest = []" using s(2) by simp
qed

lemma check_rest_ok: "is_ok (check_rest pattern) = glob_valid pattern"
proof (induction pattern rule: check_rest.induct)
  case (1 pattern)
  show ?case
  proof (cases "pattern = []")
    case True
    then show ?thesis by (simp add: check_rest.simps)
  next
    case False
    obtain star chunk rest where sc: "scanChunk pattern = (star, chunk, rest)"
      using prod_cases3 by blast
    show ?thesis
      using 1 [OF False sc [symmetric] refl] matchChunk_failed [of False chunk "''''"] False sc
      by (subst check_rest.simps, subst glob_valid.simps)
         (auto split: sum.splits)
  qed
qed

lemma skip_match_ok: "chunk_ok chunk \<Longrightarrow> is_ok (skip_match l chunk name)"
proof (induction l chunk name rule: skip_match.induct)
  case (1 l chunk)
  then show ?case by simp
next
  case (2 l chunk c cs)
  have "is_ok (matchChunk False chunk cs)" using 2(3) matchChunk_failed by simp
  with 2 show ?case by (auto split: sum.splits option.splits)
qed

lemma Match_ok: "is_ok (Match pattern name) = glob_valid pattern"
proof (induction pattern name rule: Match.induct)
  case (1 pattern name)
  show ?case
  proof (cases "pattern = []")
    case True
    then show ?thesis by (simp add: Match.simps)
  next
    case False
    obtain star chunk rest where sc: "scanChunk pattern = (star, chunk, rest)"
      using prod_cases3 by blast
    note valid = glob_valid.simps [of pattern]
    show ?thesis
    proof (cases "star \<and> chunk = []")
      case True
      then show ?thesis
        using False sc scanChunk_empty [of pattern star rest] valid
        by (subst Match.simps) simp
    next
      case nostar: False
      show ?thesis
      proof (cases "matchChunk False chunk name")
        case (Inl e)
        then have "\<not> chunk_ok chunk" using matchChunk_Inl by blast
        then show ?thesis using False sc nostar valid Inl by (subst Match.simps) auto
      next
        case (Inr m)
        have okc: "chunk_ok chunk"
          using matchChunk_failed [of False chunk name] Inr by simp
        note IH = 1 [OF False sc [symmetric] refl refl nostar Inr]
        show ?thesis
        proof (cases "m \<noteq> None \<and> (the m = [] \<or> rest \<noteq> [])")
          case True
          then show ?thesis
            using False sc nostar valid Inr okc IH(1) by (subst Match.simps) auto
        next
          case nom: False
          have "is_ok (if star then skip_match (rest = []) chunk name else Inr None)"
            using skip_match_ok [OF okc] by simp
          then obtain t where t: "(if star then skip_match (rest = []) chunk name else Inr None) = Inr t"
            unfolding is_ok_iff by blast
          have "is_ok (Match pattern name) =
                is_ok (case t of None \<Rightarrow> check_rest rest | Some u \<Rightarrow> Match rest u)"
            using False sc nostar Inr nom t
            by (subst Match.simps) (cases t; simp only: Let_def split_conv if_False sum.case option.case refl; simp)
          also have "\<dots> = glob_valid rest"
            using IH(2) [OF nom t] check_rest_ok by (cases t) auto
          finally show ?thesis using False sc valid okc by simp
        qed
      qed
    qed
  qed
qed

lemma Compile_iff:
  "Compile ps = Inr ps' \<longleftrightarrow> ps' = ps \<and> (\<forall>p \<in> set ps. p \<noteq> [] \<and> glob_valid p)"
proof -
  define f where "f p = (if p = '''' then Some ErrBadPattern
    else case Match p '''' of Inl e \<Rightarrow> Some e | Inr _ \<Rightarrow> None)" for p
  have "f p = None \<longleftrightarrow> p \<noteq> [] \<and> glob_valid p" for p
    using Match_ok [of p "''''"] by (cases "Match p ''''") (simp_all add: f_def)
  then have "firstErr f ps = None \<longleftrightarrow> (\<forall>p \<in> set ps. p \<noteq> [] \<and> glob_valid p)"
    by (simp add: firstErr_None)
  moreover have "Compile ps = (case firstErr f ps of Some e \<Rightarrow> Inl e | None \<Rightarrow> Inr ps)"
    by (simp add: Compile_def f_def [abs_def])
  ultimately show ?thesis by (cases "firstErr f ps") auto
qed

lemma glob_valid_globstar: "glob_valid (''**/'' @ rest) = glob_valid rest"
proof (cases "rest = []")
  case True
  then show ?thesis
    by (simp add: glob_valid.simps [of "''**/''"] scanChunk_def chunk_ok_def matchChunk.simps(2))
next
  case False
  define p where "p = dropWhile (\<lambda>c. c = CHR ''*'') rest"
  have slash: "chunk_ok (CHR ''/'' # c) = chunk_ok c" for c
    unfolding chunk_ok_def by (simp add: matchChunk.simps(2))
  have sc: "scanChunk (''**/'' @ rest) =
      (True, CHR ''/'' # take (scan_len False rest) rest, drop (scan_len False rest) rest)"
    by (simp add: scanChunk_def)
  show ?thesis
  proof (cases "hd rest = CHR ''*''")
    case True
    with False have "scan_len False rest = 0" by (cases rest) auto
    with sc show ?thesis by (simp add: glob_valid.simps [of "CHR ''*'' # _"] slash)
  next
    case False
    with \<open>rest \<noteq> []\<close> have "dropWhile (\<lambda>c. c = CHR ''*'') rest = rest" by (cases rest) auto
    with False \<open>rest \<noteq> []\<close>
    have "scanChunk rest = (False, take (scan_len False rest) rest, drop (scan_len False rest) rest)"
      by (simp add: scanChunk_def Let_def)
    with sc \<open>rest \<noteq> []\<close> show ?thesis
      by (simp add: glob_valid.simps [of "CHR ''*'' # _"] glob_valid.simps [of rest] slash)
  qed
qed

section \<open>What literal, suffix and any-depth patterns match\<close>

definition literal_char :: "char \<Rightarrow> bool" where
  "literal_char c \<longleftrightarrow> c \<noteq> CHR ''*'' \<and> c \<noteq> CHR ''?'' \<and> c \<noteq> CHR ''['' \<and> c \<noteq> CHR 0x5C"

definition literal :: "string \<Rightarrow> bool" where
  "literal p \<longleftrightarrow> list_all literal_char p"

lemma literal_simps [simp]: "literal []" "literal (c # cs) \<longleftrightarrow> literal_char c \<and> literal cs"
  by (simp_all add: literal_def)

lemma scan_len_literal: "literal p \<Longrightarrow> scan_len i p = length p"
  by (induction p arbitrary: i) (auto simp: literal_char_def)

lemma scanChunk_literal: "literal p \<Longrightarrow> p \<noteq> [] \<Longrightarrow> scanChunk p = (False, p, [])"
  by (cases p) (auto simp: scanChunk_def scan_len_literal literal_char_def)

lemma scanChunk_star: "literal p \<Longrightarrow> scanChunk (CHR ''*'' # p) = (True, p, [])"
  using scan_len_literal [of p False]
  by (cases p) (auto simp: scanChunk_def literal_char_def)

lemma scanChunk_star_star: "literal p \<Longrightarrow> scanChunk (CHR ''*'' # CHR ''*'' # p) = (True, p, [])"
  using scan_len_literal [of p False]
  by (cases p) (auto simp: scanChunk_def literal_char_def)

lemma matchChunk_literal:
  "literal c \<Longrightarrow> matchChunk f c s =
     Inr (if \<not> f \<and> prefix c s then Some (drop (length c) s) else None)"
proof (induction c arbitrary: f s)
  case Nil
  then show ?case by simp
next
  case (Cons x c)
  then show ?case
    by (cases s) (auto simp: matchChunk.simps(2) literal_char_def)
qed

lemma Match_literal: "literal p \<Longrightarrow> Match p n = Inr (n = p)"
proof (cases "p = []")
  case True
  then show ?thesis by (simp add: Match.simps)
next
  case False
  assume lit: "literal p"
  show ?thesis
    using False
    by (subst Match.simps)
       (auto simp: scanChunk_literal [OF lit False] matchChunk_literal [OF lit] prefix_def
          Match.simps [of "[]"] check_rest.simps [of "[]"])
qed

lemma skip_match_literal:
  assumes "literal c"
  shows "skip_match True c n =
    Inr (if \<exists>x. x \<noteq> [] \<and> n = x @ c \<and> CHR ''/'' \<notin> set x then Some [] else None)"
proof (induction n)
  case Nil
  then show ?case by simp
next
  case (Cons y n)
  have ex: "(\<exists>x. x \<noteq> [] \<and> y # n = x @ c \<and> CHR ''/'' \<notin> set x) \<longleftrightarrow>
      y \<noteq> CHR ''/'' \<and> (n = c \<or> (\<exists>x. x \<noteq> [] \<and> n = x @ c \<and> CHR ''/'' \<notin> set x))"
  proof -
    have "(\<exists>x. x \<noteq> [] \<and> y # n = x @ c \<and> CHR ''/'' \<notin> set x) \<longleftrightarrow>
        (\<exists>x. n = x @ c \<and> CHR ''/'' \<notin> set (y # x))"
      by (auto simp: neq_Nil_conv)
    also have "\<dots> \<longleftrightarrow> y \<noteq> CHR ''/'' \<and> (n = c \<or> (\<exists>x. x \<noteq> [] \<and> n = x @ c \<and> CHR ''/'' \<notin> set x))"
      by (metis append_Nil list.set_intros(1,2) set_ConsD empty_iff list.set(1))
    finally show ?thesis .
  qed
  show ?case
    using Cons unfolding ex skip_match.simps matchChunk_literal [OF assms]
    by (auto simp: prefix_def)
qed

lemma Match_star_literal:
  assumes "literal c" and sc: "scanChunk p = (True, c, [])" and "p \<noteq> []"
  shows "Match p n = Inr (\<exists>x. n = x @ c \<and> CHR ''/'' \<notin> set x)"
proof (cases "c = []")
  case True
  then show ?thesis using assms by (subst Match.simps) simp
next
  case False
  have ex: "(\<exists>x. n = x @ c \<and> CHR ''/'' \<notin> set x) \<longleftrightarrow>
     n = c \<or> (\<exists>x. x \<noteq> [] \<and> n = x @ c \<and> CHR ''/'' \<notin> set x)"
    by (metis append_Nil empty_iff list.set(1))
  show ?thesis
    using False assms(3) unfolding ex
    by (subst Match.simps)
       (auto simp: sc matchChunk_literal [OF assms(1)] skip_match_literal [OF assms(1)]
          prefix_def Match.simps [of "[]"] check_rest.simps [of "[]"])
qed

lemma matched_literal: "literal p \<Longrightarrow> matched p n \<longleftrightarrow> n = p"
  by (simp add: matched_def Match_literal)

lemma matched_star:
  "literal c \<Longrightarrow> matched (CHR ''*'' # c) n \<longleftrightarrow> (\<exists>x. n = x @ c \<and> CHR ''/'' \<notin> set x)"
  by (simp add: matched_def Match_star_literal [OF _ scanChunk_star])

lemma matched_globstar:
  "literal c \<Longrightarrow> matched (''**/'' @ c) n \<longleftrightarrow> (\<exists>x. n = x @ CHR ''/'' # c \<and> CHR ''/'' \<notin> set x)"
  using Match_star_literal [of "CHR ''/'' # c" "''**/'' @ c" n] scanChunk_star_star [of "CHR ''/'' # c"]
  by (simp add: matched_def literal_char_def)

lemma cut_globstar: "literal p \<Longrightarrow> cut_prefix ''*/'' p = None"
    "literal p \<Longrightarrow> cut_prefix ''**/'' p = None"
  by (cases p; auto simp: literal_char_def)+

lemma matchPattern_literal:
  assumes "literal p"
  shows "matchPattern p path \<longleftrightarrow>
    (if CHR ''/'' \<in> set p then path = p else p \<in> set (split_on CHR ''/'' path))"
  using assms
  by (auto simp: matchPattern_def cut_globstar matched_literal list_ex_iff)

text \<open>
  An exclude pattern of the form star then a literal suffix without separator matches exactly the
  relative paths one of whose components ends with that suffix.
\<close>

lemma matchPattern_suffix:
  assumes "literal c" "CHR ''/'' \<notin> set c"
  shows "matchPattern (CHR ''*'' # c) path \<longleftrightarrow> (\<exists>w \<in> set (split_on CHR ''/'' path). suffix c w)"
proof -
  have "matched (CHR ''*'' # c) w \<longleftrightarrow> suffix c w" if "w \<in> set (split_on CHR ''/'' path)" for w
    using in_split_no_sep [OF that] by (auto simp: matched_star [OF assms(1)] suffix_def)
  moreover have "suffix c path \<and> split_on CHR ''/'' path = [path]" if "matched (CHR ''*'' # c) path"
    using that assms by (auto simp: matched_star suffix_def)
  ultimately show ?thesis
    using assms by (auto simp: matchPattern_def cut_globstar list_ex_iff)
qed

lemma matchPattern_suffix_witness:
  "matchPattern ''*.log'' ''var/sys.log/x'' \<and> \<not> matchPattern ''*.log'' ''var/log''"
  using matchPattern_suffix [of "''.log''" "''var/sys.log/x''"] matchPattern_suffix [of "''.log''" "''var/log''"]
  by (simp add: literal_char_def suffix_def)

text \<open>
  An exclude pattern of the form double star, slash, literal path matches at any depth: a path
  whose tail is that literal path, or any path with that component when the literal is one name.
\<close>

lemma matchPattern_globstar:
  assumes "literal c"
  shows "matchPattern (''**/'' @ c) path \<longleftrightarrow>
    (if CHR ''/'' \<in> set c
     then \<exists>i < length (split_on CHR ''/'' path). join_on CHR ''/'' (drop i (split_on CHR ''/'' path)) = c
     else c \<in> set (split_on CHR ''/'' path))"
proof -
  let ?parts = "split_on CHR ''/'' path"
  have direct: "\<exists>i < length ?parts. join_on CHR ''/'' (drop i ?parts) = c"
    if "matched (''**/'' @ c) path"
  proof -
    from that obtain x where x: "path = x @ CHR ''/'' # c" "CHR ''/'' \<notin> set x"
      unfolding matched_globstar [OF assms] by blast
    then have "?parts = x # split_on CHR ''/'' c" by (simp add: split_on_append_sep)
    then show ?thesis by (intro exI [of _ 1]) simp
  qed
  have nosep: "c \<in> set ?parts"
    if "i < length ?parts" "join_on CHR ''/'' (drop i ?parts) = c" "CHR ''/'' \<notin> set c" for i
  proof -
    have "drop i ?parts \<noteq> []" using that(1) by simp
    moreover have "\<forall>w \<in> set (drop i ?parts). CHR ''/'' \<notin> set w"
      by (meson in_set_dropD in_split_no_sep)
    ultimately have "split_on CHR ''/'' (join_on CHR ''/'' (drop i ?parts)) = drop i ?parts"
      by (rule split_join)
    then have "drop i ?parts = [c]" unfolding that(2) using that(3) by simp
    then show ?thesis by (metis in_set_dropD list.set_intros(1))
  qed
  have "matchPattern (''**/'' @ c) path \<longleftrightarrow>
    (\<exists>i < length ?parts. join_on CHR ''/'' (drop i ?parts) = c) \<or>
    CHR ''/'' \<notin> set c \<and> c \<in> set ?parts"
    using direct
    by (auto simp: matchPattern_def Let_def list_ex_iff matched_literal [OF assms] simp del: append_Cons)
  then show ?thesis using nosep by auto
qed

lemma matchPattern_globstar_witness:
  "matchPattern ''**/cache'' ''home/cache/x''"
  using matchPattern_globstar [of "''cache''" "''home/cache/x''"]
  by (simp add: literal_char_def)

end
