(* ===== verification/Vault_Scanner.thy ===== *)
theory Vault_Scanner
  imports Vault_AgentStore Vault_Glob
begin

text \<open>
  \<open>pkg/scanner\<close>: the walk over a source root, the archive paths of its files, and the
  difference against the recorded snapshots. The walk runs over a tree of directory entries
  in the order \<open>filepath.WalkDir\<close> visits them (names sorted); entries that cannot be read
  carry the error. A Go map that is iterated is a list of its entries; the lemmas speak about
  the set of differences, which does not depend on that order.
\<close>

record file_info =
  fi_Path :: string
  fi_Size :: int
  fi_Mtime :: int
  fi_Mode :: "32 word"
  fi_SHA256 :: bytes

section \<open>The walk\<close>

text \<open>
  An entry of a directory: a directory with the entries that could be read and the error of
  reading it, if any, a regular file with its metadata and content (\<open>None\<close>: the file cannot be read), an entry
  that is no regular file, and one whose \<open>Info\<close> fails.
\<close>

datatype dir_entry =
    EDir string "error option" "dir_entry list"
  | EFile string int int "32 word" "bytes option"
  | EOther string
  | EStatErr string error

fun entry_name :: "dir_entry \<Rightarrow> string" where
  "entry_name (EDir n _ _) = n"
| "entry_name (EFile n _ _ _ _) = n"
| "entry_name (EOther n) = n"
| "entry_name (EStatErr n _) = n"

type_synonym scan_result = "file_info list \<times> error list"

text \<open>
  The callback on one entry whose path relative to the root is \<open>rel\<close>. \<open>None\<close> is
  \<open>filepath.SkipDir\<close>. A directory whose reading fails is visited a second time with the error;
  a matching directory is skipped before it is read.
\<close>

definition visit_leaf ::
  "(bytes \<Rightarrow> bytes) \<Rightarrow> (string \<Rightarrow> bool) \<Rightarrow> string \<Rightarrow> dir_entry \<Rightarrow> scan_result" where
  "visit_leaf sha excluded rel e =
     (if excluded rel then ([], [])
      else case e of
        EDir _ err _ \<Rightarrow>
          ([], case err of None \<Rightarrow> [] | Some er \<Rightarrow> [Wrap ''walk %q: %w'' er])
      | EStatErr _ err \<Rightarrow> ([], [Wrap ''stat %q: %w'' err])
      | EOther _ \<Rightarrow> ([], [])
      | EFile _ sz mtime mode content \<Rightarrow>
          (case content of
             None \<Rightarrow> ([\<lparr>fi_Path = rel, fi_Size = sz, fi_Mtime = mtime, fi_Mode = mode,
                        fi_SHA256 = ''''\<rparr>], [Wrap ''hash %q: %w'' (Errorf ''open'')])
           | Some c \<Rightarrow> ([\<lparr>fi_Path = rel, fi_Size = sz, fi_Mtime = mtime, fi_Mode = mode,
                        fi_SHA256 = sha c\<rparr>], [])))"

definition child_rel :: "string \<Rightarrow> string \<Rightarrow> string" where
  "child_rel rel name = (if rel = ''.'' then name else rel @ ''/'' @ name)"

definition join_results :: "scan_result \<Rightarrow> scan_result \<Rightarrow> scan_result" where
  "join_results a b = (fst a @ fst b, snd a @ snd b)"

fun walk :: "(bytes \<Rightarrow> bytes) \<Rightarrow> (string \<Rightarrow> bool) \<Rightarrow> string \<Rightarrow> dir_entry \<Rightarrow> scan_result"
and walk_list :: "(bytes \<Rightarrow> bytes) \<Rightarrow> (string \<Rightarrow> bool) \<Rightarrow> string \<Rightarrow> dir_entry list \<Rightarrow> scan_result" where
  "walk sha excluded rel (EDir n err es) =
     (if excluded rel then ([], [])
      else join_results (visit_leaf sha excluded rel (EDir n err [])) (walk_list sha excluded rel es))"
| "walk sha excluded rel (EFile n s t m c) = visit_leaf sha excluded rel (EFile n s t m c)"
| "walk sha excluded rel (EOther n) = visit_leaf sha excluded rel (EOther n)"
| "walk sha excluded rel (EStatErr n err) = visit_leaf sha excluded rel (EStatErr n err)"
| "walk_list sha excluded rel [] = ([], [])"
| "walk_list sha excluded rel (e # es) =
     join_results (walk sha excluded (child_rel rel (entry_name e)) e) (walk_list sha excluded rel es)"

text \<open>\<open>root\<close> is the root's own entry, \<open>None\<close> when it cannot be inspected.\<close>

definition Scan :: "(bytes \<Rightarrow> bytes) \<Rightarrow> string list option \<Rightarrow> dir_entry option \<Rightarrow> scan_result" where
  "Scan sha excludes root =
     (case root of None \<Rightarrow> ([], [Wrap ''walk %q: %w'' (Errorf ''lstat'')])
      | Some e \<Rightarrow> walk sha (\<lambda>rel. case excludes of None \<Rightarrow> False | Some m \<Rightarrow> Matcher_Match m rel) ''.'' e)"

text \<open>The specification: every file with the path of names leading to it.\<close>

fun files_below :: "string list \<Rightarrow> dir_entry \<Rightarrow> (string list list \<times> string list \<times> dir_entry) list"
and files_below_list :: "string list \<Rightarrow> dir_entry list \<Rightarrow> (string list list \<times> string list \<times> dir_entry) list" where
  "files_below p (EDir n err es) =
     map (\<lambda>x. (p # fst x, snd x)) (([], p, EDir n err []) # files_below_list p es)"
| "files_below p (EFile n s t m c) = [([], p, EFile n s t m c)]"
| "files_below p (EOther n) = [([], p, EOther n)]"
| "files_below p (EStatErr n err) = [([], p, EStatErr n err)]"
| "files_below_list p [] = []"
| "files_below_list p (e # es) = files_below (p @ [entry_name e]) e @ files_below_list p es"

text \<open>The path the walk reports for a list of names.\<close>

definition rel_of :: "string list \<Rightarrow> string" where
  "rel_of ns = (if ns = [] then ''.'' else path_join ns)"

fun names_ok :: "dir_entry \<Rightarrow> bool"
and names_ok_list :: "dir_entry list \<Rightarrow> bool" where
  "names_ok (EDir n err es) = names_ok_list es"
| "names_ok _ = True"
| "names_ok_list [] = True"
| "names_ok_list (e # es) = (normal (entry_name e) \<and> names_ok e \<and> names_ok_list es)"

lemma path_join_normals_not_dot: "normals ns \<Longrightarrow> ns \<noteq> [] \<Longrightarrow> path_join ns \<noteq> ''.''"
  by (cases ns; cases "tl ns") (auto simp: path_join_def normal_def append_eq_Cons_conv Cons_eq_append_conv)

lemma child_rel_of: "normals ns \<Longrightarrow> child_rel (rel_of ns) n = rel_of (ns @ [n])"
  using path_join_normals_not_dot [of ns]
  by (auto simp: child_rel_def rel_of_def path_join_def join_on_append)

lemma normals_snoc: "normals (ns @ [n]) \<longleftrightarrow> normals ns \<and> normal n"
  by (simp add: normals_def)

definition scan_entries ::
  "(bytes \<Rightarrow> bytes) \<Rightarrow> (string \<Rightarrow> bool) \<Rightarrow> (string list list \<times> string list \<times> dir_entry) list \<Rightarrow> scan_result" where
  "scan_entries sha excluded xs =
     (let seen = filter (\<lambda>x. \<not> list_ex (\<lambda>p. excluded (rel_of p)) (fst x)) xs;
          visit = (\<lambda>x. visit_leaf sha excluded (rel_of (fst (snd x))) (snd (snd x))) in
      (concat (map (\<lambda>x. fst (visit x)) seen), concat (map (\<lambda>x. snd (visit x)) seen)))"

lemma scan_entries_append:
  "scan_entries sha ex (xs @ ys) = join_results (scan_entries sha ex xs) (scan_entries sha ex ys)"
  by (simp add: scan_entries_def join_results_def Let_def)

lemma scan_entries_Nil: "scan_entries sha ex [] = ([], [])"
  by (simp add: scan_entries_def)

lemma scan_entries_single: "scan_entries sha ex [([], q, e)] = visit_leaf sha ex (rel_of q) e"
  by (simp add: scan_entries_def)

lemma scan_entries_parent:
  "scan_entries sha ex (map (\<lambda>x. (p # fst x, snd x)) xs) =
     (if ex (rel_of p) then ([], []) else scan_entries sha ex xs)"
proof -
  have "filter (\<lambda>x. \<not> list_ex (\<lambda>p. ex (rel_of p)) (fst x)) (map (\<lambda>x. (p # fst x, snd x)) xs) =
     (if ex (rel_of p) then []
      else map (\<lambda>x. (p # fst x, snd x)) (filter (\<lambda>x. \<not> list_ex (\<lambda>p. ex (rel_of p)) (fst x)) xs))"
    by (induction xs) auto
  then show ?thesis by (simp add: scan_entries_def Let_def comp_def)
qed

lemma walk_files:
  "names_ok e \<Longrightarrow> normals p \<Longrightarrow> walk sha ex (rel_of p) e = scan_entries sha ex (files_below p e)"
  "names_ok_list es \<Longrightarrow> normals p \<Longrightarrow>
     walk_list sha ex (rel_of p) es = scan_entries sha ex (files_below_list p es)"
proof (induction p e and p es rule: files_below_files_below_list.induct)
  case (6 p e es)
  then show ?case
    by (simp add: scan_entries_append child_rel_of normals_snoc)
next
  case (1 p n err es)
  have "scan_entries sha ex (([], p, EDir n err []) # files_below_list p es) =
        join_results (visit_leaf sha ex (rel_of p) (EDir n err [])) (scan_entries sha ex (files_below_list p es))"
    using scan_entries_append [of sha ex "[([], p, EDir n err [])]"] by (simp add: scan_entries_single)
  with 1 show ?case by (simp add: scan_entries_parent del: list.map)
qed (auto simp: scan_entries_single scan_entries_Nil)

definition scanned_file :: "(bytes \<Rightarrow> bytes) \<Rightarrow> string list \<Rightarrow> dir_entry \<Rightarrow> file_info option" where
  "scanned_file sha q e =
     (case e of EFile _ sz mtime mode content \<Rightarrow>
        Some \<lparr>fi_Path = rel_of q, fi_Size = sz, fi_Mtime = mtime, fi_Mode = mode,
          fi_SHA256 = (case content of None \<Rightarrow> '''' | Some c \<Rightarrow> sha c)\<rparr>
      | _ \<Rightarrow> None)"

definition excluded_by :: "string list option \<Rightarrow> string \<Rightarrow> bool" where
  "excluded_by excludes rel = (case excludes of None \<Rightarrow> False | Some m \<Rightarrow> Matcher_Match m rel)"

lemma Scan_walk: "Scan sha ms (Some e) = walk sha (excluded_by ms) ''.'' e"
  by (simp add: Scan_def excluded_by_def [abs_def])

text \<open>
  C25: A scan reports exactly the regular files of the source tree that are not excluded themselves and
  have no excluded directory above them, each with its metadata and hash.
\<close>

lemma Scan_files:
  assumes "names_ok e"
  shows "f \<in> set (fst (Scan sha ms (Some e))) \<longleftrightarrow>
    (\<exists>ps q x. (ps, q, x) \<in> set (files_below [] e) \<and> \<not> list_ex (\<lambda>p. excluded_by ms (rel_of p)) ps \<and>
       \<not> excluded_by ms (rel_of q) \<and> scanned_file sha q x = Some f)"
proof -
  have leaf: "f \<in> set (fst (visit_leaf sha ex (rel_of q) x)) \<longleftrightarrow>
      \<not> ex (rel_of q) \<and> scanned_file sha q x = Some f" for ex q x
    by (auto simp: visit_leaf_def scanned_file_def split: dir_entry.splits option.splits)
  have "Scan sha ms (Some e) = scan_entries sha (excluded_by ms) (files_below [] e)"
    using walk_files(1) [OF assms, of "[]" sha "excluded_by ms"]
    by (simp add: Scan_walk rel_of_def)
  then show ?thesis
    by (simp add: scan_entries_def Let_def leaf Bex_def)
qed

definition demo_tree :: dir_entry where
  "demo_tree = EDir ''src'' None
     [EDir ''cache'' None [EFile ''x'' 1 5 0x1A4 (Some ''b'')], EFile ''a.txt'' 3 7 0x1A4 (Some ''abc'')]"

lemma Scan_files_witness:
  "\<exists>q x. (q, x) \<in> set (map snd (files_below [] demo_tree)) \<and>
     scanned_file (\<lambda>c. c) q x =
       Some \<lparr>fi_Path = ''a.txt'', fi_Size = 3, fi_Mtime = 7, fi_Mode = 0x1A4, fi_SHA256 = ''abc''\<rparr>"
proof -
  have "names_ok demo_tree"
    "fst (Scan (\<lambda>c. c) (Some [''cache'']) (Some demo_tree)) =
       [\<lparr>fi_Path = ''a.txt'', fi_Size = 3, fi_Mtime = 7, fi_Mode = 0x1A4, fi_SHA256 = ''abc''\<rparr>]"
    by code_simp+
  then show ?thesis
    using Scan_files [of demo_tree
        "\<lparr>fi_Path = ''a.txt'', fi_Size = 3, fi_Mtime = 7, fi_Mode = 0x1A4, fi_SHA256 = ''abc''\<rparr>"
        "\<lambda>c. c" "Some [''cache'']"]
    by force
qed

text \<open>
  When an exclude pattern matches the name of the root itself, as a lone star does, the scan of a
  directory is empty and reports no error.
\<close>

lemma Scan_root_excluded:
  "Matcher_Match m ''.'' \<Longrightarrow> Scan sha (Some m) (Some (EDir n err es)) = ([], [])"
  by (simp add: Scan_def)

lemma Scan_root_excluded_witness:
  "Scan (\<lambda>c. c) (Some [''*'']) (Some (EDir ''src'' None [EFile ''a'' 1 2 0x1A4 (Some ''x'')])) = ([], [])"
proof -
  have "Matcher_Match [''*''] ''.''" by code_simp
  then show ?thesis by (rule Scan_root_excluded)
qed

section \<open>Archive paths\<close>

text \<open>\<open>filepath.Abs\<close>; \<open>cwd\<close> is what \<open>os.Getwd\<close> returns.\<close>

definition Abs :: "string result \<Rightarrow> string \<Rightarrow> string result" where
  "Abs cwd p = (if is_abs p then Inr (Clean p)
     else case cwd of Inl e \<Rightarrow> Inl e | Inr wd \<Rightarrow> Inr (Join [wd, p]))"

definition ArchiveRootPrefix :: "string result \<Rightarrow> string \<Rightarrow> string result" where
  "ArchiveRootPrefix cwd rootPath =
     (case Abs cwd rootPath of
        Inl e \<Rightarrow> Inl (Wrap ''make backup root absolute: %w'' e)
      | Inr absRoot \<Rightarrow>
          (let cleanRoot = Clean absRoot; pre = trim_prefix ''/'' cleanRoot
           in Inr (if pre = '''' then ''_root'' else pre)))"

definition NamespaceFiles ::
  "string result \<Rightarrow> string \<Rightarrow> file_info list \<Rightarrow> (string \<times> file_info list) result" where
  "NamespaceFiles cwd rootPath files =
     bindE (ArchiveRootPrefix cwd rootPath) (\<lambda>rootPrefix.
       bindE (foldE (\<lambda>fi acc.
           let relPath = Clean (fi_Path fi) in
           if relPath = ''.'' \<or> is_abs relPath \<or> relPath = ''..'' \<or> prefix ''../'' relPath
           then Inl (Errorf ''invalid path relative to backup root: %q'')
           else Inr (acc @ [fi\<lparr>fi_Path := Join [rootPrefix, relPath]\<rparr>])) files [])
         (\<lambda>namespaced. Inr (rootPrefix, namespaced)))"

text \<open>The archive prefix of an absolute root, as components.\<close>

definition root_comps :: "string \<Rightarrow> string list" where
  "root_comps root = (if abs_comps root = [] then [''_root''] else abs_comps root)"

lemma root_comps_normals: "normals (root_comps root)" "root_comps root \<noteq> []"
  by (simp_all add: root_comps_def normal_def)

lemma ArchiveRootPrefix_abs:
  assumes "is_abs root"
  shows "ArchiveRootPrefix cwd root = Inr (path_join (root_comps root))"
proof -
  have "trim_prefix ''/'' (abs_path ns) = path_join ns" for ns
    using trim_prefix_append [of "''/''" "path_join ns"] by (simp add: abs_path_def)
  moreover have "path_join ns = [] \<longleftrightarrow> ns = []" if "normals ns" for ns
    using that by (auto simp: path_join_def join_on_eq_Nil normal_def)
  ultimately show ?thesis
    using assms by (simp add: ArchiveRootPrefix_def Abs_def Clean_abs root_comps_def Let_def path_join_def)
qed

lemma Join_rel_normals:
  assumes "normals a" "a \<noteq> []" "normals b" "b \<noteq> []"
  shows "Join [path_join a, path_join b] = path_join (a @ b)"
proof -
  have ne: "path_join a \<noteq> []" "path_join b \<noteq> []"
    using assms by (auto simp: path_join_def join_on_eq_Nil normals_def normal_def)
  have "join_on CHR ''/'' [path_join a, path_join b] = path_join (a @ b)"
    using assms by (simp add: path_join_def join_on_append)
  then show ?thesis
    using ne Clean_path_join [of "a @ b"] assms by (simp add: Join_def normals_def path_join_def)
qed

lemma foldE_snoc_map:
  assumes "\<And>x acc. f x acc = (case g x of Inl e \<Rightarrow> Inl e | Inr y \<Rightarrow> Inr (acc @ [y]))"
  shows "foldE f xs acc = Inr ys \<longleftrightarrow> (\<exists>zs. ys = acc @ zs \<and> list_all2 (\<lambda>x z. g x = Inr z) xs zs)"
proof (induction xs arbitrary: acc)
  case Nil
  then show ?case by auto
next
  case (Cons x xs)
  then show ?case
    by (cases "g x") (auto simp: assms list_all2_Cons1)
qed

lemma NamespaceFiles_iff:
  assumes "is_abs root"
  shows "NamespaceFiles cwd root files = Inr (pre, out) \<longleftrightarrow>
    pre = path_join (root_comps root) \<and>
    list_all2 (\<lambda>f g. \<not> is_abs (fi_Path f) \<and> inside (Clean (fi_Path f)) \<and>
       g = f\<lparr>fi_Path := path_join (root_comps root @ rel_comps (fi_Path f))\<rparr>) files out"
proof -
  let ?pre = "path_join (root_comps root)"
  define g where "g fi = (let relPath = Clean (fi_Path fi) in
     if relPath = ''.'' \<or> is_abs relPath \<or> relPath = ''..'' \<or> prefix ''../'' relPath
     then Inl (Errorf ''invalid path relative to backup root: %q'')
     else Inr (fi\<lparr>fi_Path := Join [?pre, relPath]\<rparr>))" for fi :: file_info
  have g: "g f = Inr h \<longleftrightarrow> \<not> is_abs (fi_Path f) \<and> inside (Clean (fi_Path f)) \<and>
       h = f\<lparr>fi_Path := path_join (root_comps root @ rel_comps (fi_Path f))\<rparr>" for f h
  proof (cases "is_abs (fi_Path f)")
    case True
    then show ?thesis by (simp add: g_def Let_def)
  next
    case nabs: False
    show ?thesis
    proof (cases "inside (Clean (fi_Path f))")
      case True
      obtain ns where ns: "ns \<noteq> []" "normals ns" "Clean (fi_Path f) = path_join ns"
          "rel_comps (fi_Path f) = ns"
        by (rule inside_normals [OF nabs True])
      have "\<not> is_abs (path_join ns)" using Clean_path_join [OF ns(2,1)] by simp
      then show ?thesis
        using True ns nabs Join_rel_normals [OF root_comps_normals ns(2,1), of root]
        by (auto simp: g_def Let_def inside_def)
    next
      case False
      then show ?thesis using nabs by (auto simp: g_def Let_def inside_def)
    qed
  qed
  have "foldE (\<lambda>fi acc.
           let relPath = Clean (fi_Path fi) in
           if relPath = ''.'' \<or> is_abs relPath \<or> relPath = ''..'' \<or> prefix ''../'' relPath
           then Inl (Errorf ''invalid path relative to backup root: %q'')
           else Inr (acc @ [fi\<lparr>fi_Path := Join [?pre, relPath]\<rparr>])) files [] = Inr out \<longleftrightarrow>
        list_all2 (\<lambda>x z. g x = Inr z) files out"
    by (subst foldE_snoc_map [of _ g]) (auto simp: g_def Let_def)
  then show ?thesis
    using assms by (auto simp: NamespaceFiles_def ArchiveRootPrefix_abs result_simps g)
qed

text \<open>
  For an absolute backup root every scanned relative path is mapped below the root's archive prefix
  and keeps its components; a path that is absolute or leaves the root makes the whole call fail.
\<close>

theorem NamespaceFiles_abs:
  assumes "is_abs root"
  shows "NamespaceFiles cwd root files = Inr (pre, out) \<longleftrightarrow>
    pre = path_join (root_comps root) \<and>
    list_all2 (\<lambda>f g. \<not> is_abs (fi_Path f) \<and> inside (Clean (fi_Path f)) \<and>
       g = f\<lparr>fi_Path := path_join (root_comps root @ rel_comps (fi_Path f))\<rparr>) files out"
  using assms by (rule NamespaceFiles_iff)

lemma NamespaceFiles_abs_witness:
  "NamespaceFiles (Inr ''/'') ''/home/alice''
     [\<lparr>fi_Path = ''docs/a.txt'', fi_Size = 3, fi_Mtime = 7, fi_Mode = 0x1A4, fi_SHA256 = ''''\<rparr>] =
   Inr (''home/alice'',
     [\<lparr>fi_Path = ''home/alice/docs/a.txt'', fi_Size = 3, fi_Mtime = 7, fi_Mode = 0x1A4, fi_SHA256 = ''''\<rparr>])"
  (is "?f = Inr (?pre, ?out)")
proof -
  have "?pre = path_join (root_comps ''/home/alice'')"
    "inside (Clean ''docs/a.txt'')"
    "''home/alice/docs/a.txt'' = path_join (root_comps ''/home/alice'' @ rel_comps ''docs/a.txt'')"
    by code_simp+
  then show ?thesis
    using NamespaceFiles_abs [of "''/home/alice''"] by simp
qed

section \<open>Differences\<close>

datatype diff_action = DiffSkip | DiffAdd | DiffModify | DiffDelete

record file_diff =
  fd_File :: file_info
  fd_Action :: diff_action

definition pathInRoot :: "string \<Rightarrow> string \<Rightarrow> bool" where
  "pathInRoot path root =
     (let cleanPath = Clean path; cleanRoot = Clean root
      in cleanPath \<noteq> cleanRoot \<and> prefix (cleanRoot @ ''/'') cleanPath)"

text \<open>The map from path to scanned file: a later file of the same path replaces an earlier one.\<close>

definition scanned_table :: "file_info list \<Rightarrow> file_info list" where
  "scanned_table scanned = fold (row_replace fi_Path) scanned []"

definition same_content :: "file_info \<Rightarrow> file_snapshot \<Rightarrow> bool" where
  "same_content f s \<longleftrightarrow> \<not> (fi_Mtime f \<noteq> fs_Mtime s \<or> fi_Size f \<noteq> fs_Size s \<or>
     fi_Mode f \<noteq> fs_Mode s \<or> fi_SHA256 f \<noteq> fs_SHA256 s)"

definition deleted_info :: "string \<Rightarrow> file_info" where
  "deleted_info p = \<lparr>fi_Path = p, fi_Size = 0, fi_Mtime = 0, fi_Mode = 0, fi_SHA256 = ''''\<rparr>"

definition in_scope :: "string \<Rightarrow> string \<Rightarrow> bool" where
  "in_scope rootPrefix p \<longleftrightarrow> \<not> (rootPrefix \<noteq> '''' \<and> \<not> pathInRoot p rootPrefix)"

fun diff_snaps ::
  "string \<Rightarrow> snapshots \<Rightarrow> file_info list \<Rightarrow> file_diff list \<times> file_info list" where
  "diff_snaps rootPrefix [] scannedPaths = ([], scannedPaths)"
| "diff_snaps rootPrefix (snap # snaps) scannedPaths =
     (if rootPrefix \<noteq> '''' \<and> \<not> pathInRoot (fs_FilePath snap) rootPrefix
      then diff_snaps rootPrefix snaps scannedPaths
      else case row_find fi_Path (fs_FilePath snap) scannedPaths of
        None \<Rightarrow>
          (let (ds, t) = diff_snaps rootPrefix snaps scannedPaths
           in (\<lparr>fd_File = deleted_info (fs_FilePath snap), fd_Action = DiffDelete\<rparr> # ds, t))
      | Some scannedFile \<Rightarrow>
          (let (ds, t) = diff_snaps rootPrefix snaps
                           (row_delete fi_Path (fs_FilePath snap) scannedPaths)
           in (if fi_Mtime scannedFile \<noteq> fs_Mtime snap \<or> fi_Size scannedFile \<noteq> fs_Size snap \<or>
                  fi_Mode scannedFile \<noteq> fs_Mode snap \<or> fi_SHA256 scannedFile \<noteq> fs_SHA256 snap
               then \<lparr>fd_File = scannedFile, fd_Action = DiffModify\<rparr> # ds else ds, t)))"

definition computeDiff ::
  "faults \<Rightarrow> file_info list \<Rightarrow> snapshots \<Rightarrow> string \<Rightarrow> string \<Rightarrow> string \<Rightarrow> file_diff list \<times> error list" where
  "computeDiff fl scanned db serverID username rootPrefix =
     (case ListUserSnapshots fl serverID username db of
        Inl e \<Rightarrow> ([], [Wrap ''list snapshots: %w'' e])
      | Inr existing \<Rightarrow>
          (let (ds, rest) = diff_snaps rootPrefix existing (scanned_table scanned)
           in (ds @ map (\<lambda>f. \<lparr>fd_File = f, fd_Action = DiffAdd\<rparr>) rest, [])))"

definition ComputeDiffUnderRoot ::
  "faults \<Rightarrow> file_info list \<Rightarrow> snapshots \<Rightarrow> string \<Rightarrow> string \<Rightarrow> string \<Rightarrow> file_diff list \<times> error list" where
  "ComputeDiffUnderRoot fl scanned db serverID username rootPrefix =
     computeDiff fl scanned db serverID username rootPrefix"

definition ComputeDiff ::
  "faults \<Rightarrow> file_info list \<Rightarrow> snapshots \<Rightarrow> string \<Rightarrow> string \<Rightarrow> file_diff list \<times> error list" where
  "ComputeDiff fl scanned db serverID username = computeDiff fl scanned db serverID username ''''"

interpretation scanned_files: keyed_table "row_find fi_Path" "row_replace fi_Path"
    "row_delete fi_Path" fi_Path
  by unfold_locales (simp_all add: row_find_replace row_find_delete)

lemma scanned_table_find:
  "distinct (map fi_Path scanned) \<Longrightarrow>
   row_find fi_Path p (scanned_table scanned) = row_find fi_Path p scanned"
proof (cases "p \<in> fi_Path ` set scanned")
  case True
  assume d: "distinct (map fi_Path scanned)"
  from True obtain f where "f \<in> set scanned" "fi_Path f = p" by auto
  then show ?thesis
    using scanned_files.find_puts [OF d, of f "[]"] row_find_distinct [OF d, of f]
    by (simp add: scanned_table_def)
next
  case False
  then show ?thesis
    using scanned_files.find_puts_other [of p scanned "[]"] row_find_None [of fi_Path p scanned]
    by (simp add: scanned_table_def)
qed

lemma scanned_table_distinct: "distinct (map fi_Path (scanned_table scanned))"
proof -
  have "distinct (map fi_Path t) \<Longrightarrow> distinct (map fi_Path (fold (row_replace fi_Path) xs t))" for xs t
    by (induction xs arbitrary: t) (auto simp: distinct_row_replace simp del: distinct_map)
  from this [of "[]" scanned] show ?thesis by (simp add: scanned_table_def)
qed

lemma row_find_set:
  "distinct (map key t) \<Longrightarrow> f \<in> set t \<longleftrightarrow> row_find key (key f) t = Some f"
  using row_find_distinct row_find_key by metis

text \<open>What is left of the table after the snapshots: the files with no snapshot in scope.\<close>

lemma diff_snaps_rest:
  "distinct (map fi_Path t) \<Longrightarrow> distinct (map fi_Path (snd (diff_snaps root snaps t))) \<and>
   (\<forall>p. row_find fi_Path p (snd (diff_snaps root snaps t)) =
     (if \<exists>s \<in> set snaps. in_scope root (fs_FilePath s) \<and> fs_FilePath s = p then None
      else row_find fi_Path p t))"
proof (induction root snaps t rule: diff_snaps.induct)
  case (1 root t)
  then show ?case by simp
next
  case (2 root snap snaps t)
  show ?case
  proof (cases "in_scope root (fs_FilePath snap)")
    case False
    then show ?thesis using 2 by (auto simp: in_scope_def)
  next
    case True
    then have sc: "\<not> (root \<noteq> '''' \<and> \<not> pathInRoot (fs_FilePath snap) root)" by (simp add: in_scope_def)
    show ?thesis
    proof (cases "row_find fi_Path (fs_FilePath snap) t")
      case None
      have "diff_snaps root (snap # snaps) t =
          (let (ds, u) = diff_snaps root snaps t
           in (\<lparr>fd_File = deleted_info (fs_FilePath snap), fd_Action = DiffDelete\<rparr> # ds, u))"
        using sc None by auto
      then show ?thesis
        using "2.IH"(2) [OF sc None] "2.prems" None True by (auto simp: case_prod_beta Let_def)
    next
      case (Some f)
      have snd: "snd (diff_snaps root (snap # snaps) t) =
          snd (diff_snaps root snaps (row_delete fi_Path (fs_FilePath snap) t))"
        using sc Some by (auto simp: case_prod_beta Let_def)
      show ?thesis
        using "2.IH"(3) [OF sc Some] distinct_row_delete [OF "2.prems"] True
        unfolding snd by (auto simp: row_find_delete)
    qed
  qed
qed

text \<open>What each snapshot contributes.\<close>

definition snap_diff :: "file_info list \<Rightarrow> file_snapshot \<Rightarrow> file_diff option" where
  "snap_diff t s =
     (case row_find fi_Path (fs_FilePath s) t of
        None \<Rightarrow> Some \<lparr>fd_File = deleted_info (fs_FilePath s), fd_Action = DiffDelete\<rparr>
      | Some f \<Rightarrow> if same_content f s then None else Some \<lparr>fd_File = f, fd_Action = DiffModify\<rparr>)"

lemma diff_snaps_set:
  "distinct (map fs_FilePath snaps) \<Longrightarrow>
   set (fst (diff_snaps root snaps t)) =
     {d. \<exists>s \<in> set snaps. in_scope root (fs_FilePath s) \<and> snap_diff t s = Some d}"
proof (induction root snaps t rule: diff_snaps.induct)
  case (1 root t)
  then show ?case by simp
next
  case (2 root snap snaps t)
  have d: "distinct (map fs_FilePath snaps)" "fs_FilePath snap \<notin> fs_FilePath ` set snaps"
    using "2.prems" by auto
  have del: "snap_diff (row_delete fi_Path (fs_FilePath snap) t) s = snap_diff t s"
    if "s \<in> set snaps" for s
  proof -
    have "fs_FilePath s \<noteq> fs_FilePath snap" using d(2) that by (metis imageI)
    then show ?thesis by (simp add: snap_diff_def row_find_delete)
  qed
  show ?case
  proof (cases "in_scope root (fs_FilePath snap)")
    case False
    then show ?thesis using "2.IH"(1) d(1) by (auto simp: in_scope_def)
  next
    case True
    then have sc: "\<not> (root \<noteq> '''' \<and> \<not> pathInRoot (fs_FilePath snap) root)" by (simp add: in_scope_def)
    show ?thesis
    proof (cases "row_find fi_Path (fs_FilePath snap) t")
      case None
      have "fst (diff_snaps root (snap # snaps) t) =
          \<lparr>fd_File = deleted_info (fs_FilePath snap), fd_Action = DiffDelete\<rparr> #
          fst (diff_snaps root snaps t)"
        using sc None by (auto simp: case_prod_beta Let_def)
      then show ?thesis
        using "2.IH"(2) [OF sc None d(1)] True None by (auto simp: snap_diff_def)
    next
      case (Some f)
      have "fst (diff_snaps root (snap # snaps) t) =
          (if same_content f snap then [] else [\<lparr>fd_File = f, fd_Action = DiffModify\<rparr>]) @
          fst (diff_snaps root snaps (row_delete fi_Path (fs_FilePath snap) t))"
        using sc Some by (auto simp: case_prod_beta Let_def same_content_def)
      moreover have "set (fst (diff_snaps root snaps (row_delete fi_Path (fs_FilePath snap) t))) =
          {d. \<exists>s \<in> set snaps. in_scope root (fs_FilePath s) \<and> snap_diff t s = Some d}"
        using "2.IH"(3) [OF sc Some d(1)] del by auto
      ultimately show ?thesis
        using True Some by (auto simp: snap_diff_def)
    qed
  qed
qed

text \<open>The snapshot recorded for a path, and the meaning of each difference.\<close>

definition snap_of :: "snapshots \<Rightarrow> string \<Rightarrow> string \<Rightarrow> string \<Rightarrow> file_snapshot option" where
  "snap_of db sid u p = row_find snap_key (sid, u, p) db"

definition is_diff ::
  "file_info list \<Rightarrow> snapshots \<Rightarrow> string \<Rightarrow> string \<Rightarrow> string \<Rightarrow> file_diff \<Rightarrow> bool" where
  "is_diff scanned db sid u root d \<longleftrightarrow>
     (case fd_Action d of
        DiffSkip \<Rightarrow> False
      | DiffAdd \<Rightarrow> fd_File d \<in> set scanned \<and>
          \<not> (in_scope root (fi_Path (fd_File d)) \<and> snap_of db sid u (fi_Path (fd_File d)) \<noteq> None)
      | DiffModify \<Rightarrow> fd_File d \<in> set scanned \<and> in_scope root (fi_Path (fd_File d)) \<and>
          (\<exists>s. snap_of db sid u (fi_Path (fd_File d)) = Some s \<and> \<not> same_content (fd_File d) s)
      | DiffDelete \<Rightarrow> \<exists>p. fd_File d = deleted_info p \<and> in_scope root p \<and>
          snap_of db sid u p \<noteq> None \<and> p \<notin> fi_Path ` set scanned)"

lemma user_rows:
  assumes "snaps_wf db" "ListUserSnapshots fl sid u db = Inr rows"
  shows "distinct (map fs_FilePath rows)"
    and "s \<in> set rows \<longleftrightarrow> snap_of db sid u (fs_FilePath s) = Some s \<and> s \<in> set rows"
    and "snap_of db sid u p = Some s \<Longrightarrow> s \<in> set rows \<and> fs_FilePath s = p"
    and "s \<in> set rows \<Longrightarrow> snap_of db sid u (fs_FilePath s) = Some s"
proof -
  have rows: "rows = filter (\<lambda>s. fs_ServerID s = sid \<and> fs_Username s = u) db"
    using assms(2) by (simp add: ListUserSnapshots_def split: if_splits)
  have d: "distinct (map snap_key rows)"
    using assms(1) by (simp add: rows snaps_wf_def distinct_map_filter)
  have "map snap_key rows = map (\<lambda>p. (sid, u, p)) (map fs_FilePath rows)"
    by (simp add: rows snap_key_def)
  then show "distinct (map fs_FilePath rows)" using d by (metis distinct_map)
  show m: "snap_of db sid u (fs_FilePath s) = Some s" if "s \<in> set rows" for s
  proof -
    have "snap_key s = (sid, u, fs_FilePath s)" "s \<in> set db" using that by (auto simp: rows snap_key_def)
    then show ?thesis
      using row_find_distinct [of snap_key db s] assms(1) by (simp add: snap_of_def snaps_wf_def)
  qed
  then show "s \<in> set rows \<longleftrightarrow> snap_of db sid u (fs_FilePath s) = Some s \<and> s \<in> set rows" by auto
  show "snap_of db sid u p = Some s \<Longrightarrow> s \<in> set rows \<and> fs_FilePath s = p"
    using row_find_key [of snap_key "(sid, u, p)" db s] by (auto simp: snap_of_def snap_key_def rows)
qed

lemma computeDiff_correct:
  assumes "distinct (map fi_Path scanned)" "snaps_wf db" "\<not> fl QuerySnapshots"
  shows "snd (computeDiff fl scanned db sid u root) = []"
    and "d \<in> set (fst (computeDiff fl scanned db sid u root)) \<longleftrightarrow> is_diff scanned db sid u root d"
proof -
  obtain rows where r: "ListUserSnapshots fl sid u db = Inr rows"
    using assms(3) by (simp add: ListUserSnapshots_def)
  let ?t = "scanned_table scanned"
  note rows = user_rows [OF assms(2) r]
  have td: "distinct (map fi_Path ?t)" by (rule scanned_table_distinct)
  note find = scanned_table_find [OF assms(1)]
  show "snd (computeDiff fl scanned db sid u root) = []"
    by (simp add: computeDiff_def r case_prod_beta Let_def)
  have mem: "d \<in> set (fst (computeDiff fl scanned db sid u root)) \<longleftrightarrow>
      d \<in> set (fst (diff_snaps root rows ?t)) \<or>
      (\<exists>f \<in> set (snd (diff_snaps root rows ?t)). d = \<lparr>fd_File = f, fd_Action = DiffAdd\<rparr>)"
    by (auto simp: computeDiff_def r case_prod_beta Let_def)
  have old: "d \<in> set (fst (diff_snaps root rows ?t)) \<longleftrightarrow>
      (\<exists>p s. in_scope root p \<and> snap_of db sid u p = Some s \<and> snap_diff ?t s = Some d)"
    unfolding diff_snaps_set [OF rows(1)] using rows(3,4) by blast
  have new: "f \<in> set (snd (diff_snaps root rows ?t)) \<longleftrightarrow>
      f \<in> set scanned \<and> \<not> (in_scope root (fi_Path f) \<and> snap_of db sid u (fi_Path f) \<noteq> None)" for f
  proof -
    have "(\<exists>s \<in> set rows. in_scope root (fs_FilePath s) \<and> fs_FilePath s = fi_Path f) \<longleftrightarrow>
        in_scope root (fi_Path f) \<and> snap_of db sid u (fi_Path f) \<noteq> None"
      using rows(3,4) by (metis option.exhaust option.distinct(1))
    then show ?thesis
      using diff_snaps_rest [OF td, of root rows] row_find_set [of fi_Path "snd (diff_snaps root rows ?t)" f]
        row_find_set [OF assms(1), of f] find [of "fi_Path f"] by auto
  qed
  have sd: "snap_diff ?t s = Some d \<longleftrightarrow>
      (case row_find fi_Path (fs_FilePath s) scanned of
        None \<Rightarrow> d = \<lparr>fd_File = deleted_info (fs_FilePath s), fd_Action = DiffDelete\<rparr>
      | Some f \<Rightarrow> \<not> same_content f s \<and> d = \<lparr>fd_File = f, fd_Action = DiffModify\<rparr>)" for s
    by (auto simp: snap_diff_def find split: option.splits)
  have path: "snap_of db sid u p = Some s \<Longrightarrow> fs_FilePath s = p" for p s using rows(3) by blast
  show "d \<in> set (fst (computeDiff fl scanned db sid u root)) \<longleftrightarrow> is_diff scanned db sid u root d"
  proof (cases "fd_Action d")
    case DiffSkip
    then show ?thesis unfolding mem old sd is_diff_def by (auto split: option.splits)
  next
    case DiffAdd
    then show ?thesis unfolding mem old sd is_diff_def
      by (cases d) (auto simp: new split: option.splits)
  next
    case DiffModify
    have "(\<exists>p s. in_scope root p \<and> snap_of db sid u p = Some s \<and> snap_diff ?t s = Some d) \<longleftrightarrow>
        fd_File d \<in> set scanned \<and> in_scope root (fi_Path (fd_File d)) \<and>
        (\<exists>s. snap_of db sid u (fi_Path (fd_File d)) = Some s \<and> \<not> same_content (fd_File d) s)"
      unfolding sd
    proof
      assume "\<exists>p s. in_scope root p \<and> snap_of db sid u p = Some s \<and>
        (case row_find fi_Path (fs_FilePath s) scanned of
           None \<Rightarrow> d = \<lparr>fd_File = deleted_info (fs_FilePath s), fd_Action = DiffDelete\<rparr>
         | Some f \<Rightarrow> \<not> same_content f s \<and> d = \<lparr>fd_File = f, fd_Action = DiffModify\<rparr>)"
      then obtain p s f where "in_scope root p" "snap_of db sid u p = Some s"
          "row_find fi_Path (fs_FilePath s) scanned = Some f" "\<not> same_content f s" "fd_File d = f"
        using DiffModify by (auto split: option.splits)
      then show "fd_File d \<in> set scanned \<and> in_scope root (fi_Path (fd_File d)) \<and>
        (\<exists>s. snap_of db sid u (fi_Path (fd_File d)) = Some s \<and> \<not> same_content (fd_File d) s)"
        using row_find_key path by metis
    next
      assume "fd_File d \<in> set scanned \<and> in_scope root (fi_Path (fd_File d)) \<and>
        (\<exists>s. snap_of db sid u (fi_Path (fd_File d)) = Some s \<and> \<not> same_content (fd_File d) s)"
      then obtain s where s: "fd_File d \<in> set scanned" "in_scope root (fi_Path (fd_File d))"
          "snap_of db sid u (fi_Path (fd_File d)) = Some s" "\<not> same_content (fd_File d) s"
        by blast
      have "row_find fi_Path (fs_FilePath s) scanned = Some (fd_File d)"
        using path [OF s(3)] row_find_distinct [OF assms(1) s(1)] by simp
      with s DiffModify show "\<exists>p s. in_scope root p \<and> snap_of db sid u p = Some s \<and>
        (case row_find fi_Path (fs_FilePath s) scanned of
           None \<Rightarrow> d = \<lparr>fd_File = deleted_info (fs_FilePath s), fd_Action = DiffDelete\<rparr>
         | Some f \<Rightarrow> \<not> same_content f s \<and> d = \<lparr>fd_File = f, fd_Action = DiffModify\<rparr>)"
        by (cases d) (intro exI [of _ "fi_Path (fd_File d)"] exI [of _ s], simp)
    qed
    then show ?thesis unfolding mem old is_diff_def using DiffModify by auto
  next
    case DiffDelete
    then show ?thesis unfolding mem old sd is_diff_def
      by (cases d) (auto dest: path simp: row_find_None split: option.splits; metis path)
  qed
qed

text \<open>
  There is nothing to send exactly when the recorded snapshots in scope mirror the scanned files:
  each file is in scope with a snapshot of equal content, and no snapshot in scope has no file.
\<close>

lemma computeDiff_empty_iff:
  assumes "distinct (map fi_Path scanned)" "snaps_wf db" "\<not> fl QuerySnapshots"
  shows "fst (computeDiff fl scanned db sid u root) = [] \<longleftrightarrow>
    (\<forall>f \<in> set scanned. in_scope root (fi_Path f) \<and>
       (\<exists>s. snap_of db sid u (fi_Path f) = Some s \<and> same_content f s)) \<and>
    (\<forall>p. in_scope root p \<and> snap_of db sid u p \<noteq> None \<longrightarrow> p \<in> fi_Path ` set scanned)"
  (is "?L \<longleftrightarrow> ?R")
proof -
  have "?L \<longleftrightarrow> (\<forall>d. \<not> is_diff scanned db sid u root d)"
    using computeDiff_correct(2) [where fl = fl, OF assms, of _ sid u root]
    by (metis list.set_intros(1) neq_Nil_conv empty_iff list.set(1))
  also have "\<dots> \<longleftrightarrow> ?R"
  proof
    assume none: "\<forall>d. \<not> is_diff scanned db sid u root d"
    show ?R
    proof (intro conjI ballI allI impI)
      fix f assume "f \<in> set scanned"
      then show "in_scope root (fi_Path f)"
        using none [rule_format, of "\<lparr>fd_File = f, fd_Action = DiffAdd\<rparr>"] by (auto simp: is_diff_def)
    next
      fix f assume f: "f \<in> set scanned"
      have "in_scope root (fi_Path f) \<and> snap_of db sid u (fi_Path f) \<noteq> None"
        using none [rule_format, of "\<lparr>fd_File = f, fd_Action = DiffAdd\<rparr>"] f by (auto simp: is_diff_def)
      then show "\<exists>s. snap_of db sid u (fi_Path f) = Some s \<and> same_content f s"
        using none [rule_format, of "\<lparr>fd_File = f, fd_Action = DiffModify\<rparr>"] f by (auto simp: is_diff_def)
    next
      fix p assume "in_scope root p \<and> snap_of db sid u p \<noteq> None"
      then show "p \<in> fi_Path ` set scanned"
        using none [rule_format, of "\<lparr>fd_File = deleted_info p, fd_Action = DiffDelete\<rparr>"]
        by (auto simp: is_diff_def)
    qed
  next
    assume ?R
    then show "\<forall>d. \<not> is_diff scanned db sid u root d"
      by (auto simp: is_diff_def split: diff_action.splits; force)
  qed
  finally show ?thesis .
qed

definition demo_file :: file_info where
  "demo_file = \<lparr>fi_Path = ''home/a'', fi_Size = 3, fi_Mtime = 7, fi_Mode = 0x1A4, fi_SHA256 = ''h''\<rparr>"

lemma computeDiff_empty_iff_witness:
  "fst (computeDiff no_faults [demo_file]
     [\<lparr>fs_ServerID = ''s1'', fs_Username = ''alice'', fs_FilePath = ''home/a'', fs_Mtime = 7, fs_Size = 3,
       fs_Mode = 0x1A4, fs_SHA256 = ''h'', fs_SyncedAt = 0\<rparr>] ''s1'' ''alice'' ''home'') = []"
proof -
  have "in_scope ''home'' p \<and> p = ''home/a'' \<Longrightarrow> p = ''home/a''" for p by simp
  moreover have "in_scope ''home'' ''home/a''" by code_simp
  ultimately show ?thesis
    using computeDiff_empty_iff [of "[demo_file]"
        "[\<lparr>fs_ServerID = ''s1'', fs_Username = ''alice'', fs_FilePath = ''home/a'', fs_Mtime = 7, fs_Size = 3,
           fs_Mode = 0x1A4, fs_SHA256 = ''h'', fs_SyncedAt = 0\<rparr>]" no_faults "''s1''" "''alice''" "''home''"]
    by (auto simp: snaps_wf_def no_faults_def demo_file_def snap_of_def snap_key_def same_content_def)
qed

text \<open>
  Files of the root's archive prefix are in scope: with the prefix of \<open>NamespaceFiles\<close> the
  difference looks at every snapshot of the root, and at no snapshot outside the prefix.
\<close>

lemma in_scope_normals:
  assumes "normals pre" "pre \<noteq> []" "normals ns" "ns \<noteq> []"
  shows "in_scope (path_join pre) (path_join ns) \<longleftrightarrow> (\<exists>r. r \<noteq> [] \<and> ns = pre @ r)"
proof -
  have "path_join pre \<noteq> []" using assms by (auto simp: path_join_def join_on_eq_Nil normal_def)
  moreover have "path_join ns \<noteq> path_join pre" if "ns = pre @ r" "r \<noteq> []" for r
  proof
    assume eq: "path_join ns = path_join pre"
    have "ns = pre"
      using join_on_inj [OF assms(4,2) normals_no_sep [OF assms(3)] normals_no_sep [OF assms(1)]] eq
      by (simp add: path_join_def)
    then show False using that by simp
  qed
  ultimately show ?thesis
    using assms path_join_prefix_sep [OF assms(1,3,2)] Clean_path_join [OF assms(1,2)]
      Clean_path_join [OF assms(3,4)]
    by (auto simp: in_scope_def pathInRoot_def Let_def)
qed

text \<open>
  C13: The differences of a scan against the recorded snapshots are exactly the specified ones: an add
  for each file with no snapshot in scope, a modify where size, time, mode or hash differ, a delete
  for each snapshot in scope with no scanned file; and no error is reported.
\<close>

theorem computeDiff_exact:
  assumes "distinct (map fi_Path scanned)" "snaps_wf db" "\<not> fl QuerySnapshots"
  shows "snd (computeDiff fl scanned db sid u pre) = [] \<and>
    set (fst (computeDiff fl scanned db sid u pre)) = {d. is_diff scanned db sid u pre d}"
  using computeDiff_correct [where fl = fl, OF assms] by auto

lemma computeDiff_exact_witness:
  "fst (computeDiff no_faults [demo_file] [] ''s1'' ''alice'' ''home'') = [\<lparr>fd_File = demo_file, fd_Action = DiffAdd\<rparr>] \<and>
   is_diff [demo_file] [] ''s1'' ''alice'' ''home'' \<lparr>fd_File = demo_file, fd_Action = DiffAdd\<rparr>"
proof -
  have "fst (computeDiff no_faults [demo_file] [] ''s1'' ''alice'' ''home'') =
      [\<lparr>fd_File = demo_file, fd_Action = DiffAdd\<rparr>]"
    by code_simp
  then show ?thesis
    using computeDiff_exact [of "[demo_file]" "[]" no_faults "''s1''" "''alice''" "''home''"]
    by (auto simp: snaps_wf_def no_faults_def set_eq_iff)
qed

end
