(* ===== verification/Vault_Packager.thy ===== *)
theory Vault_Packager
  imports Vault_Scanner
begin

text \<open>
  \<open>pkg/packager\<close>: the batches a list of differences is sent in, limited in the number of
  files and in content bytes. Sizes are non-negative \<open>int64\<close> values; the running sum is
  compared with the limit only while it is below it, so it stays in range.
\<close>

definition DefaultBatchSize :: int where "DefaultBatchSize = 1000"

definition MaxBatchContentBytes :: int where "MaxBatchContentBytes = 15 * 1024 * 1024"

record batch =
  ba_ID :: string
  ba_Files :: "file_diff list"

record packer =
  pk_batches :: "batch list"
  pk_files :: "file_diff list"
  pk_bytes :: int

definition add_batch :: "file_diff list \<Rightarrow> batch list \<Rightarrow> batch list" where
  "add_batch files bs = bs @ [\<lparr>ba_ID = ''batch-'' @ format_uint (length bs + 1), ba_Files = files\<rparr>]"

definition flush :: "packer \<Rightarrow> packer" where
  "flush p = (if pk_files p = [] then p
     else \<lparr>pk_batches = add_batch (pk_files p) (pk_batches p), pk_files = [], pk_bytes = 0\<rparr>)"

definition content_bytes :: "file_diff \<Rightarrow> int" where
  "content_bytes d = (if fd_Action d \<noteq> DiffDelete then fi_Size (fd_File d) else 0)"

definition pack_step :: "int \<Rightarrow> int \<Rightarrow> file_diff \<Rightarrow> packer \<Rightarrow> packer" where
  "pack_step batchSize maxBytes diff p =
     (let fileBytes = content_bytes diff in
      if fd_Action diff \<noteq> DiffDelete \<and> maxBytes > 0 \<and> fileBytes > maxBytes then
        (let q = flush p in q\<lparr>pk_batches := add_batch [diff] (pk_batches q)\<rparr>)
      else
        (let q = (if pk_files p \<noteq> [] \<and>
                     (int (length (pk_files p)) \<ge> batchSize \<or>
                      maxBytes > 0 \<and> pk_bytes p + fileBytes > maxBytes)
                  then flush p else p)
         in q\<lparr>pk_files := pk_files q @ [diff], pk_bytes := pk_bytes q + fileBytes\<rparr>))"

definition PackBatchesWithinSize :: "file_diff list \<Rightarrow> int \<Rightarrow> int \<Rightarrow> batch list result" where
  "PackBatchesWithinSize diffs batchSize maxBytes =
     (let size' = (if batchSize \<le> 0 then DefaultBatchSize else batchSize)
      in Inr (pk_batches (flush (fold (pack_step size' maxBytes) diffs
           \<lparr>pk_batches = [], pk_files = [], pk_bytes = 0\<rparr>))))"

definition PackBatches :: "file_diff list \<Rightarrow> int \<Rightarrow> batch list" where
  "PackBatches diffs batchSize =
     (case PackBatchesWithinSize diffs batchSize 0 of Inl _ \<Rightarrow> [] | Inr bs \<Rightarrow> bs)"

section \<open>The invariant of the packing loop\<close>

definition batch_bytes :: "file_diff list \<Rightarrow> int" where
  "batch_bytes ds = sum_list (map content_bytes ds)"

definition batch_ok :: "int \<Rightarrow> int \<Rightarrow> batch \<Rightarrow> bool" where
  "batch_ok batchSize maxBytes b \<longleftrightarrow> ba_Files b \<noteq> [] \<and> int (length (ba_Files b)) \<le> batchSize \<and>
     (maxBytes > 0 \<longrightarrow> batch_bytes (ba_Files b) \<le> maxBytes \<or> length (ba_Files b) = 1)"

definition ids_ok :: "batch list \<Rightarrow> bool" where
  "ids_ok bs \<longleftrightarrow> map ba_ID bs = map (\<lambda>i. ''batch-'' @ format_uint (i + 1)) [0..<length bs]"

definition packer_ok :: "int \<Rightarrow> int \<Rightarrow> file_diff list \<Rightarrow> packer \<Rightarrow> bool" where
  "packer_ok batchSize maxBytes sofar p \<longleftrightarrow>
     concat (map ba_Files (pk_batches p)) @ pk_files p = sofar \<and>
     list_all (batch_ok batchSize maxBytes) (pk_batches p) \<and> ids_ok (pk_batches p) \<and>
     pk_bytes p = batch_bytes (pk_files p) \<and>
     int (length (pk_files p)) \<le> batchSize \<and>
     (maxBytes > 0 \<longrightarrow> pk_bytes p \<le> maxBytes)"

lemma ids_ok_add: "ids_ok bs \<Longrightarrow> ids_ok (add_batch ds bs)"
  by (simp add: ids_ok_def add_batch_def)

lemma ids_ok_distinct: "ids_ok bs \<Longrightarrow> distinct (map ba_ID bs)"
  by (auto simp: ids_ok_def distinct_map inj_on_def dest: format_uint_inj)

lemma batch_bytes_simps [simp]:
  "batch_bytes (d # ds) = content_bytes d + batch_bytes ds"
  "batch_bytes (ds @ es) = batch_bytes ds + batch_bytes es"
  by (simp_all add: batch_bytes_def)

lemma batch_bytes_Nil [simp]: "batch_bytes [] = 0"
  by (simp add: batch_bytes_def)

lemma flush_ok:
  assumes "packer_ok n m sofar p" "0 < n"
  shows "packer_ok n m sofar (flush p)" "pk_files (flush p) = []" "pk_bytes (flush p) = 0"
  using assms
  by (auto simp: packer_ok_def flush_def batch_ok_def add_batch_def ids_ok_def)

lemma pack_step_ok:
  assumes p: "packer_ok n m sofar p" and n: "0 < n"
  shows "packer_ok n m (sofar @ [d]) (pack_step n m d p)"
proof (cases "fd_Action d \<noteq> DiffDelete \<and> m > 0 \<and> content_bytes d > m")
  case True
  then show ?thesis
    using flush_ok [OF p n] n
    by (auto simp: pack_step_def Let_def packer_ok_def batch_ok_def add_batch_def ids_ok_def)
next
  case False
  then have le: "m > 0 \<Longrightarrow> content_bytes d \<le> m" by (auto simp: content_bytes_def)
  let ?full = "pk_files p \<noteq> [] \<and> (int (length (pk_files p)) \<ge> n \<or> m > 0 \<and> pk_bytes p + content_bytes d > m)"
  show ?thesis
  proof (cases ?full)
    case True
    then show ?thesis
      using False flush_ok [OF p n] le n by (auto simp: pack_step_def Let_def packer_ok_def)
  next
    case nf: False
    then show ?thesis
      using False p le n by (auto simp: pack_step_def Let_def packer_ok_def)
  qed
qed

lemma pack_fold_ok:
  "packer_ok n m sofar p \<Longrightarrow> 0 < n \<Longrightarrow> packer_ok n m (sofar @ ds) (fold (pack_step n m) ds p)"
proof (induction ds arbitrary: sofar p)
  case Nil
  then show ?case by simp
next
  case (Cons d ds)
  from Cons.IH [OF pack_step_ok [OF Cons.prems, of d]] Cons.prems(2) show ?case by simp
qed

definition effective_size :: "int \<Rightarrow> int" where
  "effective_size batchSize = (if batchSize \<le> 0 then DefaultBatchSize else batchSize)"

lemma PackBatchesWithinSize_packed:
  "\<exists>bs. PackBatchesWithinSize diffs n m = Inr bs \<and> concat (map ba_Files bs) = diffs \<and>
     list_all (batch_ok (effective_size n) m) bs \<and> ids_ok bs"
proof -
  let ?init = "\<lparr>pk_batches = [], pk_files = [], pk_bytes = 0\<rparr>"
  have n: "0 < effective_size n" by (simp add: effective_size_def DefaultBatchSize_def)
  have "packer_ok (effective_size n) m [] ?init"
    using n by (simp add: packer_ok_def ids_ok_def)
  from flush_ok(1,2) [OF pack_fold_ok [OF this n, of diffs] n]
  show ?thesis
    by (auto simp: PackBatchesWithinSize_def Let_def effective_size_def packer_ok_def)
qed

text \<open>
  Packing never fails, loses or reorders a change: the batches hold the changes in order, no
  batch is over the file count or (unless it is a single large file) the content limit, and the
  batch numbers count up.
\<close>

theorem PackBatchesWithinSize_ok:
  "\<exists>bs. PackBatchesWithinSize diffs n m = Inr bs \<and> concat (map ba_Files bs) = diffs \<and>
     list_all (batch_ok (effective_size n) m) bs \<and> ids_ok bs"
  by (rule PackBatchesWithinSize_packed)

end
