(* ===== verification/Vault_AgentConfig.thy ===== *)
theory Vault_AgentConfig
  imports Complex_Main Vault_Config "HOL-Library.Signed_Division"
begin

text \<open>
  \<open>pkg/config/agent.go\<close>, \<open>internal/agent/scheduler\<close> (\<open>WithinWindow\<close>) and the quota warning
  threshold of \<open>cmd/datavault-agent\<close>: the agent's configuration, its validation, and what the
  validation buys the two functions that use the validated values. Durations are nanoseconds
  in the range of \<open>int64\<close>; a \<open>float64\<close> is a rational, an infinity or not a number.
\<close>

section \<open>Floating-point settings\<close>

datatype float64 = Num rat | PosInf | NegInf | NaN

fun float_less :: "float64 \<Rightarrow> float64 \<Rightarrow> bool" where
  "float_less (Num a) (Num b) = (a < b)"
| "float_less NaN _ = False"
| "float_less _ NaN = False"
| "float_less NegInf b = (b \<noteq> NegInf)"
| "float_less a PosInf = (a \<noteq> PosInf)"
| "float_less _ _ = False"

section \<open>Clock times\<close>

text \<open>
  \<open>time.Parse("15:04", s)\<close>: an hour of one or two digits, a colon and a minute of two digits,
  in minutes since midnight.
\<close>

fun parse_clock :: "string \<Rightarrow> nat result" where
  "parse_clock s =
     (let digits = takeWhile is_digit (take 2 s); rest = drop (length digits) s;
          hour = digits_val 0 digits;
          minute = digits_val 0 (take 2 (drop 1 rest))
      in if digits = [] then Inl (Errorf ''cannot parse'')
         else if hour \<ge> 24 then Inl (Errorf ''hour out of range'')
         else if rest = [] \<or> hd rest \<noteq> CHR '':'' then Inl (Errorf ''cannot parse'')
         else if length (drop 1 rest) < 2 \<or> \<not> list_all is_digit (take 2 (drop 1 rest))
           then Inl (Errorf ''cannot parse'')
         else if minute \<ge> 60 then Inl (Errorf ''minute out of range'')
         else if drop 3 rest \<noteq> [] then Inl (Errorf ''extra text'')
         else Inr (hour * 60 + minute))"

declare parse_clock.simps [simp del]

lemma parse_clock_bound: "parse_clock s = Inr m \<Longrightarrow> m < 1440"
  by (auto simp: parse_clock.simps Let_def split: if_splits)

section \<open>The configuration\<close>

record server_entry =
  se_Address :: string
  se_TLSServerName :: string

record machine_rule =
  mr_Name :: string
  mr_Paths :: "string list"
  mr_Schedule :: string
  mr_Exclude :: "string list"
  mr_Enabled :: bool

record retry_config =
  rc_InitialInterval :: int
  rc_MaxInterval :: int
  rc_Multiplier :: float64
  rc_Jitter :: float64
  rc_MaxElapsedTime :: int

record https_config =
  hc_Listen :: string
  hc_CertFile :: string
  hc_KeyFile :: string
  hc_CAFile :: string
  hc_GatewayCNs :: "string list"
  hc_DelegationTTL :: int
  hc_MinUID :: int

record agent_config =
  ac_CertFile :: string
  ac_KeyFile :: string
  ac_CAFile :: string
  ac_Servers :: "server_entry list"
  ac_MachineRules :: "machine_rule list"
  ac_Retry :: retry_config
  ac_OnTaskFailed :: string
  ac_OnQuotaWarning :: string
  ac_BandwidthLimit :: int
  ac_ScheduleWindow :: "(string \<times> string) option"
  ac_QuotaWarningPercent :: int
  ac_HTTPSAPI :: "https_config option"

definition second_ns :: int where "second_ns = 10 ^ 9"
definition minute_ns :: int where "minute_ns = 60 * second_ns"
definition hour_ns :: int where "hour_ns = 60 * minute_ns"

definition retryDefaults :: "retry_config \<Rightarrow> retry_config" where
  "retryDefaults r =
     \<lparr>rc_InitialInterval = (if rc_InitialInterval r = 0 then 60 * second_ns else rc_InitialInterval r),
      rc_MaxInterval = (if rc_MaxInterval r = 0 then 30 * minute_ns else rc_MaxInterval r),
      rc_Multiplier = (if rc_Multiplier r = Num 0 then Num 2 else rc_Multiplier r),
      rc_Jitter = (if rc_Jitter r = Num 0 then Num (1 / 10) else rc_Jitter r),
      rc_MaxElapsedTime = (if rc_MaxElapsedTime r = 0 then 4 * hour_ns else rc_MaxElapsedTime r)\<rparr>"

definition httpsDefaults :: "https_config \<Rightarrow> https_config" where
  "httpsDefaults h = h\<lparr>
     hc_DelegationTTL := (if hc_DelegationTTL h = 0 then 720 * hour_ns else hc_DelegationTTL h),
     hc_MinUID := (if hc_MinUID h = 0 then 1000 else hc_MinUID h)\<rparr>"

definition agentDefaults :: "agent_config \<Rightarrow> agent_config" where
  "agentDefaults cfg = cfg\<lparr>ac_Retry := retryDefaults (ac_Retry cfg),
     ac_HTTPSAPI := map_option httpsDefaults (ac_HTTPSAPI cfg)\<rparr>"

definition validateRetry :: "retry_config \<Rightarrow> error option" where
  "validateRetry r =
     orElse (failIf (rc_InitialInterval r \<le> 0 \<or> rc_MaxInterval r \<le> 0 \<or> rc_MaxElapsedTime r \<le> 0)
       (Errorf ''retry intervals must be positive''))
     (orElse (failIf (rc_MaxInterval r < rc_InitialInterval r)
       (Errorf ''retry.max_interval must be at least retry.initial_interval''))
     (orElse (failIf (float_less (rc_Multiplier r) (Num 1)) (Errorf ''retry.multiplier must be at least 1''))
     (failIf (float_less (rc_Jitter r) (Num 0) \<or> float_less (Num 1) (rc_Jitter r))
       (Errorf ''retry.jitter must be between 0 and 1''))))"

definition validateWindow :: "string \<times> string \<Rightarrow> error option" where
  "validateWindow w =
     (case parse_clock (fst w) of Inl e \<Rightarrow> Some (Wrap ''schedule_window.start must be HH:MM: %w'' e)
      | Inr _ \<Rightarrow> (case parse_clock (snd w) of Inl e \<Rightarrow> Some (Wrap ''schedule_window.end must be HH:MM: %w'' e)
        | Inr _ \<Rightarrow> failIf (fst w = snd w) (Errorf ''schedule_window start and end must differ'')))"

definition validateHTTPS :: "https_config \<Rightarrow> error option" where
  "validateHTTPS h =
     orElse (firstErr (\<lambda>value. failIf (blank value) (Errorf ''%s is required''))
       [hc_Listen h, hc_CertFile h, hc_KeyFile h, hc_CAFile h])
     (orElse (failIf (hc_GatewayCNs h = []) (Errorf ''https_api.gateway_cns requires at least one gateway CN''))
     (orElse (firstErr (\<lambda>cn. failIf (blank cn) (Errorf ''https_api.gateway_cns must not contain blank entries''))
       (hc_GatewayCNs h))
     (orElse (failIf (hc_DelegationTTL h \<le> 0) (Errorf ''https_api.delegation_ttl must be positive''))
     (failIf (hc_MinUID h < 0) (Errorf ''https_api.min_uid must not be negative'')))))"

definition validateMachineRule :: "machine_rule \<Rightarrow> error option" where
  "validateMachineRule rule =
     orElse (failIf (blank (mr_Name rule) \<or> mr_Paths rule = [])
       (Errorf ''machine_rules[%d] requires a name and at least one path''))
     (orElse (failIf (mr_Enabled rule \<and> blank (mr_Schedule rule))
       (Errorf ''machine_rules[%d].schedule is required for enabled rules''))
     (firstErr (\<lambda>path. failIf (\<not> is_abs path) (Errorf ''machine_rules[%d] path must be absolute: %q''))
       (mr_Paths rule)))"

definition validateAgent :: "agent_config \<Rightarrow> error option" where
  "validateAgent cfg =
     orElse (failIf (ac_Servers cfg = []) (Errorf ''at least one backup server is required''))
     (orElse (firstErr (\<lambda>s. orElse
         (failIf (blank (se_Address s)) (Errorf ''servers[%d].address is required''))
         (failIf (se_TLSServerName s \<noteq> '''' \<and> blank (se_TLSServerName s))
           (Errorf ''servers[%d].tls_server_name must not be blank''))) (ac_Servers cfg))
     (orElse (firstErr (\<lambda>value. failIf (blank value) (Errorf ''%s is required''))
       [ac_CertFile cfg, ac_KeyFile cfg, ac_CAFile cfg])
     (orElse (validateRetry (ac_Retry cfg))
     (orElse (failIf (ac_BandwidthLimit cfg < 0)
       (Errorf ''bandwidth_limit_bytes_per_second must not be negative''))
     (orElse (failIf (ac_QuotaWarningPercent cfg < 0 \<or> ac_QuotaWarningPercent cfg > 100)
       (Errorf ''quota_warning_percent must be between 0 and 100''))
     (orElse (firstErr (\<lambda>script. failIf (script \<noteq> '''' \<and> \<not> is_abs script)
         (Errorf ''%s must be an absolute path'')) [ac_OnTaskFailed cfg, ac_OnQuotaWarning cfg])
     (orElse (case ac_ScheduleWindow cfg of None \<Rightarrow> None | Some w \<Rightarrow> validateWindow w)
     (orElse (case ac_HTTPSAPI cfg of None \<Rightarrow> None | Some h \<Rightarrow> validateHTTPS h)
     (firstErr validateMachineRule (ac_MachineRules cfg))))))))))"

definition LoadAgentConfig ::
  "(string \<Rightarrow> agent_config result) \<Rightarrow> string result \<Rightarrow> agent_config result" where
  "LoadAgentConfig parse read =
     (case read of Inl e \<Rightarrow> Inl (Wrap ''read agent config: %w'' e)
      | Inr data \<Rightarrow> (case parse data of Inl e \<Rightarrow> Inl (Wrap ''parse agent config: %w'' e)
        | Inr raw \<Rightarrow>
            (let cfg = agentDefaults raw
             in case validateAgent cfg of Some e \<Rightarrow> Inl e | None \<Rightarrow> Inr cfg)))"

definition retry_ok :: "retry_config \<Rightarrow> bool" where
  "retry_ok r \<longleftrightarrow> 0 < rc_InitialInterval r \<and> rc_InitialInterval r \<le> rc_MaxInterval r \<and>
     0 < rc_MaxElapsedTime r"

definition window_ok :: "string \<times> string \<Rightarrow> bool" where
  "window_ok w \<longleftrightarrow> is_ok (parse_clock (fst w)) \<and> is_ok (parse_clock (snd w)) \<and> fst w \<noteq> snd w"

definition https_ok :: "https_config \<Rightarrow> bool" where
  "https_ok h \<longleftrightarrow> hc_GatewayCNs h \<noteq> [] \<and> list_all (\<lambda>cn. \<not> blank cn) (hc_GatewayCNs h) \<and>
     0 < hc_DelegationTTL h \<and> 0 < hc_MinUID h"

definition agent_config_ok :: "agent_config \<Rightarrow> bool" where
  "agent_config_ok cfg \<longleftrightarrow>
     ac_Servers cfg \<noteq> [] \<and> retry_ok (ac_Retry cfg) \<and> 0 \<le> ac_BandwidthLimit cfg \<and>
     0 \<le> ac_QuotaWarningPercent cfg \<and> ac_QuotaWarningPercent cfg \<le> 100 \<and>
     (case ac_ScheduleWindow cfg of None \<Rightarrow> True | Some w \<Rightarrow> window_ok w) \<and>
     (case ac_HTTPSAPI cfg of None \<Rightarrow> True | Some h \<Rightarrow> https_ok h) \<and>
     list_all (\<lambda>r. mr_Paths r \<noteq> [] \<and> list_all is_abs (mr_Paths r)) (ac_MachineRules cfg)"

lemma validateRetry_ok: "validateRetry r = None \<Longrightarrow> retry_ok r"
  by (auto simp: validateRetry_def retry_ok_def)

lemma validateWindow_ok: "validateWindow w = None \<Longrightarrow> window_ok w"
  by (auto simp: validateWindow_def window_ok_def split: sum.splits)

lemma validateHTTPS_ok: "validateHTTPS (httpsDefaults h) = None \<Longrightarrow> https_ok (httpsDefaults h)"
  by (auto simp: validateHTTPS_def https_ok_def firstErr_None list_all_iff httpsDefaults_def split: if_splits)

lemma validateMachineRule_ok:
  "validateMachineRule r = None \<Longrightarrow> mr_Paths r \<noteq> [] \<and> list_all is_abs (mr_Paths r)"
  by (auto simp: validateMachineRule_def firstErr_None list_all_iff)

text \<open>
  Every agent configuration that loads is well-formed: at least one server, a positive retry budget
  with ordered intervals, a parseable schedule window with different ends, a gateway section with
  at least one named gateway and a positive minimum user id, absolute machine rule paths.
\<close>

lemma LoadAgentConfig_ok:
  assumes "LoadAgentConfig parse read = Inr cfg"
  shows "agent_config_ok cfg"
proof -
  from assms obtain raw where v: "validateAgent cfg = None" and cfg: "cfg = agentDefaults raw"
    by (auto simp: LoadAgentConfig_def Let_def split: sum.splits option.splits)
  have h: "ac_HTTPSAPI cfg = map_option httpsDefaults (ac_HTTPSAPI raw)"
    by (simp add: cfg agentDefaults_def)
  have https: "case ac_HTTPSAPI cfg of None \<Rightarrow> True | Some h \<Rightarrow> https_ok h"
    using v h validateHTTPS_ok by (cases "ac_HTTPSAPI raw") (auto simp: validateAgent_def)
  show ?thesis
    unfolding agent_config_ok_def
    using v https validateRetry_ok [of "ac_Retry cfg"] validateMachineRule_ok
    by (auto simp: validateAgent_def firstErr_None list_all_iff validateWindow_ok split: option.splits)
qed

lemma LoadAgentConfig_ok_witness:
  "\<exists>cfg. LoadAgentConfig (\<lambda>_. Inr \<lparr>ac_CertFile = ''c'', ac_KeyFile = ''k'', ac_CAFile = ''a'',
     ac_Servers = [\<lparr>se_Address = ''s:1'', se_TLSServerName = ''''\<rparr>], ac_MachineRules = [],
     ac_Retry = \<lparr>rc_InitialInterval = 0, rc_MaxInterval = 0, rc_Multiplier = Num 0, rc_Jitter = Num 0, rc_MaxElapsedTime = 0\<rparr>,
     ac_OnTaskFailed = '''', ac_OnQuotaWarning = '''', ac_BandwidthLimit = 0,
     ac_ScheduleWindow = Some (''22:00'', ''06:00''), ac_QuotaWarningPercent = 80, ac_HTTPSAPI = None\<rparr>) (Inr '''') = Inr cfg \<and>
   agent_config_ok cfg"
  (is "\<exists>cfg. ?load = Inr cfg \<and> _")
proof -
  have "parse_clock ''22:00'' = Inr 1320" "parse_clock ''06:00'' = Inr 360"
    "\<not> blank ''s:1''" "\<not> blank ''c''" "\<not> blank ''k''" "\<not> blank ''a''" by code_simp+
  then have "is_ok ?load"
    by (simp add: LoadAgentConfig_def agentDefaults_def retryDefaults_def validateAgent_def validateRetry_def
        validateWindow_def Let_def is_ok_def second_ns_def minute_ns_def hour_ns_def firstErr.simps
        split: sum.splits option.splits)
  then obtain cfg where c: "?load = Inr cfg" by (cases ?load) (auto simp: is_ok_def)
  then show ?thesis using LoadAgentConfig_ok [OF c] by blast
qed

section \<open>\<open>WithinWindow\<close>\<close>

definition WithinWindow :: "nat \<Rightarrow> nat \<Rightarrow> string \<Rightarrow> string \<Rightarrow> bool result" where
  "WithinWindow hour minu start endd =
     (case parse_clock start of Inl e \<Rightarrow> Inl (Wrap ''parse window start: %w'' e)
      | Inr startMinute \<Rightarrow>
        (case parse_clock endd of Inl e \<Rightarrow> Inl (Wrap ''parse window end: %w'' e)
         | Inr endMinute \<Rightarrow>
            (if startMinute = endMinute then Inl (Errorf ''window start and end must differ'')
             else let minute = hour * 60 + minu in
               if startMinute < endMinute then Inr (minute \<ge> startMinute \<and> minute < endMinute)
               else Inr (minute \<ge> startMinute \<or> minute < endMinute))))"

text \<open>The minutes of the day covered by walking from \<open>s\<close> to \<open>e\<close> around the clock.\<close>

definition window_minutes :: "nat \<Rightarrow> nat \<Rightarrow> nat set" where
  "window_minutes s e = (\<lambda>k. (s + k) mod 1440) ` {k. k < (e + 1440 - s) mod 1440}"

lemma window_minutes_iff:
  assumes "s < 1440" "e < 1440" "s \<noteq> e"
  shows "m \<in> window_minutes s e \<longleftrightarrow> m < 1440 \<and> (if s < e then s \<le> m \<and> m < e else s \<le> m \<or> m < e)"
proof (cases "s < e")
  case True
  then have "(e + 1440 - s) mod 1440 = e - s" using assms by (simp add: mod_if)
  then show ?thesis
    using True assms
    by (auto simp: window_minutes_def image_iff intro!: exI [of _ "m - s"])
next
  case False
  then have len: "(e + 1440 - s) mod 1440 = e + 1440 - s" using assms by simp
  show ?thesis
  proof
    assume "m \<in> window_minutes s e"
    then obtain k where "k < e + 1440 - s" "m = (s + k) mod 1440"
      by (auto simp: window_minutes_def len)
    then show "m < 1440 \<and> (if s < e then s \<le> m \<and> m < e else s \<le> m \<or> m < e)"
      using False assms by (cases "s + k < 1440") (auto simp: mod_if)
  next
    assume m: "m < 1440 \<and> (if s < e then s \<le> m \<and> m < e else s \<le> m \<or> m < e)"
    show "m \<in> window_minutes s e"
    proof (cases "s \<le> m")
      case True
      then show ?thesis using m False assms
        by (auto simp: window_minutes_def len image_iff intro!: exI [of _ "m - s"])
    next
      case notle: False
      then have "m = (s + (m + 1440 - s)) mod 1440" using m assms by simp
      then show ?thesis using m notle False assms
        by (auto simp: window_minutes_def len image_iff intro!: exI [of _ "m + 1440 - s"])
    qed
  qed
qed

text \<open>
  The schedule window test agrees with the set of minutes that lie in the window, counted round
  the clock from start to end, windows over midnight included; equal ends are an error.
\<close>

lemma WithinWindow_correct:
  assumes "parse_clock start = Inr s" "parse_clock endd = Inr e" "hour < 24" "minu < 60"
  shows "WithinWindow hour minu start endd =
    (if s = e then Inl (Errorf ''window start and end must differ'')
     else Inr (hour * 60 + minu \<in> window_minutes s e))"
  using assms parse_clock_bound [OF assms(1)] parse_clock_bound [OF assms(2)]
  by (auto simp: WithinWindow_def Let_def window_minutes_iff)

lemma WithinWindow_correct_witness:
  "WithinWindow 23 15 ''22:00'' ''06:00'' = Inr True"
proof -
  have p: "parse_clock ''22:00'' = Inr 1320" "parse_clock ''06:00'' = Inr 360" by code_simp+
  have "1395 \<in> window_minutes 1320 360" by (simp add: window_minutes_iff)
  then show ?thesis
    using WithinWindow_correct [OF p, of 23 15] by simp
qed

section \<open>The quota warning threshold\<close>

definition wrap64 :: "int \<Rightarrow> int" where
  "wrap64 i = (i + 2 ^ 63) mod 2 ^ 64 - 2 ^ 63"

lemma wrap64_id: "- (2 ^ 63) \<le> i \<Longrightarrow> i < 2 ^ 63 \<Longrightarrow> wrap64 i = i"
  by (simp add: wrap64_def)

definition quotaWarningReached :: "int \<Rightarrow> int \<Rightarrow> int \<Rightarrow> bool" where
  "quotaWarningReached used quota percent =
     (if used < 0 \<or> quota \<le> 0 \<or> percent \<le> 0 then False
      else let whole = quota sdiv 100; remainder = quota smod 100;
               threshold = wrap64 (wrap64 (whole * percent) +
                                   wrap64 (wrap64 (remainder * percent) + 99) sdiv 100)
           in used \<ge> threshold)"

lemma ceil_split:
  fixes q p :: int
  assumes "0 < q" "0 < p"
  shows "(q div 100) * p + ((q mod 100) * p + 99) div 100 = (q * p + 99) div 100"
proof -
  have "q * p + 99 = 100 * ((q div 100) * p) + ((q mod 100) * p + 99)"
    by (metis (no_types, lifting) add.assoc distrib_right mult.assoc mult_div_mod_eq)
  then show ?thesis by simp
qed

lemma wrap64_threshold:
  fixes a b :: int
  assumes "0 \<le> a" "a < 2 ^ 63" "0 \<le> b" "b \<le> 9900" "a + (b + 99) div 100 < 2 ^ 63"
  shows "wrap64 (wrap64 a + wrap64 (wrap64 b + 99) sdiv 100) = a + (b + 99) div 100"
proof -
  have b1: "wrap64 b = b" using assms by (intro wrap64_id) auto
  have b2: "wrap64 (b + 99) = b + 99" using assms by (intro wrap64_id) auto
  have a1: "wrap64 a = a" using assms by (intro wrap64_id) auto
  have sd: "(b + 99) sdiv 100 = (b + 99) div 100"
    using assms by (simp add: signed_divide_int_def)
  have nn: "0 \<le> (b + 99) div 100" using assms by simp
  show ?thesis unfolding a1 b1 b2 sd using assms nn by (intro wrap64_id) linarith+
qed

text \<open>
  The quota warning avoids multiplying in 64 bits: for every quota of that width and a percentage
  from 1 to 100 it holds exactly when used * 100 reaches quota * percent.
\<close>

lemma quotaWarningReached_exact:
  assumes "0 \<le> used" "0 < quota" "quota < 2 ^ 63" "0 < percent" "percent \<le> 100"
  shows "quotaWarningReached used quota percent \<longleftrightarrow> quota * percent \<le> used * 100"
proof -
  have d: "quota sdiv 100 = quota div 100" "quota smod 100 = quota mod 100"
    using assms by (simp_all add: signed_divide_int_def signed_modulo_int_def)
  have w: "0 \<le> (quota div 100) * percent" using assms by simp
  have "(quota div 100) * percent \<le> (quota div 100) * 100" using assms by (intro mult_left_mono) auto
  also have "\<dots> \<le> quota" by (simp add: algebra_simps)
  finally have w2: "(quota div 100) * percent \<le> quota" .
  have r: "0 \<le> (quota mod 100) * percent" using assms by simp
  have "(quota mod 100) * percent \<le> 99 * 100" using assms by (intro mult_mono) auto
  then have r2: "(quota mod 100) * percent \<le> 9900" by simp
  have c: "(quota div 100) * percent + ((quota mod 100) * percent + 99) div 100 \<le> quota"
  proof -
    have "quota * percent \<le> quota * 100" using assms by (intro mult_left_mono) auto
    then have "(quota * percent + 99) div 100 \<le> quota" by linarith
    then show ?thesis using ceil_split assms by simp
  qed
  have "wrap64 (wrap64 ((quota div 100) * percent) +
          wrap64 (wrap64 ((quota mod 100) * percent) + 99) sdiv 100) =
        (quota * percent + 99) div 100"
    using wrap64_threshold [OF w _ r r2] w2 c assms ceil_split [of quota percent] by simp
  then have "quotaWarningReached used quota percent \<longleftrightarrow> (quota * percent + 99) div 100 \<le> used"
    using assms by (simp add: quotaWarningReached_def d Let_def)
  also have "\<dots> \<longleftrightarrow> quota * percent \<le> used * 100" by linarith
  finally show ?thesis .
qed

lemma quotaWarningReached_exact_witness:
  "quotaWarningReached 7500000000000000000 9000000000000000000 80"
  using quotaWarningReached_exact [of 7500000000000000000 9000000000000000000 80] by simp

end
