(* ===== verification/Vault_Retry.thy ===== *)
theory Vault_Retry
  imports Vault_AgentConfig
begin

text \<open>
  \<open>pkg/retry\<close> and \<open>pkg/progress\<close>: the back-off with its time budget, the classification of
  errors, the retry loop around one sync attempt, and the progress tracker of a task. The
  floating-point interval (initial times multiplier to the attempt, capped, with jitter) is
  the argument \<open>dur\<close>: nothing that is proved depends on its value. The status code of an error
  is computed by the gRPC library and is the argument \<open>code_of\<close>.
\<close>

section \<open>Back-off\<close>

record backoff =
  bo_attempt :: nat
  bo_elapsed :: int

definition backoff_new :: backoff where
  "backoff_new = \<lparr>bo_attempt = 0, bo_elapsed = 0\<rparr>"

definition Next :: "int \<Rightarrow> (nat \<Rightarrow> int) \<Rightarrow> backoff \<Rightarrow> int \<times> backoff" where
  "Next maxElapsed dur b =
     (if maxElapsed > 0 \<and> bo_elapsed b \<ge> maxElapsed then (0, b)
      else let d = dur (bo_attempt b);
               b' = b\<lparr>bo_attempt := bo_attempt b + 1\<rparr>;
               tot = wrap64 (bo_elapsed b + d)
           in if maxElapsed > 0 \<and> tot > maxElapsed then (0, b')
              else (d, b'\<lparr>bo_elapsed := tot\<rparr>))"

definition Reset :: "backoff \<Rightarrow> backoff" where
  "Reset b = b\<lparr>bo_attempt := 0, bo_elapsed := 0\<rparr>"

section \<open>Classification\<close>

fun has_permanent :: "error \<Rightarrow> bool" where
  "has_permanent (Permanent _) = True"
| "has_permanent (Wrap _ e) = has_permanent e"
| "has_permanent _ = False"

fun net_error :: "error \<Rightarrow> (bool \<times> bool) option" where
  "net_error (NetErr t tmp) = Some (t, tmp)"
| "net_error (Wrap _ e) = net_error e"
| "net_error (Permanent e) = net_error e"
| "net_error _ = None"

definition IsRetryable :: "(error \<Rightarrow> code) \<Rightarrow> error option \<Rightarrow> bool" where
  "IsRetryable code_of err =
     (case err of None \<Rightarrow> False
      | Some e \<Rightarrow>
          if has_permanent e then False
          else if code_of e \<in> {Unavailable, DeadlineExceeded, ResourceExhausted, Aborted, Internal}
            then True
          else if code_of e \<noteq> OK \<and> code_of e \<noteq> Unknown then False
          else (case net_error e of Some (timeout, temporary) \<Rightarrow> timeout \<or> temporary | None \<Rightarrow> False))"

definition permanent_error :: "error option \<Rightarrow> error option" where
  "permanent_error err = map_option Permanent err"

lemma permanent_not_retryable: "\<not> IsRetryable code_of (permanent_error e)"
  by (cases e) (auto simp: IsRetryable_def permanent_error_def)

lemma wrapped_permanent_not_retryable: "\<not> IsRetryable code_of (Some (Wrap s (Permanent e)))"
  by (simp add: IsRetryable_def)

section \<open>The retry loop\<close>

text \<open>
  \<open>syncToServerWithRetry\<close>, with the attempt as a state transformer. The result is \<open>None\<close> when
  the fuel runs out, and otherwise the final state, the error reported (if any) and the delays
  slept.
\<close>

fun retry_loop ::
  "nat \<Rightarrow> (error \<Rightarrow> code) \<Rightarrow> int \<Rightarrow> (nat \<Rightarrow> int) \<Rightarrow> ('s \<Rightarrow> 's \<times> error option) \<Rightarrow> backoff \<Rightarrow> 's \<Rightarrow>
   ('s \<times> error option \<times> int list) option" where
  "retry_loop 0 code_of maxElapsed dur try b s = None"
| "retry_loop (Suc fuel) code_of maxElapsed dur try b s =
     (let (s', err) = try s in
      case err of
        None \<Rightarrow> Some (s', None, [])
      | Some e \<Rightarrow>
          if \<not> IsRetryable code_of (Some e) then Some (s', Some e, [])
          else let (delay, b') = Next maxElapsed dur b in
            if delay \<le> 0 then Some (s', Some (Wrap ''sync retries exhausted: %w'' e), [])
            else map_option (\<lambda>(s'', r, ds). (s'', r, delay # ds))
                   (retry_loop fuel code_of maxElapsed dur try b' s'))"

text \<open>
  A delay that is slept is accounted in \<open>elapsed\<close>, which stays within the budget; the bound on
  \<open>dur\<close> excludes an overflow of the sum.
\<close>

lemma Next_budget:
  assumes "Next m dur b = (d, b')" "0 < d" "0 < m" "0 \<le> bo_elapsed b"
    and "\<forall>n. dur n < 2 ^ 63 - m"
  shows "bo_elapsed b' = bo_elapsed b + d \<and> bo_elapsed b' \<le> m"
proof -
  from assms(1,2) have d: "d = dur (bo_attempt b)" "bo_elapsed b < m"
      "bo_elapsed b' = wrap64 (bo_elapsed b + d)" "wrap64 (bo_elapsed b + d) \<le> m"
    using assms(3) by (auto simp: Next_def Let_def split: if_splits)
  have "wrap64 (bo_elapsed b + d) = bo_elapsed b + d"
  proof (rule wrap64_id)
    have "dur (bo_attempt b) < 2 ^ 63 - m" using assms(5) by blast
    then show "bo_elapsed b + d < 2 ^ 63" using d by linarith
    show "- (2 ^ 63) \<le> bo_elapsed b + d" using assms(2,4) by simp
  qed
  then show ?thesis using d by simp
qed

text \<open>
  The time a sync sleeps between retries is within the configured maximum, and every sleep is
  positive, for durations that do not overflow 64 bits.
\<close>

lemma retry_loop_delays:
  assumes "retry_loop fuel code_of m dur try b s = Some (s', r, ds)" "0 < m" "0 \<le> bo_elapsed b"
    and "\<forall>n. dur n < 2 ^ 63 - m" "bo_elapsed b \<le> m"
  shows "sum_list ds \<le> m - bo_elapsed b \<and> (\<forall>d \<in> set ds. 0 < d)"
  using assms
proof (induction fuel arbitrary: b s s' r ds)
  case 0
  then show ?case by simp
next
  case (Suc fuel)
  obtain s1 err where t: "try s = (s1, err)" by force
  show ?case
  proof (cases "ds = []")
    case True
    then show ?thesis using Suc.prems by simp
  next
    case False
    with Suc.prems(1) t obtain e d b' ds' where e: "err = Some e" "IsRetryable code_of (Some e)"
        "Next m dur b = (d, b')" "0 < d" "ds = d # ds'"
        "retry_loop fuel code_of m dur try b' s1 = Some (s', r, ds')"
      by (cases "Next m dur b") (auto simp: Let_def split: option.splits if_splits)
    from Next_budget [OF e(3,4) Suc.prems(2,3,4)]
    have nb: "bo_elapsed b' = bo_elapsed b + d" "bo_elapsed b' \<le> m" by auto
    from Suc.IH [OF e(6) Suc.prems(2) _ Suc.prems(4) nb(2)] nb e(4) Suc.prems(3)
    show ?thesis by (auto simp: e(5))
  qed
qed

lemma retry_loop_delays_witness:
  "\<exists>s' r ds. retry_loop 20 (\<lambda>_. Unavailable) 10 (\<lambda>n. 3) (\<lambda>s. (s, Some (Errorf ''down'')))
     \<lparr>bo_attempt = 0, bo_elapsed = 0\<rparr> () = Some (s', r, ds) \<and> ds = [3, 3, 3] \<and> sum_list ds \<le> 10"
proof -
  have "retry_loop 20 (\<lambda>_. Unavailable) 10 (\<lambda>n. 3) (\<lambda>s. (s, Some (Errorf ''down'')))
      \<lparr>bo_attempt = 0, bo_elapsed = 0\<rparr> () = Some ((), Some (Wrap ''sync retries exhausted: %w'' (Errorf ''down'')), [3, 3, 3])"
    by code_simp
  with retry_loop_delays [OF this] show ?thesis by simp
qed

text \<open>
  C29: The retry loop of a sync returns: each sleep uses up retry budget, so with as much fuel as there
  are nanoseconds of budget left the loop ends, whatever the attempts do.
\<close>

lemma retry_loop_returns:
  assumes "0 < m" "0 \<le> bo_elapsed b" "bo_elapsed b \<le> m" "\<forall>n. dur n < 2 ^ 63 - m"
    and "nat (m - bo_elapsed b) < fuel"
  shows "\<exists>s' r ds. retry_loop fuel code_of m dur try b s = Some (s', r, ds)"
  using assms
proof (induction fuel arbitrary: b s)
  case 0
  then show ?case by simp
next
  case (Suc fuel)
  obtain s1 err where t: "try s = (s1, err)" by force
  show ?case
  proof (cases "\<exists>e. err = Some e \<and> IsRetryable code_of (Some e) \<and> 0 < fst (Next m dur b)")
    case False
    then show ?thesis using t by (auto simp: Let_def case_prod_beta split: option.splits)
  next
    case True
    then obtain e d b' where e: "err = Some e" "IsRetryable code_of (Some e)"
        "Next m dur b = (d, b')" "0 < d"
      by (cases "Next m dur b") auto
    from Next_budget [OF e(3,4) Suc.prems(1,2,4)]
    have nb: "bo_elapsed b' = bo_elapsed b + d" "bo_elapsed b' \<le> m" by auto
    have "nat (m - bo_elapsed b') < fuel" using nb e(4) Suc.prems(2,5) by linarith
    from Suc.IH [OF Suc.prems(1) _ nb(2) Suc.prems(4) this] nb e(4) Suc.prems(2)
    obtain s' r ds where "retry_loop fuel code_of m dur try b' s1 = Some (s', r, ds)"
      by fastforce
    then show ?thesis using t e by (simp add: Let_def)
  qed
qed

lemma retry_loop_returns_witness:
  "\<exists>s' r ds. retry_loop 20 (\<lambda>_. Unavailable) 10 (\<lambda>n. 3) (\<lambda>s. (s, Some (Errorf ''down'')))
     \<lparr>bo_attempt = 0, bo_elapsed = 0\<rparr> () = Some (s', r, ds)"
  by (rule retry_loop_returns) simp_all

section \<open>Progress tracker\<close>

datatype phase = SCANNING | TRANSFERRING | COMPLETED | FAILED

fun phase_name :: "phase \<Rightarrow> string" where
  "phase_name SCANNING = ''SCANNING''"
| "phase_name TRANSFERRING = ''TRANSFERRING''"
| "phase_name COMPLETED = ''COMPLETED''"
| "phase_name FAILED = ''FAILED''"

record stats =
  st_TotalFiles :: int
  st_ScannedFiles :: int
  st_ChangedFiles :: int
  st_TransferredFiles :: int
  st_TransferredBytes :: int
  st_CurrentRateBPS :: int

record tracker =
  tk_Phase :: phase
  tk_Stats :: stats
  tk_CurrentFiles :: "string list"
  tk_lastBytes :: int
  tk_lastTime :: int

definition zero_stats :: stats where
  "zero_stats = \<lparr>st_TotalFiles = 0, st_ScannedFiles = 0, st_ChangedFiles = 0,
     st_TransferredFiles = 0, st_TransferredBytes = 0, st_CurrentRateBPS = 0\<rparr>"

definition NewTracker :: "int \<Rightarrow> tracker" where
  "NewTracker now = \<lparr>tk_Phase = SCANNING, tk_Stats = zero_stats, tk_CurrentFiles = [],
     tk_lastBytes = 0, tk_lastTime = now\<rparr>"

definition SetPhase :: "phase \<Rightarrow> tracker \<Rightarrow> tracker" where
  "SetPhase p t = t\<lparr>tk_Phase := p\<rparr>"

definition SetCurrentFiles :: "string list \<Rightarrow> tracker \<Rightarrow> tracker" where
  "SetCurrentFiles files t = t\<lparr>tk_CurrentFiles := files\<rparr>"

definition AddScanned :: "int \<Rightarrow> tracker \<Rightarrow> tracker" where
  "AddScanned n t = t\<lparr>tk_Stats := (tk_Stats t)\<lparr>st_ScannedFiles := st_ScannedFiles (tk_Stats t) + n\<rparr>\<rparr>"

text \<open>\<open>rate delta elapsed\<close> is the floating-point quotient, truncated.\<close>

definition AddTransferred :: "(int \<Rightarrow> int \<Rightarrow> int) \<Rightarrow> int \<Rightarrow> int \<Rightarrow> int \<Rightarrow> tracker \<Rightarrow> tracker" where
  "AddTransferred rate now files bytes t =
     (let s = (tk_Stats t)\<lparr>st_TransferredFiles := st_TransferredFiles (tk_Stats t) + files,
                           st_TransferredBytes := st_TransferredBytes (tk_Stats t) + bytes\<rparr>;
          elapsed = now - tk_lastTime t
      in if elapsed \<ge> second_ns
         then t\<lparr>tk_Stats := s\<lparr>st_CurrentRateBPS := rate (st_TransferredBytes s - tk_lastBytes t) elapsed\<rparr>,
                tk_lastBytes := st_TransferredBytes s, tk_lastTime := now\<rparr>
         else t\<lparr>tk_Stats := s\<rparr>)"

definition SetTotals :: "int \<Rightarrow> int \<Rightarrow> tracker \<Rightarrow> tracker" where
  "SetTotals tot changed t =
     t\<lparr>tk_Stats := (tk_Stats t)\<lparr>st_TotalFiles := tot, st_ChangedFiles := changed\<rparr>\<rparr>"

definition Snapshot :: "tracker \<Rightarrow> phase \<times> stats \<times> string list" where
  "Snapshot t = (tk_Phase t, tk_Stats t, tk_CurrentFiles t)"

lemma tracker_phase [simp]:
  "tk_Phase (SetPhase p t) = p"
  "tk_Phase (AddScanned n t) = tk_Phase t"
  "tk_Phase (SetTotals a b t) = tk_Phase t"
  "tk_Phase (SetCurrentFiles fs t) = tk_Phase t"
  "tk_Phase (AddTransferred rate now files bytes t) = tk_Phase t"
  by (simp_all add: SetPhase_def AddScanned_def SetTotals_def SetCurrentFiles_def AddTransferred_def Let_def)

end
