(* ===== verification/Vault_Transport.thy ===== *)
theory Vault_Transport
  imports Vault_Backup Vault_Packager Vault_Retry
begin

text \<open>
  \<open>internal/agent/transport/pusher.go\<close>: the client side of \<open>PushBackup\<close>. The gRPC client is a
  record of steps on an opaque world; the local files, the signer, the clock and protobuf
  marshalling are arguments too. The lemmas say what is sent: the bytes a signature covers are
  the bytes the server checks, the source path is the inverse of the archive path, a large file
  travels as a well-cut sequence of chunks, and the bandwidth limit holds.
\<close>

section \<open>The remote side and the local side\<close>

text \<open>\<open>io.EOF\<close>, which a stream returns at its regular end.\<close>

definition io_EOF :: error where
  "io_EOF = Errorf ''EOF''"

record push_ack =
  pa_Status :: string
  pa_Error :: string
  pa_WrittenBytes :: int

record 'w backup_client =
  cl_GetChallenge :: "('w, bytes) step"
  cl_PushBackup :: "('w, unit) step"
  cl_Send :: "backup_batch \<Rightarrow> ('w, unit) step"
  cl_Recv :: "('w, push_ack) step"
  cl_CloseSend :: "('w, unit) step"

record PushConfig =
  pf_Username :: string
  pf_RuleType :: string
  pf_Tracker :: bool
  pf_RootPath :: string
  pf_PathPrefix :: string
  pf_SignFunc :: "(bytes \<Rightarrow> bytes result) option"
  pf_SignerPubKey :: "bytes option"
  pf_BandwidthLimit :: int

text \<open>
  \<open>pe_ReadFile\<close> is \<open>os.ReadFile\<close>, \<open>pe_Open\<close> is \<open>os.Open\<close> and \<open>pe_ReadRest path offset\<close> what an open
  file has from \<open>offset\<close> on when it is read there. \<open>pe_now\<close> gives the clock readings in turn,
  \<open>pe_rate\<close> is the tracker's rate.
\<close>

record push_env =
  pe_ReadFile :: "string \<Rightarrow> bytes result"
  pe_Open :: "string \<Rightarrow> error option"
  pe_ReadRest :: "string \<Rightarrow> int \<Rightarrow> bytes result"
  pe_sha :: "bytes \<Rightarrow> bytes"
  pe_Marshal :: "backup_batch \<Rightarrow> bytes result"
  pe_SignWithSSHAgent :: "bytes \<Rightarrow> bytes result"
  pe_now :: "nat \<Rightarrow> int"
  pe_rate :: "int \<Rightarrow> int \<Rightarrow> int"

record 'w push_client =
  pc_world :: 'w
  pc_tracker :: tracker
  pc_next :: int
  pc_slept :: "int list"
  pc_tick :: nat

type_synonym ('w, 'a) client = "('w push_client, 'a) step"

definition remote :: "('w, 'a) step \<Rightarrow> ('w, 'a) client" where
  "remote m c = (case m (pc_world c) of (w, r) \<Rightarrow> (c\<lparr>pc_world := w\<rparr>, r))"

definition track :: "PushConfig \<Rightarrow> (tracker \<Rightarrow> tracker) \<Rightarrow> ('w, unit) client" where
  "track cfg f c = (if pf_Tracker cfg then c\<lparr>pc_tracker := f (pc_tracker c)\<rparr> else c, Inr ())"

text \<open>A clock reading.\<close>

definition tick :: "push_env \<Rightarrow> ('w, int) client" where
  "tick env c = (c\<lparr>pc_tick := Suc (pc_tick c)\<rparr>, Inr (pe_now env (pc_tick c)))"

section \<open>Bandwidth\<close>

text \<open>
  \<open>wait\<close> for a limiter of \<open>rate\<close> bytes a second, on the earliest time of the next transfer, at
  clock reading \<open>now\<close>: the new earliest time and what it sleeps. A rate that is not positive is
  the nil limiter. The product and the sum are \<open>int64\<close>.
\<close>

definition limiter_wait :: "int \<Rightarrow> int \<Rightarrow> int \<Rightarrow> int \<Rightarrow> int \<times> int" where
  "limiter_wait rate now bytes next =
     (if rate \<le> 0 \<or> bytes \<le> 0 then (next, 0)
      else let start = max next now;
               duration = wrap64 (wrap64 (bytes * second_ns) + rate - 1) sdiv rate;
               next' = start + duration
           in (next', if next' - now > 0 then next' - now else 0))"

text \<open>A new limiter starts with the zero \<open>time.Time\<close>, in nanoseconds of Unix time.\<close>

definition zero_time :: int where
  "zero_time = - (62135596800 * second_ns)"

definition wait_limit :: "push_env \<Rightarrow> PushConfig \<Rightarrow> int \<Rightarrow> ('w, unit) client" where
  "wait_limit env cfg bytes =
     bindS (tick env) (\<lambda>now.
       updateS (\<lambda>c. case limiter_wait (pf_BandwidthLimit cfg) now bytes (pc_next c) of
         (next', delay) \<Rightarrow> c\<lparr>pc_next := next', pc_slept := pc_slept c @ [delay]\<rparr>))"

section \<open>Signing\<close>

definition signBatch ::
  "push_env \<Rightarrow> PushConfig \<Rightarrow> bytes \<Rightarrow> backup_batch \<Rightarrow> backup_batch result" where
  "signBatch env cfg nonce pb =
     (case pe_Marshal env pb of
        Inl e \<Rightarrow> Inl (Wrap ''marshal batch for hash'' e)
      | Inr data \<Rightarrow>
          (let payload = nonce @ ''PushBackup'' @ pe_sha env data;
               sign = (case pf_SignFunc cfg of None \<Rightarrow> pe_SignWithSSHAgent env | Some f \<Rightarrow> f)
           in case sign payload of
                Inl e \<Rightarrow> Inl (Wrap ''ssh-agent sign'' e)
              | Inr sig \<Rightarrow>
                  Inr (case pf_SignerPubKey cfg of
                         None \<Rightarrow> pb\<lparr>bb_Signature := sig, bb_Nonce := nonce\<rparr>
                       | Some k \<Rightarrow> pb\<lparr>bb_Signature := sig, bb_Nonce := nonce, bb_SignerPubkey := k\<rparr>)))"

definition signIfUser :: "push_env \<Rightarrow> PushConfig \<Rightarrow> bytes \<Rightarrow> backup_batch \<Rightarrow> backup_batch result" where
  "signIfUser env cfg nonce pb =
     (if pf_RuleType cfg = ''user'' then mapErr (Wrap ''sign'') (signBatch env cfg nonce pb) else Inr pb)"

section \<open>Source paths\<close>

definition sourcePath :: "string \<Rightarrow> string \<Rightarrow> string result" where
  "sourcePath prefx archivePath =
     (let cleanPath = Clean archivePath in
      if prefx = '''' then Inr cleanPath
      else let cleanPrefix = Clean prefx in
        if cleanPath = cleanPrefix \<or> \<not> prefix (cleanPrefix @ ''/'') cleanPath
        then Inl (Errorf ''archive path %q is outside root prefix %q'')
        else Inr (trim_prefix (cleanPrefix @ ''/'') cleanPath))"

definition localPath :: "PushConfig \<Rightarrow> file_diff \<Rightarrow> string result" where
  "localPath cfg diff =
     bindE (sourcePath (pf_PathPrefix cfg) (fi_Path (fd_File diff))) (\<lambda>p. Inr (Join [pf_RootPath cfg, p]))"

section \<open>Sending\<close>

definition new_batch :: "PushConfig \<Rightarrow> string \<Rightarrow> file_entry list \<Rightarrow> backup_batch" where
  "new_batch cfg batchID files = \<lparr>bb_BatchId = batchID, bb_Username = pf_Username cfg,
     bb_RuleType = pf_RuleType cfg, bb_Files = files, bb_Nonce = [], bb_Signature = [], bb_SignerPubkey = []\<rparr>"

text \<open>
  The tail both senders share: wait for the limiter, send, read the acknowledgement, count
  \<open>files\<close> files.
\<close>

definition exchange ::
  "push_env \<Rightarrow> 'w backup_client \<Rightarrow> PushConfig \<Rightarrow> int \<Rightarrow> backup_batch \<Rightarrow> ('w, unit) client" where
  "exchange env cl cfg files pb =
     bindS (wait_limit env cfg (int (sum_list (map (\<lambda>f. length (fe_Content f)) (bb_Files pb))))) (\<lambda>_.
     bindS (mapErrS (Wrap ''send'') (remote (cl_Send cl pb))) (\<lambda>_.
     bindS (mapErrS (Wrap ''recv ack'') (remote (cl_Recv cl))) (\<lambda>ack.
     if pa_Status ack \<noteq> ''OK'' then failS (Errorf ''server rejected: %s'')
     else bindS (tick env) (\<lambda>now.
       track cfg (AddTransferred (pe_rate env) now files (pa_WrittenBytes ack))))))"

definition chunkContentBytes :: int where
  "chunkContentBytes = 4 * 1024 * 1024"

definition chunk_batch ::
  "PushConfig \<Rightarrow> string \<Rightarrow> file_info \<Rightarrow> int \<Rightarrow> bytes \<Rightarrow> backup_batch" where
  "chunk_batch cfg batchID f offset piece =
     new_batch cfg (batchID @ ''-chunk-'' @ format_int (offset div chunkContentBytes + 1))
       [\<lparr>fe_Path = fi_Path f, fe_Content = piece, fe_Mode = fi_Mode f, fe_Deleted = False, fe_Chunked = True,
         fe_ChunkOffset = of_int offset, fe_FinalChunk = (offset + int (length piece) = fi_Size f)\<rparr>]"

text \<open>
  The reading loop: \<open>io.ReadFull\<close> of at most \<open>chunkContentBytes\<close>. A read that comes short of
  what the scan recorded is an error, so the offset grows by what was wanted.
\<close>

function chunk_loop ::
  "push_env \<Rightarrow> 'w backup_client \<Rightarrow> PushConfig \<Rightarrow> string \<Rightarrow> string \<Rightarrow> file_info \<Rightarrow> bytes \<Rightarrow> int \<Rightarrow>
   'w push_client \<Rightarrow> 'w push_client \<times> unit result" where
  "chunk_loop env cl cfg path batchID f nonce offset c =
     (if offset \<ge> fi_Size f then (c, Inr ())
      else case pe_ReadRest env path offset of
        Inl e \<Rightarrow> (c, Inl (Wrap ''read %q'' e))
      | Inr rest \<Rightarrow>
          (let want = min chunkContentBytes (fi_Size f - offset); piece = take (nat want) rest;
               n = int (length piece)
           in if n = 0 then (c, Inl (Errorf ''read %q: file changed while preparing chunks''))
              else if n < want \<and> offset + n \<noteq> fi_Size f
              then (c, Inl (Errorf ''read %q: file changed while preparing chunks''))
              else case signIfUser env cfg nonce (chunk_batch cfg batchID f offset piece) of
                Inl e \<Rightarrow> (c, Inl e)
              | Inr pb \<Rightarrow>
                  (case exchange env cl cfg (if offset + n = fi_Size f then 1 else 0) pb c of
                     (c', Inl e) \<Rightarrow> (c', Inl e)
                   | (c', Inr _) \<Rightarrow> chunk_loop env cl cfg path batchID f nonce (offset + n) c')))"
  by pat_completeness auto
termination
  by (relation "measure (\<lambda>(env, cl, cfg, path, batchID, f, nonce, offset, c). nat (fi_Size f - offset))")
     (auto simp: Let_def)

declare chunk_loop.simps [simp del]

definition sendChunkedFile ::
  "push_env \<Rightarrow> 'w backup_client \<Rightarrow> PushConfig \<Rightarrow> string \<Rightarrow> file_diff \<Rightarrow> bytes \<Rightarrow> ('w, unit) client" where
  "sendChunkedFile env cl cfg batchID diff nonce c =
     (case localPath cfg diff of
        Inl e \<Rightarrow> (c, Inl e)
      | Inr path \<Rightarrow>
          (case pe_Open env path of
             Some e \<Rightarrow> (c, Inl (Wrap ''open %q'' e))
           | None \<Rightarrow> chunk_loop env cl cfg path batchID (fd_File diff) nonce 0 c))"

definition batch_entry :: "push_env \<Rightarrow> PushConfig \<Rightarrow> file_diff \<Rightarrow> file_entry result" where
  "batch_entry env cfg diff =
     (let entry = \<lparr>fe_Path = fi_Path (fd_File diff), fe_Content = [], fe_Mode = fi_Mode (fd_File diff),
                   fe_Deleted = (fd_Action diff = DiffDelete), fe_Chunked = False, fe_ChunkOffset = 0,
                   fe_FinalChunk = False\<rparr>
      in if fd_Action diff = DiffDelete then Inr entry
         else case localPath cfg diff of
           Inl e \<Rightarrow> Inl e
         | Inr absPath \<Rightarrow> (case pe_ReadFile env absPath of
             Inl e \<Rightarrow> Inl (Wrap ''read %q'' e)
           | Inr data \<Rightarrow> Inr (entry\<lparr>fe_Content := data\<rparr>)))"

fun batch_entries :: "push_env \<Rightarrow> PushConfig \<Rightarrow> file_diff list \<Rightarrow> file_entry list result" where
  "batch_entries env cfg [] = Inr []"
| "batch_entries env cfg (d # ds) =
     bindE (batch_entry env cfg d) (\<lambda>e. bindE (batch_entries env cfg ds) (\<lambda>es. Inr (e # es)))"

definition sendBatch ::
  "push_env \<Rightarrow> 'w backup_client \<Rightarrow> PushConfig \<Rightarrow> batch \<Rightarrow> bytes \<Rightarrow> ('w, unit) client" where
  "sendBatch env cl cfg b nonce c =
     (case bindE (batch_entries env cfg (ba_Files b)) (\<lambda>es.
             signIfUser env cfg nonce (new_batch cfg (ba_ID b) es)) of
        Inl e \<Rightarrow> (c, Inl e)
      | Inr pb \<Rightarrow> exchange env cl cfg (int (length (bb_Files pb))) pb c)"

definition isLargeFileBatch :: "batch \<Rightarrow> bool" where
  "isLargeFileBatch b =
     (case ba_Files b of [d] \<Rightarrow> fd_Action d \<noteq> DiffDelete \<and> fi_Size (fd_File d) > MaxBatchContentBytes
      | _ \<Rightarrow> False)"

definition batchFilePaths :: "batch \<Rightarrow> string list" where
  "batchFilePaths b = map (\<lambda>d. fi_Path (fd_File d)) (ba_Files b)"

definition validatePushConfig :: "PushConfig \<Rightarrow> error option" where
  "validatePushConfig cfg =
     (if pf_RuleType cfg = ''user'' then
        failIf (pf_Username cfg = ''_machine'') (Errorf ''_machine backups must use rule type machine'')
      else if pf_RuleType cfg = ''machine'' then
        failIf (pf_Username cfg \<noteq> ''_machine'') (Errorf ''machine backups must use username _machine'')
      else Some (Errorf ''invalid backup rule type %q''))"

definition send_one ::
  "push_env \<Rightarrow> 'w backup_client \<Rightarrow> PushConfig \<Rightarrow> bytes \<Rightarrow> batch \<Rightarrow> ('w, unit) client" where
  "send_one env cl cfg nonce b =
     bindS (track cfg (SetCurrentFiles (batchFilePaths b))) (\<lambda>_.
     mapErrS (Wrap ''batch %s'')
       (if isLargeFileBatch b then sendChunkedFile env cl cfg (ba_ID b) (hd (ba_Files b)) nonce
        else sendBatch env cl cfg b nonce))"

text \<open>After the last batch: the terminal status of the stream has to be the regular end.\<close>

definition finish_push :: "'w backup_client \<Rightarrow> ('w, unit) client" where
  "finish_push cl =
     bindS (mapErrS (Wrap ''close send'') (remote (cl_CloseSend cl))) (\<lambda>_ c.
       case remote (cl_Recv cl) c of
         (c', Inl e) \<Rightarrow> if e = io_EOF then (c', Inr ()) else (c', Inl (Wrap ''complete backup stream'' e))
       | (c', Inr _) \<Rightarrow> (c', Inl (Errorf ''complete backup stream: %!w(<nil>)'')))"

definition pusher_PushBackup ::
  "push_env \<Rightarrow> 'w backup_client \<Rightarrow> PushConfig \<Rightarrow> file_diff list \<Rightarrow> ('w, unit) client" where
  "pusher_PushBackup env cl cfg ds =
     (if ds = [] then returnS ()
      else bindS (checkS (validatePushConfig cfg)) (\<lambda>_ c.
        case mapErr (Wrap ''pack batches'') (PackBatchesWithinSize ds DefaultBatchSize MaxBatchContentBytes) of
          Inl e \<Rightarrow> (c, Inl e)
        | Inr batches \<Rightarrow>
            bindS (if pf_RuleType cfg = ''user''
                   then mapErrS (Wrap ''get challenge'') (remote (cl_GetChallenge cl)) else returnS []) (\<lambda>nonce.
            bindS (mapErrS (Wrap ''open push stream'') (remote (cl_PushBackup cl))) (\<lambda>_.
            bindS (track cfg (SetTotals (int (length ds)) (int (length ds)))) (\<lambda>_.
            bindS (track cfg (SetPhase TRANSFERRING)) (\<lambda>_.
            bindS (updateS (\<lambda>c. c\<lparr>pc_next := zero_time\<rparr>)) (\<lambda>_.
            bindS (foldS (send_one env cl cfg nonce) batches) (\<lambda>_.
            finish_push cl)))))) c))"

section \<open>Source paths invert archive paths\<close>

lemma sourcePath_join:
  assumes "normals pre" "pre \<noteq> []" "normals ns" "ns \<noteq> []"
  shows "sourcePath (path_join pre) (path_join (pre @ ns)) = Inr (path_join ns)"
proof -
  have j: "path_join (pre @ ns) = (path_join pre @ ''/'') @ path_join ns"
    using assms by (simp add: path_join_def join_on_append)
  have ne: "path_join pre \<noteq> []" using assms by (auto simp: path_join_def join_on_eq_Nil normal_def)
  have c: "Clean (path_join pre) = path_join pre" "Clean (path_join (pre @ ns)) = path_join (pre @ ns)"
    using Clean_path_join [of pre] Clean_path_join [of "pre @ ns"] assms by auto
  have p: "prefix (path_join pre @ ''/'') (path_join (pre @ ns))" unfolding j by (rule prefixI) simp
  then have d: "path_join (pre @ ns) \<noteq> path_join pre" by (auto simp: prefix_def)
  have t: "trim_prefix (path_join pre @ ''/'') (path_join (pre @ ns)) = path_join ns"
    unfolding j by (rule trim_prefix_append)
  show ?thesis
    unfolding sourcePath_def Let_def c t using ne p d by simp
qed

lemma inside_rel_comps:
  assumes "\<not> is_abs p" "inside (Clean p)"
  shows "normals (rel_comps p) \<and> rel_comps p \<noteq> []"
  by (rule inside_normals [OF assms]) simp

text \<open>The file that is read for an archived path is the file that was scanned.\<close>

lemma localPath_scanned:
  assumes "is_abs base" "NamespaceFiles cwd base files = Inr (pre, out)"
    and "pf_RootPath cfg = base" "pf_PathPrefix cfg = pre"
  shows "list_all2 (\<lambda>f g. \<forall>a. localPath cfg \<lparr>fd_File = g, fd_Action = a\<rparr> =
           Inr (abs_path (abs_comps base @ rel_comps (fi_Path f)))) files out"
proof -
  from assms(2) have n: "pre = path_join (root_comps base)"
    "list_all2 (\<lambda>f g. \<not> is_abs (fi_Path f) \<and> inside (Clean (fi_Path f)) \<and>
       g = f\<lparr>fi_Path := path_join (root_comps base @ rel_comps (fi_Path f))\<rparr>) files out"
    unfolding NamespaceFiles_iff [OF assms(1)] by blast+
  show ?thesis
  proof (rule list_all2_mono [OF n(2)])
    fix f g :: file_info assume fg: "\<not> is_abs (fi_Path f) \<and> inside (Clean (fi_Path f)) \<and>
       g = f\<lparr>fi_Path := path_join (root_comps base @ rel_comps (fi_Path f))\<rparr>"
    then have r: "normals (rel_comps (fi_Path f))" "rel_comps (fi_Path f) \<noteq> []"
      using inside_rel_comps by blast+
    from sourcePath_join [OF root_comps_normals r] fg
    show "\<forall>a. localPath cfg \<lparr>fd_File = g, fd_Action = a\<rparr> = Inr (abs_path (abs_comps base @ rel_comps (fi_Path f)))"
      using Join_abs_normals(1) [OF assms(1) r(1)] by (simp add: localPath_def assms(3,4) n(1))
  qed
qed

section \<open>What is signed is what the server checks\<close>

lemma signBatch_payload:
  assumes "signBatch env cfg nonce pb = Inr pb'" "bb_Signature pb = []" "bb_Nonce pb = []" "bb_SignerPubkey pb = []"
    and "pe_Marshal env pb = Inr (sv_marshalBatch senv pb)" "pe_sha env = sv_sha senv"
  shows "(case pf_SignFunc cfg of None \<Rightarrow> pe_SignWithSSHAgent env | Some f \<Rightarrow> f) (batchPayload senv pb') =
      Inr (bb_Signature pb') \<and> bb_Nonce pb' = nonce \<and>
      bb_SignerPubkey pb' = (case pf_SignerPubKey cfg of None \<Rightarrow> [] | Some k \<Rightarrow> k) \<and>
      pb'\<lparr>bb_Signature := [], bb_Nonce := [], bb_SignerPubkey := []\<rparr> = pb"
proof -
  have pb: "pb\<lparr>bb_Signature := [], bb_Nonce := [], bb_SignerPubkey := []\<rparr> = pb"
    using assms(2-4) by (cases pb) simp
  from assms(1,5) obtain sig where sig:
    "(case pf_SignFunc cfg of None \<Rightarrow> pe_SignWithSSHAgent env | Some f \<Rightarrow> f)
       (nonce @ ''PushBackup'' @ pe_sha env (sv_marshalBatch senv pb)) = Inr sig"
    "pb' = (case pf_SignerPubKey cfg of None \<Rightarrow> pb\<lparr>bb_Signature := sig, bb_Nonce := nonce\<rparr>
       | Some k \<Rightarrow> pb\<lparr>bb_Signature := sig, bb_Nonce := nonce, bb_SignerPubkey := k\<rparr>)"
    by (auto simp: signBatch_def Let_def split: sum.splits)
  have cleared: "pb'\<lparr>bb_Signature := [], bb_Nonce := [], bb_SignerPubkey := []\<rparr> = pb"
    using sig(2) assms(2-4) by (cases pb) (auto split: option.splits)
  show ?thesis
    using sig cleared assms(4,6) by (cases "pf_SignerPubKey cfg") (simp_all add: batchPayload_def Let_def)
qed

section \<open>The bandwidth limit\<close>

lemma limiter_wait_exact:
  assumes "0 < rate" "0 < bytes" "bytes * second_ns + rate < 2 ^ 63"
    and "limiter_wait rate now bytes next = (next', delay)"
  shows "bytes * second_ns \<le> rate * (next' - max next now) \<and> delay = max 0 (next' - now) \<and> now \<le> next'"
proof -
  let ?x = "bytes * second_ns + rate - 1"
  have x: "0 < ?x" using assms(1,2) by (simp add: second_ns_def)
  have w: "wrap64 (bytes * second_ns) = bytes * second_ns"
    using assms(1-3) by (intro wrap64_id) (auto simp: second_ns_def)
  have w2: "wrap64 (bytes * second_ns + rate - 1) = ?x"
    using assms(3) x by (intro wrap64_id) simp_all
  have d: "?x sdiv rate = ?x div rate" using x assms(1) by (simp add: signed_divide_int_def sgn_if)
  have n: "next' = max next now + ?x div rate" and dl: "delay = (if next' - now > 0 then next' - now else 0)"
    using assms(1,2,4) by (auto simp: limiter_wait_def Let_def w w2 d)
  have "?x = rate * (?x div rate) + ?x mod rate" by simp
  moreover have "?x mod rate < rate" using assms(1) by simp
  ultimately have "bytes * second_ns \<le> rate * (?x div rate)" by linarith
  moreover have "0 \<le> ?x div rate" using x assms(1) by (simp add: pos_imp_zdiv_nonneg_iff)
  ultimately show ?thesis using n dl by auto
qed

text \<open>The waits of a stream, one after the other.\<close>

fun limiter_run :: "int \<Rightarrow> (int \<times> int) list \<Rightarrow> int \<Rightarrow> int" where
  "limiter_run rate [] next = next"
| "limiter_run rate ((now, bytes) # ws) next = limiter_run rate ws (fst (limiter_wait rate now bytes next))"

lemma limiter_run_from:
  assumes "0 < rate" "list_all (\<lambda>(now, bytes). 0 < bytes \<and> bytes * second_ns + rate < 2 ^ 63) ws"
  shows "sum_list (map snd ws) * second_ns \<le> rate * (limiter_run rate ws next - next)"
  using assms(2)
proof (induction ws arbitrary: "next")
  case Nil
  then show ?case by simp
next
  case (Cons w ws)
  obtain now bytes where w: "w = (now, bytes)" by force
  obtain next' delay where l: "limiter_wait rate now bytes next = (next', delay)" by force
  have "0 < bytes" "bytes * second_ns + rate < 2 ^ 63" using Cons.prems w by auto
  then have e: "bytes * second_ns \<le> rate * (next' - max next now)"
    using limiter_wait_exact [OF assms(1) _ _ l] by blast
  have ih: "sum_list (map snd ws) * second_ns \<le> rate * (limiter_run rate ws next' - next')"
    using Cons by simp
  have "rate * (next' - max next now) \<le> rate * (next' - next)" using assms(1) by simp
  with e ih have "bytes * second_ns + sum_list (map snd ws) * second_ns \<le>
      rate * (next' - next) + rate * (limiter_run rate ws next' - next')" by linarith
  then show ?case by (simp add: w l algebra_simps)
qed

lemma limiter_run_first:
  assumes "0 < rate" "list_all (\<lambda>(now, bytes). 0 < bytes \<and> bytes * second_ns + rate < 2 ^ 63) ((now, bytes) # ws)"
  shows "(bytes + sum_list (map snd ws)) * second_ns \<le> rate * (limiter_run rate ((now, bytes) # ws) next - now)"
proof -
  obtain next' delay where l: "limiter_wait rate now bytes next = (next', delay)" by force
  have "0 < bytes" "bytes * second_ns + rate < 2 ^ 63" using assms(2) by auto
  then have e: "bytes * second_ns \<le> rate * (next' - max next now)"
    using limiter_wait_exact [OF assms(1) _ _ l] by blast
  moreover have "rate * (next' - max next now) \<le> rate * (next' - now)" using assms(1) by simp
  moreover have "sum_list (map snd ws) * second_ns \<le> rate * (limiter_run rate ws next' - next')"
    using limiter_run_from [OF assms(1)] assms(2) by simp
  ultimately show ?thesis by (simp add: l algebra_simps)
qed

section \<open>What is sent\<close>

text \<open>A client that keeps the batches that were sent.\<close>

definition with_log :: "('w, 'a) step \<Rightarrow> ('w \<times> backup_batch list, 'a) step" where
  "with_log m wl = (case m (fst wl) of (w, r) \<Rightarrow> ((w, snd wl), r))"

definition recording :: "'w backup_client \<Rightarrow> ('w \<times> backup_batch list) backup_client" where
  "recording cl = \<lparr>cl_GetChallenge = with_log (cl_GetChallenge cl), cl_PushBackup = with_log (cl_PushBackup cl),
     cl_Send = (\<lambda>pb wl. case cl_Send cl pb (fst wl) of (w, r) \<Rightarrow> ((w, snd wl @ [pb]), r)),
     cl_Recv = with_log (cl_Recv cl), cl_CloseSend = with_log (cl_CloseSend cl)\<rparr>"

abbreviation sent :: "('w \<times> backup_batch list) push_client \<Rightarrow> backup_batch list" where
  "sent c \<equiv> snd (pc_world c)"

definition for_stream :: "PushConfig \<Rightarrow> backup_batch \<Rightarrow> bool" where
  "for_stream cfg b \<longleftrightarrow> bb_Username b = pf_Username cfg \<and> bb_RuleType b = pf_RuleType cfg"

lemma remote_with_log: "remote (with_log m) c = (c', r) \<Longrightarrow> sent c' = sent c"
  by (auto simp: remote_def with_log_def split: prod.splits)

lemma track_sent: "track cfg f c = (c', r) \<Longrightarrow> pc_world c' = pc_world c \<and> r = Inr ()"
  by (auto simp: track_def split: if_splits)

lemma exchange_sent:
  assumes "exchange env (recording cl) cfg n pb c = (c', Inr ())"
  shows "sent c' = sent c @ [pb]"
proof -
  from assms obtain c1 c2 c3 ack where s:
    "wait_limit env cfg (int (sum_list (map (\<lambda>f. length (fe_Content f)) (bb_Files pb)))) c = (c1, Inr ())"
    "remote (cl_Send (recording cl) pb) c1 = (c2, Inr ())"
    "remote (cl_Recv (recording cl)) c2 = (c3, Inr ack)"
    "(if pa_Status ack \<noteq> ''OK'' then failS (Errorf ''server rejected: %s'')
     else bindS (tick env) (\<lambda>now.
       track cfg (AddTransferred (pe_rate env) now n (pa_WrittenBytes ack)))) c3 = (c', Inr ())"
    unfolding exchange_def by (auto simp: bindS_eq_Inr result_simps)
  have "pc_world c1 = pc_world c"
    using s(1) by (auto simp: wait_limit_def bindS_eq_Inr tick_def updateS_def split: prod.splits)
  moreover have "sent c2 = sent c1 @ [pb]"
    using s(2) by (auto simp: remote_def recording_def split: prod.splits)
  moreover have "sent c3 = sent c2" using s(3) remote_with_log by (auto simp: recording_def)
  moreover have "pc_world c' = pc_world c3"
    using s(4) by (auto simp: bindS_eq_Inr tick_def result_simps dest!: track_sent split: if_splits)
  ultimately show ?thesis by simp
qed

lemma signIfUser_fields:
  assumes "signIfUser env cfg nonce pb = Inr pb'"
  shows "bb_Files pb' = bb_Files pb \<and> bb_Username pb' = bb_Username pb \<and> bb_RuleType pb' = bb_RuleType pb \<and>
    bb_BatchId pb' = bb_BatchId pb"
  using assms
  by (auto simp: signIfUser_def signBatch_def Let_def mapErr_def split: if_splits sum.splits option.splits)

abbreviation chunk_limit :: nat where "chunk_limit \<equiv> nat chunkContentBytes"

lemma chunk_loop_step:
  assumes "offset < fi_Size f" "pe_ReadRest env path offset = Inr rest"
    and "piece = take (nat (min chunkContentBytes (fi_Size f - offset))) rest"
    and "int (length piece) = min chunkContentBytes (fi_Size f - offset)" "piece \<noteq> []"
  shows "chunk_loop env cl cfg path bid f nonce offset c =
    (case signIfUser env cfg nonce (chunk_batch cfg bid f offset piece) of
       Inl e \<Rightarrow> (c, Inl e)
     | Inr pb \<Rightarrow>
         (case exchange env cl cfg (if offset + int (length piece) = fi_Size f then 1 else 0) pb c of
            (c', Inl e) \<Rightarrow> (c', Inl e)
          | (c', Inr _) \<Rightarrow> chunk_loop env cl cfg path bid f nonce (offset + int (length piece)) c'))"
proof -
  have g: "\<not> fi_Size f \<le> offset" "int (length piece) \<noteq> 0" using assms(1,5) by auto
  have lt: "\<not> (int (length piece) < min chunkContentBytes (fi_Size f - offset) \<and> offset + int (length piece) \<noteq> fi_Size f)"
    using assms(4) by simp
  show ?thesis
    unfolding chunk_loop.simps [of env cl cfg path bid f nonce offset c] assms(2) sum.case Let_def assms(3) [symmetric]
    by (simp only: g lt if_False if_True simp_thms)
qed

lemma chunk_loop_sent:
  assumes "chunk_loop env (recording cl) cfg path bid f nonce (int k) c = (c', Inr ())"
    and "\<forall>off. pe_ReadRest env path (int off) = Inr (drop off data)" "fi_Size f = int (length data)"
    and "k \<le> length data"
  shows "\<exists>bs. sent c' = sent c @ bs \<and> list_all (for_stream cfg) bs \<and>
    concat (map bb_Files bs) = map (chunk_entry (fi_Path f) (fi_Mode f)) (cut_chunks chunk_limit k (drop k data))"
  using assms(1,4)
proof (induction "length data - k" arbitrary: k c rule: less_induct)
  case less
  show ?case
  proof (cases "k = length data")
    case True
    then show ?thesis using less.prems(1) assms(3)
      by (intro exI [of _ "[]"]) (simp add: chunk_loop.simps)
  next
    case False
    define w where "w = min chunk_limit (length (drop k data))"
    define piece where "piece = take w (drop k data)"
    have kl: "k < length data" using False less.prems(2) by simp
    have w: "0 < w" "w \<le> length data - k" "length piece = w"
      using kl by (auto simp: w_def piece_def chunkContentBytes_def)
    have wi: "int w = min chunkContentBytes (fi_Size f - int k)"
      using kl assms(3) by (auto simp: w_def chunkContentBytes_def min_def)
    let ?b = "chunk_batch cfg bid f (int k) piece"
    have p: "piece = take (nat (min chunkContentBytes (fi_Size f - int k))) (drop k data)"
      unfolding wi [symmetric] by (simp add: piece_def)
    have r: "pe_ReadRest env path (int k) = Inr (drop k data)" using assms(2) by simp
    have off: "int k < fi_Size f" using kl assms(3) by simp
    have pl: "int (length piece) = min chunkContentBytes (fi_Size f - int k)" using w(3) wi by simp
    have pne: "piece \<noteq> []" using w(1,3) by auto
    from less.prems(1) obtain pb c1 where pb: "signIfUser env cfg nonce ?b = Inr pb"
      and ex: "exchange env (recording cl) cfg (if int k + int (length piece) = fi_Size f then 1 else 0) pb c = (c1, Inr ())"
      and rest: "chunk_loop env (recording cl) cfg path bid f nonce (int k + int (length piece)) c1 = (c', Inr ())"
      unfolding chunk_loop_step [OF off r p pl pne] by (auto split: sum.splits prod.splits)
    have rest': "chunk_loop env (recording cl) cfg path bid f nonce (int (k + w)) c1 = (c', Inr ())"
      using rest w(3) by simp
    have lt: "length data - (k + w) < length data - k" "k + w \<le> length data" using w kl by auto
    from less.hyps [OF lt(1) rest' lt(2)] obtain bs where bs:
      "sent c' = sent c1 @ bs" "list_all (for_stream cfg) bs"
      "concat (map bb_Files bs) = map (chunk_entry (fi_Path f) (fi_Mode f)) (cut_chunks chunk_limit (k + w) (drop (k + w) data))"
      by blast
    note sf = signIfUser_fields [OF pb]
    have fin: "int k + int (length piece) = fi_Size f \<longleftrightarrow> length (drop k data) = w"
      using assms(3) kl w by auto
    have e: "bb_Files pb = [chunk_entry (fi_Path f) (fi_Mode f) (piece, k, length (drop k data) = w)]"
      using sf fin by (simp add: chunk_batch_def new_batch_def chunk_entry_def)
    have c: "cut_chunks chunk_limit k (drop k data) =
        (piece, k, length (drop k data) = w) # cut_chunks chunk_limit (k + w) (drop (k + w) data)"
      using kl by (subst cut_chunks.simps)
        (simp add: Let_def chunkContentBytes_def piece_def w_def add.commute)
    have "for_stream cfg pb" using sf by (simp add: for_stream_def chunk_batch_def new_batch_def)
    then show ?thesis
      using bs e exchange_sent [OF ex] by (intro exI [of _ "pb # bs"]) (simp add: c)
  qed
qed

text \<open>
  \<open>unchanged env cfg content d\<close>: the source of \<open>d\<close> can be read and is what the scan saw.
\<close>

definition source_unchanged :: "push_env \<Rightarrow> PushConfig \<Rightarrow> (file_diff \<Rightarrow> bytes) \<Rightarrow> file_diff \<Rightarrow> bool" where
  "source_unchanged env cfg content d \<longleftrightarrow> 0 \<le> fi_Size (fd_File d) \<and>
     (fd_Action d \<noteq> DiffDelete \<longrightarrow> fi_Size (fd_File d) = int (length (content d)) \<and>
       (\<forall>path. localPath cfg d = Inr path \<longrightarrow>
          pe_ReadFile env path = Inr (content d) \<and>
          (\<forall>off. pe_ReadRest env path (int off) = Inr (drop off (content d)))))"

definition is_large :: "file_diff \<Rightarrow> bool" where
  "is_large d \<longleftrightarrow> fd_Action d \<noteq> DiffDelete \<and> fi_Size (fd_File d) > MaxBatchContentBytes"

definition whole_entry :: "(file_diff \<Rightarrow> bytes) \<Rightarrow> file_diff \<Rightarrow> file_entry" where
  "whole_entry content d = \<lparr>fe_Path = fi_Path (fd_File d),
     fe_Content = (if fd_Action d = DiffDelete then [] else content d), fe_Mode = fi_Mode (fd_File d),
     fe_Deleted = (fd_Action d = DiffDelete), fe_Chunked = False, fe_ChunkOffset = 0, fe_FinalChunk = False\<rparr>"

text \<open>The entries one difference travels as.\<close>

definition wire_entries :: "(file_diff \<Rightarrow> bytes) \<Rightarrow> file_diff \<Rightarrow> file_entry list" where
  "wire_entries content d =
     (if is_large d then chunk_entries chunk_limit (fi_Path (fd_File d)) (fi_Mode (fd_File d)) (content d)
      else [whole_entry content d])"

lemma batch_entry_whole:
  "batch_entry env cfg d = Inr e \<Longrightarrow> source_unchanged env cfg content d \<Longrightarrow> e = whole_entry content d"
  by (auto simp: batch_entry_def whole_entry_def source_unchanged_def Let_def split: sum.splits if_splits)

lemma batch_entries_whole:
  "batch_entries env cfg ds = Inr es \<Longrightarrow> list_all (source_unchanged env cfg content) ds \<Longrightarrow>
   es = map (whole_entry content) ds"
proof (induction ds arbitrary: es)
  case (Cons d ds)
  from Cons.prems(1) obtain e es' where "batch_entry env cfg d = Inr e" "batch_entries env cfg ds = Inr es'" "es = e # es'"
    by (auto simp: bindE_def split: sum.splits)
  then show ?case using Cons.IH Cons.prems(2) batch_entry_whole by auto
qed simp

lemma isLargeFileBatch_iff: "isLargeFileBatch b \<longleftrightarrow> (\<exists>d. ba_Files b = [d] \<and> is_large d)"
  by (auto simp: isLargeFileBatch_def is_large_def split: list.splits)

lemma sendChunkedFile_sent:
  assumes "sendChunkedFile env (recording cl) cfg bid d nonce c = (c', Inr ())"
    and "source_unchanged env cfg content d" "fd_Action d \<noteq> DiffDelete"
  shows "\<exists>bs. sent c' = sent c @ bs \<and> list_all (for_stream cfg) bs \<and>
    concat (map bb_Files bs) = chunk_entries chunk_limit (fi_Path (fd_File d)) (fi_Mode (fd_File d)) (content d)"
proof -
  from assms(1) obtain path where p: "localPath cfg d = Inr path"
    and l: "chunk_loop env (recording cl) cfg path bid (fd_File d) nonce (int 0) c = (c', Inr ())"
    by (auto simp: sendChunkedFile_def split: sum.splits option.splits)
  from assms(2,3) p have "\<forall>off. pe_ReadRest env path (int off) = Inr (drop off (content d))"
    "fi_Size (fd_File d) = int (length (content d))"
    by (auto simp: source_unchanged_def)
  from chunk_loop_sent [OF l this] show ?thesis by (simp add: chunk_entries_def)
qed

lemma sendBatch_sent:
  assumes "sendBatch env (recording cl) cfg b nonce c = (c', Inr ())"
    and "list_all (source_unchanged env cfg content) (ba_Files b)"
  shows "\<exists>pb. sent c' = sent c @ [pb] \<and> for_stream cfg pb \<and> bb_Files pb = map (whole_entry content) (ba_Files b)"
proof -
  from assms(1) obtain es pb where es: "batch_entries env cfg (ba_Files b) = Inr es"
    and pb: "signIfUser env cfg nonce (new_batch cfg (ba_ID b) es) = Inr pb"
    and ex: "exchange env (recording cl) cfg (int (length (bb_Files pb))) pb c = (c', Inr ())"
    by (auto simp: sendBatch_def bindE_def split: sum.splits)
  show ?thesis
    using exchange_sent [OF ex] signIfUser_fields [OF pb] batch_entries_whole [OF es assms(2)]
    by (simp add: for_stream_def new_batch_def)
qed

lemma send_one_sent:
  assumes "send_one env (recording cl) cfg nonce b c = (c', Inr ())"
    and "list_all (source_unchanged env cfg content) (ba_Files b)"
    and "batch_ok n MaxBatchContentBytes b"
  shows "\<exists>bs. sent c' = sent c @ bs \<and> list_all (for_stream cfg) bs \<and>
    concat (map bb_Files bs) = concat (map (wire_entries content) (ba_Files b))"
proof -
  from assms(1) obtain c1 where c1: "pc_world c1 = pc_world c"
    and s: "(if isLargeFileBatch b then sendChunkedFile env (recording cl) cfg (ba_ID b) (hd (ba_Files b)) nonce
        else sendBatch env (recording cl) cfg b nonce) c1 = (c', Inr ())"
    by (auto simp: send_one_def bindS_eq_Inr result_simps dest: track_sent)
  show ?thesis
  proof (cases "isLargeFileBatch b")
    case True
    then obtain d where d: "ba_Files b = [d]" "is_large d" by (auto simp: isLargeFileBatch_iff)
    then have "sendChunkedFile env (recording cl) cfg (ba_ID b) d nonce c1 = (c', Inr ())"
      using s True by simp
    from sendChunkedFile_sent [OF this] assms(2) d c1 show ?thesis
      by (simp add: wire_entries_def is_large_def)
  next
    case False
    then have s': "sendBatch env (recording cl) cfg b nonce c1 = (c', Inr ())" using s by simp
    have small: "\<forall>d \<in> set (ba_Files b). \<not> is_large d"
    proof
      fix d assume d: "d \<in> set (ba_Files b)"
      show "\<not> is_large d"
      proof
        assume l: "is_large d"
        have nn: "0 \<le> content_bytes x" if "x \<in> set (ba_Files b)" for x
          using assms(2) that by (auto simp: content_bytes_def source_unchanged_def list_all_iff)
        have "content_bytes d \<le> sum_list (map content_bytes xs)"
          if "d \<in> set xs" "\<forall>x \<in> set xs. 0 \<le> content_bytes x" for xs
          using that
        proof (induction xs)
          case (Cons x xs)
          then have "0 \<le> sum_list (map content_bytes xs)" by (intro sum_list_nonneg) auto
          then show ?case using Cons by auto
        qed simp
        then have "content_bytes d \<le> batch_bytes (ba_Files b)"
          using d nn by (simp add: batch_bytes_def)
        then have "batch_bytes (ba_Files b) > MaxBatchContentBytes"
          using l by (simp add: is_large_def content_bytes_def)
        then have "length (ba_Files b) = 1" using assms(3) by (auto simp: batch_ok_def MaxBatchContentBytes_def)
        then have "ba_Files b = [d]" using d by (cases "ba_Files b") auto
        then show False using False l by (simp add: isLargeFileBatch_iff)
      qed
    qed
    have "concat (map (wire_entries content) xs) = map (whole_entry content) xs"
      if "\<forall>d \<in> set xs. \<not> is_large d" for xs
      using that by (induction xs) (auto simp: wire_entries_def)
    then have w: "concat (map (wire_entries content) (ba_Files b)) = map (whole_entry content) (ba_Files b)"
      using small by blast
    from sendBatch_sent [OF s' assms(2)] obtain pb where
      "sent c' = sent c1 @ [pb]" "for_stream cfg pb" "bb_Files pb = map (whole_entry content) (ba_Files b)" by blast
    then show ?thesis using c1 by (intro exI [of _ "[pb]"]) (simp add: w)
  qed
qed

lemma send_all_sent:
  assumes "foldS (send_one env (recording cl) cfg nonce) bs c = (c', Inr ())"
    and "\<forall>b \<in> set bs. list_all (source_unchanged env cfg content) (ba_Files b) \<and> batch_ok n MaxBatchContentBytes b"
  shows "\<exists>ps. sent c' = sent c @ ps \<and> list_all (for_stream cfg) ps \<and>
    concat (map bb_Files ps) = concat (map (wire_entries content) (concat (map ba_Files bs)))"
  using assms
proof (induction bs arbitrary: c)
  case Nil
  then show ?case by (intro exI [of _ "[]"]) simp
next
  case (Cons b bs)
  from Cons.prems(1) obtain c1 where c1: "send_one env (recording cl) cfg nonce b c = (c1, Inr ())"
      "foldS (send_one env (recording cl) cfg nonce) bs c1 = (c', Inr ())"
    by (auto split: prod.splits sum.splits)
  from send_one_sent [OF c1(1), of content n] Cons.prems(2) obtain p1 where p1:
    "sent c1 = sent c @ p1" "list_all (for_stream cfg) p1"
    "concat (map bb_Files p1) = concat (map (wire_entries content) (ba_Files b))" by auto
  from Cons.IH [OF c1(2)] Cons.prems(2) obtain p2 where
    "sent c' = sent c1 @ p2" "list_all (for_stream cfg) p2"
    "concat (map bb_Files p2) = concat (map (wire_entries content) (concat (map ba_Files bs)))" by auto
  with p1 show ?case by (intro exI [of _ "p1 @ p2"]) simp
qed

lemma finish_push_ok:
  assumes "finish_push cl c = (c', Inr ())"
  shows "\<exists>c1. remote (cl_CloseSend cl) c = (c1, Inr ()) \<and> remote (cl_Recv cl) c1 = (c', Inl io_EOF)"
proof -
  from assms obtain c1 where c1: "remote (cl_CloseSend cl) c = (c1, Inr ())"
    "(case remote (cl_Recv cl) c1 of
         (c', Inl e) \<Rightarrow> if e = io_EOF then (c', Inr ()) else (c', Inl (Wrap ''complete backup stream'' e))
       | (c', Inr _) \<Rightarrow> (c', Inl (Errorf ''complete backup stream: %!w(<nil>)''))) = (c', Inr ())"
    by (auto simp: finish_push_def bindS_eq_Inr result_simps)
  obtain c2 r where "remote (cl_Recv cl) c1 = (c2, r)" by (rule prod.exhaust)
  with c1 show ?thesis by (cases r) (auto split: if_splits)
qed

text \<open>The steps of a successful push.\<close>

lemma pusher_steps:
  assumes "pusher_PushBackup env cl cfg ds c = (c', Inr ())" "ds \<noteq> []"
  obtains bs nonce c1 c2 c3 c4 where
    "validatePushConfig cfg = None"
    "PackBatchesWithinSize ds DefaultBatchSize MaxBatchContentBytes = Inr bs"
    "(if pf_RuleType cfg = ''user'' then remote (cl_GetChallenge cl) else returnS []) c = (c1, Inr nonce)"
    "remote (cl_PushBackup cl) c1 = (c2, Inr ())"
    "pc_world c3 = pc_world c2"
    "foldS (send_one env cl cfg nonce) bs c3 = (c4, Inr ())"
    "finish_push cl c4 = (c', Inr ())"
proof -
  from assms obtain bs where v: "validatePushConfig cfg = None"
    and bs: "PackBatchesWithinSize ds DefaultBatchSize MaxBatchContentBytes = Inr bs"
    by (auto simp: pusher_PushBackup_def bindS_eq_Inr result_simps mapErr_def split: sum.splits)
  with assms obtain c1 nonce c2 c5 c6 c4 where st:
    "(if pf_RuleType cfg = ''user'' then mapErrS (Wrap ''get challenge'') (remote (cl_GetChallenge cl)) else returnS []) c = (c1, Inr nonce)"
    "remote (cl_PushBackup cl) c1 = (c2, Inr ())"
    "track cfg (SetTotals (int (length ds)) (int (length ds))) c2 = (c5, Inr ())"
    "track cfg (SetPhase TRANSFERRING) c5 = (c6, Inr ())"
    "foldS (send_one env cl cfg nonce) bs (c6\<lparr>pc_next := zero_time\<rparr>) = (c4, Inr ())"
    "finish_push cl c4 = (c', Inr ())"
    by (auto simp: pusher_PushBackup_def bindS_eq_Inr result_simps mapErr_def updateS_def)
  have "(if pf_RuleType cfg = ''user'' then remote (cl_GetChallenge cl) else returnS []) c = (c1, Inr nonce)"
    using st(1) by (auto simp: result_simps split: if_splits)
  moreover have "pc_world (c6\<lparr>pc_next := zero_time\<rparr>) = pc_world c2"
    using track_sent [OF st(3)] track_sent [OF st(4)] by simp
  ultimately show thesis using that v bs st(2,5,6) by blast
qed

lemma pusher_sent:
  assumes "pusher_PushBackup env (recording cl) cfg ds c = (c', Inr ())"
    and "list_all (source_unchanged env cfg content) ds"
  shows "\<exists>ps. sent c' = sent c @ ps \<and> list_all (for_stream cfg) ps \<and>
    concat (map bb_Files ps) = concat (map (wire_entries content) ds)"
proof (cases "ds = []")
  case True
  then show ?thesis using assms(1) by (intro exI [of _ "[]"]) (simp add: pusher_PushBackup_def returnS_def)
next
  case False
  from pusher_steps [OF assms(1) this] obtain bs nonce c1 c2 c3 c4 where st:
    "PackBatchesWithinSize ds DefaultBatchSize MaxBatchContentBytes = Inr bs"
    "(if pf_RuleType cfg = ''user'' then remote (cl_GetChallenge (recording cl)) else returnS []) c = (c1, Inr nonce)"
    "remote (cl_PushBackup (recording cl)) c1 = (c2, Inr ())" "pc_world c3 = pc_world c2"
    "foldS (send_one env (recording cl) cfg nonce) bs c3 = (c4, Inr ())"
    "finish_push (recording cl) c4 = (c', Inr ())"
    by metis
  from PackBatchesWithinSize_packed [of ds DefaultBatchSize MaxBatchContentBytes] st(1)
  have pk: "concat (map ba_Files bs) = ds" "list_all (batch_ok (effective_size DefaultBatchSize) MaxBatchContentBytes) bs"
    by auto
  have src: "\<forall>b \<in> set bs. list_all (source_unchanged env cfg content) (ba_Files b) \<and>
      batch_ok (effective_size DefaultBatchSize) MaxBatchContentBytes b"
    using assms(2) pk by (auto simp: list_all_iff)
  have "sent c3 = sent c"
    using st(2,3,4) by (auto simp: recording_def returnS_def dest!: remote_with_log split: if_splits)
  moreover have "sent c' = sent c4"
    using finish_push_ok [OF st(6)] by (auto simp: recording_def dest!: remote_with_log)
  ultimately show ?thesis using send_all_sent [OF st(5) src] pk(1) by auto
qed

text \<open>
  C11: A push that succeeds, over sources that did not change since the scan, sent exactly the entries of
  the differences, in order: one whole entry each, or the chunks of a large file, every batch for the
  configured user and rule type.
\<close>

theorem push_sends:
  assumes "pusher_PushBackup env (recording cl) cfg ds c = (c', Inr ())"
    and "list_all (source_unchanged env cfg content) ds"
  shows "\<exists>ps. sent c' = sent c @ ps \<and> list_all (for_stream cfg) ps \<and>
    concat (map bb_Files ps) = concat (map (wire_entries content) ds)"
  using assms by (rule pusher_sent)

definition demo_client :: "bool backup_client" where
  "demo_client = \<lparr>cl_GetChallenge = (\<lambda>w. (w, Inr ''n'')), cl_PushBackup = (\<lambda>w. (w, Inr ())),
     cl_Send = (\<lambda>pb w. (w, Inr ())),
     cl_Recv = (\<lambda>w. (w, if w then Inl io_EOF else Inr \<lparr>pa_Status = ''OK'', pa_Error = '''', pa_WrittenBytes = 4\<rparr>)),
     cl_CloseSend = (\<lambda>w. (True, Inr ()))\<rparr>"

definition demo_push_env :: push_env where
  "demo_push_env = \<lparr>pe_ReadFile = (\<lambda>p. Inr ''data''), pe_Open = (\<lambda>p. None),
     pe_ReadRest = (\<lambda>p n. Inr (drop (nat n) ''data'')), pe_sha = (\<lambda>b. b), pe_Marshal = (\<lambda>b. Inr (bb_BatchId b)),
     pe_SignWithSSHAgent = (\<lambda>b. Inr b), pe_now = (\<lambda>n. 10 ^ 9), pe_rate = (\<lambda>a b. 0)\<rparr>"

definition demo_push :: PushConfig where
  "demo_push = \<lparr>pf_Username = ''_machine'', pf_RuleType = ''machine'', pf_Tracker = True, pf_RootPath = ''/etc'',
     pf_PathPrefix = ''etc'', pf_SignFunc = None, pf_SignerPubKey = None, pf_BandwidthLimit = 0\<rparr>"

definition demo_diff :: file_diff where
  "demo_diff = \<lparr>fd_File = \<lparr>fi_Path = ''etc/hosts'', fi_Size = 4, fi_Mtime = 7, fi_Mode = 0x1A4, fi_SHA256 = ''h''\<rparr>,
     fd_Action = DiffAdd\<rparr>"

definition demo_start :: "(bool \<times> backup_batch list) push_client" where
  "demo_start = \<lparr>pc_world = (False, []), pc_tracker = NewTracker 0, pc_next = 0, pc_slept = [], pc_tick = 0\<rparr>"

lemma push_sends_witness:
  "\<exists>c'. pusher_PushBackup demo_push_env (recording demo_client) demo_push [demo_diff] demo_start = (c', Inr ()) \<and>
     concat (map bb_Files (sent c')) = [whole_entry (\<lambda>_. ''data'') demo_diff]"
proof -
  obtain c' r where run: "pusher_PushBackup demo_push_env (recording demo_client) demo_push [demo_diff] demo_start = (c', r)"
    by (rule prod.exhaust)
  have "snd (pusher_PushBackup demo_push_env (recording demo_client) demo_push [demo_diff] demo_start) = Inr ()"
    by code_simp
  with run have run: "pusher_PushBackup demo_push_env (recording demo_client) demo_push [demo_diff] demo_start = (c', Inr ())"
    by simp
  have "list_all (source_unchanged demo_push_env demo_push (\<lambda>_. ''data'')) [demo_diff]"
    by (simp add: source_unchanged_def demo_push_env_def demo_diff_def)
  from push_sends [OF run this] run show ?thesis
    by (auto simp: demo_start_def wire_entries_def is_large_def demo_diff_def MaxBatchContentBytes_def)
qed

text \<open>
  A push of differences reports success only when the server ended the stream regularly after the
  client had closed its half: the terminal status of the stream was read and was io.EOF.
\<close>

theorem push_success_is_final:
  assumes "pusher_PushBackup env cl cfg ds c = (c', Inr ())" "ds \<noteq> []"
  shows "validatePushConfig cfg = None \<and>
    (\<exists>c4 c5. remote (cl_CloseSend cl) c4 = (c5, Inr ()) \<and> remote (cl_Recv cl) c5 = (c', Inl io_EOF))"
  using pusher_steps [OF assms] finish_push_ok by metis

lemma push_success_is_final_witness:
  "\<exists>c' c1. remote (cl_Recv (recording demo_client)) c1 = (c', Inl io_EOF)"
proof -
  obtain c' r where run: "pusher_PushBackup demo_push_env (recording demo_client) demo_push [demo_diff] demo_start = (c', r)"
    by (rule prod.exhaust)
  have "snd (pusher_PushBackup demo_push_env (recording demo_client) demo_push [demo_diff] demo_start) = Inr ()"
    by code_simp
  with run have run: "pusher_PushBackup demo_push_env (recording demo_client) demo_push [demo_diff] demo_start = (c', Inr ())"
    by simp
  from push_success_is_final [OF run] show ?thesis by blast
qed

text \<open>
  C21: The agent signs exactly the bytes the server checks: a batch that the client signed with a
  registered key, so that the signer's signature over that payload verifies, passes the server's
  verification and leaves the server unchanged.
\<close>

theorem signature_verifies:
  assumes "signBatch env cfg nonce pb = Inr pb'" "pb = new_batch cfg bid files" "pf_SignerPubKey cfg = None"
    and "pe_Marshal env pb = Inr (sv_marshalBatch senv pb)" "pe_sha env = sv_sha senv"
    and "nonce \<noteq> []" "bb_Signature pb' \<noteq> []"
    and "unmarshalSig (sv_lib senv) (bb_Signature pb') = Some sig"
    and "LoadSigningKeys (sv_lib senv) (sv_keyfl senv) (sv_KeysDir senv) h (pf_Username cfg) (sv_now senv) (ss_keys s) = Inr keys"
    and "(case pf_SignFunc cfg of None \<Rightarrow> pe_SignWithSSHAgent env | Some f \<Rightarrow> f) payload = Inr (bb_Signature pb') \<Longrightarrow>
         VerifyAnyKey (sv_lib senv) keys payload sig"
    and "payload = batchPayload senv pb'"
  shows "verifyBatchSignature senv h pb' s = (s, Inr ())"
proof -
  have pb: "bb_Signature pb = []" "bb_Nonce pb = []" "bb_SignerPubkey pb = []" "bb_Username pb = pf_Username cfg"
    using assms(2) by (simp_all add: new_batch_def)
  note p = signBatch_payload [OF assms(1) pb(1-3) assms(4,5)]
  then have "bb_Username pb' = pf_Username cfg" using pb(4) by (metis (no_types) backup_batch.select_convs(2) backup_batch.surjective backup_batch.update_convs(5-7))
  moreover have "bb_Nonce pb' \<noteq> []" "bb_SignerPubkey pb' = []" using p assms(3,6) by auto
  moreover have "VerifyAnyKey (sv_lib senv) keys (batchPayload senv pb') sig" using p assms(10,11) by simp
  ultimately show ?thesis using assms(7-9) by (simp add: verifyBatchSignature_def Let_def)
qed

text \<open>
  Reading for a push finds the scanned file: for every file of a scan under an absolute root, the
  local path computed from its archive path is the root followed by the scanned relative path.
\<close>

theorem archived_is_scanned:
  assumes "is_abs base" "NamespaceFiles cwd base files = Inr (pre, out)"
    and "pf_RootPath cfg = base" "pf_PathPrefix cfg = pre"
  shows "list_all2 (\<lambda>f g. \<forall>a. localPath cfg \<lparr>fd_File = g, fd_Action = a\<rparr> =
           Inr (abs_path (abs_comps base @ rel_comps (fi_Path f)))) files out"
  using assms by (rule localPath_scanned)

lemma archived_is_scanned_witness:
  "localPath demo_push demo_diff = Inr (abs_path [''etc'', ''hosts''])"
proof -
  let ?f = "\<lparr>fi_Path = ''hosts'', fi_Size = 4, fi_Mtime = 7, fi_Mode = 0x1A4, fi_SHA256 = ''h''\<rparr>"
  have n: "NamespaceFiles (Inr ''/'') ''/etc'' [?f] = Inr (''etc'', [fd_File demo_diff])"
    and c: "abs_comps ''/etc'' = [''etc'']" "rel_comps ''hosts'' = [''hosts'']"
    by code_simp+
  have d: "demo_diff = \<lparr>fd_File = fd_File demo_diff, fd_Action = DiffAdd\<rparr>" by (simp add: demo_diff_def)
  from archived_is_scanned [of "''/etc''" "Inr ''/''" "[?f]" "''etc''" "[fd_File demo_diff]" demo_push] n c
  have "localPath demo_push \<lparr>fd_File = fd_File demo_diff, fd_Action = DiffAdd\<rparr> = Inr (abs_path [''etc'', ''hosts''])"
    by (simp add: demo_push_def)
  then show ?thesis using d by metis
qed

text \<open>
  The bandwidth limit holds over a whole stream: after waits for payloads of positive size that do not
  overflow, the stream may go on no earlier than the time the configured rate needs for all bytes
  together, counted from the first wait.
\<close>

theorem bandwidth_bound:
  assumes "0 < rate" "list_all (\<lambda>(now, bytes). 0 < bytes \<and> bytes * second_ns + rate < 2 ^ 63) ((now, bytes) # ws)"
  shows "(bytes + sum_list (map snd ws)) * second_ns \<le> rate * (limiter_run rate ((now, bytes) # ws) next - now)"
  using assms by (rule limiter_run_first)

lemma bandwidth_bound_witness:
  "(500 + sum_list (map snd [(0 :: int, 700)])) * second_ns \<le> 1000 * (limiter_run 1000 [(0, 500), (0, 700)] zero_time - 0)"
  by (rule bandwidth_bound) (simp_all add: second_ns_def)

end
