(* ===== verification/Vault_Demo.thy ===== *)
theory Vault_Demo
  imports Vault_PullRestore Vault_Transport
begin

text \<open>
  A small server on which the theorems about the handlers are applied: one allowed host,
  \<open>web01\<close>, that may vouch for its users, a signature scheme in which the signature of a payload
  is the key followed by the payload, and a \<open>zfs\<close> program whose datasets are always mounted.
\<close>

section \<open>The server\<close>

definition demo_cfg :: server_config where
  "demo_cfg = \<lparr>
     sc_Server = \<lparr>sb_CertFile = ''/pki/s.crt'', sb_KeyFile = ''/pki/s.key'', sb_CAFile = ''/pki/ca.crt'',
                  sb_Listen = '':8443'', sb_BackupPool = ''tank''\<rparr>,
     sc_AllowedHosts = [''web01''],
     sc_GlobalRules = [],
     sc_UserPolicy = \<lparr>up_DefaultSchedule = ''@daily'', up_DefaultQuotaGB = 10, up_PerUserOverrides = []\<rparr>,
     sc_SnapshotPolicy = \<lparr>sp_MinSnapshots = 2, sp_MaxSnapshots = 4, sp_MinFreeGB = 1\<rparr>,
     sc_KeyEnrollment = \<lparr>ke_Mode = ''admin_only'',
        ke_ServerOSLogin = \<lparr>ol_AllowedAgents = [], ol_MinUID = 0, ol_AllowedUsers = []\<rparr>\<rparr>,
     sc_UserAuth = \<lparr>ua_DefaultMode = ''per_user_key'', ua_Agents = [
        \<lparr>ue_Agent = ''web01'', ue_Mode = ''host_vouched'',
         ue_Trust = \<lparr>tp_MinUID = 1000, tp_Groups = [], tp_Include = [''alice''], tp_Exclude = []\<rparr>,
         ue_Capabilities = [''backup'', ''restore'', ''delegation'']\<rparr>]\<rparr>\<rparr>"

definition demo_zfs :: "unit exec" where
  "demo_zfs args z = (z, Exited
     (if args ! 0 = ''list'' then ''tank/web01/alice@sync-1''
      else if args ! 0 = ''get'' then
        (if args ! 4 = ''mounted'' then ''yes''
         else if args ! 4 = ''mountpoint'' then ''/clone'' else ''9000000000'')
      else ''''))"

definition demo_lib :: ssh_lib where
  "demo_lib = \<lparr>parseAuthorizedKey = (\<lambda>line. if line = '''' then None else Some line),
     parsePublicKey = (\<lambda>b. if b = '''' then None else Some b),
     verifyKey = (\<lambda>k payload sig. sig = k @ payload),
     unmarshalSig = (\<lambda>b. if b = '''' then None else Some b)\<rparr>"

definition demo_env :: "(unit \<times> string list list) server_env" where
  "demo_env = \<lparr>sv_Cfg = demo_cfg, sv_KeysDir = ''/keys'', sv_mountPoint = ''/srv'', sv_Logger = True,
     sv_lib = demo_lib, sv_sha = (\<lambda>b. b), sv_marshalRequest = (\<lambda>m u. Inr (m @ u)),
     sv_marshalBatch = bb_BatchId, sv_db = no_faults, sv_keyfl = (\<lambda>_ _. False),
     sv_fs = (\<lambda>_ _ _. False), sv_tmps = (\<lambda>n. ''.tmp'' @ replicate n (CHR ''x'')),
     sv_exec = logged demo_zfs,
     sv_view = (\<lambda>_. []), sv_now = 1000\<rparr>"

definition demo_ctx :: request_ctx where
  "demo_ctx = \<lparr>cx_hostname = ''web01'', cx_username = '''', cx_uid = 1000, cx_groups = []\<rparr>"

definition demo_state :: "(unit \<times> string list list) server_state" where
  "demo_state = \<lparr>ss_nonces = [], ss_grants = [], ss_keys = [], ss_tree = [], ss_zfs = ((), []),
     ss_log = [], ss_tick = 0\<rparr>"

definition demo_entry :: file_entry where
  "demo_entry = \<lparr>fe_Path = ''a'', fe_Content = ''data'', fe_Mode = 0x1A4, fe_Deleted = False,
     fe_Chunked = False, fe_ChunkOffset = 0, fe_FinalChunk = False\<rparr>"

definition demo_batch :: backup_batch where
  "demo_batch = \<lparr>bb_BatchId = ''b1'', bb_Username = ''alice'', bb_RuleType = ''user'',
     bb_Files = [demo_entry], bb_Nonce = [], bb_Signature = [], bb_SignerPubkey = []\<rparr>"

definition demo_turn :: push_turn where
  "demo_turn = \<lparr>pt_ctx = None, pt_recv = Inr demo_batch, pt_send = None\<rparr>"

abbreviation demo_run where
  "demo_run turns \<equiv> PushBackup demo_env demo_ctx ''2'' None turns demo_state"

section \<open>Backups\<close>

lemma PushBackup_writes_witness:
  "batch_authorised demo_env demo_ctx demo_state demo_batch \<and>
   prefix [''srv'', ''web01'', ''alice''] [''srv'', ''web01'', ''alice'', ''a'']"
proof -
  obtain s' acks r where run: "demo_run [demo_turn] = (s', acks, r)" by (rule prod_cases3)
  have "file_at [''srv'', ''web01'', ''alice'', ''a''] (ss_tree (fst (demo_run [demo_turn]))) \<noteq>
        file_at [''srv'', ''web01'', ''alice'', ''a''] (ss_tree demo_state)"
    and o: "dataset_owner (sv_mountPoint demo_env) (cx_hostname demo_ctx) ''_machine''"
    by code_simp+
  then have ch: "file_at [''srv'', ''web01'', ''alice'', ''a''] (ss_tree s') \<noteq>
        file_at [''srv'', ''web01'', ''alice'', ''a''] (ss_tree demo_state)"
    using run by simp
  from PushBackup_writes [OF o run ch] show ?thesis
    by (simp add: demo_turn_def)
qed

lemma PushBackup_complete_witness:
  "\<exists>u acks. usernameRe u \<and> length acks = 1 \<and> fst (snd (demo_run [demo_turn])) = acks"
proof -
  obtain s' acks r where run: "demo_run [demo_turn] = (s', acks, r)" by (rule prod_cases3)
  have "snd (snd (demo_run [demo_turn])) = Inr ()" by code_simp
  with run have "demo_run [demo_turn] = (s', acks, Inr ())" by simp
  from PushBackup_complete [OF this] run show ?thesis by auto
qed

definition demo_lost :: push_turn where
  "demo_lost = \<lparr>pt_ctx = None, pt_recv = Inl (Errorf ''connection reset''), pt_send = None\<rparr>"

lemma PushBackup_interrupted_witness:
  "retentions (snd (ss_zfs (fst (demo_run [demo_turn, demo_lost])))) = []"
proof -
  obtain s' acks r where run: "demo_run [demo_turn, demo_lost] = (s', acks, r)" by (rule prod_cases3)
  have "length (fst (snd (demo_run [demo_turn, demo_lost]))) = 1" by code_simp
  with run have l: "length acks < length [demo_turn, demo_lost]" by simp
  have e: "sv_exec demo_env = logged demo_zfs" by (simp add: demo_env_def)
  from PushBackup_interrupted [OF e run l] run show ?thesis
    by (simp add: demo_state_def retentions_def)
qed

lemma authBatch_later_witness:
  "\<exists>p. fst (authBatch demo_env demo_ctx demo_batch p) = p \<and> ps_nonceConsumed p"
proof -
  let ?p = "(push_start demo_state)\<lparr>ps_nonceConsumed := True, ps_authDecisionChecked := True\<rparr>"
  have "authBatch demo_env demo_ctx demo_batch ?p =
      (?p, snd (verifyBatchSignature demo_env (cx_hostname demo_ctx) demo_batch (ps_server ?p)))"
    by (rule authBatch_later) (simp_all add: demo_batch_def push_start_def)
  then show ?thesis by (intro exI [of _ ?p]) simp
qed

section \<open>Restores and keys\<close>

definition demo_request :: quota_request where
  "demo_request = \<lparr>qr_Username = ''alice'', qr_Nonce = [], qr_Signature = []\<rparr>"

text \<open>The pool has no snapshot yet, so the restore ends after it has listed the snapshots.\<close>

definition demo_new :: "(unit \<times> string list list) server_env" where
  "demo_new = demo_env\<lparr>sv_exec := logged (\<lambda>args z. (z, Exited ''''))\<rparr>"

lemma PullRestore_authorised_witness:
  "usernameRe (qr_Username demo_request) \<and>
   ss_zfs (fst (PullRestore demo_new demo_ctx 7 (\<lambda>_. None) (\<lambda>_. None) demo_request demo_state)) \<noteq> ss_zfs demo_state"
proof -
  obtain s' sent r where run:
    "PullRestore demo_new demo_ctx 7 (\<lambda>_. None) (\<lambda>_. None) demo_request demo_state = (s', sent, r)"
    by (rule prod_cases3)
  have ch: "ss_zfs (fst (PullRestore demo_new demo_ctx 7 (\<lambda>_. None) (\<lambda>_. None) demo_request demo_state)) \<noteq>
      ss_zfs demo_state"
    and o: "is_abs (sv_KeysDir demo_new)" "hostnameRe (cx_hostname demo_ctx)"
    by code_simp+
  then have ne: "sent \<noteq> [] \<or> ss_zfs s' \<noteq> ss_zfs demo_state" using run by simp
  have wf: "f_wf (ss_keys demo_state)" by (simp add: demo_state_def f_wf_def)
  from PullRestore_authorised [OF run o wf ne] ch show ?thesis by blast
qed

lemma challenge_lifetime_witness:
  "\<exists>s' ch. GetChallenge demo_env (Some ''n'') demo_state = (s', Inr ch) \<and> ch_ExpiresAt ch = 1300"
proof -
  obtain s' ch where c: "GetChallenge demo_env (Some ''n'') demo_state = (s', Inr ch)"
    by (simp add: GetChallenge_def demo_env_def demo_state_def InsertNonce_def no_faults_def Let_def)
  have "nonces_wf (ss_nonces demo_state)" by (simp add: demo_state_def nonces_wf_def)
  from challenge_lifetime [OF this c] c show ?thesis by (simp add: demo_env_def)
qed

definition demo_delegation :: delegation_request where
  "demo_delegation = \<lparr>dr_Username = ''alice'', dr_GatewayCn = ''gw'', dr_DelegationPubkey = ''k'',
     dr_ExpiresAt = 5000, dr_Nonce = ''n'', dr_Signature = ''s''\<rparr>"

lemma demo_owner: "valid_owner (sv_KeysDir demo_env) (cx_hostname demo_ctx) (dr_Username demo_delegation)"
  by code_simp

lemma delegation_registered_witness:
  "\<exists>s'. RegisterDelegationKey demo_env demo_ctx demo_delegation demo_state = (s', Inr ()) \<and>
     live_key demo_lib 4999 (deleg_comps ''/keys'' ''web01'' ''alice'') (ss_keys s') ''k''"
proof -
  obtain s' r where run: "RegisterDelegationKey demo_env demo_ctx demo_delegation demo_state = (s', r)"
    by (rule prod.exhaust)
  have "snd (RegisterDelegationKey demo_env demo_ctx demo_delegation demo_state) = Inr ()" by code_simp
  with run have run: "RegisterDelegationKey demo_env demo_ctx demo_delegation demo_state = (s', Inr ())" by simp
  from delegation_registered [OF demo_owner run] run show ?thesis
    by (auto simp: demo_env_def demo_lib_def demo_delegation_def demo_ctx_def)
qed

lemma RemoveDelegationKey_ok_witness:
  "\<exists>s'. RemoveDelegationKey demo_env demo_ctx demo_delegation demo_state = (s', Inr ()) \<and>
     \<not> live_key demo_lib 0 (deleg_comps ''/keys'' ''web01'' ''alice'') (ss_keys s') ''k''"
proof -
  obtain s' r where run: "RemoveDelegationKey demo_env demo_ctx demo_delegation demo_state = (s', r)"
    by (rule prod.exhaust)
  have "snd (RemoveDelegationKey demo_env demo_ctx demo_delegation demo_state) = Inr ()" by code_simp
  with run have run: "RemoveDelegationKey demo_env demo_ctx demo_delegation demo_state = (s', Inr ())" by simp
  have n: "keys_named (sv_lib demo_env) (sv_sha demo_env)
      (deleg_comps (sv_KeysDir demo_env) (cx_hostname demo_ctx) (dr_Username demo_delegation)) (ss_keys demo_state)"
    by (simp add: keys_named_def demo_state_def f_get_def)
  have p: "parseAuthorizedKey (sv_lib demo_env) (dr_DelegationPubkey demo_delegation) = Some ''k''"
    by (simp add: demo_env_def demo_lib_def demo_delegation_def)
  from RemoveDelegationKey_ok [OF demo_owner n run p, of 0] run show ?thesis
    by (auto simp: demo_env_def demo_delegation_def demo_ctx_def)
qed

definition demo_grant :: grant_request where
  "demo_grant = \<lparr>rg_Username = ''alice'', rg_Method = ''PushBackup'', rg_EphemeralPubkey = ''e'',
     rg_ExpiresAt = 2000, rg_Nonce = ''n'', rg_Signature = ''s''\<rparr>"

lemma RegisterTaskGrant_ok_witness:
  "\<exists>s'. \<exists>g :: task_grant. RegisterTaskGrant demo_env demo_ctx demo_grant demo_state = (s', Inr ()) \<and>
     tg_Method g = ''PushBackup'' \<and> tg_ExpiresAt g = 2000"
proof -
  obtain s' r where run: "RegisterTaskGrant demo_env demo_ctx demo_grant demo_state = (s', r)"
    by (rule prod.exhaust)
  have "snd (RegisterTaskGrant demo_env demo_ctx demo_grant demo_state) = Inr ()" by code_simp
  with run have run: "RegisterTaskGrant demo_env demo_ctx demo_grant demo_state = (s', Inr ())" by simp
  have "grants_wf (ss_grants demo_state)" by (simp add: demo_state_def grants_wf_def)
  from RegisterTaskGrant_ok [OF this run] obtain g :: task_grant where
    "tg_Method g = ''PushBackup''" "tg_ExpiresAt g = rg_ExpiresAt demo_grant" by blast
  with run show ?thesis by (intro exI [of _ s'] exI [of _ g]) (simp add: demo_grant_def)
qed

section \<open>A chunked upload\<close>

lemma push_steps_foldS:
  "push_chunks.steps env h es p = foldS (pushChunk env h) es p"
  by (induction es arbitrary: p) (auto simp: bindS_def returnS_def split: prod.splits sum.splits)

lemma push_chunks_publish_witness:
  "\<exists>p'. push_published demo_env ''web01'' ''a'' p' = Some (''hello'', 0x1A4)"
proof -
  let ?p = "(push_start demo_state)\<lparr>ps_username := ''alice''\<rparr>"
  have t: "targetPath ''/srv'' ''web01'' ''alice'' ''a'' = Inr ''/srv/web01/alice/a''"
    and c: "abs_comps ''/srv/web01/alice/a'' = [''srv'', ''web01'', ''alice'', ''a'']"
    and m: "perm 0x1A4 = 0x1A4"
    and ok: "snd (foldS (pushChunk demo_env ''web01'') (chunk_entries 2 ''a'' 0x1A4 ''hello'') ?p) = Inr ()"
    by code_simp+
  have rd: "push_ready demo_env ''web01'' ''a'' ?p"
    using t c by (simp add: push_ready_def push_target_def demo_env_def push_start_def)
  have pn: "push_pending ''a'' ?p = None" by (simp add: push_pending_def push_start_def)
  obtain p' r where run: "foldS (pushChunk demo_env ''web01'') (chunk_entries 2 ''a'' 0x1A4 ''hello'') ?p = (p', r)"
    by (rule prod.exhaust)
  with ok have "push_chunks.steps demo_env ''web01'' (chunk_entries 2 ''a'' 0x1A4 ''hello'') ?p = (p', Inr ())"
    by (simp add: push_steps_foldS)
  from push_chunks_publish [OF _ _ rd pn this] m show ?thesis by auto
qed

section \<open>A signed batch\<close>

definition demo_signed_state :: "(unit \<times> string list list) server_state" where
  "demo_signed_state = demo_state\<lparr>ss_keys := [([''keys'', ''web01'', ''alice.pub''], KeyText ''k'')]\<rparr>"

lemma signature_verifies_witness:
  "\<exists>pb'. verifyBatchSignature demo_env ''web01'' pb' demo_signed_state = (demo_signed_state, Inr ()) \<and>
     bb_Signature pb' = ''knPushBackupb1''"
proof -
  let ?cfg = "demo_push\<lparr>pf_Username := ''alice'', pf_RuleType := ''user'', pf_SignFunc := Some (\<lambda>b. Inr (''k'' @ b))\<rparr>"
  let ?pb = "new_batch ?cfg ''b1'' []"
  let ?pb' = "?pb\<lparr>bb_Signature := ''knPushBackupb1'', bb_Nonce := ''n''\<rparr>"
  have s: "signBatch demo_push_env ?cfg ''n'' ?pb = Inr ?pb'"
    by (simp add: signBatch_def demo_push_env_def demo_push_def new_batch_def)
  have k: "LoadSigningKeys (sv_lib demo_env) (sv_keyfl demo_env) (sv_KeysDir demo_env) ''web01'' (pf_Username ?cfg)
      (sv_now demo_env) (ss_keys demo_signed_state) = Inr [''k'']"
    by code_simp
  have "verifyBatchSignature demo_env ''web01'' ?pb' demo_signed_state = (demo_signed_state, Inr ())"
    by (rule signature_verifies [OF s refl _ _ _ _ _ _ k _ refl, where sig = "''knPushBackupb1''"])
       (simp_all add: demo_push_env_def demo_push_def demo_env_def demo_lib_def new_batch_def VerifyAnyKey_def
          batchPayload_def Let_def)
  then show ?thesis by (intro exI [of _ ?pb']) simp
qed

end
