(* ===== verification/Vault_Stream.thy ===== *)
theory Vault_Stream
  imports Vault_Transport
begin

text \<open>
  What a backup stream promises, and that \<open>PushBackup\<close> implements it. The specification sees what is
  staged for a name and what is published at a place; names such as \<open>a\<close> and \<open>./a\<close> share a place. Every accepted
  entry moves its own name and its place and leaves all others alone, whatever is staged for them at the moment; a
  stream that succeeds is the fold of its entries. With the agent's side of the stream this gives
  the end-to-end statement: after a successful push the dataset holds what the agent scanned.
\<close>

section \<open>The specification\<close>

type_synonym path_view = "(bytes \<times> 32 word) option \<times> (bytes \<times> 32 word) option"

fun receive_entry :: "file_entry \<Rightarrow> path_view \<Rightarrow> path_view" where
  "receive_entry f (st, pub) =
     (if fe_Chunked f then
        let c = (case st of None \<Rightarrow> '''' | Some (c, m) \<Rightarrow> c) @ fe_Content f in
        if fe_FinalChunk f then (None, Some (c, perm (fe_Mode f))) else (Some (c, fe_Mode f), pub)
      else if fe_Deleted f then (None, None)
      else (None, Some (fe_Content f, perm (fe_Mode f))))"

text \<open>
  All names and places of a stream: uploads are kept by the name the batch gives, files by the
  place the name resolves to.
\<close>

type_synonym stream_view = "(string \<Rightarrow> (bytes \<times> 32 word) option) \<times> (string list \<Rightarrow> (bytes \<times> 32 word) option)"

definition receive_at :: "(string \<Rightarrow> string list) \<Rightarrow> file_entry \<Rightarrow> stream_view \<Rightarrow> stream_view" where
  "receive_at place f v = (let x = fe_Path f; (st, pub) = receive_entry f (fst v x, snd v (place x))
     in ((fst v)(x := st), (snd v)(place x := pub)))"

text \<open>The same for one name that no other name of the stream shares a place with.\<close>

definition receive_for :: "string \<Rightarrow> file_entry \<Rightarrow> path_view \<Rightarrow> path_view" where
  "receive_for path f v = (if fe_Path f = path then receive_entry f v else v)"

lemma receive_at_alone:
  assumes "\<forall>e \<in> set es. place (fe_Path e) = place x \<longrightarrow> fe_Path e = x"
  shows "(fst (fold (receive_at place) es v) x, snd (fold (receive_at place) es v) (place x)) =
    fold (receive_for x) es (fst v x, snd v (place x))"
  using assms
proof (induction es arbitrary: v)
  case (Cons e es)
  have "(fst (receive_at place e v) x, snd (receive_at place e v) (place x)) = receive_for x e (fst v x, snd v (place x))"
    using Cons.prems by (auto simp: receive_at_def receive_for_def Let_def case_prod_unfold simp del: receive_entry.simps)
  then show ?case using Cons.IH [of "receive_at place e v"] Cons.prems by simp
qed simp

definition path_view :: "'z server_env \<Rightarrow> string \<Rightarrow> string \<Rightarrow> 'z push_state \<Rightarrow> path_view" where
  "path_view env h path p = (push_pending path p, push_published env h path p)"

section \<open>What one entry touches\<close>

text \<open>
  \<open>staging env target f p q\<close>: \<open>q\<close> is the staging file of the upload under way for the path of
  \<open>f\<close>, or a place where nothing is yet and that a new staging file can take.
  \<open>frame env h f p p'\<close>: handling \<open>f\<close> touched the target of its path and staging files, no other
  file and no upload of another path.
\<close>

definition staging :: "'z server_env \<Rightarrow> string \<Rightarrow> file_entry \<Rightarrow> 'z push_state \<Rightarrow> string list \<Rightarrow> bool" where
  "staging env target f p q \<longleftrightarrow>
     (case map_of (ps_partialUploads p) (fe_Path f) of
        Some up \<Rightarrow> q = cw_tmp (pu_writer up)
      | None \<Rightarrow> f_get q (ss_tree (ps_server p)) = None \<and> (\<exists>n. q = abs_comps (Dir target) @ [sv_tmps env n]))"

definition frame :: "'z server_env \<Rightarrow> string \<Rightarrow> file_entry \<Rightarrow> 'z push_state \<Rightarrow> 'z push_state \<Rightarrow> bool" where
  "frame env target f p p' \<longleftrightarrow>
     (\<forall>q. q \<noteq> abs_comps target \<longrightarrow> \<not> staging env target f p q \<longrightarrow>
        file_at q (ss_tree (ps_server p')) = file_at q (ss_tree (ps_server p))) \<and>
     (\<forall>y. y \<noteq> fe_Path f \<longrightarrow> map_of (ps_partialUploads p') y = map_of (ps_partialUploads p) y) \<and>
     (\<forall>up. map_of (ps_partialUploads p') (fe_Path f) = Some up \<longrightarrow> staging env target f p (cw_tmp (pu_writer up))) \<and>
     ps_username p' = ps_username p \<and> ps_firstBatch p' = ps_firstBatch p"

lemma frameI:
  assumes "\<And>q. q \<noteq> abs_comps target \<Longrightarrow> \<not> staging env target f p q \<Longrightarrow>
        file_at q (ss_tree (ps_server p')) = file_at q (ss_tree (ps_server p))"
    and "\<And>y. y \<noteq> fe_Path f \<Longrightarrow> map_of (ps_partialUploads p') y = map_of (ps_partialUploads p) y"
    and "\<And>up. map_of (ps_partialUploads p') (fe_Path f) = Some up \<Longrightarrow> staging env target f p (cw_tmp (pu_writer up))"
    and "ps_username p' = ps_username p" "ps_firstBatch p' = ps_firstBatch p"
  shows "frame env target f p p'"
  using assms unfolding frame_def by blast

text \<open>A new staging file lies where nothing was.\<close>

lemma new_staging:
  assumes "mkdir_all fl (abs_comps (Dir target)) (ss_tree (ps_server p)) = Inr fs1"
    and "create_temp fl (abs_comps (Dir target)) (sv_tmps env n) fs1 = Inr fs2"
    and "map_of (ps_partialUploads p) (fe_Path f) = None"
  shows "staging env target f p (abs_comps (Dir target) @ [sv_tmps env n])"
    and "q \<noteq> abs_comps (Dir target) @ [sv_tmps env n] \<Longrightarrow> file_at q fs2 = file_at q (ss_tree (ps_server p))"
proof -
  let ?tp = "abs_comps (Dir target) @ [sv_tmps env n]"
  have "f_get ?tp fs1 = None" using assms(2) by (auto simp: create_temp_def split: if_splits)
  then have "f_get ?tp (ss_tree (ps_server p)) = None" using mkdir_all_get [OF assms(1), of ?tp] by (auto split: if_splits)
  then show "staging env target f p ?tp" using assms(3) by (auto simp: staging_def)
  show "q \<noteq> ?tp \<Longrightarrow> file_at q fs2 = file_at q (ss_tree (ps_server p))"
    using create_temp_files(1) [OF assms(2), of q] mkdir_all_files [OF assms(1), of q] by simp
qed

lemma openUpload_frame:
  assumes o: "openUpload env h f p = (p1, Inr up)" and t: "push_target env h p (fe_Path f) = Inr target"
    and r: "push_ready env h (fe_Path f) p"
  shows "frame env target f p p1" "cw_target (pu_writer up) = abs_comps target"
    "staging env target f p (cw_tmp (pu_writer up))"
proof -
  have "frame env target f p p1 \<and> cw_target (pu_writer up) = abs_comps target \<and>
    staging env target f p (cw_tmp (pu_writer up))"
  proof (cases "map_of (ps_partialUploads p) (fe_Path f)")
    case (Some u)
    then have "u = up" "p1 = p" using o by (auto simp: openUpload_def)
    then show ?thesis using Some t r by (auto simp: frame_def push_ready_def upload_ok_def staging_def)
  next
    case None
    define fl where "fl = sv_fs env (ss_tick (ps_server p))"
    define tmp where "tmp = sv_tmps env (ss_tick (ps_server p))"
    have tgt: "targetPath (sv_mountPoint env) h (ps_username p) (fe_Path f) = Inr target"
      using t by (simp add: push_target_def)
    from o None obtain w t' where w:
      "NewChunkWriter fl tmp (sv_mountPoint env) h (ps_username p) (fe_Path f) (ss_tree (ps_server p)) = (t', Inr w)"
      "up = \<lparr>pu_writer = w, pu_nextOffset = 0, pu_mode = fe_Mode f\<rparr>"
      "p1 = upload_put (fe_Path f) up (p\<lparr>ps_server := (ps_server p)\<lparr>ss_tree := t', ss_tick := Suc (ss_tick (ps_server p))\<rparr>\<rparr>)"
      by (auto simp: openUpload_def bindS_eq_Inr onServer_eq onTree_eq Let_def updateS_def result_simps
          fl_def tmp_def split: if_splits)
    from w(1) obtain fs1 where fs: "mkdir_all fl (abs_comps (Dir target)) (ss_tree (ps_server p)) = Inr fs1"
      "create_temp fl (abs_comps (Dir target)) tmp fs1 = Inr t'"
      "w = \<lparr>cw_target = abs_comps target, cw_tmp = abs_comps (Dir target) @ [tmp], cw_open = True, cw_committed = False\<rparr>"
      by (auto simp: NewChunkWriter_def tgt Let_def split: sum.splits)
    note st = new_staging [OF fs(1) fs(2)[unfolded tmp_def] None]
    have p1: "ss_tree (ps_server p1) = t'" "ps_username p1 = ps_username p" "ps_firstBatch p1 = ps_firstBatch p"
      "ps_partialUploads p1 = AList.update (fe_Path f) up (ps_partialUploads p)"
      unfolding w(3) by (simp_all add: upload_put_def)
    have wr: "cw_tmp (pu_writer up) = abs_comps (Dir target) @ [sv_tmps env (ss_tick (ps_server p))]"
      "cw_target (pu_writer up) = abs_comps target"
      using w(2) fs(3) by (simp_all add: tmp_def)
    have "frame env target f p p1"
    proof (rule frameI)
      fix q assume "\<not> staging env target f p q"
      then show "file_at q (ss_tree (ps_server p1)) = file_at q (ss_tree (ps_server p))"
        using st p1(1) by metis
    qed (use p1 wr st(1) in \<open>auto simp: update_conv'\<close>)
    then show ?thesis using wr st(1) by simp
  qed
  then show "frame env target f p p1" "cw_target (pu_writer up) = abs_comps target"
    "staging env target f p (cw_tmp (pu_writer up))" by blast+
qed

text \<open>A further step on the same upload stays within the frame.\<close>

lemma frame_more:
  assumes fr: "frame env target f p p1" and st: "staging env target f p tmp"
    and "\<And>q. q \<noteq> tmp \<Longrightarrow> q \<noteq> abs_comps target \<Longrightarrow>
      file_at q (ss_tree (ps_server p2)) = file_at q (ss_tree (ps_server p1))"
    and "\<And>y. y \<noteq> fe_Path f \<Longrightarrow> map_of (ps_partialUploads p2) y = map_of (ps_partialUploads p1) y"
    and "\<And>up. map_of (ps_partialUploads p2) (fe_Path f) = Some up \<Longrightarrow> cw_tmp (pu_writer up) = tmp"
    and "ps_username p2 = ps_username p1" "ps_firstBatch p2 = ps_firstBatch p1"
  shows "frame env target f p p2"
proof (rule frameI)
  fix q assume q: "q \<noteq> abs_comps target" "\<not> staging env target f p q"
  then have "q \<noteq> tmp" using st by blast
  then show "file_at q (ss_tree (ps_server p2)) = file_at q (ss_tree (ps_server p))"
    using assms(3) [of q] q fr unfolding frame_def by metis
qed (use assms in \<open>auto simp: frame_def\<close>)

lemma writeChunk_frame:
  assumes o: "writeChunk env h f p = (p1, Inr up)" and t: "push_target env h p (fe_Path f) = Inr target"
    and r: "push_ready env h (fe_Path f) p"
  shows "frame env target f p p1" "cw_target (pu_writer up) = abs_comps target"
    "staging env target f p (cw_tmp (pu_writer up))"
proof -
  from o obtain p0 up0 where op: "openUpload env h f p = (p0, Inr up0)"
    and rest: "bindS (onServer (onTree env (\<lambda>fl tmp. ChunkWriter_Write fl (fe_Content f) (pu_writer up0)))) (\<lambda>_.
       let upload' = up0\<lparr>pu_nextOffset := pu_nextOffset up0 + of_nat (length (fe_Content f))\<rparr> in
       bindS (updateS (upload_put (fe_Path f) upload')) (\<lambda>_. returnS upload')) p0 = (p1, Inr up)"
    by (auto simp: writeChunk_def bindS_eq_Inr result_simps split: if_splits)
  define t1 where "t1 = append_file (cw_tmp (pu_writer up0)) (fe_Content f) (ss_tree (ps_server p0))"
  have up: "pu_writer up = pu_writer up0"
    and p1: "p1 = upload_put (fe_Path f) up (p0\<lparr>ps_server := (ps_server p0)\<lparr>ss_tree := t1, ss_tick := Suc (ss_tick (ps_server p0))\<rparr>\<rparr>)"
    using rest
    by (auto simp: bindS_eq_Inr onServer_eq onTree_eq Let_def updateS_def result_simps ChunkWriter_Write_def
        t1_def split: if_splits)
  have same: "file_at q t1 = file_at q (ss_tree (ps_server p0))" if "q \<noteq> cw_tmp (pu_writer up0)" for q
    unfolding t1_def using that by (rule append_file_other)
  note fr = openUpload_frame [OF op t r]
  show "frame env target f p p1"
    by (rule frame_more [OF fr(1) fr(3)]) (auto simp: p1 upload_put_def update_conv' same up)
  show "cw_target (pu_writer up) = abs_comps target" "staging env target f p (cw_tmp (pu_writer up))"
    using fr up by simp_all
qed

lemma pushChunk_frame:
  assumes o: "pushChunk env h f p = (p', Inr ())" and t: "push_target env h p (fe_Path f) = Inr target"
    and r: "push_ready env h (fe_Path f) p"
  shows "frame env target f p p'"
proof -
  from o obtain p1 up where w: "writeChunk env h f p = (p1, Inr up)"
    and c: "(if fe_FinalChunk f then commitUpload env f up p1 = (p', Inr ()) else p' = p1)"
    by (auto simp: pushChunk_def bindS_eq_Inr result_simps split: if_splits)
  note fr = writeChunk_frame [OF w t r]
  show ?thesis
  proof (cases "fe_FinalChunk f")
    case False
    then show ?thesis using c fr by auto
  next
    case True
    define fl where "fl = sv_fs env (ss_tick (ps_server p1))"
    from c True obtain t' w' where cm: "ChunkWriter_Commit fl (fe_Mode f) (pu_writer up) (ss_tree (ps_server p1)) = (t', w', Inr ())"
      and p': "p' = p1\<lparr>ps_server := (ps_server p1)\<lparr>ss_tree := t', ss_tick := Suc (ss_tick (ps_server p1))\<rparr>,
                   ps_partialUploads := AList.delete (fe_Path f) (ps_partialUploads p1)\<rparr>"
      by (auto simp: commitUpload_def bindS_eq_Inr onServer_eq onTree_eq updateS_def fl_def split: prod.splits)
    have same: "file_at q t' = file_at q (ss_tree (ps_server p1))"
      if "q \<noteq> cw_tmp (pu_writer up)" "q \<noteq> abs_comps target" for q
      using cm that fr(2) by (auto simp: ChunkWriter_Commit_def Let_def file_other split: if_splits sum.splits)
    show ?thesis
      by (rule frame_more [OF fr(1) fr(3)]) (auto simp: p' delete_conv' same)
  qed
qed

text \<open>The frame of a file, and what it does to its own path.\<close>

lemma pushFile_frame:
  assumes o: "pushFile env h f p = (p', Inr n)" and t: "push_target env h p (fe_Path f) = Inr target"
    and r: "push_ready env h (fe_Path f) p"
  shows "frame env target f p p' \<and> push_ready env h (fe_Path f) p' \<and>
    path_view env h (fe_Path f) p' = receive_entry f (path_view env h (fe_Path f) p)"
proof (cases "fe_Chunked f")
  case True
  then have c: "pushChunk env h f p = (p', Inr ())" using o by (auto simp: pushFile_def bindS_eq_Inr result_simps)
  show ?thesis
    using pushChunk_frame [OF c t r] pushChunk_ok [OF r c] True
    by (auto simp: path_view_def staged_bytes_def Let_def split: if_splits)
next
  case nc: False
  have tgt: "targetPath (sv_mountPoint env) h (ps_username p) (fe_Path f) = Inr target"
    using t by (simp add: push_target_def)
  have ne': "\<forall>k. abs_comps (Dir target) @ [sv_tmps env k] \<noteq> abs_comps target"
    using r t by (auto simp: push_ready_def)
  then have ne: "abs_comps target \<noteq> abs_comps (Dir target) @ [sv_tmps env k]" for k by metis
  have np: "map_of (ps_partialUploads p) (fe_Path f) = None"
    using o nc by (cases "map_of (ps_partialUploads p) (fe_Path f)") (auto simp: pushFile_def)
  define tree where "tree = ss_tree (ps_server p)"
  define fl where "fl = sv_fs env (ss_tick (ps_server p))"
  define tmp where "tmp = sv_tmps env (ss_tick (ps_server p))"
  show ?thesis
  proof (cases "fe_Deleted f")
    case True
    with o nc np obtain t' where d: "DeleteFile fl (sv_mountPoint env) h (ps_username p) (fe_Path f) tree = (t', Inr ())"
      and p': "p' = p\<lparr>ps_server := (ps_server p)\<lparr>ss_tree := t', ss_tick := Suc (ss_tick (ps_server p))\<rparr>\<rparr>"
      by (auto simp: pushFile_def bindS_eq_Inr onServer_eq onTree_eq result_simps tree_def fl_def)
    have same: "file_at q t' = file_at q tree" if "q \<noteq> abs_comps target" for q
      using DeleteFile_files(2) [OF d, of q] that tgt by (simp add: file_at_def)
    have gone: "file_at (abs_comps target) t' = None"
      using DeleteFile_files(1) [OF d _ tgt] by (simp add: file_at_def)
    have "frame env target f p p'"
      using np same by (intro frameI) (simp_all add: p' tree_def)
    then show ?thesis
      using np gone t ne' nc True
      by (simp add: p' path_view_def push_pending_def push_published_def push_ready_def)
  next
    case False
    with o nc np obtain t' where d: "WriteFile fl tmp (sv_mountPoint env) h (ps_username p) (fe_Path f)
        (fe_Content f) (fe_Mode f) tree = (t', Inr ())"
      and p': "p' = p\<lparr>ps_server := (ps_server p)\<lparr>ss_tree := t', ss_tick := Suc (ss_tick (ps_server p))\<rparr>\<rparr>"
      by (auto simp: pushFile_def bindS_eq_Inr onServer_eq onTree_eq result_simps tree_def fl_def tmp_def)
    note w = WriteFile_ok [OF d tgt ne[of "ss_tick (ps_server p)", folded tmp_def]]
    from d obtain fs1 fs2 where "mkdir_all fl (abs_comps (Dir target)) tree = Inr fs1"
      "create_temp fl (abs_comps (Dir target)) tmp fs1 = Inr fs2"
      by (auto simp: WriteFile_def tgt Let_def split: sum.splits if_splits)
    then have st: "staging env target f p (abs_comps (Dir target) @ [tmp])"
      unfolding tmp_def tree_def using new_staging(1) np by blast
    have "frame env target f p p'"
    proof (rule frameI)
      fix q assume "q \<noteq> abs_comps target" "\<not> staging env target f p q"
      then show "file_at q (ss_tree (ps_server p')) = file_at q (ss_tree (ps_server p))"
        using st w [of q] by (auto simp: p' tree_def)
    qed (use np in \<open>simp_all add: p'\<close>)
    then show ?thesis
      using np w [of "abs_comps target"] t ne' nc False
      by (simp add: p' path_view_def push_pending_def push_published_def push_ready_def)
  qed
qed

section \<open>All paths of a stream\<close>

text \<open>
  No place of the names \<open>X\<close> of a stream is one that the server picks for a staging file.
\<close>

definition place :: "'z server_env \<Rightarrow> string \<Rightarrow> string \<Rightarrow> string \<Rightarrow> string list" where
  "place env h u x = (case targetPath (sv_mountPoint env) h u x of Inl _ \<Rightarrow> [] | Inr t \<Rightarrow> abs_comps t)"

definition paths_apart :: "'z server_env \<Rightarrow> string \<Rightarrow> string \<Rightarrow> string set \<Rightarrow> bool" where
  "paths_apart env h u X \<longleftrightarrow> (\<forall>x \<in> X. \<forall>y \<in> X. \<forall>t t'.
     targetPath (sv_mountPoint env) h u x = Inr t \<longrightarrow> targetPath (sv_mountPoint env) h u y = Inr t' \<longrightarrow>
     (\<forall>n. abs_comps t \<noteq> abs_comps (Dir t') @ [sv_tmps env n]))"

definition uploads_apart :: "'z server_env \<Rightarrow> string \<Rightarrow> string set \<Rightarrow> 'z push_state \<Rightarrow> bool" where
  "uploads_apart env h X p \<longleftrightarrow> (\<forall>x \<in> X. \<forall>y \<in> X. \<forall>ux. map_of (ps_partialUploads p) x = Some ux \<longrightarrow>
     (\<forall>uy. x \<noteq> y \<longrightarrow> map_of (ps_partialUploads p) y = Some uy \<longrightarrow> cw_tmp (pu_writer ux) \<noteq> cw_tmp (pu_writer uy)) \<and>
     (\<forall>t. push_target env h p y = Inr t \<longrightarrow> cw_tmp (pu_writer ux) \<noteq> abs_comps t))"

definition stream_ready :: "'z server_env \<Rightarrow> string \<Rightarrow> string \<Rightarrow> string set \<Rightarrow> 'z push_state \<Rightarrow> bool" where
  "stream_ready env h u X p \<longleftrightarrow> ps_username p = u \<and> \<not> ps_firstBatch p \<and>
     (\<forall>x \<in> X. push_ready env h x p) \<and> uploads_apart env h X p"

text \<open>The uploads of another name are untouched, and so is its place when it is another one.\<close>

lemma not_staging:
  assumes a: "paths_apart env h u X" and r: "stream_ready env h u X p"
    and x: "fe_Path f \<in> X" "push_target env h p (fe_Path f) = Inr target"
    and y: "y \<in> X" "y \<noteq> fe_Path f" "push_target env h p y = Inr ty"
  shows "\<not> staging env target f p (abs_comps ty)"
    and "map_of (ps_partialUploads p) y = Some uy \<Longrightarrow>
      \<not> staging env target f p (cw_tmp (pu_writer uy)) \<and> cw_tmp (pu_writer uy) \<noteq> abs_comps target"
proof -
  have tgts: "targetPath (sv_mountPoint env) h u (fe_Path f) = Inr target" "targetPath (sv_mountPoint env) h u y = Inr ty"
    using x y r by (simp_all add: push_target_def stream_ready_def)
  have ua: "uploads_apart env h X p" using r by (simp add: stream_ready_def)
  have "abs_comps ty \<noteq> abs_comps (Dir target) @ [sv_tmps env n]" for n
    using a x y tgts unfolding paths_apart_def by blast
  moreover have "map_of (ps_partialUploads p) (fe_Path f) = Some ux \<Longrightarrow> cw_tmp (pu_writer ux) \<noteq> abs_comps ty" for ux
    using ua x y unfolding uploads_apart_def by blast
  ultimately show "\<not> staging env target f p (abs_comps ty)"
    by (auto simp: staging_def split: option.splits)
  assume uy: "map_of (ps_partialUploads p) y = Some uy"
  have "push_ready env h y p" using r y(1) by (simp add: stream_ready_def)
  then have "f_get (cw_tmp (pu_writer uy)) (ss_tree (ps_server p)) \<noteq> None"
    using uy y(3) by (auto simp: push_ready_def upload_ok_def file_at_def split: option.splits)
  moreover have "map_of (ps_partialUploads p) (fe_Path f) = Some ux \<Longrightarrow> cw_tmp (pu_writer uy) \<noteq> cw_tmp (pu_writer ux)" for ux
    using ua x y uy unfolding uploads_apart_def by metis
  moreover have "cw_tmp (pu_writer uy) \<noteq> abs_comps target"
    using ua x y uy unfolding uploads_apart_def by blast
  ultimately show "\<not> staging env target f p (cw_tmp (pu_writer uy)) \<and> cw_tmp (pu_writer uy) \<noteq> abs_comps target"
    by (auto simp: staging_def split: option.splits)
qed

lemma pushFile_other:
  assumes a: "paths_apart env h u X" and r: "stream_ready env h u X p"
    and x: "fe_Path f \<in> X" "push_target env h p (fe_Path f) = Inr target"
    and fr: "frame env target f p p'" and y: "y \<in> X" "y \<noteq> fe_Path f"
    and ty: "push_target env h p y = Inr ty"
  shows "push_ready env h y p' \<and> push_pending y p' = push_pending y p \<and>
    (abs_comps ty \<noteq> abs_comps target \<longrightarrow> push_published env h y p' = push_published env h y p)"
proof -
  have ty: "push_target env h p y = Inr ty" "\<forall>n. abs_comps (Dir ty) @ [sv_tmps env n] \<noteq> abs_comps ty"
    "\<forall>up. map_of (ps_partialUploads p) y = Some up \<longrightarrow> (\<exists>c. upload_ok (abs_comps ty) (ss_tree (ps_server p)) up c)"
    using r y(1) ty by (auto simp: stream_ready_def push_ready_def)
  note ns = not_staging [OF a r x y ty(1)]
  have u: "ps_username p' = ps_username p" and m: "map_of (ps_partialUploads p') y = map_of (ps_partialUploads p) y"
    using fr y(2) by (simp_all add: frame_def)
  have ty': "push_target env h p' y = Inr ty" using ty(1) u by (simp add: push_target_def)
  have t: "file_at (abs_comps ty) (ss_tree (ps_server p')) = file_at (abs_comps ty) (ss_tree (ps_server p))"
    if "abs_comps ty \<noteq> abs_comps target" using fr ns(1) that by (simp add: frame_def)
  have s: "file_at (cw_tmp (pu_writer uy)) (ss_tree (ps_server p')) = file_at (cw_tmp (pu_writer uy)) (ss_tree (ps_server p))"
    if "map_of (ps_partialUploads p) y = Some uy" for uy
    using fr ns(2) [OF that] by (simp add: frame_def)
  have "\<exists>c. upload_ok (abs_comps ty) (ss_tree (ps_server p')) up c"
    if "map_of (ps_partialUploads p') y = Some up" for up
  proof -
    have up: "map_of (ps_partialUploads p) y = Some up" using that m by simp
    then obtain c where "upload_ok (abs_comps ty) (ss_tree (ps_server p)) up c" using ty(3) by blast
    then have "upload_ok (abs_comps ty) (ss_tree (ps_server p')) up c" using s [OF up] by (simp add: upload_ok_def)
    then show ?thesis ..
  qed
  then have "push_ready env h y p'"
    unfolding push_ready_def using ty(2) ty' by blast
  then show ?thesis
    using m s t ty(1) ty' by (auto simp: push_pending_def push_published_def split: option.splits)
qed

text \<open>The simulation step: one entry of a stream does what the specification says, on every path.\<close>

lemma pushFile_refines:
  assumes a: "paths_apart env h u X" and r: "stream_ready env h u X p" and x: "fe_Path f \<in> X"
    and o: "pushFile env h f p = (p', Inr n)"
    and v: "\<And>y. y \<in> X \<Longrightarrow> path_view env h y p = (fst v y, snd v (place env h u y))"
  shows "stream_ready env h u X p' \<and> (\<forall>y \<in> X. path_view env h y p' =
    (fst (receive_at (place env h u) f v) y, snd (receive_at (place env h u) f v) (place env h u y)))"
proof -
  have rx: "push_ready env h (fe_Path f) p" using r x by (simp add: stream_ready_def)
  then obtain target where t: "push_target env h p (fe_Path f) = Inr target" by (auto simp: push_ready_def)
  note own = pushFile_frame [OF o t rx]
  then have fr: "frame env target f p p'" and rx': "push_ready env h (fe_Path f) p'" by blast+
  have u: "ps_username p' = ps_username p" and fb: "ps_firstBatch p' = ps_firstBatch p"
    and m: "\<And>y. y \<noteq> fe_Path f \<Longrightarrow> map_of (ps_partialUploads p') y = map_of (ps_partialUploads p) y"
    and st: "\<And>up. map_of (ps_partialUploads p') (fe_Path f) = Some up \<Longrightarrow> staging env target f p (cw_tmp (pu_writer up))"
    using fr by (auto simp: frame_def)
  note other = pushFile_other [OF a r x t fr]
  have tg: "push_target env h p' y = push_target env h p y" for y using u by (simp add: push_target_def)
  have tgt: "\<exists>ty. push_target env h p y = Inr ty" if "y \<in> X" for y
    using r that by (auto simp: stream_ready_def push_ready_def)
  have ready': "push_ready env h y p'" if "y \<in> X" for y
    using other [of y] tgt [of y] rx' that by (cases "y = fe_Path f") blast+
  have ua: "uploads_apart env h X p" using r by (simp add: stream_ready_def)
  have "uploads_apart env h X p'"
    unfolding uploads_apart_def
  proof (intro ballI allI impI conjI)
    fix y z uy assume yz: "y \<in> X" "z \<in> X" and uy: "map_of (ps_partialUploads p') y = Some uy"
    {
      fix uz assume "y \<noteq> z" and uz: "map_of (ps_partialUploads p') z = Some uz"
      then consider "y = fe_Path f" "z \<noteq> fe_Path f" | "z = fe_Path f" "y \<noteq> fe_Path f" | "y \<noteq> fe_Path f" "z \<noteq> fe_Path f"
        by blast
      then show "cw_tmp (pu_writer uy) \<noteq> cw_tmp (pu_writer uz)"
      proof cases
        case 1
        then show ?thesis
          using st [of uy] uy uz m [of z] tgt [OF yz(2)] not_staging(2) [OF a r x t yz(2)] by metis
      next
        case 2
        then show ?thesis
          using st [of uz] uy uz m [of y] tgt [OF yz(1)] not_staging(2) [OF a r x t yz(1)] by metis
      next
        case 3
        then show ?thesis using ua yz uy uz m \<open>y \<noteq> z\<close> unfolding uploads_apart_def by metis
      qed
    next
      fix tz assume tz: "push_target env h p' z = Inr tz"
      show "cw_tmp (pu_writer uy) \<noteq> abs_comps tz"
      proof (cases "y = fe_Path f")
        case True
        show ?thesis
        proof (cases "z = fe_Path f")
          case True
          then show ?thesis using rx' tz uy \<open>y = fe_Path f\<close> by (auto simp: push_ready_def upload_ok_def)
        next
          case False
          then show ?thesis using True st [of uy] uy tz tg not_staging(1) [OF a r x t yz(2)] by metis
        qed
      next
        case False
        then show ?thesis using ua yz uy tz tg m unfolding uploads_apart_def by metis
      qed
    }
  qed
  then have "stream_ready env h u X p'" using r u fb ready' by (simp add: stream_ready_def)
  moreover have "path_view env h y p' =
      (fst (receive_at (place env h u) f v) y, snd (receive_at (place env h u) f v) (place env h u y))" if y: "y \<in> X" for y
  proof -
    have pl: "place env h u y = abs_comps ty" if "push_target env h p y = Inr ty" for y ty
      using that r by (simp add: place_def push_target_def stream_ready_def)
    have mine: "path_view env h (fe_Path f) p' = receive_entry f (fst v (fe_Path f), snd v (place env h u (fe_Path f)))"
      using own v [OF x] by simp
    show ?thesis
    proof (cases "y = fe_Path f")
      case True
      then show ?thesis using mine by (simp add: receive_at_def Let_def case_prod_unfold del: receive_entry.simps)
    next
      case False
      obtain ty where ty: "push_target env h p y = Inr ty" using tgt y by blast
      note o' = other [OF y False ty]
      have pub: "push_published env h z p' = file_at (place env h u z) (ss_tree (ps_server p'))" if "push_target env h p z = Inr tz" for z tz
        using pl [OF that] that tg [of z] by (simp add: push_published_def)
      show ?thesis
      proof (cases "place env h u y = place env h u (fe_Path f)")
        case True
        then have "push_published env h y p' = push_published env h (fe_Path f) p'" using pub [OF ty] pub [OF t] by simp
        moreover have "push_published env h (fe_Path f) p' =
            snd (receive_entry f (fst v (fe_Path f), snd v (place env h u (fe_Path f))))"
          using arg_cong [OF mine, of snd] unfolding path_view_def snd_conv .
        ultimately show ?thesis
          using o' v [OF y] True False by (simp add: receive_at_def Let_def case_prod_unfold path_view_def del: receive_entry.simps)
      next
        case False
        then show ?thesis
          using o' v [OF y] \<open>y \<noteq> fe_Path f\<close> pl [OF ty] pl [OF t]
          by (simp add: receive_at_def Let_def case_prod_unfold path_view_def del: receive_entry.simps)
      qed
    qed
  qed
  ultimately show ?thesis by blast
qed

section \<open>The whole stream\<close>

lemma pushFiles_refines:
  assumes a: "paths_apart env h u X"
  shows "stream_ready env h u X p \<Longrightarrow> fe_Path ` set fs \<subseteq> X \<Longrightarrow> pushFiles env h fs n p = (p', Inr m) \<Longrightarrow>
    \<forall>y \<in> X. path_view env h y p = (fst v y, snd v (place env h u y)) \<Longrightarrow>
    stream_ready env h u X p' \<and> (\<forall>y \<in> X. path_view env h y p' =
      (fst (fold (receive_at (place env h u)) fs v) y, snd (fold (receive_at (place env h u)) fs v) (place env h u y)))"
proof (induction fs arbitrary: p n v)
  case Nil
  then show ?case by (simp add: returnS_def)
next
  case (Cons f fs)
  from Cons.prems(3) obtain p1 k where p1: "pushFile env h f p = (p1, Inr k)"
    "pushFiles env h fs (n + of_nat k) p1 = (p', Inr m)"
    by (auto simp: bindS_eq_Inr)
  have "fe_Path f \<in> X" using Cons.prems(2) by simp
  note step = pushFile_refines [where v = v, OF a Cons.prems(1) this p1(1) bspec [OF Cons.prems(4)]]
  show ?case using Cons.IH [OF _ _ p1(2), of "receive_at (place env h u) f v"] step Cons.prems(2) by simp
qed

text \<open>A state of the stream as far as the specification sees it.\<close>

definition looks :: "'z server_env \<Rightarrow> string \<Rightarrow> string \<Rightarrow> string set \<Rightarrow> stream_view \<Rightarrow> 'z push_state \<Rightarrow> bool" where
  "looks env h u X v p \<longleftrightarrow> stream_ready env h u X p \<and>
     (\<forall>y \<in> X. path_view env h y p = (fst v y, snd v (place env h u y)))"

text \<open>Only the user, the uploads and the tree count.\<close>

lemma looks_cong:
  assumes "looks env h u X g p" "ps_username p' = ps_username p" "ps_firstBatch p' = ps_firstBatch p"
    "ps_partialUploads p' = ps_partialUploads p"
    and "\<And>q. file_at q (ss_tree (ps_server p')) = file_at q (ss_tree (ps_server p))"
  shows "looks env h u X g p'"
proof -
  have t: "push_target env h p' = push_target env h p"
    using assms(2) by (simp add: push_target_def fun_eq_iff)
  have v: "path_view env h y p' = path_view env h y p" for y
    using t assms(4,5) by (simp add: path_view_def push_pending_def push_published_def split: option.split sum.split)
  have r: "push_ready env h y p' = push_ready env h y p" for y
    using t assms(4,5) by (simp add: push_ready_def upload_ok_def)
  have "uploads_apart env h X p' = uploads_apart env h X p"
    using t assms(4) by (simp add: uploads_apart_def)
  then show ?thesis using assms(1-3) v r by (simp add: looks_def stream_ready_def)
qed

lemma looks_auth_stable: "auth_stable (looks env h u X g)"
  unfolding auth_stable_def by (intro allI impI conjI) (erule looks_cong; simp)+

lemma batchFiles_looks:
  assumes a: "paths_apart env (cx_hostname cx) u X" and l: "looks env (cx_hostname cx) u X g p"
    and x: "fe_Path ` set (bb_Files b) \<subseteq> X" and o: "batchFiles env cx b e p = (p', Inr ())"
  shows "looks env (cx_hostname cx) u X (fold (receive_at (place env (cx_hostname cx) u)) (bb_Files b) g) p'"
proof -
  from o obtain p1 w where p1: "pushFiles env (cx_hostname cx) (bb_Files b) 0 p = (p1, Inr w)"
    and p': "p' = p1\<lparr>ps_acks := ps_acks p' \<rparr>"
    by (auto simp: batchFiles_def bindS_eq_Inr result_simps updateS_def)
  from pushFiles_refines [OF a _ x p1, of g] l
  have "looks env (cx_hostname cx) u X (fold (receive_at (place env (cx_hostname cx) u)) (bb_Files b) g) p1"
    by (simp add: looks_def)
  then show ?thesis by (rule looks_cong) (subst p', simp)+
qed

lemma pushTurn_batch:
  assumes "pushTurn env cx t p = (p', Inr ())"
  obtains b p1 p2 where "pt_recv t = Inr b" "usernameRe (bb_Username b)"
    "authBatch env cx b p = (p1, Inr ())" "firstBatchInit env cx b p1 = (p2, Inr ())"
    "batchFiles env cx b (pt_send t) p2 = (p', Inr ())"
proof -
  from assms obtain b where b: "pt_recv t = Inr b" "pushBatch env cx b (pt_send t) p = (p', Inr ())"
    by (auto simp: pushTurn_def failS_def split: option.splits sum.splits)
  from b(2) obtain p1 p2 where "checkBatch b p = (p, Inr ())" "authBatch env cx b p = (p1, Inr ())"
      "firstBatchInit env cx b p1 = (p2, Inr ())" "batchFiles env cx b (pt_send t) p2 = (p', Inr ())"
    using checkBatch_state by (fastforce simp: pushBatch_files bindS_eq_Inr)
  then show thesis using that b(1) checkBatch_ok by blast
qed

text \<open>The batches that a sequence of turns received.\<close>

definition received :: "push_turn list \<Rightarrow> backup_batch list \<Rightarrow> bool" where
  "received ts bs \<longleftrightarrow> map pt_recv ts = map Inr bs"

lemma pushTurns_looks:
  assumes a: "paths_apart env (cx_hostname cx) u X"
  shows "looks env (cx_hostname cx) u X g p \<Longrightarrow> received ts bs \<Longrightarrow>
    fe_Path ` set (concat (map bb_Files bs)) \<subseteq> X \<Longrightarrow> foldS (pushTurn env cx) ts p = (p', Inr ()) \<Longrightarrow>
    looks env (cx_hostname cx) u X (fold (receive_at (place env (cx_hostname cx) u)) (concat (map bb_Files bs)) g) p'"
proof (induction ts arbitrary: p bs g)
  case Nil
  then show ?case by (simp add: received_def)
next
  case (Cons t ts)
  from Cons.prems(2) obtain b bs' where bs: "bs = b # bs'" "pt_recv t = Inr b" "received ts bs'"
    by (auto simp: received_def)
  from Cons.prems(4) obtain p1 where t: "pushTurn env cx t p = (p1, Inr ())"
      "foldS (pushTurn env cx) ts p1 = (p', Inr ())"
    by (auto split: prod.splits sum.splits)
  from t(1) bs(2) obtain q1 q2 where q: "authBatch env cx b p = (q1, Inr ())" "firstBatchInit env cx b q1 = (q2, Inr ())"
    "batchFiles env cx b (pt_send t) q2 = (p1, Inr ())"
    by (auto elim: pushTurn_batch)
  have l1: "looks env (cx_hostname cx) u X g q1"
    using authBatch_keeps [OF looks_auth_stable] q(1) Cons.prems(1) by (rule keepsD)
  then have "q2 = q1" using q(2) by (auto simp: firstBatchInit_def looks_def stream_ready_def)
  with q(3) have q3: "batchFiles env cx b (pt_send t) q1 = (p1, Inr ())" by simp
  then have "looks env (cx_hostname cx) u X (fold (receive_at (place env (cx_hostname cx) u)) (bb_Files b) g) p1"
    by (intro batchFiles_looks [OF a l1 _ q3]) (use Cons.prems(3) bs(1) in auto)
  from Cons.IH [OF this bs(3) _ t(2)]
  have "looks env (cx_hostname cx) u X (fold (receive_at (place env (cx_hostname cx) u)) (concat (map bb_Files bs'))
      (fold (receive_at (place env (cx_hostname cx) u)) (bb_Files b) g)) p'"
    using Cons.prems(3) bs(1) by auto
  then show ?case using bs(1) by simp
qed

text \<open>The user's files before the stream.\<close>

definition stored :: "'z server_env \<Rightarrow> string \<Rightarrow> string \<Rightarrow> string \<Rightarrow> 'z server_state \<Rightarrow> (bytes \<times> 32 word) option" where
  "stored env h u path s =
     (case targetPath (sv_mountPoint env) h u path of
        Inl _ \<Rightarrow> None | Inr target \<Rightarrow> file_at (abs_comps target) (ss_tree s))"

text \<open>Right after the first batch is admitted nothing is staged.\<close>

lemma first_looks:
  assumes a: "paths_apart env (cx_hostname cx) u X" and u: "bb_Username b = u"
    and tg: "\<forall>x \<in> X. \<exists>t. targetPath (sv_mountPoint env) (cx_hostname cx) u x = Inr t"
    and q: "authBatch env cx b (push_start s) = (q1, Inr ())" "firstBatchInit env cx b q1 = (q2, Inr ())"
  shows "looks env (cx_hostname cx) u X (\<lambda>_. None, \<lambda>q. file_at q (ss_tree s)) q2"
proof -
  have un: "untouched s q1" using keepsD [OF authBatch_keeps [OF untouched_stable] q(1) untouched_start] .
  have inv: "push_inv (\<lambda>_. False) u (ss_tree s) q2"
    using firstBatchInit_first [OF _ _ _ q(2)] un u by (auto simp: untouched_def)
  then have "ps_partialUploads q2 = []"
    unfolding push_inv_def writer_in_def by (cases "ps_partialUploads q2") auto
  with inv have ups: "ps_partialUploads q2 = []" "ps_username q2 = u" "\<not> ps_firstBatch q2"
    and fs: "\<And>q. file_at q (ss_tree (ps_server q2)) = file_at q (ss_tree s)"
    by (simp_all add: push_inv_def outside_def)
  have "push_ready env (cx_hostname cx) x q2" if x: "x \<in> X" for x
  proof -
    obtain t where t: "targetPath (sv_mountPoint env) (cx_hostname cx) u x = Inr t" using tg x by blast
    then have "\<forall>n. abs_comps t \<noteq> abs_comps (Dir t) @ [sv_tmps env n]"
      using a x unfolding paths_apart_def by blast
    then have "\<forall>n. abs_comps (Dir t) @ [sv_tmps env n] \<noteq> abs_comps t" by metis
    then show ?thesis using t ups by (simp add: push_ready_def push_target_def)
  qed
  moreover have "path_view env (cx_hostname cx) y q2 = (None, file_at (place env (cx_hostname cx) u y) (ss_tree s))" if "y \<in> X" for y
    using ups fs tg that
    by (auto simp: path_view_def push_pending_def push_published_def push_target_def place_def split: sum.split)
  moreover have "uploads_apart env (cx_hostname cx) X q2" using ups(1) by (simp add: uploads_apart_def)
  ultimately show ?thesis using ups by (simp add: looks_def stream_ready_def)
qed

text \<open>A stream that succeeds is the fold of the entries it received.\<close>

lemma PushBackup_refines_lemma:
  assumes o: "PushBackup env cx stamp ctx turns s = (s', acks, Inr ())" and b: "received turns bs" "bs \<noteq> []"
    and u: "bb_Username (hd bs) = u"
    and X: "fe_Path ` set (concat (map bb_Files bs)) \<subseteq> X"
    and a: "paths_apart env (cx_hostname cx) u X"
    and tg: "\<forall>x \<in> X. \<exists>t. targetPath (sv_mountPoint env) (cx_hostname cx) u x = Inr t" and x: "x \<in> X"
    and v: "v = fold (receive_at (place env (cx_hostname cx) u)) (concat (map bb_Files bs)) (\<lambda>_. None, \<lambda>q. file_at q (ss_tree s))"
  shows "fst v x = None \<and> snd v (place env (cx_hostname cx) u x) = stored env (cx_hostname cx) u x s'"
proof -
  from o obtain p p' where p: "foldS (pushTurn env cx) turns (push_start s) = (p, Inr ())"
    "completeBackup env cx stamp ctx p = (p', Inr ())" "s' = abortUploads env p'"
    by (rule PushBackup_Ok)
  obtain b0 bs' where bs: "bs = b0 # bs'" using b(2) by (cases bs) auto
  then obtain t ts where ts: "turns = t # ts" "pt_recv t = Inr b0" "received ts bs'"
    using b(1) by (auto simp: received_def)
  from p(1) ts obtain p1 where t: "pushTurn env cx t (push_start s) = (p1, Inr ())"
      "foldS (pushTurn env cx) ts p1 = (p, Inr ())"
    by (auto split: prod.splits sum.splits)
  from t(1) ts(2) obtain q1 q2 where q: "authBatch env cx b0 (push_start s) = (q1, Inr ())"
    "firstBatchInit env cx b0 q1 = (q2, Inr ())" "batchFiles env cx b0 (pt_send t) q2 = (p1, Inr ())"
    by (auto elim: pushTurn_batch)
  have u0: "bb_Username b0 = u" using u bs by simp
  have x0: "fe_Path ` set (bb_Files b0) \<subseteq> X" and xs: "fe_Path ` set (concat (map bb_Files bs')) \<subseteq> X"
    using X bs by auto
  note l = pushTurns_looks [OF a batchFiles_looks [OF a first_looks [OF a u0 tg q(1,2)] x0 q(3)] ts(3) xs t(2)]
  have ups: "ps_partialUploads p = []" using p(2) by (auto simp: completeBackup_def split: if_splits)
  note c = completeBackup_state [OF p(2)]
  have s': "ss_tree s' = ss_tree (ps_server p)" using c ups p(3) by (simp add: abortUploads_def)
  have un: "ps_username p = u" using l by (simp add: looks_def stream_ready_def)
  have "path_view env (cx_hostname cx) x p = (None, stored env (cx_hostname cx) u x s')"
    using ups s' un by (simp add: path_view_def push_pending_def push_published_def push_target_def stored_def split: sum.split)
  then show ?thesis using l x bs v by (simp add: looks_def)
qed

text \<open>So on a path that no other name of the stream shares it is the fold of the entries of that path.\<close>

lemma PushBackup_path:
  assumes "PushBackup env cx stamp ctx turns s = (s', acks, Inr ())" "received turns bs" "bs \<noteq> []" "bb_Username (hd bs) = u"
    and X: "fe_Path ` set (concat (map bb_Files bs)) \<subseteq> X" and "paths_apart env (cx_hostname cx) u X"
    and tg: "\<forall>x \<in> X. \<exists>t. targetPath (sv_mountPoint env) (cx_hostname cx) u x = Inr t" and x: "x \<in> X"
    and alone: "\<forall>y \<in> X. place env (cx_hostname cx) u y = place env (cx_hostname cx) u x \<longrightarrow> y = x"
  shows "fold (receive_for x) (concat (map bb_Files bs)) (None, stored env (cx_hostname cx) u x s) =
    (None, stored env (cx_hostname cx) u x s')"
proof -
  let ?pl = "place env (cx_hostname cx) u" and ?es = "concat (map bb_Files bs)"
  have "\<forall>e \<in> set ?es. ?pl (fe_Path e) = ?pl x \<longrightarrow> fe_Path e = x" using X alone by fastforce
  note f = receive_at_alone [OF this, of "(\<lambda>_. None, \<lambda>q. file_at q (ss_tree s))"]
  have st: "file_at (?pl x) (ss_tree s) = stored env (cx_hostname cx) u x s"
    using tg x by (auto simp: place_def stored_def)
  show ?thesis
    using f PushBackup_refines_lemma [OF assms(1-8) refl] by (simp add: st)
qed

section \<open>From the agent's files to the dataset\<close>

text \<open>
  A plain path is clean, relative and inside, and its name is none the server gives staging files.
  The archive paths of a scan are plain as soon as no scanned file has such a name.
\<close>

definition plain_path :: "'z server_env \<Rightarrow> string \<Rightarrow> bool" where
  "plain_path env x \<longleftrightarrow> normals (rel_comps x) \<and> rel_comps x \<noteq> [] \<and> path_join (rel_comps x) = x \<and>
     (\<forall>n. last (rel_comps x) \<noteq> sv_tmps env n)"

lemma plain_target:
  assumes "dataset_owner (sv_mountPoint env) h u" "plain_path env x"
  shows "targetPath (sv_mountPoint env) h u x = Inr (abs_path (dataset_comps (sv_mountPoint env) h u @ rel_comps x))"
    and "normals (dataset_comps (sv_mountPoint env) h u @ rel_comps x)"
  using targetPath_ok [OF assms(1), of "rel_comps x"] assms(2) dataset_base [OF assms(1)]
  by (simp_all add: plain_path_def)

lemma plain_apart:
  assumes o: "dataset_owner (sv_mountPoint env) h u"
  shows "paths_apart env h u {x. plain_path env x}"
  unfolding paths_apart_def
proof (intro ballI allI impI, unfold mem_Collect_eq)
  fix x y t t' n assume xy: "plain_path env x" "plain_path env y"
    and t: "targetPath (sv_mountPoint env) h u x = Inr t" "targetPath (sv_mountPoint env) h u y = Inr t'"
  let ?D = "dataset_comps (sv_mountPoint env) h u"
  note px = plain_target [OF o xy(1)] and py = plain_target [OF o xy(2)]
  have tx: "t = abs_path (?D @ rel_comps x)" "abs_comps t = ?D @ rel_comps x"
    and ty: "t' = abs_path (?D @ rel_comps y)" "abs_comps t' = ?D @ rel_comps y"
    using t px py by auto
  obtain ns w where r: "rel_comps y = ns @ [w]" using xy(2) by (cases "rel_comps y" rule: rev_cases) (auto simp: plain_path_def)
  then have n: "normals (?D @ ns)" "normal w" using py(2) by auto
  have d: "abs_comps (Dir t') = ?D @ ns"
    using ty(1) r Dir_abs_path [of "?D @ ns" w] n by simp
  show "abs_comps t \<noteq> abs_comps (Dir t') @ [sv_tmps env n]"
  proof
    assume "abs_comps t = abs_comps (Dir t') @ [sv_tmps env n]"
    then have "last (abs_comps t) = sv_tmps env n" by simp
    then show False using tx(2) xy(1) unfolding plain_path_def by simp
  qed
qed

lemma plain_alone:
  assumes "dataset_owner (sv_mountPoint env) h u" "plain_path env x" "plain_path env y" "place env h u y = place env h u x"
  shows "y = x"
  using assms plain_target [OF assms(1)] by (simp add: place_def) (auto simp: plain_path_def)

text \<open>What the entries of one difference amount to.\<close>

lemma receive_cut:
  "well_cut path mode n es \<Longrightarrow> fold (receive_for path) es (st, pub) =
    (None, Some ((case st of None \<Rightarrow> '''' | Some (c, m) \<Rightarrow> c) @ concat (map fe_Content es), perm mode))"
proof (induction es arbitrary: n st)
  case (Cons e es)
  show ?case
  proof (cases "fe_FinalChunk e")
    case True
    then show ?thesis using Cons.prems by (simp add: receive_for_def Let_def)
  next
    case False
    then have "well_cut path mode (n + length (fe_Content e)) es" using Cons.prems by simp
    from Cons.IH [OF this] False Cons.prems show ?thesis by (simp add: receive_for_def Let_def)
  qed
qed simp

definition expected :: "(file_diff \<Rightarrow> bytes) \<Rightarrow> file_diff \<Rightarrow> (bytes \<times> 32 word) option" where
  "expected content d =
     (if fd_Action d = DiffDelete then None else Some (content d, perm (fi_Mode (fd_File d))))"

abbreviation diff_path :: "file_diff \<Rightarrow> string" where
  "diff_path d \<equiv> fi_Path (fd_File d)"

lemma receive_wire:
  assumes "is_large d \<Longrightarrow> fi_Size (fd_File d) = int (length (content d))"
  shows "fold (receive_for (diff_path d)) (wire_entries content d) (None, pub) = (None, expected content d)"
proof (cases "is_large d")
  case True
  then have ne: "content d \<noteq> []" using assms by (auto simp: is_large_def MaxBatchContentBytes_def)
  have l: "0 < chunk_limit" by (simp add: chunkContentBytes_def)
  show ?thesis
    using receive_cut [OF chunk_entries_well_cut [OF l ne], of "diff_path d" "fi_Mode (fd_File d)" None pub] True
    by (simp add: wire_entries_def chunk_entries_concat [OF l] expected_def is_large_def)
next
  case False
  then show ?thesis by (simp add: wire_entries_def whole_entry_def receive_for_def expected_def)
qed

lemma wire_paths: "e \<in> set (wire_entries content d) \<Longrightarrow> fe_Path e = diff_path d"
  by (auto simp: wire_entries_def whole_entry_def chunk_entries_def chunk_entry_def split: if_splits)

lemma receive_wire_other:
  assumes "x \<noteq> diff_path d"
  shows "fold (receive_for x) (wire_entries content d) v = v"
proof -
  have "fold (receive_for x) es v = v" if "\<forall>e \<in> set es. fe_Path e = diff_path d" for es
    using that assms by (induction es arbitrary: v) (auto simp: receive_for_def)
  then show ?thesis using wire_paths by blast
qed

lemma wire_entries_ne:
  assumes "is_large d \<Longrightarrow> fi_Size (fd_File d) = int (length (content d))"
  shows "wire_entries content d \<noteq> []"
proof (cases "is_large d")
  case True
  then have "content d \<noteq> []" using assms by (auto simp: is_large_def MaxBatchContentBytes_def)
  then have "well_cut (diff_path d) (fi_Mode (fd_File d)) 0 (wire_entries content d)"
    using True chunk_entries_well_cut [of chunk_limit "content d"] by (simp add: wire_entries_def chunkContentBytes_def)
  then show ?thesis by auto
qed (simp add: wire_entries_def)

text \<open>The difference that a list of differences has for a path.\<close>

definition diff_for :: "file_diff list \<Rightarrow> string \<Rightarrow> file_diff option" where
  "diff_for ds x = find (\<lambda>d. diff_path d = x) ds"

lemma receive_all:
  assumes "distinct (map diff_path ds)" "\<forall>d \<in> set ds. is_large d \<longrightarrow> fi_Size (fd_File d) = int (length (content d))"
  shows "fold (receive_for x) (concat (map (wire_entries content) ds)) (None, pub) =
    (None, case diff_for ds x of None \<Rightarrow> pub | Some d \<Rightarrow> expected content d)"
  using assms
proof (induction ds arbitrary: pub)
  case Nil
  then show ?case by (simp add: diff_for_def)
next
  case (Cons d ds)
  show ?case
  proof (cases "diff_path d = x")
    case True
    then have "diff_for ds x = None" using Cons.prems(1) by (auto simp: diff_for_def find_None_iff image_iff)
    moreover have "fold (receive_for x) (wire_entries content d) (None, pub) = (None, expected content d)"
      using receive_wire [of d content pub] Cons.prems(2) True by simp
    ultimately show ?thesis using Cons True by (simp add: diff_for_def)
  next
    case False
    then have "fold (receive_for x) (wire_entries content d) (None, pub) = (None, pub)"
      by (intro receive_wire_other) simp
    then show ?thesis using Cons False by (simp add: diff_for_def)
  qed
qed

text \<open>
  The end-to-end statement. The hypotheses about the connection are what gRPC promises: the server
  received the batches that were sent, in order, and the client saw the end of the stream because
  the server's handler returned without an error.
\<close>

lemma pushed_stored:
  assumes push: "pusher_PushBackup penv (recording cl) cfg ds c = (c', Inr ())" "ds \<noteq> []"
    and src: "list_all (source_unchanged penv cfg content) ds"
    and ds: "distinct (map diff_path ds)" "\<forall>d \<in> set ds. plain_path env (diff_path d)"
    and conn: "sent c' = sent c @ bs" "received turns bs"
    and srv: "PushBackup env cx stamp ctx turns s = (s', acks, Inr ())"
    and o: "dataset_owner (sv_mountPoint env) (cx_hostname cx) (pf_Username cfg)"
    and x: "plain_path env x"
  shows "stored env (cx_hostname cx) (pf_Username cfg) x s' =
    (case diff_for ds x of None \<Rightarrow> stored env (cx_hostname cx) (pf_Username cfg) x s | Some d \<Rightarrow> expected content d)"
proof -
  let ?h = "cx_hostname cx" and ?u = "pf_Username cfg"
  from pusher_sent [OF push(1) src] conn(1) have bs: "list_all (for_stream cfg) bs"
    "concat (map bb_Files bs) = concat (map (wire_entries content) ds)" by auto
  have large: "\<forall>d \<in> set ds. is_large d \<longrightarrow> fi_Size (fd_File d) = int (length (content d))"
    using src by (auto simp: list_all_iff source_unchanged_def is_large_def)
  have "wire_entries content (hd ds) \<noteq> []" using large push(2) by (intro wire_entries_ne) auto
  then have "concat (map bb_Files bs) \<noteq> []" unfolding bs(2) using push(2) by (cases ds) auto
  then have ne: "bs \<noteq> []" by auto
  then have u: "bb_Username (hd bs) = ?u" using bs(1) by (cases bs) (auto simp: for_stream_def)
  let ?X = "{x. plain_path env x}"
  have sub: "fe_Path ` set (concat (map bb_Files bs)) \<subseteq> ?X"
    unfolding bs(2) using ds(2) wire_paths by fastforce
  have tg: "\<forall>x \<in> ?X. \<exists>t. targetPath (sv_mountPoint env) ?h ?u x = Inr t" using plain_target(1) [OF o] by blast
  have "fold (receive_for x) (concat (map bb_Files bs)) (None, stored env ?h ?u x s) = (None, stored env ?h ?u x s')"
    using PushBackup_path [OF srv conn(2) ne u sub plain_apart [OF o] tg] x plain_alone [OF o x] by blast
  then show ?thesis unfolding bs(2) receive_all [OF ds(1) large] by simp
qed

text \<open>
  C4: A backup stream that ends with success refines the fold of its entries: at the place of every name in it, what the dataset
  holds afterwards is what folding the entries in the order received gives, where an entry moves its own name's upload
  and its place, also when other names resolve to that place, and no upload is left open. The names are those
  the receiver resolves, as long as none resolves to a place the server picks for a staging file of the stream.
\<close>

theorem PushBackup_refines:
  assumes "PushBackup env cx stamp ctx turns s = (s', acks, Inr ())" "received turns bs" "bs \<noteq> []"
    and "bb_Username (hd bs) = u" "fe_Path ` set (concat (map bb_Files bs)) \<subseteq> X"
    and "paths_apart env (cx_hostname cx) u X"
    and "\<forall>x \<in> X. \<exists>t. targetPath (sv_mountPoint env) (cx_hostname cx) u x = Inr t" "x \<in> X"
    and "v = fold (receive_at (place env (cx_hostname cx) u)) (concat (map bb_Files bs)) (\<lambda>_. None, \<lambda>q. file_at q (ss_tree s))"
  shows "fst v x = None \<and> snd v (place env (cx_hostname cx) u x) = stored env (cx_hostname cx) u x s'"
  using assms by (rule PushBackup_refines_lemma)

end
