(* ===== verification/Vault_Rules.thy ===== *)
theory Vault_Rules
  imports Vault_Config
begin

text \<open>
  \<open>pkg/rules\<close>: the user's backup rules, the confinement of their paths to the home directory,
  the merge with the server's global rules, and the store that keeps one YAML file per user.
  The YAML codec is outside the repository: \<open>enc\<close> and \<open>dec\<close> are arguments, and the lemmas
  that read back what was written assume that decoding an encoded list returns it.
\<close>

section \<open>Rules\<close>

record rule =
  Name :: string
  Paths :: "string list"
  Exclude :: "string list"
  Schedule :: string
  Enabled :: bool

definition Rule_Validate :: "rule \<Rightarrow> error option" where
  "Rule_Validate r =
     orElse (failIf (Name r = '''') (Errorf ''rule name is required''))
            (failIf (Paths r = []) (Errorf ''rule %q: at least one path is required''))"

definition ValidateUserPaths :: "string list \<Rightarrow> string \<Rightarrow> error option" where
  "ValidateUserPaths paths homeDir =
     (let cleanHome = Clean homeDir in
      if \<not> is_abs cleanHome then Some (Errorf ''user home must be an absolute path: %q'')
      else firstErr (\<lambda>path.
        if \<not> is_abs path then Some (Errorf ''user backup path must be absolute: %q'')
        else let cleanPath = Clean path in
          if cleanPath \<noteq> cleanHome \<and> \<not> prefix (cleanHome @ ''/'') cleanPath
          then Some (Errorf ''user backup path must be inside %s: %q'') else None) paths)"

lemma is_abs_Clean_iff: "is_abs (Clean p) \<longleftrightarrow> is_abs p"
proof (cases "is_abs p")
  case True
  then show ?thesis by simp
next
  case False
  have "\<not> is_abs (path_join ns)" if d: "dotdots ns" and ne: "ns \<noteq> []" for ns
  proof -
    from ne obtain w ws where ns: "ns = w # ws" by (cases ns) auto
    from d obtain n ms where nm: "ns = replicate n ''..'' @ ms" "normals ms"
      by (auto simp: dotdots_def)
    have "w = ''..'' \<or> normal w"
      using nm ns by (cases n) (auto simp: Cons_eq_append_conv)
    then have "w \<noteq> []" "hd w \<noteq> CHR ''/''"
      by (auto simp: normal_def) (cases w; auto)
    then show ?thesis unfolding ns path_join_def by (cases ws; cases w) auto
  qed
  then show ?thesis
    using False rel_comps_dotdots [of p]
    by (auto simp: Clean_def Let_def split: if_splits)
qed

text \<open>
  C38: A user's rule paths are accepted exactly when every one of them is absolute and, component by
  component after cleaning, the home directory or below it, for a home other than the root.
\<close>

lemma ValidateUserPaths_iff:
  assumes "is_abs home" "abs_comps home \<noteq> []"
  shows "ValidateUserPaths paths home = None \<longleftrightarrow>
    (\<forall>p \<in> set paths. is_abs p \<and> prefix (abs_comps home) (abs_comps p))"
proof -
  have "(Clean p = Clean home \<or> prefix (Clean home @ ''/'') (Clean p)) \<longleftrightarrow>
        prefix (abs_comps home) (abs_comps p)" if "is_abs p" for p
  proof -
    have "Clean p = Clean home \<longleftrightarrow> abs_comps p = abs_comps home"
      using abs_path_inj [of "abs_comps p" "abs_comps home"] that assms by (auto simp: Clean_abs)
    moreover have "prefix (Clean home @ ''/'') (Clean p) \<longleftrightarrow>
        (\<exists>r. r \<noteq> [] \<and> abs_comps p = abs_comps home @ r)"
      using abs_path_prefix_sep [of "abs_comps home" "abs_comps p"] that assms
      by (simp add: Clean_abs)
    ultimately show ?thesis by (auto simp: prefix_def)
  qed
  then show ?thesis
    using assms by (auto simp: ValidateUserPaths_def Let_def firstErr_None split: if_splits)
qed

lemma ValidateUserPaths_iff_witness:
  "ValidateUserPaths [''/home/alice/docs'', ''/home/alice''] ''/home/alice'' = None"
proof -
  have "abs_comps ''/home/alice'' = [''home'', ''alice'']"
    "abs_comps ''/home/alice/docs'' = [''home'', ''alice'', ''docs'']" by code_simp+
  then show ?thesis
    using ValidateUserPaths_iff [of "''/home/alice''" "[''/home/alice/docs'', ''/home/alice'']"] by simp
qed

text \<open>With the root as home directory only the root itself is accepted.\<close>

lemma ValidateUserPaths_root:
  "ValidateUserPaths [p] ''/'' = None \<longleftrightarrow> is_abs p \<and> abs_comps p = []"
proof -
  have c: "Clean ''/'' = abs_path []" by code_simp
  have "Clean p = abs_path [] \<longleftrightarrow> abs_comps p = []" if "is_abs p"
    using abs_path_inj [of "abs_comps p" "[]"] that by (auto simp: Clean_abs)
  moreover have "\<not> prefix (abs_path [] @ ''/'') (Clean p)" if "is_abs p"
    using root_prefix_sep [of "abs_comps p"] that by (simp add: Clean_abs)
  ultimately show ?thesis
    by (simp add: ValidateUserPaths_def Let_def c)
qed

section \<open>Merging with the server's rules\<close>

record merge_result =
  mg_Rules :: "rule list"
  mg_Schedule :: string
  mg_QuotaGB :: int

definition MergeUserRules ::
  "global_rule list \<Rightarrow> rule list \<Rightarrow> user_policy \<Rightarrow> string \<Rightarrow> merge_result" where
  "MergeUserRules globalRules userRules policy username =
     (let ov = map_of (up_PerUserOverrides policy) username in
      \<lparr>mg_Rules =
         map (\<lambda>gr. \<lparr>Name = gr_Name gr, Paths = gr_Paths gr, Exclude = gr_Exclude gr,
                    Schedule = '''', Enabled = True\<rparr>) globalRules @
         filter Enabled userRules,
       mg_Schedule =
         (case ov of Some o' \<Rightarrow> if uo_Schedule o' \<noteq> '''' then uo_Schedule o'
                               else up_DefaultSchedule policy
                   | None \<Rightarrow> up_DefaultSchedule policy),
       mg_QuotaGB =
         (case ov of Some o' \<Rightarrow> if uo_QuotaGB o' > 0 then uo_QuotaGB o' else up_DefaultQuotaGB policy
                   | None \<Rightarrow> up_DefaultQuotaGB policy)\<rparr>)"

lemma MergeUserRules_enabled: "list_all Enabled (mg_Rules (MergeUserRules gs us pol u))"
  by (auto simp: MergeUserRules_def Let_def list_all_iff)

lemma MergeUserRules_quota_pos:
  assumes "server_config_ok cfg"
  shows "0 < mg_QuotaGB (MergeUserRules gs us (sc_UserPolicy cfg) u)"
  using assms by (auto simp: MergeUserRules_def Let_def server_config_ok_def split: option.splits)

section \<open>One file of rules per user\<close>

datatype rule_fs_op = OpenRules | MkRulesDir | CreateRules | ChmodRules | EncodeRules

text \<open>
  The files by path. \<open>fl\<close> says which calls fail, \<open>part\<close> is what a failing encoder has
  written: \<open>os.Create\<close> truncates the file before its new content is known.
\<close>

type_synonym rule_files = "string \<Rightarrow> bytes option"
type_synonym rule_faults = "rule_fs_op \<Rightarrow> bool"

definition rules_path :: "string \<Rightarrow> string \<Rightarrow> string" where
  "rules_path baseDir username = Join [baseDir, username @ ''.yaml'']"

definition Load ::
  "(bytes \<Rightarrow> rule list result) \<Rightarrow> rule_faults \<Rightarrow> string \<Rightarrow> string \<Rightarrow> rule_files \<Rightarrow> rule list result" where
  "Load dec fl baseDir username fs =
     (case fs (rules_path baseDir username) of
        None \<Rightarrow> if fl OpenRules then Inl (Wrap ''open user rules for %q: %w'' (Errorf ''open''))
                else Inr []
      | Some content \<Rightarrow>
          if fl OpenRules then Inl (Wrap ''open user rules for %q: %w'' (Errorf ''open''))
          else mapErr (Wrap ''decode user rules for %q: %w'') (dec content))"

definition Save ::
  "(rule list \<Rightarrow> bytes) \<Rightarrow> rule_faults \<Rightarrow> bytes \<Rightarrow> string \<Rightarrow> string \<Rightarrow> rule list \<Rightarrow> rule_files \<Rightarrow>
   rule_files \<times> unit result" where
  "Save enc fl part baseDir username rules fs =
     (let p = rules_path baseDir username in
      if fl MkRulesDir then (fs, Inl (Wrap ''create rules dir: %w'' (Errorf ''mkdir'')))
      else if fl CreateRules then (fs, Inl (Wrap ''create user rules for %q: %w'' (Errorf ''create'')))
      else if fl ChmodRules then (fs(p \<mapsto> ''''), Inl (Wrap ''chmod: %w'' (Errorf ''chmod'')))
      else if fl EncodeRules then (fs(p \<mapsto> part), Inl (Wrap ''encode user rules: %w'' (Errorf ''write'')))
      else (fs(p \<mapsto> enc rules), Inr ()))"

text \<open>The three operations: load, change the list, save.\<close>

definition add_rule :: "rule \<Rightarrow> rule list \<Rightarrow> rule list result" where
  "add_rule r rules =
     (if list_ex (\<lambda>x. Name x = Name r) rules then Inl (Errorf ''rule %q already exists'')
      else Inr (rules @ [r\<lparr>Enabled := True\<rparr>]))"

definition remove_rule :: "string \<Rightarrow> rule list \<Rightarrow> rule list result" where
  "remove_rule name rules =
     (if list_ex (\<lambda>x. Name x = name) rules then Inr (filter (\<lambda>x. Name x \<noteq> name) rules)
      else Inl (Errorf ''rule %q not found''))"

fun set_first :: "string \<Rightarrow> bool \<Rightarrow> rule list \<Rightarrow> rule list option" where
  "set_first name e [] = None"
| "set_first name e (r # rs) =
     (if Name r = name then Some (r\<lparr>Enabled := e\<rparr> # rs)
      else map_option ((#) r) (set_first name e rs))"

definition enable_rule :: "string \<Rightarrow> bool \<Rightarrow> rule list \<Rightarrow> rule list result" where
  "enable_rule name e rules =
     (case set_first name e rules of Some rs \<Rightarrow> Inr rs | None \<Rightarrow> Inl (Errorf ''rule %q not found''))"

definition update_rules where
  "update_rules enc dec fl part baseDir username change fs =
     (case Load dec fl baseDir username fs of Inl e \<Rightarrow> (fs, Inl e)
      | Inr rules \<Rightarrow> (case change rules of Inl e \<Rightarrow> (fs, Inl e)
        | Inr rules' \<Rightarrow> Save enc fl part baseDir username rules' fs))"

definition Add where
  "Add enc dec fl part baseDir username r = update_rules enc dec fl part baseDir username (add_rule r)"

definition Remove where
  "Remove enc dec fl part baseDir username name =
     update_rules enc dec fl part baseDir username (remove_rule name)"

definition SetEnabled where
  "SetEnabled enc dec fl part baseDir username name e =
     update_rules enc dec fl part baseDir username (enable_rule name e)"

definition names_unique :: "rule list \<Rightarrow> bool" where
  "names_unique rules \<longleftrightarrow> distinct (map Name rules)"

lemma set_first_names: "set_first n e rs = Some rs' \<Longrightarrow> map Name rs' = map Name rs"
  by (induction rs arbitrary: rs') (auto split: if_splits)

lemma change_unique:
  "add_rule r rs = Inr rs' \<Longrightarrow> names_unique rs \<Longrightarrow> names_unique rs'"
  "remove_rule n rs = Inr rs' \<Longrightarrow> names_unique rs \<Longrightarrow> names_unique rs'"
  "enable_rule n e rs = Inr rs' \<Longrightarrow> names_unique rs \<Longrightarrow> names_unique rs'"
  by (auto simp: add_rule_def remove_rule_def enable_rule_def names_unique_def list_ex_iff
        distinct_map_filter set_first_names image_iff split: if_splits option.splits)
     (metis)+

text \<open>What a change does to the rule of a given name.\<close>

definition rule_named :: "string \<Rightarrow> rule list \<Rightarrow> rule option" where
  "rule_named n rules = List.find (\<lambda>r. Name r = n) rules"

lemma rule_named_simps [simp]:
  "rule_named n [] = None"
  "rule_named n (r # rs) = (if Name r = n then Some r else rule_named n rs)"
  by (simp_all add: rule_named_def)

lemma rule_named_None: "rule_named n rs = None \<longleftrightarrow> n \<notin> Name ` set rs"
  by (induction rs) auto

lemma add_rule_named:
  "add_rule r rs = Inr rs' \<Longrightarrow>
   rule_named n rs' = (if n = Name r then Some (r\<lparr>Enabled := True\<rparr>) else rule_named n rs)"
proof -
  assume "add_rule r rs = Inr rs'"
  then have "\<forall>x \<in> set rs. Name x \<noteq> Name r" "rs' = rs @ [r\<lparr>Enabled := True\<rparr>]"
    by (auto simp: add_rule_def list_ex_iff split: if_splits)
  then show ?thesis by (induction rs arbitrary: rs') auto
qed

lemma remove_rule_named:
  "remove_rule m rs = Inr rs' \<Longrightarrow> rule_named n rs' = (if n = m then None else rule_named n rs)"
proof -
  assume "remove_rule m rs = Inr rs'"
  then have "rs' = filter (\<lambda>x. Name x \<noteq> m) rs" by (simp add: remove_rule_def split: if_splits)
  then show ?thesis by (induction rs arbitrary: rs') auto
qed

lemma enable_rule_named:
  "enable_rule m e rs = Inr rs' \<Longrightarrow>
   rule_named n rs' = (if n = m then map_option (\<lambda>r. r\<lparr>Enabled := e\<rparr>) (rule_named n rs)
                       else rule_named n rs)"
proof -
  assume "enable_rule m e rs = Inr rs'"
  then have "set_first m e rs = Some rs'" by (simp add: enable_rule_def split: option.splits)
  then show ?thesis by (induction rs arbitrary: rs') (auto split: if_splits)
qed

text \<open>Reading back and other users.\<close>

lemma Load_Save:
  assumes "Save enc fl part baseDir u rules fs = (fs', Inr ())" "dec (enc rules) = Inr rules"
    and "\<not> fl' OpenRules"
  shows "Load dec fl' baseDir u fs' = Inr rules"
  using assms by (auto simp: Save_def Load_def Let_def split: if_splits)

lemma rules_path_inj:
  assumes "is_abs baseDir" "CHR ''/'' \<notin> set u" "CHR ''/'' \<notin> set v"
    and "rules_path baseDir u = rules_path baseDir v"
  shows "u = v"
proof -
  have n: "normal (w @ ''.yaml'')" if "CHR ''/'' \<notin> set w" for w
    using that by (cases w) (auto simp: normal_def Cons_eq_append_conv)
  have j: "rules_path baseDir w = abs_path (abs_comps baseDir @ [w @ ''.yaml''])"
    if "CHR ''/'' \<notin> set w" for w
    using Join_abs_normals [OF assms(1), of "[w @ ''.yaml'']"] n [OF that]
    by (simp add: rules_path_def path_join_def)
  have "abs_comps baseDir @ [u @ ''.yaml''] = abs_comps baseDir @ [v @ ''.yaml'']"
    using abs_path_inj [OF _ _ assms(4) [unfolded j [OF assms(2)] j [OF assms(3)]]]
      n [OF assms(2)] n [OF assms(3)] by simp
  then show ?thesis by simp
qed

lemma update_rules_state:
  assumes "p \<noteq> rules_path baseDir u"
  shows "fst (update_rules enc dec fl part baseDir u change fs) p = fs p"
  using assms by (auto simp: update_rules_def Save_def Let_def split: sum.splits)

lemma update_rules_other:
  assumes "is_abs baseDir" "CHR ''/'' \<notin> set u" "CHR ''/'' \<notin> set v" "u \<noteq> v"
  shows "Load dec fl' baseDir v (fst (update_rules enc dec fl part baseDir u change fs)) =
         Load dec fl' baseDir v fs"
proof -
  have "rules_path baseDir v \<noteq> rules_path baseDir u"
    using rules_path_inj [OF assms(1,3,2)] assms(4) by blast
  then show ?thesis by (simp add: Load_def update_rules_state)
qed

lemma update_rules_ok:
  assumes "update_rules enc dec fl part baseDir u change fs = (fs', Inr ())"
    and "\<And>rs. dec (enc rs) = Inr rs" and "\<not> fl' OpenRules"
  obtains rs rs' where "Load dec fl baseDir u fs = Inr rs" "change rs = Inr rs'"
    "Load dec fl' baseDir u fs' = Inr rs'"
  using assms Load_Save [of enc fl part baseDir u _ fs fs' dec fl']
  by (auto simp: update_rules_def split: sum.splits)

text \<open>A change that is refused, or a file that cannot be read, leaves the file as it was.\<close>

lemma update_rules_refused:
  assumes "Load dec fl baseDir u fs = Inr rs" "change rs = Inl e"
  shows "update_rules enc dec fl part baseDir u change fs = (fs, Inl e)"
  using assms by (simp add: update_rules_def)

text \<open>
  Adding, removing, enabling and disabling a rule keep the names of a user's rules unique.
\<close>

theorem rule_change_unique:
  assumes "names_unique rs"
    and "rs' \<in> {x. add_rule r rs = Inr x \<or> remove_rule n rs = Inr x \<or> enable_rule n e rs = Inr x}"
  shows "names_unique rs'"
  using assms change_unique by blast

lemma rule_change_unique_witness:
  "names_unique [\<lparr>Name = ''docs'', Paths = [''/home/a''], Exclude = [], Schedule = '''', Enabled = True\<rparr>]"
proof -
  have "add_rule \<lparr>Name = ''docs'', Paths = [''/home/a''], Exclude = [], Schedule = '''', Enabled = False\<rparr> [] =
      Inr [\<lparr>Name = ''docs'', Paths = [''/home/a''], Exclude = [], Schedule = '''', Enabled = True\<rparr>]"
    by code_simp
  then show ?thesis using rule_change_unique [of "[]"] by (fastforce simp: names_unique_def)
qed

text \<open>
  A successful change of one user's rules reads that user's list, applies the change and stores it,
  so that it is what the next load returns, and every other user loads what they had before.
\<close>

theorem user_rules_update:
  assumes "is_abs baseDir" "CHR ''/'' \<notin> set u" "CHR ''/'' \<notin> set v"
    and "update_rules enc dec fl part baseDir u change fs = (fs', Inr ())"
    and "Load dec fl baseDir u fs = Inr rs" "change rs = Inr rs'" "dec (enc rs') = Inr rs'"
    and "\<not> fl' OpenRules"
  shows "Load dec fl' baseDir v fs' = (if v = u then Inr rs' else Load dec fl' baseDir v fs)"
proof (cases "v = u")
  case True
  have "Save enc fl part baseDir u rs' fs = (fs', Inr ())"
    using assms(4,5,6) by (simp add: update_rules_def)
  from Load_Save [OF this, of dec fl'] assms(7,8) show ?thesis using True by simp
next
  case False
  then show ?thesis
    using update_rules_other [OF assms(1,2,3), of dec fl' enc fl part change fs] assms(4) by auto
qed

lemma user_rules_update_witness:
  "\<exists>fs'. Load (\<lambda>b. if b = '''' then Inr [] else Inl (Errorf ''x'')) (\<lambda>_. False) ''/rules'' ''bob'' fs' = Inr []"
proof -
  let ?r = "\<lparr>Name = ''d'', Paths = [], Exclude = [], Schedule = '''', Enabled = True\<rparr>"
  let ?dec = "\<lambda>b. if b = '''' then Inr [] else if b = ''r'' then Inr [?r] else Inl (Errorf ''x'')"
  let ?enc = "\<lambda>rs. if rs = [] then '''' else ''r''"
  let ?fs = "(\<lambda>_. Some ''''):: rule_files"
  obtain fs' where "update_rules ?enc ?dec (\<lambda>_. False) '''' ''/rules'' ''alice'' (\<lambda>_. Inr [?r]) ?fs = (fs', Inr ())"
    by (simp add: update_rules_def Load_def Save_def Let_def)
  moreover have "?dec (?enc [?r]) = Inr [?r]" by simp
  ultimately have "Load ?dec (\<lambda>_. False) ''/rules'' ''bob'' fs' = Load ?dec (\<lambda>_. False) ''/rules'' ''bob'' ?fs"
    using user_rules_update [of "''/rules''" "''alice''" "''bob''" ?enc ?dec "\<lambda>_. False" "''''" "\<lambda>_. Inr [?r]" ?fs fs' "[]" "[?r]" "\<lambda>_. False"]
    by (simp add: Load_def)
  then show ?thesis
    by (auto simp: Load_def mapErr_def split: sum.splits option.splits if_splits)
qed

end
