(* ===== verification/Vault_Sync.thy ===== *)
theory Vault_Sync
  imports Vault_Stream Vault_Rules Vault_PullRestore
begin

text \<open>
  \<open>internal/agent/orchestrator\<close> and \<open>internal/agent/pool\<close>: a backup task of the agent. The state
  is what the goroutines of the daemon share: the connection pool, the map of live trackers, the
  failure notifications, the agent's tables. What a task only reads (configuration, file system,
  clock, signer) is in the environment. The wire protocol is the record of steps of a remote
  server on an opaque world; a step that is called for a user takes the metadata of the call,
  which names the user's uid and groups.
\<close>

section \<open>Connections\<close>

record 'w remote_server =
  rm_backup :: "metadata \<Rightarrow> 'w backup_client"
  rm_GetGlobalConfig :: "metadata \<Rightarrow> ('w, global_config) step"
  rm_GetChallenge :: "('w, challenge) step"
  rm_GetQuotaUsage :: "metadata \<Rightarrow> quota_request \<Rightarrow> ('w, quota_usage) step"
  rm_PullRestore :: "metadata \<Rightarrow> quota_request \<Rightarrow> ('w, restore_batch result list) step"
  rm_RegisterDelegationKey :: "metadata \<Rightarrow> delegation_request \<Rightarrow> ('w, unit) step"
  rm_RemoveDelegationKey :: "metadata \<Rightarrow> delegation_request \<Rightarrow> ('w, unit) step"
  rm_RegisterTaskGrant :: "grant_request \<Rightarrow> ('w, unit) step"

record task_failure =
  tf_TaskID :: string
  tf_Username :: string
  tf_Server :: string
  tf_Reason :: string

record 'w agent_state =
  ag_clients :: "(string \<times> 'w remote_server) list"
  ag_world :: 'w
  ag_trackers :: "(string \<times> tracker) list"
  ag_notified :: "string list"
  ag_hook :: bool
  ag_hooks :: "task_failure list"
  ag_snaps :: snapshots
  ag_tasks :: tasks
  ag_tick :: nat

type_synonym ('w, 'a) agent = "('w agent_state, 'a) step"

text \<open>
  The environment: \<open>av_dial\<close> is \<open>grpc.Dial\<close>, \<open>av_text\<close> renders an error, \<open>av_root\<close> is what is
  on disk below a root, \<open>av_rules\<close> the store of user rules, \<open>av_lookup\<close> the home directory of a
  user, \<open>av_code\<close> the status code of an error and \<open>av_dur\<close> the durations of the back-off.
\<close>

record 'w agent_env =
  av_Cfg :: agent_config
  av_db :: faults
  av_sec :: int
  av_nanos :: int
  av_dial :: "string \<Rightarrow> string \<Rightarrow> 'w remote_server result"
  av_text :: "error \<Rightarrow> string"
  av_rand :: "bytes result"
  av_stamp :: string
  av_rules :: "string \<Rightarrow> rule list result"
  av_lookup :: "string \<Rightarrow> string result"
  av_cwd :: "string result"
  av_sha :: "bytes \<Rightarrow> bytes"
  av_root :: "string \<Rightarrow> dir_entry option"
  av_push :: push_env
  av_code :: "error \<Rightarrow> code"
  av_dur :: "nat \<Rightarrow> int"

definition cacheKey :: "string \<Rightarrow> string \<Rightarrow> string" where
  "cacheKey address serverName = address @ [NUL] @ serverName"

definition GetClientWithServerName ::
  "'w agent_env \<Rightarrow> string \<Rightarrow> string \<Rightarrow> ('w, 'w remote_server) agent" where
  "GetClientWithServerName env address serverName s =
     (case map_of (ag_clients s) (cacheKey address serverName) of
        Some client \<Rightarrow> (s, Inr client)
      | None \<Rightarrow>
          (case av_dial env address serverName of
             Inl e \<Rightarrow> (s, Inl (Wrap ''dial %q: %w'' e))
           | Inr client \<Rightarrow>
               (s\<lparr>ag_clients := AList.update (cacheKey address serverName) client (ag_clients s)\<rparr>, Inr client)))"

definition clientFor :: "'w agent_env \<Rightarrow> server_entry \<Rightarrow> ('w, 'w remote_server) agent" where
  "clientFor env srv = GetClientWithServerName env (se_Address srv) (se_TLSServerName srv)"

definition callRemote :: "('w, 'a) step \<Rightarrow> ('w, 'a) agent" where
  "callRemote m s = (case m (ag_world s) of (w, r) \<Rightarrow> (s\<lparr>ag_world := w\<rparr>, r))"

section \<open>Task bookkeeping\<close>

definition generateTaskID :: "'w agent_env \<Rightarrow> string \<Rightarrow> string \<Rightarrow> string result" where
  "generateTaskID env pre username =
     (case av_rand env of
        Inl e \<Rightarrow> Inl (Wrap ''generate random suffix: %w'' e)
      | Inr b \<Rightarrow> Inr (pre @ ''-'' @ av_stamp env @ ''-'' @ username @ ''-'' @ hex_encode b))"

definition onTracker :: "string \<Rightarrow> (tracker \<Rightarrow> tracker) \<Rightarrow> 'w agent_state \<Rightarrow> 'w agent_state" where
  "onTracker taskID f s =
     (case map_of (ag_trackers s) taskID of
        None \<Rightarrow> s
      | Some t \<Rightarrow> s\<lparr>ag_trackers := AList.update taskID (f t) (ag_trackers s)\<rparr>)"

definition SetFailureHook :: "bool \<Rightarrow> 'w agent_state \<Rightarrow> 'w agent_state" where
  "SetFailureHook on s = s\<lparr>ag_hook := on\<rparr>"

text \<open>A database statement whose error the code drops.\<close>

definition tryTasks :: "(tasks \<Rightarrow> tasks result) \<Rightarrow> 'w agent_state \<Rightarrow> 'w agent_state" where
  "tryTasks f s = (case f (ag_tasks s) of Inl _ \<Rightarrow> s | Inr t \<Rightarrow> s\<lparr>ag_tasks := t\<rparr>)"

definition notifyFailure :: "task_failure \<Rightarrow> 'w agent_state \<Rightarrow> 'w agent_state" where
  "notifyFailure tf s =
     (if tf_TaskID tf \<in> set (ag_notified s) then s
      else s\<lparr>ag_notified := tf_TaskID tf # ag_notified s,
             ag_hooks := (if ag_hook s then ag_hooks s @ [tf] else ag_hooks s)\<rparr>)"

definition markFailed ::
  "'w agent_env \<Rightarrow> string \<Rightarrow> string \<Rightarrow> string \<Rightarrow> error option \<Rightarrow> 'w agent_state \<Rightarrow> 'w agent_state" where
  "markFailed env taskID username server cause s =
     (let reason = (case cause of None \<Rightarrow> ''task failed'' | Some e \<Rightarrow> av_text env e);
          s1 = onTracker taskID (SetPhase FAILED) s;
          s2 = tryTasks (UpdateTaskFailure (av_db env) (av_sec env) taskID reason) s1
      in notifyFailure \<lparr>tf_TaskID = taskID, tf_Username = username, tf_Server = server, tf_Reason = reason\<rparr> s2)"

section \<open>Rules of a sync\<close>

definition filterRulesByName :: "rule list \<Rightarrow> string \<Rightarrow> rule list" where
  "filterRulesByName rs ruleName = (if ruleName = '''' then rs else filter (\<lambda>r. Name r = ruleName) rs)"

definition machineRulesFromConfig :: "machine_rule list \<Rightarrow> string \<Rightarrow> rule list" where
  "machineRulesFromConfig machineRules ruleName =
     map (\<lambda>r. \<lparr>Name = mr_Name r, Paths = mr_Paths r, Exclude = mr_Exclude r, Schedule = mr_Schedule r, Enabled = True\<rparr>)
       (filter (\<lambda>r. mr_Enabled r \<and> \<not> (ruleName \<noteq> '''' \<and> mr_Name r \<noteq> ruleName)) machineRules)"

definition convertUserPolicy :: "pb_policy option \<Rightarrow> user_policy" where
  "convertUserPolicy pb =
     (case pb of
        None \<Rightarrow> \<lparr>up_DefaultSchedule = '''', up_DefaultQuotaGB = 0, up_PerUserOverrides = []\<rparr>
      | Some p \<Rightarrow> \<lparr>up_DefaultSchedule = pp_DefaultSchedule p, up_DefaultQuotaGB = pp_DefaultQuotaGb p,
          up_PerUserOverrides = map (\<lambda>(name, ov). (name, \<lparr>uo_QuotaGB = uo_QuotaGB ov, uo_Schedule = uo_Schedule ov\<rparr>))
                                    (pp_PerUserOverrides p)\<rparr>)"

definition globalRulesOf :: "global_config \<Rightarrow> global_rule list" where
  "globalRulesOf gcfg = map (\<lambda>gr. \<lparr>gr_Name = gr_Name gr, gr_Paths = gr_Paths gr, gr_Exclude = gr_Exclude gr\<rparr>)
     (gc_GlobalRules gcfg)"

definition syncRulesFor ::
  "'w agent_env \<Rightarrow> 'w remote_server \<Rightarrow> string \<Rightarrow> string \<Rightarrow> rule list \<Rightarrow> metadata \<Rightarrow> ('w, rule list) agent" where
  "syncRulesFor env client username ruleName userRules md =
     (if username = ''_machine'' then returnS (machineRulesFromConfig (ac_MachineRules (av_Cfg env)) ruleName)
      else bindS (mapErrS (Wrap ''get global config from %s: %w'') (callRemote (rm_GetGlobalConfig client md))) (\<lambda>gcfg.
        returnS (mg_Rules (MergeUserRules (globalRulesOf gcfg) userRules
          (convertUserPolicy (gc_UserPolicy gcfg)) username))))"

section \<open>Differences of all roots\<close>

record root_diffs =
  rd_rootPath :: string
  rd_rootPrefix :: string
  rd_diffs :: "file_diff list"

definition permanentS :: "string \<Rightarrow> error \<Rightarrow> ('s, 'a) step" where
  "permanentS what e = failS (Permanent (Wrap what e))"

definition addScanned :: "string \<Rightarrow> int \<Rightarrow> ('w, unit) agent" where
  "addScanned taskID n = updateS (onTracker taskID (AddScanned n))"

definition diffRoot ::
  "'w agent_env \<Rightarrow> string \<Rightarrow> string \<Rightarrow> string \<Rightarrow> string list \<Rightarrow> string \<Rightarrow> ('w, root_diffs list) agent" where
  "diffRoot env taskID addr username excludes rootPath =
     (case Scan (av_sha env) (Some excludes) (av_root env rootPath) of (files, errs) \<Rightarrow>
        if errs \<noteq> [] then permanentS ''scan root %q: %w'' (hd errs)
        else bindS (addScanned taskID (int (length files))) (\<lambda>_.
          case NamespaceFiles (av_cwd env) rootPath files of
            Inl e \<Rightarrow> permanentS ''namespace root %q: %w'' e
          | Inr (rootPrefix, archivedFiles) \<Rightarrow> (\<lambda>s.
              case ComputeDiffUnderRoot (av_db env) archivedFiles (ag_snaps s) addr username rootPrefix of
                (ds, diffErrs) \<Rightarrow>
                  if diffErrs \<noteq> [] then permanentS ''compute diff for root %q: %w'' (hd diffErrs) s
                  else (s, Inr (if ds = [] then []
                                else [\<lparr>rd_rootPath = rootPath, rd_rootPrefix = rootPrefix, rd_diffs = ds\<rparr>])))))"

fun diffRoots ::
  "'w agent_env \<Rightarrow> string \<Rightarrow> string \<Rightarrow> string \<Rightarrow> string list \<Rightarrow> string list \<Rightarrow> ('w, root_diffs list) agent" where
  "diffRoots env taskID addr username excludes [] = returnS []"
| "diffRoots env taskID addr username excludes (p # ps) =
     bindS (diffRoot env taskID addr username excludes p) (\<lambda>b.
     bindS (diffRoots env taskID addr username excludes ps) (\<lambda>bs. returnS (b @ bs)))"

fun diffRules ::
  "'w agent_env \<Rightarrow> string \<Rightarrow> string \<Rightarrow> string \<Rightarrow> rule list \<Rightarrow> ('w, root_diffs list) agent" where
  "diffRules env taskID addr username [] = returnS []"
| "diffRules env taskID addr username (r # rs) =
     (if \<not> Enabled r then diffRules env taskID addr username rs
      else case Compile (Exclude r) of
        Inl e \<Rightarrow> permanentS ''compile excludes for rule %q: %w'' e
      | Inr excludes \<Rightarrow>
          bindS (diffRoots env taskID addr username excludes (Paths r)) (\<lambda>b.
          bindS (diffRules env taskID addr username rs) (\<lambda>bs. returnS (b @ bs))))"

section \<open>Pushing\<close>

text \<open>Recording what was transferred; a failing statement leaves the rows written before it.\<close>

definition snapshotOf :: "string \<Rightarrow> string \<Rightarrow> file_info \<Rightarrow> file_snapshot" where
  "snapshotOf addr username f = \<lparr>fs_ServerID = addr, fs_Username = username, fs_FilePath = fi_Path f,
     fs_Mtime = fi_Mtime f, fs_Size = fi_Size f, fs_Mode = fi_Mode f, fs_SHA256 = fi_SHA256 f, fs_SyncedAt = 0\<rparr>"

definition updateSnapshot :: "'w agent_env \<Rightarrow> string \<Rightarrow> string \<Rightarrow> file_diff \<Rightarrow> (snapshots, unit) step" where
  "updateSnapshot env addr username d t =
     (case (if fd_Action d = DiffDelete
            then mapErr (Wrap ''delete local snapshot %q: %w'')
                   (DeleteSnapshot (av_db env) addr username (fi_Path (fd_File d)) t)
            else mapErr (Wrap ''upsert local snapshot %q: %w'')
                   (UpsertSnapshot (av_db env) (av_sec env) (snapshotOf addr username (fd_File d)) t)) of
        Inl e \<Rightarrow> (t, Inl e)
      | Inr t' \<Rightarrow> (t', Inr ()))"

definition updateSnapshots :: "'w agent_env \<Rightarrow> string \<Rightarrow> string \<Rightarrow> file_diff list \<Rightarrow> (snapshots, unit) step" where
  "updateSnapshots env addr username ds = foldS (updateSnapshot env addr username) ds"

definition onSnaps :: "(snapshots, 'a) step \<Rightarrow> ('w, 'a) agent" where
  "onSnaps m s = (case m (ag_snaps s) of (t, r) \<Rightarrow> (s\<lparr>ag_snaps := t\<rparr>, r))"

record sync_job =
  sj_taskID :: string
  sj_username :: string
  sj_ruleName :: string
  sj_userRules :: "rule list"
  sj_SignFunc :: "(bytes \<Rightarrow> bytes result) option"
  sj_SignerPubKey :: "bytes option"
  sj_uid :: nat
  sj_groups :: "string list"

definition sj_meta :: "sync_job \<Rightarrow> metadata" where
  "sj_meta j = CallerMeta (sj_uid j) (sj_groups j)"

definition pushConfigFor :: "'w agent_env \<Rightarrow> sync_job \<Rightarrow> root_diffs \<Rightarrow> PushConfig" where
  "pushConfigFor env j b = \<lparr>pf_Username = sj_username j,
     pf_RuleType = (if sj_username j = ''_machine'' then ''machine'' else ''user''),
     pf_Tracker = True, pf_RootPath = rd_rootPath b, pf_PathPrefix = rd_rootPrefix b,
     pf_SignFunc = sj_SignFunc j, pf_SignerPubKey = sj_SignerPubKey j,
     pf_BandwidthLimit = ac_BandwidthLimit (av_Cfg env)\<rparr>"

definition push_client_of :: "string \<Rightarrow> 'w agent_state \<Rightarrow> 'w push_client" where
  "push_client_of taskID s = \<lparr>pc_world = ag_world s,
     pc_tracker = (case map_of (ag_trackers s) taskID of None \<Rightarrow> NewTracker 0 | Some t \<Rightarrow> t),
     pc_next = 0, pc_slept = [], pc_tick = ag_tick s\<rparr>"

definition pushDiffsToServer ::
  "'w agent_env \<Rightarrow> 'w remote_server \<Rightarrow> sync_job \<Rightarrow> root_diffs \<Rightarrow> ('w, unit) agent" where
  "pushDiffsToServer env client j b s =
     (case pusher_PushBackup (av_push env) (rm_backup client (sj_meta j)) (pushConfigFor env j b) (rd_diffs b)
             (push_client_of (sj_taskID j) s) of
        (c, r) \<Rightarrow> (onTracker (sj_taskID j) (\<lambda>_. pc_tracker c) (s\<lparr>ag_world := pc_world c, ag_tick := pc_tick c\<rparr>), r))"

definition pushRoot ::
  "'w agent_env \<Rightarrow> 'w remote_server \<Rightarrow> server_entry \<Rightarrow> sync_job \<Rightarrow> root_diffs \<Rightarrow> ('w, unit) agent" where
  "pushRoot env client srv j b =
     bindS (mapErrS (Wrap ''push %q to %s: %w'') (pushDiffsToServer env client j b)) (\<lambda>_.
     mapErrS (\<lambda>e. Permanent (Wrap ''update local snapshots after %q: %w'' e))
       (onSnaps (updateSnapshots env (se_Address srv) (sj_username j) (rd_diffs b))))"

section \<open>One attempt\<close>

definition syncToServer :: "'w agent_env \<Rightarrow> server_entry \<Rightarrow> sync_job \<Rightarrow> ('w, unit) agent" where
  "syncToServer env srv j =
     bindS (mapErrS (Wrap ''get client for %s: %w'') (clientFor env srv)) (\<lambda>client.
     bindS (syncRulesFor env client (sj_username j) (sj_ruleName j) (sj_userRules j) (sj_meta j)) (\<lambda>syncRules.
     if sj_ruleName j \<noteq> '''' \<and> syncRules = []
     then failS (Permanent (Errorf ''rule %q is not enabled or does not exist''))
     else bindS (diffRules env (sj_taskID j) (se_Address srv) (sj_username j) syncRules) (\<lambda>batches.
       let totalDiffs = int (length (concat (map rd_diffs batches))) in
       bindS (updateS (onTracker (sj_taskID j) (\<lambda>t. SetPhase TRANSFERRING (SetTotals totalDiffs totalDiffs (SetPhase SCANNING t))))) (\<lambda>_.
       foldS (pushRoot env client srv j) batches))))"

section \<open>Retries, tasks\<close>

definition attempt :: "'w agent_env \<Rightarrow> server_entry \<Rightarrow> sync_job \<Rightarrow> 'w agent_state \<Rightarrow> 'w agent_state \<times> error option" where
  "attempt env srv j s =
     (case syncToServer env srv j s of (s', Inl e) \<Rightarrow> (s', Some e) | (s', Inr _) \<Rightarrow> (s', None))"

definition syncToServerWithRetry ::
  "nat \<Rightarrow> 'w agent_env \<Rightarrow> server_entry \<Rightarrow> sync_job \<Rightarrow> 'w agent_state \<Rightarrow> 'w agent_state option" where
  "syncToServerWithRetry fuel env srv j s =
     (case retry_loop fuel (av_code env) (rc_MaxElapsedTime (ac_Retry (av_Cfg env))) (av_dur env)
             (attempt env srv j) backoff_new s of
        None \<Rightarrow> None
      | Some (s', None, ds) \<Rightarrow> Some s'
      | Some (s', Some e, ds) \<Rightarrow> Some (markFailed env (sj_taskID j) (sj_username j) (se_Address srv) (Some e) s'))"

text \<open>What runs when all servers are done.\<close>

definition completeTask :: "'w agent_env \<Rightarrow> string \<Rightarrow> 'w agent_state \<Rightarrow> 'w agent_state" where
  "completeTask env taskID s =
     (case map_of (ag_trackers s) taskID of
        None \<Rightarrow> s
      | Some t \<Rightarrow>
          if tk_Phase t = FAILED then s
          else tryTasks (UpdateTaskPhase (av_db env) (av_sec env) taskID ''COMPLETED'' '''')
                 (onTracker taskID (SetPhase COMPLETED) s))"

text \<open>The rules of a user task, or the error the task fails with.\<close>

definition loadUserRules :: "'w agent_env \<Rightarrow> string \<Rightarrow> string \<Rightarrow> rule list result" where
  "loadUserRules env username ruleName =
     (if username = ''_machine'' then Inr []
      else bindE (mapErr (Wrap ''load user rules: %w'') (av_rules env username)) (\<lambda>userRules.
        bindE (mapErr (Wrap ''lookup user home: %w'') (av_lookup env username)) (\<lambda>home.
        case firstErr (\<lambda>r. wrapErr ''validate user rule %q: %w'' (ValidateUserPaths (Paths r) home)) userRules of
          Some e \<Rightarrow> Inl e
        | None \<Rightarrow> Inr (filterRulesByName userRules ruleName))))"

text \<open>
  The part of \<open>runSync\<close> before the goroutines: the result is the job they share, or the error
  that is returned, with the identifier of the task when there is one.
\<close>

definition startSync ::
  "'w agent_env \<Rightarrow> string \<Rightarrow> string \<Rightarrow> (bytes \<Rightarrow> bytes result) option \<Rightarrow> bytes option \<Rightarrow> nat \<Rightarrow> string list \<Rightarrow>
   'w agent_state \<Rightarrow> 'w agent_state \<times> string \<times> sync_job result" where
  "startSync env username ruleName signFunc signerPubKey uid groups s =
     (if ac_Servers (av_Cfg env) = [] then (s, '''', Inl (Errorf ''no backup servers configured''))
      else if username \<noteq> ''_machine'' \<and> signFunc = None
      then (s, '''', Inl (Errorf ''user sync requires a caller SSH-agent signer''))
      else case generateTaskID env ''sync'' username of
        Inl e \<Rightarrow> (s, '''', Inl (Wrap ''generate task ID: %w'' e))
      | Inr taskID \<Rightarrow>
          (let s1 = s\<lparr>ag_trackers := AList.update taskID (NewTracker (av_nanos env)) (ag_trackers s)\<rparr> in
           case InsertTask (av_db env) (av_sec env) taskID ''all'' username (ag_tasks s1) of
             Inl e \<Rightarrow> (markFailed env taskID username '''' (Some (Wrap ''insert task record: %w'' e)) s1,
                       taskID, Inl (Wrap ''insert task record: %w'' e))
           | Inr t \<Rightarrow>
               (let s2 = s1\<lparr>ag_tasks := t\<rparr> in
                case loadUserRules env username ruleName of
                  Inl e \<Rightarrow> (markFailed env taskID username '''' (Some e) s2, taskID, Inl e)
                | Inr rs \<Rightarrow> (s2, taskID, Inr \<lparr>sj_taskID = taskID, sj_username = username, sj_ruleName = ruleName,
                    sj_userRules = rs, sj_SignFunc = signFunc, sj_SignerPubKey = signerPubKey,
                    sj_uid = uid, sj_groups = groups\<rparr>))))"

text \<open>A task key signs with the key itself as the signer.\<close>

definition RunSync :: "'w agent_env \<Rightarrow> string \<Rightarrow> string \<Rightarrow> 'w agent_state \<Rightarrow> 'w agent_state \<times> string \<times> sync_job result" where
  "RunSync env username ruleName = startSync env username ruleName None None 0 []"

definition RunSyncWithSigner where
  "RunSyncWithSigner env username ruleName signFunc uid groups = startSync env username ruleName signFunc None uid groups"

record task_key =
  ky_pub :: bytes
  ky_sign :: "bytes \<Rightarrow> bytes result"

definition RunSyncWithTaskKey ::
  "'w agent_env \<Rightarrow> string \<Rightarrow> string \<Rightarrow> task_key option \<Rightarrow> nat \<Rightarrow> string list \<Rightarrow> 'w agent_state \<Rightarrow>
   'w agent_state \<times> string \<times> sync_job result" where
  "RunSyncWithTaskKey env username ruleName taskKey uid groups s =
     (case taskKey of
        None \<Rightarrow> (s, '''', Inl (Errorf ''task key is required''))
      | Some k \<Rightarrow> startSync env username ruleName (Some (ky_sign k)) (Some (ky_pub k)) uid groups s)"

section \<open>What is recorded is what was sent\<close>

text \<open>No path has two differences.\<close>

lemma diff_snaps_distinct:
  assumes "distinct (map fs_FilePath snaps)" "distinct (map fi_Path t)"
  shows "distinct (map diff_path (fst (diff_snaps pre snaps t)) @ map fi_Path (snd (diff_snaps pre snaps t))) \<and>
    diff_path ` set (fst (diff_snaps pre snaps t)) \<subseteq> fs_FilePath ` set snaps \<and>
    set (snd (diff_snaps pre snaps t)) \<subseteq> set t"
  using assms
proof (induction pre snaps t rule: diff_snaps.induct)
  case (1 pre t)
  then show ?case by simp
next
  case (2 pre snap snaps t)
  have d: "distinct (map fs_FilePath snaps)" "fs_FilePath snap \<notin> fs_FilePath ` set snaps" using "2.prems"(1) by auto
  show ?case
  proof (cases "pre \<noteq> '''' \<and> \<not> pathInRoot (fs_FilePath snap) pre")
    case True
    then show ?thesis using "2.IH"(1) [OF True d(1) "2.prems"(2)] by auto
  next
    case sc: False
    show ?thesis
    proof (cases "row_find fi_Path (fs_FilePath snap) t")
      case None
      then have n: "fs_FilePath snap \<notin> fi_Path ` set t" by (simp add: row_find_None)
      note ih = "2.IH"(2) [OF sc None d(1) "2.prems"(2)]
      have eq: "diff_snaps pre (snap # snaps) t =
          (\<lparr>fd_File = deleted_info (fs_FilePath snap), fd_Action = DiffDelete\<rparr> # fst (diff_snaps pre snaps t),
           snd (diff_snaps pre snaps t))"
        using sc None by (auto simp: case_prod_beta)
      show ?thesis unfolding eq using ih n d(2) by (auto simp: deleted_info_def image_iff)
    next
      case (Some f)
      let ?t = "row_delete fi_Path (fs_FilePath snap) t"
      have f: "fi_Path f = fs_FilePath snap" using row_find_key [OF Some] by simp
      have td: "distinct (map fi_Path ?t)" using "2.prems"(2) by (rule distinct_row_delete)
      have n: "fs_FilePath snap \<notin> fi_Path ` set ?t" and sub: "set ?t \<subseteq> set t" by (auto simp: row_delete_def)
      note ih = "2.IH"(3) [OF sc Some d(1) td]
      have eq: "diff_snaps pre (snap # snaps) t =
          ((if same_content f snap then [] else [\<lparr>fd_File = f, fd_Action = DiffModify\<rparr>]) @ fst (diff_snaps pre snaps ?t),
           snd (diff_snaps pre snaps ?t))"
        using sc Some by (auto simp: case_prod_beta same_content_def)
      show ?thesis unfolding eq using ih n sub d(2) f by (auto simp: image_iff)
    qed
  qed
qed

lemma computeDiff_distinct:
  assumes "snaps_wf db"
  shows "distinct (map diff_path (fst (computeDiff fl scanned db sid u pre)))"
proof (cases "ListUserSnapshots fl sid u db")
  case (Inl e)
  then show ?thesis by (simp add: computeDiff_def)
next
  case (Inr rows)
  have "distinct (map diff_path (fst (diff_snaps pre rows (scanned_table scanned))) @
      map fi_Path (snd (diff_snaps pre rows (scanned_table scanned))))"
    using diff_snaps_distinct [OF user_rows(1) [OF assms Inr] scanned_table_distinct] by blast
  then show ?thesis by (simp add: computeDiff_def Inr case_prod_beta comp_def)
qed

text \<open>The snapshots after a transfer was recorded.\<close>

definition recorded :: "int \<Rightarrow> string \<Rightarrow> string \<Rightarrow> file_diff \<Rightarrow> file_snapshot option" where
  "recorded now addr u d =
     (if fd_Action d = DiffDelete then None else Some ((snapshotOf addr u (fd_File d))\<lparr>fs_SyncedAt := now\<rparr>))"

lemma updateSnapshot_find:
  assumes "updateSnapshot env addr u d t = (t', Inr ())"
  shows "row_find snap_key k t' = (if k = (addr, u, diff_path d) then recorded (av_sec env) addr u d else row_find snap_key k t)"
    and "snaps_wf t \<Longrightarrow> snaps_wf t'"
proof -
  have key: "snap_key ((snapshotOf addr u (fd_File d))\<lparr>fs_SyncedAt := n\<rparr>) = (addr, u, diff_path d)" for n
    by (simp add: snap_key_def snapshotOf_def)
  show "row_find snap_key k t' = (if k = (addr, u, diff_path d) then recorded (av_sec env) addr u d else row_find snap_key k t)"
    using assms key
    by (auto simp: updateSnapshot_def DeleteSnapshot_def UpsertSnapshot_def recorded_def mapErr_def row_find_delete
        row_find_replace split: if_splits sum.splits)
  show "snaps_wf t \<Longrightarrow> snaps_wf t'"
    using assms by (auto simp: updateSnapshot_def DeleteSnapshot_def UpsertSnapshot_def mapErr_def snaps_wf_delete
        snaps_wf_replace split: if_splits sum.splits)
qed

lemma updateSnapshots_find:
  assumes "updateSnapshots env addr u ds t = (t', Inr ())" "distinct (map diff_path ds)"
  shows "snap_of t' addr u x = (case diff_for ds x of None \<Rightarrow> snap_of t addr u x | Some d \<Rightarrow> recorded (av_sec env) addr u d)"
    and "(sid, v) \<noteq> (addr, u) \<Longrightarrow> snap_of t' sid v x = snap_of t sid v x"
    and "snaps_wf t \<Longrightarrow> snaps_wf t'"
proof -
  have "snap_of t' addr u x = (case diff_for ds x of None \<Rightarrow> snap_of t addr u x | Some d \<Rightarrow> recorded (av_sec env) addr u d) \<and>
    ((sid, v) \<noteq> (addr, u) \<longrightarrow> snap_of t' sid v x = snap_of t sid v x) \<and> (snaps_wf t \<longrightarrow> snaps_wf t')"
    using assms
  proof (induction ds arbitrary: t)
    case Nil
    then show ?case by (simp add: updateSnapshots_def diff_for_def)
  next
    case (Cons d ds)
    from Cons.prems(1) obtain t1 where t1: "updateSnapshot env addr u d t = (t1, Inr ())"
      "updateSnapshots env addr u ds t1 = (t', Inr ())"
      by (auto simp: updateSnapshots_def split: prod.splits sum.splits)
    note step = updateSnapshot_find [OF t1(1)]
    have ih: "snap_of t' addr u x = (case diff_for ds x of None \<Rightarrow> snap_of t1 addr u x | Some d \<Rightarrow> recorded (av_sec env) addr u d) \<and>
      ((sid, v) \<noteq> (addr, u) \<longrightarrow> snap_of t' sid v x = snap_of t1 sid v x) \<and> (snaps_wf t1 \<longrightarrow> snaps_wf t')"
      using Cons.IH [OF t1(2)] Cons.prems(2) by simp
    have none: "diff_path d = x \<Longrightarrow> diff_for ds x = None"
      using Cons.prems(2) by (auto simp: diff_for_def find_None_iff image_iff)
    have s1: "snap_of t1 addr u x = (if diff_path d = x then recorded (av_sec env) addr u d else snap_of t addr u x)"
      "(sid, v) \<noteq> (addr, u) \<Longrightarrow> snap_of t1 sid v x = snap_of t sid v x"
      using step(1) by (auto simp: snap_of_def)
    have df: "diff_for (d # ds) x = (if diff_path d = x then Some d else diff_for ds x)"
      by (simp add: diff_for_def)
    have "snap_of t' addr u x = (case diff_for (d # ds) x of None \<Rightarrow> snap_of t addr u x | Some d \<Rightarrow> recorded (av_sec env) addr u d)"
      using ih none unfolding df s1(1) by (simp split: option.split)
    then show ?case using ih s1(2) step(2) by metis
  qed
  then show "snap_of t' addr u x = (case diff_for ds x of None \<Rightarrow> snap_of t addr u x | Some d \<Rightarrow> recorded (av_sec env) addr u d)"
    "(sid, v) \<noteq> (addr, u) \<Longrightarrow> snap_of t' sid v x = snap_of t sid v x" "snaps_wf t \<Longrightarrow> snaps_wf t'" by blast+
qed

section \<open>The mirror\<close>

text \<open>
  \<open>mirrored env h u sha db addr s x\<close>: what the server stores for the path \<open>x\<close> is what the agent has
  recorded for it, up to the hash of the content.
\<close>

definition mirrored ::
  "'z server_env \<Rightarrow> string \<Rightarrow> string \<Rightarrow> (bytes \<Rightarrow> bytes) \<Rightarrow> snapshots \<Rightarrow> string \<Rightarrow> 'z server_state \<Rightarrow> string \<Rightarrow> bool" where
  "mirrored env h u sha db addr s x \<longleftrightarrow>
     (case snap_of db addr u x of
        None \<Rightarrow> stored env h u x s = None
      | Some sn \<Rightarrow> (case stored env h u x s of
          None \<Rightarrow> False | Some (c, m) \<Rightarrow> m = perm (fs_Mode sn) \<and> sha c = fs_SHA256 sn))"

text \<open>The content that was read is the content that was hashed.\<close>

definition hashed :: "(bytes \<Rightarrow> bytes) \<Rightarrow> (file_diff \<Rightarrow> bytes) \<Rightarrow> file_diff \<Rightarrow> bool" where
  "hashed sha content d \<longleftrightarrow> (fd_Action d \<noteq> DiffDelete \<longrightarrow> sha (content d) = fi_SHA256 (fd_File d))"

lemma sync_mirrors:
  assumes old: "mirrored senv (cx_hostname cx) (pf_Username cfg) sha db addr s x"
    and push: "pusher_PushBackup penv (recording cl) cfg ds c = (c', Inr ())" "ds \<noteq> []"
    and src: "list_all (source_unchanged penv cfg content) ds" "list_all (hashed sha content) ds"
    and ds: "distinct (map diff_path ds)" "\<forall>d \<in> set ds. plain_path senv (diff_path d)"
    and conn: "sent c' = sent c @ bs" "received turns bs"
    and srv: "PushBackup senv cx stamp ctx turns s = (s', acks, Inr ())"
    and o: "dataset_owner (sv_mountPoint senv) (cx_hostname cx) (pf_Username cfg)"
    and upd: "updateSnapshots env addr (pf_Username cfg) ds db = (db', Inr ())"
    and x: "plain_path senv x"
  shows "mirrored senv (cx_hostname cx) (pf_Username cfg) sha db' addr s' x"
proof -
  have st: "stored senv (cx_hostname cx) (pf_Username cfg) x s' =
      (case diff_for ds x of None \<Rightarrow> stored senv (cx_hostname cx) (pf_Username cfg) x s | Some d \<Rightarrow> expected content d)"
    by (rule pushed_stored [OF push src(1) ds conn srv o x])
  note sn = updateSnapshots_find(1) [OF upd ds(1), of x]
  show ?thesis
  proof (cases "diff_for ds x")
    case None
    then have "stored senv (cx_hostname cx) (pf_Username cfg) x s' = stored senv (cx_hostname cx) (pf_Username cfg) x s"
      "snap_of db' addr (pf_Username cfg) x = snap_of db addr (pf_Username cfg) x" using st sn by simp_all
    then show ?thesis using old unfolding mirrored_def by (simp only:)
  next
    case (Some d)
    then have "d \<in> set ds" by (auto simp: diff_for_def find_Some_iff)
    then have "hashed sha content d" using src(2) by (simp add: list_all_iff)
    then show ?thesis
      using st sn Some by (auto simp: mirrored_def expected_def recorded_def hashed_def snapshotOf_def)
  qed
qed

text \<open>The recorded snapshots are the scanned files as soon as these are all in scope.\<close>

lemma sync_records:
  assumes "distinct (map fi_Path scanned)" "snaps_wf db" "\<not> fl QuerySnapshots"
    and "ds = fst (computeDiff fl scanned db addr u pre)" "\<forall>f \<in> set scanned. in_scope pre (fi_Path f)"
    and "updateSnapshots env addr u ds db = (db', Inr ())"
  shows "fst (computeDiff fl scanned db' addr u pre) = []"
    and "f \<in> set scanned \<Longrightarrow> \<exists>s. snap_of db' addr u (fi_Path f) = Some s \<and> same_content f s"
    and "in_scope pre p \<Longrightarrow> p \<notin> fi_Path ` set scanned \<Longrightarrow> snap_of db' addr u p = None"
proof -
  have dd: "distinct (map diff_path ds)" unfolding assms(4) by (rule computeDiff_distinct [OF assms(2)])
  note fnd = updateSnapshots_find [OF assms(6) dd]
  have mem: "d \<in> set ds \<longleftrightarrow> is_diff scanned db addr u pre d" for d
    unfolding assms(4) by (rule computeDiff_correct(2) [where fl = fl, OF assms(1-3)])
  have for_None: "diff_for ds p = None \<longleftrightarrow> (\<forall>d. is_diff scanned db addr u pre d \<longrightarrow> diff_path d \<noteq> p)" for p
    using mem by (auto simp: diff_for_def find_None_iff)
  have for_Some: "diff_for ds p = Some d \<Longrightarrow> is_diff scanned db addr u pre d \<and> diff_path d = p" for p d
    unfolding diff_for_def find_Some_iff by (metis mem nth_mem)
  have same: "same_content g ((snapshotOf addr u g)\<lparr>fs_SyncedAt := n\<rparr>)" for g n
    by (simp add: same_content_def snapshotOf_def)
  have recs: "\<exists>s. snap_of db' addr u (fi_Path f) = Some s \<and> same_content f s" if f: "f \<in> set scanned" for f
  proof (cases "diff_for ds (fi_Path f)")
    case None
    have sc: "in_scope pre (fi_Path f)" using assms(5) f by blast
    have "\<not> is_diff scanned db addr u pre \<lparr>fd_File = f, fd_Action = DiffAdd\<rparr>"
      "\<not> is_diff scanned db addr u pre \<lparr>fd_File = f, fd_Action = DiffModify\<rparr>"
      using None unfolding for_None by force+
    then have "\<exists>s. snap_of db addr u (fi_Path f) = Some s \<and> same_content f s"
      using f sc by (auto simp: is_diff_def)
    then show ?thesis using fnd(1) [of "fi_Path f"] None by simp
  next
    case (Some d)
    note d = for_Some [OF Some]
    have "fd_Action d \<noteq> DiffDelete \<and> fd_File d \<in> set scanned"
      using d f by (auto simp: is_diff_def deleted_info_def split: diff_action.splits)
    moreover then have "fd_File d = f"
      using d f assms(1) by (metis row_find_distinct option.inject)
    ultimately have "snap_of db' addr u (fi_Path f) = Some ((snapshotOf addr u f)\<lparr>fs_SyncedAt := av_sec env\<rparr>)"
      using fnd(1) [of "fi_Path f"] Some by (simp add: recorded_def)
    then show ?thesis using same by blast
  qed
  then show "f \<in> set scanned \<Longrightarrow> \<exists>s. snap_of db' addr u (fi_Path f) = Some s \<and> same_content f s" .
  have gone: "snap_of db' addr u p = None" if p: "in_scope pre p" "p \<notin> fi_Path ` set scanned" for p
  proof (cases "diff_for ds p")
    case None
    then have "\<not> is_diff scanned db addr u pre \<lparr>fd_File = deleted_info p, fd_Action = DiffDelete\<rparr>"
      unfolding for_None by (force simp: deleted_info_def)
    then have "snap_of db addr u p = None" using p by (auto simp: is_diff_def)
    then show ?thesis using fnd(1) [of p] None by simp
  next
    case (Some d)
    note d = for_Some [OF Some]
    have "fd_Action d = DiffDelete"
      using d p by (auto simp: is_diff_def split: diff_action.splits)
    then show ?thesis using fnd(1) [of p] Some by (simp add: recorded_def)
  qed
  then show "in_scope pre p \<Longrightarrow> p \<notin> fi_Path ` set scanned \<Longrightarrow> snap_of db' addr u p = None" .
  show "fst (computeDiff fl scanned db' addr u pre) = []"
    unfolding computeDiff_empty_iff [where fl = fl, OF assms(1) fnd(3) [OF assms(2)] assms(3)]
  proof (intro conjI ballI allI impI)
    fix f assume f: "f \<in> set scanned"
    then show "in_scope pre (fi_Path f)" using assms(5) by simp
    show "\<exists>s. snap_of db' addr u (fi_Path f) = Some s \<and> same_content f s" by (rule recs [OF f])
  next
    fix p assume "in_scope pre p \<and> snap_of db' addr u p \<noteq> None"
    then show "p \<in> fi_Path ` set scanned" using gone [of p] by (cases "p \<in> fi_Path ` set scanned") simp_all
  qed
qed

section \<open>Scanning sends nothing\<close>

text \<open>While the differences are computed neither the server nor the recorded snapshots change.\<close>

definition quiet :: "'w agent_state \<Rightarrow> 'w agent_state \<Rightarrow> bool" where
  "quiet s0 s \<longleftrightarrow> ag_world s = ag_world s0 \<and> ag_snaps s = ag_snaps s0 \<and> ag_tasks s = ag_tasks s0 \<and>
     ag_hooks s = ag_hooks s0"

lemma onTracker_fields [simp]:
  "ag_world (onTracker i f s) = ag_world s" "ag_snaps (onTracker i f s) = ag_snaps s"
  "ag_tasks (onTracker i f s) = ag_tasks s" "ag_hooks (onTracker i f s) = ag_hooks s"
  "ag_notified (onTracker i f s) = ag_notified s" "ag_hook (onTracker i f s) = ag_hook s"
  "ag_clients (onTracker i f s) = ag_clients s" "ag_tick (onTracker i f s) = ag_tick s"
  by (simp_all add: onTracker_def split: option.split)

lemma quiet_refl [simp]: "quiet s s"
  by (simp add: quiet_def)

lemma addScanned_quiet [keeps_intros]: "keeps (quiet s0) (addScanned i n)"
  by (simp add: keeps_def addScanned_def updateS_def quiet_def)

lemma permanentS_quiet [keeps_intros]: "keeps P (permanentS what e)"
  by (simp add: permanentS_def keeps_fail)

lemma diffRoot_quiet [keeps_intros]: "keeps (quiet s0) (diffRoot env i addr u ex p)"
proof -
  have k: "keeps (quiet s0) (\<lambda>s. case ComputeDiffUnderRoot (av_db env) files (ag_snaps s) addr u pre of
      (ds, diffErrs) \<Rightarrow>
        if diffErrs \<noteq> [] then permanentS ''compute diff for root %q: %w'' (hd diffErrs) s
        else (s, Inr (if ds = [] then [] else [\<lparr>rd_rootPath = p, rd_rootPrefix = pre, rd_diffs = ds\<rparr>])))" for files pre
    by (auto simp: keeps_def permanentS_def failS_def split: prod.split)
  show ?thesis
    unfolding diffRoot_def
    by (auto split: prod.split sum.split intro!: keeps_intros k)
qed

lemma diffRoots_quiet [keeps_intros]: "keeps (quiet s0) (diffRoots env i addr u ex ps)"
  by (induction ps) (auto intro!: keeps_intros)

lemma diffRules_quiet: "keeps (quiet s0) (diffRules env i addr u rs)"
  by (induction rs) (auto intro!: keeps_intros split: sum.split)

text \<open>A root whose scan reports an error fails the attempt for good.\<close>

lemma diffRoot_scan_error:
  assumes "snd (Scan (av_sha env) (Some ex) (av_root env p)) \<noteq> []"
  shows "\<exists>e. diffRoot env i addr u ex p s = (s, Inl (Permanent e))"
  using assms by (auto simp: diffRoot_def permanentS_def failS_def split: prod.split)

lemma diff_errors_permanent:
  "diffRoot env i addr u ex p s = (s', Inl e) \<Longrightarrow> has_permanent e"
  "diffRoots env i addr u ex ps s = (s', Inl e) \<Longrightarrow> has_permanent e"
  "diffRules env i addr u rs s = (s', Inl e) \<Longrightarrow> has_permanent e"
proof -
  have r: "diffRoot env i addr u ex p s = (s', Inl e) \<Longrightarrow> has_permanent e" for ex p s s' e
    by (auto simp: diffRoot_def permanentS_def failS_def bindS_def addScanned_def updateS_def
        split: prod.splits sum.splits if_splits)
  have rs: "diffRoots env i addr u ex ps s = (s', Inl e) \<Longrightarrow> has_permanent e" for ex ps s s' e
  proof (induction ps arbitrary: s s')
    case (Cons p ps)
    then show ?case
      by (auto simp: bindS_def returnS_def split: prod.splits sum.splits dest: r)
  qed (simp add: returnS_def)
  show "diffRoot env i addr u ex p s = (s', Inl e) \<Longrightarrow> has_permanent e"
    "diffRoots env i addr u ex ps s = (s', Inl e) \<Longrightarrow> has_permanent e" by (rule r, assumption) (rule rs)
  show "diffRules env i addr u rs s = (s', Inl e) \<Longrightarrow> has_permanent e"
  proof (induction rs arbitrary: s s')
    case (Cons r rs')
    then show ?case
      by (auto simp: bindS_def returnS_def permanentS_def failS_def split: prod.splits sum.splits if_splits dest: rs)
  qed (simp add: returnS_def)
qed

lemma diffRoots_scan_error:
  assumes "p \<in> set ps" "snd (Scan (av_sha env) (Some ex) (av_root env p)) \<noteq> []"
  shows "\<exists>s' e. diffRoots env i addr u ex ps s = (s', Inl e)"
  using assms(1)
proof (induction ps arbitrary: s)
  case (Cons q ps)
  obtain s1 r where q: "diffRoot env i addr u ex q s = (s1, r)" by (rule prod.exhaust)
  show ?case
  proof (cases r)
    case (Inl e)
    then show ?thesis using q by (simp add: bindS_def)
  next
    case (Inr b)
    then have "q \<noteq> p" using q diffRoot_scan_error [OF assms(2), of i addr u s] by auto
    then have "p \<in> set ps" using Cons.prems by simp
    from Cons.IH [OF this, of s1] q Inr show ?thesis by (auto simp: bindS_def)
  qed
qed simp

lemma diffRules_scan_error:
  assumes "r \<in> set rs" "Enabled r" "Compile (Exclude r) = Inr ex" "p \<in> set (Paths r)"
    and "snd (Scan (av_sha env) (Some ex) (av_root env p)) \<noteq> []"
  shows "\<exists>s' e. diffRules env i addr u rs s = (s', Inl e)"
  using assms(1)
proof (induction rs arbitrary: s)
  case (Cons q rs)
  show ?case
  proof (cases "q = r")
    case True
    from diffRoots_scan_error [OF assms(4,5)] obtain s1 e where "diffRoots env i addr u ex (Paths r) s = (s1, Inl e)" by blast
    then show ?thesis using True assms(2,3) by (simp add: bindS_def)
  next
    case False
    then have ih: "\<exists>s' e. diffRules env i addr u rs s = (s', Inl e)" for s using Cons by simp
    show ?thesis
    proof (cases "\<not> Enabled q \<or> (\<exists>e. Compile (Exclude q) = Inl e)")
      case True
      then show ?thesis using ih [of s] by (auto simp: permanentS_def failS_def)
    next
      case False
      then obtain ex' where q: "Enabled q" "Compile (Exclude q) = Inr ex'" by (cases "Compile (Exclude q)") auto
      obtain s1 b where b: "diffRoots env i addr u ex' (Paths q) s = (s1, b)" by (rule prod.exhaust)
      then show ?thesis using q ih [of s1] by (cases b) (auto simp: bindS_def)
    qed
  qed
qed simp

lemma clientFor_quiet: "clientFor env srv s = (s', r) \<Longrightarrow> quiet s s'"
  by (auto simp: clientFor_def GetClientWithServerName_def quiet_def split: option.splits sum.splits)

lemma scan_error_quiet:
  assumes c: "clientFor env srv s = (s1, Inr client)"
    and r: "syncRulesFor env client (sj_username j) (sj_ruleName j) (sj_userRules j) (sj_meta j) s1 = (s2, Inr rules)"
    and m: "r \<in> set rules" "Enabled r" "Compile (Exclude r) = Inr ex" "p \<in> set (Paths r)"
    and e: "snd (Scan (av_sha env) (Some ex) (av_root env p)) \<noteq> []"
  shows "\<exists>s' err. syncToServer env srv j s = (s', Inl err) \<and> \<not> IsRetryable (av_code env) (Some err) \<and>
    ag_world s' = ag_world s2 \<and> ag_snaps s' = ag_snaps s"
proof -
  have "rules \<noteq> []" using m(1) by auto
  obtain s' err where d: "diffRules env (sj_taskID j) (se_Address srv) (sj_username j) rules s2 = (s', Inl err)"
    using diffRules_scan_error [OF m e] by blast
  have "quiet s2 s'" using diffRules_quiet d quiet_refl by (rule keepsD)
  moreover have "ag_snaps s2 = ag_snaps s1"
    using r by (auto simp: syncRulesFor_def bindS_def mapErrS_def callRemote_def returnS_def split: if_splits prod.splits sum.splits)
  moreover have "quiet s s1" using clientFor_quiet [OF c] .
  moreover have "\<not> IsRetryable (av_code env) (Some err)"
    using diff_errors_permanent(3) [OF d] by (simp add: IsRetryable_def)
  moreover have "syncToServer env srv j s = (s', Inl err)"
    unfolding syncToServer_def using c r d \<open>rules \<noteq> []\<close> by (simp add: bindS_def mapErrS_def)
  ultimately show ?thesis by (auto simp: quiet_def)
qed

section \<open>One base from the scan to the snapshots\<close>

lemma files_below_normals:
  "names_ok e \<Longrightarrow> normals p \<Longrightarrow> (ps, q, x) \<in> set (files_below p e) \<Longrightarrow> normals q"
  "names_ok_list es \<Longrightarrow> normals p \<Longrightarrow> (ps, q, x) \<in> set (files_below_list p es) \<Longrightarrow> normals q"
  by (induction p e and p es arbitrary: ps and ps rule: files_below_files_below_list.induct) (auto simp: normals_snoc)

text \<open>A scan without errors has read every file it reports.\<close>

lemma Scan_read:
  assumes "names_ok tree" "Scan sha ms (Some tree) = (files, [])" "f \<in> set files"
  obtains ps q n sz mt md c where "(ps, q, EFile n sz mt md (Some c)) \<in> set (files_below [] tree)" "normals q"
    "f = \<lparr>fi_Path = rel_of q, fi_Size = sz, fi_Mtime = mt, fi_Mode = md, fi_SHA256 = sha c\<rparr>"
proof -
  have "Scan sha ms (Some tree) = scan_entries sha (excluded_by ms) (files_below [] tree)"
    using walk_files(1) [OF assms(1), of "[]" sha "excluded_by ms"] by (simp add: Scan_walk rel_of_def)
  then have s: "scan_entries sha (excluded_by ms) (files_below [] tree) = (files, [])" using assms(2) by simp
  from s assms(3) obtain ps q x where x: "(ps, q, x) \<in> set (files_below [] tree)"
    "f \<in> set (fst (visit_leaf sha (excluded_by ms) (rel_of q) x))" "snd (visit_leaf sha (excluded_by ms) (rel_of q) x) = []"
    by (auto simp: scan_entries_def Let_def)
  from x(2,3) obtain n sz mt md c where "x = EFile n sz mt md (Some c)"
    "f = \<lparr>fi_Path = rel_of q, fi_Size = sz, fi_Mtime = mt, fi_Mode = md, fi_SHA256 = sha c\<rparr>"
    by (auto simp: visit_leaf_def split: if_splits dir_entry.splits option.splits)
  moreover have "normals q" using files_below_normals(1) [OF assms(1) _ x(1)] by simp
  ultimately show thesis using that x(1) by blast
qed

text \<open>The files of the tree are on disk below \<open>base\<close> as they are in the tree.\<close>

definition reads_tree :: "push_env \<Rightarrow> string \<Rightarrow> dir_entry \<Rightarrow> bool" where
  "reads_tree penv base tree \<longleftrightarrow>
     (\<forall>ps q n sz mt md c. (ps, q, EFile n sz mt md (Some c)) \<in> set (files_below [] tree) \<longrightarrow>
        sz = int (length c) \<and> pe_ReadFile penv (abs_path (abs_comps base @ q)) = Inr c \<and>
        (\<forall>off. pe_ReadRest penv (abs_path (abs_comps base @ q)) (int off) = Inr (drop off c)))"

lemma NamespaceFiles_scope:
  assumes "is_abs base" "NamespaceFiles cwd base files = Inr (pre, archived)" "g \<in> set archived"
  shows "in_scope pre (fi_Path g)"
proof -
  from assms(2) have pre: "pre = path_join (root_comps base)" and l: "list_all2 (\<lambda>f g. \<not> is_abs (fi_Path f) \<and>
       inside (Clean (fi_Path f)) \<and> g = f\<lparr>fi_Path := path_join (root_comps base @ rel_comps (fi_Path f))\<rparr>) files archived"
    unfolding NamespaceFiles_iff [OF assms(1)] by blast+
  from l assms(3) obtain f where f: "\<not> is_abs (fi_Path f)" "inside (Clean (fi_Path f))"
    "g = f\<lparr>fi_Path := path_join (root_comps base @ rel_comps (fi_Path f))\<rparr>"
    by (auto simp: list_all2_conv_all_nth in_set_conv_nth)
  from inside_rel_comps [OF f(1,2)] show ?thesis
    unfolding pre f(3) using in_scope_normals [OF root_comps_normals] root_comps_normals by simp
qed

lemma rel_comps_path_join: "normals ns \<Longrightarrow> ns \<noteq> [] \<Longrightarrow> rel_comps (path_join ns) = ns"
  using normals_no_sep [of ns]
  by (simp add: rel_comps_def clean_comps_def path_join_def foldl_clean_normal)

text \<open>What was scanned is what a push reads.\<close>

lemma scanned_source:
  assumes "is_abs base" "names_ok tree" "Scan sha ms (Some tree) = (files, [])"
    and "NamespaceFiles cwd base files = Inr (pre, archived)" "reads_tree penv base tree"
    and "pf_RootPath cfg = base" "pf_PathPrefix cfg = pre"
    and "\<forall>d \<in> set ds. fd_Action d \<noteq> DiffDelete \<longrightarrow> fd_File d \<in> set archived"
    and "\<forall>d \<in> set ds. fd_Action d = DiffDelete \<longrightarrow> 0 \<le> fi_Size (fd_File d)"
  obtains content where "list_all (source_unchanged penv cfg content) ds" "list_all (hashed sha content) ds"
proof -
  have one: "\<exists>c. sha c = fi_SHA256 g \<and> fi_Size g = int (length c) \<and> (\<forall>a. \<exists>p. localPath cfg \<lparr>fd_File = g, fd_Action = a\<rparr> = Inr p \<and>
      pe_ReadFile penv p = Inr c \<and> (\<forall>off. pe_ReadRest penv p (int off) = Inr (drop off c)))" if g: "g \<in> set archived" for g
  proof -
    from assms(4) have "list_all2 (\<lambda>f g. \<not> is_abs (fi_Path f) \<and> inside (Clean (fi_Path f)) \<and>
         g = f\<lparr>fi_Path := path_join (root_comps base @ rel_comps (fi_Path f))\<rparr>) files archived"
      unfolding NamespaceFiles_iff [OF assms(1)] by blast
    moreover from localPath_scanned [OF assms(1,4,6,7)] have "list_all2 (\<lambda>f g. \<forall>a. localPath cfg \<lparr>fd_File = g, fd_Action = a\<rparr> =
         Inr (abs_path (abs_comps base @ rel_comps (fi_Path f)))) files archived" .
    ultimately obtain f where f: "f \<in> set files" "inside (Clean (fi_Path f))"
      "fi_SHA256 g = fi_SHA256 f" "fi_Size g = fi_Size f"
      "\<forall>a. localPath cfg \<lparr>fd_File = g, fd_Action = a\<rparr> = Inr (abs_path (abs_comps base @ rel_comps (fi_Path f)))"
      using g by (fastforce simp: list_all2_conv_all_nth in_set_conv_nth)
    obtain ps q n sz mt md c where t: "(ps, q, EFile n sz mt md (Some c)) \<in> set (files_below [] tree)" "normals q"
      "f = \<lparr>fi_Path = rel_of q, fi_Size = sz, fi_Mtime = mt, fi_Mode = md, fi_SHA256 = sha c\<rparr>"
      by (rule Scan_read [OF assms(2,3) f(1)])
    have "\<not> inside (Clean ''.'')" by code_simp
    then have "q \<noteq> []" using f(2) t(3) by (auto simp: rel_of_def)
    then have "rel_comps (fi_Path f) = q" using t(2,3) by (simp add: rel_of_def rel_comps_path_join)
    moreover have "sz = int (length c)" "pe_ReadFile penv (abs_path (abs_comps base @ q)) = Inr c"
      "pe_ReadRest penv (abs_path (abs_comps base @ q)) (int off) = Inr (drop off c)" for off
      using assms(5) t(1) unfolding reads_tree_def by blast+
    ultimately show ?thesis using f(3-5) t(3) by (intro exI [of _ c]) simp
  qed
  then obtain cont where c: "\<And>g. g \<in> set archived \<Longrightarrow> sha (cont g) = fi_SHA256 g \<and> fi_Size g = int (length (cont g)) \<and>
      (\<forall>a. \<exists>p. localPath cfg \<lparr>fd_File = g, fd_Action = a\<rparr> = Inr p \<and> pe_ReadFile penv p = Inr (cont g) \<and>
        (\<forall>off. pe_ReadRest penv p (int off) = Inr (drop off (cont g))))"
    by metis
  let ?content = "\<lambda>d. cont (fd_File d)"
  have "source_unchanged penv cfg ?content d \<and> hashed sha ?content d" if d: "d \<in> set ds" for d
  proof (cases "fd_Action d = DiffDelete")
    case True
    then show ?thesis using assms(9) d by (simp add: source_unchanged_def hashed_def)
  next
    case False
    then have "fd_File d \<in> set archived" using assms(8) d by blast
    from c [OF this] obtain p where "sha (cont (fd_File d)) = fi_SHA256 (fd_File d)"
      "fi_Size (fd_File d) = int (length (cont (fd_File d)))"
      "localPath cfg \<lparr>fd_File = fd_File d, fd_Action = fd_Action d\<rparr> = Inr p" "pe_ReadFile penv p = Inr (cont (fd_File d))"
      "\<forall>off. pe_ReadRest penv p (int off) = Inr (drop off (cont (fd_File d)))" by blast
    then show ?thesis by (cases d) (simp add: source_unchanged_def hashed_def)
  qed
  then show thesis using that [of ?content] by (simp add: list_all_iff)
qed


text \<open>What the difference of a root consists of.\<close>

lemma diffRoot_ok:
  assumes "diffRoot env i addr u ex base s0 = (s1, Inr [b])"
  obtains files archived where "Scan (av_sha env) (Some ex) (av_root env base) = (files, [])"
    "NamespaceFiles (av_cwd env) base files = Inr (rd_rootPrefix b, archived)" "rd_rootPath b = base"
    "rd_diffs b = fst (computeDiff (av_db env) archived (ag_snaps s0) addr u (rd_rootPrefix b))" "rd_diffs b \<noteq> []"
    "\<not> av_db env QuerySnapshots" "ag_snaps s1 = ag_snaps s0"
proof -
  obtain files errs where sc: "Scan (av_sha env) (Some ex) (av_root env base) = (files, errs)" by (rule prod.exhaust)
  have e: "errs = []" using assms sc by (auto simp: diffRoot_def permanentS_def failS_def split: if_splits)
  obtain pre archived where n: "NamespaceFiles (av_cwd env) base files = Inr (pre, archived)"
    using assms sc e
    by (cases "NamespaceFiles (av_cwd env) base files")
       (auto simp: diffRoot_def permanentS_def failS_def bindS_def addScanned_def updateS_def)
  obtain ds er where c: "computeDiff (av_db env) archived (ag_snaps s0) addr u pre = (ds, er)" by (rule prod.exhaust)
  have r: "er = [] \<and> ds \<noteq> [] \<and> b = \<lparr>rd_rootPath = base, rd_rootPrefix = pre, rd_diffs = ds\<rparr> \<and> ag_snaps s1 = ag_snaps s0"
    using assms sc e n c
    by (auto simp: diffRoot_def permanentS_def failS_def bindS_def addScanned_def updateS_def ComputeDiffUnderRoot_def
        split: if_splits prod.splits)
  moreover then have "\<not> av_db env QuerySnapshots" using c by (auto simp: computeDiff_def ListUserSnapshots_def)
  ultimately show thesis using that [of files archived] sc e n c by simp
qed

lemma pushRoot_ok:
  assumes "pushRoot env client srv j b s = (s', Inr ())"
  obtains c' where "pusher_PushBackup (av_push env) (rm_backup client (sj_meta j)) (pushConfigFor env j b) (rd_diffs b)
      (push_client_of (sj_taskID j) s) = (c', Inr ())"
    "ag_world s' = pc_world c'"
    "updateSnapshots env (se_Address srv) (sj_username j) (rd_diffs b) (ag_snaps s) = (ag_snaps s', Inr ())"
proof -
  obtain c' r where p: "pusher_PushBackup (av_push env) (rm_backup client (sj_meta j)) (pushConfigFor env j b) (rd_diffs b)
      (push_client_of (sj_taskID j) s) = (c', r)" by (rule prod.exhaust)
  with assms show thesis
    using that [of c']
    by (cases r) (auto simp: pushRoot_def bindS_def mapErrS_def mapErr_def pushDiffsToServer_def onSnaps_def
        split: prod.splits sum.splits)
qed

text \<open>
  C1: A sync of one root, an absolute path, composes. Let the files below the root stay as they are from the scan until
  the push has read them, let the snapshots recorded at the scan be the ones at the push and mirror the dataset it
  meets, and let every path with a difference be plain: clean and not the name of a staging file. When the differences
  that the scan finds are pushed, the server's handler takes in what was sent, and the snapshots are updated, all without
  an error, then at the plain paths below the root the dataset holds exactly the scanned files, each with its mode and
  with content of the scanned hash; the recorded snapshots mirror the dataset again at all plain paths; and another scan
  of the same files finds nothing to send.
\<close>

theorem root_synced:
  fixes env :: "('w \<times> backup_batch list) agent_env"
  assumes scan: "diffRoot env i addr u ex base s0 = (s1, Inr [b])" "is_abs base"
    and tree: "av_root env base = Some tree" "names_ok tree" "reads_tree (av_push env) base tree"
    and files: "Scan (av_sha env) (Some ex) (Some tree) = (files, [])" "distinct (map fi_Path archived)"
      "NamespaceFiles (av_cwd env) base files = Inr (rd_rootPrefix b, archived)"
    and push: "pushRoot env client srv j b t0 = (t1, Inr ())" "ag_snaps t0 = ag_snaps s0"
    and job: "rm_backup client (sj_meta j) = recording cl" "sj_username j = u" "se_Address srv = addr"
    and plain: "\<forall>d \<in> set (rd_diffs b). plain_path senv (diff_path d)"
    and conn: "snd (ag_world t1) = snd (ag_world t0) @ bs" "received turns bs"
    and srv: "PushBackup senv cx stamp ctx turns s = (s', acks, Inr ())"
    and o: "dataset_owner (sv_mountPoint senv) (cx_hostname cx) u"
    and old: "snaps_wf (ag_snaps s0)"
      "\<forall>x. plain_path senv x \<longrightarrow> mirrored senv (cx_hostname cx) u (av_sha env) (ag_snaps s0) addr s x"
  shows "(\<forall>x. plain_path senv x \<longrightarrow> in_scope (rd_rootPrefix b) x \<longrightarrow>
      (case row_find fi_Path x archived of
         None \<Rightarrow> stored senv (cx_hostname cx) u x s' = None
       | Some f \<Rightarrow> (\<exists>c. stored senv (cx_hostname cx) u x s' = Some (c, perm (fi_Mode f)) \<and> av_sha env c = fi_SHA256 f))) \<and>
    snaps_wf (ag_snaps t1) \<and>
    (\<forall>x. plain_path senv x \<longrightarrow> mirrored senv (cx_hostname cx) u (av_sha env) (ag_snaps t1) addr s' x) \<and>
    snd (diffRoot env i addr u ex base t1) = Inr []"
proof -
  from diffRoot_ok [OF scan(1)] obtain fs ar where d: "Scan (av_sha env) (Some ex) (av_root env base) = (fs, [])"
    "NamespaceFiles (av_cwd env) base fs = Inr (rd_rootPrefix b, ar)" "rd_rootPath b = base"
    "rd_diffs b = fst (computeDiff (av_db env) ar (ag_snaps s0) addr u (rd_rootPrefix b))" "rd_diffs b \<noteq> []"
    "\<not> av_db env QuerySnapshots" .
  have eq: "fs = files" "ar = archived" using d(1,2) files tree(1) by auto
  note db = old(1) d(6) d(4) [unfolded eq]
  have scope: "\<forall>f \<in> set archived. in_scope (rd_rootPrefix b) (fi_Path f)"
    using NamespaceFiles_scope [OF scan(2) files(3)] by blast
  let ?cfg = "pushConfigFor env j b" and ?h = "cx_hostname cx"
  have cfg: "pf_RootPath ?cfg = base" "pf_PathPrefix ?cfg = rd_rootPrefix b" "pf_Username ?cfg = u"
    using d(3) job(2) by (simp_all add: pushConfigFor_def)
  from pushRoot_ok [OF push(1)] obtain c' where p: "pusher_PushBackup (av_push env) (recording cl) ?cfg (rd_diffs b)
      (push_client_of (sj_taskID j) t0) = (c', Inr ())" "ag_world t1 = pc_world c'"
    "updateSnapshots env addr u (rd_diffs b) (ag_snaps s0) = (ag_snaps t1, Inr ())"
    unfolding job push(2) .
  have mem: "d \<in> set (rd_diffs b) \<longleftrightarrow> is_diff archived (ag_snaps s0) addr u (rd_rootPrefix b) d" for d
    unfolding db(3) by (rule computeDiff_correct(2) [where fl = "av_db env", OF files(2) db(1,2)])
  have "\<forall>d \<in> set (rd_diffs b). fd_Action d \<noteq> DiffDelete \<longrightarrow> fd_File d \<in> set archived"
    "\<forall>d \<in> set (rd_diffs b). fd_Action d = DiffDelete \<longrightarrow> 0 \<le> fi_Size (fd_File d)"
    by (auto simp: mem is_diff_def deleted_info_def split: diff_action.splits)
  from scanned_source [OF scan(2) tree(2) files(1,3) tree(3) cfg(1,2) this] obtain content where
    src: "list_all (source_unchanged (av_push env) ?cfg content) (rd_diffs b)" "list_all (hashed (av_sha env) content) (rd_diffs b)" .
  have dd: "distinct (map diff_path (rd_diffs b))" unfolding db(3) by (rule computeDiff_distinct [OF db(1)])
  have sn: "sent c' = sent (push_client_of (sj_taskID j) t0) @ bs"
    using conn(1) p(2) by (simp add: push_client_of_def)
  have m: "mirrored senv ?h u (av_sha env) (ag_snaps t1) addr s' x" if "plain_path senv x" for x
    using sync_mirrors [where cfg = ?cfg, unfolded cfg(3), OF _ p(1) d(5) src dd plain sn conn(2) srv o p(3) that] old(2) that by blast
  note rec = sync_records [where fl = "av_db env", OF files(2) db(1,2,3) scope p(3)]
  have wf: "snaps_wf (ag_snaps t1)" using updateSnapshots_find(3) [OF p(3) dd] db(1) by blast
  have "diffRoot env i addr u ex base t1 = (fst (diffRoot env i addr u ex base t1), Inr [])"
    using rec(1) computeDiff_correct(1) [where fl = "av_db env", OF files(2) wf db(2)] files(3) d(1) eq
    by (simp add: diffRoot_def bindS_def addScanned_def updateS_def ComputeDiffUnderRoot_def case_prod_unfold)
  then have again: "snd (diffRoot env i addr u ex base t1) = Inr []" by (metis snd_conv)
  have "case row_find fi_Path x archived of
         None \<Rightarrow> stored senv ?h u x s' = None
       | Some f \<Rightarrow> (\<exists>c. stored senv ?h u x s' = Some (c, perm (fi_Mode f)) \<and> av_sha env c = fi_SHA256 f)"
    if x: "plain_path senv x" "in_scope (rd_rootPrefix b) x" for x
  proof (cases "row_find fi_Path x archived")
    case None
    then have "snap_of (ag_snaps t1) addr u x = None" using rec(3) [OF x(2)] by (simp add: row_find_None)
    then show ?thesis using m [OF x(1)] None by (simp add: mirrored_def)
  next
    case (Some f)
    then have "f \<in> set archived" "fi_Path f = x" using row_find_key by metis+
    then obtain sn where "snap_of (ag_snaps t1) addr u x = Some sn" "same_content f sn" using rec(2) by metis
    then show ?thesis using m [OF x(1)] Some by (auto simp: mirrored_def same_content_def split: option.splits)
  qed
  then show ?thesis using m wf again by blast
qed

end
