(* ===== verification/Vault_Tasks.thy ===== *)
theory Vault_Tasks
  imports Vault_Sync
begin

text \<open>
  The life of a backup task (\<open>internal/agent/orchestrator\<close>): the servers of a task are synced side
  by side by goroutines that share the tracker, and the last one closes the task. The goroutines
  are a step relation whose atomic steps are one attempt of one server and the completion; the
  lemmas say what the shared tracker and the task's row in the history end with. Then the lookups
  of tasks and servers.
\<close>

section \<open>The phase of a task\<close>

text \<open>
  During an attempt the tracker of the task exists and keeps its phase, except that an attempt
  that gets to pushing sets it to \<open>TRANSFERRING\<close>.
\<close>

definition phase_of :: "string \<Rightarrow> 'w agent_state \<Rightarrow> phase option" where
  "phase_of i s = map_option tk_Phase (map_of (ag_trackers s) i)"

lemma phase_onTracker:
  "phase_of i (onTracker i' f s) = (if i = i' then map_option (\<lambda>t. tk_Phase (f t)) (map_of (ag_trackers s) i) else phase_of i s)"
  by (auto simp: phase_of_def onTracker_def update_conv' split: option.split)

lemma phase_SetPhase: "phase_of i s \<noteq> None \<Longrightarrow> phase_of i (onTracker i (SetPhase p) s) = Some p"
  by (simp add: phase_onTracker) (auto simp: phase_of_def)

lemma phase_fields [simp]:
  "phase_of i (s\<lparr>ag_world := w\<rparr>) = phase_of i s" "phase_of i (s\<lparr>ag_tick := n\<rparr>) = phase_of i s"
  "phase_of i (s\<lparr>ag_snaps := t\<rparr>) = phase_of i s" "phase_of i (s\<lparr>ag_clients := cs\<rparr>) = phase_of i s"
  "phase_of i (s\<lparr>ag_tasks := ts\<rparr>) = phase_of i s" "phase_of i (s\<lparr>ag_notified := ns\<rparr>) = phase_of i s"
  "phase_of i (s\<lparr>ag_hooks := hs\<rparr>) = phase_of i s"
  by (simp_all add: phase_of_def)

text \<open>Pushing does not set another phase.\<close>

abbreviation in_phase :: "phase \<Rightarrow> 'w push_client \<Rightarrow> bool" where
  "in_phase ph c \<equiv> tk_Phase (pc_tracker c) = ph"

lemma track_phase: "(\<And>t. tk_Phase (f t) = tk_Phase t) \<Longrightarrow> keeps (in_phase ph) (track cfg f)"
  by (simp add: keeps_def track_def)

lemma push_steps_phase [keeps_intros]:
  "keeps (in_phase ph) (remote m)" "keeps (in_phase ph) (tick env)" "keeps (in_phase ph) (wait_limit env cfg n)"
  "keeps (in_phase ph) (track cfg (AddTransferred rt now files bytes))"
  "keeps (in_phase ph) (track cfg (SetCurrentFiles fs))" "keeps (in_phase ph) (track cfg (SetTotals a b))"
proof -
  show t: "keeps (in_phase ph) (tick env)" and "keeps (in_phase ph) (remote m)"
    by (simp_all add: keeps_def tick_def remote_def split: prod.split)
  show "keeps (in_phase ph) (wait_limit env cfg n)"
    unfolding wait_limit_def by (intro keeps_bind t updateS_keeps) (simp split: prod.split)
qed (rule track_phase; simp)+

lemma exchange_phase [keeps_intros]: "keeps (in_phase ph) (exchange env cl cfg n pb)"
  unfolding exchange_def by (intro keeps_intros)

text \<open>What the reading loop sends next, and how far it then is.\<close>

definition next_chunk ::
  "push_env \<Rightarrow> PushConfig \<Rightarrow> string \<Rightarrow> string \<Rightarrow> file_info \<Rightarrow> bytes \<Rightarrow> int \<Rightarrow> (backup_batch \<times> int) result" where
  "next_chunk env cfg path bid f nonce offset =
     (case pe_ReadRest env path offset of
        Inl e \<Rightarrow> Inl (Wrap ''read %q'' e)
      | Inr rest \<Rightarrow>
          (let want = min chunkContentBytes (fi_Size f - offset); piece = take (nat want) rest;
               n = int (length piece)
           in if n = 0 then Inl (Errorf ''read %q: file changed while preparing chunks'')
              else if n < want \<and> offset + n \<noteq> fi_Size f
              then Inl (Errorf ''read %q: file changed while preparing chunks'')
              else bindE (signIfUser env cfg nonce (chunk_batch cfg bid f offset piece)) (\<lambda>pb. Inr (pb, n))))"

lemma chunk_loop_next:
  "chunk_loop env cl cfg path bid f nonce offset c =
     (if offset \<ge> fi_Size f then (c, Inr ())
      else case next_chunk env cfg path bid f nonce offset of
        Inl e \<Rightarrow> (c, Inl e)
      | Inr (pb, n) \<Rightarrow>
          (case exchange env cl cfg (if offset + n = fi_Size f then 1 else 0) pb c of
             (c', Inl e) \<Rightarrow> (c', Inl e)
           | (c', Inr _) \<Rightarrow> chunk_loop env cl cfg path bid f nonce (offset + n) c'))"
proof (cases "\<exists>rest. pe_ReadRest env path offset = Inr rest")
  case False
  then show ?thesis by (subst chunk_loop.simps) (auto simp: next_chunk_def split: sum.split)
next
  case True
  then obtain rest where r: "pe_ReadRest env path offset = Inr rest" by blast
  show ?thesis
    unfolding chunk_loop.simps [of env cl cfg path bid f nonce offset c] next_chunk_def r sum.case Let_def
    by (simp only: bindE_def if_distrib [of "case_sum _ _"] sum.case prod.case
        sum.case_distrib [of "case_sum _ _"] split: if_split) 
qed

lemma next_chunk_pos: "next_chunk env cfg path bid f nonce offset = Inr (pb, n) \<Longrightarrow> 0 < n"
  by (auto simp: next_chunk_def Let_def bindE_def split: sum.splits if_splits)

lemma chunk_loop_phase:
  "in_phase ph c \<Longrightarrow> in_phase ph (fst (chunk_loop env cl cfg path bid f nonce offset c))"
proof (induction "nat (fi_Size f - offset)" arbitrary: offset c rule: less_induct)
  case less
  show ?case
  proof (cases "\<exists>x. \<not> fi_Size f \<le> offset \<and> next_chunk env cfg path bid f nonce offset = Inr x")
    case False
    then show ?thesis using less.prems by (subst chunk_loop_next) (auto split: sum.split)
  next
    case True
    then obtain pb n where n: "\<not> fi_Size f \<le> offset" "next_chunk env cfg path bid f nonce offset = Inr (pb, n)" by auto
    obtain c1 r1 where ex: "exchange env cl cfg (if offset + n = fi_Size f then 1 else 0) pb c = (c1, r1)"
      by (rule prod.exhaust)
    have c1: "in_phase ph c1" using exchange_phase ex less.prems by (rule keepsD)
    have "nat (fi_Size f - (offset + n)) < nat (fi_Size f - offset)" using n(1) next_chunk_pos [OF n(2)] by simp
    from less.hyps [OF this c1] show ?thesis
      using n ex c1 by (subst chunk_loop_next) (simp split: sum.split)
  qed
qed

lemma sendChunkedFile_phase [keeps_intros]: "keeps (in_phase ph) (sendChunkedFile env cl cfg bid d nonce)"
  by (auto simp: keeps_def sendChunkedFile_def chunk_loop_phase split: sum.split option.split)

lemma sendBatch_phase [keeps_intros]:
  fixes cl :: "'w backup_client"
  shows "keeps (in_phase ph) (sendBatch env cl cfg b nonce)"
proof (rule keepsI)
  fix c :: "'w push_client" assume c: "in_phase ph c"
  have ex: "in_phase ph (fst (exchange env cl cfg n pb c))" for n pb
    using exchange_phase [of ph env cl cfg n pb] c by (simp add: keeps_def)
  show "in_phase ph (fst (sendBatch env cl cfg b nonce c))"
    using c by (simp add: sendBatch_def ex split: sum.split)
qed

lemma send_one_phase [keeps_intros]: "keeps (in_phase ph) (send_one env cl cfg nonce b)"
  unfolding send_one_def by (intro keeps_intros)

lemma finish_push_phase [keeps_intros]: "keeps (in_phase ph) (finish_push cl)"
proof -
  have "keeps (in_phase ph) (\<lambda>c. case remote (cl_Recv cl) c of
         (c', Inl e) \<Rightarrow> if e = io_EOF then (c', Inr ()) else (c', Inl (Wrap ''complete backup stream'' e))
       | (c', Inr _) \<Rightarrow> (c', Inl (Errorf ''complete backup stream: %!w(<nil>)'')))"
    using push_steps_phase(1) [of ph "cl_Recv cl"] by (auto simp: keeps_def split: prod.split sum.split)
  then show ?thesis unfolding finish_push_def by (intro keeps_intros)
qed

lemma pusher_phase: "keeps (in_phase TRANSFERRING) (pusher_PushBackup env cl cfg ds)"
proof -
  have s: "keeps (in_phase TRANSFERRING) (track cfg (SetPhase TRANSFERRING))"
    by (simp add: keeps_def track_def)
  have u: "keeps (in_phase TRANSFERRING) (updateS (\<lambda>c. c\<lparr>pc_next := n\<rparr>))" for n
    by (simp add: keeps_def updateS_def)
  have k: "keeps (in_phase TRANSFERRING) (\<lambda>c.
        case mapErr (Wrap ''pack batches'') (PackBatchesWithinSize ds DefaultBatchSize MaxBatchContentBytes) of
          Inl e \<Rightarrow> (c, Inl e)
        | Inr batches \<Rightarrow>
            bindS (if pf_RuleType cfg = ''user''
                   then mapErrS (Wrap ''get challenge'') (remote (cl_GetChallenge cl)) else returnS []) (\<lambda>nonce.
            bindS (mapErrS (Wrap ''open push stream'') (remote (cl_PushBackup cl))) (\<lambda>_.
            bindS (track cfg (SetTotals (int (length ds)) (int (length ds)))) (\<lambda>_.
            bindS (track cfg (SetPhase TRANSFERRING)) (\<lambda>_.
            bindS (updateS (\<lambda>c. c\<lparr>pc_next := zero_time\<rparr>)) (\<lambda>_.
            bindS (foldS (send_one env cl cfg nonce) batches) (\<lambda>_.
            finish_push cl)))))) c)"
  proof (cases "mapErr (Wrap ''pack batches'') (PackBatchesWithinSize ds DefaultBatchSize MaxBatchContentBytes)")
    case (Inl e)
    then show ?thesis by (simp add: keeps_def)
  next
    case (Inr batches)
    show ?thesis unfolding Inr sum.case by (intro keeps_intros s u)
  qed
  show ?thesis unfolding pusher_PushBackup_def by (intro keeps_if keeps_return keeps_bind keeps_check k)
qed

text \<open>
  An attempt leaves the task history and the notifications alone, and the trackers it keeps stay
  there.
\<close>

definition books :: "'w agent_state \<Rightarrow> task_failure list \<times> string list \<times> bool \<times> tasks" where
  "books s = (ag_hooks s, ag_notified s, ag_hook s, ag_tasks s)"

definition attempt_inv ::
  "task_failure list \<times> string list \<times> bool \<times> tasks \<Rightarrow> string \<Rightarrow> phase set \<Rightarrow> 'w agent_state \<Rightarrow> bool" where
  "attempt_inv b i phs s \<longleftrightarrow> books s = b \<and> (\<exists>ph \<in> phs. phase_of i s = Some ph)"

lemma books_fields [simp]:
  "books (s\<lparr>ag_world := w\<rparr>) = books s" "books (s\<lparr>ag_tick := n\<rparr>) = books s"
  "books (s\<lparr>ag_snaps := t\<rparr>) = books s" "books (s\<lparr>ag_clients := cs\<rparr>) = books s"
  "books (s\<lparr>ag_trackers := ts\<rparr>) = books s" "books (onTracker j f s) = books s"
  by (simp_all add: books_def)

lemma attempt_inv_fields [simp]:
  "attempt_inv b i phs (s\<lparr>ag_world := w\<rparr>) = attempt_inv b i phs s"
  "attempt_inv b i phs (s\<lparr>ag_tick := n\<rparr>) = attempt_inv b i phs s"
  "attempt_inv b i phs (s\<lparr>ag_snaps := t\<rparr>) = attempt_inv b i phs s"
  "attempt_inv b i phs (s\<lparr>ag_clients := cs\<rparr>) = attempt_inv b i phs s"
  by (simp_all add: attempt_inv_def)

lemma attempt_inv_onTracker:
  assumes "attempt_inv b i phs s" "\<And>t. tk_Phase t \<in> phs \<Longrightarrow> tk_Phase (f t) \<in> phs"
  shows "attempt_inv b i phs (onTracker i f s)"
proof -
  from assms(1) obtain t where t: "map_of (ag_trackers s) i = Some t" "tk_Phase t \<in> phs" "books s = b"
    by (auto simp: attempt_inv_def phase_of_def)
  then show ?thesis using assms(2) by (auto simp: attempt_inv_def phase_onTracker)
qed

lemma attempt_calls [keeps_intros]:
  "keeps (attempt_inv b i phs) (clientFor env srv)"
  "keeps (attempt_inv b i phs) (callRemote m)"
  "keeps (attempt_inv b i phs) (onSnaps mm)"
  "keeps (attempt_inv b i phs) (addScanned i n)"
  by (auto simp: keeps_def clientFor_def GetClientWithServerName_def callRemote_def onSnaps_def addScanned_def
      updateS_def attempt_inv_onTracker split: option.split sum.split prod.split)

lemma attempt_diffRoot [keeps_intros]: "keeps (attempt_inv b i phs) (diffRoot env i addr u ex p)"
proof -
  have k: "keeps (attempt_inv b i phs) (\<lambda>s. case ComputeDiffUnderRoot (av_db env) files (ag_snaps s) addr u pre of
      (ds, diffErrs) \<Rightarrow>
        if diffErrs \<noteq> [] then permanentS ''compute diff for root %q: %w'' (hd diffErrs) s
        else (s, Inr (if ds = [] then [] else [\<lparr>rd_rootPath = p, rd_rootPrefix = pre, rd_diffs = ds\<rparr>])))" for files pre
    by (auto simp: keeps_def permanentS_def failS_def split: prod.split)
  show ?thesis
    unfolding diffRoot_def by (auto split: prod.split sum.split intro!: keeps_intros k)
qed

lemma attempt_diffRoots [keeps_intros]: "keeps (attempt_inv b i phs) (diffRoots env i addr u ex ps)"
  by (induction ps) (auto intro!: keeps_intros)

lemma attempt_diffRules [keeps_intros]: "keeps (attempt_inv b i phs) (diffRules env i addr u rs)"
  by (induction rs) (auto intro!: keeps_intros split: sum.split)

lemma attempt_syncRules [keeps_intros]: "keeps (attempt_inv b i phs) (syncRulesFor env client u r us md)"
  unfolding syncRulesFor_def by (intro keeps_intros)

lemma attempt_pushDiffs [keeps_intros]:
  "keeps (attempt_inv b (sj_taskID j) {TRANSFERRING}) (pushDiffsToServer env client j rd)"
proof (rule keepsI)
  fix s :: "'a agent_state" assume s: "attempt_inv b (sj_taskID j) {TRANSFERRING} s"
  obtain c r where p: "pusher_PushBackup (av_push env) (rm_backup client (sj_meta j)) (pushConfigFor env j rd) (rd_diffs rd)
      (push_client_of (sj_taskID j) s) = (c, r)" by (rule prod.exhaust)
  have "in_phase TRANSFERRING (push_client_of (sj_taskID j) s)"
    using s by (auto simp: attempt_inv_def phase_of_def push_client_of_def)
  with pusher_phase p have "in_phase TRANSFERRING c" by (rule keepsD)
  then show "attempt_inv b (sj_taskID j) {TRANSFERRING} (fst (pushDiffsToServer env client j rd s))"
    using s p by (auto simp: pushDiffsToServer_def intro!: attempt_inv_onTracker)
qed

lemma attempt_pushRoot [keeps_intros]:
  "keeps (attempt_inv b (sj_taskID j) {TRANSFERRING}) (pushRoot env client srv j rd)"
  unfolding pushRoot_def by (intro keeps_intros)

text \<open>An attempt that succeeds leaves the task transferring.\<close>

lemma syncToServer_phase:
  assumes "phase_of (sj_taskID j) s = Some ph" "syncToServer env srv j s = (s', r)"
  shows "books s' = books s" "phase_of (sj_taskID j) s' \<in> {Some ph, Some TRANSFERRING}"
    and "r = Inr () \<Longrightarrow> phase_of (sj_taskID j) s' = Some TRANSFERRING"
proof -
  let ?i = "sj_taskID j"
  let ?I = "attempt_inv (books s) ?i {ph}" and ?T = "attempt_inv (books s) ?i {TRANSFERRING}"
  have inv: "?I s" using assms(1) by (auto simp: attempt_inv_def)
  obtain s1 r1 where c: "mapErrS (Wrap ''get client for %s: %w'') (clientFor env srv) s = (s1, r1)" by (rule prod.exhaust)
  have i1: "?I s1" by (rule keepsD [OF keeps_mapErr [OF attempt_calls(1)] c inv])
  have "(?I s' \<or> ?T s') \<and> (r = Inr () \<longrightarrow> ?T s')"
  proof (cases r1)
    case (Inl e)
    then show ?thesis using assms(2) c i1 by (auto simp: syncToServer_def bindS_def)
  next
    case (Inr client)
    obtain s2 r2 where sr: "syncRulesFor env client (sj_username j) (sj_ruleName j) (sj_userRules j) (sj_meta j) s1 = (s2, r2)"
      by (rule prod.exhaust)
    have i2: "?I s2" by (rule keepsD [OF attempt_syncRules sr i1])
    show ?thesis
    proof (cases "\<exists>rules. r2 = Inr rules \<and> \<not> (sj_ruleName j \<noteq> '''' \<and> rules = [])")
      case False
      then show ?thesis using assms(2) c Inr sr i2
        by (cases r2) (auto simp: syncToServer_def bindS_def failS_def)
    next
      case True
      then obtain rules where r2: "r2 = Inr rules" "\<not> (sj_ruleName j \<noteq> '''' \<and> rules = [])" by blast
      obtain s3 r3 where d: "diffRules env ?i (se_Address srv) (sj_username j) rules s2 = (s3, r3)" by (rule prod.exhaust)
      have i3: "?I s3" by (rule keepsD [OF attempt_diffRules d i2])
      show ?thesis
      proof (cases r3)
        case (Inl e)
        then show ?thesis using assms(2) c Inr sr r2 d i3 by (auto simp: syncToServer_def bindS_def)
      next
        case r3: (Inr batches)
        let ?n = "int (length (concat (map rd_diffs batches)))"
        let ?s4 = "onTracker ?i (\<lambda>t. SetPhase TRANSFERRING (SetTotals ?n ?n (SetPhase SCANNING t))) s3"
        have "foldS (pushRoot env client srv j) batches ?s4 = (s', r)"
          using assms(2) c Inr sr r2 d r3
          by (simp add: syncToServer_def bindS_def updateS_def Let_def)
        moreover have ph: "phase_of ?i ?s4 = Some TRANSFERRING"
          using i3 unfolding phase_onTracker attempt_inv_def by (auto simp: phase_of_def)
        then have "?T ?s4" using i3 by (simp add: attempt_inv_def)
        moreover have "keeps ?T (foldS (pushRoot env client srv j) batches)"
          by (rule keeps_foldS) (rule attempt_pushRoot)
        ultimately have "?T s'" by (auto dest: keepsD)
        then show ?thesis by blast
      qed
    qed
  qed
  then show "books s' = books s" "phase_of ?i s' \<in> {Some ph, Some TRANSFERRING}" "r = Inr () \<Longrightarrow> phase_of ?i s' = Some TRANSFERRING"
    by (auto simp: attempt_inv_def)
qed

section \<open>The servers of a task side by side\<close>

text \<open>
  A configuration is the shared state, the servers with the back-off of their goroutine (\<open>None\<close>
  when it has returned) and whether the closing goroutine has run.
\<close>

type_synonym 'w task_run = "'w agent_state \<times> (server_entry \<times> backoff option) list \<times> bool"

definition startRun :: "'w agent_env \<Rightarrow> 'w agent_state \<Rightarrow> 'w task_run" where
  "startRun env s = (s, map (\<lambda>srv. (srv, Some backoff_new)) (ac_Servers (av_Cfg env)), False)"

definition failWith :: "'w agent_env \<Rightarrow> sync_job \<Rightarrow> server_entry \<Rightarrow> error \<Rightarrow> 'w agent_state \<Rightarrow> 'w agent_state" where
  "failWith env j srv e = markFailed env (sj_taskID j) (sj_username j) (se_Address srv) (Some e)"

definition nextDelay :: "'w agent_env \<Rightarrow> backoff \<Rightarrow> int \<times> backoff" where
  "nextDelay env = Next (rc_MaxElapsedTime (ac_Retry (av_Cfg env))) (av_dur env)"

inductive sync_step :: "'w agent_env \<Rightarrow> sync_job \<Rightarrow> 'w task_run \<Rightarrow> 'w task_run \<Rightarrow> bool"
  for env :: "'w agent_env" and j :: sync_job where
  synced: "i < length ws \<Longrightarrow> ws ! i = (srv, Some b) \<Longrightarrow> syncToServer env srv j s = (s', Inr ()) \<Longrightarrow>
     sync_step env j (s, ws, False) (s', ws[i := (srv, None)], False)"
| refused: "i < length ws \<Longrightarrow> ws ! i = (srv, Some b) \<Longrightarrow> syncToServer env srv j s = (s', Inl e) \<Longrightarrow>
     \<not> IsRetryable (av_code env) (Some e) \<Longrightarrow>
     sync_step env j (s, ws, False) (failWith env j srv e s', ws[i := (srv, None)], False)"
| exhausted: "i < length ws \<Longrightarrow> ws ! i = (srv, Some b) \<Longrightarrow> syncToServer env srv j s = (s', Inl e) \<Longrightarrow>
     IsRetryable (av_code env) (Some e) \<Longrightarrow> fst (nextDelay env b) \<le> 0 \<Longrightarrow>
     sync_step env j (s, ws, False)
       (failWith env j srv (Wrap ''sync retries exhausted: %w'' e) s', ws[i := (srv, None)], False)"
| retried: "i < length ws \<Longrightarrow> ws ! i = (srv, Some b) \<Longrightarrow> syncToServer env srv j s = (s', Inl e) \<Longrightarrow>
     IsRetryable (av_code env) (Some e) \<Longrightarrow> 0 < fst (nextDelay env b) \<Longrightarrow>
     sync_step env j (s, ws, False) (s', ws[i := (srv, Some (snd (nextDelay env b)))], False)"
| closed: "\<forall>w \<in> set ws. snd w = None \<Longrightarrow>
     sync_step env j (s, ws, False) (completeTask env (sj_taskID j) s, ws, True)"

inductive_cases sync_stepE: "sync_step env j r r'"
inductive_simps sync_step_closed: "sync_step env j (s, ws, True) r'"

lemma closed_is_final [simp]: "\<not> sync_step env j (s, ws, True) r'"
  by (simp add: sync_step_closed)

text \<open>What the bookkeeping operations do.\<close>

lemma tryTasks_fields [simp]:
  "ag_hooks (tryTasks f s) = ag_hooks s" "ag_notified (tryTasks f s) = ag_notified s"
  "ag_hook (tryTasks f s) = ag_hook s" "phase_of i (tryTasks f s) = phase_of i s"
  by (simp_all add: tryTasks_def split: sum.split)

lemma notifyFailure_fields [simp]:
  "phase_of i (notifyFailure tf s) = phase_of i s" "ag_tasks (notifyFailure tf s) = ag_tasks s"
  "ag_hook (notifyFailure tf s) = ag_hook s"
  by (simp_all add: notifyFailure_def phase_of_def)

lemma markFailed_phase: "phase_of i s \<noteq> None \<Longrightarrow> phase_of i (markFailed env i u srv e s) = Some FAILED"
  by (simp add: markFailed_def Let_def phase_SetPhase)

text \<open>
  At most one notification for the task: none as long as it is not in the map of notified
  tasks, and never a second.
\<close>

definition hooks_for :: "string \<Rightarrow> 'w agent_state \<Rightarrow> task_failure list" where
  "hooks_for i s = filter (\<lambda>t. tf_TaskID t = i) (ag_hooks s)"

definition notified_once :: "string \<Rightarrow> 'w agent_state \<Rightarrow> bool" where
  "notified_once i s \<longleftrightarrow> length (hooks_for i s) \<le> (if i \<in> set (ag_notified s) then 1 else 0)"

lemma markFailed_once:
  "notified_once i s \<Longrightarrow> notified_once i (markFailed env i' u srv e s)"
  by (auto simp: notified_once_def hooks_for_def markFailed_def notifyFailure_def Let_def split: if_splits)

lemma markFailed_notified: "i \<in> set (ag_notified (markFailed env i u srv e s))"
  by (auto simp: markFailed_def notifyFailure_def Let_def)

lemma completeTask_books:
  "ag_hooks (completeTask env i s) = ag_hooks s" "ag_notified (completeTask env i s) = ag_notified s"
  by (simp_all add: completeTask_def split: option.split)

text \<open>
  The invariant of a run: the tracker is there, a failed task was notified, the notifications are
  in order, and a closed task has ended.
\<close>

definition run_inv :: "sync_job \<Rightarrow> 'w task_run \<Rightarrow> bool" where
  "run_inv j r \<longleftrightarrow>
     (case r of (s, ws, fin) \<Rightarrow>
        notified_once (sj_taskID j) s \<and>
        (\<exists>ph. phase_of (sj_taskID j) s = Some ph \<and> (ph = FAILED \<longrightarrow> sj_taskID j \<in> set (ag_notified s)) \<and>
           (fin \<longrightarrow> ph \<in> {COMPLETED, FAILED})))"

lemma attempt_run_inv:
  assumes "syncToServer env srv j s = (s', x)" "run_inv j (s, ws, False)"
  shows "run_inv j (s', ws', False)"
proof -
  from assms(2) obtain ph where ph: "phase_of (sj_taskID j) s = Some ph" by (auto simp: run_inv_def)
  from syncToServer_phase(1,2) [OF ph assms(1)] assms(2) ph show ?thesis
    by (auto simp: run_inv_def notified_once_def hooks_for_def books_def)
qed

lemma failWith_run_inv: "run_inv j (s, ws, False) \<Longrightarrow> run_inv j (failWith env j srv e s, ws', False)"
  by (auto simp: run_inv_def failWith_def markFailed_phase markFailed_once markFailed_notified)

lemma sync_step_inv:
  assumes "sync_step env j r r'" "run_inv j r"
  shows "run_inv j r'"
  using assms
proof (cases rule: sync_step.cases)
  case (closed ws s)
  then obtain t where t: "map_of (ag_trackers s) (sj_taskID j) = Some t" "notified_once (sj_taskID j) s"
    "tk_Phase t = FAILED \<longrightarrow> sj_taskID j \<in> set (ag_notified s)"
    using assms(2) by (auto simp: run_inv_def phase_of_def)
  have "phase_of (sj_taskID j) (completeTask env (sj_taskID j) s) = Some (if tk_Phase t = FAILED then FAILED else COMPLETED)"
    using t(1) by (auto simp: completeTask_def phase_SetPhase phase_of_def [of _ s])
  then show ?thesis using closed t
    by (simp add: run_inv_def notified_once_def hooks_for_def completeTask_books)
qed (auto intro: attempt_run_inv failWith_run_inv)

lemma sync_run_inv: "(sync_step env j)\<^sup>*\<^sup>* r r' \<Longrightarrow> run_inv j r \<Longrightarrow> run_inv j r'"
  by (induction rule: rtranclp_induct) (auto intro: sync_step_inv)

text \<open>With one server the end of the task tells whether the sync failed.\<close>

definition single_inv :: "sync_job \<Rightarrow> server_entry \<Rightarrow> 'w task_run \<Rightarrow> bool" where
  "single_inv j srv r \<longleftrightarrow>
     (case r of (s, ws, fin) \<Rightarrow>
        (\<exists>b. ws = [(srv, b)] \<and>
           (b \<noteq> None \<longrightarrow> sj_taskID j \<notin> set (ag_notified s) \<and> \<not> fin) \<and>
           (b = None \<longrightarrow> (sj_taskID j \<in> set (ag_notified s) \<longleftrightarrow> phase_of (sj_taskID j) s = Some FAILED))))"

lemma attempt_notified:
  assumes "syncToServer env srv j s = (s', x)" "run_inv j (s, ws, c)"
  shows "ag_notified s' = ag_notified s" "x = Inr () \<Longrightarrow> phase_of (sj_taskID j) s' = Some TRANSFERRING"
proof -
  from assms(2) obtain ph where ph: "phase_of (sj_taskID j) s = Some ph" by (auto simp: run_inv_def)
  from syncToServer_phase(1,3) [OF ph assms(1)]
  show "ag_notified s' = ag_notified s" "x = Inr () \<Longrightarrow> phase_of (sj_taskID j) s' = Some TRANSFERRING"
    by (simp_all add: books_def)
qed

lemma sync_step_single:
  assumes "sync_step env j r r'" "run_inv j r" "single_inv j srv r"
  shows "single_inv j srv r'"
  using assms
proof (cases rule: sync_step.cases)
  case (synced i ws srv' b s s')
  then have ws: "i = 0" "srv' = srv" "length ws = 1" "sj_taskID j \<notin> set (ag_notified s)"
    using assms(3) by (auto simp: single_inv_def)
  note a = attempt_notified [OF synced(5) assms(2)[unfolded synced(1)]]
  show ?thesis using synced ws a assms(3) by (auto simp: single_inv_def)
next
  case (refused i ws srv' b s s' e)
  have "run_inv j (s', ws, False)" using attempt_run_inv [OF refused(5)] assms(2) refused(1) by blast
  then have "phase_of (sj_taskID j) (failWith env j srv' e s') = Some FAILED"
    by (auto simp: run_inv_def failWith_def markFailed_phase)
  then show ?thesis using refused assms(3) markFailed_notified by (auto simp: single_inv_def failWith_def)
next
  case (exhausted i ws srv' b s s' e)
  have "run_inv j (s', ws, False)" using attempt_run_inv [OF exhausted(5)] assms(2) exhausted(1) by blast
  then have "phase_of (sj_taskID j) (failWith env j srv' (Wrap ''sync retries exhausted: %w'' e) s') = Some FAILED"
    by (auto simp: run_inv_def failWith_def markFailed_phase)
  then show ?thesis using exhausted assms(3) markFailed_notified by (auto simp: single_inv_def failWith_def)
next
  case (retried i ws srv' b s s' e)
  note a = attempt_notified(1) [OF retried(5) assms(2)[unfolded retried(1)]]
  show ?thesis using retried a assms(3) by (auto simp: single_inv_def)
next
  case (closed ws s)
  then obtain t where t: "map_of (ag_trackers s) (sj_taskID j) = Some t"
    "ws = [(srv, None)]" "sj_taskID j \<in> set (ag_notified s) \<longleftrightarrow> tk_Phase t = FAILED"
    using assms(2,3) by (auto simp: run_inv_def single_inv_def phase_of_def)
  have "phase_of (sj_taskID j) (completeTask env (sj_taskID j) s) = Some (if tk_Phase t = FAILED then FAILED else COMPLETED)"
    using t(1) by (auto simp: completeTask_def phase_SetPhase phase_of_def [of _ s])
  then show ?thesis using closed t by (simp add: single_inv_def completeTask_books)
qed

lemma single_server_run:
  assumes "(sync_step env j)\<^sup>*\<^sup>* r r'" "run_inv j r" "single_inv j srv r"
  shows "single_inv j srv r'"
proof -
  have "run_inv j r' \<and> single_inv j srv r'"
    using assms by (induction rule: rtranclp_induct) (auto intro: sync_step_inv sync_step_single)
  then show ?thesis ..
qed

section \<open>Every task can end\<close>

definition in_budget :: "'w agent_env \<Rightarrow> backoff \<Rightarrow> bool" where
  "in_budget env b \<longleftrightarrow> 0 \<le> bo_elapsed b \<and> bo_elapsed b \<le> rc_MaxElapsedTime (ac_Retry (av_Cfg env))"

definition budget_ok :: "'w agent_env \<Rightarrow> bool" where
  "budget_ok env \<longleftrightarrow> 0 < rc_MaxElapsedTime (ac_Retry (av_Cfg env)) \<and>
     (\<forall>n. av_dur env n < 2 ^ 63 - rc_MaxElapsedTime (ac_Retry (av_Cfg env)))"

lemma nextDelay_budget:
  assumes "budget_ok env" "in_budget env b" "0 < fst (nextDelay env b)"
  shows "bo_elapsed (snd (nextDelay env b)) = bo_elapsed b + fst (nextDelay env b)" "in_budget env (snd (nextDelay env b))"
proof -
  obtain d b' where n: "nextDelay env b = (d, b')" by (rule prod.exhaust)
  then have "0 < d" using assms(3) by simp
  from Next_budget [OF n[unfolded nextDelay_def] this] assms(1,2) n
  show "bo_elapsed (snd (nextDelay env b)) = bo_elapsed b + fst (nextDelay env b)" "in_budget env (snd (nextDelay env b))"
    using \<open>0 < d\<close> by (simp_all add: budget_ok_def in_budget_def)
qed

text \<open>A goroutine returns: every retry uses up budget.\<close>

lemma worker_returns:
  assumes "budget_ok env"
  shows "in_budget env b \<Longrightarrow> i < length ws \<Longrightarrow> ws ! i = (srv, Some b) \<Longrightarrow>
    \<exists>s'. (sync_step env j)\<^sup>*\<^sup>* (s, ws, False) (s', ws[i := (srv, None)], False)"
proof (induction "nat (rc_MaxElapsedTime (ac_Retry (av_Cfg env)) - bo_elapsed b)" arbitrary: b ws s rule: less_induct)
  case less
  obtain s1 x where at: "syncToServer env srv j s = (s1, x)" by (rule prod.exhaust)
  show ?case
  proof (cases "\<exists>e. x = Inl e \<and> IsRetryable (av_code env) (Some e) \<and> 0 < fst (nextDelay env b)")
    case False
    then have "\<exists>s'. sync_step env j (s, ws, False) (s', ws[i := (srv, None)], False)"
    proof (cases x)
      case (Inr y)
      then have "sync_step env j (s, ws, False) (s1, ws[i := (srv, None)], False)"
        using sync_step.synced [OF less.prems(2,3)] at by simp
      then show ?thesis by blast
    next
      case (Inl e)
      show ?thesis
      proof (cases "IsRetryable (av_code env) (Some e)")
        case True
        then have "sync_step env j (s, ws, False)
            (failWith env j srv (Wrap ''sync retries exhausted: %w'' e) s1, ws[i := (srv, None)], False)"
          using sync_step.exhausted [OF less.prems(2,3)] at Inl False by (simp add: not_less)
        then show ?thesis by blast
      next
        case False
        then have "sync_step env j (s, ws, False) (failWith env j srv e s1, ws[i := (srv, None)], False)"
          using sync_step.refused [OF less.prems(2,3)] at Inl by simp
        then show ?thesis by blast
      qed
    qed
    then show ?thesis by blast
  next
    case True
    then obtain e where e: "x = Inl e" "IsRetryable (av_code env) (Some e)" "0 < fst (nextDelay env b)" by blast
    let ?b = "snd (nextDelay env b)" let ?ws = "ws[i := (srv, Some (snd (nextDelay env b)))]"
    note nb = nextDelay_budget [OF assms less.prems(1) e(3)]
    have st: "sync_step env j (s, ws, False) (s1, ?ws, False)"
      using sync_step.retried [OF less.prems(2,3) _ e(2,3)] at e(1) by simp
    have "nat (rc_MaxElapsedTime (ac_Retry (av_Cfg env)) - bo_elapsed ?b) <
        nat (rc_MaxElapsedTime (ac_Retry (av_Cfg env)) - bo_elapsed b)"
      using nb e(3) less.prems(1) by (simp add: in_budget_def)
    from less.hyps [OF this nb(2), of ?ws s1] less.prems(2)
    obtain s' where "(sync_step env j)\<^sup>*\<^sup>* (s1, ?ws, False) (s', ws[i := (srv, None)], False)" by auto
    then show ?thesis using st by (meson converse_rtranclp_into_rtranclp)
  qed
qed

lemma workers_return:
  assumes "budget_ok env"
  shows "\<forall>w \<in> set ws. \<forall>b. snd w = Some b \<longrightarrow> in_budget env b \<Longrightarrow>
    \<exists>s' ws'. (sync_step env j)\<^sup>*\<^sup>* (s, ws, False) (s', ws', False) \<and> (\<forall>w \<in> set ws'. snd w = None)"
proof (induction "length (filter (\<lambda>w. snd w \<noteq> None) ws)" arbitrary: ws s rule: less_induct)
  case less
  show ?case
  proof (cases "\<forall>w \<in> set ws. snd w = None")
    case True
    then show ?thesis by blast
  next
    case False
    then obtain i srv b where i: "i < length ws" "ws ! i = (srv, Some b)"
      by (metis in_set_conv_nth option.exhaust prod.collapse)
    then have "in_budget env b" using less.prems by (metis nth_mem snd_conv)
    from worker_returns [OF assms this i] obtain s1 where
      s1: "(sync_step env j)\<^sup>*\<^sup>* (s, ws, False) (s1, ws[i := (srv, None)], False)" by blast
    have "length (filter (\<lambda>w. snd w \<noteq> None) (ws[i := (srv, None)])) < length (filter (\<lambda>w. snd w \<noteq> None) ws)"
    proof -
      have "length (filter (\<lambda>w. snd w \<noteq> None) ws) =
          length (filter (\<lambda>w. snd w \<noteq> None) (take i ws @ (srv, Some b) # drop (Suc i) ws))"
        using id_take_nth_drop [OF i(1)] i(2) by simp
      then show ?thesis unfolding upd_conv_take_nth_drop [OF i(1)] by simp
    qed
    moreover have "\<forall>w \<in> set (ws[i := (srv, None)]). \<forall>b. snd w = Some b \<longrightarrow> in_budget env b"
      using less.prems set_update_subset_insert [of ws i "(srv, None)"] by fastforce
    ultimately obtain s' ws' where "(sync_step env j)\<^sup>*\<^sup>* (s1, ws[i := (srv, None)], False) (s', ws', False)"
      "\<forall>w \<in> set ws'. snd w = None"
      using less.hyps by blast
    then show ?thesis using s1 by (meson rtranclp_trans)
  qed
qed

text \<open>
  C30: Whatever the servers answer, a sync task can always be run to its end: with a positive retry budget every server's
  worker stops after finitely many attempts, and the step that completes the task is then taken.
\<close>

lemma run_closes:
  assumes "budget_ok env" "\<forall>w \<in> set ws. \<forall>b. snd w = Some b \<longrightarrow> in_budget env b"
  shows "\<exists>s' ws'. (sync_step env j)\<^sup>*\<^sup>* (s, ws, False) (s', ws', True)"
  using workers_return [OF assms] sync_step.closed by (meson rtranclp.rtrancl_into_rtrancl)

section \<open>A failure that another server hides\<close>

definition row_phase :: "string \<Rightarrow> 'w agent_state \<Rightarrow> string option" where
  "row_phase i s = map_option tr_phase (row_find tr_task_id i (ag_tasks s))"

lemma row_phase_completed:
  assumes "row_phase i s \<noteq> None" "phase_of i s = Some ph" "ph \<noteq> FAILED" "\<not> av_db env ExecTaskPhase"
  shows "row_phase i (completeTask env i s) = Some ''COMPLETED''" "phase_of i (completeTask env i s) = Some COMPLETED"
proof -
  obtain t where t: "map_of (ag_trackers s) i = Some t" "tk_Phase t \<noteq> FAILED"
    using assms(2,3) by (auto simp: phase_of_def)
  have c: "completeTask env i s = tryTasks (UpdateTaskPhase (av_db env) (av_sec env) i ''COMPLETED'' '''')
      (onTracker i (SetPhase COMPLETED) s)"
    using t by (simp add: completeTask_def)
  obtain r where r: "row_find tr_task_id i (ag_tasks s) = Some r" "tr_task_id r = i"
    using assms(1) row_find_key [of tr_task_id i "ag_tasks s"] by (auto simp: row_phase_def)
  show "row_phase i (completeTask env i s) = Some ''COMPLETED''"
    using r assms(4) unfolding c
    by (simp add: tryTasks_def UpdateTaskPhase_def row_phase_def row_find_map)
  show "phase_of i (completeTask env i s) = Some COMPLETED"
    unfolding c using assms(2) by (simp add: phase_SetPhase)
qed

lemma row_phase_markFailed: "row_phase i s \<noteq> None \<Longrightarrow> row_phase i (markFailed env i' u srv e s) \<noteq> None"
  by (auto simp: markFailed_def tryTasks_def UpdateTaskFailure_def row_phase_def row_find_map Let_def
      split: sum.split)

text \<open>
  C34: A failure at one server is hidden by another that starts later: the first server's sync ends in an error that is
  not retried and is notified, the second server's attempt resets the phase, and the task is recorded as completed.
\<close>

lemma hidden_failure:
  assumes "ac_Servers (av_Cfg env) = [a, b]"
    and a: "syncToServer env a j s = (s1, Inl e)" "\<not> IsRetryable (av_code env) (Some e)"
    and b: "syncToServer env b j (failWith env j a e s1) = (s2, Inr ())"
    and s: "phase_of (sj_taskID j) s \<noteq> None" "row_phase (sj_taskID j) s \<noteq> None" "\<not> av_db env ExecTaskPhase"
  shows "\<exists>s3 ws. (sync_step env j)\<^sup>*\<^sup>* (startRun env s) (s3, ws, True) \<and>
    sj_taskID j \<in> set (ag_notified s3) \<and>
    phase_of (sj_taskID j) s3 = Some COMPLETED \<and> row_phase (sj_taskID j) s3 = Some ''COMPLETED''"
proof -
  let ?i = "sj_taskID j" and ?f = "failWith env j a e s1"
  let ?ws = "[(a, Some backoff_new), (b, Some backoff_new)]"
  have "startRun env s = (s, ?ws, False)" using assms(1) by (simp add: startRun_def)
  moreover have "sync_step env j (s, ?ws, False) (?f, [(a, None), (b, Some backoff_new)], False)"
    using sync_step.refused [of 0 ?ws a backoff_new env j s s1 e] a by (simp add: failWith_def)
  moreover have "sync_step env j (?f, [(a, None), (b, Some backoff_new)], False) (s2, [(a, None), (b, None)], False)"
    using sync_step.synced [of 1 "[(a, None), (b, Some backoff_new)]" b backoff_new env j ?f s2] b by simp
  moreover have "sync_step env j (s2, [(a, None), (b, None)], False)
      (completeTask env ?i s2, [(a, None), (b, None)], True)"
    by (rule sync_step.closed) simp
  ultimately have run: "(sync_step env j)\<^sup>*\<^sup>* (startRun env s) (completeTask env ?i s2, [(a, None), (b, None)], True)"
    by (metis (no_types, lifting) converse_rtranclp_into_rtranclp rtranclp.rtrancl_refl)
  obtain ph where ph: "phase_of ?i s = Some ph" using s(1) by auto
  note sa = syncToServer_phase(1,2) [OF ph a(1)]
  have f: "phase_of ?i ?f = Some FAILED" "?i \<in> set (ag_notified ?f)" "row_phase ?i ?f \<noteq> None"
  proof -
    show "phase_of ?i ?f = Some FAILED" using sa(2) by (auto simp: failWith_def markFailed_phase)
    show "?i \<in> set (ag_notified ?f)" by (simp add: failWith_def markFailed_notified)
    have "row_phase ?i s1 = row_phase ?i s" using sa(1) by (simp add: books_def row_phase_def)
    then show "row_phase ?i ?f \<noteq> None" using s(2) by (simp add: failWith_def row_phase_markFailed)
  qed
  note sb = syncToServer_phase(1,3) [OF f(1) b]
  have s2: "phase_of ?i s2 = Some TRANSFERRING" "?i \<in> set (ag_notified s2)" "row_phase ?i s2 \<noteq> None"
    using sb f by (simp_all add: books_def row_phase_def)
  have "ag_notified (completeTask env ?i s2) = ag_notified s2" by (rule completeTask_books)
  with row_phase_completed [OF s2(3,1) _ s(3)] s2(2) run show ?thesis by auto
qed

section \<open>Asking servers\<close>

text \<open>Only a configured server is accepted, and the first entry of its address is used.\<close>

definition ResolveServer :: "'w agent_env \<Rightarrow> string \<Rightarrow> server_entry result" where
  "ResolveServer env requested =
     (if requested = '''' then Inl (Errorf ''server selected by authentication challenge is required'')
      else case List.find (\<lambda>entry. se_Address entry = requested) (ac_Servers (av_Cfg env)) of
        None \<Rightarrow> Inl (Errorf ''server %q is not configured'')
      | Some entry \<Rightarrow> Inr entry)"

lemma ResolveServer_iff:
  "ResolveServer env requested = Inr entry \<longleftrightarrow>
     requested \<noteq> '''' \<and> List.find (\<lambda>e. se_Address e = requested) (ac_Servers (av_Cfg env)) = Some entry"
  by (auto simp: ResolveServer_def split: option.splits)

lemma ResolveServer_configured:
  "ResolveServer env requested = Inr entry \<Longrightarrow> entry \<in> set (ac_Servers (av_Cfg env)) \<and> se_Address entry = requested"
  unfolding ResolveServer_iff find_Some_iff by auto

text \<open>The servers are asked in turn, the first challenge wins.\<close>

fun firstChallenge :: "'w agent_env \<Rightarrow> server_entry list \<Rightarrow> ('w, string \<times> challenge) agent" where
  "firstChallenge env [] = failS (Errorf ''get challenge from configured servers: %s'')"
| "firstChallenge env (entry # es) = (\<lambda>s.
     case bindS (clientFor env entry) (\<lambda>client. callRemote (rm_GetChallenge client)) s of
       (s', Inr ch) \<Rightarrow> (s', Inr (se_Address entry, ch))
     | (s', Inl _) \<Rightarrow> firstChallenge env es s')"

definition GetAuthChallenge :: "'w agent_env \<Rightarrow> ('w, string \<times> challenge) agent" where
  "GetAuthChallenge env =
     (if ac_Servers (av_Cfg env) = [] then failS (Errorf ''no backup servers configured'')
      else firstChallenge env (ac_Servers (av_Cfg env)))"

definition agent_GetQuotaUsage ::
  "'w agent_env \<Rightarrow> string \<Rightarrow> string \<Rightarrow> nat \<Rightarrow> string list \<Rightarrow> bytes \<Rightarrow> bytes \<Rightarrow> ('w, quota_usage) agent" where
  "agent_GetQuotaUsage env username requestedServer uid groups nonce signature =
     (case ResolveServer env requestedServer of
        Inl e \<Rightarrow> failS e
      | Inr server \<Rightarrow>
          bindS (clientFor env server) (\<lambda>client.
          if nonce = [] \<or> signature = [] then failS (Errorf ''missing quota signature'')
          else callRemote (rm_GetQuotaUsage client (CallerMeta uid groups)
                 \<lparr>qr_Username = username, qr_Nonce = nonce, qr_Signature = signature\<rparr>)))"

lemma GetAuthChallenge_configured:
  "GetAuthChallenge env s = (s', Inr (addr, ch)) \<Longrightarrow> \<exists>entry \<in> set (ac_Servers (av_Cfg env)). se_Address entry = addr"
proof -
  have "firstChallenge env es s = (s', Inr (addr, ch)) \<Longrightarrow> \<exists>entry \<in> set es. se_Address entry = addr" for es s
  proof (induction es arbitrary: s)
    case (Cons e es)
    obtain s1 r where "bindS (clientFor env e) (\<lambda>client. callRemote (rm_GetChallenge client)) s = (s1, r)" by (rule prod.exhaust)
    then show ?case using Cons by (cases r) auto
  qed (simp add: failS_def)
  then show "GetAuthChallenge env s = (s', Inr (addr, ch)) \<Longrightarrow> \<exists>entry \<in> set (ac_Servers (av_Cfg env)). se_Address entry = addr"
    by (auto simp: GetAuthChallenge_def failS_def split: if_splits)
qed

section \<open>Looking up tasks\<close>

definition GetTracker :: "string \<Rightarrow> 'w agent_state \<Rightarrow> tracker result" where
  "GetTracker taskID s =
     (case map_of (ag_trackers s) taskID of None \<Rightarrow> Inl (Errorf ''task %q not found'') | Some t \<Rightarrow> Inr t)"

definition ActiveTasks :: "'w agent_state \<Rightarrow> string \<Rightarrow> tracker option" where
  "ActiveTasks s = map_of (ag_trackers s)"

text \<open>The view of a task that has no live tracker.\<close>

definition storedTracker :: "'w agent_env \<Rightarrow> task_record \<Rightarrow> tracker result" where
  "storedTracker env record' =
     (let t = NewTracker (av_nanos env) in
      if Phase record' \<in> {''PENDING'', ''SCANNING'', ''TRANSFERRING''} then Inr (SetPhase FAILED t)
      else if Phase record' = ''COMPLETED'' then Inr (SetPhase COMPLETED t)
      else if Phase record' = ''FAILED'' then Inr (SetPhase FAILED t)
      else Inl (Errorf ''task %q has invalid stored phase %q''))"

definition GetTrackerForUser :: "'w agent_env \<Rightarrow> string \<Rightarrow> string \<Rightarrow> 'w agent_state \<Rightarrow> tracker result" where
  "GetTrackerForUser env username taskID s =
     (case (if taskID = '''' then GetLatestTaskForUser (av_db env) username (ag_tasks s)
            else GetTask (av_db env) taskID (ag_tasks s)) of
        Inl e \<Rightarrow> Inl (Wrap ''look up task: %w'' e)
      | Inr None \<Rightarrow> Inl (Errorf ''task %q not found'')
      | Inr (Some record') \<Rightarrow>
          if username \<noteq> ''root'' \<and> Username record' \<noteq> username then Inl (Errorf ''task %q not found'')
          else (case GetTracker (TaskID record') s of
             Inr t \<Rightarrow> Inr t
           | Inl _ \<Rightarrow> storedTracker env record'))"

text \<open>Only root sees the tasks of others, and a task without a tracker is shown as ended.\<close>

lemma GetTracker_owner:
  assumes "GetTrackerForUser env u i s = Inr t" "u \<noteq> ''root''"
  shows "\<exists>r \<in> set (ag_tasks s). tr_username r = u \<and> (i \<noteq> '''' \<longrightarrow> tr_task_id r = i) \<and>
    (case map_of (ag_trackers s) (tr_task_id r) of
       Some live \<Rightarrow> t = live | None \<Rightarrow> tk_Phase t \<in> {COMPLETED, FAILED})"
proof -
  have row: "\<exists>r \<in> set (ag_tasks s). scanTask r = record' \<and> (i \<noteq> '''' \<longrightarrow> tr_task_id r = i)"
    if "(if i = '''' then GetLatestTaskForUser (av_db env) u (ag_tasks s) else GetTask (av_db env) i (ag_tasks s)) = Inr (Some record')"
    for record'
  proof (cases "i = ''''")
    case True
    then have "GetLatestTaskForUser (av_db env) u (ag_tasks s) = Inr (Some record')" using that by simp
    then obtain r where "latest_row (filter (\<lambda>r. tr_username r = u) (ag_tasks s)) = Some r" "scanTask r = record'"
      by (auto simp: GetLatestTaskForUser_def split: if_splits)
    then show ?thesis using True latest_row_max by force
  next
    case False
    then have "GetTask (av_db env) i (ag_tasks s) = Inr (Some record')" using that by simp
    then obtain r where "row_find tr_task_id i (ag_tasks s) = Some r" "scanTask r = record'"
      by (auto simp: GetTask_def split: if_splits)
    then show ?thesis using row_find_key [of tr_task_id i "ag_tasks s" r] by auto
  qed
  from assms obtain record' where r: "(if i = '''' then GetLatestTaskForUser (av_db env) u (ag_tasks s) else GetTask (av_db env) i (ag_tasks s)) = Inr (Some record')"
    "Username record' = u"
    "(case GetTracker (TaskID record') s of Inr t \<Rightarrow> Inr t | Inl _ \<Rightarrow> storedTracker env record') = Inr t"
    by (auto simp: GetTrackerForUser_def split: sum.splits option.splits if_splits)
  from row [OF r(1)] obtain r' where r': "r' \<in> set (ag_tasks s)" "scanTask r' = record'" "i \<noteq> '''' \<longrightarrow> tr_task_id r' = i" by blast
  then have f: "TaskID record' = tr_task_id r'" "Username record' = tr_username r'" by (auto simp: scanTask_def)
  have "case map_of (ag_trackers s) (tr_task_id r') of Some live \<Rightarrow> t = live | None \<Rightarrow> tk_Phase t \<in> {COMPLETED, FAILED}"
    using r(3) f(1) by (auto simp: GetTracker_def storedTracker_def Let_def split: option.splits if_splits)
  then show ?thesis using r' f r(2) by auto
qed

end
