(* ===== verification/Vault_Restore.thy ===== *)
theory Vault_Restore
  imports Vault_PullRestore Vault_Retry
begin

text \<open>
  The agent's side of a restore (\<open>internal/agent/orchestrator\<close>): where it may go, how the
  stream is written to a temporary directory next to the target, and how that directory takes
  the target's place. The temporary name and the process's umask are arguments. A directory
  tree has no hard links; symbolic links on the way to a path are followed as the system does.
\<close>

section \<open>Symbolic links\<close>

text \<open>
  How the system finds a directory: component by component, the text of a symbolic link taking the
  link's place, at most \<open>n\<close> links in all. \<open>cur\<close> is the directory reached, as the path without links that
  the tree is keyed by.
\<close>

datatype look_err = ENOENT | ENOTDIR | ELOOP

function resolve :: "tree \<Rightarrow> nat \<Rightarrow> string list \<Rightarrow> string list \<Rightarrow> look_err + string list" where
  "resolve fs n cur [] = Inr cur"
| "resolve fs n cur (c # cs) =
     (if c = [] \<or> c = ''.'' then resolve fs n cur cs
      else if c = ''..'' then resolve fs n (butlast cur) cs
      else case f_get (cur @ [c]) fs of
          None \<Rightarrow> Inl ENOENT
        | Some (NDir _) \<Rightarrow> resolve fs n (cur @ [c]) cs
        | Some (NFile _ _ _) \<Rightarrow> Inl ENOTDIR
        | Some (NLink text) \<Rightarrow>
            if n = 0 then Inl ELOOP
            else if text = [] then Inl ENOENT
            else resolve fs (n - 1) (if is_abs text then [] else cur) (split_on CHR ''/'' text @ cs))"
  by pat_completeness auto
termination
  by (relation "measures [\<lambda>(fs, n, cur, cs). n, \<lambda>(fs, n, cur, cs). length cs]") auto

text \<open>A path is looked up in the directory its parent resolves to; Linux follows 40 links.\<close>

definition max_links :: nat where "max_links = 40"

definition real_path :: "string \<Rightarrow> tree \<Rightarrow> look_err + string" where
  "real_path p fs =
     (if abs_comps p = [] then Inr ''/''
      else case resolve fs max_links [] (abs_comps (Dir p)) of
          Inl e \<Rightarrow> Inl e
        | Inr d \<Rightarrow> Inr (abs_path (d @ [last (abs_comps p)])))"

section \<open>Where a restore may go\<close>

definition hasPathPrefix :: "string \<Rightarrow> string \<Rightarrow> bool" where
  "hasPathPrefix path prefx = rel_below (Rel prefx path)"

text \<open>\<open>lookup_id\<close> is the system's user database: name and home directory of a user id.\<close>

definition userHomeDir :: "(nat \<Rightarrow> (string \<times> string) option) \<Rightarrow> string \<Rightarrow> nat \<Rightarrow> string result" where
  "userHomeDir lookup_id username uid =
     (case lookup_id uid of
        None \<Rightarrow> Inl (Wrap ''lookup user home'' (Errorf ''user: unknown userid''))
      | Some (name, home) \<Rightarrow>
          if name \<noteq> username then Inl (Errorf ''username %q does not match uid %d'')
          else if home = [] then Inl (Errorf ''user %q has no home directory'')
          else Inr home)"

text \<open>
  \<open>os.Lstat\<close> follows no link at the end of the path, but those on the way. \<open>None\<close> is the error that
  \<open>os.IsNotExist\<close> recognises; \<open>lstat_at\<close> is the call on a path that has no links on its way.
\<close>

definition lstat_at :: "fs_faults \<Rightarrow> string list \<Rightarrow> tree \<Rightarrow> node option result" where
  "lstat_at fl p fs =
     (if fl LstatOp p then Inl (Errorf ''lstat'')
      else Inr (if p = [] then Some (NDir 0) else f_get p fs))"

definition lstat :: "fs_faults \<Rightarrow> string \<Rightarrow> tree \<Rightarrow> node option result" where
  "lstat fl p fs =
     (case real_path p fs of
        Inl ENOENT \<Rightarrow> Inr None
      | Inl _ \<Rightarrow> Inl (Errorf ''lstat'')
      | Inr r \<Rightarrow> lstat_at fl (abs_comps r) fs)"

definition validateOwner :: "node \<Rightarrow> nat \<Rightarrow> unit result" where
  "validateOwner n uid =
     (let owner = (case n of NDir u \<Rightarrow> u | NFile _ _ u \<Rightarrow> u | NLink _ \<Rightarrow> 0) in
      if owner \<noteq> uid then Inl (Errorf ''restore target must be owned by uid %d'') else Inr ())"

text \<open>The three checks on an existing target or, when there is none, on its parent.\<close>

definition validatePlace :: "string \<Rightarrow> node \<Rightarrow> nat \<Rightarrow> unit result" where
  "validatePlace what n uid =
     (case n of
        NLink _ \<Rightarrow> Inl (Errorf (''restore '' @ what @ '' must not be a symlink''))
      | NFile _ _ _ \<Rightarrow> Inl (Errorf (''restore '' @ what @ '' must be a directory''))
      | NDir _ \<Rightarrow> validateOwner n uid)"

definition validateRestoreTarget ::
  "fs_faults \<Rightarrow> (nat \<Rightarrow> (string \<times> string) option) \<Rightarrow> string \<Rightarrow> nat \<Rightarrow> string \<Rightarrow> tree \<Rightarrow> string result" where
  "validateRestoreTarget fl lookup_id username uid reqPath fs =
     bindE (userHomeDir lookup_id username uid) (\<lambda>home.
     let t0 = (if reqPath = [] then Join [home, ''restored''] else reqPath);
         t1 = (if \<not> is_abs t0 then Join [home, t0] else t0);
         homeDir = Clean home; target = Clean t1
     in if target \<noteq> homeDir \<and> \<not> hasPathPrefix target homeDir
        then Inl (Errorf ''restore target must be inside %s'')
        else case lstat fl target fs of
          Inl e \<Rightarrow> Inl (Wrap ''inspect restore target'' e)
        | Inr (Some n) \<Rightarrow> bindE (validatePlace ''target'' n uid) (\<lambda>_. Inr target)
        | Inr None \<Rightarrow>
            (case lstat fl (Dir target) fs of
               Inl e \<Rightarrow> Inl (Wrap ''inspect restore parent'' e)
             | Inr None \<Rightarrow> Inl (Wrap ''inspect restore parent'' (Errorf ''file does not exist''))
             | Inr (Some n) \<Rightarrow> bindE (validatePlace ''parent'' n uid) (\<lambda>_. Inr target)))"

definition restoreTargetPath :: "string \<Rightarrow> string \<Rightarrow> string result" where
  "restoreTargetPath base path =
     (let c = Clean path; cleanPath = (if is_abs c then tl c else c); target = Join [base, cleanPath] in
      if target \<noteq> base \<and> \<not> hasPathPrefix target base
      then Inl (Errorf ''restore path traversal detected: %q'') else Inr target)"

section \<open>Writing\<close>

record restore_writer =
  rw_name :: "string list"
  rw_nextOffset :: "64 word"
  rw_mode :: "32 word"

record restore_state =
  rs_tree :: tree
  rs_writers :: "(string \<times> restore_writer) list"
  rs_tracker :: tracker

text \<open>
  What the process brings along: faults, umask, and how the tracker counts a transfer.
\<close>

record restore_env =
  re_fs :: fs_faults
  re_umask :: "32 word"
  re_add :: "int \<Rightarrow> int \<Rightarrow> tracker \<Rightarrow> tracker"

definition parent_ok :: "string list \<Rightarrow> tree \<Rightarrow> bool" where
  "parent_ok p fs \<longleftrightarrow> butlast p = [] \<or> is_dir (f_get (butlast p) fs)"

text \<open>
  \<open>os.WriteFile\<close>: truncates what is there, and gives a new file the mode less the umask. Of the mode only
  the permission bits are kept; those are what a server sends.
\<close>

definition os_WriteFile ::
  "restore_env \<Rightarrow> string list \<Rightarrow> bytes \<Rightarrow> 32 word \<Rightarrow> tree \<Rightarrow> tree \<times> unit result" where
  "os_WriteFile env p content mode fs =
     (if p = [] \<or> re_fs env CreateOp p \<or> \<not> parent_ok p fs \<or> is_dir (f_get p fs) \<or> is_link (f_get p fs)
      then (fs, Inl (Errorf ''open''))
      else let fs1 = (case f_get p fs of
                        Some (NFile c m u) \<Rightarrow> f_put (p, NFile [] m u) fs
                      | _ \<Rightarrow> f_put (p, NFile [] (and (perm mode) (not (re_umask env))) 0) fs)
        in if re_fs env WriteOp p then (fs1, Inl (Errorf ''write'')) else (append_file p content fs1, Inr ()))"

text \<open>\<open>os.OpenFile\<close> with \<open>O_CREATE|O_EXCL\<close>.\<close>

definition open_excl :: "restore_env \<Rightarrow> string list \<Rightarrow> tree \<Rightarrow> tree result" where
  "open_excl env p fs =
     (if p = [] \<or> re_fs env CreateOp p \<or> \<not> parent_ok p fs \<or> f_get p fs \<noteq> None then Inl (Errorf ''open'')
      else Inr (f_put (p, NFile [] (and 0x180 (not (re_umask env))) 0) fs))"

definition writeRestoredFile ::
  "restore_env \<Rightarrow> string \<Rightarrow> file_entry \<Rightarrow> (restore_state, unit) step" where
  "writeRestoredFile env base f s =
     (case restoreTargetPath base (fe_Path f) of
        Inl e \<Rightarrow> (s, Inl e)
      | Inr target \<Rightarrow>
          if fe_Deleted f then (s, Inr ())
          else case mkdir_all (re_fs env) (abs_comps (Dir target)) (rs_tree s) of
            Inl e \<Rightarrow> (s, Inl (Wrap ''create restore parent'' e))
          | Inr t1 \<Rightarrow>
              (case os_WriteFile env (abs_comps target) (fe_Content f) (fe_Mode f) t1 of
                 (t2, r) \<Rightarrow> (s\<lparr>rs_tree := t2\<rparr>, mapErr (Wrap ''write restored file %q'') r)))"

definition putWriter :: "string \<Rightarrow> restore_writer \<Rightarrow> restore_state \<Rightarrow> restore_state" where
  "putWriter path w s = s\<lparr>rs_writers := AList.update path w (rs_writers s)\<rparr>"

definition openRestoredChunk ::
  "restore_env \<Rightarrow> string \<Rightarrow> file_entry \<Rightarrow> (restore_state, restore_writer) step" where
  "openRestoredChunk env base f s =
     (case map_of (rs_writers s) (fe_Path f) of
        Some w \<Rightarrow> (s, Inr w)
      | None \<Rightarrow>
          if fe_ChunkOffset f \<noteq> 0 then (s, Inl (Errorf ''first restore chunk offset is %d, want 0''))
          else case restoreTargetPath base (fe_Path f) of
            Inl e \<Rightarrow> (s, Inl e)
          | Inr target \<Rightarrow>
              (case mkdir_all (re_fs env) (abs_comps (Dir target)) (rs_tree s) of
                 Inl e \<Rightarrow> (s, Inl (Wrap ''create restore parent'' e))
               | Inr t1 \<Rightarrow>
                   (case open_excl env (abs_comps target) t1 of
                      Inl e \<Rightarrow> (s\<lparr>rs_tree := t1\<rparr>, Inl (Wrap ''create chunked restore file %q'' e))
                    | Inr t2 \<Rightarrow>
                        (let w = \<lparr>rw_name = abs_comps target, rw_nextOffset = 0, rw_mode = fe_Mode f\<rparr>
                         in (putWriter (fe_Path f) w (s\<lparr>rs_tree := t2\<rparr>), Inr w)))))"

definition writeRestoredChunk ::
  "restore_env \<Rightarrow> string \<Rightarrow> file_entry \<Rightarrow> (restore_state, unit) step" where
  "writeRestoredChunk env base f =
     (if fe_Deleted f then failS (Errorf ''chunked restore entry may not be a delete marker'')
      else bindS (openRestoredChunk env base f) (\<lambda>w s.
        if fe_ChunkOffset f \<noteq> rw_nextOffset w then (s, Inl (Errorf ''restore chunk offset is %d, want %d''))
        else if fe_Mode f \<noteq> rw_mode w then (s, Inl (Errorf ''restore chunk mode changed from %#o to %#o''))
        else if re_fs env WriteOp (rw_name w) then (s, Inl (Wrap ''write restore chunk %q'' (Errorf ''write'')))
        else let t1 = append_file (rw_name w) (fe_Content f) (rs_tree s);
                 w' = w\<lparr>rw_nextOffset := rw_nextOffset w + of_nat (length (fe_Content f))\<rparr>;
                 s1 = putWriter (fe_Path f) w' (s\<lparr>rs_tree := t1\<rparr>)
          in if \<not> fe_FinalChunk f then (s1, Inr ())
             else if re_fs env CloseOp (rw_name w)
             then (s1, Inl (Wrap ''close chunked restore file %q'' (Errorf ''close'')))
             else if re_fs env ChmodOp (rw_name w)
             then (s1, Inl (Wrap ''chmod chunked restore file %q'' (Errorf ''chmod'')))
             else (s1\<lparr>rs_tree := chmod_file (rw_name w) (perm (fe_Mode f)) t1,
                       rs_writers := AList.delete (fe_Path f) (rs_writers s1)\<rparr>, Inr ())))"

definition countTransfer :: "restore_env \<Rightarrow> int \<Rightarrow> bytes \<Rightarrow> (restore_state, unit) step" where
  "countTransfer env files content =
     updateS (\<lambda>s. s\<lparr>rs_tracker := re_add env files (int (length content)) (rs_tracker s)\<rparr>)"

definition restoreEntry :: "restore_env \<Rightarrow> string \<Rightarrow> file_entry \<Rightarrow> (restore_state, unit) step" where
  "restoreEntry env base f s =
     (if fe_Chunked f
      then bindS (writeRestoredChunk env base f)
             (\<lambda>_. countTransfer env (if fe_FinalChunk f then 1 else 0) (fe_Content f)) s
      else if map_of (rs_writers s) (fe_Path f) \<noteq> None
      then (s, Inl (Errorf ''restore file %q has an unfinished chunked write''))
      else bindS (writeRestoredFile env base f) (\<lambda>_. countTransfer env 1 (fe_Content f)) s)"

text \<open>The receiving loop; the end of the list is \<open>io.EOF\<close>.\<close>

fun restoreLoop :: "restore_env \<Rightarrow> string \<Rightarrow> restore_batch result list \<Rightarrow> (restore_state, unit) step" where
  "restoreLoop env base [] = failS (Errorf ''restore stream ended before final batch'')"
| "restoreLoop env base (Inl e # rest) = failS (Wrap ''receive restore batch'' e)"
| "restoreLoop env base (Inr b # rest) =
     (if rb_IsLast b then returnS ()
      else bindS (foldS (restoreEntry env base) (rb_Files b)) (\<lambda>_. restoreLoop env base rest))"

definition abortRestoreChunks :: "fs_faults \<Rightarrow> (string \<times> restore_writer) list \<Rightarrow> tree \<Rightarrow> tree" where
  "abortRestoreChunks fl ws fs = fold (\<lambda>(path, w). cleanup_tmp fl (rw_name w)) ws fs"

section \<open>Whole directories\<close>

text \<open>
  \<open>os.RemoveAll\<close>: what cannot be removed stays, with the directories above it, and makes the
  call fail.
\<close>

definition undeletable :: "fs_faults \<Rightarrow> string list \<Rightarrow> tree \<Rightarrow> string list \<Rightarrow> bool" where
  "undeletable fl p fs q \<longleftrightarrow>
     list_ex (\<lambda>e. prefix p (fst e) \<and> prefix q (fst e) \<and> fl RemoveOp (fst e)) fs"

definition remove_all :: "fs_faults \<Rightarrow> string list \<Rightarrow> tree \<Rightarrow> tree \<times> unit result" where
  "remove_all fl p fs =
     (filter (\<lambda>e. \<not> prefix p (fst e) \<or> undeletable fl p fs (fst e)) fs,
      if list_ex (\<lambda>e. prefix p (fst e) \<and> fl RemoveOp (fst e)) fs then Inl (Errorf ''unlinkat'') else Inr ())"

definition mkdir_temp :: "fs_faults \<Rightarrow> string list \<Rightarrow> tree \<Rightarrow> tree result" where
  "mkdir_temp fl p fs =
     (if fl MkdirAllOp p \<or> \<not> parent_ok p fs \<or> f_get p fs \<noteq> None then Inl (Errorf ''mkdir'')
      else Inr (f_put (p, NDir 0) fs))"

definition moved :: "string list \<Rightarrow> string list \<Rightarrow> string list \<Rightarrow> string list" where
  "moved p q k = (if prefix p k then q @ drop (length p) k else k)"

definition rename_dir :: "fs_faults \<Rightarrow> string list \<Rightarrow> string list \<Rightarrow> tree \<Rightarrow> tree result" where
  "rename_dir fl p q fs =
     (if fl RenameOp q \<or> f_get q fs \<noteq> None then Inl (Errorf ''rename'')
      else Inr (map (\<lambda>(k, n). (moved p q k, n)) fs))"

definition set_owner :: "nat \<Rightarrow> node \<Rightarrow> node" where
  "set_owner uid n = (case n of NDir _ \<Rightarrow> NDir uid | NFile c m _ \<Rightarrow> NFile c m uid | NLink text \<Rightarrow> NLink text)"

definition chown_visit :: "fs_faults \<Rightarrow> nat \<Rightarrow> string list \<Rightarrow> (tree, unit) step" where
  "chown_visit fl uid p fs =
     (if fl LstatOp p then (fs, Inl (Errorf ''lstat''))
      else if fl ChownOp p then (fs, Inl (Wrap ''set restore ownership for %q'' (Errorf ''lchown'')))
      else (case f_get p fs of None \<Rightarrow> fs | Some n \<Rightarrow> f_put (p, set_owner uid n) fs, Inr ()))"

definition chownRestoreTree :: "fs_faults \<Rightarrow> string list \<Rightarrow> nat \<Rightarrow> (tree, unit) step" where
  "chownRestoreTree fl base uid fs = foldS (chown_visit fl uid) (walk_paths base fs) fs"

text \<open>From the finished temporary directory to the target.\<close>

definition publishRestore ::
  "fs_faults \<Rightarrow> string list \<Rightarrow> string list \<Rightarrow> nat \<Rightarrow> tree \<Rightarrow> tree \<times> bool \<times> unit result" where
  "publishRestore fl tmpDir target uid fs =
     (case lstat_at fl target fs of
        Inl e \<Rightarrow> (fs, True, Inl (Wrap ''inspect restore target before rename'' e))
      | Inr (Some (NLink _)) \<Rightarrow> (fs, True, Inl (Errorf ''restore target must not be a symlink''))
      | Inr _ \<Rightarrow>
          (case remove_all fl target fs of
             (fs1, Inl e) \<Rightarrow> (fs1, True, Inl (Wrap ''remove existing restore target'' e))
           | (fs1, Inr _) \<Rightarrow>
               (case rename_dir fl tmpDir target fs1 of
                  Inl e \<Rightarrow> (fs1, True, Inl (Wrap ''rename restore temp dir'' e))
                | Inr fs2 \<Rightarrow>
                    (case chownRestoreTree fl target uid fs2 of
                       (fs3, Inl e) \<Rightarrow> (fst (remove_all fl target fs3), False, Inl e)
                     | (fs3, Inr _) \<Rightarrow> (fs3, False, Inr ())))))"

text \<open>
  The boolean of \<open>publishRestore\<close> is the variable \<open>cleanup\<close>: whether the deferred function
  still removes the temporary directory.
\<close>

definition restoreInto ::
  "restore_env \<Rightarrow> string \<Rightarrow> restore_batch result list \<Rightarrow> string \<Rightarrow> nat \<Rightarrow> tracker \<Rightarrow> tree \<Rightarrow>
   tree \<times> tracker \<times> unit result" where
  "restoreInto env tmp stream reqPath uid tk fs =
     (let fl = re_fs env; tmpDir = abs_comps (Dir reqPath) @ [tmp] in
      case mkdir_temp fl tmpDir fs of
        Inl e \<Rightarrow> (fs, tk, Inl (Wrap ''create restore temp dir'' e))
      | Inr fs1 \<Rightarrow>
          (case restoreLoop env (abs_path tmpDir) stream \<lparr>rs_tree = fs1, rs_writers = [], rs_tracker = tk\<rparr> of
             (s, Inl e) \<Rightarrow>
               (fst (remove_all fl tmpDir (abortRestoreChunks fl (rs_writers s) (rs_tree s))), rs_tracker s, Inl e)
           | (s, Inr _) \<Rightarrow>
               if rs_writers s \<noteq> []
               then (fst (remove_all fl tmpDir (abortRestoreChunks fl (rs_writers s) (rs_tree s))), rs_tracker s,
                     Inl (Errorf ''restore stream ended with incomplete chunked file''))
               else (case publishRestore fl tmpDir (abs_comps reqPath) uid (rs_tree s) of
                  (fs2, cleanup, r) \<Rightarrow>
                    (if cleanup then fst (remove_all fl tmpDir fs2) else fs2, rs_tracker s, r))))"

text \<open>
  Every call takes the target or a path beside it, so all of them go to the directory the target's
  parent resolves to. It is resolved once, where \<open>MkdirTemp\<close> meets it: the tree is the restore's own while it
  runs, and it makes no links.
\<close>

definition restoreFromStream ::
  "restore_env \<Rightarrow> string \<Rightarrow> restore_batch result list \<Rightarrow> string \<Rightarrow> nat \<Rightarrow> tracker \<Rightarrow> tree \<Rightarrow>
   tree \<times> tracker \<times> unit result" where
  "restoreFromStream env tmp stream reqPath uid tk fs =
     (case real_path reqPath fs of
        Inl e \<Rightarrow> (fs, tk, Inl (Wrap ''create restore temp dir'' (Errorf ''mkdir'')))
      | Inr p \<Rightarrow> restoreInto env tmp stream p uid tk fs)"

section \<open>Confinement\<close>

definition clean_abs :: "string \<Rightarrow> bool" where
  "clean_abs p \<longleftrightarrow> is_abs p \<and> Clean p = p"

lemma clean_abs_path: "clean_abs p \<longleftrightarrow> (\<exists>ns. normals ns \<and> p = abs_path ns)"
  unfolding clean_abs_def by (metis Clean_abs Clean_abs_path abs_comps_normals is_abs_abs_path)

lemma restoreTargetPath_below:
  assumes "clean_abs base" "restoreTargetPath base name = Inr p"
  shows "\<exists>ws. p = abs_path (abs_comps base @ ws) \<and> normals ws"
proof -
  from assms(1) have b: "is_abs base" "base = abs_path (abs_comps base)"
    by (auto simp: clean_abs_def Clean_abs)
  define c where "c = (if is_abs (Clean name) then tl (Clean name) else Clean name)"
  have p: "p = Join [base, c]" "p = base \<or> hasPathPrefix p base"
    using assms(2) by (auto simp: restoreTargetPath_def Let_def c_def split: if_splits)
  have a: "is_abs p" "p = abs_path (abs_comps p)" using Join_abs [OF b(1), of c] p(1) by auto
  show ?thesis
  proof (cases "p = base")
    case True
    then show ?thesis using b(2) by (intro exI [of _ "[]"]) simp
  next
    case False
    then have "hasPathPrefix p base" using p(2) by blast
    then obtain r where "abs_comps p = abs_comps base @ r"
      using rel_below_abs [OF b(1) a(1)] by (auto simp: hasPathPrefix_def)
    then show ?thesis using a(2) abs_comps_normals [of p] by (intro exI [of _ r]) (metis normals_simps(3))
  qed
qed

interpretation restore_paths: confined_resolver restoreTargetPath clean_abs False
  using restoreTargetPath_below by unfold_locales simp

lemma restoreTargetPath_plain:
  assumes "normals ns" "normals ws" "ws \<noteq> []"
  shows "restoreTargetPath (abs_path ns) (path_join ws) = Inr (abs_path (ns @ ws))"
proof -
  have c: "Clean (path_join ws) = path_join ws" "\<not> is_abs (path_join ws)" using Clean_path_join [OF assms(2,3)] by auto
  have j: "Join [abs_path ns, path_join ws] = abs_path (ns @ ws)"
    using Join_abs_normals(1) [of "abs_path ns" ws] assms by simp
  have "rel_below (Rel (abs_path ns) (abs_path (ns @ ws)))"
    using rel_below_abs [of "abs_path ns" "abs_path (ns @ ws)"] assms by auto
  then show ?thesis using c j by (simp add: restoreTargetPath_def Let_def hasPathPrefix_def)
qed

text \<open>Where a restore may go: the caller's own home directory or below it.\<close>

lemma validateRestoreTarget_inside:
  assumes "validateRestoreTarget fl lookup u uid req fs = Inr target"
  obtains home where "lookup uid = Some (u, home)" "home \<noteq> []" "clean_abs target \<or> \<not> is_abs home"
    "is_abs home \<Longrightarrow> prefix (abs_comps home) (abs_comps target)"
proof -
  obtain home where h: "userHomeDir lookup u uid = Inr home"
    using assms by (auto simp: validateRestoreTarget_def bindE_def split: sum.splits)
  define t0 where "t0 = (if req = [] then Join [home, ''restored''] else req)"
  define t1 where "t1 = (if \<not> is_abs t0 then Join [home, t0] else t0)"
  have t: "target = Clean t1" "target = Clean home \<or> hasPathPrefix target (Clean home)"
    using assms h
    by (auto simp: validateRestoreTarget_def t0_def t1_def Let_def result_simps split: if_splits sum.splits option.splits)
  have hm: "lookup uid = Some (u, home)" "home \<noteq> []"
    using h by (auto simp: userHomeDir_def split: option.splits prod.splits if_splits)
  have abs: "is_abs t1" if "is_abs home" using Join_abs(2) [OF that] by (simp add: t1_def)
  then have ca: "clean_abs target \<or> \<not> is_abs home" using t(1) by (auto simp: clean_abs_def Clean_abs)
  have "prefix (abs_comps home) (abs_comps target)" if "is_abs home"
  proof (cases "target = Clean home")
    case True
    then show ?thesis using that by simp
  next
    case False
    then have "hasPathPrefix target (Clean home)" using t(2) by blast
    then show ?thesis
      using rel_below_abs [of "Clean home" target] that abs [OF that] t(1) by (auto simp: hasPathPrefix_def prefix_def)
  qed
  then show thesis using that hm ca by blast
qed

section \<open>What a restore leaves alone\<close>

text \<open>Nothing outside the temporary directory changes while the stream is received.\<close>

definition same_outside :: "string list \<Rightarrow> tree \<Rightarrow> tree \<Rightarrow> bool" where
  "same_outside d t0 t \<longleftrightarrow> (\<forall>q. \<not> prefix d q \<longrightarrow> file_at q t = file_at q t0)"

definition writers_in :: "string list \<Rightarrow> (string \<times> restore_writer) list \<Rightarrow> bool" where
  "writers_in d ws \<longleftrightarrow> (\<forall>x \<in> set ws. prefix d (rw_name (snd x)))"

definition receiving :: "string list \<Rightarrow> tree \<Rightarrow> restore_state \<Rightarrow> bool" where
  "receiving d t0 s \<longleftrightarrow> same_outside d t0 (rs_tree s) \<and> writers_in d (rs_writers s)"

lemma same_outside_step:
  "same_outside d t0 t \<Longrightarrow> (\<And>q. \<not> prefix d q \<Longrightarrow> file_at q t' = file_at q t) \<Longrightarrow> same_outside d t0 t'"
  by (simp add: same_outside_def)

lemma os_WriteFile_other: "q \<noteq> p \<Longrightarrow> file_at q (fst (os_WriteFile env p c m t)) = file_at q t"
  by (auto simp: os_WriteFile_def Let_def append_file_other file_at_put split: option.splits node.splits)

lemma open_excl_other: "open_excl env p t = Inr t' \<Longrightarrow> q \<noteq> p \<Longrightarrow> file_at q t' = file_at q t"
  by (auto simp: open_excl_def file_at_put split: if_splits)

lemma restore_target_prefix:
  assumes "normals d" "restoreTargetPath (abs_path d) name = Inr target"
  shows "prefix d (abs_comps target)"
  using restore_paths.resolved_prefix [of "abs_path d" name target] assms by (auto simp: clean_abs_path)

lemma writeRestoredFile_receiving:
  assumes d: "normals d"
  shows "keeps (receiving d t0) (writeRestoredFile env (abs_path d) f)"
proof (rule keepsI)
  fix s assume s: "receiving d t0 s"
  show "receiving d t0 (fst (writeRestoredFile env (abs_path d) f s))"
  proof (cases "restoreTargetPath (abs_path d) (fe_Path f)")
    case (Inl e)
    then show ?thesis using s by (simp add: writeRestoredFile_def)
  next
    case (Inr target)
    have p: "prefix d (abs_comps target)" using restore_target_prefix [OF d Inr] .
    show ?thesis
    proof (cases "\<exists>t1. \<not> fe_Deleted f \<and> mkdir_all (re_fs env) (abs_comps (Dir target)) (rs_tree s) = Inr t1")
      case False
      then show ?thesis using s Inr by (auto simp: writeRestoredFile_def split: sum.split)
    next
      case True
      then obtain t1 where t1: "\<not> fe_Deleted f" "mkdir_all (re_fs env) (abs_comps (Dir target)) (rs_tree s) = Inr t1" by blast
      let ?t = "fst (os_WriteFile env (abs_comps target) (fe_Content f) (fe_Mode f) t1)"
      have "same_outside d t0 ?t"
      proof (rule same_outside_step [of d t0 "rs_tree s"])
        show "same_outside d t0 (rs_tree s)" using s by (simp add: receiving_def)
        fix q assume "\<not> prefix d q"
        then have "q \<noteq> abs_comps target" using p by blast
        then show "file_at q ?t = file_at q (rs_tree s)"
          using os_WriteFile_other mkdir_all_files [OF t1(2)] by metis
      qed
      then show ?thesis using s Inr t1 by (simp add: writeRestoredFile_def receiving_def case_prod_beta)
    qed
  qed
qed

lemma writers_update: "writers_in d ws \<Longrightarrow> prefix d (rw_name w) \<Longrightarrow> writers_in d (AList.update p w ws)"
proof -
  have "x \<in> set (AList.update p w ws) \<Longrightarrow> snd x = w \<or> x \<in> set ws" for x
    by (induction ws) (auto split: if_splits)
  then show "writers_in d ws \<Longrightarrow> prefix d (rw_name w) \<Longrightarrow> writers_in d (AList.update p w ws)"
    unfolding writers_in_def by metis
qed

lemma writers_delete: "writers_in d ws \<Longrightarrow> writers_in d (AList.delete p ws)"
  by (auto simp: writers_in_def AList.delete_eq)

lemma openRestoredChunk_cases:
  assumes "openRestoredChunk env base f s = (s', r)"
  obtains (known) w where "map_of (rs_writers s) (fe_Path f) = Some w" "s' = s" "r = Inr w"
  | (refused) "s' = s" "\<not> is_ok r"
  | (not_created) target t1 where "restoreTargetPath base (fe_Path f) = Inr target"
      "mkdir_all (re_fs env) (abs_comps (Dir target)) (rs_tree s) = Inr t1" "s' = s\<lparr>rs_tree := t1\<rparr>" "\<not> is_ok r"
  | (created) target t1 t2 w where "map_of (rs_writers s) (fe_Path f) = None" "fe_ChunkOffset f = 0"
      "restoreTargetPath base (fe_Path f) = Inr target"
      "mkdir_all (re_fs env) (abs_comps (Dir target)) (rs_tree s) = Inr t1"
      "open_excl env (abs_comps target) t1 = Inr t2"
      "w = \<lparr>rw_name = abs_comps target, rw_nextOffset = 0, rw_mode = fe_Mode f\<rparr>"
      "s' = putWriter (fe_Path f) w (s\<lparr>rs_tree := t2\<rparr>)" "r = Inr w"
proof (cases "map_of (rs_writers s) (fe_Path f)")
  case (Some w)
  show thesis by (rule known [OF Some]) (use Some assms in \<open>simp_all add: openRestoredChunk_def\<close>)
next
  case None
  show thesis
  proof (cases "fe_ChunkOffset f = 0")
    case False
    show thesis by (rule refused) (use False None assms in \<open>auto simp: openRestoredChunk_def\<close>)
  next
    case True
    note z = None True
    show thesis
    proof (cases "restoreTargetPath base (fe_Path f)")
      case (Inl e)
      show thesis by (rule refused) (use Inl z assms in \<open>auto simp: openRestoredChunk_def\<close>)
    next
      case (Inr target)
      note t = Inr
      show thesis
      proof (cases "mkdir_all (re_fs env) (abs_comps (Dir target)) (rs_tree s)")
        case (Inl e)
        show thesis by (rule refused) (use Inl z t assms in \<open>auto simp: openRestoredChunk_def\<close>)
      next
        case (Inr t1)
        note m = Inr
        show thesis
        proof (cases "open_excl env (abs_comps target) t1")
          case (Inl e)
          show thesis by (rule not_created [OF t m]) (use Inl z t m assms in \<open>auto simp: openRestoredChunk_def\<close>)
        next
          case (Inr t2)
          show thesis by (rule created [OF z t m Inr refl]) (use z t m Inr assms in \<open>simp_all add: openRestoredChunk_def Let_def\<close>)
        qed
      qed
    qed
  qed
qed

lemma openRestoredChunk_receiving:
  assumes d: "normals d" and s: "receiving d t0 s" and o: "openRestoredChunk env (abs_path d) f s = (s', r)"
  shows "receiving d t0 s' \<and> (\<forall>w. r = Inr w \<longrightarrow> prefix d (rw_name w))"
  using o
proof (cases rule: openRestoredChunk_cases)
  case (known w)
  then have "prefix d (rw_name w)" using s map_of_SomeD by (force simp: receiving_def writers_in_def)
  then show ?thesis using known s by auto
next
  case refused
  then show ?thesis using s by auto
next
  case (not_created target t1)
  have "same_outside d t0 t1"
    using same_outside_step [of d t0 "rs_tree s" t1] s mkdir_all_files [OF not_created(2)] by (simp add: receiving_def)
  then show ?thesis using not_created s by (auto simp: receiving_def)
next
  case (created target t1 t2 w)
  have p: "prefix d (abs_comps target)" using restore_target_prefix [OF d created(3)] .
  have "same_outside d t0 t1"
    using same_outside_step [of d t0 "rs_tree s" t1] s mkdir_all_files [OF created(4)] by (simp add: receiving_def)
  then have "same_outside d t0 t2"
    by (rule same_outside_step) (metis open_excl_other [OF created(5)] p)
  moreover have "writers_in d (AList.update (fe_Path f) w (rs_writers s))"
    using s p created(6) by (intro writers_update) (simp_all add: receiving_def)
  ultimately show ?thesis using created(6,7,8) p by (simp add: receiving_def putWriter_def)
qed

lemma writeRestoredChunk_receiving:
  assumes d: "normals d"
  shows "keeps (receiving d t0) (writeRestoredChunk env (abs_path d) f)"
  unfolding keeps_iff
proof (intro allI impI)
  fix s s' r assume s: "receiving d t0 s" and o: "writeRestoredChunk env (abs_path d) f s = (s', r)"
  obtain s1 r1 where op: "openRestoredChunk env (abs_path d) f s = (s1, r1)" by (rule prod.exhaust)
  note inv = openRestoredChunk_receiving [OF d s op]
  show "receiving d t0 s'"
  proof (cases "\<exists>w. \<not> fe_Deleted f \<and> r1 = Inr w")
    case False
    then show ?thesis using o op s inv by (cases r1) (auto simp: writeRestoredChunk_def failS_def bindS_def split: if_splits)
  next
    case True
    then obtain w where w: "\<not> fe_Deleted f" "r1 = Inr w" by blast
    have p: "prefix d (rw_name w)" and i1: "receiving d t0 s1" using inv w by auto
    define t1 where "t1 = append_file (rw_name w) (fe_Content f) (rs_tree s1)"
    define w' where "w' = w\<lparr>rw_nextOffset := rw_nextOffset w + of_nat (length (fe_Content f))\<rparr>"
    define s2 where "s2 = putWriter (fe_Path f) w' (s1\<lparr>rs_tree := t1\<rparr>)"
    have "same_outside d t0 t1"
      unfolding t1_def by (rule same_outside_step [of d t0 "rs_tree s1"]) (use i1 in \<open>simp add: receiving_def\<close>, metis append_file_other p)
    moreover then have "same_outside d t0 (chmod_file (rw_name w) (perm (fe_Mode f)) t1)"
      by (rule same_outside_step) (metis chmod_file_other p)
    moreover have "writers_in d (AList.update (fe_Path f) w' (rs_writers s1))"
      using i1 p by (auto simp: receiving_def w'_def intro!: writers_update)
    ultimately have i2: "receiving d t0 s2" and
      i3: "receiving d t0 (s2\<lparr>rs_tree := chmod_file (rw_name w) (perm (fe_Mode f)) t1,
                       rs_writers := AList.delete (fe_Path f) (rs_writers s2)\<rparr>)"
      by (simp_all add: receiving_def s2_def putWriter_def writers_delete)
    have "s' \<in> {s1, s2, s2\<lparr>rs_tree := chmod_file (rw_name w) (perm (fe_Mode f)) t1,
                       rs_writers := AList.delete (fe_Path f) (rs_writers s2)\<rparr>}"
      using o op w
      by (simp add: writeRestoredChunk_def bindS_def Let_def t1_def [symmetric] w'_def [symmetric] s2_def [symmetric]
          split: if_splits)
    then show ?thesis using i1 i2 i3 by auto
  qed
qed

lemma restoreEntry_receiving:
  assumes d: "normals d"
  shows "keeps (receiving d t0) (restoreEntry env (abs_path d) f)"
proof -
  have count: "keeps (receiving d t0) (countTransfer env n c)" for n c
    by (simp add: keeps_def countTransfer_def updateS_def receiving_def)
  have "keeps (receiving d t0) (bindS (writeRestoredChunk env (abs_path d) f) (\<lambda>_. countTransfer env n c))"
    and "keeps (receiving d t0) (bindS (writeRestoredFile env (abs_path d) f) (\<lambda>_. countTransfer env n c))" for n c
    using d count by (auto intro!: keeps_bind writeRestoredChunk_receiving writeRestoredFile_receiving)
  then show ?thesis by (simp add: keeps_def restoreEntry_def)
qed

lemma restoreLoop_receiving: "normals d \<Longrightarrow> keeps (receiving d t0) (restoreLoop env (abs_path d) stream)"
  by (induction env "abs_path d" stream rule: restoreLoop.induct)
    (auto intro!: keeps_intros restoreEntry_receiving)

text \<open>A stream that ends, or fails, before its final batch.\<close>

definition cut_off :: "restore_batch result list \<Rightarrow> bool" where
  "cut_off stream \<longleftrightarrow> list_all (\<lambda>m. case m of Inl _ \<Rightarrow> True | Inr b \<Rightarrow> \<not> rb_IsLast b) stream"

lemma restoreLoop_cut_off: "cut_off stream \<Longrightarrow> \<not> is_ok (snd (restoreLoop env base stream s))"
  by (induction env base stream arbitrary: s rule: restoreLoop.induct)
    (auto simp: cut_off_def failS_def bindS_def split: prod.splits sum.splits)

lemma abortRestoreChunks_outside:
  "writers_in d ws \<Longrightarrow> \<not> prefix d q \<Longrightarrow> file_at q (abortRestoreChunks fl ws t) = file_at q t"
proof (induction ws arbitrary: t)
  case Nil
  then show ?case by (simp add: abortRestoreChunks_def)
next
  case (Cons x ws)
  then have "q \<noteq> rw_name (snd x)" "writers_in d ws" by (auto simp: writers_in_def)
  then show ?case using Cons cleanup_tmp_other by (auto simp: abortRestoreChunks_def case_prod_unfold)
qed

lemma remove_all_outside: "\<not> prefix p q \<Longrightarrow> file_at q (fst (remove_all fl p t)) = file_at q t"
  using f_get_filter [of q "\<lambda>k. \<not> prefix p k \<or> undeletable fl p t k" t] by (simp add: remove_all_def file_at_def)

lemma mkdir_temp_outside: "mkdir_temp fl p t = Inr t' \<Longrightarrow> \<not> prefix p q \<Longrightarrow> file_at q t' = file_at q t"
  by (auto simp: mkdir_temp_def file_at_def f_get_put split: if_splits)

lemma moved_get: "\<not> prefix p x \<Longrightarrow> \<not> prefix q x \<Longrightarrow> map_of (map (\<lambda>(k, n). (moved p q k, n)) t) x = map_of t x"
  by (induction t) (auto simp: moved_def)

lemma rename_dir_outside:
  "rename_dir fl p q t = Inr t' \<Longrightarrow> \<not> prefix p x \<Longrightarrow> \<not> prefix q x \<Longrightarrow> file_at x t' = file_at x t"
  by (auto simp: rename_dir_def file_at_def f_get_def moved_get split: if_splits)

lemma chownRestoreTree_files: "file_at q (fst (chownRestoreTree fl base uid t)) = file_at q t"
proof -
  have "keeps (\<lambda>u. file_at q u = file_at q t) (chown_visit fl uid p)" for p
    by (auto simp: keeps_def chown_visit_def file_at_def f_get_put set_owner_def split: option.splits node.splits)
  then show ?thesis
    using keeps_foldS [of "walk_paths base t" "\<lambda>u. file_at q u = file_at q t" "chown_visit fl uid"]
    by (simp add: chownRestoreTree_def keeps_def)
qed

lemma dir_ops_outside:
  "remove_all fl p t = (t', r) \<Longrightarrow> \<not> prefix p q \<Longrightarrow> file_at q t' = file_at q t"
  "chownRestoreTree fl base uid t = (t', r) \<Longrightarrow> file_at q t' = file_at q t"
  using remove_all_outside chownRestoreTree_files by (metis fst_conv)+

lemma publishRestore_outside:
  assumes "publishRestore fl tmp target uid t = (t', c, r)" "\<not> prefix tmp q" "\<not> prefix target q"
  shows "file_at q t' = file_at q t"
  using assms
  by (auto simp: publishRestore_def remove_all_outside dir_ops_outside rename_dir_outside
      split: sum.splits option.splits node.splits prod.splits)

text \<open>A publication that keeps the temporary directory for the cleanup has failed.\<close>

lemma publishRestore_cleanup: "publishRestore fl tmp target uid t = (t', True, r) \<Longrightarrow> \<not> is_ok r"
  by (auto simp: publishRestore_def split: sum.splits option.splits node.splits prod.splits)

lemma normals_restore_tmp: "normal tmp \<Longrightarrow> normals (abs_comps (Dir reqPath) @ [tmp])"
  using abs_comps_normals by (simp add: normals_def)

lemma receive_failed_outside:
  assumes "receiving d t0 s" "\<not> prefix d q"
  shows "file_at q (fst (remove_all fl d (abortRestoreChunks fl (rs_writers s) (rs_tree s)))) = file_at q t0"
  using assms by (simp add: receiving_def same_outside_def remove_all_outside abortRestoreChunks_outside [of d])

lemma restoreInto_outside:
  assumes nm: "normal tmp"
    and run: "restoreInto env tmp stream reqPath uid tk t = (t', tk', r)"
    and q: "\<not> prefix (abs_comps (Dir reqPath) @ [tmp]) q" "\<not> prefix (abs_comps reqPath) q \<or> cut_off stream"
  shows "file_at q t' = file_at q t" and "cut_off stream \<Longrightarrow> \<not> is_ok r"
proof -
  define d where "d = abs_comps (Dir reqPath) @ [tmp]"
  note run' = run [unfolded restoreInto_def Let_def d_def [symmetric]]
  have "file_at q t' = file_at q t \<and> (cut_off stream \<longrightarrow> \<not> is_ok r)"
  proof (cases "mkdir_temp (re_fs env) d t")
    case (Inl e)
    then show ?thesis using run' by auto
  next
    case (Inr t1)
    note m = Inr
    let ?s0 = "\<lparr>rs_tree = t1, rs_writers = [], rs_tracker = tk\<rparr>"
    obtain s l where loop: "restoreLoop env (abs_path d) stream ?s0 = (s, l)" by (rule prod.exhaust)
    have "receiving d t ?s0"
      using mkdir_temp_outside [OF m] by (simp add: receiving_def same_outside_def writers_in_def)
    then have rec: "receiving d t s"
      using keepsD [OF restoreLoop_receiving loop] normals_restore_tmp [OF nm] by (simp add: d_def)
    note failed = receive_failed_outside [OF rec q(1) [folded d_def]]
    show ?thesis
    proof (cases "l = Inr () \<and> rs_writers s = []")
      case False
      then show ?thesis using run' m loop failed by (cases l) auto
    next
      case True
      then have nc: "\<not> cut_off stream" using restoreLoop_cut_off [of stream env "abs_path d" ?s0] loop by auto
      obtain t2 c r2 where pub: "publishRestore (re_fs env) d (abs_comps reqPath) uid (rs_tree s) = (t2, c, r2)"
        by (rule prod_cases3)
      have "file_at q t2 = file_at q t"
        using publishRestore_outside [OF pub] q nc rec by (simp add: d_def receiving_def same_outside_def)
      then show ?thesis
        using run' m loop True pub nc remove_all_outside [OF q(1) [folded d_def]] by (auto split: if_splits)
    qed
  qed
  then show "file_at q t' = file_at q t" and "cut_off stream \<Longrightarrow> \<not> is_ok r" by blast+
qed

text \<open>When no directory on the way is a symbolic link, the path is the place.\<close>

lemma resolve_linkless:
  assumes "\<forall>q. prefix q (cur @ cs) \<longrightarrow> \<not> is_link (f_get q fs)" "normals cs" "resolve fs n cur cs = Inr d"
  shows "d = cur @ cs"
  using assms
proof (induction cs arbitrary: cur)
  case (Cons c cs)
  have "\<not> is_link (f_get (cur @ [c]) fs)" using Cons.prems(1) by simp
  then have "resolve fs n (cur @ [c]) cs = Inr d"
    using Cons.prems(2,3) by (auto simp: normal_def is_link_def split: option.splits node.splits if_splits)
  from Cons.IH [OF _ _ this] Cons.prems(1,2) show ?case by simp
qed simp

lemma resolve_dirs:
  assumes "\<forall>q. q \<noteq> [] \<longrightarrow> prefix q (cur @ cs) \<longrightarrow> is_dir (f_get q fs)" "normals cs"
  shows "resolve fs n cur cs = Inr (cur @ cs)"
  using assms
proof (induction cs arbitrary: cur)
  case (Cons c cs)
  have "is_dir (f_get (cur @ [c]) fs)" using Cons.prems(1) by simp
  then obtain u where "f_get (cur @ [c]) fs = Some (NDir u)" by (auto simp: is_dir_def split: option.splits node.splits)
  moreover have "resolve fs n (cur @ [c]) cs = Inr ((cur @ [c]) @ cs)" using Cons.prems by (intro Cons.IH) auto
  ultimately show ?case using Cons.prems(2) by (auto simp: normal_def)
qed simp

lemma real_path_linkless:
  assumes "\<forall>q. prefix q (abs_comps (Dir p)) \<longrightarrow> \<not> is_link (f_get q fs)" "clean_abs p" "real_path p fs = Inr r"
  shows "r = p"
proof (cases "abs_comps p = []")
  case True
  have "p = abs_path (abs_comps p)" using assms(2) by (auto simp: clean_abs_path)
  then show ?thesis using True assms(3) by (simp add: real_path_def abs_path_def path_join_def)
next
  case False
  then obtain ns w where c: "abs_comps p = ns @ [w]" by (cases "abs_comps p" rule: rev_cases) auto
  have p: "p = abs_path (ns @ [w])" using assms(2) c by (auto simp: clean_abs_path)
  have n: "normals ns" "normal w" using abs_comps_normals [of p] c by (simp_all add: normals_def)
  have d: "abs_comps (Dir p) = ns" using Dir_abs_path [OF n] n p by simp
  from assms(3) obtain e where e: "resolve fs max_links [] ns = Inr e" "r = abs_path (e @ [w])"
    using c d by (auto simp: real_path_def split: sum.splits)
  have "e = [] @ ns" using assms(1) n by (intro resolve_linkless [OF _ _ e(1)]) (simp_all add: d)
  then show ?thesis using e(2) p by simp
qed

lemma real_path_dirs:
  assumes "\<forall>q. q \<noteq> [] \<longrightarrow> prefix q par \<longrightarrow> is_dir (f_get q fs)" "normals par" "normal name"
  shows "real_path (abs_path (par @ [name])) fs = Inr (abs_path (par @ [name]))"
proof -
  have c: "abs_comps (abs_path (par @ [name])) = par @ [name]" "abs_comps (Dir (abs_path (par @ [name]))) = par"
    using assms Dir_abs_path [OF assms(2,3)] by (simp_all add: normals_def)
  show ?thesis using resolve_dirs [of "[]" par] assms(1,2) by (simp add: real_path_def c)
qed

section \<open>Chunks\<close>

text \<open>
  The other assembler of the chunk protocol. A chunked file grows at its place in the temporary
  directory; it counts as published when its writer is closed.
\<close>

definition restore_pending :: "string \<Rightarrow> restore_state \<Rightarrow> (bytes \<times> 32 word) option" where
  "restore_pending path s =
     (case map_of (rs_writers s) path of
        None \<Rightarrow> None
      | Some w \<Rightarrow> map_option (\<lambda>(c, m). (c, rw_mode w)) (file_at (rw_name w) (rs_tree s)))"

definition restore_published :: "string \<Rightarrow> string \<Rightarrow> restore_state \<Rightarrow> (bytes \<times> 32 word) option" where
  "restore_published base path s =
     (case (map_of (rs_writers s) path, restoreTargetPath base path) of
        (None, Inr target) \<Rightarrow> file_at (abs_comps target) (rs_tree s)
      | _ \<Rightarrow> None)"

definition restore_ready :: "string \<Rightarrow> string \<Rightarrow> restore_state \<Rightarrow> bool" where
  "restore_ready base path s \<longleftrightarrow>
     (\<forall>w. map_of (rs_writers s) path = Some w \<longrightarrow>
        (\<exists>target c m. restoreTargetPath base path = Inr target \<and> rw_name w = abs_comps target \<and>
           file_at (abs_comps target) (rs_tree s) = Some (c, m) \<and> rw_nextOffset w = of_nat (length c)))"

text \<open>The writer a chunk goes to, and what is staged for it.\<close>

lemma openRestoredChunk_ok:
  assumes r: "restore_ready base (fe_Path f) s" and o: "openRestoredChunk env base f s = (s1, Inr w)"
  obtains target m where "restoreTargetPath base (fe_Path f) = Inr target" "rw_name w = abs_comps target"
    "map_of (rs_writers s1) (fe_Path f) = Some w"
    "file_at (rw_name w) (rs_tree s1) = Some (case restore_pending (fe_Path f) s of None \<Rightarrow> '''' | Some (c, m) \<Rightarrow> c, m)"
    "rw_nextOffset w = of_nat (length (case restore_pending (fe_Path f) s of None \<Rightarrow> '''' | Some (c, m) \<Rightarrow> c))"
    "rw_mode w = (case restore_pending (fe_Path f) s of None \<Rightarrow> fe_Mode f | Some (c, m) \<Rightarrow> m)"
    "restore_published base (fe_Path f) s = None"
  using o
proof (cases rule: openRestoredChunk_cases)
  case (known w')
  then have w: "map_of (rs_writers s) (fe_Path f) = Some w" "s1 = s" by simp_all
  obtain target c m where t: "restoreTargetPath base (fe_Path f) = Inr target" "rw_name w = abs_comps target"
      "file_at (abs_comps target) (rs_tree s) = Some (c, m)" "rw_nextOffset w = of_nat (length c)"
    using r w(1) by (auto simp: restore_ready_def)
  then have "restore_pending (fe_Path f) s = Some (c, rw_mode w)" using w(1) by (simp add: restore_pending_def)
  then show thesis using t w by (intro that [of target m]) (simp_all add: restore_published_def)
next
  case (created target t1 t2 w')
  have p: "restore_pending (fe_Path f) s = None" using created(1) by (simp add: restore_pending_def)
  have "f_get (abs_comps target) t1 = None"
    and t2: "f_get (abs_comps target) t2 = Some (NFile [] (and 0x180 (not (re_umask env))) 0)"
    using created(5) by (auto simp: open_excl_def f_get_put split: if_splits)
  then have "file_at (abs_comps target) t1 = None" by (simp add: file_at_def)
  then have "file_at (abs_comps target) (rs_tree s) = None" using mkdir_all_files [OF created(4)] by simp
  then show thesis
    using created t2 p
    by (intro that [of target "and 0x180 (not (re_umask env))"])
      (simp_all add: putWriter_def file_at_def restore_published_def update_conv')
qed auto

lemma writeRestoredChunk_ok:
  assumes r: "restore_ready base (fe_Path f) s" and o: "writeRestoredChunk env base f s = (s', Inr ())"
  defines "c \<equiv> (case restore_pending (fe_Path f) s of None \<Rightarrow> '''' | Some (c, m) \<Rightarrow> c)"
  shows "restore_ready base (fe_Path f) s'" "fe_ChunkOffset f = of_nat (length c)"
    "restore_pending (fe_Path f) s = Some (c', m') \<Longrightarrow> fe_Mode f = m'"
    "if fe_FinalChunk f
     then restore_pending (fe_Path f) s' = None \<and>
       restore_published base (fe_Path f) s' = Some (c @ fe_Content f, perm (fe_Mode f))
     else restore_pending (fe_Path f) s' = Some (c @ fe_Content f, fe_Mode f) \<and>
       restore_published base (fe_Path f) s' = restore_published base (fe_Path f) s"
proof -
  obtain s1 w where op: "openRestoredChunk env base f s = (s1, Inr w)"
    using o by (auto simp: writeRestoredChunk_def bindS_eq_Inr failS_def split: if_splits)
  obtain target m where t: "restoreTargetPath base (fe_Path f) = Inr target" "rw_name w = abs_comps target"
    "map_of (rs_writers s1) (fe_Path f) = Some w" "file_at (rw_name w) (rs_tree s1) = Some (c, m)"
    "rw_nextOffset w = of_nat (length c)"
    "rw_mode w = (case restore_pending (fe_Path f) s of None \<Rightarrow> fe_Mode f | Some (c, m) \<Rightarrow> m)"
    "restore_published base (fe_Path f) s = None"
    using openRestoredChunk_ok [OF r op, folded c_def] by metis
  obtain u where g: "f_get (abs_comps target) (rs_tree s1) = Some (NFile c m u)"
    using t(2,4) by (auto simp: file_at_def split: option.splits node.splits)
  define t1 where "t1 = append_file (abs_comps target) (fe_Content f) (rs_tree s1)"
  define w' where "w' = w\<lparr>rw_nextOffset := rw_nextOffset w + of_nat (length (fe_Content f))\<rparr>"
  define s2 where "s2 = putWriter (fe_Path f) w' (s1\<lparr>rs_tree := t1\<rparr>)"
  have chk: "fe_ChunkOffset f = rw_nextOffset w" "fe_Mode f = rw_mode w"
    and s': "s' = (if fe_FinalChunk f
       then s2\<lparr>rs_tree := chmod_file (abs_comps target) (perm (fe_Mode f)) t1,
               rs_writers := AList.delete (fe_Path f) (rs_writers s2)\<rparr>
       else s2)"
    using o op t(2)
    by (auto simp: writeRestoredChunk_def bindS_def failS_def Let_def t1_def [symmetric] w'_def [symmetric]
        s2_def [symmetric] split: if_splits)
  show "fe_ChunkOffset f = of_nat (length c)" using chk t(5) by simp
  show "restore_pending (fe_Path f) s = Some (c', m') \<Longrightarrow> fe_Mode f = m'" using chk t(6) by simp
  have g1: "f_get (abs_comps target) t1 = Some (NFile (c @ fe_Content f) m u)"
    using g by (simp add: t1_def append_file_get)
  then have g2: "f_get (abs_comps target) (chmod_file (abs_comps target) (perm (fe_Mode f)) t1) =
      Some (NFile (c @ fe_Content f) (perm (fe_Mode f)) u)" by (simp add: chmod_file_get)
  have w2: "map_of (rs_writers s2) (fe_Path f) = Some w'" "rs_tree s2 = t1" by (simp_all add: s2_def putWriter_def update_conv')
  have wn: "rw_name w' = abs_comps target" "rw_mode w' = fe_Mode f" "rw_nextOffset w' = of_nat (length (c @ fe_Content f))"
    using t(2,5) chk by (simp_all add: w'_def)
  show "restore_ready base (fe_Path f) s'"
    using g1 w2 wn t(1) by (simp add: s' restore_ready_def delete_conv' file_at_def)
  show "if fe_FinalChunk f
     then restore_pending (fe_Path f) s' = None \<and>
       restore_published base (fe_Path f) s' = Some (c @ fe_Content f, perm (fe_Mode f))
     else restore_pending (fe_Path f) s' = Some (c @ fe_Content f, fe_Mode f) \<and>
       restore_published base (fe_Path f) s' = restore_published base (fe_Path f) s"
    using g1 g2 w2 wn t(1,7)
    by (simp add: s' restore_pending_def restore_published_def delete_conv' file_at_def)
qed

interpretation restore_chunks:
  chunk_assembler "writeRestoredChunk env base" restore_pending "restore_published base" "restore_ready base"
  for env :: restore_env and base :: string
proof unfold_locales
  fix e s s' c m
  assume r: "restore_ready base (fe_Path e) s" and o: "writeRestoredChunk env base e s = (s', Inr ())"
  note ok = writeRestoredChunk_ok [OF r o]
  show "fe_ChunkOffset e = of_nat (case restore_pending (fe_Path e) s of None \<Rightarrow> 0 | Some (c, m) \<Rightarrow> length c)"
    using ok(2) by (simp split: option.splits)
  show "restore_pending (fe_Path e) s = Some (c, m) \<Longrightarrow> fe_Mode e = m" by (rule ok(3))
qed (rule writeRestoredChunk_ok; assumption)+

lemma restored_chunks_publish:
  assumes "0 < limit" "data \<noteq> []" "restore_ready base path s" "restore_pending path s = None"
    and "restore_chunks.steps env base (chunk_entries limit path mode data) s = (s', Inr ())"
  shows "restore_published base path s' = Some (data, perm mode)"
  using restore_chunks.steps_publish [OF chunk_entries_well_cut [OF assms(1,2)] assms(3,5)] assms(4)
  by (simp add: restore_chunks.staged_def chunk_entries_concat [OF assms(1)])

end
