(* ===== verification/Vault_RestoreTrip.thy ===== *)
theory Vault_RestoreTrip
  imports Vault_Restore
begin

text \<open>
  The two ends of a restore composed: what \<open>PullRestore\<close> sends of a snapshot, small files whole
  and large ones in chunks, \<open>restoreFromStream\<close> lays out again below the target. The tree below
  the temporary directory is given exactly by the files written so far.
\<close>

section \<open>The directory being filled\<close>

lemma prefix_butlast_iff: "r \<noteq> [] \<Longrightarrow> prefix ws (butlast r) \<longleftrightarrow> strict_prefix ws r"
  by (cases r rule: rev_cases) (auto simp: strict_prefix_def)

text \<open>Files and directories below \<open>d\<close> when exactly the files \<open>V\<close> are laid out there.\<close>

definition laid_node :: "(string list \<Rightarrow> (bytes \<times> 32 word) option) \<Rightarrow> string list \<Rightarrow> node option" where
  "laid_node V ws =
     (case V ws of
        Some (c, m) \<Rightarrow> Some (NFile c m 0)
      | None \<Rightarrow> if \<exists>r. V r \<noteq> None \<and> strict_prefix ws r then Some (NDir 0) else None)"

definition laid :: "string list \<Rightarrow> (string list \<Rightarrow> (bytes \<times> 32 word) option) \<Rightarrow> tree \<Rightarrow> bool" where
  "laid d V t \<longleftrightarrow>
     (\<forall>q. q \<noteq> [] \<longrightarrow> prefix q d \<longrightarrow> is_dir (f_get q t)) \<and>
     (\<forall>ws. ws \<noteq> [] \<longrightarrow> f_get (d @ ws) t = laid_node V ws)"

definition apart_from :: "string list \<Rightarrow> (string list \<Rightarrow> (bytes \<times> 32 word) option) \<Rightarrow> bool" where
  "apart_from r V \<longleftrightarrow> (\<forall>r'. V r' \<noteq> None \<longrightarrow> \<not> prefix r r' \<and> \<not> prefix r' r)"

lemma laid_file:
  "laid d V t \<Longrightarrow> ws \<noteq> [] \<Longrightarrow> file_at (d @ ws) t = V ws"
  by (auto simp: laid_def laid_node_def file_at_def split: option.splits)

text \<open>The parent directories of a new file can be made, and the file then takes its place.\<close>

lemma laid_parent:
  assumes l: "laid d V t" and r: "r \<noteq> []" "apart_from r V"
  obtains t1 where "mkdir_all (\<lambda>_ _. False) (d @ butlast r) t = Inr t1"
    "f_get (d @ r) t1 = None" "parent_ok (d @ r) t1"
    "\<And>n c m. n = NFile c m 0 \<Longrightarrow> laid d (V(r \<mapsto> (c, m))) (f_put (d @ r, n) t1)"
proof -
  have below: "f_get (d @ ws) t = laid_node V ws" if "ws \<noteq> []" for ws using l that by (simp add: laid_def)
  have dirs: "is_dir (f_get q t)" if "q \<noteq> []" "prefix q d" for q using l that by (simp add: laid_def)
  have br: "strict_prefix ws r" if "prefix ws (butlast r)" for ws
    using that r(1) by (simp add: prefix_butlast_iff)
  have V0: "V ws = None" if "prefix ws r" for ws using r(2) that unfolding apart_from_def by blast
  have ok: "f_get q t = None \<or> is_dir (f_get q t)" if q: "q \<in> set (prefixes_of (d @ butlast r))" for q
  proof (cases "prefix q d")
    case True
    then show ?thesis using dirs q by (simp add: in_prefixes)
  next
    case False
    then obtain ws where ws: "q = d @ ws" "prefix ws (butlast r)" "ws \<noteq> []"
      using q by (auto simp: in_prefixes prefix_append)
    then have "V ws = None" using V0 br by (blast intro: prefix_order.less_imp_le)
    then show ?thesis using below [OF ws(3)] ws(1) by (auto simp: laid_node_def is_dir_def)
  qed
  then obtain t1 where t1: "mkdir_all (\<lambda>_ _. False) (d @ butlast r) t = Inr t1"
    by (auto simp: mkdir_all_def list_ex_iff)
  note get = mkdir_all_get [OF t1]
  have "\<not> (\<exists>r'. V r' \<noteq> None \<and> strict_prefix r r')"
    using r(2) unfolding apart_from_def strict_prefix_def by blast
  then have no_r: "f_get (d @ r) t = None" unfolding below [OF r(1)] using V0 [of r] by (simp add: laid_node_def)
  have notin: "d @ r \<notin> set (prefixes_of (d @ butlast r))"
    using br [of r] by (auto simp: in_prefixes)
  have free: "f_get (d @ r) t1 = None" using no_r notin by (simp add: get)
  have "parent_ok (d @ r) t1"
    using mkdir_all_dir [OF t1] r(1) by (cases "d @ butlast r = []") (simp_all add: parent_ok_def butlast_append)
  moreover have "laid d (V(r \<mapsto> (c, m))) (f_put (d @ r, NFile c m 0) t1)" for c m
    unfolding laid_def
  proof (intro conjI allI impI)
    fix q assume q: "q \<noteq> []" "prefix q d"
    then have "q \<noteq> d @ r" using r(1) by (auto simp: prefix_def)
    then show "is_dir (f_get q (f_put (d @ r, NFile c m 0) t1))"
      using dirs [OF q] by (auto simp: f_get_put get is_dir_def)
  next
    fix ws :: "string list" assume ws: "ws \<noteq> []"
    have mem: "d @ ws \<in> set (prefixes_of (d @ butlast r)) \<longleftrightarrow> prefix ws (butlast r)"
      using ws by (auto simp: in_prefixes)
    have sp: "prefix ws (butlast r) \<longleftrightarrow> strict_prefix ws r"
      using r(1) by (rule prefix_butlast_iff)
    show "f_get (d @ ws) (f_put (d @ r, NFile c m 0) t1) = laid_node (V(r \<mapsto> (c, m))) ws"
    proof (cases "ws = r")
      case True
      then show ?thesis by (simp add: f_get_put laid_node_def)
    next
      case False
      then have "f_get (d @ ws) (f_put (d @ r, NFile c m 0) t1) =
          (if strict_prefix ws r \<and> laid_node V ws = None then Some (NDir 0) else laid_node V ws)"
        using below [OF ws] by (simp add: f_get_put get mem sp)
      also have "\<dots> = laid_node (V(r \<mapsto> (c, m))) ws"
        using False V0 [of ws] by (auto simp: laid_node_def strict_prefix_def split: option.splits)
      finally show ?thesis .
    qed
  qed
  ultimately show thesis using that [OF t1 free] by blast
qed

text \<open>A file that is there changes content or mode.\<close>

lemma laid_change:
  assumes l: "laid d (V(r \<mapsto> (c, m))) t" and r: "r \<noteq> []"
  shows "laid d (V(r \<mapsto> (c', m'))) (f_put (d @ r, NFile c' m' 0) t)"
    and "f_get (d @ r) t = Some (NFile c m 0)"
proof -
  have dom: "((V(r \<mapsto> (c', m'))) x \<noteq> None) = ((V(r \<mapsto> (c, m))) x \<noteq> None)" for x by simp
  have "laid_node (V(r \<mapsto> (c', m'))) ws = laid_node (V(r \<mapsto> (c, m))) ws" if "ws \<noteq> r" for ws
    using that unfolding laid_node_def dom by simp
  then show "laid d (V(r \<mapsto> (c', m'))) (f_put (d @ r, NFile c' m' 0) t)"
    using l r by (auto simp: laid_def f_get_put) (auto simp: laid_node_def)
  show "f_get (d @ r) t = Some (NFile c m 0)" using l r by (simp add: laid_def laid_node_def)
qed

lemma laid_append:
  "laid d (V(r \<mapsto> (c, m))) t \<Longrightarrow> r \<noteq> [] \<Longrightarrow> laid d (V(r \<mapsto> (c @ x, m))) (append_file (d @ r) x t)"
  by (simp add: append_file_def laid_change(2) laid_change(1))

lemma laid_chmod:
  "laid d (V(r \<mapsto> (c, m))) t \<Longrightarrow> r \<noteq> [] \<Longrightarrow> laid d (V(r \<mapsto> (c, m'))) (chmod_file (d @ r) m' t)"
  by (simp add: chmod_file_def laid_change(2) laid_change(1))

section \<open>Entries\<close>

text \<open>A process without faults, and a name below the temporary directory.\<close>

definition faultless :: "restore_env \<Rightarrow> bool" where
  "faultless env \<longleftrightarrow> re_fs env = (\<lambda>_ _. False)"

lemma restore_place:
  assumes "normals d" "normals r" "r \<noteq> []"
  shows "restoreTargetPath (abs_path d) (path_join r) = Inr (abs_path (d @ r))"
    and "abs_comps (abs_path (d @ r)) = d @ r"
    and "abs_comps (Dir (abs_path (d @ r))) = d @ butlast r"
proof -
  obtain r' w where r: "r = r' @ [w]" using assms(3) by (cases r rule: rev_cases) auto
  then have n: "normals (d @ r')" "normal w" using assms(1,2) by (auto simp: normals_def)
  show "restoreTargetPath (abs_path d) (path_join r) = Inr (abs_path (d @ r))"
    by (rule restoreTargetPath_plain) (use assms in auto)
  show "abs_comps (abs_path (d @ r)) = d @ r" using assms by simp
  show "abs_comps (Dir (abs_path (d @ r))) = d @ butlast r"
    using Dir_abs_path [OF n] n(1) r by simp
qed

lemma restore_small:
  assumes f: "faultless env" and n: "normals d" "normals r" "r \<noteq> []"
    and l: "laid d V (rs_tree s)" "apart_from r V" "rs_writers s = []"
  obtains s' where "restoreEntry env (abs_path d) (small_entry (path_join r) m c) s = (s', Inr ())"
    "laid d (V(r \<mapsto> (c, and (perm m) (not (re_umask env))))) (rs_tree s')" "rs_writers s' = []"
proof -
  obtain t1 where t1: "mkdir_all (\<lambda>_ _. False) (d @ butlast r) (rs_tree s) = Inr t1"
    "f_get (d @ r) t1 = None" "parent_ok (d @ r) t1"
    and put: "\<And>n c m. n = NFile c m 0 \<Longrightarrow> laid d (V(r \<mapsto> (c, m))) (f_put (d @ r, n) t1)"
    using laid_parent [OF l(1) n(3) l(2)] by metis
  define mm where "mm = and (perm m) (not (re_umask env))"
  define t2 where "t2 = append_file (d @ r) c (f_put (d @ r, NFile [] mm 0) t1)"
  have w: "os_WriteFile env (d @ r) c m t1 = (t2, Inr ())"
    using t1(2,3) n(3) f by (simp add: os_WriteFile_def faultless_def is_dir_def Let_def t2_def mm_def)
  have laid2: "laid d (V(r \<mapsto> ([] @ c, mm))) t2" unfolding t2_def by (rule laid_append [OF put [OF refl] n(3)])
  have step: "restoreEntry env (abs_path d) (small_entry (path_join r) m c) s =
      (s\<lparr>rs_tree := t2, rs_tracker := re_add env 1 (int (length c)) (rs_tracker s)\<rparr>, Inr ())"
    using f t1(1) w l(3)
    by (simp add: restoreEntry_def small_entry_def writeRestoredFile_def restore_place [OF n] faultless_def
        bindS_def countTransfer_def updateS_def mapErr_def)
  show thesis by (rule that [OF step]) (use laid2 l(3) in \<open>simp_all add: mm_def\<close>)
qed

text \<open>One chunk, given the writer it goes to.\<close>

lemma restore_chunk:
  assumes f: "faultless env" and n: "r \<noteq> []"
    and l: "laid d (V(r \<mapsto> (a, m0))) (rs_tree s)" "rs_writers s = [(fe_Path e, w)]"
    and w: "rw_name w = d @ r" "rw_nextOffset w = fe_ChunkOffset e" "rw_mode w = fe_Mode e"
    and e: "\<not> fe_Deleted e" "fe_Chunked e"
  obtains s' where "restoreEntry env base e s = (s', Inr ())"
    "if fe_FinalChunk e
     then laid d (V(r \<mapsto> (a @ fe_Content e, perm (fe_Mode e)))) (rs_tree s') \<and> rs_writers s' = []
     else laid d (V(r \<mapsto> (a @ fe_Content e, m0))) (rs_tree s') \<and>
       rs_writers s' = [(fe_Path e, w\<lparr>rw_nextOffset := rw_nextOffset w + of_nat (length (fe_Content e))\<rparr>)]"
proof -
  define t1 where "t1 = append_file (d @ r) (fe_Content e) (rs_tree s)"
  define w' where "w' = w\<lparr>rw_nextOffset := rw_nextOffset w + of_nat (length (fe_Content e))\<rparr>"
  have t1: "laid d (V(r \<mapsto> (a @ fe_Content e, m0))) t1" unfolding t1_def by (rule laid_append [OF l(1) n])
  note t2 = laid_chmod [OF t1 n, of "perm (fe_Mode e)"]
  have step: "restoreEntry env base e s =
      (if fe_FinalChunk e
       then (s\<lparr>rs_tree := chmod_file (d @ r) (perm (fe_Mode e)) t1, rs_writers := [],
               rs_tracker := re_add env 1 (int (length (fe_Content e))) (rs_tracker s)\<rparr>, Inr ())
       else (s\<lparr>rs_tree := t1, rs_writers := [(fe_Path e, w')],
               rs_tracker := re_add env 0 (int (length (fe_Content e))) (rs_tracker s)\<rparr>, Inr ()))"
    using f l(2) w e
    by (simp add: restoreEntry_def writeRestoredChunk_def openRestoredChunk_def faultless_def bindS_def
        countTransfer_def updateS_def putWriter_def Let_def t1_def w'_def)
  show thesis
  proof (cases "fe_FinalChunk e")
    case True
    show thesis by (rule that) (use step True in simp, use t2 True in simp)
  next
    case False
    show thesis by (rule that) (use step False in simp, use t1 False in \<open>simp add: w'_def\<close>)
  qed
qed


lemma restore_chunks_rest:
  assumes f: "faultless env" and n: "r \<noteq> []"
  shows "\<lbrakk> well_cut path mode k es; laid d (V(r \<mapsto> (a, m0))) (rs_tree s); rs_writers s = [(path, w)];
      rw_name w = d @ r; rw_nextOffset w = of_nat k; rw_mode w = mode \<rbrakk> \<Longrightarrow>
    \<exists>s'. foldS (restoreEntry env base) es s = (s', Inr ()) \<and> rs_writers s' = [] \<and>
      laid d (V(r \<mapsto> (a @ concat (map fe_Content es), perm mode))) (rs_tree s')"
proof (induction es arbitrary: k a s w)
  case Nil
  then show ?case by simp
next
  case (Cons e es)
  have e: "fe_Path e = path" "fe_Mode e = mode" "\<not> fe_Deleted e" "fe_Chunked e" "fe_ChunkOffset e = of_nat k"
    using Cons.prems(1) by simp_all
  obtain s1 where s1: "restoreEntry env base e s = (s1, Inr ())"
    and post: "if fe_FinalChunk e
      then laid d (V(r \<mapsto> (a @ fe_Content e, perm (fe_Mode e)))) (rs_tree s1) \<and> rs_writers s1 = []
      else laid d (V(r \<mapsto> (a @ fe_Content e, m0))) (rs_tree s1) \<and>
        rs_writers s1 = [(fe_Path e, w\<lparr>rw_nextOffset := rw_nextOffset w + of_nat (length (fe_Content e))\<rparr>)]"
    by (rule restore_chunk [OF f n Cons.prems(2), where e = e and w = w and base = base]) (use e Cons.prems in simp_all)
  show ?case
  proof (cases "fe_FinalChunk e")
    case True
    then have "es = []" using Cons.prems(1) by simp
    then have "foldS (restoreEntry env base) (e # es) s = (s1, Inr ())"
      and "a @ concat (map fe_Content (e # es)) = a @ fe_Content e" using s1 by simp_all
    then show ?thesis using post True unfolding e(2) by metis
  next
    case False
    then have wc: "well_cut path mode (k + length (fe_Content e)) es"
      and l1: "laid d (V(r \<mapsto> (a @ fe_Content e, m0))) (rs_tree s1)"
      and w1: "rs_writers s1 = [(path, w\<lparr>rw_nextOffset := rw_nextOffset w + of_nat (length (fe_Content e))\<rparr>)]"
      using Cons.prems(1) post e by simp_all
    from Cons.IH [OF wc l1 w1] Cons.prems(4,5,6) s1 show ?thesis by simp
  qed
qed

lemma restore_open:
  assumes f: "faultless env" and n: "normals d" "normals r" "r \<noteq> []"
    and l: "laid d V (rs_tree s)" "apart_from r V" "rs_writers s = []"
    and e: "fe_Path e = path_join r" "fe_ChunkOffset e = 0" "fe_Chunked e" "\<not> fe_Deleted e"
  obtains s1 w m0 where "restoreEntry env (abs_path d) e s = restoreEntry env (abs_path d) e s1"
    "laid d (V(r \<mapsto> ([], m0))) (rs_tree s1)" "rs_writers s1 = [(fe_Path e, w)]"
    "rw_name w = d @ r" "rw_nextOffset w = 0" "rw_mode w = fe_Mode e"
proof -
  obtain t1 where t1: "mkdir_all (\<lambda>_ _. False) (d @ butlast r) (rs_tree s) = Inr t1"
    "f_get (d @ r) t1 = None" "parent_ok (d @ r) t1"
    and put: "\<And>n c m. n = NFile c m 0 \<Longrightarrow> laid d (V(r \<mapsto> (c, m))) (f_put (d @ r, n) t1)"
    using laid_parent [OF l(1) n(3) l(2)] by metis
  define m0 where "m0 = and 0x180 (not (re_umask env))"
  define t2 where "t2 = f_put (d @ r, NFile [] m0 0) t1"
  define w where "w = \<lparr>rw_name = d @ r, rw_nextOffset = 0, rw_mode = fe_Mode e\<rparr>"
  define s1 where "s1 = s\<lparr>rs_tree := t2, rs_writers := [(fe_Path e, w)]\<rparr>"
  have ex: "open_excl env (d @ r) t1 = Inr t2"
    using t1(2,3) n(3) f by (simp add: open_excl_def faultless_def t2_def m0_def)
  have o: "openRestoredChunk env (abs_path d) e s = (s1, Inr w)"
    using f l(3) e t1(1) ex
    by (simp add: openRestoredChunk_def restore_place [OF n] faultless_def Let_def putWriter_def s1_def w_def)
  have o1: "openRestoredChunk env (abs_path d) e s1 = (s1, Inr w)"
    by (simp add: openRestoredChunk_def s1_def)
  have "restoreEntry env (abs_path d) e s = restoreEntry env (abs_path d) e s1"
    using e o o1 by (simp add: restoreEntry_def writeRestoredChunk_def bindS_def)
  moreover have "laid d (V(r \<mapsto> ([], m0))) (rs_tree s1)" using put [OF refl] by (simp add: s1_def t2_def)
  moreover have "rs_writers s1 = [(fe_Path e, w)]" "rw_name w = d @ r" "rw_nextOffset w = 0" "rw_mode w = fe_Mode e"
    by (simp_all add: s1_def w_def)
  ultimately show thesis by (rule that)
qed

text \<open>
  A whole file: a large one gets exactly its mode, a small one its mode less the umask.
\<close>

definition restored_mode :: "32 word \<Rightarrow> nat \<Rightarrow> bytes \<Rightarrow> 32 word \<Rightarrow> 32 word" where
  "restored_mode umask limit c m = (if length c \<le> limit then and (perm m) (not umask) else perm m)"

lemma restore_one:
  assumes f: "faultless env" and n: "normals d" "normals r" "r \<noteq> []" and lim: "0 < limit"
    and l: "laid d V (rs_tree s)" "apart_from r V" "rs_writers s = []"
  shows "\<exists>s'. foldS (restoreEntry env (abs_path d)) (entries_of limit (path_join r) m c) s = (s', Inr ()) \<and>
    rs_writers s' = [] \<and> laid d (V(r \<mapsto> (c, restored_mode (re_umask env) limit c m))) (rs_tree s')"
proof (cases "length c \<le> limit")
  case True
  obtain s' where "restoreEntry env (abs_path d) (small_entry (path_join r) m c) s = (s', Inr ())"
    "laid d (V(r \<mapsto> (c, and (perm m) (not (re_umask env))))) (rs_tree s')" "rs_writers s' = []"
    by (rule restore_small [OF f n l])
  then show ?thesis using True by (simp add: entries_of_def restored_mode_def)
next
  case False
  define es where "es = chunk_entries limit (path_join r) m c"
  have wc: "well_cut (path_join r) m 0 es" and cc: "concat (map fe_Content es) = c"
    using False lim chunk_entries_well_cut [OF lim, of c "path_join r" m] by (cases "c = []"; simp add: es_def chunk_entries_concat)+
  then obtain e es' where es: "es = e # es'" by (cases es) auto
  then have e: "fe_Path e = path_join r" "fe_ChunkOffset e = 0" "fe_Chunked e" "\<not> fe_Deleted e" "fe_Mode e = m"
    using wc by simp_all
  obtain s1 w m0 where s1: "restoreEntry env (abs_path d) e s = restoreEntry env (abs_path d) e s1"
    "laid d (V(r \<mapsto> ([], m0))) (rs_tree s1)" "rs_writers s1 = [(fe_Path e, w)]"
    "rw_name w = d @ r" "rw_nextOffset w = 0" "rw_mode w = fe_Mode e"
    by (rule restore_open [OF f n l e(1-4)])
  have "rw_nextOffset w = of_nat 0" using s1(5) by simp
  note opened = s1(2) s1(3) [unfolded e(1)] s1(4) this s1(6) [unfolded e(5)]
  have "foldS (restoreEntry env (abs_path d)) es s = foldS (restoreEntry env (abs_path d)) es s1"
    by (simp add: es s1(1))
  moreover have "entries_of limit (path_join r) m c = es" "restored_mode (re_umask env) limit c m = perm m"
    using False by (simp_all add: entries_of_def es_def restored_mode_def)
  moreover obtain s' where "foldS (restoreEntry env (abs_path d)) es s1 = (s', Inr ())" "rs_writers s' = []"
    "laid d (V(r \<mapsto> ([] @ concat (map fe_Content es), perm m))) (rs_tree s')"
    using restore_chunks_rest [OF f n(3) wc opened] by blast
  ultimately show ?thesis unfolding cc append_Nil by metis
qed


section \<open>All files of a stream\<close>

type_synonym file_list = "(string list \<times> bytes \<times> 32 word) list"

text \<open>No file is at or below another's path, as in any directory tree.\<close>

definition restorable :: "file_list \<Rightarrow> bool" where
  "restorable fl \<longleftrightarrow> list_all (\<lambda>(r, c, m). normals r \<and> r \<noteq> []) fl \<and>
     sorted_wrt (\<lambda>x y. \<not> prefix (fst x) (fst y) \<and> \<not> prefix (fst y) (fst x)) fl"

definition restored :: "32 word \<Rightarrow> nat \<Rightarrow> file_list \<Rightarrow> string list \<Rightarrow> (bytes \<times> 32 word) option" where
  "restored umask limit fl = map_of (map (\<lambda>(r, c, m). (r, c, restored_mode umask limit c m)) fl)"

definition entries_for :: "nat \<Rightarrow> file_list \<Rightarrow> file_entry list" where
  "entries_for limit fl = concat (map (\<lambda>(r, c, m). entries_of limit (path_join r) m c) fl)"

lemma restored_Cons:
  "restored umask limit ((r, c, m) # fl) = (restored umask limit fl)(r \<mapsto> (c, restored_mode umask limit c m))"
  by (simp add: restored_def)

lemma restored_dom: "restored umask limit fl r \<noteq> None \<longleftrightarrow> r \<in> fst ` set fl"
  by (auto simp: restored_def map_of_eq_None_iff image_iff split: prod.splits) force+

lemma restore_all:
  assumes f: "faultless env" and n: "normals d" and lim: "0 < limit"
  shows "\<lbrakk> restorable fl; \<forall>x \<in> set fl. apart_from (fst x) V; laid d V (rs_tree s); rs_writers s = [] \<rbrakk> \<Longrightarrow>
    \<exists>s'. foldS (restoreEntry env (abs_path d)) (entries_for limit fl) s = (s', Inr ()) \<and>
      rs_writers s' = [] \<and> laid d (V ++ restored (re_umask env) limit fl) (rs_tree s')"
proof (induction fl arbitrary: V s)
  case Nil
  then show ?case by (simp add: entries_for_def restored_def)
next
  case (Cons x fl)
  obtain r c m where x: "x = (r, c, m)" by (rule prod_cases3)
  have r: "normals r" "r \<noteq> []" "apart_from r V" using Cons.prems(1,2) by (auto simp: x restorable_def)
  let ?v = "(c, restored_mode (re_umask env) limit c m)"
  obtain s1 where s1: "foldS (restoreEntry env (abs_path d)) (entries_of limit (path_join r) m c) s = (s1, Inr ())"
    "rs_writers s1 = []" "laid d (V(r \<mapsto> ?v)) (rs_tree s1)"
    using restore_one [OF f n r(1,2) lim Cons.prems(3) r(3) Cons.prems(4)] by blast
  have rest: "restorable fl" using Cons.prems(1) by (simp add: restorable_def)
  have "apart_from (fst y) (V(r \<mapsto> ?v))" if "y \<in> set fl" for y
    using Cons.prems(1,2) that by (auto simp: x restorable_def apart_from_def)
  then obtain s' where s': "foldS (restoreEntry env (abs_path d)) (entries_for limit fl) s1 = (s', Inr ())"
    "rs_writers s' = []" "laid d (V(r \<mapsto> ?v) ++ restored (re_umask env) limit fl) (rs_tree s')"
    using Cons.IH [OF rest _ s1(3,2)] by blast
  have "r \<notin> fst ` set fl" using Cons.prems(1) by (force simp: x restorable_def)
  then have "restored (re_umask env) limit fl r = None" using restored_dom by metis
  then have "V(r \<mapsto> ?v) ++ restored (re_umask env) limit fl = V ++ restored (re_umask env) limit (x # fl)"
    by (auto simp: x restored_Cons map_add_def fun_eq_iff split: option.split)
  moreover have "foldS (restoreEntry env (abs_path d)) (entries_for limit (x # fl)) s = (s', Inr ())"
    using s1(1) s'(1) by (simp add: entries_for_def x foldS_append)
  ultimately show ?case using s' by metis
qed

text \<open>The receiving loop over what the server sends.\<close>

lemma restoreLoop_sent:
  assumes "rb_IsLast b"
  shows "restoreLoop env base (map Inr (sent_batches k fs @ [b])) s = foldS (restoreEntry env base) fs s"
proof (induction fs arbitrary: k s)
  case Nil
  then show ?case using assms by (simp add: sent_batches_def returnS_def)
next
  case (Cons f fs)
  then show ?case by (simp add: sent_batches_Cons bindS_def split: prod.splits sum.splits)
qed

section \<open>Publishing\<close>

lemma remove_all_faultless:
  "remove_all (\<lambda>_ _. False) p t = (filter (\<lambda>e. \<not> prefix p (fst e)) t, Inr ())"
  by (simp add: remove_all_def undeletable_def list_ex_iff)

lemma moved_into:
  "(\<forall>e \<in> set t. \<not> prefix q (fst e)) \<Longrightarrow> map_of (map (\<lambda>(k, n). (moved p q k, n)) t) (q @ ws) = map_of t (p @ ws)"
proof (induction t)
  case (Cons e t)
  then have "\<not> prefix q (fst e)" by simp
  then have "moved p q (fst e) = q @ ws \<longleftrightarrow> fst e = p @ ws" by (auto simp: moved_def prefix_def)
  then show ?case using Cons by (cases e) (auto simp: eq_commute)
qed simp

lemma chownRestoreTree_faultless: "snd (chownRestoreTree (\<lambda>_ _. False) base uid t) = Inr ()"
proof -
  have "snd (foldS (chown_visit (\<lambda>_ _. False) uid) ps u) = Inr ()" for ps u
    by (induction ps arbitrary: u) (simp_all add: chown_visit_def)
  then show ?thesis by (simp add: chownRestoreTree_def)
qed

lemma publishRestore_faultless:
  assumes "\<not> is_link (f_get target t)" "target \<noteq> []" "\<not> prefix target tmp" "\<not> prefix tmp target"
  obtains t' where "publishRestore (\<lambda>_ _. False) tmp target uid t = (t', False, Inr ())"
    "\<And>ws. file_at (target @ ws) t' = file_at (tmp @ ws) t"
proof -
  define t1 where "t1 = filter (\<lambda>e. \<not> prefix target (fst e)) t"
  define t2 where "t2 = map (\<lambda>(k, n). (moved tmp target k, n)) t1"
  have get1: "f_get q t1 = (if prefix target q then None else f_get q t)" for q
    using f_get_filter [of q "\<lambda>k. \<not> prefix target k" t] by (simp add: t1_def)
  have ren: "rename_dir (\<lambda>_ _. False) tmp target t1 = Inr t2"
    using get1 [of target] by (simp add: rename_dir_def t2_def)
  obtain t3 where ch: "chownRestoreTree (\<lambda>_ _. False) target uid t2 = (t3, Inr ())"
    using chownRestoreTree_faultless [of target uid t2] by (metis prod.collapse)
  have "publishRestore (\<lambda>_ _. False) tmp target uid t = (t3, False, Inr ())"
    using assms(1,2) ren ch
    by (auto simp: publishRestore_def lstat_at_def is_link_def remove_all_faultless t1_def [symmetric] split: option.splits node.splits)
  moreover have "file_at (target @ ws) t3 = file_at (tmp @ ws) t" for ws
  proof -
    have "\<forall>e \<in> set t1. \<not> prefix target (fst e)" by (auto simp: t1_def)
    then have "f_get (target @ ws) t2 = f_get (tmp @ ws) t1" by (simp add: f_get_def t2_def moved_into)
    moreover have "\<not> prefix target (tmp @ ws)" using assms(3,4) by (auto simp: prefix_append)
    ultimately show ?thesis using dir_ops_outside(2) [OF ch] get1 by (simp add: file_at_def)
  qed
  ultimately show thesis by (rule that)
qed


section \<open>The round trip\<close>

text \<open>
  Where the restore writes: the directories above the target exist, nothing is there under the
  temporary name yet, and the target is no symbolic link.
\<close>

definition restore_site :: "string list \<Rightarrow> string \<Rightarrow> string \<Rightarrow> tree \<Rightarrow> bool" where
  "restore_site par name tmp t \<longleftrightarrow>
     normals par \<and> normal name \<and> normal tmp \<and> tmp \<noteq> name \<and>
     (\<forall>q. q \<noteq> [] \<longrightarrow> prefix q par \<longrightarrow> is_dir (f_get q t)) \<and>
     (\<forall>ws. f_get (par @ tmp # ws) t = None) \<and>
     \<not> is_link (f_get (par @ [name]) t)"

text \<open>The stream of a restore: the entries one by one and a closing batch.\<close>

definition whole_stream :: "restore_batch result list \<Rightarrow> file_entry list \<Rightarrow> bool" where
  "whole_stream stream fs \<longleftrightarrow>
     (\<exists>b. rb_IsLast b \<and> stream = map Inr (sent_batches 0 fs @ [b]))"

lemma laid_fresh:
  assumes "restore_site par name tmp t"
  obtains t1 where "mkdir_temp (\<lambda>_ _. False) (par @ [tmp]) t = Inr t1" "laid (par @ [tmp]) Map.empty t1"
    "\<not> is_link (f_get (par @ [name]) t1)"
proof -
  let ?t1 = "f_put (par @ [tmp], NDir 0) t"
  have fresh: "f_get (par @ tmp # ws) t = None" for ws using assms by (simp add: restore_site_def)
  have dirs: "is_dir (f_get q t)" if "q \<noteq> []" "prefix q par" for q using assms that by (simp add: restore_site_def)
  have "mkdir_temp (\<lambda>_ _. False) (par @ [tmp]) t = Inr ?t1"
    using fresh [of "[]"] dirs [of par] by (auto simp: mkdir_temp_def parent_ok_def)
  moreover have "laid (par @ [tmp]) Map.empty ?t1"
    using fresh dirs by (auto simp: laid_def laid_node_def f_get_put is_dir_def)
  moreover have "\<not> is_link (f_get (par @ [name]) ?t1)" using assms by (auto simp: restore_site_def f_get_put)
  ultimately show thesis by (rule that)
qed

text \<open>Nothing the receiving loop does makes a symbolic link.\<close>

definition no_new_links :: "tree \<Rightarrow> tree \<Rightarrow> bool" where
  "no_new_links t t' \<longleftrightarrow> (\<forall>q. is_link (f_get q t') \<longrightarrow> is_link (f_get q t))"

lemma no_new_links_trans: "no_new_links t t1 \<Longrightarrow> no_new_links t1 t2 \<Longrightarrow> no_new_links t t2"
  by (simp add: no_new_links_def)

lemma no_new_links_ops:
  "no_new_links t t"
  "mkdir_all fl p t = Inr t' \<Longrightarrow> no_new_links t t'"
  "open_excl env p t = Inr t' \<Longrightarrow> no_new_links t t'"
  "no_new_links t (append_file p x t)"
  "no_new_links t (chmod_file p m t)"
  "no_new_links t (fst (os_WriteFile env p c m t))"
  by (auto simp: no_new_links_def is_link_def mkdir_all_get open_excl_def f_get_put append_file_get chmod_file_get os_WriteFile_def Let_def
      split: if_splits option.splits node.splits)

lemma openRestoredChunk_links:
  assumes "openRestoredChunk env base f s = (s', r)"
  shows "no_new_links (rs_tree s) (rs_tree s')"
  using assms
  by (cases rule: openRestoredChunk_cases)
    (auto simp: putWriter_def no_new_links_ops intro: no_new_links_trans [OF no_new_links_ops(2) no_new_links_ops(3)])

lemma writeRestoredChunk_links: "no_new_links (rs_tree s) (rs_tree (fst (writeRestoredChunk env base f s)))"
proof -
  obtain s1 r where o: "openRestoredChunk env base f s = (s1, r)" by (rule prod.exhaust)
  note l1 = openRestoredChunk_links [OF o]
  note more = no_new_links_trans [OF l1 no_new_links_ops(4)]
  show ?thesis
    using l1 more no_new_links_trans [OF more no_new_links_ops(5)] no_new_links_ops(1) o
    by (cases r) (auto simp: writeRestoredChunk_def bindS_def failS_def Let_def putWriter_def)
qed

lemma writeRestoredFile_links: "no_new_links (rs_tree s) (rs_tree (fst (writeRestoredFile env base f s)))"
proof -
  have "no_new_links (rs_tree s) (fst (os_WriteFile env p c m t1))"
    if "mkdir_all fl q (rs_tree s) = Inr t1" for fl q t1 p c m
    by (rule no_new_links_trans [OF no_new_links_ops(2) [OF that] no_new_links_ops(6)])
  then show ?thesis
    by (auto simp: writeRestoredFile_def no_new_links_ops(1) case_prod_unfold split: sum.split)
qed

lemma restoreEntry_links: "no_new_links (rs_tree s) (rs_tree (fst (restoreEntry env base f s)))"
  using writeRestoredChunk_links [of s env base f] writeRestoredFile_links [of s env base f]
  by (auto simp: restoreEntry_def bindS_def countTransfer_def updateS_def no_new_links_ops(1)
      split: prod.splits sum.splits)

lemma restore_all_links:
  assumes "foldS (restoreEntry env base) fs s = (s', r)"
  shows "no_new_links (rs_tree s) (rs_tree s')"
proof (rule foldS_invariant [OF _ assms, where P = "\<lambda>u. no_new_links (rs_tree s) (rs_tree u)"])
  fix f u u' r' assume "no_new_links (rs_tree s) (rs_tree u)" "restoreEntry env base f u = (u', r')"
  then show "no_new_links (rs_tree s) (rs_tree u')"
    using no_new_links_trans restoreEntry_links by (metis fst_conv)
qed (rule no_new_links_ops)

lemma restoreFromStream_whole:
  assumes f: "faultless env" and lim: "0 < limit" and site: "restore_site par name tmp t"
    and fl: "restorable fl" and st: "whole_stream stream (entries_for limit fl)"
  obtains t' tk' where
    "restoreFromStream env tmp stream (abs_path (par @ [name])) uid tk t = (t', tk', Inr ())"
    "\<And>ws. ws \<noteq> [] \<Longrightarrow> file_at (par @ name # ws) t' = restored (re_umask env) limit fl ws"
proof -
  let ?d = "par @ [tmp]" and ?target = "par @ [name]"
  have n: "normals par" "normal name" "normal tmp" "tmp \<noteq> name" using site by (simp_all add: restore_site_def)
  have comps: "abs_comps (abs_path ?target) = ?target" "abs_comps (Dir (abs_path ?target)) = par"
    using n Dir_abs_path [OF n(1,2)] by (simp_all add: normals_def)
  have nd: "normals ?d" using n by (simp add: normals_def)
  obtain t1 where t1: "mkdir_temp (\<lambda>_ _. False) ?d t = Inr t1" "laid ?d Map.empty t1"
    "\<not> is_link (f_get ?target t1)" by (rule laid_fresh [OF site])
  let ?s0 = "\<lparr>rs_tree = t1, rs_writers = [], rs_tracker = tk\<rparr>"
  obtain s where s: "foldS (restoreEntry env (abs_path ?d)) (entries_for limit fl) ?s0 = (s, Inr ())"
    "rs_writers s = []" "laid ?d (Map.empty ++ restored (re_umask env) limit fl) (rs_tree s)"
    using restore_all [OF f nd lim fl, of Map.empty ?s0] t1(2) by (auto simp: apart_from_def)
  obtain b where b: "rb_IsLast b" "stream = map Inr (sent_batches 0 (entries_for limit fl) @ [b])"
    using st by (auto simp: whole_stream_def)
  have loop: "restoreLoop env (abs_path ?d) stream ?s0 = (s, Inr ())"
    unfolding b(2) restoreLoop_sent [OF b(1)] by (rule s(1))
  have "\<not> is_link (f_get ?target (rs_tree s))"
    using restore_all_links [OF s(1)] t1(3) by (auto simp: no_new_links_def)
  then obtain t2 where t2: "publishRestore (\<lambda>_ _. False) ?d ?target uid (rs_tree s) = (t2, False, Inr ())"
    "\<And>ws. file_at (?target @ ws) t2 = file_at (?d @ ws) (rs_tree s)"
    by (rule publishRestore_faultless [of ?target "rs_tree s" ?d uid]) (use n(4) in auto)
  have "restoreFromStream env tmp stream (abs_path ?target) uid tk t = (t2, rs_tracker s, Inr ())"
    using f t1(1) loop s(2) t2(1) real_path_dirs [OF _ n(1,2)] site
    by (simp add: restoreFromStream_def restoreInto_def Let_def comps faultless_def restore_site_def)
  moreover have "file_at (par @ name # ws) t2 = restored (re_umask env) limit fl ws" if "ws \<noteq> []" for ws
    using t2(2) [of ws] laid_file [OF s(3) that] by simp
  ultimately show thesis by (rule that)
qed

text \<open>The files of a directory tree can be restored.\<close>

definition tree_shaped :: "tree \<Rightarrow> bool" where
  "tree_shaped fs \<longleftrightarrow> (\<forall>p q. file_at p fs \<noteq> None \<longrightarrow> file_at q fs \<noteq> None \<longrightarrow> prefix p q \<longrightarrow> p = q)"

lemma tree_files_fst: "map ((@) base \<circ> fst) (tree_files base fs) = filter (\<lambda>p. file_at p fs \<noteq> None) (walk_paths base fs)"
proof -
  have "map ((@) base \<circ> fst) (List.map_filter (tree_file fs base) ps) = filter (\<lambda>p. file_at p fs \<noteq> None) ps"
    if "\<forall>p \<in> set ps. prefix base p" for ps
    using that by (induction ps) (auto simp: map_filter_simps tree_file_def prefix_def split: option.splits)
  then show ?thesis by (simp add: tree_files_def walk_paths_def)
qed

lemma tree_files_restorable:
  assumes wf: "f_wf fs" "tree_shaped fs" and base: "file_at base fs = None"
  shows "restorable (tree_files base fs)"
proof -
  have mem: "file_at (base @ fst x) fs \<noteq> None" if "x \<in> set (tree_files base fs)" for x
    using that tree_files_mem [of "fst x" "fst (snd x)" "snd (snd x)"] by simp
  have "normals (base @ fst x)" if "x \<in> set (tree_files base fs)" for x
    using mem [OF that] f_wf_get [OF wf(1), of "base @ fst x"] by (auto simp: file_at_def split: option.splits)
  then have names: "list_all (\<lambda>(r, c, m). normals r \<and> r \<noteq> []) (tree_files base fs)"
    using mem base by (fastforce simp: list_all_iff)
  have d: "distinct (map ((@) base \<circ> fst) (tree_files base fs))"
    unfolding tree_files_fst by (simp add: walk_paths_def)
  have "sorted_wrt (\<lambda>x y. \<not> prefix (fst x) (fst y) \<and> \<not> prefix (fst y) (fst x)) xs"
    if "set xs \<subseteq> set (tree_files base fs)" "distinct (map ((@) base \<circ> fst) xs)" for xs
    using that
  proof (induction xs)
    case (Cons x xs)
    have "\<not> prefix (fst x) (fst y) \<and> \<not> prefix (fst y) (fst x)" if y: "y \<in> set xs" for y
    proof -
      have "fst x \<noteq> fst y" using Cons.prems(2) y by auto
      moreover have "file_at (base @ fst x) fs \<noteq> None" "file_at (base @ fst y) fs \<noteq> None"
        using Cons.prems(1) y by (auto intro!: mem simp del: not_None_eq)
      ultimately show ?thesis using wf(2) unfolding tree_shaped_def by (metis same_append_eq same_prefix_prefix)
    qed
    then show ?case using Cons by simp
  qed simp
  from this [OF _ d] names show ?thesis by (simp add: restorable_def)
qed

section \<open>A snapshot, restored\<close>

lemma restored_tree_files:
  "restored umask limit (tree_files base fs) ws =
     map_option (\<lambda>(c, m). (c, restored_mode umask limit c m)) (file_at (base @ ws) fs)"
proof -
  have inj: "inj_on (\<lambda>x. base @ fst x) (set (tree_files base fs))"
  proof (rule inj_onI)
    fix x y assume xy: "x \<in> set (tree_files base fs)" "y \<in> set (tree_files base fs)" "base @ fst x = base @ fst y"
    obtain r c m r' c' m' where "x = (r, c, m)" "y = (r', c', m')" by (metis prod_cases3)
    then show "x = y" using xy by (simp add: tree_files_mem)
  qed
  let ?g = "\<lambda>(r :: string list, c :: bytes, m). (r, c, restored_mode umask limit c m)"
  have d: "distinct (map fst (map ?g (tree_files base fs)))"
  proof -
    have "distinct (map ((@) base) (map fst (tree_files base fs)))"
      unfolding map_map tree_files_fst by (simp add: walk_paths_def)
    then have "distinct (map fst (tree_files base fs))" unfolding distinct_map by blast
    then show ?thesis by (simp add: comp_def case_prod_unfold)
  qed
  show ?thesis
  proof (cases "file_at (base @ ws) fs")
    case None
    then have "\<And>c m. (ws, c, m) \<notin> set (tree_files base fs)" using tree_files_mem by fastforce
    then show ?thesis using None by (auto simp: restored_def map_of_eq_None_iff image_iff)
  next
    case (Some cm)
    then have "(ws, fst cm, snd cm) \<in> set (tree_files base fs)" unfolding tree_files_mem by simp
    then have "?g (ws, fst cm, snd cm) \<in> ?g ` set (tree_files base fs)" by (rule imageI)
    then have "(ws, fst cm, restored_mode umask limit (fst cm) (snd cm)) \<in> set (map ?g (tree_files base fs))" by (simp add: case_prod_unfold)
    from map_of_is_SomeI [OF d this] show ?thesis using Some by (simp add: restored_def case_prod_unfold)
  qed
qed

text \<open>What the model needs of a mounted clone: it is a directory tree.\<close>

definition mounted_tree :: "string \<Rightarrow> tree \<Rightarrow> bool" where
  "mounted_tree mp t \<longleftrightarrow> is_abs mp \<and> is_below_dir (abs_comps mp) t \<and> f_wf t \<and> tree_shaped t"

text \<open>
  C2: The server's restore stream and the agent's restore are inverse: when the server reports success, the agent that
  receives the stream publishes a directory with exactly the files of the mounted clone of the latest snapshot, each
  with its content, its mode being the stored one as far as the agent's file mode mask lets it through.
\<close>

theorem restored_as_stored:
  assumes pull: "PullRestore env cx nanos ctxErr sendErr req s = (s', sent, Inr ())"
    and readable: "\<And>n p. \<not> sv_fs env n LstatOp p" "\<And>n p. \<not> sv_fs env n ReadOp p"
    and mounts: "\<forall>snap z z' mp. CreateRestoreClone (zfs_of env) (sv_exec env) nanos snap z =
        (z', Inr (cloneName (zfs_of env) nanos, mp)) \<longrightarrow> mounted_tree mp (sv_view env z')"
    and agent: "faultless renv" "restore_site par name tmp t"
  shows "\<exists>z1 snap z2 mp t' tk'.
    LatestSnapshot (sv_exec env) (dataset_of env (cx_hostname cx) (qr_Username req)) (ss_zfs s) = (z1, Inr snap) \<and>
    CreateRestoreClone (zfs_of env) (sv_exec env) nanos snap z1 = (z2, Inr (cloneName (zfs_of env) nanos, mp)) \<and>
    restoreFromStream renv tmp (map Inr sent) (abs_path (par @ [name])) uid tk t = (t', tk', Inr ()) \<and>
    (\<forall>ws. ws \<noteq> [] \<longrightarrow> file_at (par @ name # ws) t' =
       map_option (\<lambda>(c, m). (c, restored_mode (re_umask renv) restoreChunkContentBytes c m))
         (file_at (abs_comps mp @ ws) (sv_view env z2)))"
proof -
  obtain s1 where s1: "ss_zfs s1 = ss_zfs s"
    "streamSnapshot env (dataset_of env (cx_hostname cx) (qr_Username req)) nanos ctxErr sendErr s1 = (s', sent, Inr ())"
    by (rule PullRestore_ok [OF pull])
  obtain snap z1 z2 mp where z:
    "LatestSnapshot (sv_exec env) (dataset_of env (cx_hostname cx) (qr_Username req)) (ss_zfs s1) = (z1, Inr snap)"
    "CreateRestoreClone (zfs_of env) (sv_exec env) nanos snap z1 = (z2, Inr (cloneName (zfs_of env) nanos, mp))"
    and out: "\<And>base. is_abs mp \<Longrightarrow> abs_comps mp = base \<Longrightarrow> is_below_dir base (sv_view env z2) \<Longrightarrow> f_wf (sv_view env z2) \<Longrightarrow>
      (let fs = concat (map (\<lambda>(r, c, m). entries_of restoreChunkContentBytes (path_join r) m c)
                   (tree_files base (sv_view env z2)))
       in sent = sent_batches 0 fs @ [\<lparr>rb_BatchId = batch_id (Suc (length fs)), rb_Files = [], rb_IsLast = True\<rparr>])"
    by (rule streamSnapshot_ok [OF s1(2) readable]) blast
  let ?v = "sv_view env z2" and ?base = "abs_comps mp"
  have m: "is_abs mp" "is_below_dir ?base ?v" "f_wf ?v" "tree_shaped ?v"
    using mounts [rule_format, OF z(2)] by (simp_all add: mounted_tree_def)
  have "file_at ?base ?v = None"
    using m(2) by (auto simp: is_below_dir_def is_dir_def file_at_def split: option.splits node.splits)
  then have fl: "restorable (tree_files ?base ?v)" by (rule tree_files_restorable [OF m(3,4)])
  have st: "whole_stream (map Inr sent) (entries_for restoreChunkContentBytes (tree_files ?base ?v))"
    using out [OF m(1) refl m(2,3)] unfolding whole_stream_def entries_for_def Let_def
    by (intro exI [of _ "\<lparr>rb_BatchId = _, rb_Files = [], rb_IsLast = True\<rparr>"]) auto
  have lim: "0 < restoreChunkContentBytes" by (simp add: restoreChunkContentBytes_def)
  obtain t' tk' where t': "restoreFromStream renv tmp (map Inr sent) (abs_path (par @ [name])) uid tk t = (t', tk', Inr ())"
    "\<And>ws. ws \<noteq> [] \<Longrightarrow> file_at (par @ name # ws) t' =
       restored (re_umask renv) restoreChunkContentBytes (tree_files ?base ?v) ws"
    by (rule restoreFromStream_whole [OF agent(1) lim agent(2) fl st, where uid = uid and tk = tk]) blast
  have "\<forall>ws. ws \<noteq> [] \<longrightarrow> file_at (par @ name # ws) t' =
       map_option (\<lambda>(c, m). (c, restored_mode (re_umask renv) restoreChunkContentBytes c m)) (file_at (?base @ ws) ?v)"
    using t'(2) restored_tree_files by auto
  with z(1) [unfolded s1(1)] z(2) t'(1) show ?thesis by blast
qed

end
