(* ===== verification/Vault_RestoreTask.thy ===== *)
theory Vault_RestoreTask
  imports Vault_Tasks Vault_RestoreTrip
begin

text \<open>
  \<open>RunRestore\<close> and \<open>runRestoreTask\<close> (\<open>internal/agent/orchestrator\<close>): a restore as a task of the
  agent, from the request to the published directory. The state is the agent's together with
  the files of the host; the stream of a server is the list of what its \<open>Recv\<close> returns.
\<close>

section \<open>The task\<close>

type_synonym 'w host = "'w agent_state \<times> tree"

record restore_job =
  rj_taskID :: string
  rj_username :: string
  rj_uid :: nat
  rj_groups :: "string list"
  rj_target :: string
  rj_server :: string
  rj_nonce :: bytes
  rj_signature :: bytes

text \<open>
  The request: like \<open>runSync\<close> it registers the task before it checks anything, so that a refused
  target is a failed task. The result is the job of the goroutine.
\<close>

definition RunRestore ::
  "'w agent_env \<Rightarrow> fs_faults \<Rightarrow> (nat \<Rightarrow> (string \<times> string) option) \<Rightarrow> string \<Rightarrow> nat \<Rightarrow> string list \<Rightarrow> string \<Rightarrow>
   string \<Rightarrow> bytes \<Rightarrow> bytes \<Rightarrow> 'w host \<Rightarrow> 'w agent_state \<times> string \<times> restore_job result" where
  "RunRestore env fl lookup_id username uid groups reqPath server nonce signature h =
     (case generateTaskID env ''restore'' username of
        Inl e \<Rightarrow> (fst h, '''', Inl (Wrap ''generate task ID: %w'' e))
      | Inr taskID \<Rightarrow>
          (let s1 = (fst h)\<lparr>ag_trackers := AList.update taskID (NewTracker (av_nanos env)) (ag_trackers (fst h))\<rparr> in
           case InsertTask (av_db env) (av_sec env) taskID ''all'' username (ag_tasks s1) of
             Inl e \<Rightarrow> (markFailed env taskID username '''' (Some (Wrap ''insert restore task record: %w'' e)) s1,
                       taskID, Inl (Wrap ''insert task record: %w'' e))
           | Inr t \<Rightarrow>
               (let s2 = s1\<lparr>ag_tasks := t\<rparr> in
                case validateRestoreTarget fl lookup_id username uid reqPath (snd h) of
                  Inl e \<Rightarrow> (markFailed env taskID username '''' (Some e) s2, taskID, Inl e)
                | Inr target \<Rightarrow> (s2, taskID, Inr \<lparr>rj_taskID = taskID, rj_username = username, rj_uid = uid,
                    rj_groups = groups, rj_target = target, rj_server = server, rj_nonce = nonce,
                    rj_signature = signature\<rparr>))))"

text \<open>The call that opens the stream, up to the point where the first batch is awaited.\<close>

definition openRestore ::
  "'w agent_env \<Rightarrow> restore_job \<Rightarrow> 'w agent_state \<Rightarrow> 'w agent_state \<times> string \<times> restore_batch result list result" where
  "openRestore env j s =
     (if ac_Servers (av_Cfg env) = [] then (s, '''', Inl (Errorf ''no backup servers configured''))
      else case ResolveServer env (rj_server j) of
        Inl e \<Rightarrow> (s, rj_server j, Inl e)
      | Inr server \<Rightarrow>
          (case clientFor env server s of
             (s1, Inl e) \<Rightarrow> (s1, se_Address server, Inl (Wrap ''get restore client: %w'' e))
           | (s1, Inr client) \<Rightarrow>
               if rj_nonce j = [] \<or> rj_signature j = []
               then (s1, se_Address server, Inl (Errorf ''missing restore signature''))
               else (case callRemote (rm_PullRestore client (CallerMeta (rj_uid j) (rj_groups j))
                             \<lparr>qr_Username = rj_username j, qr_Nonce = rj_nonce j, qr_Signature = rj_signature j\<rparr>) s1 of
                       (s2, Inl e) \<Rightarrow> (s2, se_Address server, Inl (Wrap ''start restore: %w'' e))
                     | (s2, Inr stream) \<Rightarrow> (s2, se_Address server, Inr stream))))"

definition trackerOf :: "'w agent_env \<Rightarrow> string \<Rightarrow> 'w agent_state \<Rightarrow> tracker" where
  "trackerOf env taskID s = (case map_of (ag_trackers s) taskID of None \<Rightarrow> NewTracker (av_nanos env) | Some t \<Rightarrow> t)"

definition runRestoreTask ::
  "'w agent_env \<Rightarrow> restore_env \<Rightarrow> string \<Rightarrow> restore_job \<Rightarrow> 'w host \<Rightarrow> 'w host" where
  "runRestoreTask env renv tmp j h =
     (let i = rj_taskID j; fail = (\<lambda>server e s. markFailed env i (rj_username j) server (Some e) s) in
      case openRestore env j (onTracker i (SetPhase TRANSFERRING) (fst h)) of
        (s, addr, Inl e) \<Rightarrow> (fail addr e s, snd h)
      | (s, addr, Inr stream) \<Rightarrow>
          (case restoreFromStream renv tmp stream (rj_target j) (rj_uid j) (trackerOf env i s) (snd h) of
             (fs, tk, Inl e) \<Rightarrow> (fail addr (Wrap ''restore stream: %w'' e) (onTracker i (\<lambda>_. tk) s), fs)
           | (fs, tk, Inr _) \<Rightarrow>
               (tryTasks (UpdateTaskPhase (av_db env) (av_sec env) i ''COMPLETED'' '''')
                  (onTracker i (SetPhase COMPLETED) (onTracker i (\<lambda>_. tk) s)), fs)))"

section \<open>How it ends\<close>

lemma openRestore_books:
  assumes "openRestore env j s = (s', addr, r)"
  shows "books s' = books s" "ag_trackers s' = ag_trackers s"
  using assms
  by (auto simp: openRestore_def clientFor_def GetClientWithServerName_def callRemote_def books_def
      split: if_splits sum.splits option.splits prod.splits)

text \<open>A stream is opened only at a configured server, and with a nonce and a signature.\<close>

lemma openRestore_ok:
  assumes "openRestore env j s = (s', addr, Inr stream)"
  obtains entry where "entry \<in> set (ac_Servers (av_Cfg env))" "se_Address entry = rj_server j" "addr = rj_server j"
    "rj_nonce j \<noteq> []" "rj_signature j \<noteq> []"
proof -
  from assms obtain entry where e: "ResolveServer env (rj_server j) = Inr entry" "addr = se_Address entry"
    "rj_nonce j \<noteq> []" "rj_signature j \<noteq> []"
    by (auto simp: openRestore_def split: if_splits sum.splits prod.splits)
  then show thesis using that ResolveServer_configured [OF e(1)] by auto
qed

lemma phase_books: "books s' = books s \<Longrightarrow> ag_trackers s' = ag_trackers s \<Longrightarrow> phase_of i s' = phase_of i s"
  by (simp add: phase_of_def)

lemma onTracker_books [simp]: "books (onTracker i f s) = books s"
  by (simp add: onTracker_def books_def split: option.split)

text \<open>
  The task ends as completed exactly when the directory was published, and otherwise as failed,
  with one notification and the files as the restore left them.
\<close>

lemma runRestoreTask_ends:
  assumes run: "runRestoreTask env renv tmp j (s, t) = (s', t')" and tr: "phase_of (rj_taskID j) s \<noteq> None"
    and once: "notified_once (rj_taskID j) s"
  shows "notified_once (rj_taskID j) s'"
    "phase_of (rj_taskID j) s' = Some COMPLETED \<and>
       (\<exists>s1 stream tk tk'. openRestore env j (onTracker (rj_taskID j) (SetPhase TRANSFERRING) s) = (s1, rj_server j, Inr stream) \<and>
          restoreFromStream renv tmp stream (rj_target j) (rj_uid j) tk t = (t', tk', Inr ())) \<or>
     phase_of (rj_taskID j) s' = Some FAILED \<and> rj_taskID j \<in> set (ag_notified s')"
proof -
  let ?i = "rj_taskID j" and ?s0 = "onTracker (rj_taskID j) (SetPhase TRANSFERRING) s"
  obtain s1 addr r where o: "openRestore env j ?s0 = (s1, addr, r)" by (rule prod_cases3)
  note b = openRestore_books [OF o]
  have p1: "phase_of ?i s1 \<noteq> None" using phase_books [OF b] tr by (simp add: phase_SetPhase)
  have n1: "notified_once ?i s1" using once b(1) by (simp add: notified_once_def hooks_for_def books_def)
  have "notified_once ?i s' \<and> (phase_of ?i s' = Some COMPLETED \<and>
       (\<exists>s1 stream tk tk'. openRestore env j ?s0 = (s1, rj_server j, Inr stream) \<and>
          restoreFromStream renv tmp stream (rj_target j) (rj_uid j) tk t = (t', tk', Inr ())) \<or>
     phase_of ?i s' = Some FAILED \<and> ?i \<in> set (ag_notified s'))"
  proof (cases r)
    case (Inl e)
    then have "s' = markFailed env ?i (rj_username j) addr (Some e) s1"
      using run o by (simp add: runRestoreTask_def Let_def)
    then show ?thesis using p1 n1 by (simp add: markFailed_phase markFailed_once markFailed_notified)
  next
    case (Inr stream)
    obtain t2 tk' r2 where f: "restoreFromStream renv tmp stream (rj_target j) (rj_uid j) (trackerOf env ?i s1) t = (t2, tk', r2)"
      by (rule prod_cases3)
    let ?s2 = "onTracker ?i (\<lambda>_. tk') s1"
    have p2: "phase_of ?i ?s2 \<noteq> None" using p1 by (simp add: phase_onTracker) (simp add: phase_of_def)
    have n2: "notified_once ?i ?s2"
      using n1 onTracker_books [of ?i "\<lambda>_. tk'" s1] by (simp add: notified_once_def hooks_for_def books_def)
    show ?thesis
    proof (cases r2)
      case (Inl e)
      then have "s' = markFailed env ?i (rj_username j) addr (Some (Wrap ''restore stream: %w'' e)) ?s2"
        using run o Inr f by (simp add: runRestoreTask_def Let_def)
      then show ?thesis using p2 n2 by (simp add: markFailed_phase markFailed_once markFailed_notified)
    next
      case (Inr u)
      then have s': "s' = tryTasks (UpdateTaskPhase (av_db env) (av_sec env) ?i ''COMPLETED'' '''') (onTracker ?i (SetPhase COMPLETED) ?s2)"
        and t': "t' = t2" using run o \<open>r = Inr stream\<close> f by (simp_all add: runRestoreTask_def Let_def)
      have "phase_of ?i s' = Some COMPLETED" unfolding s' using p2 by (simp add: phase_SetPhase)
      moreover have "notified_once ?i s'"
        using n2 onTracker_books [of ?i "SetPhase COMPLETED" ?s2] unfolding s'
        by (simp add: notified_once_def hooks_for_def books_def)
      moreover have "addr = rj_server j" by (rule openRestore_ok [OF o [unfolded \<open>r = Inr stream\<close>]]) simp
      ultimately show ?thesis using o \<open>r = Inr stream\<close> f Inr t' by auto
    qed
  qed
  then show "notified_once ?i s'" and "phase_of ?i s' = Some COMPLETED \<and>
       (\<exists>s1 stream tk tk'. openRestore env j ?s0 = (s1, rj_server j, Inr stream) \<and>
          restoreFromStream renv tmp stream (rj_target j) (rj_uid j) tk t = (t', tk', Inr ())) \<or>
     phase_of ?i s' = Some FAILED \<and> ?i \<in> set (ag_notified s')" by blast+
qed

section \<open>What it may touch\<close>

lemma runRestoreTask_tree:
  assumes "runRestoreTask env renv tmp j (s, t) = (s', t')"
  shows "t' = t \<or> (\<exists>stream tk tk' r. restoreFromStream renv tmp stream (rj_target j) (rj_uid j) tk t = (t', tk', r))"
proof -
  obtain s1 addr r where "openRestore env j (onTracker (rj_taskID j) (SetPhase TRANSFERRING) s) = (s1, addr, r)"
    by (rule prod_cases3)
  moreover obtain t2 tk' r2 where "restoreFromStream renv tmp (projr r) (rj_target j) (rj_uid j) (trackerOf env (rj_taskID j) s1) t = (t2, tk', r2)"
    by (rule prod_cases3)
  ultimately show ?thesis using assms
    by (cases r; cases r2) (auto simp: runRestoreTask_def Let_def)
qed

text \<open>The job that an accepted request starts.\<close>

lemma RunRestore_job:
  assumes "RunRestore env fl lookup u uid gs req srv nonce sig h = (s1, i, Inr j)"
  shows "validateRestoreTarget fl lookup u uid req (snd h) = Inr (rj_target j)" "rj_uid j = uid" "rj_username j = u"
    "rj_taskID j = i" "phase_of i s1 \<noteq> None"
  using assms
  by (auto simp: RunRestore_def Let_def phase_of_def update_conv' split: sum.splits)

text \<open>
  C9: A restore task, whatever a server sends and however it ends, changes no file but below the target and below the
  temporary directory beside it, and the target is the home directory of the user who asked for it, an absolute path,
  or inside it. The files may have changed in any way since the request was checked; when the task starts no directory
  on the way from the root to the target's parent is a symbolic link, and while it runs nobody else changes these
  directories.
\<close>

theorem restore_stays_home:
  assumes req: "RunRestore env fl lookup u uid gs path srv nonce sig (s, t) = (s1, i, Inr j)"
    and home: "lookup uid = Some (u, home)" "is_abs home" and tmp: "normal tmp"
    and links: "\<forall>p. prefix p (abs_comps (Dir (rj_target j))) \<longrightarrow> \<not> is_link (f_get p t1)"
    and run: "runRestoreTask env' renv tmp j (s2, t1) = (s3, t')"
  shows "prefix (abs_comps home) (abs_comps (rj_target j)) \<and>
    (\<forall>q. \<not> prefix (abs_comps (rj_target j)) q \<longrightarrow> \<not> prefix (abs_comps (Dir (rj_target j)) @ [tmp]) q \<longrightarrow>
       file_at q t' = file_at q t1)"
proof -
  obtain home' where h: "lookup uid = Some (u, home')" "is_abs home' \<Longrightarrow> prefix (abs_comps home') (abs_comps (rj_target j))"
    "clean_abs (rj_target j) \<or> \<not> is_abs home'"
    using validateRestoreTarget_inside [OF RunRestore_job(1) [OF req]] by metis
  have c: "clean_abs (rj_target j)" and pre: "prefix (abs_comps home) (abs_comps (rj_target j))" using h home by simp_all
  have "file_at q t' = file_at q t1"
    if q: "\<not> prefix (abs_comps (rj_target j)) q" "\<not> prefix (abs_comps (Dir (rj_target j)) @ [tmp]) q" for q
    using runRestoreTask_tree [OF run]
  proof
    assume "\<exists>stream tk tk' r. restoreFromStream renv tmp stream (rj_target j) (rj_uid j) tk t1 = (t', tk', r)"
    then obtain stream tk tk' r where o: "restoreFromStream renv tmp stream (rj_target j) (rj_uid j) tk t1 = (t', tk', r)" by blast
    show ?thesis
    proof (cases "real_path (rj_target j) t1")
      case (Inr p)
      then have "p = rj_target j" by (rule real_path_linkless [OF links c])
      then have "restoreInto renv tmp stream (rj_target j) (rj_uid j) tk t1 = (t', tk', r)"
        using o Inr by (simp add: restoreFromStream_def)
      from restoreInto_outside(1) [OF tmp this q(2)] q(1) show ?thesis by blast
    qed (use o in \<open>simp add: restoreFromStream_def\<close>)
  qed simp
  then show ?thesis using pre by blast
qed

text \<open>
  C31: A restore task ends as completed only when the server opened the stream and the directory was published, with the
  files the restore left; otherwise it ends as failed and its failure was notified, in either case at most once.
\<close>

theorem restore_task_ends:
  assumes "runRestoreTask env renv tmp j (s, t) = (s', t')" "phase_of (rj_taskID j) s \<noteq> None"
    and "notified_once (rj_taskID j) s"
  shows "notified_once (rj_taskID j) s' \<and>
    (phase_of (rj_taskID j) s' = Some COMPLETED \<and>
       (\<exists>s1 stream tk tk'. openRestore env j (onTracker (rj_taskID j) (SetPhase TRANSFERRING) s) = (s1, rj_server j, Inr stream) \<and>
          restoreFromStream renv tmp stream (rj_target j) (rj_uid j) tk t = (t', tk', Inr ())) \<or>
     phase_of (rj_taskID j) s' = Some FAILED \<and> rj_taskID j \<in> set (ag_notified s'))"
  using runRestoreTask_ends [OF assms] by blast

end
