(* ===== verification/Vault_AgentSvc.thy ===== *)
theory Vault_AgentSvc
  imports Vault_RestoreTask
begin

text \<open>
  \<open>internal/agent/svc\<close> and \<open>pkg/hooks\<close>: the service on the agent's local socket. The daemon is
  what its requests share: the orchestrator's state, the disk, the rule files, the table of web
  delegations and the configuration, in memory and in its file. Who calls is decided by the
  credentials of the socket peer alone. The functions the service calls are the fields of a
  record, absent when the Go field is nil.
\<close>

section \<open>The peer\<close>

record peer_addr =
  px_UID :: nat
  px_PID :: int
  px_GID :: nat
  px_Groups :: "nat list"

text \<open>A context: a uid put there by \<open>ContextWithPeerUID\<close>, and the credentials of the connection.\<close>

record peer_ctx =
  px_value :: "nat option"
  px_addr :: "peer_addr option"

text \<open>\<open>cred\<close> is what \<open>SO_PEERCRED\<close> returned, \<open>procStatus\<close> the content of \<open>/proc/<pid>/status\<close>.\<close>

definition peer_Accept :: "(int \<times> nat \<times> nat) result \<Rightarrow> (int \<Rightarrow> bytes result) \<Rightarrow> peer_addr result" where
  "peer_Accept cred procStatus =
     (case cred of
        Inl e \<Rightarrow> Inl e
      | Inr (pid, uid, gid) \<Rightarrow>
          Inr \<lparr>px_UID = uid, px_PID = pid, px_GID = gid, px_Groups = accepted_groups (procStatus pid)\<rparr>)"

definition GetPeerUIDFromContext :: "peer_ctx \<Rightarrow> nat result" where
  "GetPeerUIDFromContext ctx =
     (case px_value ctx of
        Some uid \<Rightarrow> Inr uid
      | None \<Rightarrow> (case px_addr ctx of
          None \<Rightarrow> Inl (Errorf ''peer uid not found'')
        | Some addr \<Rightarrow> Inr (px_UID addr)))"

definition GroupsFromContext :: "peer_ctx \<Rightarrow> nat list result" where
  "GroupsFromContext ctx =
     (case px_addr ctx of None \<Rightarrow> Inl (Errorf ''peer groups not found'') | Some addr \<Rightarrow> Inr (px_Groups addr))"

section \<open>The daemon\<close>

datatype cfg_op = CfgCreateTemp | CfgChmod | CfgWrite | CfgClose | CfgRename | CfgRemove

record quota_warning =
  qw_Username :: string
  qw_Server :: string
  qw_Used :: int
  qw_Quota :: int

datatype started = StartedSync sync_job | StartedRestore restore_job

record 'w daemon =
  dm_agent :: "'w agent_state"
  dm_tree :: tree
  dm_rules :: rule_files
  dm_deleg :: web_delegations
  dm_cfg :: agent_config
  dm_files :: "string \<Rightarrow> bytes option"
  dm_started :: "started list"
  dm_warned :: "quota_warning list"

type_synonym ('w, 'a) svc = "('w daemon, 'a) step"

text \<open>
  The environment: \<open>ve_agent\<close> is that of the orchestrator except the configuration and the user
  rules, which the daemon holds. \<open>ve_yaml\<close> is \<open>yaml.Marshal\<close> of the configuration, \<open>ve_part\<close> what
  a failing write leaves, \<open>ve_tmp\<close> the name of a temporary file, \<open>ve_socket\<close> what \<open>os.Stat\<close> tells of
  a path: an error, or whether it is a socket and its owner. \<open>ve_sign\<close> is the SSH agent behind a
  socket, \<open>ve_pubkey\<close> whether \<open>ssh.ParseAuthorizedKey\<close> accepts a line.
\<close>

record 'w svc_env =
  ve_agent :: "'w agent_env"
  ve_user_of :: "nat \<Rightarrow> string option"
  ve_group_of :: "nat \<Rightarrow> string option"
  ve_passwd :: "nat \<Rightarrow> (string \<times> string) option"
  ve_enc :: "rule list \<Rightarrow> bytes"
  ve_dec :: "bytes \<Rightarrow> rule list result"
  ve_rulefl :: rule_faults
  ve_rulepart :: bytes
  ve_rulesDir :: string
  ve_fs :: fs_faults
  ve_ConfigPath :: string
  ve_yaml :: "agent_config \<Rightarrow> bytes result"
  ve_cfgfl :: "cfg_op \<Rightarrow> bool"
  ve_part :: bytes
  ve_tmp :: string
  ve_socket :: "string \<Rightarrow> (bool \<times> nat) result"
  ve_sign :: "string \<Rightarrow> bytes \<Rightarrow> bytes result"
  ve_pubkey :: "string \<Rightarrow> bool"

definition loadRules :: "'w svc_env \<Rightarrow> string \<Rightarrow> rule_files \<Rightarrow> rule list result" where
  "loadRules env u fs = Load (ve_dec env) (ve_rulefl env) (ve_rulesDir env) u fs"

text \<open>The orchestrator's environment in a state of the daemon.\<close>

definition agentEnv :: "'w svc_env \<Rightarrow> 'w daemon \<Rightarrow> 'w agent_env" where
  "agentEnv env d = (ve_agent env)\<lparr>av_Cfg := dm_cfg d, av_rules := (\<lambda>u. loadRules env u (dm_rules d))\<rparr>"

definition onAgent :: "('w agent_env \<Rightarrow> ('w, 'a) agent) \<Rightarrow> 'w svc_env \<Rightarrow> ('w, 'a) svc" where
  "onAgent f env d = (case f (agentEnv env d) (dm_agent d) of (s, r) \<Rightarrow> (d\<lparr>dm_agent := s\<rparr>, r))"

definition liftS :: "'a result \<Rightarrow> ('s, 'a) step" where
  "liftS r s = (s, r)"

lemma liftS_eq [result_simps]: "liftS r s = (t, x) \<longleftrightarrow> t = s \<and> r = x"
  by (auto simp: liftS_def)

lemma liftS_simps [simp]: "liftS (Inr x) = returnS x" "liftS (Inl e) = failS e"
  by (simp_all add: liftS_def returnS_def failS_def fun_eq_iff)

lemma keeps_lift [keeps_intros]: "keeps P (liftS r)"
  by (simp add: keeps_def liftS_def)

text \<open>An error answered with a status code instead of its own text.\<close>

definition answer :: "code \<Rightarrow> string \<Rightarrow> error \<Rightarrow> error" where
  "answer c msg e = Status c msg"

section \<open>Who calls\<close>

definition extractCallerIdentity :: "'w svc_env \<Rightarrow> peer_ctx \<Rightarrow> caller_identity result" where
  "extractCallerIdentity env ctx =
     (case GetPeerUIDFromContext ctx of
        Inl e \<Rightarrow> Inl (Status Unauthenticated ''cannot determine peer user: %v'')
      | Inr uid \<Rightarrow>
          (let groups = (case GroupsFromContext ctx of Inl _ \<Rightarrow> [] | Inr gs \<Rightarrow> gs) in
           mapErr (answer Unauthenticated ''lookup caller: %v'')
             (LookupCallerIdentity (ve_user_of env) (ve_group_of env) uid groups)))"

definition extractUsername :: "'w svc_env \<Rightarrow> peer_ctx \<Rightarrow> string result" where
  "extractUsername env ctx = bindE (extractCallerIdentity env ctx) (\<lambda>ident. Inr (ci_Username ident))"

lemma extractUsername_iff:
  "extractUsername env ctx = Inr u \<longleftrightarrow>
     (\<exists>uid. GetPeerUIDFromContext ctx = Inr uid \<and> ve_user_of env uid = Some u)"
  by (auto simp: extractUsername_def extractCallerIdentity_def LookupCallerIdentity_def Let_def bindE_def mapErr_def
      split: sum.splits option.splits)

lemma extractCallerIdentity_ok:
  "extractCallerIdentity env ctx = Inr ident \<Longrightarrow>
     GetPeerUIDFromContext ctx = Inr (ci_UID ident) \<and> ve_user_of env (ci_UID ident) = Some (ci_Username ident) \<and>
     extractUsername env ctx = Inr (ci_Username ident)"
  by (auto simp: extractUsername_def extractCallerIdentity_def LookupCallerIdentity_def Let_def mapErr_def
      split: sum.splits option.splits)

section \<open>User rules\<close>

record rule_request =
  rr_Name :: string
  rr_Paths :: "string list"
  rr_Exclude :: "string list"
  rr_Schedule :: string

definition onRules :: "'w svc_env \<Rightarrow> (rule_files \<Rightarrow> rule_files \<times> 'a result) \<Rightarrow> ('w, 'a) svc" where
  "onRules env f d = (case f (dm_rules d) of (fs, r) \<Rightarrow> (d\<lparr>dm_rules := fs\<rparr>, r))"

definition requestedRule :: "rule_request \<Rightarrow> rule" where
  "requestedRule req = \<lparr>Name = rr_Name req, Paths = rr_Paths req, Exclude = rr_Exclude req, Schedule = '''',
     Enabled = False\<rparr>"

definition AddUserRule :: "'w svc_env \<Rightarrow> peer_ctx \<Rightarrow> rule_request \<Rightarrow> ('w, unit) svc" where
  "AddUserRule env ctx req =
     bindS (liftS (extractUsername env ctx)) (\<lambda>username.
     let rule = requestedRule req in
     bindS (checkS (map_option (answer InvalidArgument ''%s'') (Rule_Validate rule))) (\<lambda>_.
     bindS (liftS (mapErr (answer Unauthenticated ''lookup user home: %v'') (av_lookup (ve_agent env) username))) (\<lambda>home.
     bindS (checkS (map_option (answer InvalidArgument ''%s'') (ValidateUserPaths (Paths rule) home))) (\<lambda>_.
     mapErrS (answer AlreadyExists ''add rule: %v'')
       (onRules env (Add (ve_enc env) (ve_dec env) (ve_rulefl env) (ve_rulepart env) (ve_rulesDir env) username rule))))))"

definition RemoveUserRule :: "'w svc_env \<Rightarrow> peer_ctx \<Rightarrow> string \<Rightarrow> ('w, unit) svc" where
  "RemoveUserRule env ctx name =
     bindS (liftS (extractUsername env ctx)) (\<lambda>username.
     mapErrS (answer NotFound ''remove rule: %v'')
       (onRules env (Remove (ve_enc env) (ve_dec env) (ve_rulefl env) (ve_rulepart env) (ve_rulesDir env) username name)))"

record rule_view =
  rv_Name :: string
  rv_Paths :: "string list"
  rv_Exclude :: "string list"
  rv_Enabled :: bool

definition ListUserRules :: "'w svc_env \<Rightarrow> peer_ctx \<Rightarrow> ('w, rule_view list) svc" where
  "ListUserRules env ctx =
     bindS (liftS (extractUsername env ctx)) (\<lambda>username d.
     liftS (mapErr (answer Internal ''load rules: %v'')
       (bindE (loadRules env username (dm_rules d)) (\<lambda>userRules.
          Inr (map (\<lambda>r. \<lparr>rv_Name = Name r, rv_Paths = Paths r, rv_Exclude = Exclude r, rv_Enabled = Enabled r\<rparr>) userRules)))) d)"

definition setUserRule :: "'w svc_env \<Rightarrow> peer_ctx \<Rightarrow> string \<Rightarrow> bool \<Rightarrow> ('w, unit) svc" where
  "setUserRule env ctx name enabled =
     bindS (liftS (extractUsername env ctx)) (\<lambda>username.
     mapErrS (answer NotFound ''%v'')
       (onRules env (SetEnabled (ve_enc env) (ve_dec env) (ve_rulefl env) (ve_rulepart env) (ve_rulesDir env)
          username name enabled)))"

definition EnableUserRule :: "'w svc_env \<Rightarrow> peer_ctx \<Rightarrow> string \<Rightarrow> ('w, unit) svc" where
  "EnableUserRule env ctx name = setUserRule env ctx name True"

definition DisableUserRule :: "'w svc_env \<Rightarrow> peer_ctx \<Rightarrow> string \<Rightarrow> ('w, unit) svc" where
  "DisableUserRule env ctx name = setUserRule env ctx name False"

section \<open>Machine rules\<close>

text \<open>
  The configuration is written to a temporary file in the directory of the configuration file and
  renamed over it; the temporary file is removed on the way out.
\<close>

definition saveAgentConfig ::
  "'w svc_env \<Rightarrow> agent_config \<Rightarrow> (string \<Rightarrow> bytes option) \<Rightarrow> (string \<Rightarrow> bytes option) \<times> unit result" where
  "saveAgentConfig env cfg fs =
     (let fl = ve_cfgfl env; path = ve_ConfigPath env; tmpPath = Join [Dir path, ve_tmp env];
          drop = (\<lambda>g. if fl CfgRemove then g else g(tmpPath := None))
      in case ve_yaml env cfg of
           Inl e \<Rightarrow> (fs, Inl e)
         | Inr data \<Rightarrow>
             if fl CfgCreateTemp then (fs, Inl (Errorf ''create temp''))
             else if fl CfgChmod then (drop (fs(tmpPath \<mapsto> '''')), Inl (Errorf ''chmod''))
             else if fl CfgWrite then (drop (fs(tmpPath \<mapsto> ve_part env)), Inl (Errorf ''write''))
             else if fl CfgClose then (drop (fs(tmpPath \<mapsto> data)), Inl (Errorf ''close''))
             else if fl CfgRename then (drop (fs(tmpPath \<mapsto> data)), Inl (Errorf ''rename''))
             else ((fs(tmpPath := None))(path \<mapsto> data), Inr ()))"

definition requireRoot :: "'w svc_env \<Rightarrow> peer_ctx \<Rightarrow> string \<Rightarrow> ('w, unit) svc" where
  "requireRoot env ctx msg =
     bindS (liftS (extractUsername env ctx)) (\<lambda>username.
     checkS (failIf (username \<noteq> ''root'') (Status PermissionDenied msg)))"

text \<open>The new list is in the memory of the daemon before it is saved, and stays when saving fails.\<close>

definition putMachineRules :: "'w svc_env \<Rightarrow> machine_rule list \<Rightarrow> ('w, unit) svc" where
  "putMachineRules env rs d =
     (let cfg = (dm_cfg d)\<lparr>ac_MachineRules := rs\<rparr> in
      case saveAgentConfig env cfg (dm_files d) of
        (fs, r) \<Rightarrow> (d\<lparr>dm_cfg := cfg, dm_files := fs\<rparr>, mapErr (answer Internal ''save config: %v'') r))"

definition requestedMachineRule :: "rule_request \<Rightarrow> machine_rule" where
  "requestedMachineRule req = \<lparr>mr_Name = rr_Name req, mr_Paths = rr_Paths req, mr_Schedule = rr_Schedule req,
     mr_Exclude = rr_Exclude req, mr_Enabled = True\<rparr>"

definition AddMachineRule :: "'w svc_env \<Rightarrow> peer_ctx \<Rightarrow> rule_request \<Rightarrow> ('w, unit) svc" where
  "AddMachineRule env ctx req =
     bindS (requireRoot env ctx ''only root can manage machine rules'') (\<lambda>_ d.
     putMachineRules env (ac_MachineRules (dm_cfg d) @ [requestedMachineRule req]) d)"

definition RemoveMachineRule :: "'w svc_env \<Rightarrow> peer_ctx \<Rightarrow> string \<Rightarrow> ('w, unit) svc" where
  "RemoveMachineRule env ctx name =
     bindS (requireRoot env ctx ''only root can manage machine rules'') (\<lambda>_ d.
     let rs = ac_MachineRules (dm_cfg d) in
     if \<not> list_ex (\<lambda>r. mr_Name r = name) rs then (d, Inl (Status NotFound ''machine rule %q not found''))
     else putMachineRules env (filter (\<lambda>r. mr_Name r \<noteq> name) rs) d)"

definition ListMachineRules :: "'w svc_env \<Rightarrow> peer_ctx \<Rightarrow> ('w, rule_view list) svc" where
  "ListMachineRules env ctx =
     bindS (requireRoot env ctx ''only root can list machine rules'') (\<lambda>_ d.
     (d, Inr (map (\<lambda>r. \<lparr>rv_Name = mr_Name r, rv_Paths = mr_Paths r, rv_Exclude = mr_Exclude r, rv_Enabled = mr_Enabled r\<rparr>)
                  (ac_MachineRules (dm_cfg d)))))"

section \<open>The functions of the daemon\<close>

record sync_update =
  su_TaskId :: string
  su_Phase :: string
  su_CurrentFiles :: "string list"
  su_Stats :: stats
  su_Error :: string

record quota_answer =
  qa_UsedBytes :: int
  qa_QuotaBytes :: int
  qa_Dataset :: string
  qa_Server :: string

record auth_challenge =
  ah_Nonce :: bytes
  ah_ExpiresAt :: int
  ah_Server :: string
  ah_Username :: string

record 'w AgentService =
  as_TriggerSync :: "(string \<Rightarrow> string \<Rightarrow> string \<Rightarrow> nat \<Rightarrow> string list \<Rightarrow> ('w, string) svc) option"
  as_GetStatus :: "(string \<Rightarrow> string \<Rightarrow> 'w daemon \<Rightarrow> sync_update result) option"
  as_RequestRestore :: "(string \<Rightarrow> nat \<Rightarrow> string list \<Rightarrow> string \<Rightarrow> string \<Rightarrow> bytes \<Rightarrow> bytes \<Rightarrow> ('w, string) svc) option"
  as_GetQuotaUsage :: "(string \<Rightarrow> string \<Rightarrow> nat \<Rightarrow> string list \<Rightarrow> bytes \<Rightarrow> bytes \<Rightarrow> ('w, quota_answer) svc) option"
  as_GetAuthChallenge :: "('w, auth_challenge) svc option"
  as_RegisterDelegationKey :: "(string \<Rightarrow> nat \<Rightarrow> string list \<Rightarrow> delegation_request \<Rightarrow> ('w, unit) svc) option"
  as_RemoveDelegationKey :: "(string \<Rightarrow> nat \<Rightarrow> string list \<Rightarrow> delegation_request \<Rightarrow> ('w, unit) svc) option"

definition required :: "string \<Rightarrow> 'a option \<Rightarrow> 'a result" where
  "required msg f = (case f of None \<Rightarrow> Inl (Status Unimplemented msg) | Some g \<Rightarrow> Inr g)"

lemma required_eq [simp]: "required msg (Some g) = Inr g" "required msg f = Inr g \<longleftrightarrow> f = Some g"
  by (auto simp: required_def split: option.splits)

section \<open>Syncs and restores\<close>

definition ValidateSSHAgentSocketForUser :: "'w svc_env \<Rightarrow> string \<Rightarrow> nat \<Rightarrow> error option" where
  "ValidateSSHAgentSocketForUser env socket uid =
     (if \<not> is_abs socket then Some (Errorf ''SSH agent socket must be an absolute path'')
      else case ve_socket env socket of
        Inl e \<Rightarrow> Some (Wrap ''stat SSH agent socket: %w'' e)
      | Inr (isSocket, owner) \<Rightarrow>
          if \<not> isSocket then Some (Errorf ''SSH agent path is not a Unix socket'')
          else failIf (owner \<noteq> uid) (Errorf ''SSH agent socket is not owned by authenticated user''))"

definition SignWithSSHAgentForUser :: "'w svc_env \<Rightarrow> string \<Rightarrow> nat \<Rightarrow> bytes \<Rightarrow> bytes result" where
  "SignWithSSHAgentForUser env socket uid payload =
     (case ValidateSSHAgentSocketForUser env socket uid of
        Some e \<Rightarrow> Inl e
      | None \<Rightarrow> ve_sign env socket payload)"

definition TriggerSync ::
  "'w svc_env \<Rightarrow> 'w AgentService \<Rightarrow> peer_ctx \<Rightarrow> string \<Rightarrow> string \<Rightarrow> ('w, string) svc" where
  "TriggerSync env svc ctx ruleName sshAuthSock =
     bindS (liftS (extractCallerIdentity env ctx)) (\<lambda>ident.
     bindS (liftS (required ''sync orchestrator not configured'' (as_TriggerSync svc))) (\<lambda>trigger.
     bindS (checkS (failIf (sshAuthSock = '''') (Status InvalidArgument ''SSH_AUTH_SOCK is required for user sync''))) (\<lambda>_.
     bindS (checkS (map_option (answer InvalidArgument ''validate SSH_AUTH_SOCK: %v'')
              (ValidateSSHAgentSocketForUser env sshAuthSock (ci_UID ident)))) (\<lambda>_.
     mapErrS (answer Internal ''trigger sync: %v'')
       (trigger (ci_Username ident) ruleName sshAuthSock (ci_UID ident) (ci_Groups ident))))))"

record restore_request =
  rq_TargetPath :: string
  rq_Server :: string
  rq_Nonce :: bytes
  rq_Signature :: bytes

definition RequestRestore ::
  "'w svc_env \<Rightarrow> 'w AgentService \<Rightarrow> peer_ctx \<Rightarrow> restore_request \<Rightarrow> ('w, string) svc" where
  "RequestRestore env svc ctx req =
     bindS (liftS (extractCallerIdentity env ctx)) (\<lambda>ident.
     bindS (liftS (required ''restore orchestrator not configured'' (as_RequestRestore svc))) (\<lambda>restore.
     mapErrS (answer Internal ''request restore: %v'')
       (restore (ci_Username ident) (ci_UID ident) (ci_Groups ident) (rq_TargetPath req) (rq_Server req)
          (rq_Nonce req) (rq_Signature req))))"

section \<open>Quota and challenges\<close>

definition svc_GetQuotaUsage ::
  "'w svc_env \<Rightarrow> 'w AgentService \<Rightarrow> peer_ctx \<Rightarrow> string \<Rightarrow> bytes \<Rightarrow> bytes \<Rightarrow> ('w, quota_answer) svc" where
  "svc_GetQuotaUsage env svc ctx server nonce signature =
     bindS (liftS (extractCallerIdentity env ctx)) (\<lambda>ident.
     bindS (liftS (required ''quota orchestrator not configured'' (as_GetQuotaUsage svc))) (\<lambda>usage.
     mapErrS (answer Internal ''get quota usage: %v'')
       (usage (ci_Username ident) server (ci_UID ident) (ci_Groups ident) nonce signature)))"

definition svc_GetAuthChallenge ::
  "'w svc_env \<Rightarrow> 'w AgentService \<Rightarrow> peer_ctx \<Rightarrow> string \<Rightarrow> ('w, auth_challenge) svc" where
  "svc_GetAuthChallenge env svc ctx method =
     bindS (checkS (failIf (method \<notin> {''GetQuotaUsage'', ''PullRestore'', ''RegisterDelegationKey'', ''RemoveDelegationKey''})
              (Status InvalidArgument ''unsupported auth challenge method''))) (\<lambda>_.
     bindS (liftS (extractUsername env ctx)) (\<lambda>username.
     bindS (liftS (required ''auth challenge provider not configured'' (as_GetAuthChallenge svc))) (\<lambda>challenge.
     bindS (mapErrS (answer Internal ''get auth challenge: %v'') challenge) (\<lambda>ch.
     returnS (ch\<lparr>ah_Username := username\<rparr>)))))"

section \<open>The status of a task\<close>

text \<open>
  One round of the stream: the daemon as it is then, what \<open>Send\<close> returns and, after the update,
  whether the caller is gone. No result means that the stream still polls.
\<close>

record 'w poll =
  po_daemon :: "'w daemon"
  po_send :: "error option"
  po_done :: "error option"

fun statusLoop ::
  "('w daemon \<Rightarrow> sync_update result) \<Rightarrow> 'w poll list \<Rightarrow> sync_update list \<times> unit result option" where
  "statusLoop status [] = ([], None)"
| "statusLoop status (p # ps) =
     (case status (po_daemon p) of
        Inl e \<Rightarrow> ([], Some (Inl (Status NotFound ''task not found: %v'')))
      | Inr update \<Rightarrow>
          (case po_send p of
             Some e \<Rightarrow> ([], Some (Inl e))
           | None \<Rightarrow>
               if su_Phase update = ''COMPLETED'' \<or> su_Phase update = ''FAILED'' then ([update], Some (Inr ()))
               else (case po_done p of
                       Some e \<Rightarrow> ([update], Some (Inl e))
                     | None \<Rightarrow> (case statusLoop status ps of (us, r) \<Rightarrow> (update # us, r)))))"

definition GetSyncStatus ::
  "'w svc_env \<Rightarrow> 'w AgentService \<Rightarrow> peer_ctx \<Rightarrow> string \<Rightarrow> 'w poll list \<Rightarrow> sync_update list \<times> unit result option" where
  "GetSyncStatus env svc ctx taskId polls =
     (case required ''status tracker not configured'' (as_GetStatus svc) of
        Inl e \<Rightarrow> ([], Some (Inl e))
      | Inr status \<Rightarrow>
          (case extractUsername env ctx of
             Inl e \<Rightarrow> ([], Some (Inl e))
           | Inr username \<Rightarrow> statusLoop (status username taskId) polls))"

section \<open>Web delegations\<close>

definition gatewayCNAllowed :: "string list \<Rightarrow> string \<Rightarrow> bool" where
  "gatewayCNAllowed cns cn = list_ex (\<lambda>a. a = cn) cns"

definition onDeleg :: "(web_delegations \<Rightarrow> web_delegations result) \<Rightarrow> ('w, unit) svc" where
  "onDeleg f d = (case f (dm_deleg d) of Inl e \<Rightarrow> (d, Inl e) | Inr t \<Rightarrow> (d\<lparr>dm_deleg := t\<rparr>, Inr ()))"

record enroll_request =
  eq_GatewayCn :: string
  eq_DelegationPubkey :: string
  eq_TtlSeconds :: int
  eq_Server :: string
  eq_Nonce :: bytes
  eq_Signature :: bytes

text \<open>A number of seconds as a \<open>time.Duration\<close>, which has 64 bits.\<close>

definition ttl_ns :: "int \<Rightarrow> int" where
  "ttl_ns secs = wrap64 (secs * second_ns)"

definition checkEnroll :: "'w svc_env \<Rightarrow> https_config \<Rightarrow> enroll_request \<Rightarrow> error option" where
  "checkEnroll env api req =
     orElse (failIf (\<not> gatewayCNAllowed (hc_GatewayCNs api) (eq_GatewayCn req))
       (Status InvalidArgument ''gateway is not allowlisted''))
     (orElse (failIf (\<not> ve_pubkey env (eq_DelegationPubkey req))
       (Status InvalidArgument ''invalid delegation public key''))
     (failIf (eq_TtlSeconds req \<le> 0 \<or> ttl_ns (eq_TtlSeconds req) > hc_DelegationTTL api)
       (Status InvalidArgument ''ttl must be between 1s and %v'')))"

definition enrollExpiry :: "'w svc_env \<Rightarrow> enroll_request \<Rightarrow> int" where
  "enrollExpiry env req = (av_nanos (ve_agent env) + ttl_ns (eq_TtlSeconds req)) div second_ns"

definition registerEnrollment ::
  "'w svc_env \<Rightarrow> 'w AgentService \<Rightarrow> enroll_request \<Rightarrow> caller_identity \<Rightarrow> ('w, int) svc" where
  "registerEnrollment env svc req ident =
     bindS (liftS (required ''delegation registration not configured'' (as_RegisterDelegationKey svc))) (\<lambda>register.
     let expiresAt = enrollExpiry env req in
     bindS (mapErrS (answer Internal ''register delegation key at server: %v'')
       (register (eq_Server req) (ci_UID ident) (ci_Groups ident)
          \<lparr>dr_Username = ci_Username ident, dr_GatewayCn = eq_GatewayCn req, dr_DelegationPubkey = eq_DelegationPubkey req,
           dr_ExpiresAt = expiresAt, dr_Nonce = eq_Nonce req, dr_Signature = eq_Signature req\<rparr>)) (\<lambda>_.
     bindS (mapErrS (answer Internal ''record delegation: %v'')
       (onDeleg (UpsertWebDelegation (av_db (ve_agent env))
          \<lparr>wd_Username = ci_Username ident, wd_GatewayCN = eq_GatewayCn req,
           wd_DelegationPubKey = eq_DelegationPubkey req, wd_ExpiresAt = expiresAt,
           wd_CreatedAt = av_nanos (ve_agent env) div second_ns, wd_RevokedAt = None\<rparr>))) (\<lambda>_.
     returnS expiresAt)))"

definition EnrollWebDelegation ::
  "'w svc_env \<Rightarrow> 'w AgentService \<Rightarrow> peer_ctx \<Rightarrow> enroll_request \<Rightarrow> ('w, int) svc" where
  "EnrollWebDelegation env svc ctx req =
     bindS (liftS (extractCallerIdentity env ctx)) (\<lambda>ident d.
     case ac_HTTPSAPI (dm_cfg d) of
       None \<Rightarrow> (d, Inl (Status FailedPrecondition ''https_api is not configured''))
     | Some api \<Rightarrow> bindS (checkS (checkEnroll env api req)) (\<lambda>_. registerEnrollment env svc req ident) d)"

text \<open>The answer of the server is dropped: the local row is revoked whatever it says.\<close>

definition tryS :: "('s, 'a) step \<Rightarrow> ('s, unit) step" where
  "tryS m s = (fst (m s), Inr ())"

definition revokeDelegation ::
  "'w svc_env \<Rightarrow> 'w AgentService \<Rightarrow> string \<Rightarrow> string \<Rightarrow> bytes \<Rightarrow> bytes \<Rightarrow> caller_identity \<Rightarrow> web_delegation \<Rightarrow>
   ('w, unit) svc" where
  "revokeDelegation env svc gatewayCn server nonce signature ident w =
     bindS (case as_RemoveDelegationKey svc of
         None \<Rightarrow> returnS ()
       | Some remove \<Rightarrow> tryS (remove server (ci_UID ident) (ci_Groups ident)
           \<lparr>dr_Username = ci_Username ident, dr_GatewayCn = gatewayCn, dr_DelegationPubkey = wd_DelegationPubKey w,
            dr_ExpiresAt = 0, dr_Nonce = nonce, dr_Signature = signature\<rparr>)) (\<lambda>_.
     mapErrS (answer Internal ''revoke delegation: %v'')
       (onDeleg (RevokeWebDelegation (av_db (ve_agent env)) (av_sec (ve_agent env)) (ci_Username ident) gatewayCn)))"

definition svc_RevokeWebDelegation ::
  "'w svc_env \<Rightarrow> 'w AgentService \<Rightarrow> peer_ctx \<Rightarrow> string \<Rightarrow> string \<Rightarrow> bytes \<Rightarrow> bytes \<Rightarrow> ('w, unit) svc" where
  "svc_RevokeWebDelegation env svc ctx gatewayCn server nonce signature =
     bindS (liftS (extractCallerIdentity env ctx)) (\<lambda>ident d.
     case GetWebDelegation (av_db (ve_agent env)) (ci_Username ident) gatewayCn (dm_deleg d) of
       Inl e \<Rightarrow> (d, Inl (Status Internal ''load delegation: %v''))
     | Inr None \<Rightarrow> (d, Inl (Status NotFound ''no active delegation for gateway''))
     | Inr (Some w) \<Rightarrow>
         if wd_RevokedAt w \<noteq> None then (d, Inl (Status NotFound ''no active delegation for gateway''))
         else revokeDelegation env svc gatewayCn server nonce signature ident w d)"

record delegation_view =
  dv_GatewayCn :: string
  dv_DelegationPubkey :: string
  dv_ExpiresAt :: int
  dv_Revoked :: bool

definition svc_ListWebDelegations :: "'w svc_env \<Rightarrow> peer_ctx \<Rightarrow> ('w, delegation_view list) svc" where
  "svc_ListWebDelegations env ctx =
     bindS (liftS (extractUsername env ctx)) (\<lambda>username d.
     (d, mapErr (answer Internal ''list delegations: %v'')
       (bindE (ListWebDelegations (av_db (ve_agent env)) username (dm_deleg d)) (\<lambda>ds.
          Inr (map (\<lambda>w. \<lparr>dv_GatewayCn = wd_GatewayCN w, dv_DelegationPubkey = wd_DelegationPubKey w,
                         dv_ExpiresAt = wd_ExpiresAt w, dv_Revoked = (wd_RevokedAt w \<noteq> None)\<rparr>) ds)))))"

end
