(* ===== verification/Vault_Database.thy ===== *)
theory Vault_Database
  imports Vault_Config Vault_Scanner
begin

text \<open>
  \<open>pkg/store\<close>, the database files: opening them (\<open>sqlite.go\<close>) and the migrations both programs run
  at every start. A database is the list of its tables, a table its columns, its primary key and
  its rows, a row the list of the values of its columns. What the SQL statements do is SQLite's
  documented behaviour: \<open>CREATE TABLE IF NOT EXISTS\<close> leaves an existing table alone, and a column
  that is added holds its default in the rows that are already there. Any statement may fail, and
  then changes nothing.
\<close>

section \<open>Tables\<close>

datatype sql_value = SqlNull | SqlInt int | SqlText string | SqlBlob bytes

datatype sql_type = TEXT | INTEGER | BLOB

record sql_column =
  cl_name :: string
  cl_type :: sql_type
  cl_not_null :: bool
  cl_default :: sql_value

record sql_table =
  tb_columns :: "sql_column list"
  tb_key :: "string list"
  tb_rows :: "sql_value list list"

type_synonym database = "(string \<times> sql_table) list"

datatype schema_op = CreateTable string | QuerySchema string | AddColumn string

type_synonym schema_faults = "schema_op \<Rightarrow> bool"

definition hasColumn :: "string \<Rightarrow> sql_table \<Rightarrow> bool" where
  "hasColumn c t \<longleftrightarrow> c \<in> cl_name ` set (tb_columns t)"

definition createTable ::
  "schema_faults \<Rightarrow> string \<Rightarrow> sql_column list \<Rightarrow> string list \<Rightarrow> (database, unit) step" where
  "createTable fl name cols key db =
     (if fl (CreateTable name) then (db, Inl (Errorf ''create table''))
      else if map_of db name \<noteq> None then (db, Inr ())
      else (db @ [(name, \<lparr>tb_columns = cols, tb_key = key, tb_rows = []\<rparr>)], Inr ()))"

definition tableHasColumn :: "schema_faults \<Rightarrow> string \<Rightarrow> string \<Rightarrow> (database, bool) step" where
  "tableHasColumn fl name c db =
     (if fl (QuerySchema name) then (db, Inl (Errorf ''pragma_table_info''))
      else (db, Inr (case map_of db name of None \<Rightarrow> False | Some t \<Rightarrow> hasColumn c t)))"

definition withColumn :: "sql_column \<Rightarrow> sql_table \<Rightarrow> sql_table" where
  "withColumn c t = t\<lparr>tb_columns := tb_columns t @ [c], tb_rows := map (\<lambda>r. r @ [cl_default c]) (tb_rows t)\<rparr>"

definition addColumn :: "schema_faults \<Rightarrow> string \<Rightarrow> sql_column \<Rightarrow> (database, unit) step" where
  "addColumn fl name c db =
     (if fl (AddColumn name) then (db, Inl (Errorf ''alter table''))
      else case map_of db name of
        None \<Rightarrow> (db, Inl (Errorf ''no such table''))
      | Some t \<Rightarrow>
          if hasColumn (cl_name c) t then (db, Inl (Errorf ''duplicate column name''))
          else (map (\<lambda>(n, t'). (n, if n = name then withColumn c t' else t')) db, Inr ()))"

text \<open>\<open>NOT NULL\<close> with and without \<open>DEFAULT\<close>, and a column without both.\<close>

definition notNull :: "string \<Rightarrow> sql_type \<Rightarrow> sql_column" where
  "notNull n ty = \<lparr>cl_name = n, cl_type = ty, cl_not_null = True, cl_default = SqlNull\<rparr>"

definition nullable :: "string \<Rightarrow> sql_type \<Rightarrow> sql_column" where
  "nullable n ty = \<lparr>cl_name = n, cl_type = ty, cl_not_null = False, cl_default = SqlNull\<rparr>"

definition notNullDefault :: "string \<Rightarrow> sql_type \<Rightarrow> sql_value \<Rightarrow> sql_column" where
  "notNullDefault n ty v = \<lparr>cl_name = n, cl_type = ty, cl_not_null = True, cl_default = v\<rparr>"

section \<open>Migrations\<close>

definition MigrateNonces :: "schema_faults \<Rightarrow> (database, unit) step" where
  "MigrateNonces fl = mapErrS (Wrap ''migrate nonces: %w'')
     (createTable fl ''nonces''
        [nullable ''nonce'' TEXT, notNull ''expires_at'' INTEGER, notNullDefault ''used'' INTEGER (SqlInt 0)] [''nonce''])"

definition MigrateTaskGrants :: "schema_faults \<Rightarrow> (database, unit) step" where
  "MigrateTaskGrants fl = mapErrS (Wrap ''migrate task_grants: %w'')
     (createTable fl ''task_grants''
        [notNull ''hostname'' TEXT, notNull ''username'' TEXT, notNull ''method'' TEXT, notNull ''ephemeral_fingerprint'' TEXT,
         notNull ''ephemeral_pubkey'' TEXT, notNull ''expires_at'' INTEGER]
        [''hostname'', ''username'', ''ephemeral_fingerprint''])"

definition MigrateWebDelegations :: "schema_faults \<Rightarrow> (database, unit) step" where
  "MigrateWebDelegations fl = mapErrS (Wrap ''migrate web_delegations: %w'')
     (createTable fl ''web_delegations''
        [notNull ''username'' TEXT, notNull ''gateway_cn'' TEXT, notNull ''delegation_pubkey'' TEXT, notNull ''expires_at'' INTEGER,
         notNull ''created_at'' INTEGER, nullable ''revoked_at'' INTEGER]
        [''username'', ''gateway_cn''])"

definition MigrateTasks :: "schema_faults \<Rightarrow> (database, unit) step" where
  "MigrateTasks fl = mapErrS (Wrap ''migrate task_history: %w'')
     (createTable fl ''task_history''
        [nullable ''task_id'' TEXT, notNull ''server_id'' TEXT, notNull ''username'' TEXT, notNullDefault ''phase'' TEXT (SqlText ''PENDING''),
         nullable ''stats_json'' TEXT, nullable ''error'' TEXT, notNull ''started_at'' INTEGER, nullable ''ended_at'' INTEGER]
        [''task_id''])"

definition modeColumn :: sql_column where
  "modeColumn = notNullDefault ''mode_bits'' INTEGER (SqlInt 0)"

definition MigrateSnapshots :: "schema_faults \<Rightarrow> (database, unit) step" where
  "MigrateSnapshots fl =
     bindS (mapErrS (Wrap ''migrate file_snapshots: %w'')
       (createTable fl ''file_snapshots''
          [notNull ''server_id'' TEXT, notNull ''username'' TEXT, notNull ''file_path'' TEXT, notNull ''mtime_ns'' INTEGER,
           notNull ''size_bytes'' INTEGER, modeColumn, nullable ''sha256'' BLOB, notNull ''synced_at'' INTEGER]
          [''server_id'', ''username'', ''file_path''])) (\<lambda>_.
     bindS (mapErrS (Wrap ''inspect file_snapshots schema: %w'')
       (tableHasColumn fl ''file_snapshots'' ''mode_bits'')) (\<lambda>hasModeBits.
     if \<not> hasModeBits
     then mapErrS (Wrap ''add file_snapshots mode_bits: %w'') (addColumn fl ''file_snapshots'' modeColumn)
     else returnS ()))"

section \<open>Opening\<close>

text \<open>
  The directory of the file is created first; the library opens the file itself only at the
  first statement. \<open>mkdirAll\<close> and \<open>sqlOpen\<close> are the operating system's and the library's answers.
\<close>

record db_handle =
  dh_source :: string
  dh_maxOpenConns :: nat

definition OpenDB :: "(string \<Rightarrow> error option) \<Rightarrow> (string \<Rightarrow> error option) \<Rightarrow> string \<Rightarrow> db_handle result" where
  "OpenDB mkdirAll sqlOpen path =
     (case (if path \<noteq> '':memory:'' \<and> Dir path \<noteq> ''.''
            then wrapErr ''create sqlite directory: %w'' (mkdirAll (Dir path)) else None) of
        Some e \<Rightarrow> Inl e
      | None \<Rightarrow>
          (case sqlOpen (path @ ''?_journal_mode=WAL&_busy_timeout=5000'') of
             Some e \<Rightarrow> Inl (Wrap ''open sqlite: %w'' e)
           | None \<Rightarrow> Inr \<lparr>dh_source = path @ ''?_journal_mode=WAL&_busy_timeout=5000'', dh_maxOpenConns = 1\<rparr>))"

text \<open>What the two programs do with their database when they start.\<close>

definition migrateServer :: "schema_faults \<Rightarrow> (database, unit) step" where
  "migrateServer fl =
     bindS (mapErrS (Wrap ''migrate nonces: %v'') (MigrateNonces fl)) (\<lambda>_.
     mapErrS (Wrap ''migrate task_grants: %v'') (MigrateTaskGrants fl))"

definition migrateAgent :: "schema_faults \<Rightarrow> (database, unit) step" where
  "migrateAgent fl =
     bindS (mapErrS (Wrap ''migrate snapshots: %v'') (MigrateSnapshots fl)) (\<lambda>_.
     bindS (mapErrS (Wrap ''migrate tasks: %v'') (MigrateTasks fl)) (\<lambda>_.
     mapErrS (Wrap ''migrate web delegations: %v'') (MigrateWebDelegations fl)))"

section \<open>What a row is read as\<close>

text \<open>
  \<open>rows.Scan\<close> of the standard library: \<open>NULL\<close> can only be read into bytes, an integer into an
  \<open>int64\<close> as it is and into a \<open>uint32\<close> through its decimal text.
\<close>

fun scanBytes :: "sql_value \<Rightarrow> bytes" where
  "scanBytes SqlNull = ''''"
| "scanBytes (SqlInt n) = format_int n"
| "scanBytes (SqlText s) = s"
| "scanBytes (SqlBlob b) = b"

definition scanString :: "sql_value \<Rightarrow> string result" where
  "scanString v =
     (if v = SqlNull then Inl (Errorf ''converting NULL to string is unsupported'') else Inr (scanBytes v))"

fun scanInt64 :: "sql_value \<Rightarrow> int result" where
  "scanInt64 (SqlInt n) = Inr n"
| "scanInt64 v = bindE (scanString v) (parse_int 64)"

definition scanUint32 :: "sql_value \<Rightarrow> 32 word result" where
  "scanUint32 v = bindE (scanString v) (\<lambda>s. bindE (parse_uint 32 s) (\<lambda>n. Inr (of_nat n)))"

definition snapshot_columns :: "string list" where
  "snapshot_columns = [''server_id'', ''username'', ''file_path'', ''mtime_ns'', ''size_bytes'', ''mode_bits'',
     ''sha256'', ''synced_at'']"

definition cell :: "sql_table \<Rightarrow> sql_value list \<Rightarrow> string \<Rightarrow> sql_value" where
  "cell t row c = getOpt SqlNull (map_of (zip (map cl_name (tb_columns t)) row) c)"

definition scanSnapshot :: "sql_table \<Rightarrow> sql_value list \<Rightarrow> file_snapshot result" where
  "scanSnapshot t row =
     bindE (scanString (cell t row ''server_id'')) (\<lambda>sid.
     bindE (scanString (cell t row ''username'')) (\<lambda>u.
     bindE (scanString (cell t row ''file_path'')) (\<lambda>p.
     bindE (scanInt64 (cell t row ''mtime_ns'')) (\<lambda>mtime.
     bindE (scanInt64 (cell t row ''size_bytes'')) (\<lambda>size.
     bindE (scanUint32 (cell t row ''mode_bits'')) (\<lambda>mode.
     bindE (scanInt64 (cell t row ''synced_at'')) (\<lambda>synced.
     Inr \<lparr>fs_ServerID = sid, fs_Username = u, fs_FilePath = p, fs_Mtime = mtime, fs_Size = size, fs_Mode = mode,
       fs_SHA256 = scanBytes (cell t row ''sha256''), fs_SyncedAt = synced\<rparr>)))))))"

fun mapE :: "('a \<Rightarrow> 'b result) \<Rightarrow> 'a list \<Rightarrow> 'b list result" where
  "mapE f [] = Inr []"
| "mapE f (x # xs) = bindE (f x) (\<lambda>y. bindE (mapE f xs) (\<lambda>ys. Inr (y # ys)))"

text \<open>The snapshots in the table: the query of \<open>ListUserSnapshots\<close> without its \<open>WHERE\<close>.\<close>

definition selectSnapshots :: "database \<Rightarrow> snapshots result" where
  "selectSnapshots db =
     (case map_of db ''file_snapshots'' of
        None \<Rightarrow> Inl (Errorf ''no such table'')
      | Some t \<Rightarrow>
          if \<not> list_all (\<lambda>c. hasColumn c t) snapshot_columns then Inl (Errorf ''no such column'')
          else mapE (scanSnapshot t) (tb_rows t))"

section \<open>Migrations lose nothing\<close>

text \<open>A table of the old database is in the new one, with columns that hold their default added.\<close>

definition additive :: "database \<Rightarrow> database \<Rightarrow> bool" where
  "additive db db' \<longleftrightarrow>
     (\<forall>name t. map_of db name = Some t \<longrightarrow> (\<exists>cs. map_of db' name = Some (fold withColumn cs t)))"

lemma additive_refl [simp]: "additive db db"
  unfolding additive_def by (metis fold_simps(1))

lemma additive_trans: "additive a b \<Longrightarrow> additive b c \<Longrightarrow> additive a c"
  unfolding additive_def by (metis fold_append comp_apply)

lemma additive_keeps: "(\<And>db. additive db (fst (m db))) \<Longrightarrow> keeps (additive db0) m"
  using additive_trans by (auto simp: keeps_def)

lemma map_of_alter:
  "map_of (map (\<lambda>(n, t). (n, if n = name then f t else t)) db) k =
     (if k = name then map_option f (map_of db k) else map_of db k)"
  by (induction db) auto

lemma createTable_additive [keeps_intros]: "keeps (additive db0) (createTable fl name cols key)"
proof (rule additive_keeps)
  have "\<exists>cs. t = fold withColumn cs t" for t :: sql_table
    by (rule exI [where x = "[]"]) simp
  then show "additive db (fst (createTable fl name cols key db))" for db
    by (auto simp: createTable_def additive_def map_add_def)
qed

lemma tableHasColumn_additive [keeps_intros]: "keeps (additive db0) (tableHasColumn fl name c)"
  by (simp add: keeps_def tableHasColumn_def)

lemma addColumn_additive [keeps_intros]: "keeps (additive db0) (addColumn fl name c)"
proof (rule additive_keeps)
  have "\<exists>cs. t = fold withColumn cs t" "\<exists>cs. withColumn c t = fold withColumn cs t" for t
    by (rule exI [where x = "[]"], simp) (rule exI [where x = "[c]"], simp)
  then show "additive db (fst (addColumn fl name c db))" for db
    by (auto simp: addColumn_def additive_def map_of_alter split: option.split)
qed

lemmas migrate_defs =
  MigrateNonces_def MigrateTaskGrants_def MigrateWebDelegations_def MigrateTasks_def MigrateSnapshots_def

lemma migrate_additive:
  "keeps (additive db0) (migrateAgent fl)" "keeps (additive db0) (migrateServer fl)"
  by (simp_all add: migrateAgent_def migrateServer_def migrate_defs keeps_intros)

section \<open>An interrupted migration\<close>

definition no_schema_faults :: schema_faults where
  "no_schema_faults _ = False"

lemma hasColumn_with [simp]: "hasColumn c (withColumn d t) \<longleftrightarrow> c = cl_name d \<or> hasColumn c t"
  by (auto simp: hasColumn_def withColumn_def)

text \<open>The fault-free migration of one table, and of the column of the snapshots.\<close>

definition ensured :: "string \<Rightarrow> sql_column list \<Rightarrow> string list \<Rightarrow> database \<Rightarrow> database" where
  "ensured name cols key db =
     (if map_of db name \<noteq> None then db else db @ [(name, \<lparr>tb_columns = cols, tb_key = key, tb_rows = []\<rparr>)])"

lemma createTable_cases: "createTable fl name cols key db =
    (if fl (CreateTable name) then (db, Inl (Errorf ''create table'')) else (ensured name cols key db, Inr ()))"
  by (simp add: createTable_def ensured_def)

lemma ensured_map_of: "map_of (ensured name cols key db) n =
    (if n = name \<and> map_of db name = None then Some \<lparr>tb_columns = cols, tb_key = key, tb_rows = []\<rparr> else map_of db n)"
  by (auto simp: ensured_def map_add_def split: option.splits)

lemma ensured_idem [simp]: "ensured name cols key (ensured name cols key db) = ensured name cols key db"
  by (auto simp: ensured_def)

definition columned :: "database \<Rightarrow> database" where
  "columned db = (case map_of db ''file_snapshots'' of
     None \<Rightarrow> db
   | Some t \<Rightarrow> if hasColumn ''mode_bits'' t then db
       else map (\<lambda>(n, t'). (n, if n = ''file_snapshots'' then withColumn modeColumn t' else t')) db)"

lemma columned_map_of: "map_of (columned db) n =
    (if n = ''file_snapshots'' \<and> (\<exists>t. map_of db n = Some t \<and> \<not> hasColumn ''mode_bits'' t)
     then map_option (withColumn modeColumn) (map_of db n) else map_of db n)"
  by (auto simp: columned_def map_of_alter split: option.splits)

lemma modeColumn_name [simp]: "cl_name modeColumn = ''mode_bits''"
  by (simp add: modeColumn_def notNullDefault_def)

lemma columned_idem [simp]: "columned (columned db) = columned db"
  by (auto simp: columned_def [of "columned db"] columned_map_of split: option.split)

abbreviation snap_cols :: "sql_column list" where
  "snap_cols \<equiv> [notNull ''server_id'' TEXT, notNull ''username'' TEXT, notNull ''file_path'' TEXT, notNull ''mtime_ns'' INTEGER,
     notNull ''size_bytes'' INTEGER, modeColumn, nullable ''sha256'' BLOB, notNull ''synced_at'' INTEGER]"

abbreviation snap_pk :: "string list" where
  "snap_pk \<equiv> [''server_id'', ''username'', ''file_path'']"

lemma MigrateSnapshots_cases:
  defines "db1 \<equiv> \<lambda>db. ensured ''file_snapshots'' snap_cols snap_pk db"
  shows "\<exists>e. MigrateSnapshots fl db \<in> {(db, Inl e), (db1 db, Inl e), (columned (db1 db), Inr ())}"
    and "MigrateSnapshots no_schema_faults db = (columned (db1 db), Inr ())"
  by (auto simp: MigrateSnapshots_def createTable_cases tableHasColumn_def addColumn_def db1_def no_schema_faults_def
      bindS_def mapErrS_def returnS_def columned_def ensured_map_of split: option.splits)

definition snapped :: "database \<Rightarrow> database" where
  "snapped db = columned (ensured ''file_snapshots'' snap_cols snap_pk db)"

lemma ensured_id: "map_of db name \<noteq> None \<Longrightarrow> ensured name cols key db = db"
  by (simp add: ensured_def)

lemma columned_id: "map_of db ''file_snapshots'' = Some t \<Longrightarrow> hasColumn ''mode_bits'' t \<Longrightarrow> columned db = db"
  by (simp add: columned_def)

lemma snapped_has: "\<exists>t. map_of (snapped db) ''file_snapshots'' = Some t \<and> hasColumn ''mode_bits'' t"
proof -
  have "map_of (ensured ''file_snapshots'' snap_cols snap_pk db) ''file_snapshots'' \<noteq> None"
    by (simp add: ensured_map_of)
  then show ?thesis unfolding snapped_def columned_map_of by auto
qed

lemma snapped_id: "map_of db ''file_snapshots'' = Some t \<Longrightarrow> hasColumn ''mode_bits'' t \<Longrightarrow> snapped db = db"
  by (simp add: snapped_def ensured_id columned_id)

text \<open>Once a table is there, creating others leaves it; so a repeated start finds its own work done.\<close>

lemma ensured_snapped: "snapped (ensured n cols key (snapped db)) = ensured n cols key (snapped db)"
  using snapped_has [of db] by (auto intro!: snapped_id simp: ensured_map_of)

lemma ensured_twice: "ensured n cols key (ensured n' cols' key' (ensured n cols key db)) =
    ensured n' cols' key' (ensured n cols key db)"
  by (rule ensured_id) (auto simp: ensured_map_of)

lemma MigrateSnapshots_out:
  obtains e where "MigrateSnapshots fl db = (db, Inl e)"
  | e where "MigrateSnapshots fl db = (ensured ''file_snapshots'' snap_cols snap_pk db, Inl e)"
  | "MigrateSnapshots fl db = (snapped db, Inr ())"
  using MigrateSnapshots_cases(1) [of fl db] by (auto simp: snapped_def)

lemma created_out:
  obtains e where "mapErrS g (createTable fl n cols key) db = (db, Inl e)"
  | "mapErrS g (createTable fl n cols key) db = (ensured n cols key db, Inr ())"
  by (cases "fl (CreateTable n)") (auto simp: createTable_cases mapErrS_def)

lemma created_ok: "mapErrS g (createTable no_schema_faults n cols key) db = (ensured n cols key db, Inr ())"
  by (simp add: createTable_cases mapErrS_def no_schema_faults_def)

lemma MigrateSnapshots_ok: "MigrateSnapshots no_schema_faults db = (snapped db, Inr ())"
  using MigrateSnapshots_cases(2) by (simp add: snapped_def)

lemma snapped_snapped: "snapped (snapped db) = snapped db"
  using snapped_has [of db] by (auto intro: snapped_id)

lemma snapped_ensured: "snapped (ensured ''file_snapshots'' snap_cols snap_pk db) = snapped db"
  by (simp add: snapped_def)

lemma ensured_snapped2: "snapped (ensured m c k (ensured n cols key (snapped db))) = ensured m c k (ensured n cols key (snapped db))"
  using snapped_has [of db] by (auto intro!: snapped_id simp: ensured_map_of)

lemmas resumed = snapped_snapped snapped_ensured ensured_snapped ensured_snapped2 ensured_twice

lemma created_out': "\<exists>e. mapErrS g (createTable fl n cols key) db \<in> {(db, Inl e), (ensured n cols key db, Inr ())}"
  by (rule created_out) blast+

lemma migrateAgent_resumes:
  "migrateAgent no_schema_faults (fst (migrateAgent fl db)) = migrateAgent no_schema_faults db"
proof -
  obtain g tc tk where T: "\<And>fl. MigrateTasks fl = mapErrS g (createTable fl ''task_history'' tc tk)"
    using MigrateTasks_def by blast
  obtain h wc wk where W: "\<And>fl. MigrateWebDelegations fl = mapErrS h (createTable fl ''web_delegations'' wc wk)"
    using MigrateWebDelegations_def by blast
  have run: "migrateAgent f d = (case MigrateSnapshots f d of
      (s, Inl e) \<Rightarrow> (s, Inl (Wrap ''migrate snapshots: %v'' e))
    | (s, Inr _) \<Rightarrow> (case MigrateTasks f s of
        (t, Inl e) \<Rightarrow> (t, Inl (Wrap ''migrate tasks: %v'' e))
      | (t, Inr _) \<Rightarrow> mapErrS (Wrap ''migrate web delegations: %v'') (MigrateWebDelegations f) t))" for f d
    by (auto simp: migrateAgent_def bindS_def mapErrS_def split: prod.splits sum.splits)
  define t where "t = ensured ''task_history'' tc tk"
  define w where "w = ensured ''web_delegations'' wc wk"
  have ok: "migrateAgent no_schema_faults d = (w (t (snapped d)), Inr ())" for d
    by (simp add: run MigrateSnapshots_ok T W created_ok t_def w_def) (simp add: mapErrS_def created_ok [unfolded mapErrS_def])
  show ?thesis
  proof (rule MigrateSnapshots_out [of fl db])
    assume S: "MigrateSnapshots fl db = (snapped db, Inr ())"
    from created_out' [of g fl "''task_history''" tc tk "snapped db"]
      created_out' [of h fl "''web_delegations''" wc wk "t (snapped db)"]
    have "fst (migrateAgent fl db) \<in> {snapped db, t (snapped db), w (t (snapped db))}"
      by (auto simp: run S T W t_def w_def mapErrS_def split: prod.splits)
    then show ?thesis by (auto simp: ok t_def w_def resumed)
  qed (simp_all add: ok, simp_all add: run ok resumed)
qed

lemma migrateServer_resumes:
  "migrateServer no_schema_faults (fst (migrateServer fl db)) = migrateServer no_schema_faults db"
proof -
  obtain g nc nk where N: "\<And>fl. MigrateNonces fl = mapErrS g (createTable fl ''nonces'' nc nk)"
    using MigrateNonces_def by blast
  obtain h gc gk where G: "\<And>fl. MigrateTaskGrants fl = mapErrS h (createTable fl ''task_grants'' gc gk)"
    using MigrateTaskGrants_def by blast
  show ?thesis
    by (auto simp: migrateServer_def N G bindS_def mapErrS_def createTable_cases no_schema_faults_def ensured_twice)
qed

section \<open>The upgrade of an older agent\<close>

text \<open>The table of an agent that did not record permission bits, and its rows.\<close>

definition legacy_row :: "file_snapshot \<Rightarrow> sql_value list" where
  "legacy_row s = [SqlText (fs_ServerID s), SqlText (fs_Username s), SqlText (fs_FilePath s), SqlInt (fs_Mtime s),
     SqlInt (fs_Size s), SqlBlob (fs_SHA256 s), SqlInt (fs_SyncedAt s)]"

definition legacy_table :: "snapshots \<Rightarrow> sql_table" where
  "legacy_table snaps =
     \<lparr>tb_columns = [notNull ''server_id'' TEXT, notNull ''username'' TEXT, notNull ''file_path'' TEXT,
        notNull ''mtime_ns'' INTEGER, notNull ''size_bytes'' INTEGER, nullable ''sha256'' BLOB, notNull ''synced_at'' INTEGER],
      tb_key = snap_pk, tb_rows = map legacy_row snaps\<rparr>"

definition modeless :: "snapshots \<Rightarrow> snapshots" where
  "modeless = map (\<lambda>s. s\<lparr>fs_Mode := 0\<rparr>)"

lemmas column_defs = notNull_def nullable_def notNullDefault_def modeColumn_def

lemma legacy_no_mode: "\<not> hasColumn ''mode_bits'' (legacy_table snaps)"
  by (simp add: hasColumn_def legacy_table_def column_defs)

lemma legacy_cannot_be_read:
  "map_of db ''file_snapshots'' = Some (legacy_table snaps) \<Longrightarrow> selectSnapshots db = Inl (Errorf ''no such column'')"
  using legacy_no_mode [of snaps] by (simp add: selectSnapshots_def snapshot_columns_def)

lemma mapE_map: "(\<And>x. f (g x) = Inr (h x)) \<Longrightarrow> mapE f (map g xs) = Inr (map h xs)"
  by (induction xs) auto

lemma parse_uint_zero: "parse_uint 32 (format_int 0) = Inr 0"
  by (simp add: format_int_def parse_uint_format)

lemma upgraded_row: "scanSnapshot (withColumn modeColumn (legacy_table snaps)) (legacy_row s @ [SqlInt 0]) = Inr (s\<lparr>fs_Mode := 0\<rparr>)"
  by (simp add: scanSnapshot_def cell_def withColumn_def legacy_table_def legacy_row_def column_defs scanString_def
      scanUint32_def parse_uint_zero)

lemma upgraded_table:
  assumes "map_of db ''file_snapshots'' = Some (withColumn modeColumn (legacy_table snaps))"
  shows "selectSnapshots db = Inr (modeless snaps)"
proof -
  have "list_all (\<lambda>c. hasColumn c (withColumn modeColumn (legacy_table snaps))) snapshot_columns"
    by (simp add: snapshot_columns_def hasColumn_def withColumn_def legacy_table_def column_defs)
  moreover have "tb_rows (withColumn modeColumn (legacy_table snaps)) = map (\<lambda>s. legacy_row s @ [SqlInt 0]) snaps"
    by (simp add: withColumn_def legacy_table_def column_defs)
  moreover have "mapE (scanSnapshot (withColumn modeColumn (legacy_table snaps)))
      (map (\<lambda>s. legacy_row s @ [SqlInt 0]) snaps) = Inr (modeless snaps)"
    unfolding modeless_def by (rule mapE_map) (rule upgraded_row)
  ultimately show ?thesis
    using assms by (simp add: selectSnapshots_def)
qed

lemma snapped_upgrades:
  assumes "map_of db ''file_snapshots'' = Some (legacy_table snaps)"
  shows "map_of (snapped db) ''file_snapshots'' = Some (withColumn modeColumn (legacy_table snaps))"
  using assms legacy_no_mode by (simp add: snapped_def ensured_id columned_map_of)

lemma migrateAgent_upgrades:
  assumes "map_of db ''file_snapshots'' = Some (legacy_table snaps)"
  obtains db' where "migrateAgent no_schema_faults db = (db', Inr ())" "selectSnapshots db' = Inr (modeless snaps)"
proof -
  have "\<exists>db'. migrateAgent no_schema_faults db = (db', Inr ()) \<and>
      map_of db' ''file_snapshots'' = map_of (snapped db) ''file_snapshots''"
    by (simp add: migrateAgent_def bindS_def mapErrS_def [of "Wrap ''migrate snapshots: %v''"]
        mapErrS_def [of "Wrap ''migrate tasks: %v''"] mapErrS_def [of "Wrap ''migrate web delegations: %v''"]
        MigrateSnapshots_ok MigrateTasks_def MigrateWebDelegations_def created_ok ensured_map_of)
  then show ?thesis using that upgraded_table [OF trans [OF _ snapped_upgrades [OF assms]]] by blast
qed

lemma modeless_diff:
  assumes "distinct (map fi_Path scanned)" "snaps_wf snaps" "\<not> fl QuerySnapshots" "f \<in> set scanned" "fi_Mode f \<noteq> 0"
  shows "\<exists>a \<in> {DiffAdd, DiffModify}. \<lparr>fd_File = f, fd_Action = a\<rparr> \<in> set (fst (computeDiff fl scanned (modeless snaps) sid u root))"
proof -
  have "map snap_key (modeless snaps) = map snap_key snaps" by (simp add: modeless_def snap_key_def)
  then have wf: "snaps_wf (modeless snaps)" using assms(2) by (simp add: snaps_wf_def)
  have mode: "fs_Mode s = 0" if "snap_of (modeless snaps) sid u p = Some s" for p s
    using row_find_key [OF that [unfolded snap_of_def]] by (auto simp: modeless_def)
  show ?thesis
    unfolding computeDiff_correct(2) [where fl = fl, OF assms(1) wf assms(3)]
    using assms(4,5) mode [of "fi_Path f"] by (auto simp: is_diff_def same_content_def)
qed

text \<open>
  C39: An agent with a database from before permission bits were recorded can always upgrade: however an
  earlier start was interrupted, the next one migrates the database, no table, row or value is lost, every
  recorded snapshot is read back with mode 0, and so every scanned file with permission bits is sent again.
\<close>

theorem agent_upgrade:
  assumes "map_of db ''file_snapshots'' = Some (legacy_table snaps)" "snaps_wf snaps"
    and "distinct (map fi_Path scanned)" "\<not> fl QuerySnapshots"
  shows "\<exists>db'. migrateAgent no_schema_faults (fst (migrateAgent sf db)) = (db', Inr ()) \<and> additive db db' \<and>
    selectSnapshots db' = Inr (modeless snaps) \<and>
    (\<forall>f \<in> set scanned. fi_Mode f \<noteq> 0 \<longrightarrow>
       (\<exists>a \<in> {DiffAdd, DiffModify}.
          \<lparr>fd_File = f, fd_Action = a\<rparr> \<in> set (fst (computeDiff fl scanned (modeless snaps) sid u root))))"
proof -
  obtain db' where m: "migrateAgent no_schema_faults db = (db', Inr ())" "selectSnapshots db' = Inr (modeless snaps)"
    by (rule migrateAgent_upgrades [OF assms(1)])
  have "additive db db'" using keepsD [OF migrate_additive(1) m(1)] by simp
  then show ?thesis using m modeless_diff [where fl = fl, OF assms(3,2,4)] by (auto simp: migrateAgent_resumes)
qed

definition demo_legacy :: file_snapshot where
  "demo_legacy = \<lparr>fs_ServerID = ''s1'', fs_Username = ''alice'', fs_FilePath = fi_Path demo_file, fs_Mtime = fi_Mtime demo_file,
     fs_Size = fi_Size demo_file, fs_Mode = 0, fs_SHA256 = fi_SHA256 demo_file, fs_SyncedAt = 7\<rparr>"

lemma agent_upgrade_witness:
  "\<exists>db'. migrateAgent no_schema_faults
       (fst (migrateAgent (\<lambda>op. op = AddColumn ''file_snapshots'') [(''file_snapshots'', legacy_table [demo_legacy])])) = (db', Inr ()) \<and>
     selectSnapshots db' = Inr [demo_legacy] \<and>
     (\<exists>a \<in> {DiffAdd, DiffModify}. \<lparr>fd_File = demo_file, fd_Action = a\<rparr> \<in>
        set (fst (computeDiff no_faults [demo_file] [demo_legacy] ''s1'' ''alice'' '''')))"
  using agent_upgrade [of "[(''file_snapshots'', legacy_table [demo_legacy])]" "[demo_legacy]" "[demo_file]" no_faults
      "\<lambda>op. op = AddColumn ''file_snapshots''" "''s1''" "''alice''" "''''"]
  by (auto simp: snaps_wf_def no_faults_def modeless_def demo_legacy_def demo_file_def)

end
