(* ===== verification/Vault_AgentMain.thy ===== *)
theory Vault_AgentMain
  imports Vault_AgentSvc Vault_Database
begin

text \<open>
  \<open>cmd/datavault-agent\<close>, \<open>internal/agent/scheduler\<close> and \<open>pkg/hooks\<close>: how the daemon starts, the
  functions it gives to the service, the scheduled machine syncs, the reload on SIGHUP and the
  hook scripts; then the daemon as a transition system and what its requests can change.
\<close>

section \<open>Hooks\<close>

text \<open>
  The processes that are started, each with its environment, and the error of the call. \<open>exec\<close> is
  \<open>CombinedOutput\<close> of the command.
\<close>

definition hook_run ::
  "(string \<Rightarrow> string list \<Rightarrow> unit result) \<Rightarrow> string list \<Rightarrow> string \<Rightarrow> string list \<Rightarrow>
   (string \<times> string list) list \<times> error option" where
  "hook_run exec environ script variables =
     (if script = '''' then ([], None)
      else if \<not> is_abs script then ([], Some (Errorf ''failure hook must be an absolute path: %q''))
      else ([(script, environ @ variables)],
            case exec script (environ @ variables) of
              Inl e \<Rightarrow> Some (Wrap ''run failure hook: %w: %s'' e)
            | Inr _ \<Rightarrow> None))"

text \<open>\<open>elapsed\<close> is the text of the event's duration.\<close>

definition RunTaskFailed where
  "RunTaskFailed exec environ script event elapsed = hook_run exec environ script
     [''DATAVAULT_EVENT=task_failed'',
      ''DATAVAULT_TASK_ID='' @ tf_TaskID event,
      ''DATAVAULT_USER='' @ tf_Username event,
      ''DATAVAULT_SERVER='' @ tf_Server event,
      ''DATAVAULT_ERROR='' @ tf_Reason event,
      ''DATAVAULT_ELAPSED='' @ elapsed]"

definition RunQuotaWarning where
  "RunQuotaWarning exec environ script event = hook_run exec environ script
     [''DATAVAULT_EVENT=quota_warning'',
      ''DATAVAULT_USER='' @ qw_Username event,
      ''DATAVAULT_SERVER='' @ qw_Server event,
      ''DATAVAULT_USED_BYTES='' @ format_int (qw_Used event),
      ''DATAVAULT_QUOTA_BYTES='' @ format_int (qw_Quota event)]"

section \<open>The functions given to the service\<close>

text \<open>A call at a server of the configuration.\<close>

definition atServer :: "string \<Rightarrow> ('w remote_server \<Rightarrow> ('w, 'a) step) \<Rightarrow> 'w svc_env \<Rightarrow> ('w, 'a) svc" where
  "atServer server call = onAgent (\<lambda>aenv.
     bindS (liftS (ResolveServer aenv server)) (\<lambda>entry.
     bindS (clientFor aenv entry) (\<lambda>client.
     callRemote (call client))))"

definition main_TriggerSync :: "'w svc_env \<Rightarrow> string \<Rightarrow> string \<Rightarrow> string \<Rightarrow> nat \<Rightarrow> string list \<Rightarrow> ('w, string) svc" where
  "main_TriggerSync env username ruleName sshAuthSock uid groups d =
     (case RunSyncWithSigner (agentEnv env d) username ruleName (Some (SignWithSSHAgentForUser env sshAuthSock uid))
             uid groups (dm_agent d) of
        (s, i, Inl e) \<Rightarrow> (d\<lparr>dm_agent := s\<rparr>, Inl e)
      | (s, i, Inr j) \<Rightarrow> (d\<lparr>dm_agent := s, dm_started := dm_started d @ [StartedSync j]\<rparr>, Inr i))"

definition main_GetStatus :: "'w svc_env \<Rightarrow> string \<Rightarrow> string \<Rightarrow> 'w daemon \<Rightarrow> sync_update result" where
  "main_GetStatus env username taskID d =
     (case GetTrackerForUser (agentEnv env d) username taskID (dm_agent d) of
        Inl e \<Rightarrow> Inl e
      | Inr tracker \<Rightarrow>
          (case Snapshot tracker of (phase, stats, files) \<Rightarrow>
             let failureReason = (case GetTask (av_db (ve_agent env)) taskID (ag_tasks (dm_agent d)) of
                                    Inr (Some task) \<Rightarrow> Error task | _ \<Rightarrow> '''')
             in Inr \<lparr>su_TaskId = taskID, su_Phase = phase_name phase, su_CurrentFiles = files, su_Stats = stats,
                     su_Error = failureReason\<rparr>))"

definition main_RequestRestore ::
  "'w svc_env \<Rightarrow> string \<Rightarrow> nat \<Rightarrow> string list \<Rightarrow> string \<Rightarrow> string \<Rightarrow> bytes \<Rightarrow> bytes \<Rightarrow> ('w, string) svc" where
  "main_RequestRestore env username uid groups reqPath server nonce signature d =
     (case RunRestore (agentEnv env d) (ve_fs env) (ve_passwd env) username uid groups reqPath server nonce signature
             (dm_agent d, dm_tree d) of
        (s, i, Inl e) \<Rightarrow> (d\<lparr>dm_agent := s\<rparr>, Inl e)
      | (s, i, Inr j) \<Rightarrow> (d\<lparr>dm_agent := s, dm_started := dm_started d @ [StartedRestore j]\<rparr>, Inr i))"

text \<open>The warning hook runs in a goroutine of its own: what is recorded is that it was started.\<close>

definition warnQuota :: "string \<Rightarrow> quota_answer \<Rightarrow> ('w, unit) svc" where
  "warnQuota username result d =
     (if ac_OnQuotaWarning (dm_cfg d) \<noteq> '''' \<and> ac_QuotaWarningPercent (dm_cfg d) > 0 \<and>
         quotaWarningReached (qa_UsedBytes result) (qa_QuotaBytes result) (ac_QuotaWarningPercent (dm_cfg d))
      then (d\<lparr>dm_warned := dm_warned d @ [\<lparr>qw_Username = username, qw_Server = qa_Server result,
                  qw_Used = qa_UsedBytes result, qw_Quota = qa_QuotaBytes result\<rparr>]\<rparr>, Inr ())
      else (d, Inr ()))"

definition main_GetQuotaUsage ::
  "'w svc_env \<Rightarrow> string \<Rightarrow> string \<Rightarrow> nat \<Rightarrow> string list \<Rightarrow> bytes \<Rightarrow> bytes \<Rightarrow> ('w, quota_answer) svc" where
  "main_GetQuotaUsage env username server uid groups nonce signature =
     bindS (onAgent (\<lambda>aenv. agent_GetQuotaUsage aenv username server uid groups nonce signature) env) (\<lambda>usage.
     let result = \<lparr>qa_UsedBytes = qu_UsedBytes usage, qa_QuotaBytes = sint (qu_QuotaBytes usage),
                   qa_Dataset = qu_Dataset usage, qa_Server = server\<rparr> in
     bindS (warnQuota username result) (\<lambda>_. returnS result))"

definition main_GetAuthChallenge :: "'w svc_env \<Rightarrow> ('w, auth_challenge) svc" where
  "main_GetAuthChallenge env =
     bindS (onAgent Vault_Tasks.GetAuthChallenge env) (\<lambda>(server, challenge).
     returnS \<lparr>ah_Nonce = ch_Nonce challenge, ah_ExpiresAt = ch_ExpiresAt challenge, ah_Server = server, ah_Username = ''''\<rparr>)"

definition main_service :: "'w svc_env \<Rightarrow> 'w AgentService" where
  "main_service env = \<lparr>
     as_TriggerSync = Some (main_TriggerSync env),
     as_GetStatus = Some (main_GetStatus env),
     as_RequestRestore = Some (main_RequestRestore env),
     as_GetQuotaUsage = Some (main_GetQuotaUsage env),
     as_GetAuthChallenge = Some (main_GetAuthChallenge env),
     as_RegisterDelegationKey = Some (\<lambda>server uid groups req.
       atServer server (\<lambda>client. rm_RegisterDelegationKey client (CallerMeta uid groups) req) env),
     as_RemoveDelegationKey = Some (\<lambda>server uid groups req.
       atServer server (\<lambda>client. rm_RemoveDelegationKey client (CallerMeta uid groups) req) env)\<rparr>"

section \<open>Scheduled machine syncs\<close>

text \<open>
  The scheduler: the entries of the cron library with their schedule and rule, and the map from
  job names to entries. \<open>valid\<close> tells whether the library parses a schedule.
\<close>

record scheduler =
  sd_entries :: "(nat \<times> string \<times> string) list"
  sd_jobs :: "(string \<times> nat) list"
  sd_next :: nat

definition NewScheduler :: scheduler where
  "NewScheduler = \<lparr>sd_entries = [], sd_jobs = [], sd_next = 1\<rparr>"

definition AddJob :: "(string \<Rightarrow> bool) \<Rightarrow> string \<Rightarrow> string \<Rightarrow> string \<Rightarrow> scheduler \<Rightarrow> scheduler result" where
  "AddJob valid name schedule rule s =
     (if \<not> valid schedule then Inl (Errorf ''cron'')
      else Inr (s\<lparr>sd_entries := sd_entries s @ [(sd_next s, schedule, rule)],
                  sd_jobs := AList.update name (sd_next s) (sd_jobs s), sd_next := sd_next s + 1\<rparr>))"

definition RemoveJob :: "string \<Rightarrow> scheduler \<Rightarrow> scheduler" where
  "RemoveJob name s =
     (case map_of (sd_jobs s) name of
        None \<Rightarrow> s
      | Some i \<Rightarrow> s\<lparr>sd_entries := filter (\<lambda>e. fst e \<noteq> i) (sd_entries s), sd_jobs := AList.delete name (sd_jobs s)\<rparr>)"

definition scheduleRule :: "(string \<Rightarrow> bool) \<Rightarrow> machine_rule \<Rightarrow> scheduler \<Rightarrow> scheduler" where
  "scheduleRule valid r s =
     (if \<not> mr_Enabled r then s
      else case AddJob valid (''machine-'' @ mr_Name r) (mr_Schedule r) (mr_Name r) s of Inl e \<Rightarrow> s | Inr s' \<Rightarrow> s')"

definition scheduleRules :: "(string \<Rightarrow> bool) \<Rightarrow> agent_config \<Rightarrow> scheduler" where
  "scheduleRules valid cfg = fold (scheduleRule valid) (ac_MachineRules cfg) NewScheduler"

text \<open>What a scheduled entry does at \<open>hour:minute\<close>.\<close>

definition machineSync :: "'w svc_env \<Rightarrow> string \<Rightarrow> 'w daemon \<Rightarrow> 'w daemon" where
  "machineSync env ruleName d =
     (case RunSync (agentEnv env d) ''_machine'' ruleName (dm_agent d) of
        (s, i, Inl e) \<Rightarrow> d\<lparr>dm_agent := s\<rparr>
      | (s, i, Inr j) \<Rightarrow> d\<lparr>dm_agent := s, dm_started := dm_started d @ [StartedSync j]\<rparr>)"

definition fireMachineRule :: "'w svc_env \<Rightarrow> nat \<Rightarrow> nat \<Rightarrow> string \<Rightarrow> 'w daemon \<Rightarrow> 'w daemon" where
  "fireMachineRule env hour mnt ruleName d =
     (case ac_ScheduleWindow (dm_cfg d) of
        None \<Rightarrow> machineSync env ruleName d
      | Some (start, end') \<Rightarrow>
          (case WithinWindow hour mnt start end' of
             Inl e \<Rightarrow> d
           | Inr in_window \<Rightarrow> if in_window then machineSync env ruleName d else d))"

section \<open>Start and reload\<close>

definition readConfig :: "'w svc_env \<Rightarrow> (string \<Rightarrow> bytes option) \<Rightarrow> string result" where
  "readConfig env fs = (case fs (ve_ConfigPath env) of None \<Rightarrow> Inl (Errorf ''open'') | Some c \<Rightarrow> Inr c)"

definition freshAgent :: "'w agent_state \<Rightarrow> tasks \<Rightarrow> 'w agent_state" where
  "freshAgent s tasks = s\<lparr>ag_clients := [], ag_trackers := [], ag_notified := [], ag_hook := True, ag_tasks := tasks\<rparr>"

text \<open>
  The start of the program up to the socket: \<open>d\<close> is what the last run left on disk, \<open>newPool\<close> the
  result of loading the certificates. Every error ends the program; the database is migrated by then
  or partly migrated.
\<close>

record db_env =
  de_mkdirAll :: "string \<Rightarrow> error option"
  de_sqlOpen :: "string \<Rightarrow> error option"
  de_schema :: schema_faults
  de_path :: string

definition startAgent ::
  "'w svc_env \<Rightarrow> (string \<Rightarrow> agent_config result) \<Rightarrow> db_env \<Rightarrow> (agent_config \<Rightarrow> unit result) \<Rightarrow> (string \<Rightarrow> bool) \<Rightarrow>
   'w daemon \<Rightarrow> (database, 'w daemon \<times> scheduler) step" where
  "startAgent env parse de newPool valid d =
     bindS (\<lambda>s. (s, mapErr (Wrap ''load config: %v'') (LoadAgentConfig parse (readConfig env (dm_files d))))) (\<lambda>cfg.
     bindS (\<lambda>s. (s, mapErr (Wrap ''open db: %v'') (OpenDB (de_mkdirAll de) (de_sqlOpen de) (de_path de)))) (\<lambda>_.
     bindS (migrateAgent (de_schema de)) (\<lambda>_.
     bindS (\<lambda>s. (s, mapErr (Wrap ''finalize interrupted tasks: %v'')
       (FailIncompleteTasks (av_db (ve_agent env)) (av_sec (ve_agent env)) ''agent restarted before task completed''
          (ag_tasks (dm_agent d))))) (\<lambda>tasks.
     bindS (\<lambda>s. (s, mapErr (Wrap ''init connection pool: %v'') (newPool cfg))) (\<lambda>_.
     returnS (d\<lparr>dm_agent := freshAgent (dm_agent d) tasks, dm_cfg := cfg, dm_started := [], dm_warned := []\<rparr>,
          scheduleRules valid cfg))))))"

definition reloadConfig :: "'w svc_env \<Rightarrow> (string \<Rightarrow> agent_config result) \<Rightarrow> 'w daemon \<Rightarrow> 'w daemon" where
  "reloadConfig env parse d =
     (case LoadAgentConfig parse (readConfig env (dm_files d)) of Inl e \<Rightarrow> d | Inr newCfg \<Rightarrow> d\<lparr>dm_cfg := newCfg\<rparr>)"

section \<open>The service as a whole\<close>

datatype svc_request =
    ReqAddUserRule rule_request | ReqRemoveUserRule string | ReqListUserRules
  | ReqEnableUserRule string | ReqDisableUserRule string
  | ReqAddMachineRule rule_request | ReqRemoveMachineRule string | ReqListMachineRules
  | ReqTriggerSync string string | ReqRestore restore_request
  | ReqQuotaUsage string bytes bytes | ReqAuthChallenge string
  | ReqEnroll enroll_request | ReqRevoke string string bytes bytes | ReqListDelegations

definition dropS :: "('s, 'a) step \<Rightarrow> ('s, unit) step" where
  "dropS m = bindS m (\<lambda>_. returnS ())"

fun serve :: "'w svc_env \<Rightarrow> peer_ctx \<Rightarrow> svc_request \<Rightarrow> ('w, unit) svc" where
  "serve env ctx (ReqAddUserRule req) = AddUserRule env ctx req"
| "serve env ctx (ReqRemoveUserRule name) = RemoveUserRule env ctx name"
| "serve env ctx ReqListUserRules = dropS (ListUserRules env ctx)"
| "serve env ctx (ReqEnableUserRule name) = EnableUserRule env ctx name"
| "serve env ctx (ReqDisableUserRule name) = DisableUserRule env ctx name"
| "serve env ctx (ReqAddMachineRule req) = AddMachineRule env ctx req"
| "serve env ctx (ReqRemoveMachineRule name) = RemoveMachineRule env ctx name"
| "serve env ctx ReqListMachineRules = dropS (ListMachineRules env ctx)"
| "serve env ctx (ReqTriggerSync ruleName sock) = dropS (TriggerSync env (main_service env) ctx ruleName sock)"
| "serve env ctx (ReqRestore req) = dropS (RequestRestore env (main_service env) ctx req)"
| "serve env ctx (ReqQuotaUsage server nonce sig) = dropS (svc_GetQuotaUsage env (main_service env) ctx server nonce sig)"
| "serve env ctx (ReqAuthChallenge method) = dropS (svc_GetAuthChallenge env (main_service env) ctx method)"
| "serve env ctx (ReqEnroll req) = dropS (EnrollWebDelegation env (main_service env) ctx req)"
| "serve env ctx (ReqRevoke gatewayCn server nonce sig) =
     svc_RevokeWebDelegation env (main_service env) ctx gatewayCn server nonce sig"
| "serve env ctx ReqListDelegations = dropS (svc_ListWebDelegations env ctx)"

section \<open>What every request keeps\<close>

lemma bindS_value [simp]: "bindS (returnS x) f = f x"
  by (simp add: step_defs fun_eq_iff)

lemma bindS_error [simp]: "bindS (failS e) f = failS e"
  by (simp add: step_defs fun_eq_iff)

lemma keeps_caller:
  "(\<And>u. extractUsername env ctx = Inr u \<Longrightarrow> keeps P (f u)) \<Longrightarrow> keeps P (bindS (liftS (extractUsername env ctx)) f)"
  by (cases "extractUsername env ctx") (simp_all add: keeps_fail)

lemma keeps_identity:
  "(\<And>ident. extractUsername env ctx = Inr (ci_Username ident) \<Longrightarrow> keeps P (f ident)) \<Longrightarrow>
     keeps P (bindS (liftS (extractCallerIdentity env ctx)) f)"
  using extractCallerIdentity_ok [of env ctx]
  by (cases "extractCallerIdentity env ctx") (auto simp: keeps_fail)

lemma keeps_required:
  "(\<And>g. f = Some g \<Longrightarrow> keeps P (h g)) \<Longrightarrow> keeps P (bindS (liftS (required msg f)) h)"
  by (cases f) (simp_all add: keeps_fail required_def)

lemma keeps_try [keeps_intros]: "keeps P m \<Longrightarrow> keeps P (tryS m)"
  by (simp add: keeps_def tryS_def)

lemma keeps_drop [keeps_intros]: "keeps P m \<Longrightarrow> keeps P (dropS m)"
  unfolding dropS_def by (intro keeps_intros)

text \<open>A predicate that does not look at the orchestrator's state.\<close>

definition agent_blind :: "('w daemon \<Rightarrow> bool) \<Rightarrow> bool" where
  "agent_blind P \<longleftrightarrow> (\<forall>s a. P (s\<lparr>dm_agent := a\<rparr>) = P s) \<and> (\<forall>s b. P (s\<lparr>dm_started := b\<rparr>) = P s) \<and>
     (\<forall>s c. P (s\<lparr>dm_warned := c\<rparr>) = P s)"

lemma agent_blindD [simp]:
  assumes "agent_blind P"
  shows "P (s\<lparr>dm_agent := a\<rparr>) = P s" "P (s\<lparr>dm_agent := a, dm_started := b\<rparr>) = P s" "P (s\<lparr>dm_warned := c\<rparr>) = P s"
  using assms unfolding agent_blind_def by metis+

lemma keeps_onAgent: "agent_blind P \<Longrightarrow> keeps P (onAgent f env)"
  by (rule keepsI) (auto simp: onAgent_def split: prod.split)

lemma keeps_atServer: "agent_blind P \<Longrightarrow> keeps P (atServer server call env)"
  unfolding atServer_def by (rule keeps_onAgent)

lemma keeps_main:
  assumes "agent_blind P"
  shows "keeps P (main_TriggerSync env a b c e f)" "keeps P (main_RequestRestore env a e f b c n s)"
    "keeps P (warnQuota a q)"
  by (rule keepsI, auto simp: assms main_TriggerSync_def main_RequestRestore_def warnQuota_def
      split: prod.split sum.split)+

lemma keeps_main_calls:
  assumes "agent_blind P"
  shows "keeps P (main_GetQuotaUsage env a b c e n s)" "keeps P (main_GetAuthChallenge env)"
  unfolding main_GetQuotaUsage_def main_GetAuthChallenge_def Let_def
  by (auto intro!: keeps_intros keeps_onAgent keeps_main assms split: prod.split)

text \<open>The changes of rules the service makes for a user with this home.\<close>

definition user_change :: "string result \<Rightarrow> (rule list \<Rightarrow> rule list result) \<Rightarrow> bool" where
  "user_change homeOf change \<longleftrightarrow>
     (\<exists>r home. change = add_rule r \<and> Rule_Validate r = None \<and> homeOf = Inr home \<and> ValidateUserPaths (Paths r) home = None) \<or>
     (\<exists>n. change = remove_rule n) \<or> (\<exists>n e. change = enable_rule n e)"

lemma keeps_user_rules:
  assumes "\<And>u change. extractUsername env ctx = Inr u \<Longrightarrow> user_change (av_lookup (ve_agent env) u) change \<Longrightarrow>
      keeps P (onRules env (update_rules (ve_enc env) (ve_dec env) (ve_rulefl env) (ve_rulepart env) (ve_rulesDir env) u change))"
  shows "keeps P (AddUserRule env ctx req)" "keeps P (RemoveUserRule env ctx name)" "keeps P (setUserRule env ctx name e)"
proof -
  show "keeps P (RemoveUserRule env ctx name)" "keeps P (setUserRule env ctx name e)"
    unfolding RemoveUserRule_def setUserRule_def Remove_def SetEnabled_def
    by (rule keeps_caller, intro keeps_intros assms; auto simp: user_change_def)+
  show "keeps P (AddUserRule env ctx req)"
    unfolding AddUserRule_def Let_def Add_def
  proof (rule keeps_caller)
    fix u assume u: "extractUsername env ctx = Inr u"
    show "keeps P (bindS (checkS (map_option (answer InvalidArgument ''%s'') (Rule_Validate (requestedRule req)))) (\<lambda>_.
      bindS (liftS (mapErr (answer Unauthenticated ''lookup user home: %v'') (av_lookup (ve_agent env) u))) (\<lambda>home.
      bindS (checkS (map_option (answer InvalidArgument ''%s'') (ValidateUserPaths (Paths (requestedRule req)) home))) (\<lambda>_.
      mapErrS (answer AlreadyExists ''add rule: %v'') (onRules env (update_rules (ve_enc env) (ve_dec env) (ve_rulefl env)
        (ve_rulepart env) (ve_rulesDir env) u (add_rule (requestedRule req))))))))"
    proof (cases "Rule_Validate (requestedRule req)"; cases "av_lookup (ve_agent env) u")
      fix home assume a: "Rule_Validate (requestedRule req) = None" "av_lookup (ve_agent env) u = Inr home"
      show ?thesis
      proof (cases "ValidateUserPaths (Paths (requestedRule req)) home")
        case None
        with a have "user_change (av_lookup (ve_agent env) u) (add_rule (requestedRule req))" by (auto simp: user_change_def)
        from assms [OF u this] show ?thesis by (intro keeps_intros)
      qed (simp add: a keeps_fail)
    qed (simp_all add: keeps_fail)
  qed
qed

lemma keeps_require_root:
  assumes "extractUsername env ctx = Inr ''root'' \<Longrightarrow> keeps P m"
  shows "keeps P (bindS (requireRoot env ctx msg) (\<lambda>_. m))"
proof (rule keepsI)
  fix s assume "P s"
  then show "P (fst (bindS (requireRoot env ctx msg) (\<lambda>_. m) s))"
    using assms by (cases "extractUsername env ctx") (auto simp: requireRoot_def failIf_def failS_def keeps_def)
qed

lemma keeps_machine_rules:
  assumes "\<And>rs. extractUsername env ctx = Inr ''root'' \<Longrightarrow> keeps P (putMachineRules env rs)"
  shows "keeps P (AddMachineRule env ctx req)" "keeps P (RemoveMachineRule env ctx name)" "keeps P (ListMachineRules env ctx)"
proof -
  have put: "extractUsername env ctx = Inr ''root'' \<Longrightarrow> P s \<Longrightarrow> P (fst (putMachineRules env rs s))" for rs s
    using assms by (simp add: keeps_def)
  show "keeps P (AddMachineRule env ctx req)"
    unfolding AddMachineRule_def by (rule keeps_require_root, rule keepsI, rule put)
  show "keeps P (RemoveMachineRule env ctx name)"
    unfolding RemoveMachineRule_def Let_def
    by (rule keeps_require_root, rule keepsI, simp only: split: if_split) (metis fst_conv put)
  show "keeps P (ListMachineRules env ctx)"
    unfolding ListMachineRules_def by (rule keeps_require_root, rule keepsI) simp
qed

lemma keeps_calls:
  assumes "agent_blind P"
  shows "keeps P (ListUserRules env ctx)"
    "keeps P (svc_ListWebDelegations env ctx)"
    "keeps P (TriggerSync env (main_service env) ctx ruleName sock)"
    "keeps P (RequestRestore env (main_service env) ctx rreq)"
    "keeps P (svc_GetQuotaUsage env (main_service env) ctx server nonce sig)"
    "keeps P (svc_GetAuthChallenge env (main_service env) ctx method)"
proof -
  note calls = keeps_main [OF assms] keeps_main_calls [OF assms] keeps_required keeps_intros
  show "keeps P (ListUserRules env ctx)" "keeps P (svc_ListWebDelegations env ctx)"
    unfolding ListUserRules_def svc_ListWebDelegations_def by (rule keeps_caller, simp add: keeps_def liftS_def)+
  show "keeps P (TriggerSync env (main_service env) ctx ruleName sock)"
    "keeps P (RequestRestore env (main_service env) ctx rreq)"
    "keeps P (svc_GetQuotaUsage env (main_service env) ctx server nonce sig)"
    "keeps P (svc_GetAuthChallenge env (main_service env) ctx method)"
    unfolding TriggerSync_def RequestRestore_def svc_GetQuotaUsage_def svc_GetAuthChallenge_def
    by (intro calls; auto simp: main_service_def intro!: calls)+
qed

lemma keeps_enroll:
  assumes b: "agent_blind P"
    and up: "\<And>fl w. extractUsername env ctx = Inr (wd_Username w) \<Longrightarrow> keeps P (onDeleg (UpsertWebDelegation fl w))"
  shows "keeps P (EnrollWebDelegation env (main_service env) ctx req)"
  unfolding EnrollWebDelegation_def
proof (rule keeps_identity)
  fix ident :: caller_identity assume i: "extractUsername env ctx = Inr (ci_Username ident)"
  have "keeps P (registerEnrollment env (main_service env) req ident)"
    unfolding registerEnrollment_def Let_def
    by (intro keeps_required keeps_intros) (auto simp: main_service_def i intro!: keeps_atServer b up)
  then have "keeps P (bindS (checkS e) (\<lambda>_. registerEnrollment env (main_service env) req ident))" for e
    by (intro keeps_intros)
  then show "keeps P (\<lambda>s. case ac_HTTPSAPI (dm_cfg s) of
      None \<Rightarrow> (s, Inl (Status FailedPrecondition ''https_api is not configured''))
    | Some api \<Rightarrow> bindS (checkS (checkEnroll env api req)) (\<lambda>_. registerEnrollment env (main_service env) req ident) s)"
    by (auto simp: keeps_def split: option.split)
qed

lemma keeps_revoke:
  assumes b: "agent_blind P"
    and rv: "\<And>fl now u. extractUsername env ctx = Inr u \<Longrightarrow> keeps P (onDeleg (RevokeWebDelegation fl now u cn))"
  shows "keeps P (svc_RevokeWebDelegation env (main_service env) ctx cn server nonce sig)"
  unfolding svc_RevokeWebDelegation_def
proof (rule keeps_identity)
  fix ident :: caller_identity assume "extractUsername env ctx = Inr (ci_Username ident)"
  then have "keeps P (revokeDelegation env (main_service env) cn server nonce sig ident w)" for w
    unfolding revokeDelegation_def
    by (intro keeps_intros rv) (auto simp: main_service_def intro!: keeps_try keeps_atServer b)
  then show "keeps P (\<lambda>s. case GetWebDelegation (av_db (ve_agent env)) (ci_Username ident) cn (dm_deleg s) of
      Inl e \<Rightarrow> (s, Inl (Status Internal ''load delegation: %v''))
    | Inr None \<Rightarrow> (s, Inl (Status NotFound ''no active delegation for gateway''))
    | Inr (Some w) \<Rightarrow>
        if wd_RevokedAt w \<noteq> None then (s, Inl (Status NotFound ''no active delegation for gateway''))
        else revokeDelegation env (main_service env) cn server nonce sig ident w s)"
    by (auto simp: keeps_def split: sum.split option.split)
qed

text \<open>One rule for all requests: the four ways in which the service writes.\<close>

lemma serve_keeps:
  assumes "agent_blind P"
    and "\<And>u change. extractUsername env ctx = Inr u \<Longrightarrow> user_change (av_lookup (ve_agent env) u) change \<Longrightarrow>
      keeps P (onRules env (update_rules (ve_enc env) (ve_dec env) (ve_rulefl env) (ve_rulepart env) (ve_rulesDir env) u change))"
    and "\<And>rs. extractUsername env ctx = Inr ''root'' \<Longrightarrow> keeps P (putMachineRules env rs)"
    and "\<And>fl w. extractUsername env ctx = Inr (wd_Username w) \<Longrightarrow> keeps P (onDeleg (UpsertWebDelegation fl w))"
    and "\<And>fl now u cn. extractUsername env ctx = Inr u \<Longrightarrow> keeps P (onDeleg (RevokeWebDelegation fl now u cn))"
  shows "keeps P (serve env ctx req)"
  by (cases req)
    (auto simp: EnableUserRule_def DisableUserRule_def
      intro!: keeps_drop keeps_user_rules keeps_machine_rules keeps_calls keeps_enroll keeps_revoke assms)

section \<open>A caller reaches only what is his\<close>

text \<open>
  What a request of the caller \<open>who\<close> may have changed between two states: the rule file and the
  delegations of \<open>who\<close>, and the configuration when \<open>who\<close> is root.
\<close>

definition deleg_of :: "string \<Rightarrow> 'w daemon \<Rightarrow> web_delegations" where
  "deleg_of v d = filter (\<lambda>w. wd_Username w = v) (dm_deleg d)"

definition own_only :: "'w svc_env \<Rightarrow> string result \<Rightarrow> 'w daemon \<Rightarrow> 'w daemon \<Rightarrow> bool" where
  "own_only env who d d' \<longleftrightarrow>
     (\<forall>p. (\<forall>v. who = Inr v \<longrightarrow> p \<noteq> rules_path (ve_rulesDir env) v) \<longrightarrow> dm_rules d' p = dm_rules d p) \<and>
     (\<forall>v. who \<noteq> Inr v \<longrightarrow> deleg_of v d' = deleg_of v d) \<and>
     (who \<noteq> Inr ''root'' \<longrightarrow> dm_cfg d' = dm_cfg d \<and> dm_files d' = dm_files d)"

lemma blind_own_only: "agent_blind (own_only env who d)"
  by (simp add: agent_blind_def own_only_def deleg_of_def)

lemma own_onRules:
  assumes "who = Inr u"
  shows "keeps (own_only env who d) (onRules env (update_rules enc dec fl part (ve_rulesDir env) u change))"
proof (rule keepsI)
  fix s assume s: "own_only env who d s"
  obtain fs r where f: "update_rules enc dec fl part (ve_rulesDir env) u change (dm_rules s) = (fs, r)"
    by (rule prod.exhaust)
  then have "p \<noteq> rules_path (ve_rulesDir env) u \<Longrightarrow> fs p = dm_rules s p" for p
    using update_rules_state [of p "ve_rulesDir env" u enc dec fl part change "dm_rules s"] by simp
  then show "own_only env who d (fst (onRules env (update_rules enc dec fl part (ve_rulesDir env) u change) s))"
    using s by (auto simp: onRules_def f own_only_def deleg_of_def assms)
qed

lemma own_putMachineRules:
  assumes "who = Inr ''root''"
  shows "keeps (own_only env who d) (putMachineRules env rs)"
  by (rule keepsI) (auto simp: putMachineRules_def Let_def own_only_def deleg_of_def assms split: prod.split)

lemma own_onDeleg:
  assumes "\<And>t t' v. f t = Inr t' \<Longrightarrow> who \<noteq> Inr v \<Longrightarrow> filter (\<lambda>w. wd_Username w = v) t' = filter (\<lambda>w. wd_Username w = v) t"
  shows "keeps (own_only env who d) (onDeleg f)"
proof (rule keepsI)
  fix s assume "own_only env who d s"
  then show "own_only env who d (fst (onDeleg f s))"
    using assms [of "dm_deleg s"] by (cases "f (dm_deleg s)") (auto simp: onDeleg_def own_only_def deleg_of_def)
qed

lemma filter_map_other:
  "(\<And>x. x \<in> set xs \<Longrightarrow> Q (f x) = Q x) \<Longrightarrow> (\<And>x. x \<in> set xs \<Longrightarrow> Q x \<Longrightarrow> f x = x) \<Longrightarrow> filter Q (map f xs) = filter Q xs"
  by (induction xs) auto

lemma Upsert_others:
  assumes "UpsertWebDelegation fl w t = Inr t'" "v \<noteq> wd_Username w"
  shows "filter (\<lambda>w. wd_Username w = v) t' = filter (\<lambda>w. wd_Username w = v) t"
  using assms by (auto simp: UpsertWebDelegation_def Let_def wd_key_def split: if_splits intro!: filter_map_other)

lemma Revoke_others:
  assumes "RevokeWebDelegation fl now u g t = Inr t'" "v \<noteq> u"
  shows "filter (\<lambda>w. wd_Username w = v) t' = filter (\<lambda>w. wd_Username w = v) t"
  using assms by (auto simp: RevokeWebDelegation_def split: if_splits intro!: filter_map_other)

text \<open>
  C14: Whatever a local caller sends to the agent's socket, no rule file and no web delegation but those of the account the
  peer credentials name changes, and the configuration changes only for root.
\<close>

lemma serve_own: "own_only env (extractUsername env ctx) d (fst (serve env ctx req d))"
proof -
  have "keeps (own_only env (extractUsername env ctx) d) (serve env ctx req)"
    by (rule serve_keeps [OF blind_own_only own_onRules own_putMachineRules own_onDeleg own_onDeleg])
      (assumption | metis Upsert_others Revoke_others)+
  moreover have "own_only env (extractUsername env ctx) d d" by (simp add: own_only_def)
  ultimately show ?thesis by (simp add: keeps_def)
qed

end
