(* ===== verification/Vault_AgentRun.thy ===== *)
theory Vault_AgentRun
  imports Vault_AgentMain
begin

text \<open>
  The daemon over time: requests of any caller on the socket, reloads, scheduled syncs and the progress of the
  tasks in any order. What each step keeps of the user rules, the web delegations and the configuration;
  \<open>Vault_GatewaySafe\<close> adds the gateway's requests and restarts to the steps.
\<close>

section \<open>Steps of the daemon\<close>

text \<open>
  The environment of a step is one of \<open>E\<close>: the clock, the faults and the answers of the system may
  differ from step to step. A running task may do anything to the agent's state and the disk.
\<close>

inductive daemon_step ::
  "'w svc_env set \<Rightarrow> (bytes \<Rightarrow> agent_config result) \<Rightarrow> 'w daemon \<Rightarrow> 'w daemon \<Rightarrow> bool"
  for E :: "'w svc_env set" and parse :: "bytes \<Rightarrow> agent_config result" where
  request: "env \<in> E \<Longrightarrow> daemon_step E parse d (fst (serve env ctx req d))"
| reload: "env \<in> E \<Longrightarrow> daemon_step E parse d (reloadConfig env parse d)"
| fire: "env \<in> E \<Longrightarrow> daemon_step E parse d (fireMachineRule env hour mnt ruleName d)"
| tasks: "daemon_step E parse d (d\<lparr>dm_agent := s, dm_tree := t, dm_started := js\<rparr>)"

inductive_cases daemon_stepE: "daemon_step E parse d d'"

lemma machineSync_fields:
  "dm_rules (machineSync env n d) = dm_rules d" "dm_deleg (machineSync env n d) = dm_deleg d"
  "dm_cfg (machineSync env n d) = dm_cfg d" "dm_files (machineSync env n d) = dm_files d"
  by (auto simp: machineSync_def split: prod.split sum.split)

lemma fireMachineRule_fields [simp]:
  "dm_rules (fireMachineRule env h m n d) = dm_rules d" "dm_deleg (fireMachineRule env h m n d) = dm_deleg d"
  "dm_cfg (fireMachineRule env h m n d) = dm_cfg d" "dm_files (fireMachineRule env h m n d) = dm_files d"
  by (auto simp: fireMachineRule_def machineSync_fields split: option.split sum.split)

lemma reloadConfig_fields [simp]:
  "dm_rules (reloadConfig env parse d) = dm_rules d" "dm_deleg (reloadConfig env parse d) = dm_deleg d"
  "dm_files (reloadConfig env parse d) = dm_files d"
  by (auto simp: reloadConfig_def split: sum.split)

section \<open>User rules stay inside the home directory\<close>

definition safe_rules :: "string \<Rightarrow> rule list \<Rightarrow> bool" where
  "safe_rules home rs \<longleftrightarrow> names_unique rs \<and>
     (\<forall>r \<in> set rs. Rule_Validate r = None \<and> ValidateUserPaths (Paths r) home = None)"

text \<open>What the environments of one host share.\<close>

definition rules_host ::
  "string \<Rightarrow> (rule list \<Rightarrow> bytes) \<Rightarrow> (bytes \<Rightarrow> rule list result) \<Rightarrow> (string \<Rightarrow> string result) \<Rightarrow> 'w svc_env \<Rightarrow> bool" where
  "rules_host dir enc dec homes env \<longleftrightarrow>
     ve_rulesDir env = dir \<and> ve_enc env = enc \<and> ve_dec env = dec \<and> av_lookup (ve_agent env) = homes \<and> (\<forall>uid u. ve_user_of env uid = Some u \<longrightarrow> CHR ''/'' \<notin> set u)"

definition codec_ok :: "(rule list \<Rightarrow> bytes) \<Rightarrow> (bytes \<Rightarrow> rule list result) \<Rightarrow> bool" where
  "codec_ok enc dec \<longleftrightarrow> (\<forall>rs. dec (enc rs) = Inr rs) \<and> (\<forall>rs. dec '''' = Inr rs \<longrightarrow> rs = [])"

definition file_safe :: "(bytes \<Rightarrow> rule list result) \<Rightarrow> string \<Rightarrow> bytes option \<Rightarrow> bool" where
  "file_safe dec home c \<longleftrightarrow> (\<forall>b rs. c = Some b \<longrightarrow> dec b = Inr rs \<longrightarrow> safe_rules home rs)"

definition rules_inv ::
  "string \<Rightarrow> (bytes \<Rightarrow> rule list result) \<Rightarrow> (string \<Rightarrow> string result) \<Rightarrow> string set \<Rightarrow> 'w daemon \<Rightarrow> bool" where
  "rules_inv dir dec homes T d \<longleftrightarrow>
     (\<forall>u home. CHR ''/'' \<notin> set u \<longrightarrow> homes u = Inr home \<longrightarrow> rules_path dir u \<notin> T \<longrightarrow>
        file_safe dec home (dm_rules d (rules_path dir u)))"

text \<open>The files of \<open>T\<close> are left out: a save of one of them broke off and its text is not whole.\<close>

lemma file_safe_simps [simp]: "file_safe dec home None"
  "codec_ok enc dec \<Longrightarrow> file_safe dec home (Some '''')"
  "codec_ok enc dec \<Longrightarrow> file_safe dec home (Some (enc rs)) \<longleftrightarrow> safe_rules home rs"
  by (auto simp: file_safe_def codec_ok_def safe_rules_def names_unique_def)

text \<open>The changes the service makes keep a list of rules safe.\<close>

lemma add_rule_safe:
  "add_rule r rs = Inr rs' \<Longrightarrow> safe_rules home rs \<Longrightarrow> Rule_Validate r = None \<Longrightarrow> ValidateUserPaths (Paths r) home = None \<Longrightarrow>
     safe_rules home rs'"
  by (fastforce simp: add_rule_def safe_rules_def names_unique_def Rule_Validate_def list_ex_iff split: if_splits)

lemma remove_rule_safe: "remove_rule n rs = Inr rs' \<Longrightarrow> safe_rules home rs \<Longrightarrow> safe_rules home rs'"
  by (auto simp: remove_rule_def safe_rules_def names_unique_def distinct_map_filter split: if_splits)

lemma set_first_mem: "set_first n e rs = Some rs' \<Longrightarrow> r \<in> set rs' \<Longrightarrow> \<exists>q \<in> set rs. r = q \<or> r = q\<lparr>Enabled := e\<rparr>"
  by (induction rs arbitrary: rs') (auto split: if_splits)

lemma enable_rule_safe: "enable_rule n e rs = Inr rs' \<Longrightarrow> safe_rules home rs \<Longrightarrow> safe_rules home rs'"
proof -
  assume "enable_rule n e rs = Inr rs'" and s: "safe_rules home rs"
  then have f: "set_first n e rs = Some rs'" by (auto simp: enable_rule_def split: option.splits)
  show "safe_rules home rs'"
    unfolding safe_rules_def
  proof (intro conjI ballI)
    show "names_unique rs'" using s set_first_names [OF f] by (simp add: safe_rules_def names_unique_def)
    fix r assume "r \<in> set rs'"
    with set_first_mem [OF f] obtain q where "q \<in> set rs" "r = q \<or> r = q\<lparr>Enabled := e\<rparr>" by blast
    then show "Rule_Validate r = None" "ValidateUserPaths (Paths r) home = None"
      using s by (auto simp: safe_rules_def Rule_Validate_def)
  qed
qed

lemma update_rules_safe:
  assumes c: "codec_ok enc dec" "\<not> fl EncodeRules"
    and keep: "\<And>rs rs'. change rs = Inr rs' \<Longrightarrow> safe_rules home rs \<Longrightarrow> safe_rules home rs'"
    and fs: "file_safe dec home (fs (rules_path dir u))"
  shows "file_safe dec home (fst (update_rules enc dec fl part dir u change fs) (rules_path dir u))"
proof (cases "Load dec fl dir u fs")
  case (Inr rs)
  have "safe_rules home rs"
    using Inr fs by (auto simp: Load_def file_safe_def mapErr_def safe_rules_def names_unique_def
        split: option.splits if_splits sum.splits)
  then have "safe_rules home rs'" if "change rs = Inr rs'" for rs' using keep that by blast
  then show ?thesis
    using Inr c fs by (auto simp: update_rules_def Save_def Let_def split: sum.splits)
qed (use fs in \<open>simp add: update_rules_def\<close>)

lemma onRules_safe:
  assumes h: "rules_host dir enc dec homes env" "\<not> ve_rulefl env EncodeRules" and c: "codec_ok enc dec"
    and u: "CHR ''/'' \<notin> set u" "is_abs dir"
    and ch: "user_change (homes u) change"
  shows "keeps (rules_inv dir dec homes T)
    (onRules env (update_rules enc dec (ve_rulefl env) (ve_rulepart env) dir u change))"
proof (rule keepsI)
  fix d :: "'a daemon" assume inv: "rules_inv dir dec homes T d"
  let ?up = "update_rules enc dec (ve_rulefl env) (ve_rulepart env) dir u change (dm_rules d)"
  have "file_safe dec home (fst ?up (rules_path dir v))" if v: "CHR ''/'' \<notin> set v" "homes v = Inr home" "rules_path dir v \<notin> T" for v home
  proof (cases "v = u")
    case True
    have keep: "safe_rules home rs'" if "change rs = Inr rs'" "safe_rules home rs" for rs rs'
      using ch that v True by (auto simp: user_change_def intro: add_rule_safe remove_rule_safe enable_rule_safe)
    show ?thesis
      unfolding True using inv v True h
      by (intro update_rules_safe [OF c _ keep]) (auto simp: rules_host_def rules_inv_def)
  next
    case False
    then have "rules_path dir v \<noteq> rules_path dir u" using rules_path_inj [OF u(2) v(1) u(1)] by blast
    then show ?thesis using inv v by (simp add: update_rules_state rules_inv_def)
  qed
  then show "rules_inv dir dec homes T
      (fst (onRules env (update_rules enc dec (ve_rulefl env) (ve_rulepart env) dir u change) d))"
    by (auto simp: onRules_def rules_inv_def split: prod.split)
qed

lemma blind_rules_inv: "agent_blind (rules_inv dir dec homes T)"
  by (simp add: agent_blind_def rules_inv_def)

lemma serve_rules_inv:
  assumes h: "rules_host dir enc dec homes env" "\<not> ve_rulefl env EncodeRules" and c: "codec_ok enc dec" and a: "is_abs dir"
  shows "keeps (rules_inv dir dec homes T) (serve env ctx req)"
proof (rule serve_keeps [OF blind_rules_inv])
  have f: "ve_enc env = enc" "ve_dec env = dec" "ve_rulesDir env = dir" "av_lookup (ve_agent env) = homes"
    using h(1) by (simp_all add: rules_host_def)
  show "keeps (rules_inv dir dec homes T) (onRules env (update_rules (ve_enc env) (ve_dec env) (ve_rulefl env)
      (ve_rulepart env) (ve_rulesDir env) u change))"
    if "extractUsername env ctx = Inr u" "user_change (av_lookup (ve_agent env) u) change" for u change
    using that h unfolding f by (intro onRules_safe [OF h c _ a]) (auto simp: extractUsername_iff rules_host_def)
  show "keeps (rules_inv dir dec homes T) (putMachineRules env rs)" for rs
    by (rule keepsI) (simp add: putMachineRules_def Let_def rules_inv_def split: prod.split)
  show "keeps (rules_inv dir dec homes T) (onDeleg f)" for f
    by (rule keepsI) (simp add: onDeleg_def rules_inv_def split: sum.split)
  then show "keeps (rules_inv dir dec homes T) (onDeleg f)" for f .
qed

lemma daemon_step_rules_inv:
  assumes "daemon_step {env} parse d d'" "rules_host dir enc dec homes env" "\<not> ve_rulefl env EncodeRules" "codec_ok enc dec"
    "is_abs dir" and inv: "rules_inv dir dec homes T d"
  shows "rules_inv dir dec homes T d'"
  using assms(1)
proof cases
  case (request env' ctx req)
  then show ?thesis
    using serve_rules_inv [of dir enc dec homes env T] assms(2-5) inv by (simp add: keeps_def)
qed (use inv in \<open>simp_all add: rules_inv_def\<close>)

text \<open>So the check a sync makes of a user's rules refuses nothing that came through the service.\<close>

lemma safe_rules_accepted:
  assumes "rules_host dir enc dec homes env" "rules_inv dir dec homes T d" "CHR ''/'' \<notin> set u" "u \<noteq> ''_machine''"
    "rules_path dir u \<notin> T"
    and "loadRules env u (dm_rules d) = Inr rs" "homes u = Inr home"
  shows "loadUserRules (agentEnv env d) u ruleName = Inr (filterRulesByName rs ruleName)"
proof -
  have "safe_rules home rs"
    using assms by (auto simp: rules_host_def loadRules_def Load_def rules_inv_def file_safe_def mapErr_def safe_rules_def
        names_unique_def split: option.splits if_splits sum.splits)
  then have "firstErr (\<lambda>r. wrapErr ''validate user rule %q: %w'' (ValidateUserPaths (Paths r) home)) rs = None"
    by (simp add: firstErr_None safe_rules_def)
  then show ?thesis
    using assms by (simp add: loadUserRules_def agentEnv_def rules_host_def)
qed

section \<open>Web delegations\<close>

lemma atServer_ok:
  assumes "atServer server call env d = (d', Inr x)"
  shows "\<exists>entry client w. ResolveServer (agentEnv env d) server = Inr entry \<and>
    call client w = (ag_world (dm_agent d'), Inr x) \<and> d' = d\<lparr>dm_agent := dm_agent d'\<rparr>"
proof -
  from assms obtain s where s: "bindS (liftS (ResolveServer (agentEnv env d) server)) (\<lambda>entry.
      bindS (clientFor (agentEnv env d) entry) (\<lambda>client. callRemote (call client))) (dm_agent d) = (s, Inr x)"
    "d' = d\<lparr>dm_agent := s\<rparr>"
    by (auto simp: atServer_def onAgent_def split: prod.splits)
  from s(1) obtain entry where e: "ResolveServer (agentEnv env d) server = Inr entry"
    "bindS (clientFor (agentEnv env d) entry) (\<lambda>client. callRemote (call client)) (dm_agent d) = (s, Inr x)"
    by (auto simp: bindS_eq_Inr [of "liftS _"] liftS_eq)
  from e(2) obtain client s1 where "callRemote (call client) s1 = (s, Inr x)" unfolding bindS_eq_Inr by blast
  then have "call client (ag_world s1) = (ag_world s, Inr x)" by (auto simp: callRemote_def split: prod.splits)
  then show ?thesis using e(1) s(2) by auto
qed

lemma atServer_deleg: "atServer server call env d = (d', r) \<Longrightarrow> dm_deleg d' = dm_deleg d"
  by (auto simp: atServer_def onAgent_def split: prod.splits)

lemma mapErrS_eq_Inl: "mapErrS g m s = (t, Inl e) \<longleftrightarrow> (\<exists>e'. m s = (t, Inl e') \<and> e = g e')"
  by (auto simp: mapErrS_def mapErr_def split: prod.splits sum.splits)

lemma onDeleg_failed: "onDeleg f d = (d', Inl e) \<longleftrightarrow> f (dm_deleg d) = Inl e \<and> d' = d"
  by (auto simp: onDeleg_def split: sum.splits)

lemma onDeleg_ok: "onDeleg f d = (d', Inr x) \<longleftrightarrow> (\<exists>t. f (dm_deleg d) = Inr t \<and> d' = d\<lparr>dm_deleg := t\<rparr>)"
  by (auto simp: onDeleg_def split: sum.splits)

text \<open>
  A delegation is recorded only after the server accepted the key, with the expiry it was told, and
  that is never beyond the configured lifetime, whatever the request asked for.
\<close>

lemma enroll_ok:
  fixes env :: "'w svc_env"
  assumes "EnrollWebDelegation env (main_service env) ctx req d = (d', Inr expiresAt)"
  obtains ident api and client :: "'w remote_server" and w where "extractCallerIdentity env ctx = Inr ident" "ac_HTTPSAPI (dm_cfg d) = Some api"
    "eq_GatewayCn req \<in> set (hc_GatewayCNs api)" "0 < eq_TtlSeconds req"
    "expiresAt * second_ns \<le> av_nanos (ve_agent env) + hc_DelegationTTL api"
    "rm_RegisterDelegationKey client (CallerMeta (ci_UID ident) (ci_Groups ident))
       \<lparr>dr_Username = ci_Username ident, dr_GatewayCn = eq_GatewayCn req, dr_DelegationPubkey = eq_DelegationPubkey req,
        dr_ExpiresAt = expiresAt, dr_Nonce = eq_Nonce req, dr_Signature = eq_Signature req\<rparr> w =
       (ag_world (dm_agent d'), Inr ())"
    "row_find wd_key (ci_Username ident, eq_GatewayCn req) (dm_deleg d') =
       Some \<lparr>wd_Username = ci_Username ident, wd_GatewayCN = eq_GatewayCn req,
         wd_DelegationPubKey = eq_DelegationPubkey req, wd_ExpiresAt = expiresAt,
         wd_CreatedAt = av_nanos (ve_agent env) div second_ns, wd_RevokedAt = None\<rparr>"
proof -
  from assms obtain ident api where i: "extractCallerIdentity env ctx = Inr ident" "ac_HTTPSAPI (dm_cfg d) = Some api"
    "checkEnroll env api req = None" "registerEnrollment env (main_service env) req ident d = (d', Inr expiresAt)"
    by (auto simp: EnrollWebDelegation_def bindS_eq_Inr result_simps split: option.splits)
  let ?dr = "\<lparr>dr_Username = ci_Username ident, dr_GatewayCn = eq_GatewayCn req, dr_DelegationPubkey = eq_DelegationPubkey req,
        dr_ExpiresAt = enrollExpiry env req, dr_Nonce = eq_Nonce req, dr_Signature = eq_Signature req\<rparr>"
  let ?wd = "\<lparr>wd_Username = ci_Username ident, wd_GatewayCN = eq_GatewayCn req,
         wd_DelegationPubKey = eq_DelegationPubkey req, wd_ExpiresAt = enrollExpiry env req,
         wd_CreatedAt = av_nanos (ve_agent env) div second_ns, wd_RevokedAt = None\<rparr>"
  from i(4) obtain d1 t where r: "atServer (eq_Server req) (\<lambda>client. rm_RegisterDelegationKey client
       (CallerMeta (ci_UID ident) (ci_Groups ident)) ?dr) env d = (d1, Inr ())"
    "UpsertWebDelegation (av_db (ve_agent env)) ?wd (dm_deleg d1) = Inr t" "d' = d1\<lparr>dm_deleg := t\<rparr>"
    "expiresAt = enrollExpiry env req"
    by (auto simp: registerEnrollment_def Let_def main_service_def bindS_eq_Inr result_simps onDeleg_ok)
  from atServer_ok [OF r(1)] obtain client :: "'w remote_server" and w where s:
    "rm_RegisterDelegationKey client (CallerMeta (ci_UID ident) (ci_Groups ident)) ?dr w = (ag_world (dm_agent d1), Inr ())"
    by blast
  have c: "eq_GatewayCn req \<in> set (hc_GatewayCNs api)" "0 < eq_TtlSeconds req" "ttl_ns (eq_TtlSeconds req) \<le> hc_DelegationTTL api"
    using i(3) by (auto simp: checkEnroll_def gatewayCNAllowed_def orElse_None failIf_None list_ex_iff)
  have "y div second_ns * second_ns \<le> y" for y :: int
  proof -
    have "0 \<le> y mod second_ns" by (simp add: second_ns_def)
    then show ?thesis using div_mult_mod_eq [of y second_ns] by linarith
  qed
  from this [of "av_nanos (ve_agent env) + ttl_ns (eq_TtlSeconds req)"]
  have "expiresAt * second_ns \<le> av_nanos (ve_agent env) + ttl_ns (eq_TtlSeconds req)"
    by (simp add: r(4) enrollExpiry_def)
  then have e: "expiresAt * second_ns \<le> av_nanos (ve_agent env) + hc_DelegationTTL api" using c(3) by linarith
  have "row_find wd_key (ci_Username ident, eq_GatewayCn req) t = Some ?wd"
    using UpsertWebDelegation_find [OF r(2), of "(ci_Username ident, eq_GatewayCn req)"] by (simp add: wd_key_def)
  then show thesis using that [OF i(1,2) c(1,2) e, of client w] s r(3,4) by simp
qed

lemma enroll_failed:
  assumes "EnrollWebDelegation env (main_service env) ctx req d = (d', Inl e)"
  shows "dm_deleg d' = dm_deleg d"
proof -
  have call: "dm_deleg d' = dm_deleg d" if "bindS (mapErrS g (atServer server call env)) (\<lambda>_.
      bindS (mapErrS h (onDeleg f)) (\<lambda>_. returnS x)) d = (d', Inl e)"
    for g h f server and x :: int and call :: "'a remote_server \<Rightarrow> ('a, unit) step"
  proof -
    from that consider "\<exists>e'. atServer server call env d = (d', Inl e')"
      | s where "atServer server call env d = (s, Inr ())" "bindS (mapErrS h (onDeleg f)) (\<lambda>_. returnS x) s = (d', Inl e)"
      unfolding bindS_eq_Inl [of "mapErrS g _"] mapErrS_eq_Inl mapErrS_eq_Inr by auto
    then show ?thesis
    proof cases
      case 1
      then show ?thesis using atServer_deleg by blast
    next
      case 2
      from 2(2) have "d' = s" by (auto simp: bindS_eq_Inl mapErrS_eq_Inl onDeleg_failed returnS_def)
      then show ?thesis using atServer_deleg [OF 2(1)] by simp
    qed
  qed
  have reg: "dm_deleg d' = dm_deleg d" if "registerEnrollment env (main_service env) req ident d = (d', Inl e)" for ident
    using that by (simp add: registerEnrollment_def Let_def main_service_def call)
  show ?thesis
  proof (cases "extractCallerIdentity env ctx")
    case (Inr ident)
    then show ?thesis
      using assms reg [of ident]
      by (auto simp: EnrollWebDelegation_def bindS_eq_Inl checkS_def returnS_def split: option.splits)
  qed (use assms in \<open>auto simp: EnrollWebDelegation_def failS_def\<close>)
qed

text \<open>Revoking takes effect here whatever the server answers.\<close>

lemma revoke_local:
  assumes "extractCallerIdentity env ctx = Inr ident"
    and row: "row_find wd_key (ci_Username ident, cn) (dm_deleg d) = Some w" "wd_RevokedAt w = None"
    and db: "\<not> av_db (ve_agent env) QueryDelegation" "\<not> av_db (ve_agent env) ExecRevokeDelegation"
  shows "\<exists>d'. svc_RevokeWebDelegation env (main_service env) ctx cn server nonce sig d = (d', Inr ()) \<and>
    row_find wd_key (ci_Username ident, cn) (dm_deleg d') = Some (w\<lparr>wd_RevokedAt := Some (av_sec (ve_agent env))\<rparr>)"
proof -
  have g: "GetWebDelegation (av_db (ve_agent env)) (ci_Username ident) cn (dm_deleg d) = Inr (Some w)"
    using row db by (simp add: GetWebDelegation_def)
  have dropped: "tryS (atServer server call env) d = (fst (atServer server call env d), Inr ())"
    "dm_deleg (fst (atServer server call env d)) = dm_deleg d" for call :: "'a remote_server \<Rightarrow> ('a, unit) step"
    by (auto simp: tryS_def atServer_def onAgent_def split: prod.split)
  obtain t where t: "RevokeWebDelegation (av_db (ve_agent env)) (av_sec (ve_agent env)) (ci_Username ident) cn (dm_deleg d) = Inr t"
    using db by (simp add: RevokeWebDelegation_def)
  from RevokeWebDelegation_find [OF t, of "(ci_Username ident, cn)"] row
  have "row_find wd_key (ci_Username ident, cn) t = Some (w\<lparr>wd_RevokedAt := Some (av_sec (ve_agent env))\<rparr>)" by simp
  then show ?thesis
    using assms(1) g row(2) t
    by (simp add: svc_RevokeWebDelegation_def revokeDelegation_def main_service_def bindS_def liftS_def returnS_def
        mapErrS_def onDeleg_def dropped)
qed

section \<open>Machine rules and the next start\<close>

lemma retryDefaults_idem: "retryDefaults (retryDefaults r) = retryDefaults r"
  by (simp add: retryDefaults_def second_ns_def minute_ns_def hour_ns_def)

lemma agentDefaults_idem: "agentDefaults (agentDefaults cfg) = agentDefaults cfg"
  by (cases "ac_HTTPSAPI cfg")
     (simp_all add: agentDefaults_def retryDefaults_idem httpsDefaults_def hour_ns_def minute_ns_def second_ns_def)

text \<open>A configuration that was loaded: the defaults are filled in and it is valid.\<close>

definition running_config :: "agent_config \<Rightarrow> bool" where
  "running_config cfg \<longleftrightarrow> agentDefaults cfg = cfg \<and> validateAgent cfg = None"

lemma LoadAgentConfig_running: "LoadAgentConfig parse rd = Inr cfg \<Longrightarrow> running_config cfg"
  by (auto simp: LoadAgentConfig_def running_config_def Let_def agentDefaults_idem split: sum.splits option.splits)

lemma firstErr_snoc: "firstErr f xs = None \<Longrightarrow> firstErr f (xs @ [x]) = f x"
  by (induction xs) (auto simp: firstErr.simps split: option.splits)

lemma validateAgent_rules:
  assumes "validateAgent cfg = None"
  shows "validateAgent (cfg\<lparr>ac_MachineRules := rs\<rparr>) = firstErr validateMachineRule rs"
  using assms by (simp add: validateAgent_def orElse_None)

lemma putMachineRules_ok:
  assumes "putMachineRules env rs d = (d', Inr x)"
  shows "dm_cfg d' = (dm_cfg d)\<lparr>ac_MachineRules := rs\<rparr> \<and>
    (\<exists>data. ve_yaml env (dm_cfg d') = Inr data \<and> dm_files d' (ve_ConfigPath env) = Some data)"
  using assms
  by (auto simp: putMachineRules_def saveAgentConfig_def Let_def mapErr_def split: prod.splits sum.splits if_splits)

text \<open>The configuration apart from its machine rules was loaded.\<close>

definition base_config :: "agent_config \<Rightarrow> bool" where
  "base_config cfg \<longleftrightarrow> running_config (cfg\<lparr>ac_MachineRules := []\<rparr>)"

lemma agentDefaults_rules: "agentDefaults (cfg\<lparr>ac_MachineRules := rs\<rparr>) = (agentDefaults cfg)\<lparr>ac_MachineRules := rs\<rparr>"
  by (simp add: agentDefaults_def)

lemma base_config_rules [simp]: "base_config (cfg\<lparr>ac_MachineRules := rs\<rparr>) = base_config cfg"
  by (simp add: base_config_def)

lemma running_base: "running_config cfg \<Longrightarrow> base_config cfg"
  by (simp add: running_config_def base_config_def agentDefaults_rules validateAgent_rules firstErr.simps)

text \<open>The machine rules are the last thing the loader checks.\<close>

lemma base_config_iff:
  assumes "base_config cfg"
  shows "agentDefaults cfg = cfg" "validateAgent cfg = firstErr validateMachineRule (ac_MachineRules cfg)"
proof -
  show "agentDefaults cfg = cfg"
    using assms by (cases cfg) (simp add: base_config_def running_config_def agentDefaults_def)
  show "validateAgent cfg = firstErr validateMachineRule (ac_MachineRules cfg)"
    using validateAgent_rules [of "cfg\<lparr>ac_MachineRules := []\<rparr>" "ac_MachineRules cfg"] assms
    by (simp add: base_config_def running_config_def)
qed

text \<open>
  The service saves a machine rule without the checks the loader makes: the request succeeds, and
  the file it leaves can be loaded exactly when all machine rules in it happen to be valid.
\<close>

lemma machine_rule_saved:
  assumes ok: "AddMachineRule env ctx req d = (d', Inr ())" and cfg: "base_config (dm_cfg d)"
    and yaml: "\<And>data. ve_yaml env (dm_cfg d') = Inr data \<Longrightarrow> parse data = Inr (dm_cfg d')"
  shows "extractUsername env ctx = Inr ''root''"
    and "LoadAgentConfig parse (readConfig env (dm_files d')) =
      (case firstErr validateMachineRule (ac_MachineRules (dm_cfg d) @ [requestedMachineRule req]) of
         None \<Rightarrow> Inr (dm_cfg d') | Some e \<Rightarrow> Inl e)"
proof -
  let ?rs = "ac_MachineRules (dm_cfg d) @ [requestedMachineRule req]"
  from ok have r: "extractUsername env ctx = Inr ''root''" "putMachineRules env ?rs d = (d', Inr ())"
    by (auto simp: AddMachineRule_def requireRoot_def bindS_eq_Inr result_simps failIf_None)
  then show "extractUsername env ctx = Inr ''root''" by simp
  from putMachineRules_ok [OF r(2)] obtain data where p: "dm_cfg d' = (dm_cfg d)\<lparr>ac_MachineRules := ?rs\<rparr>"
    "ve_yaml env (dm_cfg d') = Inr data" "dm_files d' (ve_ConfigPath env) = Some data" by blast
  then have "base_config (dm_cfg d')" using cfg by simp
  then show "LoadAgentConfig parse (readConfig env (dm_files d')) =
      (case firstErr validateMachineRule ?rs of None \<Rightarrow> Inr (dm_cfg d') | Some e \<Rightarrow> Inl e)"
    using p(3) yaml [OF p(2)] base_config_iff [of "dm_cfg d'"] p(1)
    by (simp add: LoadAgentConfig_def readConfig_def Let_def split: option.split)
qed

text \<open>No step of the daemon changes anything else of the configuration.\<close>

lemma serve_base_config: "keeps (\<lambda>d. base_config (dm_cfg d)) (serve env ctx req)"
proof (rule serve_keeps)
  show "keeps (\<lambda>d. base_config (dm_cfg d)) (putMachineRules env rs)" for rs
    by (rule keepsI) (simp add: putMachineRules_def Let_def split: prod.split)
qed (auto simp: agent_blind_def keeps_def onRules_def onDeleg_def split: prod.split sum.split)

lemma daemon_step_base_config:
  assumes "daemon_step E parse d d'" "base_config (dm_cfg d)"
  shows "base_config (dm_cfg d')"
  using assms(1)
proof cases
  case (request env ctx req)
  then show ?thesis using serve_base_config [of env ctx req] assms(2) by (simp add: keeps_def)
next
  case (reload env)
  then show ?thesis
    using assms(2) LoadAgentConfig_running [THEN running_base] by (auto simp: reloadConfig_def split: sum.split)
qed (use assms(2) in simp_all)

section \<open>The start\<close>

lemma scheduleRules_entries:
  "map (\<lambda>e. snd (snd e)) (sd_entries (scheduleRules valid cfg)) =
     map mr_Name (filter (\<lambda>r. mr_Enabled r \<and> valid (mr_Schedule r)) (ac_MachineRules cfg))"
proof -
  have "map (\<lambda>e. snd (snd e)) (sd_entries (fold (scheduleRule valid) rs s)) =
      map (\<lambda>e. snd (snd e)) (sd_entries s) @ map mr_Name (filter (\<lambda>r. mr_Enabled r \<and> valid (mr_Schedule r)) rs)" for rs s
    by (induction rs arbitrary: s) (auto simp: scheduleRule_def AddJob_def)
  then show ?thesis by (simp add: scheduleRules_def NewScheduler_def)
qed

text \<open>After a start the configuration is valid, no task is left unfinished, and the valid rules are scheduled.\<close>

lemma startAgent_ok:
  assumes "startAgent env parse de newPool valid d db = (db', Inr (d', sched))"
  shows "running_config (dm_cfg d')" "ag_trackers (dm_agent d') = []" "dm_started d' = []"
    "list_all (\<lambda>r. terminal_phase (tr_phase r)) (ag_tasks (dm_agent d'))"
    "map (\<lambda>e. snd (snd e)) (sd_entries sched) =
       map mr_Name (filter (\<lambda>r. mr_Enabled r \<and> valid (mr_Schedule r)) (ac_MachineRules (dm_cfg d')))"
proof -
  from assms obtain cfg tasks where s: "LoadAgentConfig parse (readConfig env (dm_files d)) = Inr cfg"
    "FailIncompleteTasks (av_db (ve_agent env)) (av_sec (ve_agent env)) ''agent restarted before task completed''
       (ag_tasks (dm_agent d)) = Inr tasks"
    "d' = d\<lparr>dm_agent := freshAgent (dm_agent d) tasks, dm_cfg := cfg, dm_started := [], dm_warned := []\<rparr>"
    "sched = scheduleRules valid cfg"
    by (auto simp: startAgent_def bindS_eq_Inr returnS_def mapErr_eq_Inr)
  show "running_config (dm_cfg d')" using LoadAgentConfig_running [OF s(1)] s(3) by simp
  show "ag_trackers (dm_agent d') = []" "dm_started d' = []" using s(3) by (simp_all add: freshAgent_def)
  show "list_all (\<lambda>r. terminal_phase (tr_phase r)) (ag_tasks (dm_agent d'))"
    using FailIncompleteTasks_terminal [OF s(2)] s(3) by (simp add: freshAgent_def list_all_iff)
  show "map (\<lambda>e. snd (snd e)) (sd_entries sched) =
       map mr_Name (filter (\<lambda>r. mr_Enabled r \<and> valid (mr_Schedule r)) (ac_MachineRules (dm_cfg d')))"
    using scheduleRules_entries s(3,4) by simp
qed

text \<open>A scheduled sync starts only inside the window of the configuration.\<close>

lemma scheduled_in_window:
  assumes "ac_ScheduleWindow (dm_cfg d) = Some (start, end')" "parse_clock start = Inr a" "parse_clock end' = Inr b"
    and "a \<noteq> b" "hour < 24" "mnt < 60" "fireMachineRule env hour mnt n d \<noteq> d"
  shows "hour * 60 + mnt \<in> window_minutes a b"
  using assms WithinWindow_correct [of start a end' b hour mnt] by (auto simp: fireMachineRule_def split: if_splits)

section \<open>The status stream\<close>

definition ended :: "sync_update \<Rightarrow> bool" where
  "ended u \<longleftrightarrow> su_Phase u = ''COMPLETED'' \<or> su_Phase u = ''FAILED''"

lemma statusLoop_updates:
  "statusLoop status ps = (us, r) \<Longrightarrow> length us \<le> length ps \<and> (\<forall>i < length us. status (po_daemon (ps ! i)) = Inr (us ! i))"
proof (induction ps arbitrary: us r)
  case (Cons p ps)
  show ?case
  proof (cases "status (po_daemon p)")
    case (Inr u)
    show ?thesis
    proof (cases "po_send p = None \<and> \<not> ended u \<and> po_done p = None")
      case True
      obtain vs r' where v: "statusLoop status ps = (vs, r')" by (rule prod.exhaust)
      have "us = u # vs" using Cons.prems Inr True v by (simp add: ended_def)
      then show ?thesis using Cons.IH [OF v] Inr by (auto simp: nth_Cons split: nat.split)
    next
      case False
      then have "us = [] \<or> us = [u]" using Cons.prems Inr by (auto simp: ended_def split: option.splits if_splits)
      then show ?thesis using Inr by auto
    qed
  qed (use Cons.prems in auto)
qed simp

text \<open>A stream that ends without an error has sent an ended task last, and only then.\<close>

lemma statusLoop_ends:
  "statusLoop status ps = (us, Some (Inr ())) \<Longrightarrow> us \<noteq> [] \<and> ended (last us) \<and> (\<forall>u \<in> set (butlast us). \<not> ended u)"
proof (induction ps arbitrary: us)
  case (Cons p ps)
  then obtain u where u: "status (po_daemon p) = Inr u" "po_send p = None"
    by (auto split: sum.splits option.splits)
  show ?case
  proof (cases "ended u")
    case True
    then show ?thesis using Cons.prems u by (auto simp: ended_def)
  next
    case False
    then obtain vs where v: "statusLoop status ps = (vs, Some (Inr ()))" "us = u # vs"
      using Cons.prems u by (auto simp: ended_def split: option.splits prod.splits)
    then show ?thesis using Cons.IH [OF v(1)] False by auto
  qed
qed simp

text \<open>With no task identifier the answer names no task and gives no reason.\<close>

lemma latest_status_blank:
  assumes "main_GetStatus env u '''' d = Inr up" "\<forall>r \<in> set (ag_tasks (dm_agent d)). tr_task_id r \<noteq> ''''"
  shows "su_TaskId up = '''' \<and> su_Error up = ''''"
proof -
  have "row_find tr_task_id '''' (ag_tasks (dm_agent d)) = None"
    using assms(2) by (auto simp: row_find_None)
  then show ?thesis
    using assms(1) by (auto simp: main_GetStatus_def GetTask_def Snapshot_def Let_def split: sum.splits if_splits)
qed

end
