(* ===== verification/Vault_DemoAgent.thy ===== *)
theory Vault_DemoAgent
  imports Vault_Demo Vault_Stream Vault_RestoreTask Vault_RestoreTrip Vault_AgentRun
begin

text \<open>
  A small agent on which the theorems about its tasks, its restores and its service are applied:
  one machine rule for \<open>/etc\<close>, which holds one file, and two servers, of which only the second
  can be dialled.
\<close>

section \<open>The agent\<close>

definition demo_agent_cfg :: agent_config where
  "demo_agent_cfg = \<lparr>ac_CertFile = ''/pki/a.crt'', ac_KeyFile = ''/pki/a.key'', ac_CAFile = ''/pki/ca.crt'',
     ac_Servers = [\<lparr>se_Address = ''lost:8443'', se_TLSServerName = ''lost''\<rparr>,
                   \<lparr>se_Address = ''vault:8443'', se_TLSServerName = ''vault''\<rparr>],
     ac_MachineRules = [\<lparr>mr_Name = ''etc'', mr_Paths = [''/etc''], mr_Schedule = ''@daily'', mr_Exclude = [],
                         mr_Enabled = True\<rparr>],
     ac_Retry = \<lparr>rc_InitialInterval = 1, rc_MaxInterval = 5, rc_Multiplier = Num 2, rc_Jitter = Num (1 / 10),
                 rc_MaxElapsedTime = 100\<rparr>,
     ac_OnTaskFailed = '''', ac_OnQuotaWarning = '''', ac_BandwidthLimit = 0, ac_ScheduleWindow = None,
     ac_QuotaWarningPercent = 90, ac_HTTPSAPI = None\<rparr>"

definition demo_stream :: "restore_batch result list" where
  "demo_stream = [Inr \<lparr>rb_BatchId = ''1'', rb_Files = [demo_entry], rb_IsLast = False\<rparr>,
     Inr \<lparr>rb_BatchId = ''2'', rb_Files = [], rb_IsLast = True\<rparr>]"

definition demo_remote :: "bool remote_server" where
  "demo_remote = \<lparr>rm_backup = (\<lambda>_. demo_client),
     rm_GetGlobalConfig = (\<lambda>_ w. (w, Inr \<lparr>gc_GlobalRules = [], gc_UserPolicy = None\<rparr>)),
     rm_GetChallenge = (\<lambda>w. (w, Inr \<lparr>ch_Nonce = ''n'', ch_ExpiresAt = 1300\<rparr>)),
     rm_GetQuotaUsage = (\<lambda>_ _ w. (w, Inl (Errorf ''not here''))),
     rm_PullRestore = (\<lambda>_ _ w. (w, Inr demo_stream)),
     rm_RegisterDelegationKey = (\<lambda>_ _ w. (w, Inr ())), rm_RemoveDelegationKey = (\<lambda>_ _ w. (w, Inr ())),
     rm_RegisterTaskGrant = (\<lambda>_ w. (w, Inr ()))\<rparr>"

definition demo_agent_env :: "bool agent_env" where
  "demo_agent_env = \<lparr>av_Cfg = demo_agent_cfg, av_db = no_faults, av_sec = 1000, av_nanos = 10 ^ 12,
     av_dial = (\<lambda>addr _. if addr = ''lost:8443'' then Inl (Errorf ''no route'') else Inr demo_remote),
     av_text = (\<lambda>_. ''failed''), av_rand = Inr ''r'', av_stamp = ''s'', av_rules = (\<lambda>_. Inr []),
     av_lookup = (\<lambda>u. Inr (''/home/'' @ u)), av_cwd = Inr ''/'', av_sha = (\<lambda>b. b),
     av_root = (\<lambda>p. Some (EDir ''etc'' None [EFile ''hosts'' 4 7 0x1A4 (Some ''data'')])),
     av_push = demo_push_env, av_code = (\<lambda>_. Unknown), av_dur = (\<lambda>_. 1)\<rparr>"

definition demo_job :: sync_job where
  "demo_job = \<lparr>sj_taskID = ''t'', sj_username = ''_machine'', sj_ruleName = '''', sj_userRules = [],
     sj_SignFunc = None, sj_SignerPubKey = None, sj_uid = 0, sj_groups = []\<rparr>"

definition demo_row :: task_row where
  "demo_row = \<lparr>tr_task_id = ''t'', tr_server_id = ''all'', tr_username = ''_machine'', tr_phase = ''SCANNING'',
     tr_stats_json = None, tr_error = None, tr_started_at = 1000, tr_ended_at = None\<rparr>"

definition demo_agent :: "bool agent_state" where
  "demo_agent = \<lparr>ag_clients = [], ag_world = False, ag_trackers = [(''t'', NewTracker 0)], ag_notified = [],
     ag_hook = True, ag_hooks = [], ag_snaps = [], ag_tasks = [demo_row], ag_tick = 0\<rparr>"

section \<open>Backup tasks\<close>

abbreviation demo_lost_srv :: server_entry where
  "demo_lost_srv \<equiv> \<lparr>se_Address = ''lost:8443'', se_TLSServerName = ''lost''\<rparr>"

abbreviation demo_vault_srv :: server_entry where
  "demo_vault_srv \<equiv> \<lparr>se_Address = ''vault:8443'', se_TLSServerName = ''vault''\<rparr>"

lemma demo_servers: "ac_Servers (av_Cfg demo_agent_env) = [demo_lost_srv, demo_vault_srv]"
  by (simp add: demo_agent_env_def demo_agent_cfg_def)

lemma run_closes_witness:
  "\<exists>s' ws'. (sync_step demo_agent_env demo_job)\<^sup>*\<^sup>* (startRun demo_agent_env demo_agent) (s', ws', True)"
proof -
  have "budget_ok demo_agent_env"
    by (simp add: budget_ok_def demo_agent_env_def demo_agent_cfg_def)
  then show ?thesis
    unfolding startRun_def by (rule run_closes)
      (auto simp: in_budget_def backoff_new_def demo_agent_env_def demo_agent_cfg_def)
qed

lemma hidden_failure_witness:
  "\<exists>s ws. (sync_step demo_agent_env demo_job)\<^sup>*\<^sup>* (startRun demo_agent_env demo_agent) (s, ws, True) \<and>
     ''t'' \<in> set (ag_notified s) \<and> row_phase ''t'' s = Some ''COMPLETED''"
proof -
  obtain s1 r where a: "syncToServer demo_agent_env demo_lost_srv demo_job demo_agent = (s1, r)"
    by (rule prod.exhaust)
  have "\<not> is_ok (snd (syncToServer demo_agent_env demo_lost_srv demo_job demo_agent))" by code_simp
  with a obtain e where e: "r = Inl e" by (cases r) auto
  have "snd (syncToServer demo_agent_env demo_lost_srv demo_job demo_agent) =
      Inl (Wrap ''get client for %s: %w'' (Wrap ''dial %q: %w'' (Errorf ''no route'')))" by code_simp
  with a e have e': "e = Wrap ''get client for %s: %w'' (Wrap ''dial %q: %w'' (Errorf ''no route''))" by simp
  have s1: "s1 = fst (syncToServer demo_agent_env demo_lost_srv demo_job demo_agent)" using a by simp
  obtain s2 r2 where b: "syncToServer demo_agent_env demo_vault_srv demo_job
      (failWith demo_agent_env demo_job demo_lost_srv e s1) = (s2, r2)"
    by (rule prod.exhaust)
  have "snd (syncToServer demo_agent_env demo_vault_srv demo_job
      (failWith demo_agent_env demo_job demo_lost_srv
        (Wrap ''get client for %s: %w'' (Wrap ''dial %q: %w'' (Errorf ''no route'')))
        (fst (syncToServer demo_agent_env demo_lost_srv demo_job demo_agent)))) = Inr ()"
    by code_simp
  then have "r2 = Inr ()" using b unfolding s1 e' by simp
  with b have b: "syncToServer demo_agent_env demo_vault_srv demo_job
      (failWith demo_agent_env demo_job demo_lost_srv e s1) = (s2, Inr ())" by simp
  have st: "phase_of (sj_taskID demo_job) demo_agent \<noteq> None" "row_phase (sj_taskID demo_job) demo_agent \<noteq> None"
    "\<not> av_db demo_agent_env ExecTaskPhase"
    and nr: "\<not> IsRetryable (av_code demo_agent_env)
      (Some (Wrap ''get client for %s: %w'' (Wrap ''dial %q: %w'' (Errorf ''no route''))))"
    and t: "sj_taskID demo_job = ''t''"
    by code_simp+
  from hidden_failure [OF demo_servers a [unfolded e] nr [folded e'] b st] show ?thesis
    unfolding t by blast
qed

text \<open>A scanned file.\<close>

definition demo_file :: file_info where
  "demo_file = \<lparr>fi_Path = ''etc/hosts'', fi_Size = 4, fi_Mtime = 7, fi_Mode = 0x1A4, fi_SHA256 = ''data''\<rparr>"

definition demo_diffs :: "file_diff list" where
  "demo_diffs = [\<lparr>fd_File = demo_file, fd_Action = DiffAdd\<rparr>]"

lemma demo_not_staging: "x \<noteq> [] \<Longrightarrow> hd x \<noteq> CHR ''.'' \<Longrightarrow> x \<noteq> sv_tmps demo_env n"
  by (auto simp: demo_env_def)

lemma PushBackup_refines_witness:
  "stored demo_env ''web01'' ''alice'' ''./a'' (fst (demo_run [demo_turn])) = Some (''data'', 0x1A4)"
proof -
  obtain s' acks r where run: "demo_run [demo_turn] = (s', acks, r)" by (rule prod_cases3)
  let ?pl = "place demo_env (cx_hostname demo_ctx) ''alice''"
  let ?v = "fold (receive_at ?pl) (concat (map bb_Files [demo_batch])) (\<lambda>_. None, \<lambda>q. file_at q (ss_tree demo_state))"
  have "snd (snd (demo_run [demo_turn])) = Inr ()"
    and t: "targetPath (sv_mountPoint demo_env) (cx_hostname demo_ctx) ''alice'' ''a'' = Inr ''/srv/web01/alice/a''"
      "targetPath (sv_mountPoint demo_env) (cx_hostname demo_ctx) ''alice'' ''./a'' = Inr ''/srv/web01/alice/a''"
    and c: "abs_comps ''/srv/web01/alice/a'' = [''srv'', ''web01'', ''alice'', ''a'']"
      "abs_comps (Dir ''/srv/web01/alice/a'') = [''srv'', ''web01'', ''alice'']"
    and f: "snd ?v (?pl ''./a'') = Some (''data'', 0x1A4)"
    and b: "bb_Username (hd [demo_batch]) = ''alice''" "fe_Path ` set (concat (map bb_Files [demo_batch])) \<subseteq> {''a'', ''./a''}"
    and h: "cx_hostname demo_ctx = ''web01''"
    by code_simp+
  with run have run: "demo_run [demo_turn] = (s', acks, Inr ())" by simp
  have rc: "received [demo_turn] [demo_batch]" "[demo_batch] \<noteq> []" by (simp_all add: received_def demo_turn_def)
  have ap: "paths_apart demo_env (cx_hostname demo_ctx) ''alice'' {''a'', ''./a''}"
    using t c demo_not_staging [of "''a''"] by (simp add: paths_apart_def)
  have "fst ?v ''./a'' = None \<and> snd ?v (?pl ''./a'') = stored demo_env (cx_hostname demo_ctx) ''alice'' ''./a'' s'"
    by (rule PushBackup_refines [OF run rc b ap _ _ refl]) (use t in auto)
  then show ?thesis using f run by (simp add: h)
qed

text \<open>A user's agent that backs up \<open>/etc\<close> through a connection that records what is sent.\<close>

definition demo_root_remote :: "(bool \<times> backup_batch list) remote_server" where
  "demo_root_remote = \<lparr>rm_backup = (\<lambda>_. recording demo_client),
     rm_GetGlobalConfig = (\<lambda>_ w. (w, Inl io_EOF)), rm_GetChallenge = (\<lambda>w. (w, Inl io_EOF)),
     rm_GetQuotaUsage = (\<lambda>_ _ w. (w, Inl io_EOF)), rm_PullRestore = (\<lambda>_ _ w. (w, Inl io_EOF)),
     rm_RegisterDelegationKey = (\<lambda>_ _ w. (w, Inl io_EOF)), rm_RemoveDelegationKey = (\<lambda>_ _ w. (w, Inl io_EOF)),
     rm_RegisterTaskGrant = (\<lambda>_ w. (w, Inl io_EOF))\<rparr>"

definition demo_root_env :: "(bool \<times> backup_batch list) agent_env" where
  "demo_root_env = \<lparr>av_Cfg = demo_agent_cfg, av_db = no_faults, av_sec = 1000, av_nanos = 10 ^ 12,
     av_dial = (\<lambda>_ _. Inr demo_root_remote), av_text = (\<lambda>_. ''failed''), av_rand = Inr ''r'', av_stamp = ''s'',
     av_rules = (\<lambda>_. Inr []), av_lookup = (\<lambda>u. Inr (''/home/'' @ u)), av_cwd = Inr ''/'', av_sha = (\<lambda>b. b),
     av_root = (\<lambda>p. Some (EDir ''etc'' None [EFile ''hosts'' 4 7 0x1A4 (Some ''data'')])),
     av_push = demo_push_env, av_code = (\<lambda>_. Unknown), av_dur = (\<lambda>_. 1)\<rparr>"

definition demo_root_state :: "(bool \<times> backup_batch list) agent_state" where
  "demo_root_state = \<lparr>ag_clients = [], ag_world = (False, []), ag_trackers = [(''t'', NewTracker 0)], ag_notified = [],
     ag_hook = True, ag_hooks = [], ag_snaps = [], ag_tasks = [], ag_tick = 0\<rparr>"

definition demo_user_job :: sync_job where
  "demo_user_job = demo_job\<lparr>sj_username := ''alice'', sj_SignFunc := Some (\<lambda>b. Inr b)\<rparr>"

definition demo_root_diffs :: root_diffs where
  "demo_root_diffs = \<lparr>rd_rootPath = ''/etc'', rd_rootPrefix = ''etc'', rd_diffs = demo_diffs\<rparr>"

abbreviation demo_root_pushed where
  "demo_root_pushed \<equiv> pushRoot demo_root_env demo_root_remote demo_vault_srv demo_user_job demo_root_diffs demo_root_state"

definition demo_root_turns :: "push_turn list" where
  "demo_root_turns = map (\<lambda>pb. \<lparr>pt_ctx = None, pt_recv = Inr pb, pt_send = None\<rparr>) (snd (ag_world (fst demo_root_pushed)))"

lemma root_synced_witness:
  "stored demo_env ''web01'' ''alice'' ''etc/hosts'' (fst (demo_run demo_root_turns)) = Some (''data'', 0x1A4) \<and>
   snd (diffRoot demo_root_env ''t'' ''vault:8443'' ''alice'' [] ''/etc'' (fst demo_root_pushed)) = Inr []"
proof -
  let ?h = "cx_hostname demo_ctx" and ?u = "''alice''" and ?a = "''vault:8443''" and ?f = "demo_file\<lparr>fi_Path := ''hosts''\<rparr>"
  let ?tree = "EDir ''etc'' None [EFile ''hosts'' 4 7 0x1A4 (Some ''data'')]"
  obtain s1 r0 where d: "diffRoot demo_root_env ''t'' ?a ?u [] ''/etc'' demo_root_state = (s1, r0)" by (rule prod.exhaust)
  obtain t1 r1 where p: "demo_root_pushed = (t1, r1)" by (rule prod.exhaust)
  obtain s' acks r2 where run: "demo_run demo_root_turns = (s', acks, r2)" by (rule prod_cases3)
  have "snd (diffRoot demo_root_env ''t'' ?a ?u [] ''/etc'' demo_root_state) = Inr [demo_root_diffs]"
      "snd demo_root_pushed = Inr ()" "snd (snd (demo_run demo_root_turns)) = Inr ()"
    and b: "is_abs ''/etc''" "names_ok ?tree" "snaps_wf (ag_snaps demo_root_state)"
    and sc: "Scan (av_sha demo_root_env) (Some []) (Some ?tree) = ([?f], [])" "distinct (map fi_Path [demo_file])"
      "NamespaceFiles (av_cwd demo_root_env) ''/etc'' [?f] = Inr (rd_rootPrefix demo_root_diffs, [demo_file])"
      "in_scope (rd_rootPrefix demo_root_diffs) ''etc/hosts''"
    and n: "normals (rel_comps ''etc/hosts'')" "rel_comps ''etc/hosts'' = [''etc'', ''hosts'']"
      "path_join [''etc'', ''hosts''] = ''etc/hosts''"
    and o: "dataset_owner (sv_mountPoint demo_env) ?h ?u"
    and j: "sj_username demo_user_job = ?u" "se_Address demo_vault_srv = ?a" "?h = ''web01''"
      "snd (ag_world demo_root_state) = []" "perm 0x1A4 = 0x1A4"
    by code_simp+
  with d p run have ok: "diffRoot demo_root_env ''t'' ?a ?u [] ''/etc'' demo_root_state = (s1, Inr [demo_root_diffs])"
    "demo_root_pushed = (t1, Inr ())" "demo_run demo_root_turns = (s', acks, Inr ())" by simp_all
  have tree: "av_root demo_root_env ''/etc'' = Some ?tree" "rm_backup demo_root_remote (sj_meta demo_user_job) = recording demo_client"
    by (simp_all add: demo_root_env_def demo_root_remote_def)
  have rt: "reads_tree (av_push demo_root_env) ''/etc'' ?tree"
    by (auto simp: reads_tree_def demo_root_env_def demo_push_env_def)
  have pl: "plain_path demo_env ''etc/hosts''"
    using n demo_not_staging [of "''hosts''"] by (simp add: plain_path_def)
  have pls: "\<forall>d \<in> set (rd_diffs demo_root_diffs). plain_path demo_env (diff_path d)"
    using pl by (simp add: demo_root_diffs_def demo_diffs_def demo_file_def)
  have old: "\<forall>x. plain_path demo_env x \<longrightarrow>
      mirrored demo_env ?h ?u (av_sha demo_root_env) (ag_snaps demo_root_state) ?a demo_state x"
    by (simp add: mirrored_def snap_of_def row_find_def stored_def demo_state_def demo_root_state_def file_at_def f_get_def
        split: sum.split)
  have conn: "snd (ag_world t1) = snd (ag_world demo_root_state) @ snd (ag_world t1)"
    "received demo_root_turns (snd (ag_world t1))"
    using j(4) p by (simp_all add: received_def demo_root_turns_def comp_def)
  have f: "row_find fi_Path ''etc/hosts'' [demo_file] = Some demo_file" "fi_Mode demo_file = 0x1A4" "fi_SHA256 demo_file = ''data''"
    "av_sha demo_root_env = (\<lambda>b. b)"
    by (simp_all add: row_find_def demo_file_def demo_root_env_def)
  from root_synced [OF ok(1) b(1) tree(1) b(2) rt sc(1-3) ok(2) refl tree(2) j(1,2) pls conn ok(3) o b(3) old]
  have "\<exists>c. stored demo_env ?h ?u ''etc/hosts'' s' = Some (c, perm 0x1A4) \<and> c = ''data''"
    and "snd (diffRoot demo_root_env ''t'' ?a ?u [] ''/etc'' t1) = Inr []"
    using pl sc(4) f by fastforce+
  then show ?thesis using p run j(3,5) by simp
qed

section \<open>Restores\<close>

definition demo_home :: tree where
  "demo_home = [([''home''], NDir 0), ([''home'', ''alice''], NDir 1000), ([''etc''], NDir 0),
     ([''etc'', ''passwd''], NFile ''root'' 0x1A4 0)]"

definition demo_restore_env :: restore_env where
  "demo_restore_env = \<lparr>re_fs = (\<lambda>_ _. False), re_umask = 0x12, re_add = (\<lambda>_ _ t. t)\<rparr>"

abbreviation demo_lookup :: "nat \<Rightarrow> (string \<times> string) option" where
  "demo_lookup \<equiv> (\<lambda>uid. if uid = 1000 then Some (''alice'', ''/home/alice'') else None)"

abbreviation demo_requested where
  "demo_requested \<equiv> RunRestore demo_agent_env (\<lambda>_ _. False) demo_lookup ''alice'' 1000 [] '''' ''vault:8443'' ''n'' ''s''
     (demo_agent, demo_home)"

definition demo_restore_job :: restore_job where
  "demo_restore_job = \<lparr>rj_taskID = ''restore-s-alice-72'', rj_username = ''alice'', rj_uid = 1000, rj_groups = [],
     rj_target = ''/home/alice/restored'', rj_server = ''vault:8443'', rj_nonce = ''n'', rj_signature = ''s''\<rparr>"

lemma demo_restore_requested: "snd demo_requested = (''restore-s-alice-72'', Inr demo_restore_job)"
  by code_simp

abbreviation demo_restored where
  "demo_restored \<equiv> runRestoreTask demo_agent_env demo_restore_env ''.r1'' demo_restore_job (fst demo_requested, demo_home)"

text \<open>Between the request and the task the user writes a file.\<close>

definition demo_later :: tree where
  "demo_later = f_put ([''home'', ''alice'', ''note''], NFile ''n'' 0x1A4 1000) demo_home"

lemma restore_stays_home_witness:
  "\<exists>s t'. runRestoreTask demo_agent_env demo_restore_env ''.r1'' demo_restore_job (fst demo_requested, demo_later) = (s, t') \<and>
     file_at [''home'', ''alice'', ''restored'', ''a''] t' = Some (''data'', 0x1A4) \<and>
     file_at [''etc'', ''passwd''] t' = Some (''root'', 0x1A4)"
proof -
  let ?run = "runRestoreTask demo_agent_env demo_restore_env ''.r1'' demo_restore_job (fst demo_requested, demo_later)"
  obtain s1 where req: "demo_requested = (s1, ''restore-s-alice-72'', Inr demo_restore_job)"
    using demo_restore_requested by (cases demo_requested) simp
  obtain s2 t' where run: "?run = (s2, t')" by (rule prod.exhaust)
  have put: "file_at [''home'', ''alice'', ''restored'', ''a''] (snd ?run) = Some (''data'', 0x1A4)"
    and home: "demo_lookup 1000 = Some (''alice'', ''/home/alice'')" "is_abs ''/home/alice''" "normal ''.r1''"
    and tgt: "abs_comps (rj_target demo_restore_job) = [''home'', ''alice'', ''restored'']"
      "abs_comps (Dir (rj_target demo_restore_job)) = [''home'', ''alice'']"
    and was: "file_at [''etc'', ''passwd''] demo_later = Some (''root'', 0x1A4)"
    and nl: "list_all (\<lambda>p. \<not> is_link (f_get p demo_later)) [[], [''home''], [''home'', ''alice'']]"
    by code_simp+
  have links: "\<forall>p. prefix p (abs_comps (Dir (rj_target demo_restore_job))) \<longrightarrow> \<not> is_link (f_get p demo_later)"
    using nl unfolding tgt by (auto simp: prefix_Cons)
  from run req have "runRestoreTask demo_agent_env demo_restore_env ''.r1'' demo_restore_job (s1, demo_later) = (s2, t')"
    by simp
  from restore_stays_home [OF req home links this] have "file_at [''etc'', ''passwd''] t' = file_at [''etc'', ''passwd''] demo_later"
    unfolding tgt by simp
  then show ?thesis using put was run by simp
qed

text \<open>
  Without that condition the restore leaves the home directory: the caller's link leads to a shared directory, and
  a directory that the caller owns there is replaced.
\<close>

definition demo_linked :: tree where
  "demo_linked = [([''home''], NDir 0), ([''home'', ''alice''], NDir 1000), ([''home'', ''alice'', ''link''], NLink ''../../srv''),
     ([''srv''], NDir 0), ([''srv'', ''x''], NDir 1000), ([''srv'', ''x'', ''old''], NFile ''old'' 0x1A4 0)]"

abbreviation demo_linked_request where
  "demo_linked_request \<equiv> RunRestore demo_agent_env (\<lambda>_ _. False) demo_lookup ''alice'' 1000 [] ''link/x'' ''vault:8443'' ''n'' ''s''
     (demo_agent, demo_linked)"

lemma restore_escapes_home:
  "is_ok (snd (snd demo_linked_request)) \<and>
   (let t' = snd (runRestoreTask demo_agent_env demo_restore_env ''.r1'' (projr (snd (snd demo_linked_request)))
        (fst demo_linked_request, demo_linked))
    in file_at [''srv'', ''x'', ''old''] t' = None \<and> file_at [''srv'', ''x'', ''a''] t' = Some (''data'', 0x1A4))"
  by code_simp

lemma restore_task_ends_witness:
  "phase_of ''restore-s-alice-72'' (fst demo_restored) = Some COMPLETED \<and>
   notified_once ''restore-s-alice-72'' (fst demo_restored)"
proof -
  obtain s1 where req: "demo_requested = (s1, ''restore-s-alice-72'', Inr demo_restore_job)"
    using demo_restore_requested by (cases demo_requested) simp
  obtain s2 t' where run: "demo_restored = (s2, t')" by (rule prod.exhaust)
  have i: "rj_taskID demo_restore_job = ''restore-s-alice-72''"
    and ph: "phase_of ''restore-s-alice-72'' (fst demo_requested) \<noteq> None"
    and once: "notified_once ''restore-s-alice-72'' (fst demo_requested)"
    and fin: "phase_of ''restore-s-alice-72'' (fst demo_restored) = Some COMPLETED"
    by code_simp+
  from restore_task_ends [OF run] i ph once fin run show ?thesis by simp
qed

text \<open>The restore of the small server, whose clones hold one file.\<close>

definition demo_clone :: tree where
  "demo_clone = [([''clone''], NDir 0), ([''clone'', ''a''], NFile ''data'' 0x1FF 0)]"

definition demo_clone_env :: "(unit \<times> string list list) server_env" where
  "demo_clone_env = demo_env\<lparr>sv_view := (\<lambda>_. demo_clone)\<rparr>"

abbreviation demo_pull where
  "demo_pull \<equiv> PullRestore demo_clone_env demo_ctx 7 (\<lambda>_. None) (\<lambda>_. None) demo_request demo_state"

lemma demo_clone_mount:
  assumes "CreateRestoreClone (zfs_of demo_clone_env) (sv_exec demo_clone_env) 7 snap z =
    (z', Inr (cloneName (zfs_of demo_clone_env) 7, mp))"
  shows "mp = ''/clone''"
proof -
  let ?e = "sv_exec demo_clone_env" and ?c = "cloneName (zfs_of demo_clone_env) 7"
  have e: "?e = logged demo_zfs" by (simp add: demo_clone_env_def demo_env_def)
  have t: "trim_space ''/clone'' = ''/clone''" by code_simp
  have "\<exists>y. zfs ?e [''clone'', snap, ?c] x = (y, Inr (trim_space []))" for x
    unfolding e zfs_def logged_def demo_zfs_def by simp
  then obtain y where y: "zfs ?e [''clone'', snap, ?c] z = (y, Inr (trim_space []))" by blast
  have "\<exists>y. zfs ?e (getArgs ''mountpoint'' ?c) x = (y, Inr ''/clone'')" for x
    unfolding e zfs_def logged_def demo_zfs_def getArgs_def by (simp add: t)
  then obtain y' where y': "zfs ?e (getArgs ''mountpoint'' ?c) y = (y', Inr ''/clone'')" by blast
  have "CHR ''@'' \<in> set snap" by (rule ccontr) (use assms in \<open>simp add: CreateRestoreClone_def failS_def\<close>)
  then show ?thesis using assms by (simp add: CreateRestoreClone_def Let_def bindS_def mapErrS_def y y')
qed

lemma demo_clone_tree: "mounted_tree ''/clone'' demo_clone"
proof -
  have "file_at p demo_clone \<noteq> None \<longleftrightarrow> p = [''clone'', ''a'']" for p
    by (auto simp: demo_clone_def file_at_def f_get_def)
  then have "tree_shaped demo_clone" by (simp add: tree_shaped_def)
  moreover have "is_abs ''/clone''" and c: "abs_comps ''/clone'' = [''clone'']" by code_simp+
  moreover have "is_below_dir (abs_comps ''/clone'') demo_clone"
    unfolding c by (simp add: is_below_dir_def is_dir_def f_get_def demo_clone_def)
  moreover have "f_wf demo_clone" by code_simp
  ultimately show ?thesis by (simp add: mounted_tree_def)
qed

lemma demo_clone_read:
  "ReadAllChunksFrom (\<lambda>_ _. False) ''/clone'' restoreChunkContentBytes (sendFile (\<lambda>_. None) (\<lambda>_. None)) demo_clone [] =
     ([\<lparr>rb_BatchId = batch_id 1, rb_Files = entries_of restoreChunkContentBytes ''a'' 0x1FF ''data'', rb_IsLast = False\<rparr>], Inr ())"
proof -
  have c: "abs_path [''clone''] = ''/clone''" "is_abs ''/clone''" "normals [''clone'']" "path_join [''a''] = ''a''"
    and b: "abs_comps ''/clone'' = [''clone'']"
    and t: "tree_files [''clone''] demo_clone = [([''a''], ''data'', 0x1FF)]"
    by code_simp+
  have m: "is_below_dir [''clone''] demo_clone" "f_wf demo_clone"
    using demo_clone_tree b by (simp_all add: mounted_tree_def)
  have "read_tree (\<lambda>_ _. False) ''/clone'' (entries_of restoreChunkContentBytes) (sendFile (\<lambda>_. None) (\<lambda>_. None)) demo_clone [] =
      foldS (sendFile (\<lambda>_. None) (\<lambda>_. None)) (entries_of restoreChunkContentBytes ''a'' 0x1FF ''data'') []"
    using read_tree_files [OF c(3) m, of "\<lambda>_ _. False"] by (simp add: c t)
  then show ?thesis
    using c(2) by (simp add: ReadAllChunksFrom_def restoreChunkContentBytes_def entries_of_def sendFile_def)
qed

lemma demo_pull_ok: "snd (snd demo_pull) = Inr ()"
proof -
  let ?E = "sv_exec demo_clone_env"
  define A where "A = bindS (validUser (qr_Username demo_request)) (\<lambda>_.
             authorize demo_clone_env demo_ctx (service_prefix @ ''PullRestore'') (qr_Username demo_request)
               (bindS (verifyPullRestoreSignature demo_clone_env (cx_hostname demo_ctx) demo_request) (\<lambda>_.
                consumeServerNonce demo_clone_env (qr_Nonce demo_request)))) demo_state"
  define B where "B = mapErrS (\<lambda>_. Status FailedPrecondition ''find recovery snapshot: %v'')
             (onZfs (LatestSnapshot ?E (dataset_of demo_clone_env (cx_hostname demo_ctx) (qr_Username demo_request)))) (fst A)"
  define C where "C = mapErrS (\<lambda>_. Status Internal ''create recovery clone: %v'')
             (onZfs (CreateRestoreClone (zfs_of demo_clone_env) ?E 7 ''tank/web01/alice@sync-1'')) (fst B)"
  let ?c = "cloneName (zfs_of demo_clone_env) 7"
  have A: "snd A = Inr ()" unfolding A_def by code_simp
  have B: "snd B = Inr ''tank/web01/alice@sync-1''" unfolding B_def A_def by code_simp
  have C: "snd C = Inr (?c, ''/clone'')" unfolding C_def B_def A_def by code_simp
  have D: "snd (onZfs (DestroyRestoreClone ?E ?c) (fst C)) = Inr ()" unfolding C_def B_def A_def by code_simp
  have f: "sv_fs demo_clone_env n = (\<lambda>_ _. False)" "sv_view demo_clone_env z = demo_clone" for n z
    by (simp_all add: demo_clone_env_def demo_env_def)
  have "A = (fst A, Inr ())" "B = (fst B, Inr ''tank/web01/alice@sync-1'')" "C = (fst C, Inr (?c, ''/clone''))"
    "onZfs (DestroyRestoreClone ?E ?c) (fst C) = (fst (onZfs (DestroyRestoreClone ?E ?c) (fst C)), Inr ())"
    using A B C D by (simp_all add: prod_eq_iff)
  note eqs = this(1,2,3) [unfolded A_def [symmetric]] this(4)
  have "demo_pull = streamSnapshot demo_clone_env (dataset_of demo_clone_env (cx_hostname demo_ctx) (qr_Username demo_request)) 7
      (\<lambda>_. None) (\<lambda>_. None) (fst A)"
    unfolding PullRestore_def A_def [symmetric] by (subst eqs(1)) simp
  moreover have "snd (snd \<dots>) = Inr ()"
    unfolding streamSnapshot_def B_def [symmetric]
    by (subst eqs(2), simp add: C_def [symmetric], subst eqs(3), simp add: f demo_clone_read, subst eqs(4), simp)
  ultimately show ?thesis by simp
qed

lemma restored_as_stored_witness:
  "\<exists>t' tk'. restoreFromStream demo_restore_env ''.r1'' (map Inr (fst (snd demo_pull))) ''/home/alice/back'' 1000
       (NewTracker 0) demo_home = (t', tk', Inr ()) \<and>
     map_option fst (file_at [''home'', ''alice'', ''back'', ''a''] t') = Some ''data''"
proof -
  obtain s' sent r where run: "demo_pull = (s', sent, r)" by (rule prod_cases3)
  note demo_pull_ok
  moreover have place: "abs_path ([''home'', ''alice''] @ [''back'']) = ''/home/alice/back''"
    and cl: "file_at ([''clone''] @ [''a'']) demo_clone = Some (''data'', 0x1FF)" "abs_comps ''/clone'' = [''clone'']"
    and nm: "normals [''home'', ''alice'']" "normal ''back''" "normal ''.r1''" "''.r1'' \<noteq> ''back''"
    by code_simp+
  ultimately have run: "demo_pull = (s', sent, Inr ())" using run by simp
  have ok: "\<not> sv_fs demo_clone_env n LstatOp p" "\<not> sv_fs demo_clone_env n ReadOp p" for n p
    by (simp_all add: demo_clone_env_def demo_env_def)
  have mt: "\<forall>snap z z' mp. CreateRestoreClone (zfs_of demo_clone_env) (sv_exec demo_clone_env) 7 snap z =
      (z', Inr (cloneName (zfs_of demo_clone_env) 7, mp)) \<longrightarrow> mounted_tree mp (sv_view demo_clone_env z')"
    using demo_clone_mount demo_clone_tree by (auto simp: demo_clone_env_def)
  have site: "restore_site [''home'', ''alice''] ''back'' ''.r1'' demo_home"
    using nm by (auto simp: restore_site_def demo_home_def f_get_def is_dir_def prefix_Cons)
  have fl: "faultless demo_restore_env" by (simp add: faultless_def demo_restore_env_def)
  obtain z1 snap z2 mp t' tk' where
    "CreateRestoreClone (zfs_of demo_clone_env) (sv_exec demo_clone_env) 7 snap z1 =
       (z2, Inr (cloneName (zfs_of demo_clone_env) 7, mp))"
    and rs: "restoreFromStream demo_restore_env ''.r1'' (map Inr sent) (abs_path ([''home'', ''alice''] @ [''back''])) 1000
       (NewTracker 0) demo_home = (t', tk', Inr ())"
    and fa: "\<forall>ws. ws \<noteq> [] \<longrightarrow> file_at ([''home'', ''alice''] @ ''back'' # ws) t' =
       map_option (\<lambda>(c, m). (c, restored_mode (re_umask demo_restore_env) restoreChunkContentBytes c m))
         (file_at (abs_comps mp @ ws) (sv_view demo_clone_env z2))"
    using restored_as_stored [OF run ok mt fl site, where uid = 1000 and tk = "NewTracker 0"] by blast
  then have "mp = ''/clone''" using demo_clone_mount by blast
  then have "file_at [''home'', ''alice'', ''back'', ''a''] t' = map_option (\<lambda>(c, m). (c, restored_mode (re_umask demo_restore_env)
      restoreChunkContentBytes c m)) (file_at ([''clone''] @ [''a'']) demo_clone)"
    using fa [rule_format, of "[''a'']"] cl(2) by (simp add: demo_clone_env_def)
  then show ?thesis using rs run cl(1) unfolding place by simp
qed

end
