(* ===== verification/Vault_DemoCodec.thy ===== *)
theory Vault_DemoCodec
  imports Vault_Rules
begin

text \<open>
  A coder that can be computed with, for the examples in which the YAML and JSON coders of the
  program have to be concrete: a string is preceded by its length in unary, a list is the strings
  one after the other, a rule the list of its fields.
\<close>

section \<open>Strings\<close>

definition pack :: "string \<Rightarrow> bytes" where
  "pack s = replicate (length s) CHR ''1'' @ CHR ''0'' # s"

definition unpack :: "bytes \<Rightarrow> (string \<times> bytes) option" where
  "unpack b =
     (let n = length (takeWhile (\<lambda>c. c = CHR ''1'') b); r = drop (Suc n) b in
      if n < length b \<and> n \<le> length r then Some (take n r, drop n r) else None)"

lemma takeWhile_ones: "takeWhile (\<lambda>c. c = CHR ''1'') (replicate n CHR ''1'' @ CHR ''0'' # s) = replicate n CHR ''1''"
  by (induction n) auto

lemma unpack_pack [simp]: "unpack (pack s @ t) = Some (s, t)"
  using takeWhile_ones [of "length s" "s @ t"] by (simp add: unpack_def pack_def Let_def)

lemma unpack_pack_Nil [simp]: "unpack (pack s) = Some (s, [])"
  using unpack_pack [of s "[]"] by simp

lemma pack_not_Nil [simp]: "pack s \<noteq> []"
  by (simp add: pack_def)

text \<open>A prefix of a packed string is refused.\<close>

lemma unpack_prefix: "n < length (pack s) \<Longrightarrow> unpack (take n (pack s)) = None"
proof -
  assume n: "n < length (pack s)"
  show ?thesis
  proof (cases "n \<le> length s")
    case True
    then have "take n (pack s) = replicate n CHR ''1''" by (simp add: pack_def)
    then show ?thesis by (simp add: unpack_def)
  next
    case False
    then obtain k where k: "n = Suc (length s + k)" by (metis add_Suc le_Suc_ex not_less_eq_eq)
    then have "take n (pack s) = replicate (length s) CHR ''1'' @ CHR ''0'' # take k s" by (simp add: pack_def)
    then show ?thesis
      using n k takeWhile_ones [of "length s"] by (simp add: unpack_def Let_def pack_def)
  qed
qed

section \<open>Lists of strings\<close>

definition pack_all :: "string list \<Rightarrow> bytes" where
  "pack_all xs = concat (map pack xs)"

fun unpack_upto :: "nat \<Rightarrow> bytes \<Rightarrow> string list option" where
  "unpack_upto n [] = Some []"
| "unpack_upto 0 b = None"
| "unpack_upto (Suc n) b =
     (case unpack b of None \<Rightarrow> None | Some (s, t) \<Rightarrow> map_option (Cons s) (unpack_upto n t))"

definition unpack_all :: "bytes \<Rightarrow> string list option" where
  "unpack_all b = unpack_upto (length b) b"

lemma unpack_upto_Suc: "b \<noteq> [] \<Longrightarrow> unpack_upto (Suc n) b =
    (case unpack b of None \<Rightarrow> None | Some (s, t) \<Rightarrow> map_option (Cons s) (unpack_upto n t))"
  by (cases b) auto

lemma unpack_upto_pack: "length xs \<le> n \<Longrightarrow> unpack_upto n (pack_all xs) = Some xs"
proof (induction xs arbitrary: n)
  case (Cons x xs)
  then obtain m where "n = Suc m" "length xs \<le> m" by (cases n) auto
  then show ?case using Cons.IH [of m] by (simp add: pack_all_def unpack_upto_Suc)
qed (simp add: pack_all_def)

lemma pack_all_length: "length xs \<le> length (pack_all xs)"
  by (induction xs) (simp_all add: pack_all_def pack_def)

lemma unpack_pack_all [simp]: "unpack_all (pack_all xs) = Some xs"
  by (simp add: unpack_all_def unpack_upto_pack pack_all_length)

section \<open>Rules\<close>

definition pack_rule :: "rule \<Rightarrow> string" where
  "pack_rule r = pack_all [Name r, pack_all (Paths r), pack_all (Exclude r), Schedule r, if Enabled r then ''1'' else []]"

definition unpack_rule :: "string \<Rightarrow> rule option" where
  "unpack_rule b =
     (case unpack_all b of
        Some [n, ps, es, s, e] \<Rightarrow>
          (case (unpack_all ps, unpack_all es) of
             (Some ps', Some es') \<Rightarrow> Some \<lparr>Name = n, Paths = ps', Exclude = es', Schedule = s, Enabled = (e \<noteq> [])\<rparr>
           | _ \<Rightarrow> None)
      | _ \<Rightarrow> None)"

lemma unpack_pack_rule [simp]: "unpack_rule (pack_rule r) = Some r"
  by (simp add: unpack_rule_def pack_rule_def)

definition pack_rules :: "rule list \<Rightarrow> bytes" where
  "pack_rules rs = pack_all (map pack_rule rs)"

definition unpack_rules :: "bytes \<Rightarrow> rule list result" where
  "unpack_rules b =
     (case unpack_all b of
        None \<Rightarrow> Inl (Errorf ''yaml: cannot unmarshal'')
      | Some xs \<Rightarrow> (case those (map unpack_rule xs) of
          None \<Rightarrow> Inl (Errorf ''yaml: cannot unmarshal'') | Some rs \<Rightarrow> Inr rs))"

lemma those_map: "(\<And>x. f (g x) = Some x) \<Longrightarrow> those (map (f \<circ> g) xs) = Some xs"
  by (induction xs) auto

lemma unpack_pack_rules [simp]: "unpack_rules (pack_rules rs) = Inr rs"
  by (simp add: unpack_rules_def pack_rules_def those_map)

lemma unpack_rules_Nil: "unpack_rules [] = Inr []"
  by (simp add: unpack_rules_def unpack_all_def)

end
