(* ===== verification/Vault_Gateway.thy ===== *)
theory Vault_Gateway
  imports Vault_AgentRun "HOL-Library.Sublist"
begin

text \<open>
  \<open>internal/agent/httpsapi\<close>: the HTTPS API through which a web gateway acts for users who enrolled
  it. A request holds what the Go library has decoded: the name in the client certificate, the
  path, the JSON body, the nonce and signature of the headers. The handlers run on the daemon
  with the state of the API beside it: the two rate limiters and the task keys of pending syncs.
\<close>

section \<open>Rate limiting\<close>

text \<open>
  A bucket of tokens per key; times are nanoseconds, tokens are rationals where the code has
  floating-point numbers. The readings of the clock inside one call are taken to be one.
\<close>

record bucket =
  bk_tokens :: rat
  bk_last :: int

record rate_limiter =
  rl_rate :: rat
  rl_burst :: rat
  rl_buckets :: "(string \<times> bucket) list"

definition newRateLimiter :: "rat \<Rightarrow> rat \<Rightarrow> rate_limiter" where
  "newRateLimiter ratePerSec burst = \<lparr>rl_rate = ratePerSec, rl_burst = burst, rl_buckets = []\<rparr>"

definition refill :: "rate_limiter \<Rightarrow> int \<Rightarrow> bucket \<Rightarrow> rat" where
  "refill rl now b = min (bk_tokens b + of_int (now - bk_last b) / 10 ^ 9 * rl_rate rl) (rl_burst rl)"

definition rl_allow :: "int \<Rightarrow> string \<Rightarrow> rate_limiter \<Rightarrow> rate_limiter \<times> bool" where
  "rl_allow now key rl =
     (let b = (case map_of (rl_buckets rl) key of None \<Rightarrow> \<lparr>bk_tokens = rl_burst rl, bk_last = now\<rparr> | Some b \<Rightarrow> b);
          tokens = refill rl now b;
          put = (\<lambda>t. rl\<lparr>rl_buckets := AList.update key \<lparr>bk_tokens = t, bk_last = now\<rparr> (rl_buckets rl)\<rparr>)
      in if tokens < 1 then (put tokens, False) else (put (tokens - 1), True))"

section \<open>Task keys of pending syncs\<close>

record ephemeral_entry =
  ee_signer :: task_key
  ee_expiresAt :: int
  ee_grantExpiresAt :: int

type_synonym ephemeral_keys = "(string \<times> ephemeral_entry) list"

definition ek_put :: "bytes \<Rightarrow> task_key \<Rightarrow> int \<Rightarrow> int \<Rightarrow> ephemeral_keys \<Rightarrow> ephemeral_keys" where
  "ek_put nonce signer nonceExpiry grantExpiry ek =
     AList.update (hex_encode nonce)
       \<lparr>ee_signer = signer, ee_expiresAt = nonceExpiry, ee_grantExpiresAt = grantExpiry\<rparr> ek"

definition ek_take :: "int \<Rightarrow> bytes \<Rightarrow> ephemeral_keys \<Rightarrow> ephemeral_keys \<times> ephemeral_entry option" where
  "ek_take now nonce ek =
     (case map_of ek (hex_encode nonce) of
        None \<Rightarrow> (ek, None)
      | Some e \<Rightarrow> (AList.delete (hex_encode nonce) ek, if now > ee_expiresAt e then None else Some e))"

section \<open>Requests, answers, the server\<close>

record json_body =
  jb_name :: string
  jb_paths :: "string list"
  jb_exclude :: "string list"
  jb_method :: string
  jb_rule :: string
  jb_target_path :: string
  jb_server :: string

text \<open>\<open>ht_values\<close> are the path values a request carries; the library sets them when it routes it.\<close>

record http_request =
  ht_cn :: "string option"
  ht_method :: string
  ht_path :: "string list"
  ht_values :: "(string \<times> string) list"
  ht_body :: "json_body option"
  ht_nonce :: "bytes option"
  ht_signature :: "bytes option"
  ht_query_server :: string
  ht_event_stream :: bool

datatype sse_event = SseData sync_update | SseError

datatype gw_body =
    NoBody | ErrorBody string | RulesBody "rule_view list" | NameBody string | EnabledBody string bool
  | ChallengeBody bytes bytes int string | QuotaBody quota_answer | TaskBody string
  | StatusBody sync_update | DelegationBody string string int | EventStream "sse_event list"

record response =
  rs_status :: nat
  rs_body :: gw_body

definition writeError :: "nat \<Rightarrow> string \<Rightarrow> response" where
  "writeError st code = \<lparr>rs_status = st, rs_body = ErrorBody code\<rparr>"

definition writeUnauthorized :: response where
  "writeUnauthorized = writeError 401 ''unauthorized''"

definition writeDelegationRequired :: response where
  "writeDelegationRequired = writeError 403 ''delegation_required''"

definition writeInternal :: response where
  "writeInternal = writeError 500 ''internal''"

definition writeJSON :: "nat \<Rightarrow> gw_body \<Rightarrow> response" where
  "writeJSON st b = \<lparr>rs_status = st, rs_body = b\<rparr>"

record 'w gateway =
  gt_daemon :: "'w daemon"
  gt_gatewayLimiter :: rate_limiter
  gt_userLimiter :: rate_limiter
  gt_ephemeral :: ephemeral_keys

text \<open>
  A handler either has answered (\<open>Inl\<close>, the early returns) or goes on with a value.
\<close>

type_synonym ('w, 'a) gw = "'w gateway \<Rightarrow> 'w gateway \<times> (response + 'a)"

definition bindG :: "('w, 'a) gw \<Rightarrow> ('a \<Rightarrow> ('w, 'b) gw) \<Rightarrow> ('w, 'b) gw" where
  "bindG m f g = (case m g of (g', Inl r) \<Rightarrow> (g', Inl r) | (g', Inr x) \<Rightarrow> f x g')"

definition replyG :: "response \<Rightarrow> ('w, 'a) gw" where
  "replyG r g = (g, Inl r)"

definition valueG :: "'a \<Rightarrow> ('w, 'a) gw" where
  "valueG x g = (g, Inr x)"

definition written :: "('w, response) gw \<Rightarrow> 'w gateway \<Rightarrow> 'w gateway \<times> response" where
  "written m g = (case m g of (g', Inl r) \<Rightarrow> (g', r) | (g', Inr r) \<Rightarrow> (g', r))"

text \<open>A step of the daemon; \<open>h\<close> is what an error is answered with.\<close>

definition onDaemon :: "(error \<Rightarrow> response) \<Rightarrow> ('w, 'a) svc \<Rightarrow> ('w, 'a) gw" where
  "onDaemon h m g = (case m (gt_daemon g) of
      (d, Inl e) \<Rightarrow> (g\<lparr>gt_daemon := d\<rparr>, Inl (h e)) | (d, Inr x) \<Rightarrow> (g\<lparr>gt_daemon := d\<rparr>, Inr x))"

record identity =
  id_GatewayCN :: string
  id_Username :: string
  id_UID :: nat
  id_HomeDir :: string

text \<open>
  The environment: \<open>gw_account\<close> is \<open>user.Lookup\<close> (uid in decimal, home), \<open>gw_marshal\<close> the protobuf
  encoding of a request of this type that names only its user, \<open>gw_genkey\<close> a new task key, \<open>gw_authline\<close>
  \<open>ssh.MarshalAuthorizedKey\<close>.
\<close>

record 'w gw_env =
  gw_svc :: "'w svc_env"
  gw_account :: "string \<Rightarrow> (string \<times> string) option"
  gw_marshal :: "string \<Rightarrow> string \<Rightarrow> bytes result"
  gw_sha :: "bytes \<Rightarrow> bytes"
  gw_lib :: ssh_lib
  gw_genkey :: "task_key result"
  gw_authline :: "bytes \<Rightarrow> string"

record 'w gw_deps =
  gd_GetAuthChallenge :: "('w, auth_challenge) svc option"
  gd_GetStatus :: "(string \<Rightarrow> string \<Rightarrow> 'w daemon \<Rightarrow> sync_update result) option"
  gd_GetQuotaUsage :: "string \<Rightarrow> string \<Rightarrow> bytes \<Rightarrow> bytes \<Rightarrow> ('w, quota_answer) svc"
  gd_RequestRestore :: "string \<Rightarrow> nat \<Rightarrow> string \<Rightarrow> string \<Rightarrow> bytes \<Rightarrow> bytes \<Rightarrow> ('w, string) svc"
  gd_RunSyncWithTaskKey :: "string \<Rightarrow> string \<Rightarrow> task_key \<Rightarrow> ('w, string) svc"
  gd_RegisterTaskGrant :: "string \<Rightarrow> grant_request \<Rightarrow> ('w, unit) svc"
  gd_RemoveDelegationKey :: "(string \<Rightarrow> delegation_request \<Rightarrow> ('w, unit) svc) option"

definition gw_now :: "'w gw_env \<Rightarrow> int" where
  "gw_now env = av_nanos (ve_agent (gw_svc env))"

definition gw_db :: "'w gw_env \<Rightarrow> faults" where
  "gw_db env = av_db (ve_agent (gw_svc env))"

section \<open>The gate\<close>

definition peerCN :: "http_request \<Rightarrow> string" where
  "peerCN r = (case ht_cn r of None \<Rightarrow> '''' | Some cn \<Rightarrow> cn)"

definition PathValue :: "http_request \<Rightarrow> string \<Rightarrow> string" where
  "PathValue r name = (case map_of (ht_values r) name of None \<Rightarrow> '''' | Some v \<Rightarrow> v)"

definition resolveUser :: "'w gw_env \<Rightarrow> https_config \<Rightarrow> string \<Rightarrow> (nat \<times> string) option" where
  "resolveUser env api username =
     (if ValidateUsername username \<noteq> None then None
      else case gw_account env username of
        None \<Rightarrow> None
      | Some (uidText, home) \<Rightarrow>
          (case parse_uint 32 uidText of
             Inl e \<Rightarrow> None
           | Inr uid \<Rightarrow> if int uid < hc_MinUID api mod 2 ^ 64 then None else Some (uid, home)))"

definition activeDelegation :: "'w gw_env \<Rightarrow> web_delegation option \<Rightarrow> web_delegation option" where
  "activeDelegation env d =
     (case d of
        None \<Rightarrow> None
      | Some w \<Rightarrow> if wd_RevokedAt w \<noteq> None \<or> gw_now env > wd_ExpiresAt w * second_ns then None else Some w)"

definition gate ::
  "'w gw_env \<Rightarrow> https_config \<Rightarrow> (identity \<Rightarrow> http_request \<Rightarrow> 'w gateway \<Rightarrow> 'w gateway \<times> response) \<Rightarrow>
   http_request \<Rightarrow> 'w gateway \<Rightarrow> 'w gateway \<times> response" where
  "gate env api next r g =
     (let cn = peerCN r; username = PathValue r ''user'' in
      if \<not> gatewayCNAllowed (hc_GatewayCNs api) cn then (g, writeUnauthorized)
      else case resolveUser env api username of
        None \<Rightarrow> (g, writeDelegationRequired)
      | Some (uid, home) \<Rightarrow>
          (case GetWebDelegation (gw_db env) username cn (dm_deleg (gt_daemon g)) of
             Inl e \<Rightarrow> (g, writeInternal)
           | Inr d \<Rightarrow>
               (case activeDelegation env d of
                  None \<Rightarrow> (g, writeDelegationRequired)
                | Some w \<Rightarrow>
                    (case rl_allow (gw_now env) cn (gt_gatewayLimiter g) of
                       (rl, False) \<Rightarrow> (g\<lparr>gt_gatewayLimiter := rl\<rparr>, writeError 429 ''rate_limited'')
                     | (rl, True) \<Rightarrow>
                         next \<lparr>id_GatewayCN = cn, id_Username = username, id_UID = uid, id_HomeDir = home\<rparr> r
                           (g\<lparr>gt_gatewayLimiter := rl\<rparr>)))))"

section \<open>Helpers of the handlers\<close>

definition decodeBody :: "http_request \<Rightarrow> ('w, json_body) gw" where
  "decodeBody r = (case ht_body r of None \<Rightarrow> replyG (writeError 400 ''invalid_body'') | Some b \<Rightarrow> valueG b)"

definition rateUser :: "'w gw_env \<Rightarrow> identity \<Rightarrow> ('w, unit) gw" where
  "rateUser env ident g =
     (case rl_allow (gw_now env) (id_Username ident) (gt_userLimiter g) of (rl, ok) \<Rightarrow>
        (g\<lparr>gt_userLimiter := rl\<rparr>, if ok then Inr () else Inl (writeError 429 ''rate_limited'')))"

definition errNoDelegation :: error where
  "errNoDelegation = Errorf ''no delegation''"

definition gwRules :: "'w gw_env \<Rightarrow> string \<Rightarrow> (rule list \<Rightarrow> rule list result) \<Rightarrow> ('w, unit) svc" where
  "gwRules env username change = (let e = gw_svc env in
     onRules e (update_rules (ve_enc e) (ve_dec e) (ve_rulefl e) (ve_rulepart e) (ve_rulesDir e) username change))"

definition gwDelegation :: "'w gw_env \<Rightarrow> identity \<Rightarrow> 'w gateway \<Rightarrow> web_delegation option result" where
  "gwDelegation env ident g = GetWebDelegation (gw_db env) (id_Username ident) (id_GatewayCN ident) (dm_deleg (gt_daemon g))"

section \<open>Rules, status, delegation\<close>

definition handleListRules :: "'w gw_env \<Rightarrow> identity \<Rightarrow> ('w, response) gw" where
  "handleListRules env ident g =
     (case loadRules (gw_svc env) (id_Username ident) (dm_rules (gt_daemon g)) of
        Inl e \<Rightarrow> (g, Inl writeInternal)
      | Inr rs \<Rightarrow> (g, Inr (writeJSON 200 (RulesBody
          (map (\<lambda>r. \<lparr>rv_Name = Name r, rv_Paths = Paths r, rv_Exclude = Exclude r, rv_Enabled = Enabled r\<rparr>) rs)))))"

definition handleAddRule :: "'w gw_env \<Rightarrow> identity \<Rightarrow> http_request \<Rightarrow> ('w, response) gw" where
  "handleAddRule env ident r =
     bindG (decodeBody r) (\<lambda>body.
     let rule = \<lparr>Name = jb_name body, Paths = jb_paths body, Exclude = jb_exclude body, Schedule = '''', Enabled = True\<rparr> in
     if Rule_Validate rule \<noteq> None \<or> ValidateUserPaths (Paths rule) (id_HomeDir ident) \<noteq> None
     then replyG (writeError 400 ''invalid_rule'')
     else bindG (onDaemon (\<lambda>e. if sublist ''exists'' (av_text (ve_agent (gw_svc env)) e)
                               then writeError 409 ''rule_exists'' else writeInternal)
                   (gwRules env (id_Username ident) (add_rule rule))) (\<lambda>_.
          valueG (writeJSON 201 (NameBody (Name rule)))))"

definition handleRemoveRule :: "'w gw_env \<Rightarrow> identity \<Rightarrow> http_request \<Rightarrow> ('w, response) gw" where
  "handleRemoveRule env ident r =
     bindG (onDaemon (\<lambda>_. writeError 404 ''rule_not_found'')
              (gwRules env (id_Username ident) (remove_rule (PathValue r ''name'')))) (\<lambda>_.
     valueG (writeJSON 204 NoBody))"

definition handleSetRuleEnabled :: "bool \<Rightarrow> 'w gw_env \<Rightarrow> identity \<Rightarrow> http_request \<Rightarrow> ('w, response) gw" where
  "handleSetRuleEnabled enabled env ident r =
     bindG (onDaemon (\<lambda>_. writeError 404 ''rule_not_found'')
              (gwRules env (id_Username ident) (enable_rule (PathValue r ''name'') enabled))) (\<lambda>_.
     valueG (writeJSON 200 (EnabledBody (PathValue r ''name'') enabled)))"

text \<open>The events of a status stream; \<open>polls\<close> are its rounds, as in the service.\<close>

fun streamStatus :: "('w daemon \<Rightarrow> sync_update result) \<Rightarrow> 'w poll list \<Rightarrow> sse_event list" where
  "streamStatus status [] = []"
| "streamStatus status (p # ps) =
     (case status (po_daemon p) of
        Inl e \<Rightarrow> [SseError]
      | Inr u \<Rightarrow> SseData u #
          (if su_Phase u = ''COMPLETED'' \<or> su_Phase u = ''FAILED'' \<or> po_done p \<noteq> None then []
           else streamStatus status ps))"

definition handleSyncStatus ::
  "'w gw_deps \<Rightarrow> identity \<Rightarrow> 'w poll list \<Rightarrow> http_request \<Rightarrow> ('w, response) gw" where
  "handleSyncStatus deps ident polls r g =
     (case gd_GetStatus deps of
        None \<Rightarrow> (g, Inl (writeError 501 ''unimplemented''))
      | Some status \<Rightarrow>
          if ht_event_stream r
          then (g, Inr (writeJSON 200 (EventStream (streamStatus (status (id_Username ident) (PathValue r ''task'')) polls))))
          else (case status (id_Username ident) (PathValue r ''task'') (gt_daemon g) of
             Inl e \<Rightarrow> (g, Inl (writeError 404 ''task_not_found''))
           | Inr st \<Rightarrow> (g, Inr (writeJSON 200 (StatusBody st)))))"

definition handleGetDelegation :: "'w gw_env \<Rightarrow> identity \<Rightarrow> ('w, response) gw" where
  "handleGetDelegation env ident g =
     (case gwDelegation env ident g of
        Inl e \<Rightarrow> (g, Inl writeInternal)
      | Inr None \<Rightarrow> (g, Inl writeDelegationRequired)
      | Inr (Some d) \<Rightarrow> (g, Inr (writeJSON 200 (DelegationBody (wd_GatewayCN d) (wd_DelegationPubKey d) (wd_ExpiresAt d)))))"

section \<open>Challenges\<close>

definition taskGrantTTL :: int where
  "taskGrantTTL = 6 * hour_ns"

text \<open>The payload of each kind of signed operation. A build may consume a task key.\<close>

definition requestPayload :: "'w gw_env \<Rightarrow> identity \<Rightarrow> string \<Rightarrow> bytes \<Rightarrow> bytes result" where
  "requestPayload env ident method nonce =
     ServerRequestPayload (gw_sha env) method nonce (gw_marshal env method (id_Username ident))"

definition grantPayload :: "'w gw_env \<Rightarrow> identity \<Rightarrow> bytes \<Rightarrow> ephemeral_entry \<Rightarrow> bytes" where
  "grantPayload env ident nonce e = TaskGrantPayload (gw_sha env) nonce (id_Username ident) ''PushBackup''
     (gw_authline env (ky_pub (ee_signer e))) (ee_grantExpiresAt e div second_ns)"

definition removalPayload :: "'w gw_env \<Rightarrow> identity \<Rightarrow> bytes \<Rightarrow> 'w gateway \<Rightarrow> bytes result" where
  "removalPayload env ident nonce g =
     (case gwDelegation env ident g of
        Inl e \<Rightarrow> Inl e
      | Inr None \<Rightarrow> Inl errNoDelegation
      | Inr (Some d) \<Rightarrow> Inr (DelegationRemovalPayload (gw_sha env) nonce (id_Username ident) (id_GatewayCN ident)
                            (wd_DelegationPubKey d)))"

definition syncChallengePayload ::
  "'w gw_env \<Rightarrow> identity \<Rightarrow> bytes \<Rightarrow> int \<Rightarrow> 'w gateway \<Rightarrow> 'w gateway \<times> bytes result" where
  "syncChallengePayload env ident nonce nonceExpiresAt g =
     (case gw_genkey env of
        Inl e \<Rightarrow> (g, Inl e)
      | Inr signer \<Rightarrow>
          (let grantExpiry = gw_now env + taskGrantTTL;
               entry = \<lparr>ee_signer = signer, ee_expiresAt = nonceExpiresAt, ee_grantExpiresAt = grantExpiry\<rparr>
           in (g\<lparr>gt_ephemeral := ek_put nonce signer nonceExpiresAt grantExpiry (gt_ephemeral g)\<rparr>,
               Inr (grantPayload env ident nonce entry))))"

definition payloadOr500 :: "'w gateway \<times> bytes result \<Rightarrow> 'w gateway \<times> (response + bytes)" where
  "payloadOr500 p = (fst p, case snd p of Inl _ \<Rightarrow> Inl writeInternal | Inr payload \<Rightarrow> Inr payload)"

definition challengePayload :: "'w gw_env \<Rightarrow> identity \<Rightarrow> string \<Rightarrow> auth_challenge \<Rightarrow> ('w, bytes) gw" where
  "challengePayload env ident method ch g =
     (if method = ''quota'' then payloadOr500 (g, requestPayload env ident ''GetQuotaUsage'' (ah_Nonce ch))
      else if method = ''restore'' then payloadOr500 (g, requestPayload env ident ''PullRestore'' (ah_Nonce ch))
      else if method = ''sync'' then payloadOr500 (syncChallengePayload env ident (ah_Nonce ch) (ah_ExpiresAt ch * second_ns) g)
      else if method = ''revoke_delegation'' then payloadOr500 (g, removalPayload env ident (ah_Nonce ch) g)
      else (g, Inl (writeError 400 ''invalid_method'')))"

definition handleChallenge :: "'w gw_env \<Rightarrow> 'w gw_deps \<Rightarrow> identity \<Rightarrow> http_request \<Rightarrow> ('w, response) gw" where
  "handleChallenge env deps ident r =
     bindG (decodeBody r) (\<lambda>body.
     bindG (rateUser env ident) (\<lambda>_.
     case gd_GetAuthChallenge deps of
       None \<Rightarrow> replyG (writeError 501 ''unimplemented'')
     | Some challenge \<Rightarrow>
         bindG (onDaemon (\<lambda>_. writeInternal) challenge) (\<lambda>ch.
         bindG (challengePayload env ident (jb_method body) ch) (\<lambda>payload.
         valueG (writeJSON 200 (ChallengeBody (ah_Nonce ch) payload (ah_ExpiresAt ch)
           (if jb_server body = '''' then ah_Server ch else jb_server body)))))))"

section \<open>Signed operations\<close>

record signed_request =
  sg_nonce :: bytes
  sg_signature :: bytes
  sg_payload :: bytes

definition verifyDelegated :: "'w gw_env \<Rightarrow> web_delegation option \<Rightarrow> bytes \<Rightarrow> bytes \<Rightarrow> bool" where
  "verifyDelegated env d payload sigBytes =
     (case activeDelegation env d of
        None \<Rightarrow> False
      | Some w \<Rightarrow>
          (case parseAuthorizedKey (gw_lib env) (wd_DelegationPubKey w) of
             None \<Rightarrow> False
           | Some pubKey \<Rightarrow>
               (case unmarshalSig (gw_lib env) sigBytes of
                  None \<Rightarrow> False
                | Some sig \<Rightarrow> verifyKey (gw_lib env) pubKey payload sig)))"

definition extractSigned ::
  "'w gw_env \<Rightarrow> identity \<Rightarrow> http_request \<Rightarrow> (bytes \<Rightarrow> 'w gateway \<Rightarrow> 'w gateway \<times> (bytes \<times> 'x) result) \<Rightarrow>
   ('w, signed_request \<times> 'x) gw" where
  "extractSigned env ident r buildPayload g =
     (case (ht_nonce r, ht_signature r) of
        (Some nonce, Some sigBytes) \<Rightarrow>
          if nonce = [] \<or> sigBytes = [] then (g, Inl writeDelegationRequired)
          else (case buildPayload nonce g of
             (g', Inl e) \<Rightarrow> (g', Inl (if e = errNoDelegation then writeDelegationRequired else writeInternal))
           | (g', Inr (payload, x)) \<Rightarrow>
               (case gwDelegation env ident g' of
                  Inl e \<Rightarrow> (g', Inl writeInternal)
                | Inr d \<Rightarrow>
                    if verifyDelegated env d payload sigBytes
                    then (g', Inr (\<lparr>sg_nonce = nonce, sg_signature = sigBytes, sg_payload = payload\<rparr>, x))
                    else (g', Inl writeDelegationRequired)))
      | _ \<Rightarrow> (g, Inl writeDelegationRequired))"

definition plainBuild :: "bytes result \<Rightarrow> 'w gateway \<Rightarrow> 'w gateway \<times> (bytes \<times> unit) result" where
  "plainBuild r g = (g, bindE r (\<lambda>p. Inr (p, ())))"

definition upstream :: "error \<Rightarrow> response" where
  "upstream e = writeError 502 ''upstream_unavailable''"

definition handleQuota :: "'w gw_env \<Rightarrow> 'w gw_deps \<Rightarrow> identity \<Rightarrow> http_request \<Rightarrow> ('w, response) gw" where
  "handleQuota env deps ident r =
     bindG (extractSigned env ident r (\<lambda>nonce. plainBuild (requestPayload env ident ''GetQuotaUsage'' nonce))) (\<lambda>(sreq, _).
     bindG (onDaemon upstream (gd_GetQuotaUsage deps (id_Username ident) (ht_query_server r) (sg_nonce sreq) (sg_signature sreq))) (\<lambda>usage.
     valueG (writeJSON 200 (QuotaBody usage))))"

definition handleRestore :: "'w gw_env \<Rightarrow> 'w gw_deps \<Rightarrow> identity \<Rightarrow> http_request \<Rightarrow> ('w, response) gw" where
  "handleRestore env deps ident r =
     bindG (decodeBody r) (\<lambda>body.
     bindG (extractSigned env ident r (\<lambda>nonce. plainBuild (requestPayload env ident ''PullRestore'' nonce))) (\<lambda>(sreq, _).
     bindG (rateUser env ident) (\<lambda>_.
     bindG (onDaemon upstream (gd_RequestRestore deps (id_Username ident) (id_UID ident) (jb_target_path body) (jb_server body)
              (sg_nonce sreq) (sg_signature sreq))) (\<lambda>taskID.
     valueG (writeJSON 202 (TaskBody taskID))))))"

definition buildGrant :: "'w gw_env \<Rightarrow> identity \<Rightarrow> bytes \<Rightarrow> 'w gateway \<Rightarrow> 'w gateway \<times> (bytes \<times> ephemeral_entry) result" where
  "buildGrant env ident nonce g =
     (case ek_take (gw_now env) nonce (gt_ephemeral g) of
        (ek, None) \<Rightarrow> (g\<lparr>gt_ephemeral := ek\<rparr>, Inl errNoDelegation)
      | (ek, Some entry) \<Rightarrow> (g\<lparr>gt_ephemeral := ek\<rparr>, Inr (grantPayload env ident nonce entry, entry)))"

definition handleTriggerSync :: "'w gw_env \<Rightarrow> 'w gw_deps \<Rightarrow> identity \<Rightarrow> http_request \<Rightarrow> ('w, response) gw" where
  "handleTriggerSync env deps ident r =
     bindG (decodeBody r) (\<lambda>body.
     bindG (extractSigned env ident r (buildGrant env ident)) (\<lambda>(sreq, entry).
     bindG (rateUser env ident) (\<lambda>_.
     bindG (onDaemon upstream (gd_RegisterTaskGrant deps (jb_server body)
       \<lparr>rg_Username = id_Username ident, rg_Method = ''PushBackup'', rg_EphemeralPubkey = gw_authline env (ky_pub (ee_signer entry)),
        rg_ExpiresAt = ee_grantExpiresAt entry div second_ns, rg_Nonce = sg_nonce sreq, rg_Signature = sg_signature sreq\<rparr>)) (\<lambda>_.
     bindG (onDaemon (\<lambda>_. writeInternal) (gd_RunSyncWithTaskKey deps (id_Username ident) (jb_rule body) (ee_signer entry))) (\<lambda>taskID.
     valueG (writeJSON 202 (TaskBody taskID)))))))"

definition removeAtServer :: "'w gw_env \<Rightarrow> 'w gw_deps \<Rightarrow> identity \<Rightarrow> signed_request \<Rightarrow> ('w, unit) gw" where
  "removeAtServer env deps ident sreq g =
     (case (gwDelegation env ident g, gd_RemoveDelegationKey deps) of
        (Inr (Some d), Some remove) \<Rightarrow>
          (g\<lparr>gt_daemon := fst (remove '''' \<lparr>dr_Username = id_Username ident, dr_GatewayCn = id_GatewayCN ident,
               dr_DelegationPubkey = wd_DelegationPubKey d, dr_ExpiresAt = 0, dr_Nonce = sg_nonce sreq,
               dr_Signature = sg_signature sreq\<rparr> (gt_daemon g))\<rparr>, Inr ())
      | _ \<Rightarrow> (g, Inr ()))"

definition handleDeleteDelegation :: "'w gw_env \<Rightarrow> 'w gw_deps \<Rightarrow> identity \<Rightarrow> http_request \<Rightarrow> ('w, response) gw" where
  "handleDeleteDelegation env deps ident r =
     bindG (extractSigned env ident r (\<lambda>nonce g. plainBuild (removalPayload env ident nonce g) g)) (\<lambda>(sreq, _).
     bindG (removeAtServer env deps ident sreq) (\<lambda>_.
     bindG (onDaemon (\<lambda>_. writeInternal) (onDeleg (RevokeWebDelegation (gw_db env) (av_sec (ve_agent (gw_svc env)))
              (id_Username ident) (id_GatewayCN ident)))) (\<lambda>_.
     valueG (writeJSON 204 NoBody))))"

section \<open>Routes and the server\<close>

datatype gw_op =
    OpListRules | OpAddRule | OpRemoveRule | OpEnableRule | OpDisableRule | OpChallenge | OpTriggerSync
  | OpSyncStatus | OpQuota | OpRestore | OpGetDelegation | OpDeleteDelegation

datatype segment = Lit string | Var string

definition routes :: "(string \<times> segment list \<times> gw_op) list" where
  "routes = (let user = [Lit ''v1'', Lit ''users'', Var ''user'']; rule = user @ [Lit ''rules'', Var ''name''] in
     [(''GET'', user @ [Lit ''rules''], OpListRules),
      (''POST'', user @ [Lit ''rules''], OpAddRule),
      (''DELETE'', rule, OpRemoveRule),
      (''POST'', rule @ [Lit ''enable''], OpEnableRule),
      (''POST'', rule @ [Lit ''disable''], OpDisableRule),
      (''POST'', user @ [Lit ''challenges''], OpChallenge),
      (''POST'', user @ [Lit ''syncs''], OpTriggerSync),
      (''GET'', user @ [Lit ''syncs'', Var ''task''], OpSyncStatus),
      (''GET'', user @ [Lit ''quota''], OpQuota),
      (''POST'', user @ [Lit ''restores''], OpRestore),
      (''GET'', user @ [Lit ''delegation''], OpGetDelegation),
      (''DELETE'', user @ [Lit ''delegation''], OpDeleteDelegation)])"

fun match_segments :: "segment list \<Rightarrow> string list \<Rightarrow> (string \<times> string) list option" where
  "match_segments [] [] = Some []"
| "match_segments (Lit l # ss) (p # ps) = (if l = p then match_segments ss ps else None)"
| "match_segments (Var v # ss) (p # ps) = (if p = '''' then None else map_option ((#) (v, p)) (match_segments ss ps))"
| "match_segments _ _ = None"

definition handle ::
  "'w gw_env \<Rightarrow> 'w gw_deps \<Rightarrow> 'w poll list \<Rightarrow> gw_op \<Rightarrow> identity \<Rightarrow> http_request \<Rightarrow> ('w, response) gw" where
  "handle env deps polls op ident r =
     (case op of
        OpListRules \<Rightarrow> handleListRules env ident
      | OpAddRule \<Rightarrow> handleAddRule env ident r
      | OpRemoveRule \<Rightarrow> handleRemoveRule env ident r
      | OpEnableRule \<Rightarrow> handleSetRuleEnabled True env ident r
      | OpDisableRule \<Rightarrow> handleSetRuleEnabled False env ident r
      | OpChallenge \<Rightarrow> handleChallenge env deps ident r
      | OpTriggerSync \<Rightarrow> handleTriggerSync env deps ident r
      | OpSyncStatus \<Rightarrow> handleSyncStatus deps ident polls r
      | OpQuota \<Rightarrow> handleQuota env deps ident r
      | OpRestore \<Rightarrow> handleRestore env deps ident r
      | OpGetDelegation \<Rightarrow> handleGetDelegation env ident
      | OpDeleteDelegation \<Rightarrow> handleDeleteDelegation env deps ident r)"

text \<open>
  The router sets the path values of the request it hands to a handler. No two of the routes match
  the same request, so the first one is the one the library takes.
\<close>

definition route :: "http_request \<Rightarrow> (gw_op \<times> http_request) option" where
  "route r =
     (case List.find (\<lambda>(m, pat, op). m = ht_method r \<and> match_segments pat (ht_path r) \<noteq> None) routes of
        None \<Rightarrow> None
      | Some (m, pat, op) \<Rightarrow> Some (op, r\<lparr>ht_values := the (match_segments pat (ht_path r))\<rparr>))"

definition mux ::
  "'w gw_env \<Rightarrow> 'w gw_deps \<Rightarrow> 'w poll list \<Rightarrow> identity \<Rightarrow> http_request \<Rightarrow> 'w gateway \<Rightarrow> 'w gateway \<times> response" where
  "mux env deps polls ident r g =
     (case route r of
        None \<Rightarrow> (g, writeError 404 ''not found'')
      | Some (op, r') \<Rightarrow> written (handle env deps polls op ident r') g)"

definition Handler ::
  "'w gw_env \<Rightarrow> 'w gw_deps \<Rightarrow> https_config \<Rightarrow> 'w poll list \<Rightarrow> http_request \<Rightarrow> 'w gateway \<Rightarrow> 'w gateway \<times> response" where
  "Handler env deps api polls = gate env api (mux env deps polls)"

definition NewServer :: "agent_config \<Rightarrow> 'w daemon \<Rightarrow> 'w gateway result" where
  "NewServer cfg d =
     (if ac_HTTPSAPI cfg = None then Inl (Errorf ''https_api config is required'')
      else Inr \<lparr>gt_daemon = d, gt_gatewayLimiter = newRateLimiter 100 200,
                gt_userLimiter = newRateLimiter (10 / 60) 10, gt_ephemeral = []\<rparr>)"

text \<open>The functions the daemon gives to the API: no groups, and uid 0 where none is passed on.\<close>

definition main_RunSyncWithTaskKey :: "'w svc_env \<Rightarrow> string \<Rightarrow> string \<Rightarrow> task_key \<Rightarrow> ('w, string) svc" where
  "main_RunSyncWithTaskKey env username ruleName taskKey d =
     (case RunSyncWithTaskKey (agentEnv env d) username ruleName (Some taskKey) 0 [] (dm_agent d) of
        (s, i, Inl e) \<Rightarrow> (d\<lparr>dm_agent := s\<rparr>, Inl e)
      | (s, i, Inr j) \<Rightarrow> (d\<lparr>dm_agent := s, dm_started := dm_started d @ [StartedSync j]\<rparr>, Inr i))"

definition main_deps :: "'w svc_env \<Rightarrow> 'w gw_deps" where
  "main_deps env = \<lparr>
     gd_GetAuthChallenge = Some (main_GetAuthChallenge env),
     gd_GetStatus = Some (main_GetStatus env),
     gd_GetQuotaUsage = (\<lambda>username server nonce sig. main_GetQuotaUsage env username server 0 [] nonce sig),
     gd_RequestRestore = (\<lambda>username uid target server nonce sig. main_RequestRestore env username uid [] target server nonce sig),
     gd_RunSyncWithTaskKey = main_RunSyncWithTaskKey env,
     gd_RegisterTaskGrant = (\<lambda>server req. atServer server (\<lambda>client. rm_RegisterTaskGrant client req) env),
     gd_RemoveDelegationKey = Some (\<lambda>server req.
       atServer server (\<lambda>client. rm_RemoveDelegationKey client (CallerMeta 0 []) req) env)\<rparr>"

end
