(* ===== verification/Vault_GatewaySafe.thy ===== *)
theory Vault_GatewaySafe
  imports Vault_Gateway
begin

text \<open>
  What the HTTPS API guarantees: who gets past the gate, that a task key signs one sync, that the
  payload of a challenge is the one that is checked afterwards, how many requests the rate limiter
  lets through, and that a gateway reaches nothing of other users and no configuration; then the agent
  with its API over time.
\<close>

section \<open>The gate\<close>

text \<open>
  A handler runs only for an allowlisted certificate name and an existing user of at least the
  configured uid who has a live delegation for that name.
\<close>

lemma gate_passed:
  assumes "gate env api next r g = (g', resp)" "rs_status resp \<notin> {401, 403, 429, 500}"
  obtains ident w rl where "id_GatewayCN ident = peerCN r" "id_Username ident = PathValue r ''user''"
    "id_GatewayCN ident \<in> set (hc_GatewayCNs api)" "ValidateUsername (id_Username ident) = None"
    "\<exists>txt. gw_account env (id_Username ident) = Some (txt, id_HomeDir ident) \<and> parse_uint 32 txt = Inr (id_UID ident)"
    "hc_MinUID api mod 2 ^ 64 \<le> int (id_UID ident)"
    "row_find wd_key (id_Username ident, id_GatewayCN ident) (dm_deleg (gt_daemon g)) = Some w"
    "wd_RevokedAt w = None" "gw_now env \<le> wd_ExpiresAt w * second_ns"
    "rl_allow (gw_now env) (id_GatewayCN ident) (gt_gatewayLimiter g) = (rl, True)"
    "next ident r (g\<lparr>gt_gatewayLimiter := rl\<rparr>) = (g', resp)"
proof -
  let ?cn = "peerCN r" and ?u = "PathValue r ''user''"
  note st = writeUnauthorized_def writeDelegationRequired_def writeInternal_def writeError_def
  have cn: "gatewayCNAllowed (hc_GatewayCNs api) ?cn"
    using assms by (auto simp: gate_def Let_def st split: if_splits)
  obtain uid home where u: "resolveUser env api ?u = Some (uid, home)"
    using assms by (cases "resolveUser env api ?u") (auto simp: gate_def Let_def st split: if_splits)
  obtain d where d: "GetWebDelegation (gw_db env) ?u ?cn (dm_deleg (gt_daemon g)) = Inr d"
    using assms cn u by (cases "GetWebDelegation (gw_db env) ?u ?cn (dm_deleg (gt_daemon g))") (auto simp: gate_def Let_def st)
  obtain w where w: "activeDelegation env d = Some w"
    using assms cn u d by (cases "activeDelegation env d") (auto simp: gate_def Let_def st)
  obtain rl ok where rl: "rl_allow (gw_now env) ?cn (gt_gatewayLimiter g) = (rl, ok)" by (rule prod.exhaust)
  have ok: "ok" using assms cn u d w rl by (cases ok) (auto simp: gate_def Let_def st)
  show thesis
  proof (rule that [of "\<lparr>id_GatewayCN = ?cn, id_Username = ?u, id_UID = uid, id_HomeDir = home\<rparr>" w rl])
    show "next \<lparr>id_GatewayCN = ?cn, id_Username = ?u, id_UID = uid, id_HomeDir = home\<rparr> r (g\<lparr>gt_gatewayLimiter := rl\<rparr>) = (g', resp)"
      using assms(1) cn u d w rl ok by (simp add: gate_def Let_def)
  qed (use cn u d w rl ok in \<open>auto simp: gatewayCNAllowed_def list_ex_iff resolveUser_def activeDelegation_def
      GetWebDelegation_def split: if_splits option.splits sum.splits\<close>)
qed

text \<open>
  As the chain is put together no request passes it: the gate asks for the path value before the
  router has set it, so the user it sees is empty.
\<close>

lemma gateway_refuses:
  assumes "ht_values r = []"
  shows "Handler env deps api polls r g \<in> {(g, writeUnauthorized), (g, writeDelegationRequired)}"
proof -
  have "resolveUser env api (PathValue r ''user'') = None"
    using assms by (simp add: resolveUser_def PathValue_def ValidateUsername_def usernameRe_def)
  then show ?thesis by (simp add: Handler_def gate_def Let_def)
qed

section \<open>The rate limiter\<close>

definition rl_bucket :: "int \<Rightarrow> string \<Rightarrow> rate_limiter \<Rightarrow> bucket" where
  "rl_bucket now key rl =
     (case map_of (rl_buckets rl) key of None \<Rightarrow> \<lparr>bk_tokens = rl_burst rl, bk_last = now\<rparr> | Some b \<Rightarrow> b)"

lemma rl_allow_bucket:
  assumes "rl_allow now key rl = (rl', ok)"
  shows "rl_rate rl' = rl_rate rl" "rl_burst rl' = rl_burst rl"
    "k \<noteq> key \<Longrightarrow> map_of (rl_buckets rl') k = map_of (rl_buckets rl) k"
    "map_of (rl_buckets rl') key =
       Some \<lparr>bk_tokens = refill rl now (rl_bucket now key rl) - (if ok then 1 else 0), bk_last = now\<rparr>"
    "ok \<longleftrightarrow> 1 \<le> refill rl now (rl_bucket now key rl)"
  using assms by (auto simp: rl_allow_def rl_bucket_def Let_def update_conv' split: if_splits)

text \<open>The answers for one key in a sequence of requests.\<close>

fun rl_granted :: "string \<Rightarrow> (int \<times> string) list \<Rightarrow> rate_limiter \<Rightarrow> nat" where
  "rl_granted k [] rl = 0"
| "rl_granted k ((now, key) # rs) rl =
     (case rl_allow now key rl of (rl', ok) \<Rightarrow> (if ok \<and> key = k then 1 else 0) + rl_granted k rs rl')"

lemma rl_granted_bound:
  assumes "0 \<le> rl_rate rl \<and> 0 \<le> rl_burst rl" "map_of (rl_buckets rl) k = Some b" "0 \<le> bk_tokens b"
    and "sorted (bk_last b # map fst rs @ [end'])"
  shows "of_nat (rl_granted k rs rl) \<le> bk_tokens b + of_int (end' - bk_last b) / 10 ^ 9 * rl_rate rl"
  using assms
proof (induction rs arbitrary: rl b)
  case Nil
  then show ?case by simp
next
  case (Cons r rs)
  obtain now key where r: "r = (now, key)" by (rule prod.exhaust)
  obtain rl' ok where a: "rl_allow now key rl = (rl', ok)" by (rule prod.exhaust)
  note f = rl_allow_bucket [OF a]
  show ?case
  proof (cases "key = k")
    case False
    then have "map_of (rl_buckets rl') k = Some b" using f(3) Cons.prems(2) by metis
    moreover have "sorted (bk_last b # map fst rs @ [end'])" using Cons.prems(4) r by simp
    ultimately show ?thesis
      using Cons.IH [of rl' b] Cons.prems(1,3) f(1,2) False r a by simp
  next
    case True
    let ?t = "refill rl now b"
    have b: "rl_bucket now key rl = b" using Cons.prems(2) True by (simp add: rl_bucket_def)
    have le: "bk_last b \<le> now" "sorted (now # map fst rs @ [end'])" using Cons.prems(4) r by auto
    have up: "?t \<le> bk_tokens b + of_int (now - bk_last b) / 10 ^ 9 * rl_rate rl" by (simp add: refill_def)
    have "0 \<le> ?t" using Cons.prems(1-3) le(1) by (simp add: refill_def)
    then have pos: "0 \<le> ?t - (if ok then 1 else 0)" using f(5) b by simp
    have "of_nat (rl_granted k rs rl') \<le> ?t - (if ok then 1 else 0) + of_int (end' - now) / 10 ^ 9 * rl_rate rl"
      using Cons.IH [of rl' "\<lparr>bk_tokens = ?t - (if ok then 1 else 0), bk_last = now\<rparr>"] f(1,2,4) b pos le(2) Cons.prems(1) True by simp
    then have "of_nat (rl_granted k (r # rs) rl) \<le> ?t + of_int (end' - now) / 10 ^ 9 * rl_rate rl"
      using r a True by (cases ok) simp_all
    also have "\<dots> \<le> bk_tokens b + of_int (now - bk_last b) / 10 ^ 9 * rl_rate rl + of_int (end' - now) / 10 ^ 9 * rl_rate rl"
      using up by simp
    also have "\<dots> = bk_tokens b + of_int (end' - bk_last b) / 10 ^ 9 * rl_rate rl" by (simp add: field_simps)
    finally show ?thesis .
  qed
qed

text \<open>
  C28: From any moment on, the requests of one key that a rate limiter grants are at most its burst and what its rate adds in
  the time that passes, whatever requests of other keys come in between.
\<close>

lemma rate_limit:
  assumes "0 \<le> rl_rate rl" "0 \<le> rl_burst rl" "sorted (start # map fst rs @ [end'])"
    and "\<forall>b. map_of (rl_buckets rl) k = Some b \<longrightarrow> 0 \<le> bk_tokens b \<and> bk_last b \<le> start"
  shows "of_nat (rl_granted k rs rl) \<le> rl_burst rl + of_int (end' - start) / 10 ^ 9 * rl_rate rl"
  using assms
proof (induction rs arbitrary: rl start)
  case Nil
  then show ?case by simp
next
  case (Cons r rs)
  obtain now key where r: "r = (now, key)" by (rule prod.exhaust)
  obtain rl' ok where a: "rl_allow now key rl = (rl', ok)" by (rule prod.exhaust)
  note f = rl_allow_bucket [OF a]
  have le: "start \<le> now" "sorted (now # map fst rs @ [end'])" using Cons.prems(3) r by auto
  have more: "of_int (end' - now) / 10 ^ 9 * rl_rate rl \<le> of_int (end' - start) / 10 ^ 9 * rl_rate rl"
    using le(1) Cons.prems(1) by (intro mult_right_mono divide_right_mono) simp_all
  show ?case
  proof (cases "key = k")
    case False
    have "\<forall>b. map_of (rl_buckets rl') k = Some b \<longrightarrow> 0 \<le> bk_tokens b \<and> bk_last b \<le> now"
      using f(3) [of k] False Cons.prems(4) le(1) by fastforce
    from Cons.IH [OF _ _ le(2) this] show ?thesis using Cons.prems(1,2) f(1,2) False r a more by simp
  next
    case True
    let ?b = "rl_bucket now key rl" and ?t = "refill rl now (rl_bucket now key rl)"
    have b: "0 \<le> bk_tokens ?b" "bk_last ?b \<le> now"
      using Cons.prems(2,4) le(1) True by (force simp: rl_bucket_def split: option.split)+
    have "0 \<le> ?t" using b Cons.prems(1,2) by (simp add: refill_def)
    then have "of_nat (rl_granted k rs rl') \<le> ?t - (if ok then 1 else 0) + of_int (end' - now) / 10 ^ 9 * rl_rate rl"
      using rl_granted_bound [of rl' k "\<lparr>bk_tokens = ?t - (if ok then 1 else 0), bk_last = now\<rparr>" rs end']
        f Cons.prems(1,2) le(2) True by simp
    moreover have "?t \<le> rl_burst rl" by (simp add: refill_def)
    moreover have "of_nat (rl_granted k (r # rs) rl) = (if ok then 1 else 0) + (of_nat (rl_granted k rs rl') :: rat)"
      using r a True by simp
    ultimately show ?thesis using more by linarith
  qed
qed

section \<open>Task keys\<close>

lemma ek_take_once: "ek_take now nonce ek = (ek', x) \<Longrightarrow> ek_take now' nonce ek' = (ek', None)"
  by (auto simp: ek_take_def delete_conv' split: option.splits if_splits)

lemma ek_take_put:
  "ek_take now nonce (ek_put nonce signer nonceExpiry grantExpiry ek) =
     (AList.delete (hex_encode nonce) (ek_put nonce signer nonceExpiry grantExpiry ek),
      if now > nonceExpiry then None
      else Some \<lparr>ee_signer = signer, ee_expiresAt = nonceExpiry, ee_grantExpiresAt = grantExpiry\<rparr>)"
  by (simp add: ek_take_def ek_put_def update_conv')

lemma bindG_eq_Inr: "bindG m f g = (g', Inr y) \<longleftrightarrow> (\<exists>h x. m g = (h, Inr x) \<and> f x h = (g', Inr y))"
  by (auto simp: bindG_def split: prod.splits sum.splits)

lemma gw_eq_Inr [result_simps]:
  "valueG x g = (g', Inr y) \<longleftrightarrow> g' = g \<and> y = x"
  "replyG r g = (g', Inr y) \<longleftrightarrow> False"
  "decodeBody req g = (g', Inr b) \<longleftrightarrow> g' = g \<and> ht_body req = Some b"
  by (auto simp: valueG_def replyG_def decodeBody_def split: option.split)

text \<open>Once a sync request has been answered, its nonce signs nothing more.\<close>

lemma no_entry_refused:
  assumes "map_of (gt_ephemeral g) (hex_encode nonce) = None" "ht_nonce r = Some nonce" "ht_body r \<noteq> None"
  shows "handleTriggerSync env deps ident r g = (g, Inl writeDelegationRequired)"
  using assms
  by (auto simp: handleTriggerSync_def bindG_def decodeBody_def valueG_def extractSigned_def buildGrant_def ek_take_def
      errNoDelegation_def split: option.split)

lemma onDaemon_ephemeral: "gt_ephemeral (fst (onDaemon h m g)) = gt_ephemeral g"
  by (auto simp: onDaemon_def split: prod.split sum.split)

section \<open>What the handlers keep\<close>

definition keepsG :: "('w gateway \<Rightarrow> bool) \<Rightarrow> ('w, 'a) gw \<Rightarrow> bool" where
  "keepsG P m \<longleftrightarrow> (\<forall>g. P g \<longrightarrow> P (fst (m g)))"

lemma keepsG_bind: "keepsG P m \<Longrightarrow> (\<And>x. keepsG P (f x)) \<Longrightarrow> keepsG P (bindG m f)"
  by (simp add: keepsG_def bindG_def case_prod_unfold split: sum.split)

lemma keepsG_value: "keepsG P (valueG x)" "keepsG P (replyG r)" "keepsG P (decodeBody req)"
  by (auto simp: keepsG_def valueG_def replyG_def decodeBody_def split: option.split)

lemma keepsG_read: "(\<And>g. fst (m g) = g) \<Longrightarrow> keepsG P m"
  by (simp add: keepsG_def)

lemma keepsG_onDaemon: "keeps P m \<Longrightarrow> keepsG (\<lambda>g. P (gt_daemon g)) (onDaemon h m)"
  by (auto simp: keepsG_def keeps_def onDaemon_def split: prod.split sum.split)

lemma keepsG_rate: "keepsG (\<lambda>g. P (gt_daemon g)) (rateUser env ident)"
  by (auto simp: keepsG_def rateUser_def split: prod.split)

lemmas keepsG_intros = keepsG_bind keepsG_value keepsG_onDaemon keepsG_rate

lemma keepsG_extract:
  assumes "\<And>nonce g. gt_daemon (fst (build nonce g)) = gt_daemon g"
  shows "keepsG (\<lambda>g. P (gt_daemon g)) (extractSigned env ident r build)"
  using assms
  by (auto simp: keepsG_def extractSigned_def split: option.split prod.split sum.split) (metis fst_conv)+

lemma build_daemon [simp]:
  "gt_daemon (fst (plainBuild p g)) = gt_daemon g"
  "gt_daemon (fst (buildGrant env ident nonce g)) = gt_daemon g"
  "gt_daemon (fst (syncChallengePayload env ident nonce t g)) = gt_daemon g"
  by (simp_all add: plainBuild_def buildGrant_def syncChallengePayload_def Let_def split: prod.split option.split sum.split)

lemma challengePayload_daemon [simp]: "gt_daemon (fst (challengePayload env ident m ch g)) = gt_daemon g"
  by (simp add: challengePayload_def payloadOr500_def)

lemma keepsG_challenge: "keepsG (\<lambda>g. P (gt_daemon g)) (challengePayload env ident m ch)"
  by (simp add: keepsG_def)

lemma keepsG_removeAtServer:
  assumes "agent_blind P"
  shows "keepsG (\<lambda>g. P (gt_daemon g)) (removeAtServer env (main_deps (gw_svc env)) ident sreq)"
proof -
  have "P d \<Longrightarrow> P (fst (atServer server call env' d))" for d server env' and call :: "'a remote_server \<Rightarrow> ('a, unit) step"
    using keeps_atServer [OF assms, of server call env'] by (simp add: keeps_def)
  then show ?thesis
    by (auto simp: keepsG_def removeAtServer_def main_deps_def split: option.split sum.split)
qed

lemma main_deps_fields:
  "gd_GetAuthChallenge (main_deps e) = Some (main_GetAuthChallenge e)"
  "gd_GetQuotaUsage (main_deps e) u srv n s = main_GetQuotaUsage e u srv 0 [] n s"
  "gd_RequestRestore (main_deps e) u uid p srv n s = main_RequestRestore e u uid [] p srv n s"
  "gd_RunSyncWithTaskKey (main_deps e) = main_RunSyncWithTaskKey e"
  "gd_RegisterTaskGrant (main_deps e) srv req = atServer srv (\<lambda>client. rm_RegisterTaskGrant client req) e"
  by (simp_all add: main_deps_def)

lemma keeps_main_task_key:
  assumes "agent_blind P"
  shows "keeps P (main_RunSyncWithTaskKey env u rule k)"
  by (rule keepsI) (auto simp: main_RunSyncWithTaskKey_def assms split: prod.split sum.split)

lemma user_change_add:
  "Rule_Validate r = None \<Longrightarrow> ValidateUserPaths (Paths r) home = None \<Longrightarrow> user_change (Inr home) (add_rule r)"
  by (auto simp: user_change_def)

text \<open>One rule for all operations of the API, like that of the service.\<close>

lemma handle_keeps:
  assumes b: "agent_blind P"
    and rules: "\<And>change. user_change (Inr (id_HomeDir ident)) change \<Longrightarrow> keeps P (gwRules env (id_Username ident) change)"
    and rv: "\<And>fl now. keeps P (onDeleg (RevokeWebDelegation fl now (id_Username ident) (id_GatewayCN ident)))"
  shows "keepsG (\<lambda>g. P (gt_daemon g)) (handle env (main_deps (gw_svc env)) polls op ident r)"
proof -
  note calls = keepsG_intros keepsG_extract keepsG_challenge keepsG_removeAtServer keeps_main_calls keeps_main
    keeps_main_task_key keeps_atServer b
  have ch: "keepsG (\<lambda>g. P (gt_daemon g)) (handleChallenge env (main_deps (gw_svc env)) ident r)"
    "keepsG (\<lambda>g. P (gt_daemon g)) (handleTriggerSync env (main_deps (gw_svc env)) ident r)"
    "keepsG (\<lambda>g. P (gt_daemon g)) (handleQuota env (main_deps (gw_svc env)) ident r)"
    "keepsG (\<lambda>g. P (gt_daemon g)) (handleRestore env (main_deps (gw_svc env)) ident r)"
    "keepsG (\<lambda>g. P (gt_daemon g)) (handleDeleteDelegation env (main_deps (gw_svc env)) ident r)"
    unfolding handleChallenge_def handleTriggerSync_def handleQuota_def handleRestore_def handleDeleteDelegation_def
      main_deps_fields
    by (auto intro!: calls rv split: prod.split)
  have rd: "keepsG (\<lambda>g. P (gt_daemon g)) (handleListRules env ident)"
    "keepsG (\<lambda>g. P (gt_daemon g)) (handleSyncStatus (main_deps (gw_svc env)) ident polls r)"
    "keepsG (\<lambda>g. P (gt_daemon g)) (handleGetDelegation env ident)"
    by (rule keepsG_read, auto simp: handleListRules_def handleSyncStatus_def handleGetDelegation_def
        split: sum.split option.split)+
  have add: "keepsG (\<lambda>g. P (gt_daemon g)) (handleAddRule env ident r)"
    unfolding handleAddRule_def Let_def
    by (rule keepsG_bind [OF keepsG_value(3)]) (auto intro!: keepsG_intros rules user_change_add)
  have ch': "keepsG (\<lambda>g. P (gt_daemon g)) (handleRemoveRule env ident r)"
    "keepsG (\<lambda>g. P (gt_daemon g)) (handleSetRuleEnabled e env ident r)" for e
    unfolding handleRemoveRule_def handleSetRuleEnabled_def
    by (intro keepsG_intros rules; auto simp: user_change_def)+
  show ?thesis by (cases op) (simp_all add: handle_def ch rd add ch')
qed

section \<open>A gateway reaches one user\<close>

definition gw_own :: "'w svc_env \<Rightarrow> string \<Rightarrow> 'w daemon \<Rightarrow> 'w daemon \<Rightarrow> bool" where
  "gw_own env u d d' \<longleftrightarrow>
     (\<forall>p. p \<noteq> rules_path (ve_rulesDir env) u \<longrightarrow> dm_rules d' p = dm_rules d p) \<and>
     (\<forall>v. v \<noteq> u \<longrightarrow> deleg_of v d' = deleg_of v d) \<and> dm_cfg d' = dm_cfg d \<and> dm_files d' = dm_files d"

lemma gw_own_rules: "keeps (gw_own (gw_svc env) u d) (gwRules env u change)"
proof (rule keepsI)
  fix s assume s: "gw_own (gw_svc env) u d s"
  let ?e = "gw_svc env"
  obtain fs r where f: "update_rules (ve_enc ?e) (ve_dec ?e) (ve_rulefl ?e) (ve_rulepart ?e) (ve_rulesDir ?e) u change (dm_rules s) = (fs, r)"
    by (rule prod.exhaust)
  then have "p \<noteq> rules_path (ve_rulesDir ?e) u \<Longrightarrow> fs p = dm_rules s p" for p
    using update_rules_state [of p "ve_rulesDir ?e" u "ve_enc ?e" "ve_dec ?e" "ve_rulefl ?e" "ve_rulepart ?e" change "dm_rules s"]
    by simp
  then show "gw_own ?e u d (fst (gwRules env u change s))"
    using s by (auto simp: gwRules_def Let_def onRules_def f gw_own_def deleg_of_def)
qed

lemma gw_own_revoke: "keeps (gw_own env u d) (onDeleg (RevokeWebDelegation fl now u cn))"
proof (rule keepsI)
  fix s assume "gw_own env u d s"
  then show "gw_own env u d (fst (onDeleg (RevokeWebDelegation fl now u cn) s))"
    using Revoke_others [of fl now u cn "dm_deleg s"]
    by (cases "RevokeWebDelegation fl now u cn (dm_deleg s)") (auto simp: onDeleg_def gw_own_def deleg_of_def)
qed

text \<open>
  C15: A gateway that was admitted for a user can change, through any endpoint, no rule file and no web delegation of another
  user, and neither the configuration of the agent nor its file.
\<close>

lemma handle_own:
  "gw_own (gw_svc env) (id_Username ident) (gt_daemon g) (gt_daemon (fst (handle env (main_deps (gw_svc env)) polls op ident r g)))"
proof -
  let ?P = "gw_own (gw_svc env) (id_Username ident) (gt_daemon g)"
  have "agent_blind ?P" by (simp add: agent_blind_def gw_own_def deleg_of_def)
  from handle_keeps [OF this gw_own_rules gw_own_revoke] have "keepsG (\<lambda>g. ?P (gt_daemon g)) (handle env (main_deps (gw_svc env)) polls op ident r)" .
  moreover have "?P (gt_daemon g)" by (simp add: gw_own_def)
  ultimately show ?thesis by (simp add: keepsG_def)
qed

text \<open>The user rules a gateway writes are as safe as those of the service.\<close>

lemma handle_rules_inv:
  assumes h: "rules_host dir enc dec homes (gw_svc env)" "\<not> ve_rulefl (gw_svc env) EncodeRules" and c: "codec_ok enc dec" and a: "is_abs dir"
    and i: "CHR ''/'' \<notin> set (id_Username ident)" "homes (id_Username ident) = Inr (id_HomeDir ident)"
    and inv: "rules_inv dir dec homes T (gt_daemon g)"
  shows "rules_inv dir dec homes T (gt_daemon (fst (handle env (main_deps (gw_svc env)) polls op ident r g)))"
proof -
  have "keeps (rules_inv dir dec homes T) (gwRules env (id_Username ident) change)"
    if "user_change (Inr (id_HomeDir ident)) change" for change
    using onRules_safe [OF h c i(1) a, of change T] that i(2) h(1) by (simp add: gwRules_def rules_host_def Let_def)
  moreover have "keeps (rules_inv dir dec homes T) (onDeleg f)" for f
    by (rule keepsI) (simp add: onDeleg_def rules_inv_def split: sum.split)
  ultimately have "keepsG (\<lambda>g. rules_inv dir dec homes T (gt_daemon g)) (handle env (main_deps (gw_svc env)) polls op ident r)"
    by (intro handle_keeps blind_rules_inv)
  then show ?thesis using inv by (simp add: keepsG_def)
qed

section \<open>The ceremony of a sync\<close>

text \<open>
  The payload of a sync challenge is the statement the server checks when it registers the task key,
  and the signed request that follows rebuilds the same bytes.
\<close>

lemma sync_challenge:
  assumes "handleChallenge env deps ident r g = (g', Inr resp)" "rs_body resp = ChallengeBody nonce payload expiresAt server"
    and "ht_body r = Some body" "jb_method body = ''sync''"
  shows "\<exists>signer. gw_genkey env = Inr signer \<and>
    (let entry = \<lparr>ee_signer = signer, ee_expiresAt = expiresAt * second_ns, ee_grantExpiresAt = gw_now env + taskGrantTTL\<rparr>
     in payload = grantPayload env ident nonce entry \<and> map_of (gt_ephemeral g') (hex_encode nonce) = Some entry)"
proof -
  from assms(1,3) obtain g1 where c: "(case gd_GetAuthChallenge deps of
       None \<Rightarrow> replyG (writeError 501 ''unimplemented'')
     | Some challenge \<Rightarrow>
         bindG (onDaemon (\<lambda>_. writeInternal) challenge) (\<lambda>ch.
         bindG (challengePayload env ident (jb_method body) ch) (\<lambda>payload.
         valueG (writeJSON 200 (ChallengeBody (ah_Nonce ch) payload (ah_ExpiresAt ch)
           (if jb_server body = '''' then ah_Server ch else jb_server body)))))) g1 = (g', Inr resp)"
    unfolding handleChallenge_def bindG_eq_Inr [of "decodeBody r"] bindG_eq_Inr [of "rateUser env ident"] gw_eq_Inr by auto
  then obtain challenge where "bindG (onDaemon (\<lambda>_. writeInternal) challenge) (\<lambda>ch.
         bindG (challengePayload env ident (jb_method body) ch) (\<lambda>payload.
         valueG (writeJSON 200 (ChallengeBody (ah_Nonce ch) payload (ah_ExpiresAt ch)
           (if jb_server body = '''' then ah_Server ch else jb_server body))))) g1 = (g', Inr resp)"
    by (cases "gd_GetAuthChallenge deps") (auto simp: gw_eq_Inr)
  then obtain g2 ch p where e: "challengePayload env ident ''sync'' ch g2 = (g', Inr p)"
    "resp = writeJSON 200 (ChallengeBody (ah_Nonce ch) p (ah_ExpiresAt ch) (if jb_server body = '''' then ah_Server ch else jb_server body))"
    unfolding bindG_eq_Inr gw_eq_Inr assms(4) by blast
  then have "ah_Nonce ch = nonce" "p = payload" "ah_ExpiresAt ch = expiresAt" using assms(2) by (auto simp: writeJSON_def)
  then show ?thesis
    using e(1)
    by (cases "gw_genkey env") (auto simp: challengePayload_def payloadOr500_def syncChallengePayload_def Let_def ek_put_def update_conv')
qed

text \<open>
  C22: The sync challenge round-trips: when the gateway returns a signature of the payload a challenge gave it, in time and
  with the task key still held, the agent rebuilds the same payload, accepts the signature and uses the task key and the
  grant expiry of the challenge.
\<close>

lemma sync_ceremony:
  assumes ch: "handleChallenge env deps ident r g = (g', Inr resp)" "rs_body resp = ChallengeBody nonce payload expiresAt server"
    "ht_body r = Some body" "jb_method body = ''sync''"
    and later: "gw_sha env' = gw_sha env" "gw_authline env' = gw_authline env" "gw_now env' \<le> expiresAt * second_ns"
    and kept: "map_of (gt_ephemeral h) (hex_encode nonce) = map_of (gt_ephemeral g') (hex_encode nonce)"
    and req: "ht_nonce r' = Some nonce" "nonce \<noteq> []" "ht_signature r' = Some sig" "sig \<noteq> []"
    and sig: "gwDelegation env' ident h = Inr d" "verifyDelegated env' d payload sig"
  shows "\<exists>entry h'. extractSigned env' ident r' (buildGrant env' ident) h =
      (h', Inr (\<lparr>sg_nonce = nonce, sg_signature = sig, sg_payload = payload\<rparr>, entry)) \<and>
    ee_grantExpiresAt entry = gw_now env + taskGrantTTL \<and>
    payload = TaskGrantPayload (gw_sha env) nonce (id_Username ident) ''PushBackup''
      (gw_authline env (ky_pub (ee_signer entry))) (ee_grantExpiresAt entry div second_ns)"
proof -
  from sync_challenge [OF ch] obtain entry where e: "ee_expiresAt entry = expiresAt * second_ns"
    "ee_grantExpiresAt entry = gw_now env + taskGrantTTL" "payload = grantPayload env ident nonce entry"
    "map_of (gt_ephemeral h) (hex_encode nonce) = Some entry"
    unfolding kept Let_def by fastforce
  let ?h = "h\<lparr>gt_ephemeral := AList.delete (hex_encode nonce) (gt_ephemeral h)\<rparr>"
  have b: "buildGrant env' ident nonce h = (?h, Inr (payload, entry))"
    using e later by (simp add: buildGrant_def ek_take_def grantPayload_def)
  have "gwDelegation env' ident ?h = Inr d" using sig(1) by (simp add: gwDelegation_def)
  then have "extractSigned env' ident r' (buildGrant env' ident) h =
      (?h, Inr (\<lparr>sg_nonce = nonce, sg_signature = sig, sg_payload = payload\<rparr>, entry))"
    using req b sig(2) by (simp add: extractSigned_def)
  then show ?thesis using e(2,3) by (auto simp: grantPayload_def)
qed

section \<open>Deleting a delegation\<close>

lemma atServer_empty [simp]: "fst (atServer '''' call env d) = d"
  by (simp add: atServer_def onAgent_def ResolveServer_def failS_def)

lemma removeAtServer_nothing: "removeAtServer env (main_deps (gw_svc env)) ident sreq g = (g, Inr ())"
  unfolding removeAtServer_def main_deps_def by (simp split: option.split sum.split)

text \<open>
  The API revokes the delegation here and tells no server: it names the empty server, which is never
  a configured one.
\<close>

lemma delete_delegation_lemma:
  assumes "handleDeleteDelegation env (main_deps (gw_svc env)) ident r g = (g', Inr resp)"
  shows "dm_agent (gt_daemon g') = dm_agent (gt_daemon g)"
    and "\<forall>w. row_find wd_key (id_Username ident, id_GatewayCN ident) (dm_deleg (gt_daemon g')) = Some w \<longrightarrow> wd_RevokedAt w \<noteq> None"
proof -
  from assms obtain g1 s where e: "extractSigned env ident r (\<lambda>nonce g. plainBuild (removalPayload env ident nonce g) g) g = (g1, Inr s)"
    "(case s of (sreq, _) \<Rightarrow> bindG (removeAtServer env (main_deps (gw_svc env)) ident sreq) (\<lambda>_.
       bindG (onDaemon (\<lambda>_. writeInternal) (onDeleg (RevokeWebDelegation (gw_db env) (av_sec (ve_agent (gw_svc env)))
              (id_Username ident) (id_GatewayCN ident)))) (\<lambda>_. valueG (writeJSON 204 NoBody)))) g1 = (g', Inr resp)"
    unfolding handleDeleteDelegation_def bindG_eq_Inr [of "extractSigned _ _ _ _"] by blast
  have "keepsG (\<lambda>ga. gt_daemon ga = gt_daemon g) (extractSigned env ident r (\<lambda>nonce g. plainBuild (removalPayload env ident nonce g) g))"
    by (rule keepsG_extract [of _ "\<lambda>d. d = gt_daemon g"]) simp
  then have "gt_daemon (fst (extractSigned env ident r (\<lambda>nonce g. plainBuild (removalPayload env ident nonce g) g) g)) = gt_daemon g"
    unfolding keepsG_def by blast
  then have d: "gt_daemon g1 = gt_daemon g" unfolding e(1) by simp
  obtain sreq u where s: "s = (sreq, u)" by (rule prod.exhaust)
  from e(2) have "bindG (onDaemon (\<lambda>_. writeInternal) (onDeleg (RevokeWebDelegation (gw_db env) (av_sec (ve_agent (gw_svc env)))
              (id_Username ident) (id_GatewayCN ident)))) (\<lambda>_. valueG (writeJSON 204 NoBody)) g1 = (g', Inr resp)"
    unfolding s by (simp add: bindG_def [of "removeAtServer _ _ _ _"] removeAtServer_nothing)
  then have "onDaemon (\<lambda>_. writeInternal) (onDeleg (RevokeWebDelegation (gw_db env) (av_sec (ve_agent (gw_svc env)))
              (id_Username ident) (id_GatewayCN ident))) g1 = (g', Inr ())"
    unfolding bindG_eq_Inr gw_eq_Inr by auto
  then obtain t where t: "RevokeWebDelegation (gw_db env) (av_sec (ve_agent (gw_svc env))) (id_Username ident) (id_GatewayCN ident)
      (dm_deleg (gt_daemon g1)) = Inr t" "g' = g1\<lparr>gt_daemon := (gt_daemon g1)\<lparr>dm_deleg := t\<rparr>\<rparr>"
    by (auto simp: onDaemon_def onDeleg_def split: prod.splits sum.splits)
  then show "dm_agent (gt_daemon g') = dm_agent (gt_daemon g)" using d by simp
  show "\<forall>w. row_find wd_key (id_Username ident, id_GatewayCN ident) (dm_deleg (gt_daemon g')) = Some w \<longrightarrow> wd_RevokedAt w \<noteq> None"
  proof (intro allI impI)
    fix w assume "row_find wd_key (id_Username ident, id_GatewayCN ident) (dm_deleg (gt_daemon g')) = Some w"
    then obtain z where "w = (if wd_RevokedAt z = None then z\<lparr>wd_RevokedAt := Some (av_sec (ve_agent (gw_svc env)))\<rparr> else z)"
      using t(2) RevokeWebDelegation_find [OF t(1), of "(id_Username ident, id_GatewayCN ident)"] by auto
    then show "wd_RevokedAt w \<noteq> None" by simp
  qed
qed


section \<open>One sync per challenge\<close>

lemma bindG_run: "m g = (h, Inr x) \<Longrightarrow> bindG m f g = f x h" "m g = (h, Inl e) \<Longrightarrow> bindG m f g = (h, Inl e)"
  by (simp_all add: bindG_def)

lemma bindG_body: "ht_body r = Some body \<Longrightarrow> bindG (decodeBody r) f g = f body g"
  by (simp add: bindG_def decodeBody_def valueG_def)

lemma trigger_consumes:
  assumes "handleTriggerSync env deps ident r g = (g', x)" "ht_body r = Some body"
    and "ht_nonce r = Some nonce" "nonce \<noteq> []" "ht_signature r = Some sig" "sig \<noteq> []"
  shows "map_of (gt_ephemeral g') (hex_encode nonce) = None"
proof -
  let ?K = "\<lambda>g. map_of (gt_ephemeral g) (hex_encode nonce) = None"
  have tail: "keepsG ?K (rateUser env ident)" "keepsG ?K (onDaemon h m)" for h and m :: "('a, 'b) svc"
    by (auto simp: keepsG_def rateUser_def onDaemon_def split: prod.split sum.split)
  obtain h y where e: "extractSigned env ident r (buildGrant env ident) g = (h, y)" by (rule prod.exhaust)
  have "?K (fst (buildGrant env ident nonce g))"
    by (auto simp: buildGrant_def ek_take_def delete_conv' split: option.split)
  moreover have "h = fst (buildGrant env ident nonce g)"
    using e assms(3-6) by (auto simp: extractSigned_def split: prod.splits sum.splits if_splits)
  ultimately have h: "?K h" by simp
  have rest: "keepsG ?K (bindG (rateUser env ident) (\<lambda>_. bindG (onDaemon upstream m) (\<lambda>_.
      bindG (onDaemon (\<lambda>_. writeInternal) n) (\<lambda>taskID. valueG (writeJSON 202 (TaskBody taskID))))))"
    for m :: "('a, unit) svc" and n :: "('a, string) svc"
    by (intro keepsG_bind tail(1) keepsG_value) (auto simp: keepsG_def onDaemon_def split: prod.split sum.split)
  show ?thesis
  proof (cases y)
    case (Inl resp)
    then have "g' = h"
      using assms(1) e unfolding handleTriggerSync_def bindG_body [OF assms(2)] by (simp add: bindG_run(2))
    then show ?thesis using h by simp
  next
    case (Inr z)
    obtain sreq entry where z: "z = (sreq, entry)" by (rule prod.exhaust)
    have "g' = fst (bindG (rateUser env ident) (\<lambda>_. bindG (onDaemon upstream (gd_RegisterTaskGrant deps (jb_server body)
       \<lparr>rg_Username = id_Username ident, rg_Method = ''PushBackup'', rg_EphemeralPubkey = gw_authline env (ky_pub (ee_signer entry)),
        rg_ExpiresAt = ee_grantExpiresAt entry div second_ns, rg_Nonce = sg_nonce sreq, rg_Signature = sg_signature sreq\<rparr>)) (\<lambda>_.
      bindG (onDaemon (\<lambda>_. writeInternal) (gd_RunSyncWithTaskKey deps (id_Username ident) (jb_rule body) (ee_signer entry)))
        (\<lambda>taskID. valueG (writeJSON 202 (TaskBody taskID))))) h)"
      using assms(1) unfolding handleTriggerSync_def bindG_body [OF assms(2)] bindG_run(1) [where m = "extractSigned env ident r (buildGrant env ident)", OF e [unfolded Inr z]]
      by simp
    then show ?thesis using rest h by (simp add: keepsG_def)
  qed
qed

section \<open>The agent over time\<close>

text \<open>
  The agent with its HTTPS API: requests on the socket, reloads, scheduled syncs and tasks are steps
  of the daemon; a gateway's request goes through the handler of the API, under whatever \<open>https_api\<close>
  section; a restart begins with a new daemon on the files that are there. Each step has an environment
  of its own (clock, faults, answers of the system).
\<close>

inductive agent_step :: "'w gw_env \<Rightarrow> (bytes \<Rightarrow> agent_config result) \<Rightarrow> 'w gateway \<Rightarrow> 'w gateway \<Rightarrow> bool"
  for env :: "'w gw_env" and parse :: "bytes \<Rightarrow> agent_config result" where
  on_host: "daemon_step {gw_svc env} parse (gt_daemon g) d \<Longrightarrow> agent_step env parse g (g\<lparr>gt_daemon := d\<rparr>)"
| https: "agent_step env parse g (fst (Handler env (main_deps (gw_svc env)) api polls r g))"
| restart: "startAgent (gw_svc env) parse de newPool valid (gt_daemon g) db = (db', Inr (gt_daemon g', sched)) \<Longrightarrow>
    agent_step env parse g g'"

text \<open>The rule files a step changed while it could not write all of what it meant to.\<close>

definition torn_rules :: "'w gw_env \<Rightarrow> 'w gateway \<Rightarrow> 'w gateway \<Rightarrow> string set" where
  "torn_rules env g g' =
     {p. ve_rulefl (gw_svc env) EncodeRules \<and> dm_rules (gt_daemon g') p \<noteq> dm_rules (gt_daemon g) p}"

text \<open>A run, with the rule files that some step of it has torn.\<close>

inductive agent_run ::
  "'w gw_env set \<Rightarrow> (bytes \<Rightarrow> agent_config result) \<Rightarrow> 'w gateway \<Rightarrow> string set \<Rightarrow> 'w gateway \<Rightarrow> bool"
  for E :: "'w gw_env set" and parse :: "bytes \<Rightarrow> agent_config result" and start :: "'w gateway" where
  begin_run: "agent_run E parse start {} start"
| next_step: "agent_run E parse start T g \<Longrightarrow> env \<in> E \<Longrightarrow> agent_step env parse g g' \<Longrightarrow>
    agent_run E parse start (T \<union> torn_rules env g g') g'"

lemma gate_keeps:
  assumes "\<And>ident r g. P (gt_daemon g) \<Longrightarrow> ValidateUsername (id_Username ident) = None \<Longrightarrow>
      (\<exists>txt. gw_account env (id_Username ident) = Some (txt, id_HomeDir ident)) \<Longrightarrow> P (gt_daemon (fst (next ident r g)))"
    and "P (gt_daemon g)"
  shows "P (gt_daemon (fst (gate env api next r g)))"
proof -
  have "ValidateUsername u = None \<and> (\<exists>txt. gw_account env u = Some (txt, home))" if "resolveUser env api u = Some (uid, home)" for u uid home
    using that by (auto simp: resolveUser_def split: if_splits option.splits sum.splits)
  then show ?thesis
    using assms by (auto simp: gate_def Let_def split: option.split sum.split prod.split bool.split)
qed

lemma Handler_keeps:
  assumes "\<And>polls op ident r g. P (gt_daemon g) \<Longrightarrow> ValidateUsername (id_Username ident) = None \<Longrightarrow>
      (\<exists>txt. gw_account env (id_Username ident) = Some (txt, id_HomeDir ident)) \<Longrightarrow>
      P (gt_daemon (fst (handle env deps polls op ident r g)))"
    and "P (gt_daemon g)"
  shows "P (gt_daemon (fst (Handler env deps api polls r g)))"
  unfolding Handler_def
proof (rule gate_keeps [of P env, OF _ assms(2)])
  fix ident :: identity and r and g :: "'a gateway"
  assume a: "P (gt_daemon g)" "ValidateUsername (id_Username ident) = None"
    "\<exists>txt. gw_account env (id_Username ident) = Some (txt, id_HomeDir ident)"
  have w: "gt_daemon (fst (written m g)) = gt_daemon (fst (m g))" for m :: "('a, response) gw"
    by (auto simp: written_def split: prod.split sum.split)
  show "P (gt_daemon (fst (mux env deps polls ident r g)))"
    using a assms(1) [OF a] by (auto simp: mux_def w split: option.split prod.split)
qed

text \<open>The accounts the API sees are those of the host.\<close>

definition gw_host :: "(string \<Rightarrow> string result) \<Rightarrow> 'w gw_env \<Rightarrow> bool" where
  "gw_host homes env \<longleftrightarrow> (\<forall>u txt home. gw_account env u = Some (txt, home) \<longrightarrow> homes u = Inr home)"

lemma startAgent_rules:
  "startAgent env parse de newPool valid d db = (db', Inr (d', sched)) \<Longrightarrow> dm_rules d' = dm_rules d"
  by (auto simp: startAgent_def bindS_eq_Inr returnS_def)

lemma agent_step_rules:
  assumes "agent_step env parse g g'" "rules_host dir enc dec homes (gw_svc env)" "gw_host homes env"
    "\<not> ve_rulefl (gw_svc env) EncodeRules" "codec_ok enc dec" "is_abs dir" "rules_inv dir dec homes T (gt_daemon g)"
  shows "rules_inv dir dec homes T (gt_daemon g')"
  using assms(1)
proof cases
  case (on_host d)
  then show ?thesis using daemon_step_rules_inv [of "gw_svc env", OF _ assms(2,4-7)] by simp
next
  case (https api polls r)
  show ?thesis
    unfolding https
  proof (rule Handler_keeps [of "rules_inv dir dec homes T"])
    fix polls op r and ident :: identity and g :: "'a gateway"
    assume i: "rules_inv dir dec homes T (gt_daemon g)" "ValidateUsername (id_Username ident) = None"
      "\<exists>txt. gw_account env (id_Username ident) = Some (txt, id_HomeDir ident)"
    have "CHR ''/'' \<notin> set (id_Username ident)"
      using i(2) username_no_slash by simp
    moreover have "homes (id_Username ident) = Inr (id_HomeDir ident)" using i(3) assms(3) by (auto simp: gw_host_def)
    ultimately show "rules_inv dir dec homes T (gt_daemon (fst (handle env (main_deps (gw_svc env)) polls op ident r g)))"
      by (rule handle_rules_inv [OF assms(2,4-6) _ _ i(1)])
  qed (use assms(7) in simp)
next
  case (restart de newPool valid db db' sched)
  then show ?thesis using startAgent_rules [OF restart] assms(7) by (simp add: rules_inv_def)
qed

text \<open>
  C32: Over every run of the agent, whatever requests it serves on its socket and through its HTTPS API and however often it
  reloads or restarts, every rule file keeps its invariant: the rule names are distinct and every path is inside the home
  directory of the file's user. The files have it when the run begins, the home directories stay the same, and the coder
  reads back the rules it wrote; the one exception is a file of which some save on the run broke off while it was written.
\<close>

lemma rules_stay_safe:
  assumes "agent_run E parse g0 T g" "codec_ok enc dec" "is_abs dir"
    and "\<forall>env \<in> E. rules_host dir enc dec homes (gw_svc env) \<and> gw_host homes env"
    and "rules_inv dir dec homes {} (gt_daemon g0)"
  shows "rules_inv dir dec homes T (gt_daemon g)"
  using assms(1)
proof induction
  case (next_step T g env g')
  have more: "rules_inv dir dec homes (T \<union> torn_rules env g g') (gt_daemon g)"
    using next_step.IH by (auto simp: rules_inv_def)
  show ?case
  proof (cases "ve_rulefl (gw_svc env) EncodeRules")
    case True
    then show ?thesis using more by (auto simp: rules_inv_def torn_rules_def)
  next
    case False
    then show ?thesis using agent_step_rules [OF next_step.hyps(3) _ _ _ assms(2,3) more] assms(4) next_step.hyps(2) by blast
  qed
qed (use assms(5) in simp)

section \<open>Machine rules\<close>

lemma agent_step_config:
  assumes "agent_step env parse g g'" "base_config (dm_cfg (gt_daemon g))"
  shows "base_config (dm_cfg (gt_daemon g'))"
  using assms(1)
proof cases
  case (on_host d)
  then show ?thesis using daemon_step_base_config [OF on_host(2) assms(2)] by simp
next
  case (https api polls r)
  show ?thesis
    unfolding https
  proof (rule Handler_keeps [of "\<lambda>d. base_config (dm_cfg d)"])
    fix polls op r and ident :: identity and g :: "'a gateway"
    assume b: "base_config (dm_cfg (gt_daemon g))"
    have "keepsG (\<lambda>g. base_config (dm_cfg (gt_daemon g))) (handle env (main_deps (gw_svc env)) polls op ident r)"
      by (rule handle_keeps)
        (auto simp: agent_blind_def keeps_def gwRules_def onRules_def onDeleg_def Let_def split: prod.split sum.split)
    then show "base_config (dm_cfg (gt_daemon (fst (handle env (main_deps (gw_svc env)) polls op ident r g))))"
      using b by (simp add: keepsG_def)
  qed (use assms(2) in simp)
next
  case (restart de newPool valid db db' sched)
  then show ?thesis using startAgent_ok(1) [OF restart] running_base by simp
qed

lemma agent_run_config: "agent_run E parse g0 T g \<Longrightarrow> base_config (dm_cfg (gt_daemon g0)) \<Longrightarrow> base_config (dm_cfg (gt_daemon g))"
  by (induction rule: agent_run.induct) (auto intro: agent_step_config)

text \<open>
  C35: Only root adds a machine rule, but the rule is saved unchecked: after any run of an agent that was started with a
  valid configuration, the file that an addition writes loads again exactly when every machine rule in it, the added one
  and those that are there, is valid, and otherwise the first error of the rules is what the next start or reload ends
  with. The coder reads back the configuration it wrote.
\<close>

theorem machine_rule_restart:
  assumes "agent_run E parse g0 T g" "running_config (dm_cfg (gt_daemon g0))"
    and "AddMachineRule env ctx req (gt_daemon g) = (d', Inr ())"
    and "\<And>data. ve_yaml env (dm_cfg d') = Inr data \<Longrightarrow> parse data = Inr (dm_cfg d')"
  shows "extractUsername env ctx = Inr ''root'' \<and>
    LoadAgentConfig parse (readConfig env (dm_files d')) =
      (case firstErr validateMachineRule (ac_MachineRules (dm_cfg (gt_daemon g)) @ [requestedMachineRule req]) of
         None \<Rightarrow> Inr (dm_cfg d') | Some e \<Rightarrow> Inl e)"
  using machine_rule_saved [where parse = parse, OF assms(3) agent_run_config [OF assms(1) running_base [OF assms(2)]]] assms(4)
  by simp

end
