(* ===== verification/Vault_Enroll.thy ===== *)
theory Vault_Enroll
  imports Vault_AgentSvc Vault_Config
begin

text \<open>
  Self-service enrollment of SSH keys on the server (\<open>internal/server/enrollment\<close>): the policy
  check, the checks of the key, its atomic installation (\<open>Enroll\<close>), the local socket and the
  daemon behind it (\<open>local.go\<close>), and the client \<open>datavault-server key-enroll\<close>
  (\<open>cmd/datavault-server/enroll.go\<close>). The keys are the files of \<open>Vault_Keys\<close>. The SSH library gives
  the kind, the canonical line and the fingerprint of a parsed key; the JSON coder, \<open>getent\<close> and
  the text of an error are parameters too. Each connection carries the faults of the calls made
  for it and the number its temporary file gets.
\<close>

section \<open>The policy and the key\<close>

record os_identity =
  oi_Username :: string
  oi_UID :: int

record enroll_result =
  er_Path :: string
  er_Fingerprint :: string

text \<open>What a parsed public key is, with the size \<open>validatePublicKey\<close> looks at.\<close>

datatype public_kind = SSHCertificate | RSAKey nat | ECDSAKey nat | Ed25519Key | OtherCryptoKey | NoCryptoKey

record key_lib =
  kl_ssh :: ssh_lib
  kl_kind :: "bytes \<Rightarrow> public_kind"
  kl_Marshal :: "bytes \<Rightarrow> bytes"
  kl_Fingerprint :: "bytes \<Rightarrow> string"

definition MaxPublicKeyBytes :: nat where
  "MaxPublicKeyBytes = 16 * 1024"

definition enroll_authorize :: "key_enrollment \<Rightarrow> os_identity \<Rightarrow> string \<Rightarrow> error option" where
  "enroll_authorize policy identity agentCN =
     (let login = ke_ServerOSLogin policy in
      orElse (failIf (ke_Mode policy \<noteq> ''server_os_login'')
        (Errorf ''self-enrollment is disabled by key_enrollment.mode=%q''))
      (orElse (failIf (agentCN \<notin> set (ol_AllowedAgents login))
        (Errorf ''agent %q is not allowed for self-enrollment''))
      (orElse (failIf (oi_UID identity < 0) (Errorf ''invalid OS UID''))
      (if ol_AllowedUsers login \<noteq> []
       then failIf (oi_Username identity \<notin> set (ol_AllowedUsers login))
              (Errorf ''OS account %q is not allowed for self-enrollment'')
       else failIf (oi_UID identity < ol_MinUID login)
              (Errorf ''OS account %q has UID below the self-enrollment minimum'')))))"

definition validatePublicKey :: "public_kind \<Rightarrow> error option" where
  "validatePublicKey k =
     (case k of
        SSHCertificate \<Rightarrow> Some (Errorf ''SSH certificates cannot be enrolled as public keys'')
      | NoCryptoKey \<Rightarrow> Some (Errorf ''unsupported SSH public key type %q'')
      | RSAKey n \<Rightarrow> failIf (n < 3072) (Errorf ''RSA public keys must be at least 3072 bits'')
      | ECDSAKey n \<Rightarrow> failIf (n < 256) (Errorf ''ECDSA public keys must be at least 256 bits'')
      | Ed25519Key \<Rightarrow> None
      | OtherCryptoKey \<Rightarrow> Some (Errorf ''unsupported SSH public key type %q''))"

text \<open>The checks before anything is written; the key in wire form when they pass.\<close>

definition acceptKey :: "key_lib \<Rightarrow> bytes \<Rightarrow> bytes result" where
  "acceptKey lib keyData =
     (if keyData = [] \<or> length keyData > MaxPublicKeyBytes
      then Inl (Errorf ''public key must contain between 1 and %d bytes'')
      else let keyLine = trim_space keyData in
        if keyLine = [] \<or> CHR 0x0D \<in> set keyLine \<or> CHR 0x0A \<in> set keyLine
        then Inl (Errorf ''exactly one single-line public key is required'')
        else case parseAuthorizedKey (kl_ssh lib) keyLine of
            None \<Rightarrow> Inl (Wrap ''parse public key: %w'' (Errorf ''ssh: no key found''))
          | Some pubKey \<Rightarrow> (case validatePublicKey (kl_kind lib pubKey) of
              Some e \<Rightarrow> Inl e | None \<Rightarrow> Inr pubKey))"

section \<open>Installing the key\<close>

datatype enroll_op = EnMkdirAll | EnCreateTemp | EnChmod | EnWrite | EnSync | EnClose | EnRename
  | EnOpenDir | EnSyncDir | EnRemove

type_synonym enroll_faults = "enroll_op \<Rightarrow> bool"

definition enroll_dir :: "string \<Rightarrow> string \<Rightarrow> string" where
  "enroll_dir keysDir agentCN = Join [keysDir, agentCN]"

definition temp_name :: "string \<Rightarrow> nat \<Rightarrow> string" where
  "temp_name username rnd = ''.'' @ username @ ''.pub-'' @ format_uint rnd"

text \<open>The deferred \<open>os.Remove(tempPath)\<close> of every return after the file was created.\<close>

definition drop_temp :: "enroll_faults \<Rightarrow> string \<Rightarrow> key_files \<Rightarrow> key_files" where
  "drop_temp fl tempPath fs = (if fl EnRemove then fs else f_del (abs_comps tempPath) fs)"

definition syncDirectory :: "enroll_faults \<Rightarrow> error option" where
  "syncDirectory fl = orElse (failIf (fl EnOpenDir) (Errorf ''open'')) (failIf (fl EnSyncDir) (Errorf ''sync''))"

definition installKey ::
  "enroll_faults \<Rightarrow> nat \<Rightarrow> string \<Rightarrow> string \<Rightarrow> string \<Rightarrow> bytes \<Rightarrow> key_files \<Rightarrow> key_files \<times> string result" where
  "installKey fl rnd keysDir agentCN username canonical fs =
     (let dir = enroll_dir keysDir agentCN; tempPath = Join [dir, temp_name username rnd];
          p = Join [dir, username @ ''.pub''];
          fs1 = f_put (abs_comps tempPath, KeyText []) fs;
          fs2 = f_put (abs_comps tempPath, KeyText canonical) fs;
          fs3 = f_put (abs_comps p, KeyText canonical) (f_del (abs_comps tempPath) fs) in
      if fl EnMkdirAll then (fs, Inl (Wrap ''create authorized-key directory: %w'' (Errorf ''mkdir'')))
      else if fl EnCreateTemp \<or> f_get (abs_comps tempPath) fs \<noteq> None
        then (fs, Inl (Wrap ''create temporary key file: %w'' (Errorf ''open'')))
      else if fl EnChmod then (drop_temp fl tempPath fs1, Inl (Wrap ''set temporary key mode: %w'' (Errorf ''chmod'')))
      else if fl EnWrite then (drop_temp fl tempPath fs1, Inl (Wrap ''write public key: %w'' (Errorf ''write'')))
      else if fl EnSync then (drop_temp fl tempPath fs2, Inl (Wrap ''sync public key: %w'' (Errorf ''sync'')))
      else if fl EnClose then (drop_temp fl tempPath fs2, Inl (Wrap ''close public key: %w'' (Errorf ''close'')))
      else if fl EnRename then (drop_temp fl tempPath fs2, Inl (Wrap ''install public key: %w'' (Errorf ''rename'')))
      else (drop_temp fl tempPath fs3,
            case syncDirectory fl of
              Some e \<Rightarrow> Inl (Wrap ''sync authorized-key directory: %w'' e) | None \<Rightarrow> Inr p))"

definition Enroll ::
  "key_lib \<Rightarrow> enroll_faults \<Rightarrow> nat \<Rightarrow> server_config option \<Rightarrow> os_identity \<Rightarrow> string \<Rightarrow> bytes \<Rightarrow> string \<Rightarrow>
   (key_files, enroll_result) step" where
  "Enroll lib fl rnd cfg identity agentCN keyData keysDir fs =
     (case cfg of
        None \<Rightarrow> (fs, Inl (Errorf ''server configuration is required''))
      | Some c \<Rightarrow>
        (case orElse (enroll_authorize (sc_KeyEnrollment c) identity agentCN)
              (orElse (wrapErr ''invalid OS username: %w'' (ValidateUsername (oi_Username identity)))
                      (wrapErr ''invalid agent CN: %w'' (ValidateHostname agentCN))) of
           Some e \<Rightarrow> (fs, Inl e)
         | None \<Rightarrow>
           (case acceptKey lib keyData of
              Inl e \<Rightarrow> (fs, Inl e)
            | Inr pubKey \<Rightarrow>
              (case installKey fl rnd keysDir agentCN (oi_Username identity) (kl_Marshal lib pubKey) fs of
                 (fs', Inl e) \<Rightarrow> (fs', Inl e)
               | (fs', Inr p) \<Rightarrow>
                   (fs', Inr \<lparr>er_Path = p, er_Fingerprint = kl_Fingerprint lib pubKey\<rparr>)))))"

section \<open>What enrollment changes\<close>

lemma temp_name_normal: "usernameRe u \<Longrightarrow> normal (temp_name u rnd)"
proof -
  assume u: "usernameRe u"
  have "CHR ''/'' \<notin> set (format_uint rnd)"
    using format_uint_digits [of rnd] by (auto simp: list_all_iff is_digit_def less_eq_char_def)
  then have "normal ((''.'' @ u) @ (''.pub-'' @ format_uint rnd))"
    using username_no_slash [OF u] by (intro normal_append) auto
  then show ?thesis by (simp add: temp_name_def)
qed

lemma enroll_paths:
  assumes "valid_owner keysDir h u"
  shows "abs_comps (Join [enroll_dir keysDir h, u @ ''.pub'']) = abs_comps keysDir @ [h, u @ ''.pub'']"
    and "Join [enroll_dir keysDir h, u @ ''.pub''] = Join [keysDir, h, u @ ''.pub'']"
    and "abs_comps (Join [enroll_dir keysDir h, temp_name u rnd]) = abs_comps keysDir @ [h, temp_name u rnd]"
proof -
  have n: "normal h" "normal (u @ ''.pub'')" "normal (temp_name u rnd)" and a: "is_abs keysDir"
    using assms owner_normals [OF assms] temp_name_normal by (auto simp: valid_owner_def)
  have d: "enroll_dir keysDir h = abs_path (abs_comps keysDir @ [h])"
    using Join_abs_normals [OF a, of "[h]"] n by (simp add: enroll_dir_def path_join_def)
  have nd: "normals (abs_comps keysDir @ [h])" using n by simp
  show "abs_comps (Join [enroll_dir keysDir h, u @ ''.pub'']) = abs_comps keysDir @ [h, u @ ''.pub'']"
    using comps_dir_name [OF nd n(2)] by (simp add: d)
  show "Join [enroll_dir keysDir h, u @ ''.pub''] = Join [keysDir, h, u @ ''.pub'']"
    using Join_dir_name [OF nd n(2)] Join3_abs_normal [OF a n(1,2)] by (simp add: d)
  show "abs_comps (Join [enroll_dir keysDir h, temp_name u rnd]) = abs_comps keysDir @ [h, temp_name u rnd]"
    using comps_dir_name [OF nd n(3)] by (simp add: d)
qed

lemma temp_not_key: "usernameRe v \<Longrightarrow> temp_name u rnd \<noteq> v @ ''.pub''"
  by (cases v) (auto simp: temp_name_def usernameRe_def is_lower_def less_eq_char_def)

definition key_path :: "string \<Rightarrow> string \<Rightarrow> string \<Rightarrow> string list" where
  "key_path keysDir h u = abs_comps keysDir @ [h, u @ ''.pub'']"

lemma f_get_drop_temp:
  "f_get p (drop_temp fl t fs) = (if p = abs_comps t \<and> \<not> fl EnRemove then None else f_get p fs)"
  by (auto simp: drop_temp_def f_get_del)

text \<open>Only two entries are touched, the key and the temporary file; the key only by the rename.\<close>

lemma installKey_frame:
  assumes "installKey fl rnd keysDir h u c fs = (fs', r)" and "valid_owner keysDir h u"
    and "p \<noteq> key_path keysDir h u" "p \<noteq> abs_comps keysDir @ [h, temp_name u rnd]"
  shows "f_get p fs' = f_get p fs"
  using assms enroll_paths [OF assms(2)]
  by (auto simp: installKey_def Let_def key_path_def f_get_put f_get_del f_get_drop_temp split: if_splits)

lemma installKey_key:
  assumes "installKey fl rnd keysDir h u c fs = (fs', r)" and v: "valid_owner keysDir h u"
  shows "f_get (key_path keysDir h u) fs' =
    (if is_ok r \<or> (\<exists>e. r = Inl (Wrap ''sync authorized-key directory: %w'' e))
     then Some (KeyText c) else f_get (key_path keysDir h u) fs)"
proof -
  have "temp_name u rnd \<noteq> u @ ''.pub''" using v temp_not_key by (simp add: valid_owner_def)
  then show ?thesis
    using assms(1) enroll_paths [OF v]
    by (auto simp: installKey_def Let_def key_path_def f_get_put f_get_del f_get_drop_temp
             split: if_splits option.splits)
qed

lemma installKey_no_temp:
  assumes "installKey fl rnd keysDir h u c fs = (fs', r)" and v: "valid_owner keysDir h u"
    and "\<not> fl EnRemove" "f_get (abs_comps keysDir @ [h, temp_name u rnd]) fs = None"
  shows "f_get (abs_comps keysDir @ [h, temp_name u rnd]) fs' = None"
proof -
  have "temp_name u rnd \<noteq> u @ ''.pub''" using v temp_not_key by (simp add: valid_owner_def)
  then show ?thesis
    using assms(1,3,4) enroll_paths [OF v]
    by (auto simp: installKey_def Let_def f_get_put f_get_del f_get_drop_temp split: if_splits)
qed

lemma installKey_path:
  "installKey fl rnd keysDir h u c fs = (fs', Inr p) \<Longrightarrow> p = Join [enroll_dir keysDir h, u @ ''.pub'']"
  by (auto simp: installKey_def Let_def split: if_splits option.splits)

lemma installKey_succeeds:
  assumes "\<forall>op. op \<noteq> EnRemove \<longrightarrow> \<not> fl op" "valid_owner keysDir h u"
    and "f_get (abs_comps keysDir @ [h, temp_name u rnd]) fs = None"
  shows "\<exists>fs'. installKey fl rnd keysDir h u c fs = (fs', Inr (Join [enroll_dir keysDir h, u @ ''.pub'']))"
  using assms enroll_paths [OF assms(2)]
  by (simp add: installKey_def Let_def syncDirectory_def)

section \<open>Enrollment\<close>

text \<open>The identities the policy lets enroll a key, and the keys it accepts.\<close>

definition may_enroll :: "server_config \<Rightarrow> os_identity \<Rightarrow> string \<Rightarrow> bool" where
  "may_enroll cfg i agentCN \<longleftrightarrow>
     (let login = ke_ServerOSLogin (sc_KeyEnrollment cfg) in
      ke_Mode (sc_KeyEnrollment cfg) = ''server_os_login'' \<and>
      agentCN \<in> set (ol_AllowedAgents login) \<and> 0 \<le> oi_UID i \<and>
      (if ol_AllowedUsers login = [] then ol_MinUID login \<le> oi_UID i
       else oi_Username i \<in> set (ol_AllowedUsers login)) \<and>
      usernameRe (oi_Username i) \<and> hostnameRe agentCN)"

definition strong_key :: "public_kind \<Rightarrow> bool" where
  "strong_key k \<longleftrightarrow> (case k of RSAKey n \<Rightarrow> 3072 \<le> n | ECDSAKey n \<Rightarrow> 256 \<le> n | Ed25519Key \<Rightarrow> True | _ \<Rightarrow> False)"

lemma validatePublicKey_None: "validatePublicKey k = None \<longleftrightarrow> strong_key k"
  by (cases k) (auto simp: validatePublicKey_def strong_key_def)

lemma enroll_checks:
  "orElse (enroll_authorize (sc_KeyEnrollment c) i agentCN)
     (orElse (wrapErr s (ValidateUsername (oi_Username i))) (wrapErr t (ValidateHostname agentCN))) = None
   \<longleftrightarrow> may_enroll c i agentCN"
  by (auto simp: enroll_authorize_def may_enroll_def Let_def)

text \<open>Either nothing is written, or the caller may enroll, the key is a strong one and it is installed.\<close>

lemma Enroll_cases:
  assumes "Enroll lib fl rnd cfg i agentCN keyData keysDir fs = (fs', r)"
  shows "(fs' = fs \<and> \<not> is_ok r) \<or>
    (\<exists>c k r'. cfg = Some c \<and> may_enroll c i agentCN \<and> acceptKey lib keyData = Inr k \<and>
       installKey fl rnd keysDir agentCN (oi_Username i) (kl_Marshal lib k) fs = (fs', r') \<and>
       r = (case r' of Inl e \<Rightarrow> Inl e
            | Inr p \<Rightarrow> Inr \<lparr>er_Path = p, er_Fingerprint = kl_Fingerprint lib k\<rparr>))"
proof (cases cfg)
  case None
  then show ?thesis using assms by (auto simp: Enroll_def)
next
  case (Some c)
  show ?thesis
  proof (cases "may_enroll c i agentCN")
    case False
    then obtain e where "orElse (enroll_authorize (sc_KeyEnrollment c) i agentCN)
        (orElse (wrapErr ''invalid OS username: %w'' (ValidateUsername (oi_Username i)))
           (wrapErr ''invalid agent CN: %w'' (ValidateHostname agentCN))) = Some e"
      using enroll_checks [of c i agentCN] by blast
    then show ?thesis using assms Some by (auto simp: Enroll_def)
  next
    case True
    then have "Enroll lib fl rnd cfg i agentCN keyData keysDir fs =
        (case acceptKey lib keyData of Inl e \<Rightarrow> (fs, Inl e)
         | Inr k \<Rightarrow> (case installKey fl rnd keysDir agentCN (oi_Username i) (kl_Marshal lib k) fs of
             (fs', Inl e) \<Rightarrow> (fs', Inl e)
           | (fs', Inr p) \<Rightarrow> (fs', Inr \<lparr>er_Path = p, er_Fingerprint = kl_Fingerprint lib k\<rparr>)))"
      using True enroll_checks [THEN iffD2, OF True, of "''invalid OS username: %w''" "''invalid agent CN: %w''"]
      by (simp only: Enroll_def Some option.case)
    then show ?thesis
      using assms True Some by (cases "acceptKey lib keyData") (auto split: sum.splits prod.splits)
  qed
qed

lemma acceptKey_strong:
  assumes "acceptKey lib keyData = Inr k"
  shows "strong_key (kl_kind lib k)"
    and "parseAuthorizedKey (kl_ssh lib) (trim_space keyData) = Some k"
    and "length keyData \<le> MaxPublicKeyBytes" and "CHR 0x0A \<notin> set (trim_space keyData)"
  using assms validatePublicKey_None [of "kl_kind lib k"]
  by (auto simp: acceptKey_def Let_def split: if_splits option.splits)

lemma may_enroll_owner: "may_enroll c i h \<Longrightarrow> is_abs keysDir \<Longrightarrow> valid_owner keysDir h (oi_Username i)"
  by (auto simp: may_enroll_def Let_def valid_owner_def)

text \<open>The key the requests of an owner are checked against.\<close>

lemma LoadAuthorizedKey_get:
  assumes "valid_owner keysDir h u" "\<not> kf OpReadFile (Join [keysDir, h, u @ ''.pub''])"
    and "f_get (key_path keysDir h u) fs = Some (KeyText line)" "parseAuthorizedKey lib line = Some k"
  shows "LoadAuthorizedKey lib kf keysDir h u fs = Inr k"
  using assms enroll_paths [OF assms(1)]
  by (simp add: LoadAuthorizedKey_def Let_def key_path_def)

lemma LoadAuthorizedKey_cong:
  assumes "valid_owner keysDir h u" "f_get (key_path keysDir h u) fs' = f_get (key_path keysDir h u) fs"
  shows "LoadAuthorizedKey lib kf keysDir h u fs' = LoadAuthorizedKey lib kf keysDir h u fs"
  using assms enroll_paths [OF assms(1)]
  by (simp add: LoadAuthorizedKey_def Let_def key_path_def)

lemma Enroll_frame:
  assumes E: "Enroll lib fl rnd cfg i h keyData keysDir fs = (fs', r)" and a: "is_abs keysDir"
    and "p \<noteq> key_path keysDir h (oi_Username i)"
    and "p \<noteq> abs_comps keysDir @ [h, temp_name (oi_Username i) rnd]"
  shows "f_get p fs' = f_get p fs"
  using Enroll_cases [OF E] installKey_frame [OF _ may_enroll_owner [OF _ a] assms(3,4)] by blast

lemma Enroll_other_owner:
  assumes E: "Enroll lib fl rnd cfg i h keyData keysDir fs = (fs', r)"
    and v: "valid_owner keysDir h' u'" and ne: "(h', u') \<noteq> (h, oi_Username i)"
  shows "LoadAuthorizedKey l kf keysDir h' u' fs' = LoadAuthorizedKey l kf keysDir h' u' fs"
proof (rule LoadAuthorizedKey_cong [OF v])
  have "temp_name (oi_Username i) rnd \<noteq> u' @ ''.pub''" using v temp_not_key by (simp add: valid_owner_def)
  then show "f_get (key_path keysDir h' u') fs' = f_get (key_path keysDir h' u') fs"
    using Enroll_frame [OF E, of "key_path keysDir h' u'"] v ne
    by (auto simp: valid_owner_def key_path_def)
qed

lemma Enroll_installs:
  assumes E: "Enroll lib fl rnd cfg i h keyData keysDir fs = (fs', Inr res)" and a: "is_abs keysDir"
    and libR: "\<And>k. parseAuthorizedKey (kl_ssh lib) (kl_Marshal lib k) = Some k"
    and kfR: "\<not> kf OpReadFile (er_Path res)"
  shows "\<exists>c k. cfg = Some c \<and> may_enroll c i h \<and> strong_key (kl_kind lib k) \<and>
    parseAuthorizedKey (kl_ssh lib) (trim_space keyData) = Some k \<and>
    er_Fingerprint res = kl_Fingerprint lib k \<and>
    LoadAuthorizedKey (kl_ssh lib) kf keysDir h (oi_Username i) fs' = Inr k"
proof -
  obtain c k r' where k': "cfg = Some c" "may_enroll c i h" "acceptKey lib keyData = Inr k"
    "installKey fl rnd keysDir h (oi_Username i) (kl_Marshal lib k) fs = (fs', r')"
    "Inr res = (case r' of Inl e \<Rightarrow> Inl e | Inr p \<Rightarrow> Inr \<lparr>er_Path = p, er_Fingerprint = kl_Fingerprint lib k\<rparr>)"
    using Enroll_cases [OF E] by auto
  then obtain p where r': "r' = Inr p" "res = \<lparr>er_Path = p, er_Fingerprint = kl_Fingerprint lib k\<rparr>"
    by (cases r') auto
  note k = k'(1-4) [unfolded r'(1)] r'(2)
  have v: "valid_owner keysDir h (oi_Username i)" by (rule may_enroll_owner [OF k(2) a])
  have "\<not> kf OpReadFile (Join [keysDir, h, oi_Username i @ ''.pub''])"
    using kfR installKey_path [OF k(4)] enroll_paths(2) [OF v] by (simp add: k(5))
  moreover have "f_get (key_path keysDir h (oi_Username i)) fs' = Some (KeyText (kl_Marshal lib k))"
    using installKey_key [OF k(4) v] by simp
  ultimately have "LoadAuthorizedKey (kl_ssh lib) kf keysDir h (oi_Username i) fs' = Inr k"
    using LoadAuthorizedKey_get [OF v] libR by blast
  then show ?thesis using k acceptKey_strong(1,2) [OF k(3)] by auto
qed

lemma Enroll_failed:
  assumes E: "Enroll lib fl rnd cfg i h keyData keysDir fs = (fs', Inl e)" and a: "is_abs keysDir"
    and "\<forall>d. e \<noteq> Wrap ''sync authorized-key directory: %w'' d"
  shows "f_get (key_path keysDir h (oi_Username i)) fs' = f_get (key_path keysDir h (oi_Username i)) fs"
proof -
  from Enroll_cases [OF E] consider "fs' = fs"
    | c k r' where "may_enroll c i h" "Inl e = (case r' of Inl e \<Rightarrow> Inl e
            | Inr p \<Rightarrow> Inr \<lparr>er_Path = p, er_Fingerprint = kl_Fingerprint lib k\<rparr>)"
        "installKey fl rnd keysDir h (oi_Username i) (kl_Marshal lib k) fs = (fs', r')"
    by blast
  then show ?thesis
  proof cases
    case 2
    then have "r' = Inl e" by (auto split: sum.splits)
    then show ?thesis using installKey_key [OF 2(3) may_enroll_owner [OF 2(1) a]] assms(3) by auto
  qed simp
qed

lemma Enroll_succeeds:
  assumes "cfg = Some c" "may_enroll c i h" "acceptKey lib keyData = Inr k" "is_abs keysDir"
    and "\<forall>op. op \<noteq> EnRemove \<longrightarrow> \<not> fl op"
    and "f_get (abs_comps keysDir @ [h, temp_name (oi_Username i) rnd]) fs = None"
  shows "\<exists>fs' p. Enroll lib fl rnd cfg i h keyData keysDir fs
      = (fs', Inr \<lparr>er_Path = p, er_Fingerprint = kl_Fingerprint lib k\<rparr>)"
  using installKey_succeeds [OF assms(5) may_enroll_owner [OF assms(2,4)] assms(6), of "kl_Marshal lib k"]
    enroll_checks [THEN iffD2, OF assms(2), of "''invalid OS username: %w''" "''invalid agent CN: %w''"]
  by (auto simp add: Enroll_def assms(1,3) simp del: orElse_None)

section \<open>The local socket\<close>

datatype sock_node = SocketNode | OtherNode

datatype sock_op = SkMkdirAll | SkLstat | SkRemove | SkListen | SkChmod

text \<open>\<open>ListenLocal\<close>: what is at the socket's path before and after.\<close>

definition ListenLocal ::
  "(sock_op \<Rightarrow> bool) \<Rightarrow> string \<Rightarrow> sock_node option \<Rightarrow> sock_node option \<times> unit result" where
  "ListenLocal fl p n =
     (if p = '''' then (n, Inl (Errorf ''local enrollment socket path is required''))
      else if fl SkMkdirAll then (n, Inl (Wrap ''create local enrollment socket directory: %w'' (Errorf ''mkdir'')))
      else if fl SkLstat then (n, Inl (Wrap ''inspect local enrollment socket: %w'' (Errorf ''lstat'')))
      else case (case n of
            Some OtherNode \<Rightarrow> Inl (Errorf ''refuse to replace non-socket local enrollment path %q'')
          | Some SocketNode \<Rightarrow>
              if fl SkRemove then Inl (Wrap ''remove stale local enrollment socket: %w'' (Errorf ''remove''))
              else Inr ()
          | None \<Rightarrow> Inr ()) of
        Inl e \<Rightarrow> (n, Inl e)
      | Inr _ \<Rightarrow>
          if fl SkListen then (None, Inl (Wrap ''listen on local enrollment socket: %w'' (Errorf ''listen'')))
          else if fl SkChmod then (None, Inl (Wrap ''set local enrollment socket mode: %w'' (Errorf ''chmod'')))
          else (Some SocketNode, Inr ()))"

record local_request =
  lr_AgentCN :: string
  lr_PublicKey :: string

record local_response =
  rs_Fingerprint :: string
  rs_Error :: string

record local_conn =
  cn_addr :: "peer_addr option"
  cn_deadline :: bool
  cn_input :: bytes
  cn_faults :: enroll_faults
  cn_rnd :: nat

record local_server =
  ls_Config :: "server_config option"
  ls_KeysDir :: string
  ls_ResolveIdentity :: "(local_conn \<Rightarrow> os_identity result) option"
  ls_keylib :: key_lib
  ls_getent :: "nat \<Rightarrow> bytes result"
  ls_decode :: "bytes \<Rightarrow> local_request option"
  ls_text :: "error \<Rightarrow> string"

definition localRequestLimit :: nat where
  "localRequestLimit = MaxPublicKeyBytes * 2 + 1024"

definition parseGetentPasswd :: "bytes \<Rightarrow> nat \<Rightarrow> string result" where
  "parseGetentPasswd output wantedUID =
     (let rec = trim_space output; fs = split_on CHR '':'' rec in
      if rec = '''' \<or> CHR 0x0A \<in> set rec then Inl (Errorf ''getent passwd returned no unique record for uid %d'')
      else if length fs < 7 \<or> fs ! 0 = '''' then Inl (Errorf ''getent passwd returned malformed record for uid %d'')
      else case parse_uint 32 (fs ! 2) of
          Inl e \<Rightarrow> Inl (Errorf ''getent passwd returned mismatched UID for uid %d'')
        | Inr uid \<Rightarrow> if uid \<noteq> wantedUID then Inl (Errorf ''getent passwd returned mismatched UID for uid %d'')
                     else Inr (fs ! 0))"

definition lookupUsernameWithGetent :: "(nat \<Rightarrow> bytes result) \<Rightarrow> nat \<Rightarrow> string result" where
  "lookupUsernameWithGetent getent uid =
     (case getent uid of
        Inl e \<Rightarrow> Inl (Wrap ''getent passwd lookup for uid %d: %w'' e)
      | Inr output \<Rightarrow> parseGetentPasswd output uid)"

definition peerIdentity :: "(nat \<Rightarrow> bytes result) \<Rightarrow> local_conn \<Rightarrow> os_identity result" where
  "peerIdentity getent conn =
     (case cn_addr conn of
        None \<Rightarrow> Inl (Errorf ''connection does not have peer credentials'')
      | Some address \<Rightarrow> (case lookupUsernameWithGetent getent (px_UID address) of
          Inl e \<Rightarrow> Inl e
        | Inr username \<Rightarrow> Inr \<lparr>oi_Username = username, oi_UID = int (px_UID address)\<rparr>))"

definition resolve :: "local_server \<Rightarrow> local_conn \<Rightarrow> os_identity result" where
  "resolve s conn = (case ls_ResolveIdentity s of Some f \<Rightarrow> f conn | None \<Rightarrow> peerIdentity (ls_getent s) conn)"

text \<open>\<open>Handle\<close>: the response written to the connection, if any.\<close>

definition Handle :: "local_server \<Rightarrow> local_conn \<Rightarrow> key_files \<Rightarrow> key_files \<times> local_response option" where
  "Handle s conn fs =
     (if \<not> cn_deadline conn then (fs, None)
      else case resolve s conn of
        Inl _ \<Rightarrow> (fs, Some \<lparr>rs_Fingerprint = '''', rs_Error = ''cannot determine local OS identity''\<rparr>)
      | Inr identity \<Rightarrow>
        (case ls_decode s (take localRequestLimit (cn_input conn)) of
           None \<Rightarrow> (fs, Some \<lparr>rs_Fingerprint = '''', rs_Error = ''invalid enrollment request''\<rparr>)
         | Some request \<Rightarrow>
           (case Enroll (ls_keylib s) (cn_faults conn) (cn_rnd conn) (ls_Config s) identity
                   (lr_AgentCN request) (lr_PublicKey request) (ls_KeysDir s) fs of
              (fs', Inl e) \<Rightarrow> (fs', Some \<lparr>rs_Fingerprint = '''', rs_Error = ls_text s e\<rparr>)
            | (fs', Inr result) \<Rightarrow>
                (fs', Some \<lparr>rs_Fingerprint = er_Fingerprint result, rs_Error = ''''\<rparr>))))"

text \<open>\<open>Serve\<close> over what \<open>Accept\<close> returns; a list that runs out leaves the loop waiting.\<close>

datatype accepted = AcceptConn local_conn | AcceptClosed | AcceptError error

fun serve_loop :: "local_server \<Rightarrow> accepted list \<Rightarrow> key_files \<Rightarrow> key_files \<times> bool" where
  "serve_loop s [] fs = (fs, False)"
| "serve_loop s (AcceptClosed # xs) fs = (fs, True)"
| "serve_loop s (AcceptError e # xs) fs = serve_loop s xs fs"
| "serve_loop s (AcceptConn conn # xs) fs = serve_loop s xs (fst (Handle s conn fs))"

definition local_Serve ::
  "local_server \<Rightarrow> accepted list \<Rightarrow> key_files \<Rightarrow> key_files \<times> unit result option" where
  "local_Serve s xs fs =
     (if ls_Config s = None then (fs, Some (Inl (Errorf ''local enrollment server configuration is required'')))
      else if ls_KeysDir s = '''' then (fs, Some (Inl (Errorf ''local enrollment key directory is required'')))
      else case serve_loop s xs fs of (fs', ended) \<Rightarrow> (fs', if ended then Some (Inr ()) else None))"

section \<open>The client\<close>

record enroll_flags =
  ef_socket :: string
  ef_agent :: string
  ef_NArg :: nat

text \<open>
  \<open>runKeyEnroll\<close>: \<open>flags\<close> are the parsed flags, \<open>input\<close> what standard input holds, \<open>dial\<close>
  dials the socket and sets the deadline, \<open>talk\<close> sends a request and reads the response.
  The result is the line printed.
\<close>

definition runKeyEnroll ::
  "(local_request \<Rightarrow> bytes) \<Rightarrow> (bytes \<Rightarrow> local_response option) \<Rightarrow> enroll_flags result \<Rightarrow> bytes result \<Rightarrow>
   (string \<Rightarrow> error option) \<Rightarrow> (bytes \<Rightarrow> ('s, bytes) step) \<Rightarrow> ('s, string) step" where
  "runKeyEnroll enc dec flags input dial talk s =
     (case flags of
        Inl e \<Rightarrow> (s, Inl e)
      | Inr f \<Rightarrow>
        if ef_NArg f \<noteq> 0 then (s, Inl (Errorf ''key-enroll does not accept positional arguments''))
        else if ef_agent f = '''' then (s, Inl (Errorf ''--agent is required''))
        else case input of
          Inl e \<Rightarrow> (s, Inl (Wrap ''read public key from standard input: %w'' e))
        | Inr stdin \<Rightarrow>
          (let keyData = take (MaxPublicKeyBytes + 1) stdin in
           if keyData = [] \<or> length keyData > MaxPublicKeyBytes
           then (s, Inl (Errorf ''public key must contain between 1 and %d bytes''))
           else case dial (ef_socket f) of
             Some e \<Rightarrow> (s, Inl e)
           | None \<Rightarrow>
             (case talk (enc \<lparr>lr_AgentCN = ef_agent f, lr_PublicKey = keyData\<rparr>) s of
                (s', Inl e) \<Rightarrow> (s', Inl (Wrap ''send enrollment request: %w'' e))
              | (s', Inr raw) \<Rightarrow>
                (case dec raw of
                   None \<Rightarrow> (s', Inl (Wrap ''read enrollment response: %w'' (Errorf ''decode'')))
                 | Some response \<Rightarrow>
                   if rs_Error response \<noteq> '''' then (s', Inl (Errorf (rs_Error response)))
                   else if rs_Fingerprint response = '''' then (s', Inl (Errorf ''invalid enrollment response''))
                   else (s', Inr (''Enrolled key for your local OS account on '' @ trim_space (ef_agent f)
                                  @ '': '' @ rs_Fingerprint response @ [CHR 0x0A]))))))"

text \<open>The exchange with a local server; a connection closed without a response reads as no bytes.\<close>

definition atLocal ::
  "local_server \<Rightarrow> (local_response \<Rightarrow> bytes) \<Rightarrow> local_conn \<Rightarrow> bytes \<Rightarrow> (key_files, bytes) step" where
  "atLocal s encResp conn raw fs =
     (case Handle s (conn\<lparr>cn_input := raw\<rparr>) fs of
        (fs', Some r) \<Rightarrow> (fs', Inr (encResp r)) | (fs', None) \<Rightarrow> (fs', Inr []))"

section \<open>The daemon only writes the key of the account that connects\<close>

lemma Handle_cases:
  assumes "Handle s conn fs = (fs', r)"
  shows "(fs' = fs \<and> (\<forall>x. r = Some x \<longrightarrow> rs_Error x \<noteq> '''')) \<or>
    (\<exists>i req r'. resolve s conn = Inr i \<and> ls_decode s (take localRequestLimit (cn_input conn)) = Some req \<and>
       Enroll (ls_keylib s) (cn_faults conn) (cn_rnd conn) (ls_Config s) i (lr_AgentCN req)
         (lr_PublicKey req) (ls_KeysDir s) fs = (fs', r') \<and>
       r = Some (case r' of Inl e \<Rightarrow> \<lparr>rs_Fingerprint = '''', rs_Error = ls_text s e\<rparr>
         | Inr result \<Rightarrow> \<lparr>rs_Fingerprint = er_Fingerprint result, rs_Error = ''''\<rparr>))"
  using assms by (auto simp: Handle_def split: if_splits sum.splits option.splits prod.splits)

lemma Handle_other_owner:
  assumes "valid_owner (ls_KeysDir s) h u" "\<And>i. resolve s conn = Inr i \<Longrightarrow> oi_Username i \<noteq> u"
  shows "LoadAuthorizedKey l kf (ls_KeysDir s) h u (fst (Handle s conn fs))
    = LoadAuthorizedKey l kf (ls_KeysDir s) h u fs"
proof -
  obtain fs' r where H: "Handle s conn fs = (fs', r)" by force
  from Handle_cases [OF H] show ?thesis
    using Enroll_other_owner [OF _ assms(1), of "ls_keylib s" "cn_faults conn" "cn_rnd conn" "ls_Config s"]
      assms(2) H
    by fastforce
qed

lemma serve_loop_other_owner:
  assumes "valid_owner (ls_KeysDir s) h u"
    and "\<forall>conn i. AcceptConn conn \<in> set xs \<longrightarrow> resolve s conn = Inr i \<longrightarrow> oi_Username i \<noteq> u"
  shows "LoadAuthorizedKey l kf (ls_KeysDir s) h u (fst (serve_loop s xs fs))
    = LoadAuthorizedKey l kf (ls_KeysDir s) h u fs"
  using assms(2)
proof (induction xs arbitrary: fs)
  case (Cons x xs)
  have IH: "LoadAuthorizedKey l kf (ls_KeysDir s) h u (fst (serve_loop s xs fs'))
      = LoadAuthorizedKey l kf (ls_KeysDir s) h u fs'" for fs'
    using Cons by auto
  show ?case
  proof (cases x)
    case (AcceptConn conn)
    then show ?thesis using Handle_other_owner [OF assms(1)] Cons.prems IH by auto
  qed (simp_all add: IH)
qed simp

lemma peerIdentity_uid:
  "peerIdentity getent conn = Inr i \<Longrightarrow>
     \<exists>a out. cn_addr conn = Some a \<and> oi_UID i = int (px_UID a) \<and> getent (px_UID a) = Inr out \<and>
       parseGetentPasswd out (px_UID a) = Inr (oi_Username i)"
  by (auto simp: peerIdentity_def lookupUsernameWithGetent_def split: option.splits sum.splits)

text \<open>A record of the passwd database names the account exactly when it has the uid asked for.\<close>

definition passwd_record :: "string \<Rightarrow> string \<Rightarrow> nat \<Rightarrow> string list \<Rightarrow> bytes" where
  "passwd_record name pw uid rest = join_on CHR '':'' (name # pw # format_uint uid # rest) @ [CHR 0x0A]"

lemma trim_space_line:
  assumes "s \<noteq> []" "\<not> is_space (hd s)" "\<not> is_space (last s)"
  shows "trim_space (s @ [CHR 0x0A]) = s"
proof -
  have d: "dropWhile is_space (s @ [CHR 0x0A]) = s @ [CHR 0x0A]"
    using assms(1,2) by (cases s) auto
  have "dropWhile is_space (rev s) = rev s"
    using assms(1,3) by (cases s rule: rev_cases) auto
  then show ?thesis unfolding trim_space_def d by (simp add: is_space_def)
qed

lemma parseGetentPasswd_record:
  assumes name: "name \<noteq> []" "\<not> is_space (hd name)"
    and shell: "shell \<noteq> []" "\<not> is_space (last shell)"
    and uid: "uid < 2 ^ 32" and n: "3 \<le> length mid"
    and chars: "\<forall>f \<in> {name, pw, shell} \<union> set mid. CHR '':'' \<notin> set f \<and> CHR 0x0A \<notin> set f"
  shows "parseGetentPasswd (passwd_record name pw uid (mid @ [shell])) wanted =
    (if wanted = uid then Inr name
     else Inl (Errorf ''getent passwd returned mismatched UID for uid %d''))"
proof -
  define fs where "fs = name # pw # format_uint uid # mid @ [shell]"
  have u: "CHR '':'' \<notin> set (format_uint uid)" "CHR 0x0A \<notin> set (format_uint uid)"
    using format_uint_digits [of uid] by (auto simp: list_all_iff is_digit_def less_eq_char_def)
  have fs: "\<forall>f \<in> set fs. CHR '':'' \<notin> set f \<and> CHR 0x0A \<notin> set f" "fs \<noteq> []"
    using chars u by (auto simp: fs_def)
  have hd: "join_on CHR '':'' fs \<noteq> []" "hd (join_on CHR '':'' fs) = hd name"
    using name(1) by (auto simp: fs_def)
  have "join_on CHR '':'' fs = join_on CHR '':'' (butlast fs) @ CHR '':'' # shell"
    using join_on_append [of "butlast fs" "[shell]"] by (simp add: fs_def butlast_append)
  then have "last (join_on CHR '':'' fs) = last shell" using shell(1) by simp
  then have trim: "trim_space (passwd_record name pw uid (mid @ [shell])) = join_on CHR '':'' fs"
    using trim_space_line [of "join_on CHR '':'' fs"] hd name(2) shell(2)
    by (simp add: passwd_record_def fs_def)
  have nl: "CHR 0x0A \<notin> set (join_on CHR '':'' fs)"
    using fs(1) by (auto dest: set_join_on)
  have "split_on CHR '':'' (join_on CHR '':'' fs) = fs" using fs by simp
  then show ?thesis
    using nl hd(1) n name(1) parse_uint_format [OF uid]
    by (simp add: parseGetentPasswd_def trim Let_def) (simp add: fs_def)
qed

section \<open>What the client reports is what the server stored\<close>

lemma runKeyEnroll_ok:
  assumes "runKeyEnroll enc dec flags input dial talk s = (s', Inr out)"
  shows "\<exists>f stdin raw response. flags = Inr f \<and> input = Inr stdin \<and> length stdin \<le> MaxPublicKeyBytes \<and>
    talk (enc \<lparr>lr_AgentCN = ef_agent f, lr_PublicKey = stdin\<rparr>) s = (s', Inr raw) \<and>
    dec raw = Some response \<and> rs_Error response = '''' \<and> rs_Fingerprint response \<noteq> ''''"
  using assms
  by (auto simp: runKeyEnroll_def Let_def min_def split: sum.splits if_splits option.splits prod.splits)

text \<open>
  C20: When the enrollment client prints success, the account that connected is one the policy lets enroll for that agent,
  the key on standard input is a strong one, and it is the key the server now checks that account's signatures with.
\<close>

lemma enrolled_via_client:
  assumes run: "runKeyEnroll enc dec (Inr f) (Inr stdin) dial (atLocal s encResp conn) fs = (fs', Inr out)"
    and absd: "is_abs (ls_KeysDir s)"
    and encR: "\<And>req n. ls_decode s (take n (enc req)) \<in> {None, Some req}"
    and decR: "\<And>r. dec (encResp r) = Some r" "dec [] = None"
    and textR: "\<And>e. ls_text s e \<noteq> ''''"
    and libR: "\<And>k. parseAuthorizedKey (kl_ssh (ls_keylib s)) (kl_Marshal (ls_keylib s) k) = Some k"
  shows "\<exists>c i k. ls_Config s = Some c \<and>
    resolve s (conn\<lparr>cn_input := enc \<lparr>lr_AgentCN = ef_agent f, lr_PublicKey = stdin\<rparr>\<rparr>) = Inr i \<and>
    may_enroll c i (ef_agent f) \<and> strong_key (kl_kind (ls_keylib s) k) \<and>
    parseAuthorizedKey (kl_ssh (ls_keylib s)) (trim_space stdin) = Some k \<and>
    LoadAuthorizedKey (kl_ssh (ls_keylib s)) (\<lambda>_ _. False) (ls_KeysDir s) (ef_agent f) (oi_Username i) fs' = Inr k"
proof -
  let ?req = "\<lparr>lr_AgentCN = ef_agent f, lr_PublicKey = stdin\<rparr>"
  let ?conn = "conn\<lparr>cn_input := enc ?req\<rparr>"
  from runKeyEnroll_ok [OF run] obtain raw response where t:
    "atLocal s encResp conn (enc ?req) fs = (fs', Inr raw)" "dec raw = Some response"
    "rs_Error response = ''''" by auto
  from t decR have H: "Handle s ?conn fs = (fs', Some response)"
    by (auto simp: atLocal_def split: prod.splits option.splits)
  from Handle_cases [OF H] t(3) textR obtain i req res where h:
    "resolve s ?conn = Inr i" "ls_decode s (take localRequestLimit (enc ?req)) = Some req"
    "Enroll (ls_keylib s) (cn_faults conn) (cn_rnd conn) (ls_Config s) i (lr_AgentCN req)
       (lr_PublicKey req) (ls_KeysDir s) fs = (fs', Inr res)"
    by (fastforce split: sum.splits)
  have req: "req = ?req" using encR [of localRequestLimit ?req] h(2) by auto
  have E: "Enroll (ls_keylib s) (cn_faults conn) (cn_rnd conn) (ls_Config s) i (ef_agent f)
       stdin (ls_KeysDir s) fs = (fs', Inr res)" using h(3) by (simp add: req)
  show ?thesis using Enroll_installs [OF E absd libR, of "\<lambda>_ _. False"] h(1) by auto
qed

end
