(* ===== verification/Vault_Pool.thy ===== *)
theory Vault_Pool
  imports Vault_Sync "HOL-Library.Multiset"
begin

text \<open>
  The connection pool of the agent (\<open>internal/agent/pool\<close>) as the goroutines of the daemon use it:
  a call first looks under the read lock and, when it finds nothing, looks again and dials under
  the write lock, so other calls come in between. After \<open>Close\<close> the maps are nil: reading them
  finds nothing, and storing into them panics. \<open>Vault_Sync.GetClientWithServerName\<close> is one such
  call with nothing in between.
\<close>

section \<open>The pool\<close>

text \<open>
  A nil map is \<open>None\<close>. \<open>cp_opened\<close> and \<open>cp_closed\<close> are histories: the connections \<open>grpc.Dial\<close>
  returned and those \<open>Close\<close> was called on.
\<close>

record ('c, 'p) conn_pool =
  cp_clients :: "(string \<times> 'c) list option"
  cp_conns :: "(string \<times> 'c) list option"
  cp_rootCAs :: "'p list"
  cp_opened :: "'c list"
  cp_closed :: "'c list"

text \<open>\<open>pkg/tlsconfig\<close>; \<open>parsePEM\<close> gives the certificates of a PEM bundle.\<close>

definition LoadCertPool :: "(string \<Rightarrow> bytes result) \<Rightarrow> (bytes \<Rightarrow> 'p list) \<Rightarrow> string \<Rightarrow> 'p list result" where
  "LoadCertPool readFile parsePEM p =
     (if p = '''' then Inl (Errorf ''CA file is required'')
      else case readFile p of
          Inl e \<Rightarrow> Inl (Wrap ''read CA file: %w'' e)
        | Inr pemData \<Rightarrow> if parsePEM pemData = [] then Inl (Errorf ''parse CA file: no certificates found'')
                        else Inr (parsePEM pemData))"

definition pool_New ::
  "(string \<Rightarrow> string \<Rightarrow> error option) \<Rightarrow> (string \<Rightarrow> bytes result) \<Rightarrow> (bytes \<Rightarrow> 'p list) \<Rightarrow> string \<Rightarrow> string \<Rightarrow> string \<Rightarrow>
   ('c, 'p) conn_pool result" where
  "pool_New keyPair readFile parsePEM certFile keyFile caFile =
     (case keyPair certFile keyFile of
        Some e \<Rightarrow> Inl (Wrap ''load cert: %w'' e)
      | None \<Rightarrow> bindE (mapErr (Wrap ''load server CA: %w'') (LoadCertPool readFile parsePEM caFile)) (\<lambda>rootCAs.
          Inr \<lparr>cp_clients = Some [], cp_conns = Some [], cp_rootCAs = rootCAs, cp_opened = [], cp_closed = []\<rparr>))"

datatype 'c got = Client 'c | Refused error | Panicked

text \<open>The look under the read lock.\<close>

definition pool_lookup :: "string \<Rightarrow> ('c, 'p) conn_pool \<Rightarrow> 'c option" where
  "pool_lookup key p = (case cp_clients p of None \<Rightarrow> None | Some m \<Rightarrow> map_of m key)"

text \<open>The part under the write lock; \<open>dialled\<close> is what \<open>grpc.Dial\<close> would return.\<close>

definition pool_fill :: "string \<Rightarrow> 'c result \<Rightarrow> ('c, 'p) conn_pool \<Rightarrow> ('c, 'p) conn_pool \<times> 'c got" where
  "pool_fill key dialled p =
     (case pool_lookup key p of
        Some client \<Rightarrow> (p, Client client)
      | None \<Rightarrow>
          (case dialled of
             Inl e \<Rightarrow> (p, Refused (Wrap ''dial %q: %w'' e))
           | Inr conn \<Rightarrow>
               (let p1 = p\<lparr>cp_opened := cp_opened p @ [conn]\<rparr> in
                case (cp_conns p, cp_clients p) of
                  (Some conns, Some clients) \<Rightarrow>
                    (p1\<lparr>cp_conns := Some (AList.update key conn conns),
                        cp_clients := Some (AList.update key conn clients)\<rparr>, Client conn)
                | _ \<Rightarrow> (p1, Panicked))))"

definition pool_Close :: "('c, 'p) conn_pool \<Rightarrow> ('c, 'p) conn_pool" where
  "pool_Close p = p\<lparr>cp_closed := cp_closed p @ (case cp_conns p of None \<Rightarrow> [] | Some m \<Rightarrow> map snd m),
     cp_conns := None, cp_clients := None\<rparr>"

definition SetClientForTest :: "string \<Rightarrow> 'c \<Rightarrow> ('c, 'p) conn_pool \<Rightarrow> ('c, 'p) conn_pool" where
  "SetClientForTest key client p = p\<lparr>cp_clients := Some (AList.update key client
     (case cp_clients p of None \<Rightarrow> [] | Some m \<Rightarrow> m))\<rparr>"

section \<open>Goroutines\<close>

datatype 'c call = Asked string string | Missed string string | Done string string "'c got"

fun call_key :: "'c call \<Rightarrow> string" where
  "call_key (Asked a n) = cacheKey a n"
| "call_key (Missed a n) = cacheKey a n"
| "call_key (Done a n g) = cacheKey a n"

inductive pool_step :: "('c, 'p) conn_pool \<times> 'c call list \<Rightarrow> ('c, 'p) conn_pool \<times> 'c call list \<Rightarrow> bool" where
  starts: "pool_step (p, cs) (p, cs @ [Asked a n])"
| found: "i < length cs \<Longrightarrow> cs ! i = Asked a n \<Longrightarrow> pool_lookup (cacheKey a n) p = Some c \<Longrightarrow>
     pool_step (p, cs) (p, cs[i := Done a n (Client c)])"
| missed: "i < length cs \<Longrightarrow> cs ! i = Asked a n \<Longrightarrow> pool_lookup (cacheKey a n) p = None \<Longrightarrow>
     pool_step (p, cs) (p, cs[i := Missed a n])"
| filled: "i < length cs \<Longrightarrow> cs ! i = Missed a n \<Longrightarrow> pool_fill (cacheKey a n) dialled p = (p', g) \<Longrightarrow>
     pool_step (p, cs) (p', cs[i := Done a n g])"
| closed: "pool_step (p, cs) (pool_Close p, cs)"

inductive_cases pool_stepE: "pool_step (p, cs) r"

text \<open>
  The invariant, with \<open>m\<close> what the maps hold or held when they were closed: the two maps are the
  same, with one entry per key; a call that got a client got the one of \<open>m\<close>; \<open>Close\<close> closed every connection
  of \<open>m\<close>; and what was opened and is not in \<open>m\<close> (\<open>L\<close>) was dialled by a call that then panicked.
\<close>

definition answers :: "'c call list \<Rightarrow> (string \<times> string \<times> 'c) set" where
  "answers cs = {(a, n, c). Done a n (Client c) \<in> set cs}"

fun panicked :: "'c call \<Rightarrow> bool" where
  "panicked (Done a n Panicked) = True"
| "panicked _ = False"

definition panics :: "'c call list \<Rightarrow> nat" where
  "panics cs = length (filter panicked cs)"

definition held :: "('c, 'p) conn_pool \<Rightarrow> 'c list" where
  "held p = (case cp_conns p of None \<Rightarrow> [] | Some m \<Rightarrow> map snd m)"

definition pool_ok :: "(string \<times> 'c) list \<Rightarrow> 'c multiset \<Rightarrow> ('c, 'p) conn_pool \<Rightarrow> (string \<times> string \<times> 'c) set \<Rightarrow> nat \<Rightarrow> bool" where
  "pool_ok m L p A k \<longleftrightarrow>
     cp_clients p = cp_conns p \<and> distinct (map fst m) \<and> size L = k \<and>
     (\<forall>a n c. (a, n, c) \<in> A \<longrightarrow> map_of m (cacheKey a n) = Some c) \<and>
     mset (cp_opened p) = mset (map snd m) + L \<and>
     (case cp_conns p of
        None \<Rightarrow> mset (cp_closed p) = mset (map snd m)
      | Some m' \<Rightarrow> m' = m \<and> L = {#} \<and> cp_closed p = [])"

definition pool_inv :: "('c, 'p) conn_pool \<times> 'c call list \<Rightarrow> bool" where
  "pool_inv r \<longleftrightarrow> (case r of (p, cs) \<Rightarrow> \<exists>m L. pool_ok m L p (answers cs) (panics cs))"

lemma answers_update:
  assumes "i < length cs" "\<And>b l x. cs ! i \<noteq> Done b l x"
  shows "answers (cs[i := d]) = (case d of Done a n (Client c) \<Rightarrow> insert (a, n, c) (answers cs) | _ \<Rightarrow> answers cs)"
proof -
  have "Done a n (Client c) \<in> set (cs[i := d]) \<longleftrightarrow> d = Done a n (Client c) \<or> Done a n (Client c) \<in> set cs" for a n c
    using assms by (auto simp: in_set_conv_nth nth_list_update) metis
  then show ?thesis
    unfolding answers_def by (auto split: call.split got.split)
qed

lemma panics_update:
  assumes "i < length cs" "\<not> panicked (cs ! i)"
  shows "panics (cs[i := d]) = panics cs + (if panicked d then 1 else 0)"
  using assms by (induction cs arbitrary: i) (auto simp: panics_def split: nat.split)

lemma call_snoc [simp]: "answers (cs @ [Asked a n]) = answers cs" "panics (cs @ [Asked a n]) = panics cs"
  by (auto simp: answers_def panics_def)

lemma AList_update_new: "map_of m k = None \<Longrightarrow> AList.update k v m = m @ [(k, v)]"
  by (induction m) (auto split: if_splits)

text \<open>What the part under the write lock does, in a pool that is open and in one that is closed.\<close>

lemma pool_fill_cases:
  assumes "pool_fill key dialled p = (p', g)" "cp_clients p = cp_conns p"
  obtains (old) c where "pool_lookup key p = Some c" "p' = p" "g = Client c"
    | (refused) e where "p' = p" "g = Refused e"
    | (new) conn m where "cp_conns p = Some m" "map_of m key = None" "g = Client conn"
        "cp_conns p' = Some (m @ [(key, conn)])" "cp_clients p' = Some (m @ [(key, conn)])"
        "cp_opened p' = cp_opened p @ [conn]" "cp_closed p' = cp_closed p"
    | (gone) conn where "cp_conns p = None" "g = Panicked" "cp_conns p' = None" "cp_clients p' = None"
        "cp_opened p' = cp_opened p @ [conn]" "cp_closed p' = cp_closed p"
  using assms
  by (auto simp: pool_fill_def pool_lookup_def Let_def AList_update_new split: option.splits sum.splits)

lemma pool_lookup_ok: "pool_ok m L p A k \<Longrightarrow> pool_lookup key p = Some c \<Longrightarrow> map_of m key = Some c"
  by (auto simp: pool_ok_def pool_lookup_def split: option.splits)

lemma pool_ok_answer: "pool_ok m L p A k \<Longrightarrow> map_of m (cacheKey a n) = Some c \<Longrightarrow> pool_ok m L p (insert (a, n, c) A) k"
  unfolding pool_ok_def by (intro conjI allI impI) auto

lemma pool_fill_ok:
  assumes ok: "pool_ok m L p A k" and f: "pool_fill (cacheKey a n) dialled p = (p', g)"
  shows "\<exists>m' L'. pool_ok m' L' p' (case g of Client c \<Rightarrow> insert (a, n, c) A | _ \<Rightarrow> A) (k + (if g = Panicked then 1 else 0))"
proof -
  have e: "cp_clients p = cp_conns p" using ok by (simp add: pool_ok_def)
  from f e show ?thesis
  proof (cases rule: pool_fill_cases)
    case (old c)
    then have "map_of m (cacheKey a n) = Some c" using pool_lookup_ok [OF ok] by blast
    then have "pool_ok m L p' (insert (a, n, c) A) k" using pool_ok_answer [OF ok] old(2) by simp
    then show ?thesis using old(3) by auto
  next
    case (refused e')
    then show ?thesis using ok by auto
  next
    case (new conn m')
    then have m: "m' = m" using ok by (simp add: pool_ok_def)
    have "map_of (m @ [(cacheKey a n, conn)]) key = (if key = cacheKey a n then Some conn else map_of m key)" for key
      using new(2) m by (auto simp: map_add_def split: option.splits)
    moreover have "cacheKey a n \<notin> fst ` set m" using new(2) m by (simp add: map_of_eq_None_iff)
    moreover have "map_of m (cacheKey b l) = Some c \<and> cacheKey b l \<noteq> cacheKey a n" if "(b, l, c) \<in> A" for b l c
      using ok new(2) m that by (fastforce simp: pool_ok_def)
    ultimately have "pool_ok (m @ [(cacheKey a n, conn)]) L p' (insert (a, n, conn) A) k"
      using ok new m by (auto simp: pool_ok_def simp del: map_of_append)
    then show ?thesis using new(3) by auto
  next
    case (gone conn)
    then have "pool_ok m (add_mset conn L) p' A (k + 1)" using ok by (simp add: pool_ok_def)
    then show ?thesis using gone(2) by auto
  qed
qed

lemma pool_Close_ok: "pool_ok m L p A k \<Longrightarrow> pool_ok m L (pool_Close p) A k"
  by (auto simp: pool_ok_def pool_Close_def split: option.splits)

lemma pool_step_inv: "pool_step r r' \<Longrightarrow> pool_inv r \<Longrightarrow> pool_inv r'"
proof (induction rule: pool_step.induct)
  case (found i cs a n p c)
  then obtain m L where ok: "pool_ok m L p (answers cs) (panics cs)" by (auto simp: pool_inv_def)
  then have "pool_ok m L p (insert (a, n, c) (answers cs)) (panics cs)"
    using pool_ok_answer [OF ok] pool_lookup_ok [OF ok found(3)] by blast
  then show ?case using found by (auto simp: pool_inv_def answers_update panics_update)
next
  case (filled i cs a n dialled p p' g)
  then obtain m L where ok: "pool_ok m L p (answers cs) (panics cs)" by (auto simp: pool_inv_def)
  from pool_fill_ok [OF ok filled(3)] show ?case
    using filled(1,2) by (cases g) (simp_all add: pool_inv_def answers_update panics_update)
qed (auto simp: pool_inv_def answers_update panics_update intro: pool_Close_ok)

lemma pool_run_inv: "pool_step\<^sup>*\<^sup>* r r' \<Longrightarrow> pool_inv r \<Longrightarrow> pool_inv r'"
  by (induction rule: rtranclp_induct) (auto intro: pool_step_inv)

lemma pool_New_inv: "pool_New kp rd pp c k ca = Inr p \<Longrightarrow> pool_inv (p, [])"
  by (auto simp: pool_New_def pool_inv_def pool_ok_def answers_def panics_def bindE_eq_Inr split: option.splits)

text \<open>
  C33: However the goroutines of the agent interleave, a Close of the pool included, calls for one server and name that
  return a client return the same one; every connection ever dialled is held once in the pool, or was closed by Close, or was
  dialled by a call that came after Close and panicked, one for each such call; and before Close no call panics.
\<close>

theorem pool_shares_connections:
  assumes "pool_New keyPair readFile parsePEM certFile keyFile caFile = Inr p0" "pool_step\<^sup>*\<^sup>* (p0, []) (p, cs)"
  shows "(Done a n (Client c) \<in> set cs \<longrightarrow> Done a n (Client c') \<in> set cs \<longrightarrow> c = c') \<and>
    (Done a n (Client c) \<in> set cs \<longrightarrow> c \<in> set (held p) \<or> c \<in> set (cp_closed p)) \<and>
    (\<exists>leaked. mset (cp_opened p) = mset (held p) + mset (cp_closed p) + leaked \<and> size leaked = panics cs) \<and>
    (cp_conns p \<noteq> None \<longrightarrow> panics cs = 0 \<and> cp_closed p = [])"
proof -
  have "pool_inv (p, cs)" using pool_run_inv [OF assms(2)] pool_New_inv [OF assms(1)] by blast
  then obtain m L where ok: "pool_ok m L p (answers cs) (panics cs)" by (auto simp: pool_inv_def)
  have m: "map_of m (cacheKey a n) = Some x" if "Done a n (Client x) \<in> set cs" for x
    using ok that by (simp add: pool_ok_def answers_def)
  have all: "mset (map snd m) = mset (held p) + mset (cp_closed p)"
    using ok by (auto simp: pool_ok_def held_def split: option.splits)
  have "x \<in> set (held p) \<or> x \<in> set (cp_closed p)" if "Done a n (Client x) \<in> set cs" for x
  proof -
    have "x \<in># mset (map snd m)" using map_of_SomeD [OF m [OF that]] by force
    then show ?thesis unfolding all by auto
  qed
  moreover have "mset (cp_opened p) = mset (held p) + mset (cp_closed p) + L \<and> size L = panics cs"
    using ok all by (simp add: pool_ok_def)
  moreover have "cp_conns p \<noteq> None \<longrightarrow> panics cs = 0 \<and> cp_closed p = []"
    using ok by (auto simp: pool_ok_def split: option.splits)
  moreover have "Done a n (Client c) \<in> set cs \<longrightarrow> Done a n (Client c') \<in> set cs \<longrightarrow> c = c'"
    using m [of c] m [of c'] by auto
  ultimately show ?thesis by blast
qed

lemma demo_pool_New: "pool_New (\<lambda>_ _. None) (\<lambda>_. Inr ''pem'') (\<lambda>_. [()]) ''c'' ''k'' ''ca'' =
    Inr (\<lparr>cp_clients = Some [], cp_conns = Some [], cp_rootCAs = [()], cp_opened = [], cp_closed = []\<rparr> :: (nat, unit) conn_pool)"
  by (simp add: pool_New_def LoadCertPool_def)

lemma pool_shares_connections_witness:
  "\<exists>p. pool_step\<^sup>*\<^sup>* (\<lparr>cp_clients = Some [], cp_conns = Some [], cp_rootCAs = [()], cp_opened = [], cp_closed = []\<rparr>, [])
       (p, [Done ''vault:1'' '''' (Client 1), Done ''vault:1'' '''' Panicked]) \<and>
     cp_opened p = [1 :: nat, 2] \<and> cp_closed p = [1] \<and> cp_conns p = None"
proof -
  let ?a = "''vault:1''" and ?k = "cacheKey ''vault:1'' ''''"
  let ?start = "\<lparr>cp_clients = Some [], cp_conns = Some [], cp_rootCAs = [()], cp_opened = [], cp_closed = []\<rparr> :: (nat, unit) conn_pool"
  let ?p = "\<lparr>cp_clients = Some [(?k, 1)], cp_conns = Some [(?k, 1)], cp_rootCAs = [()], cp_opened = [1], cp_closed = []\<rparr> :: (nat, unit) conn_pool"
  let ?q = "\<lparr>cp_clients = None, cp_conns = None, cp_rootCAs = [()], cp_opened = [1], cp_closed = [1]\<rparr> :: (nat, unit) conn_pool"
  let ?A = "Asked ?a '''' :: nat call" and ?M = "Missed ?a '''' :: nat call" and ?D = "Done ?a '''' (Client 1) :: nat call"
  let ?P = "Done ?a '''' Panicked :: nat call" and ?e = "?q\<lparr>cp_opened := [1, 2]\<rparr>"
  have steps: "pool_step (?start, []) (?start, [?A])" "pool_step (?start, [?A]) (?start, [?A, ?A])"
    "pool_step (?start, [?A, ?A]) (?start, [?M, ?A])" "pool_step (?start, [?M, ?A]) (?start, [?M, ?M])"
    "pool_step (?start, [?M, ?M]) (?p, [?D, ?M])" "pool_step (?p, [?D, ?M]) (?q, [?D, ?M])"
    "pool_step (?q, [?D, ?M]) (?e, [?D, ?P])"
    using pool_step.starts [of ?start "[]" ?a "''''"] pool_step.starts [of ?start "[?A]" ?a "''''"]
      pool_step.missed [of 0 "[?A, ?A]" ?a "''''" ?start] pool_step.missed [of 1 "[?M, ?A]" ?a "''''" ?start]
      pool_step.filled [of 0 "[?M, ?M]" ?a "''''" "Inr 1" ?start ?p "Client 1"]
      pool_step.closed [of ?p "[?D, ?M]"]
      pool_step.filled [of 1 "[?D, ?M]" ?a "''''" "Inr 2" ?q ?e Panicked]
    by (simp_all add: pool_lookup_def pool_fill_def pool_Close_def Let_def)
  then have run: "pool_step\<^sup>*\<^sup>* (?start, []) (?e, [?D, ?P])"
    by (meson converse_rtranclp_into_rtranclp rtranclp.rtrancl_refl)
  have "\<exists>leaked. mset (cp_opened ?e) = mset (held ?e) + mset (cp_closed ?e) + leaked \<and> size leaked = panics [?D, ?P]"
    using pool_shares_connections [OF demo_pool_New run, of ?a "''''" 1 1] by blast
  with run show ?thesis by (intro exI [of _ ?e]) simp
qed

section \<open>One call alone\<close>

definition pool_call :: "string \<Rightarrow> string \<Rightarrow> 'c result \<Rightarrow> ('c, 'p) conn_pool \<Rightarrow> ('c, 'p) conn_pool \<times> 'c got" where
  "pool_call address serverName dialled p =
     (case pool_lookup (cacheKey address serverName) p of
        Some client \<Rightarrow> (p, Client client)
      | None \<Rightarrow> pool_fill (cacheKey address serverName) dialled p)"

definition GetClient :: "string \<Rightarrow> 'c result \<Rightarrow> ('c, 'p) conn_pool \<Rightarrow> ('c, 'p) conn_pool \<times> 'c got" where
  "GetClient address = pool_call address ''''"

text \<open>With nothing in between, a call is the one the tasks of the agent make.\<close>

lemma pool_call_refines:
  assumes "pool_call address serverName (av_dial env address serverName) p = (p', g)"
    and "cp_clients p = Some (ag_clients s)" "cp_conns p = Some (ag_clients s)"
  shows "\<exists>m. cp_clients p' = Some m \<and> cp_conns p' = Some m \<and>
    GetClientWithServerName env address serverName s = (s\<lparr>ag_clients := m\<rparr>,
      case g of Client c \<Rightarrow> Inr c | Refused e \<Rightarrow> Inl e | Panicked \<Rightarrow> Inl (Errorf ''panic''))"
  using assms
  by (auto simp: pool_call_def pool_fill_def pool_lookup_def GetClientWithServerName_def Let_def split: option.splits sum.splits)

text \<open>A call that reaches a closed pool and can dial panics: the map it stores the connection in is nil.\<close>

lemma closed_pool_panics: "\<exists>p'. pool_call a n (Inr conn) (pool_Close p) = (p', Panicked) \<and> conn \<in> set (cp_opened p')"
  by (simp add: pool_call_def pool_fill_def pool_lookup_def pool_Close_def)

end
