(* ===== verification/Vault_Signals.thy ===== *)
theory Vault_Signals
  imports Vault_Prelude
begin

text \<open>
  The signal loop of the two programs (\<open>cmd/datavault-agent/main.go\<close>, \<open>cmd/datavault-server/main.go\<close>):
  \<open>SIGHUP\<close> reloads the configuration, the first \<open>SIGTERM\<close> or \<open>SIGINT\<close> shuts the program down and ends
  the loop. A \<open>SIGHUP\<close> comes with what the configuration file holds at that moment. The
  signals are those the loop receives; one that arrives while another is waiting is dropped by
  the channel, which holds one.
\<close>

datatype 'r signal = SIGHUP 'r | SIGTERM | SIGINT

fun reloads :: "'r signal \<Rightarrow> bool" where
  "reloads (SIGHUP _) = True"
| "reloads _ = False"

fun signalLoop :: "('r \<Rightarrow> 's \<Rightarrow> 's) \<Rightarrow> ('s \<Rightarrow> 's) \<Rightarrow> 'r signal list \<Rightarrow> 's \<Rightarrow> 's" where
  "signalLoop reload stop [] s = s"
| "signalLoop reload stop (SIGHUP read # sigs) s = signalLoop reload stop sigs (reload read s)"
| "signalLoop reload stop (SIGTERM # sigs) s = stop s"
| "signalLoop reload stop (SIGINT # sigs) s = stop s"

fun_cases reloadsE: "reloads sig"

lemma all_reloads:
  assumes "list_all reloads sigs"
  obtains reads where "sigs = map SIGHUP reads"
proof -
  have "\<exists>reads. sigs = map SIGHUP reads"
    using assms by (induction sigs) (auto elim!: reloadsE intro: exI [where x = "_ # _"])
  then show ?thesis using that by blast
qed

lemma signalLoop_reloads: "signalLoop reload stop (map SIGHUP reads) s = fold reload reads s"
  by (induction reads arbitrary: s) auto

lemma signalLoop_append:
  "signalLoop reload stop (xs @ ys) s =
     (if list_all reloads xs then signalLoop reload stop ys (signalLoop reload stop xs s)
      else signalLoop reload stop xs s)"
  by (induction reload stop xs s rule: signalLoop.induct) auto

text \<open>After the signal that stops the program no other has an effect.\<close>

lemma signalLoop_final: "\<not> list_all reloads xs \<Longrightarrow> signalLoop reload stop (xs @ ys) s = signalLoop reload stop xs s"
  by (simp add: signalLoop_append)

lemma signalLoop_invariant:
  assumes "\<And>read s. P s \<Longrightarrow> P (reload read s)" "\<And>s. P s \<Longrightarrow> P (stop s)" "P s"
  shows "P (signalLoop reload stop sigs s)"
  using assms by (induction reload stop sigs s rule: signalLoop.induct) auto

lemma signalLoop_stops:
  assumes "\<And>s. Q (stop s)" "\<not> list_all reloads sigs"
  shows "Q (signalLoop reload stop sigs s)"
  using assms by (induction reload stop sigs s rule: signalLoop.induct) auto

end
