(* ===== verification/Vault_AgentServe.thy ===== *)
theory Vault_AgentServe
  imports Vault_AgentRun Vault_GatewaySafe Vault_Enroll Vault_Pool Vault_Signals
begin

text \<open>
  How the agent is reached (\<open>cmd/datavault-agent/main.go\<close>, \<open>httpsapi/server.go\<close>,
  \<open>pkg/auth/peercred_linux.go\<close>): its socket, the credentials of a connection to it, the listener
  of the gateway API, and the API after the configuration was reloaded; then the whole start of the
  program and its signal loop. Listening, serving TLS
  and the socket options are the libraries'; their results are arguments.
\<close>

section \<open>The socket\<close>

text \<open>What is at the path of the socket before and after; the faults are those of the calls.\<close>

definition agentListen :: "(sock_op \<Rightarrow> bool) \<Rightarrow> sock_node option \<Rightarrow> sock_node option \<times> unit result" where
  "agentListen fl n =
     (if n \<noteq> None \<and> fl SkRemove then (n, Inl (Wrap ''remove stale socket: %v'' (Errorf ''remove'')))
      else if fl SkMkdirAll then (None, Inl (Wrap ''create socket directory: %v'' (Errorf ''mkdir'')))
      else if fl SkListen then (None, Inl (Wrap ''listen on %s: %v'' (Errorf ''listen'')))
      else if fl SkChmod then (Some SocketNode, Inl (Wrap ''chmod socket: %v'' (Errorf ''chmod'')))
      else (Some SocketNode, Inr ()))"

lemma agentListen_ok: "\<forall>op. \<not> fl op \<Longrightarrow> agentListen fl n = (Some SocketNode, Inr ())"
  by (simp add: agentListen_def)

text \<open>
  The server's socket refuses to take the place of anything but a socket; the agent removes
  whatever is there, also when it then cannot listen.
\<close>

lemma agentListen_removes:
  assumes "\<not> fl SkRemove"
  shows "fst (agentListen fl (Some OtherNode)) \<noteq> Some OtherNode"
    and "p \<noteq> '''' \<Longrightarrow> fst (ListenLocal fl p (Some OtherNode)) = Some OtherNode"
  using assms by (simp_all add: agentListen_def ListenLocal_def)

section \<open>Credentials\<close>

definition GetPeerCred :: "bool \<Rightarrow> unit result \<Rightarrow> (int \<times> nat \<times> nat) result \<Rightarrow> (int \<times> nat \<times> nat) result" where
  "GetPeerCred isUnix file ucred =
     (if \<not> isUnix then Inl (Errorf ''not a unix socket connection'')
      else case file of
        Inl e \<Rightarrow> Inl (Wrap ''get socket file descriptor: %w'' e)
      | Inr _ \<Rightarrow> mapErr (Wrap ''SO_PEERCRED: %w'') ucred)"

definition GetPeerUID :: "bool \<Rightarrow> unit result \<Rightarrow> (int \<times> nat \<times> nat) result \<Rightarrow> nat result" where
  "GetPeerUID isUnix file ucred = bindE (GetPeerCred isUnix file ucred) (\<lambda>(_, uid, _). Inr uid)"

text \<open>
  The caller the agent sees is the peer of the socket. A failure, also one the system calls
  temporary, comes out wrapped, so an accept loop that asks the error itself for \<open>Temporary()\<close>
  is told nothing.
\<close>

lemma accepted_caller:
  assumes "peer_Accept (GetPeerCred isUnix file ucred) procStatus = Inr a"
  shows "\<exists>pid gid. ucred = Inr (pid, px_UID a, gid) \<and> GetPeerUID isUnix file ucred = Inr (px_UID a)"
  using assms
  by (auto simp: peer_Accept_def GetPeerCred_def GetPeerUID_def mapErr_def bindE_def split: if_splits sum.splits)

lemma accept_error_not_temporary:
  assumes "peer_Accept (GetPeerCred isUnix file ucred) procStatus = Inl e"
  shows "e \<noteq> NetErr timeout temporary"
  using assms by (auto simp: peer_Accept_def GetPeerCred_def mapErr_def split: if_splits sum.splits)

text \<open>The groups of the peer come from its \<open>/proc\<close> entry; \<open>Accept\<close> ignores the error of reading it.\<close>

definition ReadPeerGroups :: "(string \<Rightarrow> bytes result) \<Rightarrow> int \<Rightarrow> nat list result" where
  "ReadPeerGroups readFile pid =
     (case readFile (''/proc/'' @ format_int pid @ ''/status'') of
        Inl e \<Rightarrow> Inl (Wrap ''read /proc/%d/status: %w'' e)
      | Inr data \<Rightarrow> ParseProcStatusGroups data)"

lemma accepted_peer_groups:
  assumes "peer_Accept cred (\<lambda>pid. readFile (''/proc/'' @ format_int pid @ ''/status'')) = Inr a"
  shows "px_Groups a = (case ReadPeerGroups readFile (px_PID a) of Inl e \<Rightarrow> [] | Inr gids \<Rightarrow> gids)"
  using assms by (auto simp: peer_Accept_def ReadPeerGroups_def accepted_groups_def split: sum.splits)

text \<open>Off Linux there are no credentials, so no connection is accepted at all.\<close>

definition GetPeerCred_stub :: "(int \<times> nat \<times> nat) result" where
  "GetPeerCred_stub = Inl (Errorf ''peer credential lookup is supported only on Linux'')"

definition GetPeerUID_stub :: "nat result" where
  "GetPeerUID_stub = bindE GetPeerCred_stub (\<lambda>(_, uid, _). Inr uid)"

definition ReadPeerGroups_stub :: "int \<Rightarrow> nat list result" where
  "ReadPeerGroups_stub pid = Inl (Errorf ''peer groups available only on Linux'')"

lemma stub_accepts_nobody: "\<not> is_ok (peer_Accept GetPeerCred_stub procStatus)" "\<not> is_ok GetPeerUID_stub"
  by (simp_all add: peer_Accept_def GetPeerCred_stub_def GetPeerUID_stub_def)

text \<open>A uid that was put into a context wins over the peer of the connection.\<close>

definition ContextWithPeerUID :: "peer_ctx \<Rightarrow> nat \<Rightarrow> peer_ctx" where
  "ContextWithPeerUID ctx uid = ctx\<lparr>px_value := Some uid\<rparr>"

lemma ContextWithPeerUID_read: "GetPeerUIDFromContext (ContextWithPeerUID ctx uid) = Inr uid"
  by (simp add: GetPeerUIDFromContext_def ContextWithPeerUID_def)

definition addr_Network :: "string option \<Rightarrow> string" where
  "addr_Network addr = getOpt ''unix'' addr"

definition addr_String :: "string option \<Rightarrow> peer_addr \<Rightarrow> string" where
  "addr_String addr a =
     (case addr of
        None \<Rightarrow> ''uid:'' @ format_uint (px_UID a)
      | Some s \<Rightarrow> s @ '' uid:'' @ format_uint (px_UID a))"

section \<open>The gateway API\<close>

definition ListenAndServe ::
  "(string \<Rightarrow> bytes result) \<Rightarrow> (bytes \<Rightarrow> 'p list) \<Rightarrow> (https_config \<Rightarrow> 'p list \<Rightarrow> error) \<Rightarrow> https_config \<Rightarrow> error" where
  "ListenAndServe readFile parsePEM serveTLS api =
     (case LoadCertPool readFile parsePEM (hc_CAFile api) of
        Inl e \<Rightarrow> Wrap ''load gateway CA: %w'' e
      | Inr clientCA \<Rightarrow> serveTLS api clientCA)"

text \<open>The server that is returned, and the error its goroutine ends with, which is only logged.\<close>

definition startHTTPSAPI ::
  "(string \<Rightarrow> bytes result) \<Rightarrow> (bytes \<Rightarrow> 'p list) \<Rightarrow> (https_config \<Rightarrow> 'p list \<Rightarrow> error) \<Rightarrow> agent_config \<Rightarrow> 'w daemon \<Rightarrow>
   ('w gateway \<times> error) option result" where
  "startHTTPSAPI readFile parsePEM serveTLS cfg d =
     (case ac_HTTPSAPI cfg of
        None \<Rightarrow> Inr None
      | Some api \<Rightarrow> bindE (NewServer cfg d) (\<lambda>srv. Inr (Some (srv, ListenAndServe readFile parsePEM serveTLS api))))"

lemma startHTTPSAPI_never_fails: "is_ok (startHTTPSAPI readFile parsePEM serveTLS cfg d)"
  by (auto simp: startHTTPSAPI_def NewServer_def bindE_def is_ok_def split: option.splits)

lemma startHTTPSAPI_no_CA:
  assumes "ac_HTTPSAPI cfg = Some api" "readFile (hc_CAFile api) = Inl e" "hc_CAFile api \<noteq> ''''"
  shows "\<exists>srv. startHTTPSAPI readFile parsePEM serveTLS cfg d =
    Inr (Some (srv, Wrap ''load gateway CA: %w'' (Wrap ''read CA file: %w'' e)))"
  using assms by (auto simp: startHTTPSAPI_def NewServer_def ListenAndServe_def LoadCertPool_def bindE_def)

text \<open>
  A request of the gateway: every time, \<open>gate\<close> takes the API's section of the configuration in
  force and dereferences it. \<open>None\<close> is a nil dereference, which ends the connection.
\<close>

definition gatewayRequest ::
  "'w gw_env \<Rightarrow> 'w poll list \<Rightarrow> http_request \<Rightarrow> 'w gateway \<Rightarrow> ('w gateway \<times> response) option" where
  "gatewayRequest env polls r g =
     (case ac_HTTPSAPI (dm_cfg (gt_daemon g)) of
        None \<Rightarrow> None
      | Some api \<Rightarrow> Some (Handler env (main_deps (gw_svc env)) api polls r g))"

text \<open>So a reload that takes the API's section away leaves a listener that answers nothing more.\<close>

lemma gateway_gone_after_reload:
  assumes "LoadAgentConfig parse (readConfig env (dm_files (gt_daemon g))) = Inr cfg" "ac_HTTPSAPI cfg = None"
  shows "gatewayRequest genv polls r (g\<lparr>gt_daemon := reloadConfig env parse (gt_daemon g)\<rparr>) = None"
  using assms by (simp add: gatewayRequest_def reloadConfig_def)

section \<open>The program\<close>

record 'w agent_proc =
  pr_daemon :: "'w daemon"
  pr_socket :: "sock_node option"
  pr_api :: bool
  pr_up :: bool

definition onFst :: "('a, 'x) step \<Rightarrow> ('a \<times> 'b, 'x) step" where
  "onFst m s = (case m (fst s) of (a, r) \<Rightarrow> ((a, snd s), r))"

definition onSnd :: "('b, 'x) step \<Rightarrow> ('a \<times> 'b, 'x) step" where
  "onSnd m s = (case m (snd s) of (b, r) \<Rightarrow> ((fst s, b), r))"

text \<open>\<open>main\<close> up to serving, on the database and what is at the path of the socket.\<close>

definition launchAgent ::
  "'w svc_env \<Rightarrow> (string \<Rightarrow> agent_config result) \<Rightarrow> db_env \<Rightarrow> (agent_config \<Rightarrow> unit result) \<Rightarrow> (string \<Rightarrow> bool) \<Rightarrow>
   (sock_op \<Rightarrow> bool) \<Rightarrow> (string \<Rightarrow> bytes result) \<Rightarrow> (bytes \<Rightarrow> 'p list) \<Rightarrow> (https_config \<Rightarrow> 'p list \<Rightarrow> error) \<Rightarrow>
   'w daemon \<Rightarrow> (database \<times> sock_node option, 'w agent_proc \<times> scheduler) step" where
  "launchAgent env parse de newPool valid fl readFile parsePEM serveTLS d =
     bindS (onFst (startAgent env parse de newPool valid d)) (\<lambda>(d', sched).
     bindS (onSnd (agentListen fl)) (\<lambda>_.
     bindS (\<lambda>s. (s, mapErr (Wrap ''init https api: %v'') (startHTTPSAPI readFile parsePEM serveTLS (dm_cfg d') d'))) (\<lambda>api.
     (\<lambda>s. (s, Inr (\<lparr>pr_daemon = d', pr_socket = snd s, pr_api = api \<noteq> None, pr_up = True\<rparr>, sched))))))"

text \<open>
  The signal loop: \<open>SIGHUP\<close> comes with the files as they are then. To stop, the gateway API is shut
  down and the socket's listener closed, which removes the socket.
\<close>

definition stopAgent :: "'w agent_proc \<Rightarrow> 'w agent_proc" where
  "stopAgent p = p\<lparr>pr_socket := None, pr_api := False, pr_up := False\<rparr>"

definition agentSignals ::
  "'w svc_env \<Rightarrow> (string \<Rightarrow> agent_config result) \<Rightarrow> (string \<Rightarrow> bytes option) signal list \<Rightarrow> 'w agent_proc \<Rightarrow> 'w agent_proc" where
  "agentSignals env parse =
     signalLoop (\<lambda>files p. p\<lparr>pr_daemon := reloadConfig env parse ((pr_daemon p)\<lparr>dm_files := files\<rparr>)\<rparr>) stopAgent"

text \<open>
  An agent that is up has migrated its database, runs a valid configuration and owns the socket;
  the configuration stays valid over every signal, and one to stop leaves no socket.
\<close>

lemma launchAgent_ok:
  assumes "launchAgent env parse de newPool valid fl readFile parsePEM serveTLS d (db, n) = ((db', n'), Inr (p, sched))"
  shows "migrateAgent (de_schema de) db = (db', Inr ())" "running_config (dm_cfg (pr_daemon p))"
    "pr_socket p = Some SocketNode" "n' = Some SocketNode" "pr_api p \<longleftrightarrow> ac_HTTPSAPI (dm_cfg (pr_daemon p)) \<noteq> None"
proof -
  from assms obtain d' api where st: "startAgent env parse de newPool valid d db = (db', Inr (d', sched))"
      "agentListen fl n = (n', Inr ())" "startHTTPSAPI readFile parsePEM serveTLS (dm_cfg d') d' = Inr api"
      "p = \<lparr>pr_daemon = d', pr_socket = n', pr_api = api \<noteq> None, pr_up = True\<rparr>"
    by (auto simp: launchAgent_def bindS_eq_Inr onFst_def onSnd_def mapErr_eq_Inr split: prod.splits)
  show "running_config (dm_cfg (pr_daemon p))" using startAgent_ok(1) [OF st(1)] st(4) by simp
  show "migrateAgent (de_schema de) db = (db', Inr ())"
    using st(1) by (auto simp: startAgent_def bindS_eq_Inr returnS_def)
  show "pr_socket p = Some SocketNode" "n' = Some SocketNode"
    using st(2,4) by (auto simp: agentListen_def split: if_splits)
  show "pr_api p \<longleftrightarrow> ac_HTTPSAPI (dm_cfg (pr_daemon p)) \<noteq> None"
    using st(3,4) by (auto simp: startHTTPSAPI_def bindE_eq_Inr split: option.splits)
qed

lemma reloadConfig_running: "running_config (dm_cfg d) \<Longrightarrow> running_config (dm_cfg (reloadConfig env parse d))"
  by (auto simp: reloadConfig_def dest: LoadAgentConfig_running split: sum.split)

lemma agentSignals_running:
  "running_config (dm_cfg (pr_daemon p)) \<Longrightarrow> running_config (dm_cfg (pr_daemon (agentSignals env parse sigs p)))"
  unfolding agentSignals_def by (rule signalLoop_invariant) (auto simp: reloadConfig_running stopAgent_def)

lemma agentSignals_stop:
  assumes "\<not> list_all reloads sigs"
  shows "pr_socket (agentSignals env parse sigs p) = None \<and> \<not> pr_api (agentSignals env parse sigs p) \<and>
    \<not> pr_up (agentSignals env parse sigs p)"
  unfolding agentSignals_def by (rule signalLoop_stops [OF _ assms]) (simp add: stopAgent_def)

end
