(* ===== verification/Vault_ServerRun.thy ===== *)
theory Vault_ServerRun
  imports Vault_Enroll Vault_PullRestore Vault_Pool Vault_Database Vault_Signals
begin

text \<open>
  The server process (\<open>cmd/datavault-server/main.go\<close>): its start, the reload of the configuration
  on \<open>SIGHUP\<close>, and the steps it takes, each a remote call behind the interceptor, a connection to
  the enrollment socket or a reload. The configuration is one object both services read, so a
  reload changes it for both at once. A reload that changes the backup pool is left out: the ZFS
  manager and the receiver keep the pool of the start while the handlers name datasets in the new one.
\<close>

section \<open>Start\<close>

record ('z, 'c) start_env =
  st_parse :: "string \<Rightarrow> server_config result"
  st_readConfig :: "string result"
  st_mkdirAll :: "string \<Rightarrow> error option"
  st_sqlOpen :: "string \<Rightarrow> error option"
  st_schema :: schema_faults
  st_exec :: "'z exec"
  st_keyPair :: "string \<Rightarrow> string \<Rightarrow> error option"
  st_readFile :: "string \<Rightarrow> bytes result"
  st_parsePEM :: "bytes \<Rightarrow> 'c list"
  st_sock :: "sock_op \<Rightarrow> bool"
  st_listen :: "string \<Rightarrow> error option"

record 'z machine =
  mc_zfs :: 'z
  mc_socket :: "sock_node option"
  mc_db :: database

record 'c started_server =
  sr_Cfg :: server_config
  sr_mountPoint :: string
  sr_ClientCAs :: "'c list"

definition DefaultSocketPath :: string where
  "DefaultSocketPath = ''/var/run/datavault-key-enroll.sock''"

definition onMachineZfs :: "('z, 'a) step \<Rightarrow> ('z machine, 'a) step" where
  "onMachineZfs m s = (case m (mc_zfs s) of (z, r) \<Rightarrow> (s\<lparr>mc_zfs := z\<rparr>, r))"

definition onSocket :: "(sock_node option \<Rightarrow> sock_node option \<times> 'a result) \<Rightarrow> ('z machine, 'a) step" where
  "onSocket m s = (case m (mc_socket s) of (n, r) \<Rightarrow> (s\<lparr>mc_socket := n\<rparr>, r))"

definition onDatabase :: "(database, 'a) step \<Rightarrow> ('z machine, 'a) step" where
  "onDatabase m s = (case m (mc_db s) of (d, r) \<Rightarrow> (s\<lparr>mc_db := d\<rparr>, r))"

text \<open>
  \<open>runServer\<close> up to the first request; an error is a \<open>log.Fatalf\<close>, which ends the process without
  running the deferred removal of the socket.
\<close>

definition startServer :: "('z, 'c) start_env \<Rightarrow> ('z machine, 'c started_server) step" where
  "startServer st =
     bindS (mapErrS (Wrap ''load config: %v'') (\<lambda>s. (s, LoadServerConfig (st_parse st) (st_readConfig st)))) (\<lambda>cfg.
     bindS (mapErrS (Wrap ''open db: %v'')
       (\<lambda>s. (s, OpenDB (st_mkdirAll st) (st_sqlOpen st) ''/var/lib/datavault/server/state.db''))) (\<lambda>_.
     bindS (onDatabase (migrateServer (st_schema st))) (\<lambda>_.
     bindS (mapErrS (Wrap ''init ZFS: %v'') (\<lambda>s. (s, New (sb_BackupPool (sc_Server cfg))))) (\<lambda>zfsMgr.
     bindS (mapErrS (Wrap ''mount backup pool: %v'')
       (onMachineZfs (EnsureDatasetMounted zfsMgr (st_exec st) (sb_BackupPool (sc_Server cfg))))) (\<lambda>_.
     bindS (mapErrS (Wrap ''get backup pool mountpoint: %v'')
       (onMachineZfs (Mountpoint zfsMgr (st_exec st)))) (\<lambda>mountpoint.
     bindS (checkS (wrapErr ''load TLS cert: %v''
       (st_keyPair st (sb_CertFile (sc_Server cfg)) (sb_KeyFile (sc_Server cfg))))) (\<lambda>_.
     bindS (mapErrS (Wrap ''load client CA: %v'')
       (\<lambda>s. (s, LoadCertPool (st_readFile st) (st_parsePEM st) (sb_CAFile (sc_Server cfg))))) (\<lambda>clientCAs.
     bindS (mapErrS (Wrap ''listen on local key enrollment socket: %v'')
       (onSocket (ListenLocal (st_sock st) DefaultSocketPath))) (\<lambda>_.
     bindS (checkS (wrapErr ''listen: %v'' (st_listen st (sb_Listen (sc_Server cfg))))) (\<lambda>_.
     returnS \<lparr>sr_Cfg = cfg, sr_mountPoint = mountpoint, sr_ClientCAs = clientCAs\<rparr>))))))))))"

text \<open>\<open>SIGHUP\<close>: a configuration that does not load leaves the old one in force.\<close>

definition reloadServer ::
  "(string \<Rightarrow> server_config result) \<Rightarrow> string result \<Rightarrow> server_config \<Rightarrow> server_config" where
  "reloadServer parse read cfg =
     (case LoadServerConfig parse read of Inl _ \<Rightarrow> cfg | Inr newCfg \<Rightarrow> newCfg)"

text \<open>
  The signal loop. Closing the enrollment listener removes its socket, and so does the deferred
  removal when \<open>runServer\<close> returns, for which a missing file is no error.
\<close>

record serving =
  sg_cfg :: server_config
  sg_socket :: "sock_node option"
  sg_up :: bool

definition stopServer :: "serving \<Rightarrow> serving" where
  "stopServer s = s\<lparr>sg_socket := None, sg_up := False\<rparr>"

definition serverSignals ::
  "(string \<Rightarrow> server_config result) \<Rightarrow> string result signal list \<Rightarrow> serving \<Rightarrow> serving" where
  "serverSignals parse =
     signalLoop (\<lambda>read s. s\<lparr>sg_cfg := reloadServer parse read (sg_cfg s)\<rparr>) stopServer"

section \<open>Remote calls\<close>

datatype server_call =
    CallChallenge "bytes option"
  | CallConfig
  | CallQuota quota_request
  | CallPull int "nat \<Rightarrow> ctx_err option" "nat \<Rightarrow> error option" quota_request
  | CallPush string "ctx_err option" "push_turn list"
  | CallRegister delegation_request
  | CallRemove delegation_request
  | CallGrant grant_request

fun call_method :: "server_call \<Rightarrow> string" where
  "call_method (CallChallenge _) = ''GetChallenge''"
| "call_method CallConfig = ''GetGlobalConfig''"
| "call_method (CallQuota _) = ''GetQuotaUsage''"
| "call_method (CallPull _ _ _ _) = ''PullRestore''"
| "call_method (CallPush _ _ _) = ''PushBackup''"
| "call_method (CallRegister _) = ''RegisterDelegationKey''"
| "call_method (CallRemove _) = ''RemoveDelegationKey''"
| "call_method (CallGrant _) = ''RegisterTaskGrant''"

text \<open>What a call leaves behind; the answers are those of the handlers.\<close>

fun dispatch :: "'z server_env \<Rightarrow> request_ctx \<Rightarrow> server_call \<Rightarrow> 'z server_state \<Rightarrow> 'z server_state" where
  "dispatch env cx (CallChallenge rnd) s = fst (GetChallenge env rnd s)"
| "dispatch env cx CallConfig s = fst (GetGlobalConfig env s)"
| "dispatch env cx (CallQuota req) s = fst (GetQuotaUsage env cx req s)"
| "dispatch env cx (CallPull nanos ctxErr sendErr req) s = fst (PullRestore env cx nanos ctxErr sendErr req s)"
| "dispatch env cx (CallPush stamp ctx turns) s = fst (PushBackup env cx stamp ctx turns s)"
| "dispatch env cx (CallRegister req) s = fst (RegisterDelegationKey env cx req s)"
| "dispatch env cx (CallRemove req) s = fst (RemoveDelegationKey env cx req s)"
| "dispatch env cx (CallGrant req) s = fst (RegisterTaskGrant env cx req s)"

text \<open>The methods that stream are behind the interceptor for streams.\<close>

fun streams :: "server_call \<Rightarrow> bool" where
  "streams (CallPush _ _ _) = True"
| "streams (CallPull _ _ _ _) = True"
| "streams _ = False"

definition intercept ::
  "'z server_env \<Rightarrow> peer \<Rightarrow> metadata option \<Rightarrow> server_call \<Rightarrow> nonces \<Rightarrow> nonces \<times> request_ctx result" where
  "intercept env p md call =
     (if streams call then AuthStreamInterceptor else AuthInterceptor)
       (sv_Cfg env) (sv_db env) (sv_now env) p md (service_prefix @ call_method call)"

definition rpc ::
  "'z server_env \<Rightarrow> peer \<Rightarrow> metadata option \<Rightarrow> server_call \<Rightarrow> 'z server_state \<Rightarrow> 'z server_state" where
  "rpc env p md call s =
     (case intercept env p md call (ss_nonces s) of
        (n, Inl e) \<Rightarrow> s\<lparr>ss_nonces := n\<rparr>
      | (n, Inr cx) \<Rightarrow> dispatch env cx call (s\<lparr>ss_nonces := n\<rparr>))"

lemma intercept_eq: "intercept env p md call db =
    AuthInterceptor (sv_Cfg env) (sv_db env) (sv_now env) p md (service_prefix @ call_method call) db"
  by (simp add: intercept_def AuthStreamInterceptor_eq)

section \<open>The process\<close>

record 'z server_proc =
  sd_cfg :: server_config
  sd_state :: "'z server_state"

datatype server_event = Requested peer server_call | Connected local_server local_conn | Reloaded

inductive server_step :: "string \<Rightarrow> 'z server_proc \<Rightarrow> server_event \<Rightarrow> 'z server_proc \<Rightarrow> bool"
  for keysDir where
  request: "sv_Cfg env = sd_cfg p \<Longrightarrow> sv_KeysDir env = keysDir \<Longrightarrow>
     server_step keysDir p (Requested q call) (p\<lparr>sd_state := rpc env q md call (sd_state p)\<rparr>)"
| connect: "ls_Config ls = Some (sd_cfg p) \<Longrightarrow> ls_KeysDir ls = keysDir \<Longrightarrow> ls_ResolveIdentity ls = None \<Longrightarrow>
     server_step keysDir p (Connected ls conn)
       (p\<lparr>sd_state := (sd_state p)\<lparr>ss_keys := fst (Handle ls conn (ss_keys (sd_state p)))\<rparr>\<rparr>)"
| reload: "newCfg = reloadServer parse read (sd_cfg p) \<Longrightarrow>
     sb_BackupPool (sc_Server newCfg) = sb_BackupPool (sc_Server (sd_cfg p)) \<Longrightarrow>
     server_step keysDir p Reloaded (p\<lparr>sd_cfg := newCfg\<rparr>)"

inductive_cases server_step_Requested: "server_step keysDir p (Requested q call) p'"
inductive_cases server_step_Connected: "server_step keysDir p (Connected ls conn) p'"
inductive_cases server_step_Reloaded: "server_step keysDir p Reloaded p'"

inductive server_run :: "string \<Rightarrow> 'z server_proc \<Rightarrow> server_event list \<Rightarrow> 'z server_proc \<Rightarrow> bool"
  for keysDir where
  run_Nil: "server_run keysDir p [] p"
| run_Cons: "server_step keysDir p e p1 \<Longrightarrow> server_run keysDir p1 es p2 \<Longrightarrow> server_run keysDir p (e # es) p2"

section \<open>Who changes an authorized key\<close>

text \<open>\<open>holds p x\<close>: the entry at \<open>p\<close> of the key directory is \<open>x\<close>.\<close>

definition holds :: "string list \<Rightarrow> key_content option \<Rightarrow> 'z server_state \<Rightarrow> bool" where
  "holds p x s \<longleftrightarrow> f_get p (ss_keys s) = x"

lemma holds_upd [simp]:
  "holds p x (s\<lparr>ss_log := l\<rparr>) = holds p x s" "holds p x (s\<lparr>ss_nonces := t\<rparr>) = holds p x s"
  "holds p x (s\<lparr>ss_zfs := z\<rparr>) = holds p x s" "holds p x (s\<lparr>ss_grants := g\<rparr>) = holds p x s"
  "holds p x (s\<lparr>ss_tree := r, ss_tick := n\<rparr>) = holds p x s"
  by (simp_all add: holds_def)

lemma onZfs_holds [keeps_intros]: "keeps (holds p x) (onZfs m)"
  by (simp add: keeps_def onZfs_def case_prod_unfold)

lemma fromResult_keeps [keeps_intros]: "keeps P (fromResult r)"
  by (simp add: keeps_def fromResult_def)

lemma nonce_holds [keeps_intros]: "keeps (holds p x) (consumeServerNonce env n)"
  by (rule consumeServerNonce_keeps) simp

lemma authorize_holds: "keeps (holds p x) v \<Longrightarrow> keeps (holds p x) (authorize env cx m u v)"
  by (rule authorize_keeps) simp_all

lemma validUser_holds [keeps_intros]: "keeps P (validUser u)"
  by (simp add: validUser_def keeps_intros)

lemma verifyRequestSignature_holds [keeps_intros]: "keeps P (verifyRequestSignature env w m h r)"
  by (simp add: keeps_def verifyRequestSignature_def)

lemma read_keys_keeps: "(\<And>s0. keeps P (f s0)) \<Longrightarrow> keeps P (\<lambda>s. f s s)"
  by (simp add: keeps_def)

lemma onKeys_holds: "(\<And>fs. f_get p (fst (m fs)) = f_get p fs) \<Longrightarrow> keeps (holds p x) (onKeys m)"
  by (simp add: keeps_def onKeys_def holds_def case_prod_unfold)

lemma storeGrant_holds [keeps_intros]: "keeps (holds p x) (storeGrant env g)"
  by (auto simp: keeps_def storeGrant_def split: sum.split)

lemma key_path_not_deleg:
  "butlast (key_path K h u) \<noteq> deleg_comps K h' u'" "key_path K h u \<noteq> deleg_comps K h' u' @ [n]"
proof -
  have "length (butlast (key_path K h u)) \<noteq> length (deleg_comps K h' u')"
    "length (key_path K h u) \<noteq> length (deleg_comps K h' u' @ [n])"
    by (simp_all add: key_path_def deleg_comps_def)
  then show "butlast (key_path K h u) \<noteq> deleg_comps K h' u'" "key_path K h u \<noteq> deleg_comps K h' u' @ [n]"
    by metis+
qed

lemma RemoveDelegationKeyFile_frame:
  assumes o: "valid_owner keysDir h u" and fp: "CHR ''/'' \<notin> set fp"
    and "\<And>n. q \<noteq> deleg_comps keysDir h u @ [n]"
  shows "f_get q (fst (RemoveDelegationKeyFile fl keysDir h u fp fs)) = f_get q fs"
proof -
  let ?D = "deleg_comps keysDir h u"
  have D: "normals ?D" using owner_normals [OF o] by simp
  have n: "normal (fp @ ''.pub'')" "normal (fp @ ''.meta'')" using fp by (auto intro!: normal_append)
  have "f_get q (fst (remove_file fl (Join [abs_path ?D, m]) gs)) = f_get q gs" if "normal m" for m gs
    using assms(3) that by (simp add: remove_file_def comps_dir_name [OF D that] f_get_del)
  from this [OF n(1)] this [OF n(2)] show ?thesis
    by (auto simp: RemoveDelegationKeyFile_def Let_def delegationDir_abs [OF o] split: prod.splits sum.splits)
       (metis fst_conv)+
qed

lemma registerDelegation_verify_holds [keeps_intros]:
  "keeps (holds p x) (registerDelegation_verify env h req)"
  unfolding registerDelegation_verify_def Let_def by (rule read_keys_keeps) (intro keeps_intros)

lemma removeDelegation_verify_holds [keeps_intros]:
  "keeps (holds p x) (removeDelegation_verify env h req k)"
  unfolding removeDelegation_verify_def Let_def by (rule read_keys_keeps) (intro keeps_intros)

lemma taskGrant_verify_holds [keeps_intros]: "keeps (holds p x) (taskGrant_verify env h req)"
  unfolding taskGrant_verify_def Let_def by (rule read_keys_keeps) (intro keeps_intros)

lemma bad_user: "\<not> usernameRe u \<Longrightarrow> fst (bindS (validUser u) f s) = s"
  by (auto simp: validUser_def bindS_def checkS_def failS_def ValidateUsername_def failIf_def
      split: prod.splits sum.splits option.splits)

lemma delegation_holds:
  fixes env :: "'z server_env"
  assumes a: "is_abs (sv_KeysDir env)" and h: "hostnameRe (cx_hostname cx)"
  shows "keeps (holds (key_path (sv_KeysDir env) h' u') x) (RegisterDelegationKey env cx req)"
    and "keeps (holds (key_path (sv_KeysDir env) h' u') x) (RemoveDelegationKey env cx req)"
proof -
  let ?P = "holds (key_path (sv_KeysDir env) h' u') x :: 'z server_state \<Rightarrow> bool"
  have o: "valid_owner (sv_KeysDir env) (cx_hostname cx) (dr_Username req)" if "usernameRe (dr_Username req)"
    using that a h by (simp add: valid_owner_def)
  have s: "keeps ?P (onKeys (SaveDelegationKey lib sha fl (sv_KeysDir env) (cx_hostname cx) (dr_Username req) l m))"
    if "usernameRe (dr_Username req)" for lib sha fl l m
    by (intro onKeys_holds SaveDelegationKey_frame o that key_path_not_deleg)
  have r: "keeps ?P (onKeys (RemoveDelegationKeyFile fl (sv_KeysDir env) (cx_hostname cx) (dr_Username req)
      (DelegationFingerprint (sv_sha env) k)))"
    if "usernameRe (dr_Username req)" for fl k
    by (intro onKeys_holds RemoveDelegationKeyFile_frame o that key_path_not_deleg)
       (auto simp: DelegationFingerprint_def dest: b64url_no_sep)
  show "keeps ?P (RegisterDelegationKey env cx req)" "keeps ?P (RemoveDelegationKey env cx req)"
  proof -
    show "keeps ?P (RegisterDelegationKey env cx req)"
    proof (cases "usernameRe (dr_Username req)")
      case True
      show ?thesis unfolding RegisterDelegationKey_def
        by (intro keeps_intros authorize_holds s [OF True])
    qed (simp add: RegisterDelegationKey_def keeps_def bad_user)
    show "keeps ?P (RemoveDelegationKey env cx req)"
    proof (cases "usernameRe (dr_Username req)")
      case True
      then show ?thesis unfolding RemoveDelegationKey_def
        by (auto intro!: keeps_intros authorize_holds r split: option.split)
    qed (simp add: RemoveDelegationKey_def keeps_def bad_user)
  qed
qed

lemma read_calls_hold:
  "keeps (holds p x) (GetChallenge env rnd)" "keeps (holds p x) (GetGlobalConfig env)"
  "keeps (holds p x) (GetQuotaUsage env cx req)" "keeps (holds p x) (RegisterTaskGrant env cx greq)"
proof -
  show "keeps (holds p x) (GetChallenge env rnd)"
    by (auto simp: keeps_def GetChallenge_def Let_def split: option.split sum.split)
  show "keeps (holds p x) (GetGlobalConfig env)"
    by (simp add: GetGlobalConfig_def Let_def keeps_intros)
  show "keeps (holds p x) (GetQuotaUsage env cx req)"
    unfolding GetQuotaUsage_def verifyQuotaSignature_def Let_def by (intro keeps_intros authorize_holds)
  show "keeps (holds p x) (RegisterTaskGrant env cx greq)"
    unfolding RegisterTaskGrant_def
    by (intro keeps_intros authorize_holds) (auto intro!: keeps_intros authorize_holds split: option.split)
qed

lemma PullRestore_holds: "holds p x s \<Longrightarrow> holds p x (fst (PullRestore env cx nanos ctxErr sendErr req s))"
proof -
  assume s: "holds p x s"
  have z: "holds p x s'" if "onZfs m s0 = (s', r)" "holds p x s0" for m :: "('a, 'b) step" and s0 s' r
    using keepsD [OF onZfs_holds that] .
  have z': "holds p x s'" if "mapErrS g (onZfs m) s0 = (s', r)" "holds p x s0"
    for m :: "('a, 'b) step" and s0 s' r g
    using keepsD [OF keeps_mapErr [OF onZfs_holds] that] .
  have st: "holds p x (fst (streamSnapshot env ds nanos ctxErr sendErr s1))" if "holds p x s1" for ds s1
    using that
    by (auto simp: streamSnapshot_def dest!: z z' split: prod.split sum.split option.split)
  let ?auth = "bindS (validUser (qr_Username req)) (\<lambda>_.
             authorize env cx (service_prefix @ ''PullRestore'') (qr_Username req)
               (bindS (verifyPullRestoreSignature env (cx_hostname cx) req) (\<lambda>_.
                consumeServerNonce env (qr_Nonce req))))"
  have "keeps (holds p x) ?auth"
    unfolding verifyPullRestoreSignature_def by (intro keeps_intros authorize_holds)
  then have "holds p x (fst (?auth s))" using s by (simp add: keeps_def)
  then show ?thesis
    using st by (auto simp: PullRestore_def split: prod.split sum.split)
qed

lemma abortUploads_keys: "ss_keys (abortUploads env p) = ss_keys (ps_server p)"
proof -
  have "ss_keys (fold (\<lambda>(path, u) s. s\<lparr>ss_tree := ChunkWriter_Abort (sv_fs env (ss_tick s)) (pu_writer u) (ss_tree s),
                            ss_tick := Suc (ss_tick s)\<rparr>) ups s) = ss_keys s" for ups and s
    by (induction ups arbitrary: s) auto
  then show ?thesis by (simp add: abortUploads_def)
qed

lemma PushBackup_holds:
  fixes env :: "'z server_env"
  assumes "holds k x s"
  shows "holds k x (fst (PushBackup env cx stamp ctx turns s))"
proof -
  let ?P = "\<lambda>p :: 'z push_state. holds k x (ps_server p)"
  have a: "auth_stable ?P" and f: "files_stable ?P" by (simp_all add: auth_stable_def files_stable_def)
  have c: "keeps ?P (checkBatch b)" for b by (simp add: keeps_def checkBatch_def)
  have "keeps (holds k x) (initDataset env h u)" for h u
    unfolding initDataset_def Let_def by (intro keeps_intros)
  then have i: "keeps ?P (firstBatchInit env cx b)" for b
    by (auto simp: keeps_def firstBatchInit_def onServer_def case_prod_unfold)
  have w: "keeps ?P (batchFiles env cx b e)" for b e
    unfolding batchFiles_def by (intro keeps_intros pushFiles_stable f updateS_keeps) simp
  have "keeps ?P (pushBatch env cx b e)" for b e
    unfolding pushBatch_files by (intro keeps_bind c authBatch_keeps a i w)
  then have t: "keeps ?P (pushTurn env cx t)" for t
    by (auto simp: pushTurn_def intro!: keeps_intros split: option.split sum.split)
  have e: "keeps ?P (completeBackup env cx stamp ctx)"
  proof (rule keepsI)
    fix p :: "'z push_state" assume "?P p"
    moreover have "?P (fst (onServer (onZfs m) p))" if "?P p" for m :: "('z, unit) step"
      using that by (simp add: onServer_def onZfs_def case_prod_unfold)
    ultimately show "?P (fst (completeBackup env cx stamp ctx p))"
      by (auto simp: completeBackup_def Let_def split: option.split)
  qed
  have "?P (push_start s)" using assms by (simp add: push_start_def)
  moreover have "keeps ?P (bindS (foldS (pushTurn env cx) turns) (\<lambda>_. completeBackup env cx stamp ctx))"
    by (intro keeps_bind keeps_foldS t e)
  ultimately show ?thesis
    unfolding PushBackup_def
    by (auto simp: holds_def abortUploads_keys keeps_def split: prod.split)
qed

lemma keeps_fst: "keeps P m \<Longrightarrow> P s \<Longrightarrow> P (fst (m s))"
  by (simp add: keeps_def)

text \<open>No remote call changes an authorized key, whoever sends it.\<close>

lemma rpc_holds:
  assumes "server_config_ok (sv_Cfg env)" "is_abs (sv_KeysDir env)"
    and "holds (key_path (sv_KeysDir env) h u) x s"
  shows "holds (key_path (sv_KeysDir env) h u) x (rpc env q md call s)"
proof -
  obtain n r where i: "AuthInterceptor (sv_Cfg env) (sv_db env) (sv_now env) q md
      (service_prefix @ call_method call) (ss_nonces s) = (n, r)" by force
  show ?thesis
  proof (cases r)
    case (Inr cx)
    have "hostnameRe (cx_hostname cx)"
      using AuthInterceptor_ctx(1) [OF i [unfolded Inr]] assms(1) by (auto simp: server_config_ok_def list_all_iff)
    note d = delegation_holds [OF assms(2) this]
    have "holds (key_path (sv_KeysDir env) h u) x (dispatch env cx call s')"
      if "holds (key_path (sv_KeysDir env) h u) x s'" for s'
      using that by (cases call) (auto intro: keeps_fst read_calls_hold d PullRestore_holds PushBackup_holds)
    then show ?thesis using assms(3) i Inr by (simp add: rpc_def intercept_eq)
  qed (use assms(3) i in \<open>simp add: rpc_def intercept_eq\<close>)
qed

lemma reloadServer_ok: "server_config_ok cfg \<Longrightarrow> server_config_ok (reloadServer parse read cfg)"
  using LoadServerConfig_ok by (auto simp: reloadServer_def split: sum.split)

lemma server_step_config: "server_step K p e p' \<Longrightarrow> server_config_ok (sd_cfg p) \<Longrightarrow> server_config_ok (sd_cfg p')"
  by (induction rule: server_step.induct) (auto simp: reloadServer_ok)

lemma key_change_lemma:
  assumes "server_step K p e p'" "server_config_ok (sd_cfg p)" "is_abs K"
    and "hostnameRe h" "usernameRe u"
    and ne: "f_get (key_path K h u) (ss_keys (sd_state p')) \<noteq> f_get (key_path K h u) (ss_keys (sd_state p))"
  shows "\<exists>ls conn a i k. e = Connected ls conn \<and> cn_addr conn = Some a \<and> oi_Username i = u \<and>
    oi_UID i = int (px_UID a) \<and> peerIdentity (ls_getent ls) conn = Inr i \<and> may_enroll (sd_cfg p) i h \<and>
    strong_key (kl_kind (ls_keylib ls) k) \<and>
    f_get (key_path K h u) (ss_keys (sd_state p')) = Some (KeyText (kl_Marshal (ls_keylib ls) k))"
  using assms(1)
proof cases
  case (request env q call md)
  then have "holds (key_path K h u) (f_get (key_path K h u) (ss_keys (sd_state p))) (rpc env q md call (sd_state p))"
    using rpc_holds [of env h u _ "sd_state p" q md call] assms(2,3) by (simp add: holds_def)
  then show ?thesis using ne request by (simp add: holds_def)
next
  case (connect ls conn)
  obtain fs' r where H: "Handle ls conn (ss_keys (sd_state p)) = (fs', r)" by force
  have fs': "ss_keys (sd_state p') = fs'" using connect H by simp
  with ne have "fs' \<noteq> ss_keys (sd_state p)" by auto
  with Handle_cases [OF H] obtain i r' and req :: local_request where h: "resolve ls conn = Inr i"
    "Enroll (ls_keylib ls) (cn_faults conn) (cn_rnd conn) (ls_Config ls) i (lr_AgentCN req)
       (lr_PublicKey req) (ls_KeysDir ls) (ss_keys (sd_state p)) = (fs', r')" by blast
  from Enroll_cases [OF h(2)] \<open>fs' \<noteq> ss_keys (sd_state p)\<close> connect obtain k r'' where k: "may_enroll (sd_cfg p) i (lr_AgentCN req)"
    "acceptKey (ls_keylib ls) (lr_PublicKey req) = Inr k"
    "installKey (cn_faults conn) (cn_rnd conn) K (lr_AgentCN req) (oi_Username i)
       (kl_Marshal (ls_keylib ls) k) (ss_keys (sd_state p)) = (fs', r'')" by auto
  have v: "valid_owner K (lr_AgentCN req) (oi_Username i)" by (rule may_enroll_owner [OF k(1) assms(3)])
  have "key_path K h u \<noteq> abs_comps K @ [lr_AgentCN req, temp_name (oi_Username i) (cn_rnd conn)]"
    using temp_not_key [OF assms(5), of "oi_Username i" "cn_rnd conn"] by (auto simp: key_path_def)
  then have "key_path K h u = key_path K (lr_AgentCN req) (oi_Username i)"
    using installKey_frame [OF k(3) v, of "key_path K h u"] ne fs' by metis
  then have own: "h = lr_AgentCN req \<and> u = oi_Username i" by (auto simp: key_path_def)
  have pi: "peerIdentity (ls_getent ls) conn = Inr i" using h(1) connect by (simp add: resolve_def)
  from installKey_key [OF k(3) v] own ne fs'
  have "f_get (key_path K h u) fs' = Some (KeyText (kl_Marshal (ls_keylib ls) k))" by (auto split: if_splits)
  then show ?thesis
    using own pi k peerIdentity_uid [OF pi] acceptKey_strong(1) [OF k(2)] connect fs' by auto
next
  case (reload newCfg parse read)
  then show ?thesis using ne by simp
qed

text \<open>
  C7: Over every run of the server, requests, enrollment connections and reloads in any order, the configuration in force
  stays valid, and an authorized key stays as it is as long as its own account does not connect to the enrollment socket.
\<close>

lemma other_keys_kept:
  assumes "server_run K p evs p'" "server_config_ok (sd_cfg p)" "is_abs K" "hostnameRe h" "usernameRe u"
    and "\<forall>ls conn i. Connected ls conn \<in> set evs \<longrightarrow> peerIdentity (ls_getent ls) conn = Inr i \<longrightarrow> oi_Username i \<noteq> u"
  shows "server_config_ok (sd_cfg p') \<and>
    f_get (key_path K h u) (ss_keys (sd_state p')) = f_get (key_path K h u) (ss_keys (sd_state p))"
  using assms(1,2,6)
proof (induction rule: server_run.induct)
  case (run_Cons p e p1 es p2)
  have c: "server_config_ok (sd_cfg p1)" by (rule server_step_config [OF run_Cons.hyps(1) run_Cons.prems(1)])
  have "f_get (key_path K h u) (ss_keys (sd_state p1)) = f_get (key_path K h u) (ss_keys (sd_state p))"
    using key_change_lemma [OF run_Cons.hyps(1) run_Cons.prems(1) assms(3-5)] run_Cons.prems(2)
    by (metis list.set_intros(1))
  then show ?case using run_Cons.IH [OF c] run_Cons.prems(2) by simp
qed simp

lemma LoadCertPool_ok: "LoadCertPool readFile parsePEM p = Inr cs \<Longrightarrow> cs \<noteq> [] \<and> p \<noteq> ''''"
  by (auto simp: LoadCertPool_def split: if_splits sum.splits)

lemma Mountpoint_usable:
  "Mountpoint z ex s = (s', Inr m) \<Longrightarrow> is_abs m \<and> m \<noteq> ''/''"
  by (auto simp: Mountpoint_def Let_def bindS_eq_Inr result_simps split: if_splits)

lemma ListenLocal_ok:
  "ListenLocal fl p n = (n', Inr ()) \<longleftrightarrow>
     n' = Some SocketNode \<and> p \<noteq> '''' \<and> n \<noteq> Some OtherNode \<and> \<not> (n = Some SocketNode \<and> fl SkRemove) \<and>
     \<not> fl SkMkdirAll \<and> \<not> fl SkLstat \<and> \<not> fl SkListen \<and> \<not> fl SkChmod"
  by (auto simp: ListenLocal_def split: option.splits sock_node.splits if_splits)

text \<open>A file that is not a socket is never replaced.\<close>

lemma ListenLocal_other: "ListenLocal fl p (Some OtherNode) = (n', r) \<Longrightarrow> n' = Some OtherNode \<and> \<not> is_ok r"
  by (auto simp: ListenLocal_def split: if_splits)

text \<open>The configuration stays well-formed, and a signal to stop leaves no socket behind, whatever came before.\<close>

lemma serverSignals_ok: "server_config_ok (sg_cfg s) \<Longrightarrow> server_config_ok (sg_cfg (serverSignals parse sigs s))"
  unfolding serverSignals_def by (rule signalLoop_invariant) (auto simp: reloadServer_ok stopServer_def)

lemma serverSignals_stop:
  assumes "\<not> list_all reloads sigs"
  shows "sg_socket (serverSignals parse sigs s) = None \<and> \<not> sg_up (serverSignals parse sigs s)"
  unfolding serverSignals_def by (rule signalLoop_stops [OF _ assms]) (simp add: stopServer_def)

lemma startServer_lemma:
  assumes "startServer st s = (s', Inr srv)"
  shows "server_config_ok (sr_Cfg srv) \<and> is_abs (sr_mountPoint srv) \<and> sr_mountPoint srv \<noteq> ''/'' \<and>
    sr_ClientCAs srv \<noteq> [] \<and> mc_socket s' = Some SocketNode \<and> mc_socket s \<noteq> Some OtherNode \<and>
    migrateServer (st_schema st) (mc_db s) = (mc_db s', Inr ())"
proof -
  from assms obtain cfg s0 s1 s2 s3 z m cs where
    st: "LoadServerConfig (st_parse st) (st_readConfig st) = Inr cfg"
      "onDatabase (migrateServer (st_schema st)) s = (s0, Inr ())"
      "onMachineZfs (EnsureDatasetMounted z (st_exec st) (sb_BackupPool (sc_Server cfg))) s0 = (s1, Inr ())"
      "onMachineZfs (Mountpoint z (st_exec st)) s1 = (s2, Inr m)"
      "LoadCertPool (st_readFile st) (st_parsePEM st) (sb_CAFile (sc_Server cfg)) = Inr cs"
      "onSocket (ListenLocal (st_sock st) DefaultSocketPath) s2 = (s', Inr ())"
      "srv = \<lparr>sr_Cfg = cfg, sr_mountPoint = m, sr_ClientCAs = cs\<rparr>"
    by (auto simp: startServer_def bindS_eq_Inr result_simps)
  have db: "migrateServer (st_schema st) (mc_db s) = (mc_db s0, Inr ()) \<and> mc_socket s0 = mc_socket s"
    using st(2) by (auto simp: onDatabase_def split: prod.splits)
  have sock: "mc_socket s2 = mc_socket s0 \<and> mc_db s2 = mc_db s0"
    using st(3,4) by (auto simp: onMachineZfs_def split: prod.splits)
  have "is_abs m \<and> m \<noteq> ''/''" using st(4) by (auto simp: onMachineZfs_def dest!: Mountpoint_usable split: prod.splits)
  moreover have "mc_socket s' = Some SocketNode \<and> mc_socket s2 \<noteq> Some OtherNode \<and> mc_db s' = mc_db s2"
    using st(6) by (cases "ListenLocal (st_sock st) DefaultSocketPath (mc_socket s2)") (auto simp: onSocket_def ListenLocal_ok)
  ultimately show ?thesis
    using LoadServerConfig_ok [OF st(1)] LoadCertPool_ok [OF st(5), THEN conjunct1] db by (simp add: st(7) sock)
qed

text \<open>
  C6: An authorized key of a user changes in no step of the server but an enrollment connection whose peer is that account,
  which the policy lets enroll for that agent, and what is then installed is a strong key in its canonical form.
\<close>

theorem key_change:
  assumes "server_step K p e p'" "server_config_ok (sd_cfg p)" "is_abs K" "hostnameRe h" "usernameRe u"
    and "f_get (key_path K h u) (ss_keys (sd_state p')) \<noteq> f_get (key_path K h u) (ss_keys (sd_state p))"
  shows "\<exists>ls conn a i k. e = Connected ls conn \<and> cn_addr conn = Some a \<and> oi_Username i = u \<and>
    oi_UID i = int (px_UID a) \<and> peerIdentity (ls_getent ls) conn = Inr i \<and> may_enroll (sd_cfg p) i h \<and>
    strong_key (kl_kind (ls_keylib ls) k) \<and>
    f_get (key_path K h u) (ss_keys (sd_state p')) = Some (KeyText (kl_Marshal (ls_keylib ls) k))"
  using assms by (rule key_change_lemma)

end
