(* ===== verification/Vault_Pki.thy ===== *)
theory Vault_Pki
  imports Vault_Files Vault_AgentConfig
begin

text \<open>
  The private certificate authority (\<open>pkg/pki/pki.go\<close>): creating it, issuing a client or server
  certificate from it, and writing a certificate and its key. Times are nanoseconds. The
  \<open>crypto/x509\<close>, \<open>encoding/pem\<close> and random-number libraries are a record of functions over the
  template of a certificate; files are those of \<open>Vault_Files\<close>.
\<close>

section \<open>Certificates\<close>

datatype key_usage = UsageCertSign | UsageCRLSign | UsageDigitalSignature | UsageKeyEncipherment

datatype ext_usage = ExtClientAuth | ExtServerAuth

record certificate =
  ct_SerialNumber :: int
  ct_CommonName :: string
  ct_NotBefore :: int
  ct_NotAfter :: int
  ct_IsCA :: bool
  ct_BasicConstraintsValid :: bool
  ct_KeyUsage :: "key_usage list"
  ct_ExtKeyUsage :: "ext_usage list"
  ct_DNSNames :: "string list"
  ct_IPAddresses :: "bytes list"

text \<open>
  \<open>pl_create t parent pub signer\<close> is \<open>x509.CreateCertificate\<close>; the PEM coder takes a block's type
  and bytes. A private key is its DER form, \<open>pl_public\<close> the public key in it.
\<close>

record pki_lib =
  pl_generate :: "bytes result"
  pl_public :: "bytes \<Rightarrow> bytes"
  pl_marshalKey :: "bytes \<Rightarrow> bytes result"
  pl_random :: "int result"
  pl_create :: "certificate \<Rightarrow> certificate \<Rightarrow> bytes \<Rightarrow> bytes \<Rightarrow> bytes result"
  pl_parse :: "bytes \<Rightarrow> certificate result"
  pl_parseKey :: "bytes \<Rightarrow> bytes result"
  pl_pemEncode :: "string \<Rightarrow> bytes \<Rightarrow> bytes"
  pl_pemDecode :: "bytes \<Rightarrow> (string \<times> bytes) option"

definition DefaultCAValidity :: int where
  "DefaultCAValidity = 10 * 365 * 24 * 60 * minute_ns"

definition DefaultLeafValidity :: int where
  "DefaultLeafValidity = 365 * 24 * 60 * minute_ns"

record ca_options =
  cao_CommonName :: string
  cao_ValidFor :: int

record issue_options =
  iso_CommonName :: string
  iso_DNSNames :: "string list"
  iso_IPAddresses :: "bytes list"
  iso_Client :: bool
  iso_Server :: bool
  iso_ValidFor :: int

definition serialNumber :: "pki_lib \<Rightarrow> int result" where
  "serialNumber lib = mapErr (Wrap ''generate serial number: %w'') (pl_random lib)"

definition marshalECPrivateKey :: "pki_lib \<Rightarrow> bytes \<Rightarrow> bytes result" where
  "marshalECPrivateKey lib key = bindE (pl_marshalKey lib key) (\<lambda>der. Inr (pl_pemEncode lib ''EC PRIVATE KEY'' der))"

definition parseCertificate :: "pki_lib \<Rightarrow> bytes \<Rightarrow> certificate result" where
  "parseCertificate lib data =
     (case pl_pemDecode lib data of
        Some (ty, der) \<Rightarrow> if ty \<noteq> ''CERTIFICATE'' then Inl (Errorf ''missing certificate PEM block'')
                         else pl_parse lib der
      | None \<Rightarrow> Inl (Errorf ''missing certificate PEM block''))"

definition parseECPrivateKey :: "pki_lib \<Rightarrow> bytes \<Rightarrow> bytes result" where
  "parseECPrivateKey lib data =
     (case pl_pemDecode lib data of
        Some (ty, der) \<Rightarrow> pl_parseKey lib der
      | None \<Rightarrow> Inl (Errorf ''missing private-key PEM block''))"

definition caTemplate :: "int \<Rightarrow> int \<Rightarrow> string \<Rightarrow> int \<Rightarrow> certificate" where
  "caTemplate serial now cn validFor =
     \<lparr>ct_SerialNumber = serial, ct_CommonName = cn, ct_NotBefore = now - minute_ns, ct_NotAfter = now + validFor,
      ct_IsCA = True, ct_BasicConstraintsValid = True,
      ct_KeyUsage = [UsageCertSign, UsageCRLSign, UsageDigitalSignature],
      ct_ExtKeyUsage = [], ct_DNSNames = [], ct_IPAddresses = []\<rparr>"

definition CreateCA :: "pki_lib \<Rightarrow> int \<Rightarrow> ca_options \<Rightarrow> (bytes \<times> bytes) result" where
  "CreateCA lib now opts =
     (if cao_CommonName opts = '''' then Inl (Errorf ''CA common name is required'')
      else let validFor = (if cao_ValidFor opts = 0 then DefaultCAValidity else cao_ValidFor opts) in
        if validFor \<le> 0 then Inl (Errorf ''CA validity must be positive'')
        else bindE (mapErr (Wrap ''generate CA key: %w'') (pl_generate lib)) (\<lambda>key.
          bindE (serialNumber lib) (\<lambda>serial.
          let template = caTemplate serial now (cao_CommonName opts) validFor in
          bindE (mapErr (Wrap ''create CA certificate: %w'') (pl_create lib template template (pl_public lib key) key)) (\<lambda>certDER.
          bindE (mapErr (Wrap ''marshal CA key: %w'') (marshalECPrivateKey lib key)) (\<lambda>keyPEM.
          Inr (pl_pemEncode lib ''CERTIFICATE'' certDER, keyPEM))))))"

definition leafTemplate :: "int \<Rightarrow> int \<Rightarrow> certificate \<Rightarrow> issue_options \<Rightarrow> int \<Rightarrow> certificate" where
  "leafTemplate serial now caCert opts validFor =
     (let notAfter = (if now + validFor > ct_NotAfter caCert then ct_NotAfter caCert else now + validFor) in
     \<lparr>ct_SerialNumber = serial, ct_CommonName = iso_CommonName opts, ct_NotBefore = now - minute_ns,
      ct_NotAfter = notAfter, ct_IsCA = False, ct_BasicConstraintsValid = False,
      ct_KeyUsage = [UsageDigitalSignature, UsageKeyEncipherment],
      ct_ExtKeyUsage = (if iso_Server opts then [ExtServerAuth] else if iso_Client opts then [ExtClientAuth] else []),
      ct_DNSNames = iso_DNSNames opts, ct_IPAddresses = iso_IPAddresses opts\<rparr>)"

definition Issue :: "pki_lib \<Rightarrow> int \<Rightarrow> bytes \<Rightarrow> bytes \<Rightarrow> issue_options \<Rightarrow> (bytes \<times> bytes) result" where
  "Issue lib now caCertPEM caKeyPEM opts =
     (if iso_CommonName opts = '''' then Inl (Errorf ''certificate common name is required'')
      else if iso_Client opts = iso_Server opts
      then Inl (Errorf ''exactly one of client or server usage is required'')
      else let validFor = (if iso_ValidFor opts = 0 then DefaultLeafValidity else iso_ValidFor opts) in
        if validFor \<le> 0 then Inl (Errorf ''certificate validity must be positive'')
        else bindE (mapErr (Wrap ''parse CA certificate: %w'') (parseCertificate lib caCertPEM)) (\<lambda>caCert.
          if \<not> ct_IsCA caCert then Inl (Errorf ''issuer certificate is not a CA'')
          else bindE (mapErr (Wrap ''parse CA key: %w'') (parseECPrivateKey lib caKeyPEM)) (\<lambda>caKey.
          bindE (mapErr (Wrap ''generate certificate key: %w'') (pl_generate lib)) (\<lambda>key.
          bindE (serialNumber lib) (\<lambda>serial.
          if iso_Server opts \<and> iso_DNSNames opts = [] \<and> iso_IPAddresses opts = []
          then Inl (Errorf ''server certificate requires at least one DNS name or IP address'')
          else
          bindE (mapErr (Wrap ''create certificate: %w'')
            (pl_create lib (leafTemplate serial now caCert opts validFor) caCert (pl_public lib key) caKey)) (\<lambda>certDER.
          bindE (mapErr (Wrap ''marshal certificate key: %w'') (marshalECPrivateKey lib key)) (\<lambda>keyPEM.
          Inr (pl_pemEncode lib ''CERTIFICATE'' certDER, keyPEM))))))))"

section \<open>Writing the pair\<close>

text \<open>\<open>tmp\<close> is the name \<open>os.CreateTemp\<close> picks in the directory of the target.\<close>

definition drop_tmp :: "fs_faults \<Rightarrow> string list \<Rightarrow> tree \<Rightarrow> tree" where
  "drop_tmp fl p fs = (case remove_node fl p fs of Inl _ \<Rightarrow> fs | Inr fs' \<Rightarrow> fs')"

definition pki_writeFileAtomic ::
  "fs_faults \<Rightarrow> string \<Rightarrow> string \<Rightarrow> bytes \<Rightarrow> 32 word \<Rightarrow> (tree, unit) step" where
  "pki_writeFileAtomic fl tmp p contents mode fs =
     (let dir = abs_comps (Dir p); tmpName = dir @ [tmp] in
      case create_temp fl dir tmp fs of
        Inl e \<Rightarrow> (fs, Inl e)
      | Inr fs1 \<Rightarrow>
          if fl ChmodOp tmpName then (drop_tmp fl tmpName fs1, Inl (Errorf ''chmod''))
          else let fs2 = chmod_file tmpName mode fs1 in
          if fl WriteOp tmpName then (drop_tmp fl tmpName fs2, Inl (Errorf ''write''))
          else let fs3 = append_file tmpName contents fs2 in
          if fl CloseOp tmpName then (drop_tmp fl tmpName fs3, Inl (Errorf ''close''))
          else case rename_file fl tmpName (abs_comps p) fs3 of
              Inl e \<Rightarrow> (drop_tmp fl tmpName fs3, Inl e)
            | Inr fs4 \<Rightarrow> (drop_tmp fl tmpName fs4, Inr ()))"

definition certDirectory :: "fs_faults \<Rightarrow> string \<Rightarrow> (tree, unit) step" where
  "certDirectory fl p fs =
     (if \<not> is_abs p then (fs, Inl (Errorf ''certificate paths must be absolute: %q''))
      else case mkdir_all fl (abs_comps (Dir p)) fs of
          Inl e \<Rightarrow> (fs, Inl (Wrap ''create certificate directory: %w'' e))
        | Inr fs' \<Rightarrow> (fs', Inr ()))"

definition WritePair ::
  "fs_faults \<Rightarrow> string \<Rightarrow> string \<Rightarrow> string \<Rightarrow> string \<Rightarrow> bytes \<Rightarrow> bytes \<Rightarrow> (tree, unit) step" where
  "WritePair fl tmp1 tmp2 certPath keyPath certPEM keyPEM =
     bindS (foldS (certDirectory fl) [certPath, keyPath]) (\<lambda>_.
     bindS (pki_writeFileAtomic fl tmp1 certPath certPEM 0x1A4) (\<lambda>_.
     pki_writeFileAtomic fl tmp2 keyPath keyPEM 0x180))"

section \<open>What is issued\<close>

text \<open>The library read back what it wrote: a property of the X.509 and PEM coders.\<close>

definition pki_sound :: "pki_lib \<Rightarrow> bool" where
  "pki_sound lib \<longleftrightarrow>
     (\<forall>ty b. pl_pemDecode lib (pl_pemEncode lib ty b) = Some (ty, b)) \<and>
     (\<forall>t parent pub k der. pl_create lib t parent pub k = Inr der \<longrightarrow> pl_parse lib der = Inr t) \<and>
     (\<forall>k der. pl_marshalKey lib k = Inr der \<longrightarrow> pl_parseKey lib der = Inr k)"

lemma pki_soundD:
  assumes "pki_sound lib"
  shows "pl_pemDecode lib (pl_pemEncode lib ty b) = Some (ty, b)"
    and "pl_create lib t parent pub k = Inr der \<Longrightarrow> pl_parse lib der = Inr t"
    and "pl_marshalKey lib k = Inr der \<Longrightarrow> pl_parseKey lib der = Inr k"
  using assms by (auto simp: pki_sound_def)

lemma parseCertificate_created:
  "pki_sound lib \<Longrightarrow> pl_create lib t parent pub k = Inr der \<Longrightarrow>
     parseCertificate lib (pl_pemEncode lib ''CERTIFICATE'' der) = Inr t"
  by (simp add: parseCertificate_def pki_soundD)

lemma parseECPrivateKey_marshalled:
  "pki_sound lib \<Longrightarrow> marshalECPrivateKey lib k = Inr p \<Longrightarrow> parseECPrivateKey lib p = Inr k"
  by (auto simp: parseECPrivateKey_def marshalECPrivateKey_def result_simps pki_soundD)

lemma CreateCA_parses:
  assumes "CreateCA lib now opts = Inr (certPEM, keyPEM)" and s: "pki_sound lib"
  shows "\<exists>serial key validFor. pl_generate lib = Inr key \<and> 0 < validFor \<and>
    parseCertificate lib certPEM = Inr (caTemplate serial now (cao_CommonName opts) validFor) \<and>
    parseECPrivateKey lib keyPEM = Inr key"
proof -
  define v where "v = (if cao_ValidFor opts = 0 then DefaultCAValidity else cao_ValidFor opts)"
  from assms(1) obtain key serial der where c: "0 < v" "pl_generate lib = Inr key"
    "pl_create lib (caTemplate serial now (cao_CommonName opts) v)
       (caTemplate serial now (cao_CommonName opts) v) (pl_public lib key) key = Inr der"
    "marshalECPrivateKey lib key = Inr keyPEM" "certPEM = pl_pemEncode lib ''CERTIFICATE'' der"
    unfolding CreateCA_def Let_def v_def [symmetric] by (auto simp: result_simps split: if_splits)
  then show ?thesis
    using parseCertificate_created [OF s c(3)] parseECPrivateKey_marshalled [OF s c(4)] by auto
qed

lemma Issue_parses:
  assumes "Issue lib now caCertPEM caKeyPEM opts = Inr (certPEM, keyPEM)" and s: "pki_sound lib"
  shows "\<exists>ca serial validFor. parseCertificate lib caCertPEM = Inr ca \<and> ct_IsCA ca \<and> 0 < validFor \<and>
    parseCertificate lib certPEM = Inr (leafTemplate serial now ca opts validFor) \<and>
    iso_Client opts \<noteq> iso_Server opts \<and> iso_CommonName opts \<noteq> '''' \<and>
    (iso_Server opts \<longrightarrow> iso_DNSNames opts \<noteq> [] \<or> iso_IPAddresses opts \<noteq> [])"
proof -
  define v where "v = (if iso_ValidFor opts = 0 then DefaultLeafValidity else iso_ValidFor opts)"
  from assms(1) obtain ca caKey key serial der where c: "0 < v" "parseCertificate lib caCertPEM = Inr ca" "ct_IsCA ca"
    "pl_create lib (leafTemplate serial now ca opts v) ca (pl_public lib key) caKey = Inr der"
    "certPEM = pl_pemEncode lib ''CERTIFICATE'' der"
    "iso_Client opts \<noteq> iso_Server opts" "iso_CommonName opts \<noteq> ''''"
    "\<not> (iso_Server opts \<and> iso_DNSNames opts = [] \<and> iso_IPAddresses opts = [])"
    unfolding Issue_def Let_def v_def [symmetric] by (auto simp: result_simps split: if_splits) blast+
  then show ?thesis using parseCertificate_created [OF s c(4)] by auto
qed

lemma Issue_leaf:
  assumes "Issue lib now caCertPEM caKeyPEM opts = Inr (certPEM, keyPEM)" "pki_sound lib"
  shows "\<exists>ca leaf. parseCertificate lib caCertPEM = Inr ca \<and> parseCertificate lib certPEM = Inr leaf \<and>
    ct_IsCA ca \<and> \<not> ct_IsCA leaf \<and> ct_NotAfter leaf \<le> ct_NotAfter ca \<and>
    ct_CommonName leaf = iso_CommonName opts \<and>
    ct_ExtKeyUsage leaf = (if iso_Client opts then [ExtClientAuth] else [ExtServerAuth]) \<and>
    UsageCertSign \<notin> set (ct_KeyUsage leaf)"
  using Issue_parses [OF assms] by (auto simp: leafTemplate_def Let_def split: if_splits)

lemma issued_not_issuer:
  assumes "Issue lib now caCertPEM caKeyPEM opts = Inr (certPEM, keyPEM)" "pki_sound lib"
  shows "\<not> is_ok (Issue lib now' certPEM k opts')"
proof -
  obtain leaf where "parseCertificate lib certPEM = Inr leaf" "\<not> ct_IsCA leaf"
    using Issue_leaf [OF assms] by auto
  then show ?thesis by (simp add: Issue_def Let_def)
qed

text \<open>A new authority issues every certificate that is asked for properly.\<close>

lemma CA_issues:
  assumes ca: "CreateCA lib now opts = Inr (caPEM, caKeyPEM)" and s: "pki_sound lib"
    and create: "\<And>t p pub k. is_ok (pl_create lib t p pub k)"
    and o: "iso_CommonName io \<noteq> ''''" "iso_Client io \<noteq> iso_Server io" "0 \<le> iso_ValidFor io"
      "iso_Server io \<Longrightarrow> iso_DNSNames io \<noteq> [] \<or> iso_IPAddresses io \<noteq> []"
  shows "is_ok (Issue lib now' caPEM caKeyPEM io)"
proof -
  obtain key serial validFor where k: "pl_generate lib = Inr key"
    "parseCertificate lib caPEM = Inr (caTemplate serial now (cao_CommonName opts) validFor)"
    "parseECPrivateKey lib caKeyPEM = Inr key" using CreateCA_parses [OF ca s] by auto
  obtain n der where n: "pl_random lib = Inr n" "pl_marshalKey lib key = Inr der"
    using ca k(1) by (auto simp: CreateCA_def Let_def serialNumber_def marshalECPrivateKey_def result_simps split: if_splits)
  have c: "\<exists>der. pl_create lib t p pub k' = Inr der" for t p pub k'
    using create [of t p pub k'] by (auto simp: is_ok_iff)
  show ?thesis
    unfolding Issue_def Let_def
    using o k n c [of "leafTemplate n now' (caTemplate serial now (cao_CommonName opts) validFor) io
        (if iso_ValidFor io = 0 then DefaultLeafValidity else iso_ValidFor io)"
        "caTemplate serial now (cao_CommonName opts) validFor" "pl_public lib key" key]
    by (auto simp: caTemplate_def serialNumber_def marshalECPrivateKey_def
        DefaultLeafValidity_def minute_ns_def second_ns_def)
qed

section \<open>What writing the pair changes\<close>

definition tmp_path :: "string \<Rightarrow> string \<Rightarrow> string list" where
  "tmp_path tmp p = abs_comps (Dir p) @ [tmp]"

lemma drop_tmp_get: "q \<noteq> t \<Longrightarrow> f_get q (drop_tmp fl t fs) = f_get q fs"
  by (auto simp: drop_tmp_def remove_node_def f_get_del split: sum.splits if_splits)

lemma pki_write_frame:
  assumes "pki_writeFileAtomic fl tmp p c mode fs = (fs', r)" "q \<noteq> abs_comps p" "q \<noteq> tmp_path tmp p"
  shows "f_get q fs' = f_get q fs"
  using assms
  by (auto simp: pki_writeFileAtomic_def Let_def tmp_path_def create_temp_def chmod_file_def append_file_def
      rename_file_def drop_tmp_get f_get_put f_get_del split: sum.splits if_splits option.splits node.splits)

lemma pki_write_target:
  assumes w: "pki_writeFileAtomic fl tmp p c mode fs = (fs', r)" and ne: "abs_comps p \<noteq> tmp_path tmp p"
  shows "if is_ok r then \<exists>u. f_get (abs_comps p) fs' = Some (NFile c mode u)
         else f_get (abs_comps p) fs' = f_get (abs_comps p) fs"
proof -
  let ?t = "tmp_path tmp p"
  show ?thesis
  proof (cases "create_temp fl (abs_comps (Dir p)) tmp fs")
    case (Inl e)
    then show ?thesis using w by (auto simp: pki_writeFileAtomic_def)
  next
    case (Inr fs1)
    then have fs1: "fs1 = f_put (?t, NFile [] 0x180 0) fs"
      by (auto simp: create_temp_def tmp_path_def split: if_splits)
    show ?thesis
      using w ne Inr
      unfolding pki_writeFileAtomic_def tmp_path_def [symmetric] Let_def
      by (auto simp: fs1 chmod_file_def append_file_def rename_file_def drop_tmp_get f_get_put f_get_del
          split: if_splits option.splits sum.splits)
  qed
qed

lemma certDirectories_files:
  assumes "foldS (certDirectory fl) ps fs = (fs', r)"
  shows "file_at q fs' = file_at q fs"
proof -
  have "keeps (\<lambda>t. file_at q t = file_at q fs) (foldS (certDirectory fl) ps)"
    by (intro keeps_foldS keepsI) (auto simp: certDirectory_def mkdir_all_files split: sum.split)
  then show ?thesis using assms keepsD by fastforce
qed

text \<open>Both files are in place with their modes, and no other file has changed.\<close>

lemma WritePair_ok:
  assumes W: "WritePair fl tmp1 tmp2 certPath keyPath cert key fs = (fs', Inr ())"
    and ne: "abs_comps certPath \<noteq> abs_comps keyPath"
      "abs_comps certPath \<noteq> tmp_path tmp1 certPath" "abs_comps keyPath \<noteq> tmp_path tmp2 keyPath"
      "abs_comps certPath \<noteq> tmp_path tmp2 keyPath"
  shows "file_at (abs_comps certPath) fs' = Some (cert, 0x1A4) \<and> file_at (abs_comps keyPath) fs' = Some (key, 0x180)"
    and "q \<notin> {abs_comps certPath, abs_comps keyPath, tmp_path tmp1 certPath, tmp_path tmp2 keyPath} \<Longrightarrow>
         file_at q fs' = file_at q fs"
proof -
  from W obtain fs1 fs2 where s: "foldS (certDirectory fl) [certPath, keyPath] fs = (fs1, Inr ())"
    "pki_writeFileAtomic fl tmp1 certPath cert 0x1A4 fs1 = (fs2, Inr ())"
    "pki_writeFileAtomic fl tmp2 keyPath key 0x180 fs2 = (fs', Inr ())"
    unfolding WritePair_def by (auto simp: bindS_eq_Inr simp del: foldS.simps)
  from pki_write_target [OF s(2) ne(2)] obtain u where "f_get (abs_comps certPath) fs2 = Some (NFile cert 0x1A4 u)"
    by auto
  then have "f_get (abs_comps certPath) fs' = Some (NFile cert 0x1A4 u)"
    using pki_write_frame [OF s(3) ne(1,4)] by simp
  moreover from pki_write_target [OF s(3) ne(3)] obtain u' where
    "f_get (abs_comps keyPath) fs' = Some (NFile key 0x180 u')" by auto
  ultimately show "file_at (abs_comps certPath) fs' = Some (cert, 0x1A4) \<and> file_at (abs_comps keyPath) fs' = Some (key, 0x180)"
    by (simp add: file_at_def)
  show "file_at q fs' = file_at q fs"
    if q: "q \<notin> {abs_comps certPath, abs_comps keyPath, tmp_path tmp1 certPath, tmp_path tmp2 keyPath}"
    using q pki_write_frame [OF s(3), of q] pki_write_frame [OF s(2), of q] certDirectories_files [OF s(1), of q]
    by (simp add: file_at_def)
qed

text \<open>When the second file cannot be written the first one stays: a certificate beside an old key.\<close>

lemma WritePair_torn:
  assumes s: "foldS (certDirectory fl) [certPath, keyPath] fs = (fs1, Inr ())"
    and c: "pki_writeFileAtomic fl tmp1 certPath cert 0x1A4 fs1 = (fs2, Inr ())"
    and k: "pki_writeFileAtomic fl tmp2 keyPath key 0x180 fs2 = (fs', Inl e)"
    and ne: "abs_comps certPath \<noteq> abs_comps keyPath"
      "abs_comps certPath \<noteq> tmp_path tmp1 certPath" "abs_comps keyPath \<noteq> tmp_path tmp2 keyPath"
      "abs_comps certPath \<noteq> tmp_path tmp2 keyPath" "abs_comps keyPath \<noteq> tmp_path tmp1 certPath"
  shows "WritePair fl tmp1 tmp2 certPath keyPath cert key fs = (fs', Inl e)"
    and "file_at (abs_comps certPath) fs' = Some (cert, 0x1A4)"
    and "file_at (abs_comps keyPath) fs' = file_at (abs_comps keyPath) fs"
proof -
  show "WritePair fl tmp1 tmp2 certPath keyPath cert key fs = (fs', Inl e)"
    using s c k by (simp add: WritePair_def bindS_def del: foldS.simps)
  from pki_write_target [OF c ne(2)] obtain u where "f_get (abs_comps certPath) fs2 = Some (NFile cert 0x1A4 u)"
    by auto
  then show "file_at (abs_comps certPath) fs' = Some (cert, 0x1A4)"
    using pki_write_frame [OF k ne(1,4)] by (simp add: file_at_def)
  have "f_get (abs_comps keyPath) fs' = f_get (abs_comps keyPath) fs1"
    using pki_write_target [OF k ne(3)] pki_write_frame [OF c ne(1) [symmetric] ne(5)] by simp
  then show "file_at (abs_comps keyPath) fs' = file_at (abs_comps keyPath) fs"
    using certDirectories_files [OF s, of "abs_comps keyPath"] by (simp add: file_at_def)
qed

end
