(* ===== verification/Vault_Cli.thy ===== *)
theory Vault_Cli
  imports Vault_AgentRun Vault_Pki
begin

text \<open>
  The command-line client \<open>dvault\<close> (\<open>cmd/dvault/main.go\<close>) with the signing of \<open>pkg/auth/sshsign.go\<close>.
  A command calls the agent's service as the user who runs it: \<open>du_svc k\<close> is the agent's
  environment at the command's k-th call, \<open>du_ctx\<close> the peer the agent sees. Arguments and flags are
  those the command-line library parsed. What a command prints is its result; where a line is
  only formatted, its operands.
\<close>

section \<open>Signing with the user's SSH agent\<close>

record ssh_agent =
  sa_List :: "bytes list result"
  sa_Sign :: "bytes \<Rightarrow> bytes \<Rightarrow> bytes result"

definition signWithSSHAgentSocket ::
  "(string \<Rightarrow> ssh_agent result) \<Rightarrow> string \<Rightarrow> bytes \<Rightarrow> (bytes \<times> bytes) result" where
  "signWithSSHAgentSocket dial socket payload =
     bindE (mapErr (Wrap ''connect to ssh-agent: %w'') (dial socket)) (\<lambda>ag.
     bindE (mapErr (Wrap ''list ssh-agent keys: %w'') (sa_List ag)) (\<lambda>keys.
     case keys of
       [] \<Rightarrow> Inl (Errorf ''no keys in ssh-agent'')
     | key # _ \<Rightarrow> bindE (mapErr (Wrap ''ssh-agent sign: %w'') (sa_Sign ag key payload)) (\<lambda>sig. Inr (key, sig))))"

definition SignWithSSHAgent ::
  "(string \<Rightarrow> ssh_agent result) \<Rightarrow> string \<Rightarrow> bytes \<Rightarrow> (bytes \<times> bytes) result" where
  "SignWithSSHAgent dial authSock payload =
     (if authSock = '''' then Inl (Errorf ''SSH_AUTH_SOCK not set'')
      else signWithSSHAgentSocket dial authSock payload)"

section \<open>The environment of a command\<close>

record 'w cli_env =
  du_svc :: "nat \<Rightarrow> 'w svc_env"
  du_ctx :: peer_ctx
  du_now :: int
  du_user :: "string result"
  du_authSock :: string
  du_dial :: "string \<Rightarrow> ssh_agent result"
  du_sha :: "bytes \<Rightarrow> bytes"
  du_marshal :: "string \<Rightarrow> string \<Rightarrow> bytes result"
  du_readFile :: "string \<Rightarrow> bytes result"
  du_parseKey :: "string \<Rightarrow> bool"

definition signServerRequest :: "'w cli_env \<Rightarrow> string \<Rightarrow> bytes \<Rightarrow> string \<Rightarrow> bytes result" where
  "signServerRequest env method nonce username =
     bindE (ServerRequestPayload (du_sha env) method nonce (du_marshal env method username)) (\<lambda>payload.
     bindE (SignWithSSHAgent (du_dial env) (du_authSock env) payload) (\<lambda>(_, sig). Inr sig))"

section \<open>Numbers of bytes\<close>

text \<open>The loop of \<open>formatBytes\<close>, with the 64-bit product, and the index into the unit letters.\<close>

function unit_loop :: "int \<Rightarrow> int \<Rightarrow> nat \<Rightarrow> int \<times> nat" where
  "unit_loop v d e = (if v < 1024 then (d, e) else unit_loop (v div 1024) (wrap64 (d * 1024)) (Suc e))"
  by pat_completeness auto
termination
proof (relation "measure (\<lambda>(v, d, e). nat v)")
  fix v d :: int and e :: nat
  assume "\<not> v < 1024"
  then have "v div 1024 < v" by (intro int_div_less_self) auto
  then show "((v div 1024, wrap64 (d * 1024), Suc e), v, d, e) \<in> measure (\<lambda>(v, d, e). nat v)"
    using \<open>\<not> v < 1024\<close> by simp
qed simp

declare unit_loop.simps [simp del]

text \<open>\<open>fmt n d\<close> is \<open>%.1f\<close> of the quotient; no result is an index outside the string of units.\<close>

definition formatBytes :: "(int \<Rightarrow> int \<Rightarrow> string) \<Rightarrow> int \<Rightarrow> string option" where
  "formatBytes fmt n =
     (if n < 1024 then Some (format_int n @ '' B'')
      else case unit_loop (n div 1024) 1024 0 of
          (d, e) \<Rightarrow> if e < length ''KMGTPE''
                    then Some (fmt n d @ '' '' @ [''KMGTPE'' ! e] @ ''iB'') else None)"

section \<open>Rules\<close>

definition cli_ruleAdd :: "'w cli_env \<Rightarrow> string \<Rightarrow> string list \<Rightarrow> string list \<Rightarrow> ('w, string) svc" where
  "cli_ruleAdd env name ps exclude =
     bindS (AddUserRule (du_svc env 0) (du_ctx env)
       \<lparr>rr_Name = name, rr_Paths = ps, rr_Exclude = exclude, rr_Schedule = ''''\<rparr>) (\<lambda>_. returnS name)"

definition cli_ruleRemove :: "'w cli_env \<Rightarrow> string \<Rightarrow> ('w, string) svc" where
  "cli_ruleRemove env name = bindS (RemoveUserRule (du_svc env 0) (du_ctx env) name) (\<lambda>_. returnS name)"

definition rule_status :: "rule_view \<Rightarrow> string \<times> string \<times> string list" where
  "rule_status r = (rv_Name r, if rv_Enabled r then ''enabled'' else ''disabled'', rv_Paths r)"

definition cli_ruleList :: "'w cli_env \<Rightarrow> ('w, (string \<times> string \<times> string list) list) svc" where
  "cli_ruleList env = bindS (ListUserRules (du_svc env 0) (du_ctx env)) (\<lambda>rs. returnS (map rule_status rs))"

definition cli_ruleEnable :: "'w cli_env \<Rightarrow> string \<Rightarrow> ('w, unit) svc" where
  "cli_ruleEnable env name = EnableUserRule (du_svc env 0) (du_ctx env) name"

definition cli_ruleDisable :: "'w cli_env \<Rightarrow> string \<Rightarrow> ('w, unit) svc" where
  "cli_ruleDisable env name = DisableUserRule (du_svc env 0) (du_ctx env) name"

definition cli_adminAdd ::
  "'w cli_env \<Rightarrow> string \<Rightarrow> string list \<Rightarrow> string \<Rightarrow> string list \<Rightarrow> ('w, unit) svc" where
  "cli_adminAdd env name ps schedule exclude =
     AddMachineRule (du_svc env 0) (du_ctx env)
       \<lparr>rr_Name = name, rr_Paths = ps, rr_Exclude = exclude, rr_Schedule = schedule\<rparr>"

definition cli_adminRemove :: "'w cli_env \<Rightarrow> string \<Rightarrow> ('w, unit) svc" where
  "cli_adminRemove env name = RemoveMachineRule (du_svc env 0) (du_ctx env) name"

definition cli_adminList :: "'w cli_env \<Rightarrow> ('w, (string \<times> string \<times> string list) list) svc" where
  "cli_adminList env = bindS (ListMachineRules (du_svc env 0) (du_ctx env)) (\<lambda>rs. returnS (map rule_status rs))"

section \<open>Syncs, quota and restore\<close>

definition cli_syncTrigger :: "'w cli_env \<Rightarrow> string \<Rightarrow> ('w, string) svc" where
  "cli_syncTrigger env ruleName =
     (if du_authSock env = '''' then failS (Errorf ''SSH_AUTH_SOCK is required for user sync'')
      else bindS (TriggerSync (du_svc env 0) (main_service (du_svc env 0)) (du_ctx env) ruleName (du_authSock env))
             (\<lambda>taskId. returnS (''Sync triggered: '' @ taskId)))"

text \<open>The updates printed, and how the command ends; no result while the stream goes on.\<close>

fun printStatus :: "sync_update list \<Rightarrow> unit result option \<Rightarrow> sync_update list \<times> unit result option" where
  "printStatus [] r = ([], case r of None \<Rightarrow> None | Some (Inr _) \<Rightarrow> Some (Inr ())
                               | Some (Inl e) \<Rightarrow> Some (Inl (Wrap ''receive sync status: %w'' e)))"
| "printStatus (u # us) r =
     (if su_Phase u = ''COMPLETED'' \<or> su_Phase u = ''FAILED'' then ([u], Some (Inr ()))
      else case printStatus us r of (shown, x) \<Rightarrow> (u # shown, x))"

definition cli_syncStatus :: "'w cli_env \<Rightarrow> string \<Rightarrow> 'w poll list \<Rightarrow> sync_update list \<times> unit result option" where
  "cli_syncStatus env taskID polls =
     (case GetSyncStatus (du_svc env 0) (main_service (du_svc env 0)) (du_ctx env) taskID polls of
        (us, r) \<Rightarrow> printStatus us r)"

definition signedCall ::
  "'w cli_env \<Rightarrow> string \<Rightarrow> (auth_challenge \<Rightarrow> bytes \<Rightarrow> ('w, 'a) svc) \<Rightarrow> ('w, 'a) svc" where
  "signedCall env method call =
     bindS (svc_GetAuthChallenge (du_svc env 0) (main_service (du_svc env 0)) (du_ctx env) method) (\<lambda>challenge.
     bindS (liftS (signServerRequest env method (ah_Nonce challenge) (ah_Username challenge))) (\<lambda>sig.
     call challenge sig))"

definition cli_quota ::
  "'w cli_env \<Rightarrow> (int \<Rightarrow> int \<Rightarrow> string) \<Rightarrow> ('w, string \<times> string \<times> string option \<times> string option) svc" where
  "cli_quota env fmt =
     signedCall env ''GetQuotaUsage'' (\<lambda>challenge sig.
     bindS (svc_GetQuotaUsage (du_svc env 1) (main_service (du_svc env 1)) (du_ctx env) (ah_Server challenge)
       (ah_Nonce challenge) sig) (\<lambda>usage.
     returnS (qa_Server usage, qa_Dataset usage, formatBytes fmt (qa_UsedBytes usage), formatBytes fmt (qa_QuotaBytes usage))))"

definition cli_restore :: "'w cli_env \<Rightarrow> string \<Rightarrow> ('w, string) svc" where
  "cli_restore env target =
     signedCall env ''PullRestore'' (\<lambda>challenge sig.
     bindS (RequestRestore (du_svc env 1) (main_service (du_svc env 1)) (du_ctx env)
       \<lparr>rq_TargetPath = target, rq_Server = ah_Server challenge, rq_Nonce = ah_Nonce challenge, rq_Signature = sig\<rparr>)
       (\<lambda>taskId. returnS (''Restore started: '' @ taskId)))"

section \<open>Web delegations\<close>


text \<open>Division of a duration by the second, which rounds towards zero.\<close>

definition whole_seconds :: "int \<Rightarrow> int" where
  "whole_seconds ttl = (if 0 \<le> ttl then ttl div second_ns else - (- ttl div second_ns))"


definition active_key :: "string \<Rightarrow> delegation_view list \<Rightarrow> string" where
  "active_key gateway ds =
     foldl (\<lambda>keyLine d. if dv_GatewayCn d = gateway \<and> \<not> dv_Revoked d then dv_DelegationPubkey d else keyLine) '''' ds"

definition cli_webRevoke :: "'w cli_env \<Rightarrow> string \<Rightarrow> ('w, string) svc" where
  "cli_webRevoke env gateway =
     bindS (liftS (mapErr (Wrap ''resolve current user: %w'') (du_user env))) (\<lambda>me.
     bindS (svc_ListWebDelegations (du_svc env 0) (du_ctx env)) (\<lambda>ds.
     let keyLine = active_key gateway ds in
     bindS (checkS (failIf (keyLine = '''') (Errorf ''no active delegation for gateway %q''))) (\<lambda>_.
     bindS (mapErrS (Wrap ''get auth challenge: %w'')
       (svc_GetAuthChallenge (du_svc env 1) (main_service (du_svc env 1)) (du_ctx env) ''RemoveDelegationKey'')) (\<lambda>challenge.
     let payload = DelegationRemovalPayload (du_sha env) (ah_Nonce challenge) me gateway keyLine in
     bindS (liftS (mapErr (Wrap ''sign removal: %w'') (SignWithSSHAgent (du_dial env) (du_authSock env) payload))) (\<lambda>(_, sig).
     bindS (svc_RevokeWebDelegation (du_svc env 2) (main_service (du_svc env 2)) (du_ctx env) gateway
       (ah_Server challenge) (ah_Nonce challenge) sig) (\<lambda>_.
     returnS gateway))))))"

definition delegation_status :: "int \<Rightarrow> delegation_view \<Rightarrow> string \<times> string \<times> int" where
  "delegation_status now d =
     (dv_GatewayCn d, if dv_Revoked d then ''revoked'' else if now > dv_ExpiresAt d then ''expired'' else ''active'',
      dv_ExpiresAt d)"

definition cli_webList :: "'w cli_env \<Rightarrow> ('w, (string \<times> string \<times> int) list) svc" where
  "cli_webList env =
     bindS (svc_ListWebDelegations (du_svc env 0) (du_ctx env)) (\<lambda>ds.
     returnS (map (delegation_status (du_now env div second_ns)) ds))"

section \<open>Certificates\<close>

definition cli_initCA ::
  "pki_lib \<Rightarrow> fs_faults \<Rightarrow> int \<Rightarrow> int \<Rightarrow> string \<Rightarrow> string \<Rightarrow> ca_options \<Rightarrow> string \<Rightarrow> string \<Rightarrow> (tree, string \<times> string) step" where
  "cli_initCA lib fl euid now tmp1 tmp2 opts certPath keyPath =
     bindS (checkS (failIf (euid \<noteq> 0) (Errorf ''dvault cert init-ca must run as root''))) (\<lambda>_.
     bindS (liftS (CreateCA lib now opts)) (\<lambda>(certPEM, keyPEM).
     bindS (mapErrS (Wrap ''write CA: %w'') (WritePair fl tmp1 tmp2 certPath keyPath certPEM keyPEM)) (\<lambda>_.
     returnS (certPath, keyPath))))"

text \<open>\<open>readf\<close> reads a file, \<open>parseIP\<close> is \<open>net.ParseIP\<close>; the addresses of the options are not used.\<close>

fun parse_ips :: "(string \<Rightarrow> bytes option) \<Rightarrow> string list \<Rightarrow> bytes list result" where
  "parse_ips parseIP [] = Inr []"
| "parse_ips parseIP (v # vs) =
     (case parseIP v of None \<Rightarrow> Inl (Errorf ''invalid --ip value %q'')
      | Some ip \<Rightarrow> bindE (parse_ips parseIP vs) (\<lambda>ips. Inr (ip # ips)))"

definition cli_issue ::
  "pki_lib \<Rightarrow> fs_faults \<Rightarrow> (string \<Rightarrow> tree \<Rightarrow> bytes result) \<Rightarrow> (string \<Rightarrow> bytes option) \<Rightarrow> int \<Rightarrow> int \<Rightarrow>
   string \<Rightarrow> string \<Rightarrow> string \<Rightarrow> string \<Rightarrow> issue_options \<Rightarrow> string list \<Rightarrow> string \<Rightarrow> string \<Rightarrow> (tree, string \<times> string) step" where
  "cli_issue lib fl readf parseIP euid now tmp1 tmp2 caCertPath caKeyPath opts ipStrings certPath keyPath =
     bindS (checkS (failIf (euid \<noteq> 0) (Errorf ''dvault cert issue must run as root''))) (\<lambda>_.
     bindS (mapErrS (Wrap ''read CA certificate: %w'') (\<lambda>s. (s, readf caCertPath s))) (\<lambda>caCertPEM.
     bindS (mapErrS (Wrap ''read CA key: %w'') (\<lambda>s. (s, readf caKeyPath s))) (\<lambda>caKeyPEM.
     bindS (liftS (parse_ips parseIP ipStrings)) (\<lambda>ips.
     bindS (liftS (Issue lib now caCertPEM caKeyPEM (opts\<lparr>iso_IPAddresses := ips\<rparr>))) (\<lambda>(certPEM, keyPEM).
     bindS (mapErrS (Wrap ''write issued certificate: %w'') (WritePair fl tmp1 tmp2 certPath keyPath certPEM keyPEM)) (\<lambda>_.
     returnS (certPath, keyPath)))))))"

section \<open>The unit of a number of bytes\<close>

lemma div_lt_mult: "0 < (d::int) \<Longrightarrow> n div d < m \<Longrightarrow> n < m * d"
proof (rule ccontr)
  assume "0 < d" "n div d < m" "\<not> n < m * d"
  then show False using zdiv_mono1 [of "m * d" n d] by simp
qed

lemma unit_loop_exact:
  assumes "v = n div 1024 ^ Suc e" "0 \<le> n" "n < 2 ^ 63" "1024 ^ Suc e \<le> n" "e \<le> 5"
  shows "\<exists>k. unit_loop v (1024 ^ Suc e) e = (1024 ^ Suc k, k) \<and> k \<le> 5 \<and>
    1024 ^ Suc k \<le> n \<and> n < 1024 ^ Suc (Suc k)"
  using assms
proof (induction "5 - e" arbitrary: v e)
  case 0
  then have e: "e = 5" by simp
  have "v < 1024" using 0 by (simp add: e)
  then have "unit_loop v (1024 ^ Suc e) e = (1024 ^ Suc e, e)" by (subst unit_loop.simps) simp
  then show ?case using 0 by (intro exI [of _ 5]) (simp add: e)
next
  case (Suc x)
  show ?case
  proof (cases "v < 1024")
    case True
    then have "unit_loop v (1024 ^ Suc e) e = (1024 ^ Suc e, e)" by (subst unit_loop.simps) simp
    moreover have "n < 1024 ^ Suc (Suc e)"
      using div_lt_mult [of "1024 ^ Suc e" n 1024] True Suc.prems(1) by simp
    ultimately show ?thesis using Suc.prems by (intro exI [of _ e]) simp
  next
    case False
    have e: "Suc e \<le> 5" using Suc.hyps(2) by simp
    have big: "1024 ^ Suc (Suc e) \<le> n"
    proof -
      have "1024 \<le> n div 1024 ^ Suc e" using False Suc.prems(1) by simp
      then have "1024 * 1024 ^ Suc e \<le> n div 1024 ^ Suc e * (1024 ^ Suc e :: int)" by (intro mult_right_mono) auto
      also have "\<dots> \<le> n" using Suc.prems(2) by (metis pos_mod_sign div_mult_mod_eq le_add_same_cancel1 zero_less_numeral zero_less_power)
      finally show ?thesis by simp
    qed
    have "(1024::int) ^ Suc (Suc e) < 2 ^ 63"
      using big Suc.prems(3) by linarith
    moreover have "- (2 ^ 63) \<le> (1024::int) ^ Suc (Suc e)"
      by (rule order_trans [of _ 0]) simp_all
    ultimately have "wrap64 (1024 ^ Suc (Suc e)) = 1024 ^ Suc (Suc e)" by (intro wrap64_id)
    then have w: "wrap64 (1024 ^ Suc e * 1024) = 1024 ^ Suc (Suc e)" by (simp add: mult.commute)
    have "v div 1024 = n div 1024 ^ Suc (Suc e)"
      using zdiv_zmult2_eq [of 1024 n "1024 ^ Suc e"] Suc.prems(1) by (simp add: mult.commute)
    from Suc.hyps(1) [OF _ this Suc.prems(2,3) big e] Suc.hyps(2)
    have "\<exists>k. unit_loop (v div 1024) (1024 ^ Suc (Suc e)) (Suc e) = (1024 ^ Suc k, k) \<and> k \<le> 5 \<and>
        1024 ^ Suc k \<le> n \<and> n < 1024 ^ Suc (Suc k)" by simp
    moreover have "unit_loop v (1024 ^ Suc e) e = unit_loop (v div 1024) (1024 ^ Suc (Suc e)) (Suc e)"
      using False w by (subst unit_loop.simps) simp
    ultimately show ?thesis by simp
  qed
qed

text \<open>No index out of range, and the unit is the one that leaves at least 1 and less than 1024.\<close>

lemma formatBytes_lemma:
  assumes "n < 2 ^ 63"
  shows "formatBytes fmt n = Some (format_int n @ '' B'') \<and> n < 1024 \<or>
    (\<exists>k \<le> 5. formatBytes fmt n = Some (fmt n (1024 ^ Suc k) @ '' '' @ [''KMGTPE'' ! k] @ ''iB'') \<and>
       1024 ^ Suc k \<le> n \<and> n < 1024 ^ Suc (Suc k))"
proof (cases "n < 1024")
  case False
  then obtain k where "unit_loop (n div 1024) (1024 ^ Suc 0) 0 = (1024 ^ Suc k, k)" "k \<le> 5"
      "1024 ^ Suc k \<le> n" "n < 1024 ^ Suc (Suc k)"
    using unit_loop_exact [of "n div 1024" n 0] assms by auto
  then show ?thesis using False by (auto simp: formatBytes_def intro!: exI [of _ k])
qed (simp add: formatBytes_def)

section \<open>The consent that is signed and the request that is registered\<close>








text \<open>One second of delay is enough for the two expiries to differ.\<close>

lemma expiry_differs:
  assumes "0 \<le> n" "ttl = s * second_ns" "0 \<le> s" "s * second_ns < 2 ^ 63"
  shows "(n + ttl) div second_ns = (n' + ttl_ns (whole_seconds ttl)) div second_ns \<longleftrightarrow> n div second_ns = n' div second_ns"
proof -
  have "whole_seconds ttl = s" using assms by (simp add: whole_seconds_def second_ns_def)
  moreover have "ttl_ns s = s * second_ns"
    using assms(3,4) by (simp add: ttl_ns_def wrap64_id second_ns_def)
  ultimately show ?thesis by (simp add: assms(2) second_ns_def)
qed

section \<open>A signed request is accepted\<close>

lemma signServerRequest_verified:
  assumes sig: "signServerRequest env method nonce u = Inr sig" "nonce \<noteq> []" "sig \<noteq> []"
    and sv: "sv_sha senv = du_sha env" "sv_marshalRequest senv = du_marshal env"
    and keys: "LoadSigningKeys (sv_lib senv) (sv_keyfl senv) (sv_KeysDir senv) hostname u (sv_now senv) (ss_keys s) = Inr keys"
    and agent: "\<And>p k x. SignWithSSHAgent (du_dial env) (du_authSock env) p = Inr (k, x) \<Longrightarrow>
      \<exists>y. unmarshalSig (sv_lib senv) x = Some y \<and> VerifyAnyKey (sv_lib senv) keys p y"
  shows "verifyRequestSignature senv what method hostname
    \<lparr>qr_Username = u, qr_Nonce = nonce, qr_Signature = sig\<rparr> s = (s, Inr ())"
proof -
  obtain p k where p: "ServerRequestPayload (du_sha env) method nonce (du_marshal env method u) = Inr p"
    "SignWithSSHAgent (du_dial env) (du_authSock env) p = Inr (k, sig)"
    using sig(1) by (auto simp: signServerRequest_def result_simps)
  from agent [OF p(2)] obtain y where "unmarshalSig (sv_lib senv) sig = Some y" "VerifyAnyKey (sv_lib senv) keys p y"
    by blast
  then show ?thesis using p(1) sig(2,3) sv keys by (simp add: verifyRequestSignature_def)
qed

end
