(* ===== verification/Vault_DemoServices.thy ===== *)
theory Vault_DemoServices
  imports Vault_DemoAgent Vault_DemoCodec Vault_AgentServe Vault_ServerRun Vault_Cli
begin

text \<open>
  The services of the small agent and the small server on which their theorems are applied: the
  agent's socket with root and one user, its gateway API, the enrollment socket of the server and
  the command line client.
\<close>

section \<open>The service\<close>

definition demo_svc :: "bool svc_env" where
  "demo_svc = \<lparr>ve_agent = demo_agent_env,
     ve_user_of = (\<lambda>uid. if uid = 0 then Some ''root'' else if uid = 1000 then Some ''alice'' else None),
     ve_group_of = (\<lambda>_. None), ve_passwd = demo_lookup, ve_enc = pack_rules, ve_dec = unpack_rules,
     ve_rulefl = (\<lambda>_. False), ve_rulepart = [], ve_rulesDir = ''/rules'', ve_fs = (\<lambda>_ _. False),
     ve_ConfigPath = ''/etc/agent.yaml'', ve_yaml = (\<lambda>_. Inr ''config''), ve_cfgfl = (\<lambda>_. False), ve_part = [],
     ve_tmp = ''.agent.yaml.1'', ve_socket = (\<lambda>_. Inr (True, 1000)), ve_sign = (\<lambda>_ b. Inr b), ve_pubkey = (\<lambda>_. True)\<rparr>"

definition demo_daemon :: "bool daemon" where
  "demo_daemon = \<lparr>dm_agent = demo_agent, dm_tree = demo_home, dm_rules = (\<lambda>_. None), dm_deleg = [],
     dm_cfg = demo_agent_cfg, dm_files = (\<lambda>_. None), dm_started = [], dm_warned = []\<rparr>"

definition peer :: "nat \<Rightarrow> peer_ctx" where
  "peer uid = \<lparr>px_value = None, px_addr = Some \<lparr>px_UID = uid, px_PID = 1, px_GID = uid, px_Groups = []\<rparr>\<rparr>"

definition demo_rule_request :: "string \<Rightarrow> rule_request" where
  "demo_rule_request p = \<lparr>rr_Name = ''docs'', rr_Paths = [p], rr_Exclude = [], rr_Schedule = ''@daily''\<rparr>"

lemma demo_rules_host: "rules_host ''/rules'' pack_rules unpack_rules (av_lookup demo_agent_env) demo_svc"
  by (auto simp: rules_host_def demo_svc_def)

definition demo_gw :: "bool gw_env" where
  "demo_gw = \<lparr>gw_svc = demo_svc, gw_account = (\<lambda>u. if u = ''alice'' then Some (''1000'', ''/home/alice'') else None),
     gw_marshal = (\<lambda>m u. Inr (m @ u)), gw_sha = (\<lambda>b. b), gw_lib = demo_lib,
     gw_genkey = Inr \<lparr>ky_pub = ''e'', ky_sign = (\<lambda>b. Inr (''e'' @ b))\<rparr>, gw_authline = (\<lambda>b. b)\<rparr>"

definition demo_ident :: identity where
  "demo_ident = \<lparr>id_GatewayCN = ''gw'', id_Username = ''alice'', id_UID = 1000, id_HomeDir = ''/home/alice''\<rparr>"

definition demo_gateway :: "bool gateway" where
  "demo_gateway = \<lparr>gt_daemon = demo_daemon\<lparr>dm_deleg := [\<lparr>wd_Username = ''alice'', wd_GatewayCN = ''gw'',
       wd_DelegationPubKey = ''k'', wd_ExpiresAt = 5000, wd_CreatedAt = 0, wd_RevokedAt = None\<rparr>]\<rparr>,
     gt_gatewayLimiter = newRateLimiter 100 200, gt_userLimiter = newRateLimiter 1 10, gt_ephemeral = []\<rparr>"

definition demo_body :: json_body where
  "demo_body = \<lparr>jb_name = [], jb_paths = [], jb_exclude = [], jb_method = ''sync'', jb_rule = [], jb_target_path = [],
     jb_server = []\<rparr>"

definition demo_http :: http_request where
  "demo_http = \<lparr>ht_cn = Some ''gw'', ht_method = ''POST'', ht_path = [], ht_values = [], ht_body = Some demo_body,
     ht_nonce = None, ht_signature = None, ht_query_server = [], ht_event_stream = False\<rparr>"

lemma rules_stay_safe_witness:
  "\<exists>g. agent_run {demo_gw} (\<lambda>_. Inl (Errorf ''yaml'')) demo_gateway {} g \<and>
     rules_inv ''/rules'' unpack_rules (av_lookup demo_agent_env) {} (gt_daemon g) \<and>
     map_option unpack_rules (dm_rules (gt_daemon g) ''/rules/alice.yaml'') =
       Some (Inr [\<lparr>Name = ''docs'', Paths = [''/home/alice/docs''], Exclude = [], Schedule = '''', Enabled = True\<rparr>])"
proof -
  let ?d = "fst (serve demo_svc (peer 1000) (ReqAddUserRule (demo_rule_request ''/home/alice/docs'')) (gt_daemon demo_gateway))"
  let ?g = "demo_gateway\<lparr>gt_daemon := ?d\<rparr>"
  have svc: "gw_svc demo_gw = demo_svc" by (simp add: demo_gw_def)
  have "agent_step demo_gw (\<lambda>_. Inl (Errorf ''yaml'')) demo_gateway ?g"
    unfolding svc [symmetric] by (intro agent_step.on_host daemon_step.request) simp
  from next_step [OF begin_run _ this] have
    "agent_run {demo_gw} (\<lambda>_. Inl (Errorf ''yaml'')) demo_gateway ({} \<union> torn_rules demo_gw demo_gateway ?g) ?g" by simp
  moreover have "torn_rules demo_gw demo_gateway ?g = {}"
    using demo_rules_host by (simp add: torn_rules_def svc) (simp add: demo_svc_def)
  ultimately have run: "agent_run {demo_gw} (\<lambda>_. Inl (Errorf ''yaml'')) demo_gateway {} ?g" by simp
  moreover have "rules_inv ''/rules'' unpack_rules (av_lookup demo_agent_env) {} (gt_daemon ?g)"
  proof (rule rules_stay_safe [OF run])
    show "\<forall>env \<in> {demo_gw}. rules_host ''/rules'' pack_rules unpack_rules (av_lookup demo_agent_env) (gw_svc env) \<and>
        gw_host (av_lookup demo_agent_env) env"
      using demo_rules_host by (simp add: svc gw_host_def) (simp add: demo_gw_def demo_agent_env_def)
    show "codec_ok pack_rules unpack_rules" by (simp add: codec_ok_def unpack_rules_Nil)
    show "is_abs ''/rules''" by code_simp
    show "rules_inv ''/rules'' unpack_rules (av_lookup demo_agent_env) {} (gt_daemon demo_gateway)"
      by (simp add: rules_inv_def file_safe_def demo_gateway_def demo_daemon_def)
  qed
  moreover have "map_option unpack_rules (dm_rules (gt_daemon ?g) ''/rules/alice.yaml'') =
       Some (Inr [\<lparr>Name = ''docs'', Paths = [''/home/alice/docs''], Exclude = [], Schedule = '''', Enabled = True\<rparr>])"
    by code_simp
  ultimately show ?thesis by blast
qed

text \<open>An invalid rule is saved, and so is a valid one after it: the file still does not load.\<close>

lemma machine_rule_restart_witness:
  "\<exists>g d'. agent_run {demo_gw} (\<lambda>_. Inl (Errorf ''yaml'')) demo_gateway {} g \<and>
     AddMachineRule demo_svc (peer 0) (demo_rule_request ''/etc'') (gt_daemon g) = (d', Inr ()) \<and>
     LoadAgentConfig (\<lambda>_. Inr (dm_cfg d')) (readConfig demo_svc (dm_files d')) =
       Inl (Errorf ''machine_rules[%d] path must be absolute: %q'')"
proof -
  let ?bad = "(demo_rule_request ''etc'')\<lparr>rr_Name := ''bad''\<rparr>" and ?r = "demo_rule_request ''/etc''"
  let ?d = "fst (serve demo_svc (peer 0) (ReqAddMachineRule ?bad) (gt_daemon demo_gateway))"
  let ?g = "demo_gateway\<lparr>gt_daemon := ?d\<rparr>"
  have svc: "gw_svc demo_gw = demo_svc" by (simp add: demo_gw_def)
  have step: "agent_step demo_gw parse demo_gateway ?g" for parse
    unfolding svc [symmetric] by (intro agent_step.on_host daemon_step.request) simp
  have torn: "torn_rules demo_gw demo_gateway ?g = {}"
    using demo_rules_host by (simp add: torn_rules_def svc) (simp add: demo_svc_def)
  have run: "agent_run {demo_gw} parse demo_gateway {} ?g" for parse
    using next_step [OF begin_run _ step] torn by fastforce
  obtain d' r where add: "AddMachineRule demo_svc (peer 0) ?r (gt_daemon ?g) = (d', r)" by (rule prod.exhaust)
  have "snd (AddMachineRule demo_svc (peer 0) ?r (gt_daemon ?g)) = Inr ()"
    and valid: "validateAgent (dm_cfg (gt_daemon demo_gateway)) = None"
    and bad: "firstErr validateMachineRule (ac_MachineRules (dm_cfg (gt_daemon ?g)) @ [requestedMachineRule ?r]) =
      Some (Errorf ''machine_rules[%d] path must be absolute: %q'')"
    by code_simp+
  with add have add: "AddMachineRule demo_svc (peer 0) ?r (gt_daemon ?g) = (d', Inr ())" by simp
  have dflt: "agentDefaults (dm_cfg (gt_daemon demo_gateway)) = dm_cfg (gt_daemon demo_gateway)"
    by (simp add: demo_gateway_def demo_daemon_def demo_agent_cfg_def agentDefaults_def retryDefaults_def)
  have "running_config (dm_cfg (gt_daemon demo_gateway))" using valid dflt by (simp add: running_config_def)
  from machine_rule_restart [OF run this add, of "\<lambda>_. Inr (dm_cfg d')"]
  have "LoadAgentConfig (\<lambda>_. Inr (dm_cfg d')) (readConfig demo_svc (dm_files d')) =
      Inl (Errorf ''machine_rules[%d] path must be absolute: %q'')"
    unfolding bad by simp
  then show ?thesis using run add by blast
qed

section \<open>The gateway API\<close>

lemma rate_limit_witness:
  "rl_granted ''alice'' [(0, ''alice''), (0, ''bob''), (0, ''alice''), (0, ''alice''), (10 ^ 9, ''alice'')] (newRateLimiter 1 2) \<le> 3"
proof -
  let ?rl = "newRateLimiter 1 2" and ?rs = "[(0, ''alice''), (0, ''bob''), (0, ''alice''), (0, ''alice''), (10 ^ 9, ''alice'')]"
  have "of_nat (rl_granted ''alice'' ?rs ?rl) \<le> rl_burst ?rl + of_int (10 ^ 9 - 0) / 10 ^ 9 * rl_rate ?rl"
    by (rule rate_limit) (simp_all add: newRateLimiter_def)
  then have "(of_nat (rl_granted ''alice'' ?rs ?rl) :: rat) \<le> of_nat 3" by (simp add: newRateLimiter_def)
  then show ?thesis by (simp only: of_nat_le_iff)
qed

abbreviation demo_challenged where
  "demo_challenged \<equiv> handleChallenge demo_gw (main_deps demo_svc) demo_ident demo_http demo_gateway"

lemma demo_rate: "rateUser demo_gw demo_ident demo_gateway = (fst (rateUser demo_gw demo_ident demo_gateway), Inr ())"
  "gt_daemon (fst (rateUser demo_gw demo_ident demo_gateway)) = gt_daemon demo_gateway"
  by (simp_all add: rateUser_def rl_allow_def refill_def newRateLimiter_def demo_gateway_def Let_def)

lemma demo_challenge:
  "\<exists>g' resp payload. demo_challenged = (g', Inr resp) \<and> rs_body resp = ChallengeBody ''n'' payload 1300 ''vault:8443'' \<and>
     dm_deleg (gt_daemon g') = dm_deleg (gt_daemon demo_gateway)"
proof -
  let ?d = "gt_daemon demo_gateway"
  obtain d1 r where d1: "main_GetAuthChallenge demo_svc ?d = (d1, r)" by (rule prod.exhaust)
  have "snd (main_GetAuthChallenge demo_svc ?d) =
      Inr \<lparr>ah_Nonce = ''n'', ah_ExpiresAt = 1300, ah_Server = ''vault:8443'', ah_Username = []\<rparr>"
    and "dm_deleg (fst (main_GetAuthChallenge demo_svc ?d)) = dm_deleg ?d"
    and m: "jb_method demo_body = ''sync''" "jb_server demo_body = []" "ht_body demo_http = Some demo_body"
    by code_simp+
  with d1 have "main_GetAuthChallenge demo_svc ?d =
      (d1, Inr \<lparr>ah_Nonce = ''n'', ah_ExpiresAt = 1300, ah_Server = ''vault:8443'', ah_Username = []\<rparr>)"
    "dm_deleg d1 = dm_deleg ?d" by simp_all
  moreover obtain g1 where "rateUser demo_gw demo_ident demo_gateway = (g1, Inr ())" "gt_daemon g1 = ?d"
    using demo_rate by metis
  ultimately show ?thesis
    using m by (simp add: handleChallenge_def decodeBody_def bindG_def valueG_def onDaemon_def main_deps_def
        challengePayload_def payloadOr500_def syncChallengePayload_def demo_gw_def writeJSON_def Let_def)
qed

lemma sync_ceremony_witness:
  "\<exists>g payload entry h'. extractSigned demo_gw demo_ident
      (demo_http\<lparr>ht_nonce := Some ''n'', ht_signature := Some (''k'' @ payload)\<rparr>) (buildGrant demo_gw demo_ident) g =
        (h', Inr (\<lparr>sg_nonce = ''n'', sg_signature = ''k'' @ payload, sg_payload = payload\<rparr>, entry)) \<and>
     ee_grantExpiresAt entry = 22600 * second_ns"
proof -
  obtain g' resp payload where ch: "demo_challenged = (g', Inr resp)"
    "rs_body resp = ChallengeBody ''n'' payload 1300 ''vault:8443''"
    and dl: "dm_deleg (gt_daemon g') = dm_deleg (gt_daemon demo_gateway)"
    using demo_challenge by blast
  let ?r = "demo_http\<lparr>ht_nonce := Some ''n'', ht_signature := Some (''k'' @ payload)\<rparr>"
  let ?w = "\<lparr>wd_Username = ''alice'', wd_GatewayCN = ''gw'', wd_DelegationPubKey = ''k'', wd_ExpiresAt = 5000,
    wd_CreatedAt = 0, wd_RevokedAt = None\<rparr>"
  have b: "ht_body demo_http = Some demo_body" "jb_method demo_body = ''sync''"
    and now: "gw_now demo_gw = 1000 * second_ns" "taskGrantTTL = 21600 * second_ns"
    by (simp_all add: demo_http_def demo_body_def gw_now_def demo_gw_def demo_svc_def demo_agent_env_def second_ns_def
        taskGrantTTL_def hour_ns_def minute_ns_def)
  have d: "gwDelegation demo_gw demo_ident g' = Inr (Some ?w)"
    by (simp add: gwDelegation_def GetWebDelegation_def dl demo_gateway_def row_find_def wd_key_def demo_ident_def gw_db_def
        demo_gw_def demo_svc_def demo_agent_env_def no_faults_def)
  have v: "verifyDelegated demo_gw (Some ?w) payload (''k'' @ payload)"
    using now by (simp add: verifyDelegated_def activeDelegation_def demo_gw_def demo_lib_def second_ns_def)
  have "\<exists>entry h'. extractSigned demo_gw demo_ident ?r (buildGrant demo_gw demo_ident) g' =
      (h', Inr (\<lparr>sg_nonce = ''n'', sg_signature = ''k'' @ payload, sg_payload = payload\<rparr>, entry)) \<and>
    ee_grantExpiresAt entry = gw_now demo_gw + taskGrantTTL"
    using sync_ceremony [OF ch b refl refl _ refl _ _ _ _ d v, of ?r] now by (force simp: second_ns_def)
  then show ?thesis unfolding now by (auto simp: second_ns_def)
qed

section \<open>The enrollment socket\<close>

definition demo_enroll_cfg :: server_config where
  "demo_enroll_cfg = demo_cfg\<lparr>sc_KeyEnrollment := \<lparr>ke_Mode = ''server_os_login'',
     ke_ServerOSLogin = \<lparr>ol_AllowedAgents = [''web01''], ol_MinUID = 1000, ol_AllowedUsers = []\<rparr>\<rparr>\<rparr>"

definition demo_keylib :: key_lib where
  "demo_keylib = \<lparr>kl_ssh = demo_lib\<lparr>parseAuthorizedKey := Some\<rparr>, kl_kind = (\<lambda>_. Ed25519Key), kl_Marshal = (\<lambda>k. k),
     kl_Fingerprint = (\<lambda>k. ''SHA256:'' @ k)\<rparr>"

definition pack_request :: "local_request \<Rightarrow> bytes" where
  "pack_request r = pack (pack_all [lr_AgentCN r, lr_PublicKey r])"

definition unpack_request :: "bytes \<Rightarrow> local_request option" where
  "unpack_request b =
     (case unpack b of
        Some (x, t) \<Rightarrow> (case unpack_all x of
          Some [cn, key] \<Rightarrow> Some \<lparr>lr_AgentCN = cn, lr_PublicKey = key\<rparr> | _ \<Rightarrow> None)
      | None \<Rightarrow> None)"

definition pack_response :: "local_response \<Rightarrow> bytes" where
  "pack_response r = pack_all [rs_Fingerprint r, rs_Error r]"

definition unpack_response :: "bytes \<Rightarrow> local_response option" where
  "unpack_response b =
     (case unpack_all b of Some [f, e] \<Rightarrow> Some \<lparr>rs_Fingerprint = f, rs_Error = e\<rparr> | _ \<Rightarrow> None)"

lemma unpack_request_part: "unpack_request (take n (pack_request r)) \<in> {None, Some r}"
proof (cases "n < length (pack_request r)")
  case True
  then show ?thesis by (simp add: unpack_request_def pack_request_def unpack_prefix)
next
  case False
  then show ?thesis by (simp add: unpack_request_def pack_request_def)
qed

lemma unpack_response_pack: "unpack_response (pack_response r) = Some r" "unpack_response [] = None"
  by (simp_all add: unpack_response_def pack_response_def) (simp add: unpack_all_def)

definition demo_getent :: "nat \<Rightarrow> bytes result" where
  "demo_getent uid = (if uid = 1000 then Inr (passwd_record ''alice'' ''x'' 1000 ([''1000'', ''Alice'', ''/home/alice''] @ [''/bin/sh'']))
     else Inl (Errorf ''exit status 2''))"

definition demo_local :: local_server where
  "demo_local = \<lparr>ls_Config = Some demo_enroll_cfg, ls_KeysDir = ''/keys'', ls_ResolveIdentity = None,
     ls_keylib = demo_keylib, ls_getent = demo_getent, ls_decode = unpack_request, ls_text = (\<lambda>_. ''refused'')\<rparr>"

definition demo_conn :: local_conn where
  "demo_conn = \<lparr>cn_addr = Some \<lparr>px_UID = 1000, px_PID = 1, px_GID = 1000, px_Groups = []\<rparr>, cn_deadline = True,
     cn_input = pack_request \<lparr>lr_AgentCN = ''web01'', lr_PublicKey = ''k''\<rparr>, cn_faults = (\<lambda>_. False), cn_rnd = 7\<rparr>"

definition demo_flags :: enroll_flags where
  "demo_flags = \<lparr>ef_socket = ''/s'', ef_agent = ''web01'', ef_NArg = 0\<rparr>"

lemma demo_peer: "peerIdentity demo_getent demo_conn = Inr \<lparr>oi_Username = ''alice'', oi_UID = 1000\<rparr>"
proof -
  have "parseGetentPasswd (passwd_record ''alice'' ''x'' 1000 ([''1000'', ''Alice'', ''/home/alice''] @ [''/bin/sh''])) 1000 = Inr ''alice''"
    by (subst parseGetentPasswd_record) (simp_all add: is_space_def)
  then show ?thesis
    by (simp add: peerIdentity_def demo_conn_def lookupUsernameWithGetent_def demo_getent_def)
qed

abbreviation demo_enrolled where
  "demo_enrolled \<equiv> runKeyEnroll pack_request unpack_response (Inr demo_flags) (Inr ''k'') (\<lambda>_. None)
     (atLocal demo_local pack_response demo_conn) []"

lemma demo_Handle:
  assumes "f_get [''keys'', ''web01'', temp_name ''alice'' 7] fs = None"
  shows "\<exists>fs'. Handle demo_local demo_conn fs = (fs', Some \<lparr>rs_Fingerprint = ''SHA256:k'', rs_Error = []\<rparr>) \<and>
    f_get (key_path ''/keys'' ''web01'' ''alice'') fs' = Some (KeyText ''k'')"
proof -
  let ?i = "\<lparr>oi_Username = ''alice'', oi_UID = 1000\<rparr>" and ?r = "\<lparr>lr_AgentCN = ''web01'', lr_PublicKey = ''k''\<rparr>"
  have "length (pack_request ?r) \<le> localRequestLimit"
    by (simp add: pack_request_def pack_all_def pack_def localRequestLimit_def MaxPublicKeyBytes_def)
  then have r: "unpack_request (take localRequestLimit (pack_request ?r)) = Some ?r"
    by (simp add: unpack_request_def pack_request_def)
  have m: "may_enroll demo_enroll_cfg ?i ''web01''" "is_abs ''/keys''" and t: "trim_space ''k'' = ''k''"
    and k: "abs_comps ''/keys'' = [''keys'']"
    by code_simp+
  have a: "acceptKey demo_keylib ''k'' = Inr ''k''"
    by (simp add: acceptKey_def t MaxPublicKeyBytes_def demo_keylib_def validatePublicKey_def)
  obtain fs' p where E: "Enroll demo_keylib (\<lambda>_. False) 7 (Some demo_enroll_cfg) ?i ''web01'' ''k'' ''/keys'' fs =
      (fs', Inr \<lparr>er_Path = p, er_Fingerprint = kl_Fingerprint demo_keylib ''k''\<rparr>)"
    using Enroll_succeeds [OF refl m(1) a m(2), where fl = "\<lambda>_. False" and fs = fs and rnd = 7] assms k by auto
  obtain r' where "installKey (\<lambda>_. False) 7 ''/keys'' ''web01'' ''alice'' ''k'' fs = (fs', r')" "is_ok r'"
  proof -
    have "kl_Marshal demo_keylib ''k'' = ''k''" by (simp add: demo_keylib_def)
    then obtain r' where r': "installKey (\<lambda>_. False) 7 ''/keys'' ''web01'' ''alice'' ''k'' fs = (fs', r')"
      "Inr \<lparr>er_Path = p, er_Fingerprint = kl_Fingerprint demo_keylib ''k''\<rparr> =
        (case r' of Inl e \<Rightarrow> Inl e | Inr p \<Rightarrow> Inr \<lparr>er_Path = p, er_Fingerprint = kl_Fingerprint demo_keylib ''k''\<rparr>)"
      using Enroll_cases [OF E] a by auto
    then show thesis using that by (cases r') auto
  qed
  then have "f_get (key_path ''/keys'' ''web01'' ''alice'') fs' = Some (KeyText ''k'')"
    using installKey_key [of "\<lambda>_. False" 7 "''/keys''" "''web01''" "''alice''" "''k''" fs fs' r'] may_enroll_owner [OF m]
    by simp
  then show ?thesis
    using r demo_peer E by (simp add: Handle_def resolve_def demo_local_def demo_conn_def) (simp add: demo_keylib_def)
qed

lemma enrolled_via_client_witness:
  "\<exists>fs'. fst demo_enrolled = fs' \<and> LoadAuthorizedKey (kl_ssh demo_keylib) (\<lambda>_ _. False) ''/keys'' ''web01'' ''alice'' fs' = Inr ''k''"
proof -
  obtain fs' where h: "Handle demo_local demo_conn [] = (fs', Some \<lparr>rs_Fingerprint = ''SHA256:k'', rs_Error = []\<rparr>)"
    using demo_Handle [of "[]"] by (auto simp: f_get_def)
  have c: "demo_conn\<lparr>cn_input := pack_request \<lparr>lr_AgentCN = ''web01'', lr_PublicKey = ''k''\<rparr>\<rparr> = demo_conn"
    by (simp add: demo_conn_def)
  obtain out where run: "demo_enrolled = (fs', Inr out)"
    by (simp add: runKeyEnroll_def demo_flags_def Let_def MaxPublicKeyBytes_def atLocal_def c h unpack_response_pack)
  have p: "is_abs (ls_KeysDir demo_local)" by code_simp
  obtain i k where i: "resolve demo_local (demo_conn\<lparr>cn_input := pack_request \<lparr>lr_AgentCN = ef_agent demo_flags, lr_PublicKey = ''k''\<rparr>\<rparr>)
      = Inr i"
    and k: "parseAuthorizedKey (kl_ssh (ls_keylib demo_local)) (trim_space ''k'') = Some k"
    and l: "LoadAuthorizedKey (kl_ssh (ls_keylib demo_local)) (\<lambda>_ _. False) (ls_KeysDir demo_local) (ef_agent demo_flags)
      (oi_Username i) fs' = Inr k"
    using enrolled_via_client [OF run p _ unpack_response_pack] unpack_request_part
    by (auto simp: demo_local_def demo_keylib_def)
  have t: "trim_space ''k'' = ''k''" by code_simp
  have "i = \<lparr>oi_Username = ''alice'', oi_UID = 1000\<rparr>"
    using i demo_peer by (simp add: resolve_def demo_local_def demo_flags_def c)
  moreover have "k = ''k''" using k t by (simp add: demo_local_def demo_keylib_def)
  ultimately show ?thesis using run l by (simp add: demo_local_def demo_flags_def)
qed

section \<open>The server process\<close>

definition demo_proc :: "(unit \<times> string list list) server_proc" where
  "demo_proc = \<lparr>sd_cfg = demo_enroll_cfg,
     sd_state = demo_state\<lparr>ss_keys := [([''keys'', ''web01'', ''bob.pub''], KeyText ''b'')]\<rparr>\<rparr>"

lemma demo_connects:
  "\<exists>p'. server_step ''/keys'' demo_proc (Connected demo_local demo_conn) p' \<and> sd_cfg p' = sd_cfg demo_proc \<and>
     f_get (key_path ''/keys'' ''web01'' ''alice'') (ss_keys (sd_state p')) = Some (KeyText ''k'')"
proof -
  let ?p = "demo_proc\<lparr>sd_state := (sd_state demo_proc)\<lparr>ss_keys := fst (Handle demo_local demo_conn (ss_keys (sd_state demo_proc)))\<rparr>\<rparr>"
  have "server_step ''/keys'' demo_proc (Connected demo_local demo_conn) ?p"
    by (rule server_step.connect) (simp_all add: demo_local_def demo_proc_def)
  moreover have "f_get (key_path ''/keys'' ''web01'' ''alice'') (ss_keys (sd_state ?p)) = Some (KeyText ''k'')"
    using demo_Handle [of "ss_keys (sd_state demo_proc)"]
    by (auto simp: demo_proc_def f_get_def temp_name_def)
  ultimately show ?thesis by (intro exI [of _ ?p]) simp
qed

lemma demo_key_paths: "key_path ''/keys'' ''web01'' ''alice'' = [''keys'', ''web01'', ''alice.pub'']"
  "key_path ''/keys'' ''web01'' ''bob'' = [''keys'', ''web01'', ''bob.pub'']"
  by code_simp+

lemma key_change_witness:
  "\<exists>p' k. server_step ''/keys'' demo_proc (Connected demo_local demo_conn) p' \<and>
     f_get [''keys'', ''web01'', ''alice.pub''] (ss_keys (sd_state p')) = Some (KeyText k) \<and> strong_key (kl_kind demo_keylib k)"
proof -
  obtain p' where st: "server_step ''/keys'' demo_proc (Connected demo_local demo_conn) p'"
    and ks: "f_get (key_path ''/keys'' ''web01'' ''alice'') (ss_keys (sd_state p')) = Some (KeyText ''k'')"
    using demo_connects by blast
  have ok: "server_config_ok (sd_cfg demo_proc)" "is_abs ''/keys''" "hostnameRe ''web01''" "usernameRe ''alice''"
    by code_simp+
  have ne: "f_get (key_path ''/keys'' ''web01'' ''alice'') (ss_keys (sd_state p')) \<noteq>
      f_get (key_path ''/keys'' ''web01'' ''alice'') (ss_keys (sd_state demo_proc))"
    using ks by (simp add: demo_key_paths demo_proc_def f_get_def)
  from key_change [OF st ok ne] st show ?thesis
    by (auto simp: demo_local_def demo_keylib_def demo_key_paths)
qed

lemma other_keys_kept_witness:
  "\<exists>p'. server_run ''/keys'' demo_proc [Connected demo_local demo_conn, Reloaded] p' \<and>
     f_get [''keys'', ''web01'', ''alice.pub''] (ss_keys (sd_state p')) = Some (KeyText ''k'') \<and>
     f_get [''keys'', ''web01'', ''bob.pub''] (ss_keys (sd_state p')) = Some (KeyText ''b'')"
proof -
  obtain p' where st: "server_step ''/keys'' demo_proc (Connected demo_local demo_conn) p'"
    and ks: "f_get (key_path ''/keys'' ''web01'' ''alice'') (ss_keys (sd_state p')) = Some (KeyText ''k'')"
    using demo_connects by blast
  have "server_step ''/keys'' p' Reloaded (p'\<lparr>sd_cfg := sd_cfg p'\<rparr>)"
    by (rule server_step.reload [of _ "\<lambda>_. Inl (Errorf ''yaml'')" "Inl (Errorf ''open'')"])
      (simp_all add: reloadServer_def LoadServerConfig_def)
  then have run: "server_run ''/keys'' demo_proc [Connected demo_local demo_conn, Reloaded] p'"
    using st by (auto intro: server_run.intros)
  have ok: "server_config_ok (sd_cfg demo_proc)" "is_abs ''/keys''" "hostnameRe ''web01''" "usernameRe ''bob''"
    by code_simp+
  have "\<forall>ls conn i. Connected ls conn \<in> set [Connected demo_local demo_conn, Reloaded] \<longrightarrow>
      peerIdentity (ls_getent ls) conn = Inr i \<longrightarrow> oi_Username i \<noteq> ''bob''"
    using demo_peer by (auto simp: demo_local_def)
  from other_keys_kept [OF run ok this] run ks show ?thesis
    by (auto simp: demo_key_paths demo_proc_def f_get_def)
qed

section \<open>The command line\<close>


text \<open>The command reads its clock a nanosecond before the agent reads its own in the next second.\<close>






end
